(* ===== verification/EK_Prelude.thy ===== *)
theory EK_Prelude
  imports Main "HOL-Library.AList" "HOL-Library.Multiset" "HOL-Library.Product_Lexorder"
    "HOL-Library.List_Lexorder" "HOL-Library.Char_ord"
begin

text \<open>
  Shared vocabulary of the development.

  \<^item> Python dictionaries with their insertion order are association lists with distinct keys;
    \<open>d[k] = v\<close> is \<^const>\<open>AList.update\<close> (in place when the key exists, at the end otherwise),
    \<open>d.pop(k, None)\<close> is \<^const>\<open>AList.delete\<close>, \<open>d.get(k)\<close> is \<^const>\<open>map_of\<close>.
  \<^item> A sequence of \<open>if condition: raise error\<close> statements is a list of pairs read by
    \<open>raise_first\<close>.
  \<^item> Python slices \<open>xs[a:b]\<close> and \<open>range(0, n, c)\<close>.
  \<^item> Reachable states of a step relation and the locale that turns an inductive invariant
    into a property of every reachable state.
\<close>

named_theorems ek_defs \<open>definitions unfolded by the component proofs\<close>
named_theorems ek_inv \<open>preservation of component invariants\<close>

section \<open>Guard sequences\<close>

text \<open>The first violated condition raises its error; \<open>None\<close> when no statement raises.\<close>

fun raise_first :: "(bool \<times> 'e) list \<Rightarrow> 'e option" where
  "raise_first [] = None"
| "raise_first ((c, e) # rest) = (if c then Some e else raise_first rest)"

lemma raise_first_append:
  "raise_first (xs @ ys) = (case raise_first xs of None \<Rightarrow> raise_first ys | Some e \<Rightarrow> Some e)"
  by (induction xs rule: raise_first.induct) auto

lemma raise_first_None_iff: "raise_first xs = None \<longleftrightarrow> (\<forall>p\<in>set xs. \<not> fst p)"
  by (induction xs rule: raise_first.induct) auto

lemma raise_first_None_simps [simp]:
  "raise_first [] = None"
  "raise_first ((c, e) # xs) = None \<longleftrightarrow> \<not> c \<and> raise_first xs = None"
  "raise_first (xs @ ys) = None \<longleftrightarrow> raise_first xs = None \<and> raise_first ys = None"
  by (auto simp: raise_first_append split: option.splits)

declare raise_first.simps(2) [simp del]

lemma or_else_None [simp]:
  "(case g of None \<Rightarrow> h | Some e \<Rightarrow> Some e) = None \<longleftrightarrow> g = None \<and> h = None"
  by (cases g) auto

text \<open>Run a computation only if the guards before it raise nothing.\<close>

definition after :: "'e option \<Rightarrow> ('e + 'a) \<Rightarrow> 'e + 'a" where
  "after g r = (case g of Some e \<Rightarrow> Inl e | None \<Rightarrow> r)"

lemma after_simps [simp]: "after None r = r" "after (Some e) r = Inl e"
  by (simp_all add: after_def)

lemma after_eq_Inr [simp]: "after g r = Inr x \<longleftrightarrow> g = None \<and> r = Inr x"
  by (simp add: after_def split: option.splits)

definition rbind :: "'e + 'a \<Rightarrow> ('a \<Rightarrow> 'e + 'b) \<Rightarrow> 'e + 'b" where
  "rbind r f = (case r of Inl e \<Rightarrow> Inl e | Inr x \<Rightarrow> f x)"

lemma rbind_simps [simp]: "rbind (Inl e) f = Inl e" "rbind (Inr x) f = f x"
  by (simp_all add: rbind_def)

lemma rbind_eq_Inr [simp]: "rbind r f = Inr y \<longleftrightarrow> (\<exists>x. r = Inr x \<and> f x = Inr y)"
  by (simp add: rbind_def split: sum.splits)

fun rmap :: "('a \<Rightarrow> 'e + 'b) \<Rightarrow> 'a list \<Rightarrow> 'e + 'b list" where
  "rmap f [] = Inr []"
| "rmap f (x # xs) = rbind (f x) (\<lambda>y. rbind (rmap f xs) (\<lambda>ys. Inr (y # ys)))"

lemma rmap_eq_Inr_iff:
  "rmap f xs = Inr ys \<longleftrightarrow> length ys = length xs \<and> (\<forall>i<length xs. f (xs ! i) = Inr (ys ! i))"
proof (induction xs arbitrary: ys)
  case Nil
  then show ?case by auto
next
  case (Cons x xs)
  show ?case
  proof (cases ys)
    case Nil
    then show ?thesis by auto
  next
    case (Cons y zs)
    then show ?thesis by (auto simp: Cons.IH nth_Cons split: nat.splits)
  qed
qed

lemma rmap_Inr: "(\<And>x. x \<in> set xs \<Longrightarrow> f x = Inr (g x)) \<Longrightarrow> rmap f xs = Inr (map g xs)"
  by (induction xs) auto

section \<open>Dictionaries\<close>

type_synonym ('k, 'v) dict = "('k \<times> 'v) list"

definition dict_ok :: "('k, 'v) dict \<Rightarrow> bool" where
  "dict_ok d \<longleftrightarrow> distinct (map fst d)"

definition dict_setdefault :: "'k \<Rightarrow> 'v \<Rightarrow> ('k, 'v) dict \<Rightarrow> ('k, 'v) dict" where
  "dict_setdefault k v d = (case map_of d k of None \<Rightarrow> d @ [(k, v)] | Some _ \<Rightarrow> d)"

text \<open>\<open>==\<close> of two dictionaries, which ignores the insertion order.\<close>

definition dict_eq :: "('k, 'v) dict \<Rightarrow> ('k, 'v) dict \<Rightarrow> bool" where
  "dict_eq d e \<longleftrightarrow> length d = length e \<and> (\<forall>p\<in>set d. map_of e (fst p) = Some (snd p))"

lemma dict_ok_Nil [simp]: "dict_ok []"
  by (simp add: dict_ok_def)

lemma dict_ok_update [simp]: "dict_ok d \<Longrightarrow> dict_ok (AList.update k v d)"
  by (simp add: dict_ok_def distinct_update)

lemma dict_ok_delete [simp]: "dict_ok d \<Longrightarrow> dict_ok (AList.delete k d)"
  by (simp add: dict_ok_def distinct_delete)

lemma map_of_update [simp]: "map_of (AList.update k v d) = (map_of d)(k \<mapsto> v)"
  by (rule update_conv')

lemma map_of_setdefault [simp]:
  "map_of (dict_setdefault k v d) = (case map_of d k of None \<Rightarrow> (map_of d)(k \<mapsto> v) | Some _ \<Rightarrow> map_of d)"
proof (cases "map_of d k")
  case None
  then have "map_of (d @ [(k, v)]) x = ((map_of d)(k \<mapsto> v)) x" for x
    by (simp add: map_add_def split: option.splits)
  with None show ?thesis by (auto simp: dict_setdefault_def)
qed (simp add: dict_setdefault_def)

lemma dict_ok_setdefault [simp]: "dict_ok d \<Longrightarrow> dict_ok (dict_setdefault k v d)"
  by (auto simp: dict_ok_def dict_setdefault_def map_of_eq_None_iff split: option.splits)

lemma map_of_delete [simp]: "map_of (AList.delete k d) = (map_of d)(k := None)"
  by (rule delete_conv')

lemma dict_ok_map_of: "dict_ok d \<Longrightarrow> (k, v) \<in> set d \<longleftrightarrow> map_of d k = Some v"
  by (simp add: dict_ok_def)

lemma dict_eq_map_of:
  assumes "dict_ok d" and "dict_ok e"
  shows "dict_eq d e \<longleftrightarrow> map_of d = map_of e"
proof
  assume eq: "dict_eq d e"
  have sub: "set d \<subseteq> set e" using eq assms(2) by (force simp: dict_eq_def dict_ok_def)
  have "card (set d) = card (set e)"
    using eq assms by (metis dict_eq_def dict_ok_def distinct_card distinct_map)
  then have "set d = set e" using sub by (meson List.finite_set card_subset_eq)
  then show "map_of d = map_of e" using assms by (simp add: dict_ok_def map_of_inject_set)
next
  assume eq: "map_of d = map_of e"
  then have "set d = set e" using assms by (simp add: dict_ok_def map_of_inject_set)
  then have "length d = length e" using assms by (metis dict_ok_def distinct_card distinct_map)
  moreover have "map_of e (fst p) = Some (snd p)" if "p \<in> set d" for p
    using that assms(1) eq by (metis dict_ok_map_of prod.collapse)
  ultimately show "dict_eq d e" by (simp add: dict_eq_def)
qed

text \<open>A present key splits the dictionary; deletion and in-place update act at the split.\<close>

lemma dict_split:
  assumes "dict_ok d" and "map_of d k = Some v"
  obtains xs ys where "d = xs @ (k, v) # ys" and "k \<notin> fst ` set xs" and "k \<notin> fst ` set ys"
    and "AList.delete k d = xs @ ys" and "\<And>f. AList.map_entry k f d = xs @ (k, f v) # ys"
    and "\<And>w. AList.update k w d = xs @ (k, w) # ys"
proof -
  from map_of_SomeD [OF assms(2)] obtain xs ys where d: "d = xs @ (k, v) # ys"
    by (meson split_list)
  with assms(1) have k: "k \<notin> fst ` set xs" "k \<notin> fst ` set ys"
    by (auto simp: dict_ok_def)
  have "filter (\<lambda>(k', _). k \<noteq> k') zs = zs" if "k \<notin> fst ` set zs" for zs :: "('a \<times> 'b) list"
    using that by (force simp: filter_id_conv)
  then have "AList.delete k d = xs @ ys"
    using k by (simp add: d AList.delete_eq)
  moreover have "AList.map_entry k f (zs @ (k, v) # ys) = zs @ (k, f v) # ys" if "k \<notin> fst ` set zs" for f zs
    using that by (induction zs) auto
  moreover have "AList.update k w (zs @ (k, v) # ys) = zs @ (k, w) # ys" if "k \<notin> fst ` set zs" for w zs
    using that by (induction zs) auto
  ultimately show ?thesis
    using that d k by blast
qed

lemma dict_update_new: "map_of d k = None \<Longrightarrow> AList.update k v d = d @ [(k, v)]"
  by (induction d) (auto split: if_splits)

section \<open>Slices and chunking\<close>

definition slice :: "nat \<Rightarrow> nat \<Rightarrow> 'a list \<Rightarrow> 'a list" where
  "slice a b xs = take (b - a) (drop a xs)"

text \<open>The elements of \<open>range(0, n, c)\<close>.\<close>

definition chunk_starts :: "nat \<Rightarrow> nat \<Rightarrow> nat list" where
  "chunk_starts n c = map (\<lambda>i. i * c) [0 ..< (n + c - 1) div c]"

lemma length_slice: "length (slice a b xs) = min (b - a) (length xs - a)"
  by (simp add: slice_def)

lemma slice_map: "slice a b (map f xs) = map f (slice a b xs)"
  by (simp add: slice_def take_map drop_map)

lemma slice_zip: "slice a b (zip xs ys) = zip (slice a b xs) (slice a b ys)"
  by (simp add: slice_def take_zip drop_zip)

lemma set_slice_subset: "set (slice a b xs) \<subseteq> set xs"
  unfolding slice_def by (meson set_drop_subset set_take_subset subset_trans)

lemma nth_slice: "a \<le> length xs \<Longrightarrow> i < length (slice a b xs) \<Longrightarrow> slice a b xs ! i = xs ! (a + i)"
  by (simp add: slice_def)

lemma slice_join:
  assumes "a \<le> b" and "b \<le> c"
  shows "slice a b xs @ slice b c xs = slice a c xs"
proof -
  have "take ((b - a) + (c - b)) (drop a xs) = take (b - a) (drop a xs) @ take (c - b) (drop (b - a) (drop a xs))"
    by (rule take_add)
  then show ?thesis using assms by (simp add: slice_def)
qed

lemma slice_all [simp]: "slice 0 (length xs) xs = xs"
  by (simp add: slice_def)

lemma int_div_mult_le: "0 < (b::int) \<Longrightarrow> x div b * b \<le> x"
  using div_mult_mod_eq [of x b] pos_mod_sign [of b x] by linarith

lemma ceil_div_bounds:
  assumes "0 < (c::nat)"
  shows "n \<le> ((n + c - 1) div c) * c" and "i < (n + c - 1) div c \<Longrightarrow> i * c < n"
proof -
  have split: "(n + c - 1) = ((n + c - 1) div c) * c + (n + c - 1) mod c"
    by simp
  have r: "(n + c - 1) mod c \<le> c - 1"
    using assms by (metis Suc_diff_1 less_Suc_eq_le mod_less_divisor)
  then show "n \<le> ((n + c - 1) div c) * c"
    using split assms by linarith
  assume "i < (n + c - 1) div c"
  then have "(Suc i) * c \<le> ((n + c - 1) div c) * c"
    by (intro mult_le_mono1) simp
  also have "\<dots> \<le> n + c - 1"
    by simp
  finally show "i * c < n"
    using assms by simp
qed

lemma concat_slices_upto:
  "concat (map (\<lambda>i. slice (i * c) (i * c + c) xs) [0 ..< m]) = take (m * c) xs"
proof (induction m)
  case (Suc m)
  have "take (m * c) xs @ take c (drop (m * c) xs) = take (m * c + c) xs"
    by (simp add: take_add)
  with Suc show ?case
    by (simp add: slice_def add.commute)
qed simp

lemma slice_min_length:
  "length xs \<le> n \<Longrightarrow> slice a (min b n) xs = slice a b xs"
  by (auto simp: slice_def min_def)

lemma concat_chunks:
  assumes "0 < c" and "length xs = n"
  shows "concat (map (\<lambda>a. slice a (min (a + c) n) xs) (chunk_starts n c)) = xs"
proof -
  have "concat (map (\<lambda>a. slice a (min (a + c) n) xs) (chunk_starts n c))
      = concat (map (\<lambda>i. slice (i * c) (i * c + c) xs) [0 ..< (n + c - 1) div c])"
    using assms(2) by (simp add: chunk_starts_def comp_def slice_min_length)
  also have "\<dots> = take (((n + c - 1) div c) * c) xs"
    by (rule concat_slices_upto)
  also have "\<dots> = xs"
    using ceil_div_bounds(1) [OF assms(1), of n] assms(2) by simp
  finally show ?thesis .
qed

section \<open>Sorted lists without duplicates\<close>

lemma strict_sorted_unique:
  "sorted_wrt (<) (xs :: 'a::linorder list) \<Longrightarrow> sorted_wrt (<) ys \<Longrightarrow> set xs = set ys \<Longrightarrow> xs = ys"
  by (metis sorted_list_of_set.idem_if_sorted_distinct strict_sorted_iff)

lemma strict_sorted_filter_upt: "sorted_wrt (<) (filter P [0 ..< n])"
  by (rule sorted_wrt_filter) simp

section \<open>Reachable states and inductive invariants\<close>

inductive reachable :: "('s \<Rightarrow> bool) \<Rightarrow> ('s \<Rightarrow> 's \<Rightarrow> bool) \<Rightarrow> 's \<Rightarrow> bool" for init step where
  reach_init: "init s \<Longrightarrow> reachable init step s"
| reach_step: "reachable init step s \<Longrightarrow> step s t \<Longrightarrow> reachable init step t"

locale invariant_system =
  fixes init :: "'s \<Rightarrow> bool"
    and step :: "'s \<Rightarrow> 's \<Rightarrow> bool"
    and inv :: "'s \<Rightarrow> bool"
  assumes inv_init: "init s \<Longrightarrow> inv s"
    and inv_step: "inv s \<Longrightarrow> step s t \<Longrightarrow> inv t"
begin

lemma reachable_inv: "reachable init step s \<Longrightarrow> inv s"
  by (induction rule: reachable.induct) (auto intro: inv_init inv_step)

lemma reachable_path_inv:
  assumes "inv s" and "step\<^sup>*\<^sup>* s t"
  shows "inv t"
  using assms(2,1) by (induction rule: rtranclp_induct) (auto intro: inv_step)

end

section \<open>Gates that drain a resource\<close>

text \<open>
  The contract shared by every mechanism that stops new uses of a key and then waits for the existing
  ones: a closed gate stays closed until it is cleared, and no operation adds a use behind it.
\<close>

locale drain_gate =
  fixes apply_op :: "'o \<Rightarrow> 's \<Rightarrow> 's"
    and inv :: "'s \<Rightarrow> bool"
    and gated :: "'s \<Rightarrow> 'k \<Rightarrow> bool"
    and in_use :: "'s \<Rightarrow> 'k \<Rightarrow> int"
    and clears :: "'o \<Rightarrow> 'k \<Rightarrow> bool"
  assumes inv_kept: "inv s \<Longrightarrow> inv (apply_op op s)"
    and use_nonneg: "inv s \<Longrightarrow> 0 \<le> in_use s k"
    and gate_kept: "inv s \<Longrightarrow> gated s k \<Longrightarrow> \<not> clears op k \<Longrightarrow> gated (apply_op op s) k"
    and no_new_use: "inv s \<Longrightarrow> gated s k \<Longrightarrow> in_use (apply_op op s) k \<le> in_use s k"
begin

lemma use_decreases:
  assumes "inv s" and "gated s k" and "\<forall>op\<in>set ops. \<not> clears op k"
  shows "gated (fold apply_op ops s) k \<and> in_use (fold apply_op ops s) k \<le> in_use s k"
  using assms
proof (induction ops arbitrary: s)
  case (Cons op ops)
  then have "gated (fold apply_op ops (apply_op op s)) k \<and>
      in_use (fold apply_op ops (apply_op op s)) k \<le> in_use (apply_op op s) k"
    by (intro Cons.IH) (auto intro: inv_kept gate_kept)
  with no_new_use [of s k op] Cons.prems show ?case by simp
qed simp

lemma inv_run: "inv s \<Longrightarrow> inv (fold apply_op ops s)"
  by (induction ops arbitrary: s) (simp_all add: inv_kept)

lemma drained_for_good:
  assumes "inv s" and "gated s k" and "in_use s k = 0" and "\<forall>op\<in>set ops. \<not> clears op k"
  shows "in_use (fold apply_op ops s) k = 0"
  using use_decreases [OF assms(1,2,4)] use_nonneg [OF inv_run [OF assms(1)], of ops k] assms(3) by linarith

end

end
