(* ===== verification/Errors.thy ===== *)
theory Errors
  imports EK_Prelude
begin

text \<open>
  The exceptions of the two Python packages. \<open>transport_error\<close> is the class
  \<open>TransportError\<close> of \<open>ek-transport/src/expertkit_transport/errors.py\<close> with all its attributes;
  \<open>exn\<close> collects every exception class the modelled code raises, so that a Python function
  that may raise is a function into \<open>exn + 'a\<close>. An \<open>ExceptionGroup\<close> raised by a task group is
  represented by the first exception that aborted the group; \<open>OtherException\<close> is any exception of a
  class the code does not distinguish.
\<close>

datatype transport_error_code =
    BUSY | DRAINING | STALE_TOPOLOGY | EXPERT_NOT_READY | INVALID_REQUEST | UNSUPPORTED
  | UNAVAILABLE | DEADLINE_EXCEEDED | CANCELLED | PROTOCOL

record transport_error =
  te_code :: transport_error_code
  te_retryable :: bool
  te_observed_topology_version :: "int option"
  te_min_topology_version :: "int option"
  te_unavailable_expert_ids :: "int list"
  te_diagnostic :: string

text \<open>The constructor with its keyword defaults.\<close>

definition TransportError :: "transport_error_code \<Rightarrow> bool \<Rightarrow> string \<Rightarrow> transport_error" where
  "TransportError c r d =
     \<lparr>te_code = c, te_retryable = r, te_observed_topology_version = None,
      te_min_topology_version = None, te_unavailable_expert_ids = [], te_diagnostic = d\<rparr>"

lemma TransportError_sel [simp]:
  "te_code (TransportError c r d) = c"
  "te_retryable (TransportError c r d) = r"
  "te_observed_topology_version (TransportError c r d) = None"
  "te_min_topology_version (TransportError c r d) = None"
  "te_unavailable_expert_ids (TransportError c r d) = []"
  "te_diagnostic (TransportError c r d) = d"
  by (simp_all add: TransportError_def)

text \<open>\<open>BackendFatalReason\<close> of \<open>ek-worker/src/expertkit_worker/backends/base.py\<close>.\<close>

datatype backend_fatal_reason = DEVICE_OOM | DEVICE_FAILURE | ASYNC_EXECUTION | UNEXPECTED

datatype exn =
    ValueError string
  | TypeError string
  | RuntimeError string
  | AssertionError string
  | KeyError
  | IndexError
  | TimeoutError string
  | Raised_TransportError transport_error
  | TransportProtocolError string
  | TopologyProtocolError string
  | ReceiverClosed string
  | SharedMemorySlotBusy string
  | WeightsNotReady "int list"
  | SafeTensorFormatError string
  | CancelledError
  | AioRpcError
  | WeightControlDrainError string
  | OutOfMemoryError string
  | BackendRequestError string
  | InvalidBackendInput string
  | UnsupportedBackendBatch string
  | BackendWeightUnavailable "int list"
  | BackendFatalError backend_fatal_reason string
  | OtherException string
  | ExceptionGroup exn

type_synonym 'a result = "exn + 'a"

abbreviation uint32_max :: int where "uint32_max \<equiv> 2 ^ 32 - 1"
abbreviation uint64_max :: int where "uint64_max \<equiv> 2 ^ 64 - 1"

end
