(* ===== verification/Tensors.thy ===== *)
theory Tensors
  imports Errors
begin

text \<open>
  Tensors as the Python code sees them: shape, dtype and device metadata plus the values
  (a list of rows for a two-dimensional Tensor, a list for a one-dimensional one).
  Element-by-element Tensor expressions (comparison, \<open>torch.where\<close>, \<open>torch.any\<close>, \<open>nonzero\<close>,
  row indexing and slicing) are written as list functions at their use sites.

  Torch's own kernels are not part of the repository, so what the code uses of them is a
  parameter: a value \<open>T :: 'f torch_ops\<close> gives the floating-point type \<open>'f\<close> its zero,
  its comparison with zero, its FP32 addition and its dtype conversion, and gives the integer
  conversions and the \<open>int32\<close> \<open>scatter_add_\<close>. The documented behaviour of the integer
  operations that some properties rely on is stated by \<open>torch_int_doc\<close>; nothing is assumed
  of the floating-point operations.
\<close>

datatype dtype = Float16 | BFloat16 | Float32 | Float64 | Int8 | Int16 | Int32 | Int64
  | UInt8 | UInt16 | UInt32 | UInt64 | BoolD

type_synonym 'a matrix = "'a list list"

record 'd tensor =
  t_shape :: "nat list"
  t_dtype :: dtype
  t_device :: string
  t_data :: 'd

abbreviation ndim :: "('d, 'z) tensor_scheme \<Rightarrow> nat" where "ndim t \<equiv> length (t_shape t)"
abbreviation dim0 :: "('d, 'z) tensor_scheme \<Rightarrow> nat" where "dim0 t \<equiv> t_shape t ! 0"
abbreviation dim1 :: "('d, 'z) tensor_scheme \<Rightarrow> nat" where "dim1 t \<equiv> t_shape t ! 1"

text \<open>The agreement of metadata and values that torch maintains.\<close>

definition matrix_ok :: "'a matrix tensor \<Rightarrow> bool" where
  "matrix_ok t \<longleftrightarrow> ndim t = 2 \<and> length (t_data t) = dim0 t \<and>
     (\<forall>r \<in> set (t_data t). length r = dim1 t)"

definition vector_ok :: "'a list tensor \<Rightarrow> bool" where
  "vector_ok t \<longleftrightarrow> t_shape t = [length (t_data t)]"

definition mk_matrix :: "dtype \<Rightarrow> string \<Rightarrow> nat \<Rightarrow> 'a matrix \<Rightarrow> 'a matrix tensor" where
  "mk_matrix d dev k rows =
     \<lparr>t_shape = [length rows, k], t_dtype = d, t_device = dev, t_data = rows\<rparr>"

definition mk_vector :: "dtype \<Rightarrow> string \<Rightarrow> 'a list \<Rightarrow> 'a list tensor" where
  "mk_vector d dev xs = \<lparr>t_shape = [length xs], t_dtype = d, t_device = dev, t_data = xs\<rparr>"

lemma mk_matrix_sel [simp]:
  "t_shape (mk_matrix d dev k rows) = [length rows, k]" "t_dtype (mk_matrix d dev k rows) = d"
  "t_device (mk_matrix d dev k rows) = dev" "t_data (mk_matrix d dev k rows) = rows"
  by (simp_all add: mk_matrix_def)

lemma mk_vector_sel [simp]:
  "t_shape (mk_vector d dev xs) = [length xs]" "t_dtype (mk_vector d dev xs) = d"
  "t_device (mk_vector d dev xs) = dev" "t_data (mk_vector d dev xs) = xs"
  by (simp_all add: mk_vector_def)

lemma matrix_ok_mk [simp]: "matrix_ok (mk_matrix d dev k rows) \<longleftrightarrow> (\<forall>r\<in>set rows. length r = k)"
  by (simp add: matrix_ok_def)

lemma vector_ok_mk [simp]: "vector_ok (mk_vector d dev xs)"
  by (simp add: vector_ok_def)

text \<open>\<open>torch.iinfo(dtype).min\<close> and \<open>.max\<close>; \<open>None\<close> where torch raises \<open>TypeError\<close>.\<close>

fun iinfo :: "dtype \<Rightarrow> (int \<times> int) option" where
  "iinfo Int8 = Some (- (2 ^ 7), 2 ^ 7 - 1)"
| "iinfo Int16 = Some (- (2 ^ 15), 2 ^ 15 - 1)"
| "iinfo Int32 = Some (- (2 ^ 31), 2 ^ 31 - 1)"
| "iinfo Int64 = Some (- (2 ^ 63), 2 ^ 63 - 1)"
| "iinfo UInt8 = Some (0, 2 ^ 8 - 1)"
| "iinfo UInt16 = Some (0, 2 ^ 16 - 1)"
| "iinfo UInt32 = Some (0, 2 ^ 32 - 1)"
| "iinfo UInt64 = Some (0, 2 ^ 64 - 1)"
| "iinfo _ = None"

record 'f torch_ops =
  f_zero :: 'f
  f_nonzero :: "'f \<Rightarrow> bool"
  f_add :: "'f \<Rightarrow> 'f \<Rightarrow> 'f"
  f_to :: "dtype \<Rightarrow> 'f \<Rightarrow> 'f"
  i_to_int32 :: "int \<Rightarrow> int"
  i_to_float64 :: "int \<Rightarrow> int"
  i_scatter_add :: "nat \<Rightarrow> nat list \<Rightarrow> int list \<Rightarrow> exn + int list"

text \<open>
  Documented behaviour of the integer operations: conversion to \<open>int32\<close> is exact in the
  \<open>int32\<close> range; conversion of an unsigned 64-bit value to \<open>float64\<close> is exact up to
  \<open>2\<^sup>5\<^sup>3\<close> and never goes below it from above; \<open>zeros(n, int32).scatter_add_(0, idx, src)\<close>
  with every index in range adds up, in \<open>int32\<close> arithmetic, the sources of each index.
\<close>

definition scatter_sum :: "nat list \<Rightarrow> int list \<Rightarrow> nat \<Rightarrow> int" where
  "scatter_sum idx src j = sum_list (map snd (filter (\<lambda>p. fst p = j) (zip idx src)))"

definition scatter_add_doc :: "('f, 'z) torch_ops_scheme \<Rightarrow> bool" where
  "scatter_add_doc T \<longleftrightarrow> (\<forall>n idx src. length idx = length src \<longrightarrow> (\<forall>i\<in>set idx. i < n) \<longrightarrow>
     i_scatter_add T n idx src = Inr (map (\<lambda>j. signed_take_bit 31 (scatter_sum idx src j)) [0 ..< n]))"

definition torch_int_doc :: "('f, 'z) torch_ops_scheme \<Rightarrow> bool" where
  "torch_int_doc T \<longleftrightarrow>
     (\<forall>x. - (2 ^ 31) \<le> x \<and> x < 2 ^ 31 \<longrightarrow> i_to_int32 T x = x) \<and>
     (\<forall>x. 0 \<le> x \<and> x \<le> 2 ^ 53 \<longrightarrow> i_to_float64 T x = x) \<and>
     (\<forall>x. 2 ^ 53 < x \<longrightarrow> 2 ^ 53 \<le> i_to_float64 T x) \<and>
     scatter_add_doc T"

text \<open>A reference instance with integers as the number type, used to evaluate examples.\<close>

definition torch_ref :: "int torch_ops" where
  "torch_ref =
     \<lparr>f_zero = 0, f_nonzero = (\<lambda>x. x \<noteq> 0), f_add = (+), f_to = (\<lambda>_ x. x),
      i_to_int32 = signed_take_bit 31,
      i_to_float64 = (\<lambda>x. x),
      i_scatter_add = (\<lambda>n idx src.
        if list_all (\<lambda>i. i < n) idx
        then Inr (map (\<lambda>j. signed_take_bit 31 (scatter_sum idx src j)) [0 ..< n])
        else Inl (RuntimeError ''index out of bounds''))\<rparr>"

lemma torch_ref_doc: "torch_int_doc torch_ref"
  by (auto simp: torch_int_doc_def scatter_add_doc_def torch_ref_def list_all_iff
      intro: signed_take_bit_int_eq_self)

lemma torch_doc_int32: "torch_int_doc T \<Longrightarrow> - (2 ^ 31) \<le> x \<Longrightarrow> x < 2 ^ 31 \<Longrightarrow> i_to_int32 T x = x"
  by (simp add: torch_int_doc_def)

lemma torch_doc_scatter:
  assumes "torch_int_doc T" and "length idx = length src" and "\<And>i. i \<in> set idx \<Longrightarrow> i < n"
  shows "i_scatter_add T n idx src = Inr (map (\<lambda>j. signed_take_bit 31 (scatter_sum idx src j)) [0 ..< n])"
  using assms unfolding torch_int_doc_def scatter_add_doc_def by blast

text \<open>
  A count table: scattering the 0/1 validity flags of fewer than \<open>2\<^sup>3\<^sup>2\<close> positions leaves a
  nonzero entry exactly at the indices that some valid position names.
\<close>

lemma scatter_sum_count:
  "scatter_sum idx (map (\<lambda>v. if v then 1 else 0) valid) j
     = int (length (filter (\<lambda>p. fst p = j \<and> snd p) (zip idx valid)))"
proof (induction idx arbitrary: valid)
  case Nil
  then show ?case by (simp add: scatter_sum_def)
next
  case (Cons i idx)
  show ?case
  proof (cases valid)
    case Nil
    then show ?thesis by (simp add: scatter_sum_def)
  next
    case (Cons v vs)
    have "scatter_sum (i # idx) (map (\<lambda>v. if v then 1 else 0) (v # vs)) j
       = (if i = j \<and> v then 1 else 0) + scatter_sum idx (map (\<lambda>v. if v then 1 else 0) vs) j"
      by (simp add: scatter_sum_def)
    with Cons Cons.IH [of vs] show ?thesis by simp
  qed
qed

lemma signed_take_bit_31_zero_iff:
  assumes "0 \<le> x" and "x < 2 ^ 32"
  shows "signed_take_bit 31 x = (0::int) \<longleftrightarrow> x = 0"
proof -
  have "take_bit (Suc 31) (signed_take_bit 31 x) = take_bit (Suc 31) x"
    by (rule take_bit_signed_take_bit) simp
  moreover have "take_bit (Suc 31) x = x"
    using assms by (simp add: take_bit_int_eq_self)
  ultimately show ?thesis by auto
qed

lemma count_table_nonzero:
  assumes "length idx < 2 ^ 32"
  shows "signed_take_bit 31 (scatter_sum idx (map (\<lambda>v. if v then 1 else 0) valid) j) \<noteq> 0
     \<longleftrightarrow> (j, True) \<in> set (zip idx valid)"
proof -
  let ?c = "length (filter (\<lambda>p. fst p = j \<and> snd p) (zip idx valid))"
  have "?c \<le> length (zip idx valid)"
    by (rule length_filter_le)
  also have "\<dots> \<le> length idx"
    by simp
  finally have "?c \<le> length idx" .
  then have "?c < 2 ^ 32"
    using assms by (rule le_less_trans)
  then have "int ?c < 2 ^ 32"
    by (metis of_nat_less_iff of_nat_numeral of_nat_power)
  then have "signed_take_bit 31 (int ?c) = 0 \<longleftrightarrow> ?c = 0"
    using signed_take_bit_31_zero_iff [of "int ?c"] by simp
  moreover have "?c = 0 \<longleftrightarrow> (j, True) \<notin> set (zip idx valid)"
    by (auto simp: filter_empty_conv)
  ultimately show ?thesis
    by (simp add: scatter_sum_count)
qed

end
