(* ===== verification/Batches.thy ===== *)
theory Batches
  imports Tensors
begin

text \<open>
  \<open>ek-transport/src/expertkit_transport/batches.py\<close>: the two batch dataclasses and the checks
  their \<open>__post_init__\<close> methods run, in order. The \<open>isinstance\<close> tests are discharged by the
  HOL types. A constructor call \<open>RoutedLayerBatch(...)\<close> is the record followed by its
  \<open>post_init\<close>, which is \<open>None\<close> when no check raises.
\<close>

definition ACTIVATION_DTYPES :: "dtype list" where
  "ACTIVATION_DTYPES = [Float16, BFloat16, Float32]"

definition require_unsigned :: "string \<Rightarrow> int \<Rightarrow> int \<Rightarrow> (bool \<times> exn) list" where
  "require_unsigned name value maximum =
     [(\<not> (0 \<le> value \<and> value \<le> maximum), ValueError (name @ '' must be an integer in range''))]"

definition validate_routing_tensors ::
  "'f matrix tensor \<Rightarrow> int matrix tensor \<Rightarrow> 'f matrix tensor \<Rightarrow> (bool \<times> exn) list" where
  "validate_routing_tensors hidden_states expert_ids routing_weights =
     [(ndim hidden_states \<noteq> 2, ValueError ''hidden_states must have shape [token_count, hidden_dim]''),
      (dim0 hidden_states = 0 \<or> dim1 hidden_states = 0, ValueError ''hidden_states dimensions must be positive''),
      (t_dtype hidden_states \<notin> set ACTIVATION_DTYPES, ValueError ''hidden_states must use FP16, BF16, or FP32''),
      (ndim expert_ids \<noteq> 2 \<or> dim0 expert_ids \<noteq> dim0 hidden_states,
        ValueError ''expert_ids must have shape [token_count, top_k]''),
      (dim1 expert_ids = 0, ValueError ''top_k must be positive''),
      (t_dtype expert_ids \<noteq> Int32, ValueError ''expert_ids must use int32''),
      (t_device expert_ids \<noteq> t_device hidden_states,
        ValueError ''expert_ids and hidden_states must be on the same device''),
      (t_shape routing_weights \<noteq> t_shape expert_ids,
        ValueError ''routing_weights must have the same shape as expert_ids''),
      (t_dtype routing_weights \<noteq> Float32, ValueError ''routing_weights must use FP32''),
      (t_device routing_weights \<noteq> t_device hidden_states,
        ValueError ''routing_weights and hidden_states must be on the same device'')]"

fun validate_distinct_expert_ids :: "int \<Rightarrow> int list \<Rightarrow> exn option" where
  "validate_distinct_expert_ids previous [] = None"
| "validate_distinct_expert_ids previous (expert_id # rest) =
     (case raise_first (require_unsigned ''distinct expert ID'' expert_id uint32_max) of
        Some e \<Rightarrow> Some e
      | None \<Rightarrow>
          if expert_id \<le> previous
          then Some (ValueError ''distinct_expert_ids must be sorted with no duplicates'')
          else validate_distinct_expert_ids expert_id rest)"

record 'f routed_layer_batch =
  rb_instance_id :: int
  rb_layer_id :: int
  rb_hidden_states :: "'f matrix tensor"
  rb_expert_ids :: "int matrix tensor"
  rb_routing_weights :: "'f matrix tensor"
  rb_distinct_expert_ids :: "int list"

definition routed_layer_batch_post_init :: "'f routed_layer_batch \<Rightarrow> exn option" where
  "routed_layer_batch_post_init b =
     (case raise_first
        (require_unsigned ''instance_id'' (rb_instance_id b) uint64_max @
         require_unsigned ''layer_id'' (rb_layer_id b) uint32_max @
         validate_routing_tensors (rb_hidden_states b) (rb_expert_ids b) (rb_routing_weights b))
      of Some e \<Rightarrow> Some e
       | None \<Rightarrow> validate_distinct_expert_ids (- 1) (rb_distinct_expert_ids b))"

definition rb_token_count :: "'f routed_layer_batch \<Rightarrow> nat" where
  "rb_token_count b = dim0 (rb_hidden_states b)"

definition rb_hidden_dim :: "'f routed_layer_batch \<Rightarrow> nat" where
  "rb_hidden_dim b = dim1 (rb_hidden_states b)"

definition rb_top_k :: "'f routed_layer_batch \<Rightarrow> nat" where
  "rb_top_k b = dim1 (rb_expert_ids b)"

record 'f worker_batch =
  wb_instance_id :: int
  wb_layer_id :: int
  wb_topology_version :: int
  wb_hidden_states :: "'f matrix tensor"
  wb_token_indices :: "nat list tensor option"
  wb_expert_ids :: "int matrix tensor"
  wb_routing_weights :: "'f matrix tensor"
  wb_distinct_expert_ids :: "int list"

definition wb_token_count :: "'f worker_batch \<Rightarrow> nat" where
  "wb_token_count b =
     (case wb_token_indices b of None \<Rightarrow> dim0 (wb_hidden_states b) | Some ti \<Rightarrow> dim0 ti)"

definition wb_hidden_dim :: "'f worker_batch \<Rightarrow> nat" where
  "wb_hidden_dim b = dim1 (wb_hidden_states b)"

definition wb_top_k :: "'f worker_batch \<Rightarrow> nat" where
  "wb_top_k b = dim1 (wb_expert_ids b)"

definition worker_batch_post_init :: "'f worker_batch \<Rightarrow> exn option" where
  "worker_batch_post_init b =
     (let hidden = wb_hidden_states b; ids = wb_expert_ids b; weights = wb_routing_weights b;
          token_count = wb_token_count b
      in case raise_first
        (require_unsigned ''instance_id'' (wb_instance_id b) uint64_max @
         require_unsigned ''layer_id'' (wb_layer_id b) uint32_max @
         require_unsigned ''topology_version'' (wb_topology_version b) uint64_max @
         [(ndim hidden \<noteq> 2, ValueError ''hidden_states must have shape [source_tokens, hidden_dim]''),
          (dim0 hidden = 0 \<or> dim1 hidden = 0, ValueError ''hidden_states dimensions must be positive''),
          (t_dtype hidden \<notin> set ACTIVATION_DTYPES, ValueError ''hidden_states must use FP16, BF16, or FP32'')] @
         (case wb_token_indices b of
            None \<Rightarrow> []
          | Some ti \<Rightarrow>
             [(ndim ti \<noteq> 1 \<or> dim0 ti = 0, ValueError ''token_indices must have shape [token_count]''),
              (t_dtype ti \<noteq> Int64, ValueError ''token_indices must use int64''),
              (t_device ti \<noteq> t_device hidden,
                ValueError ''token_indices and hidden_states must be on the same device'')]) @
         [(ndim ids \<noteq> 2 \<or> dim0 ids \<noteq> token_count, ValueError ''expert_ids must have shape [token_count, top_k]''),
          (dim1 ids = 0, ValueError ''top_k must be positive''),
          (t_dtype ids \<noteq> Int32, ValueError ''expert_ids must use int32''),
          (t_device ids \<noteq> t_device hidden, ValueError ''expert_ids and hidden_states must be on the same device''),
          (t_shape weights \<noteq> t_shape ids, ValueError ''routing_weights must have the same shape as expert_ids''),
          (t_dtype weights \<noteq> Float32, ValueError ''routing_weights must use FP32''),
          (t_device weights \<noteq> t_device hidden,
            ValueError ''routing_weights and hidden_states must be on the same device'')])
      of Some e \<Rightarrow> Some e
       | None \<Rightarrow> validate_distinct_expert_ids (- 1) (wb_distinct_expert_ids b))"

section \<open>What the checks accept\<close>

definition distinct_ids_ok :: "int list \<Rightarrow> bool" where
  "distinct_ids_ok xs \<longleftrightarrow> sorted_wrt (<) xs \<and> (\<forall>x\<in>set xs. 0 \<le> x \<and> x \<le> uint32_max)"

lemma validate_distinct_expert_ids_from:
  "validate_distinct_expert_ids p xs = None \<longleftrightarrow>
     sorted_wrt (<) xs \<and> (\<forall>x\<in>set xs. p < x \<and> 0 \<le> x \<and> x \<le> uint32_max)"
proof (induction xs arbitrary: p)
  case Nil
  then show ?case by simp
next
  case (Cons x xs)
  show ?case
    by (auto simp: Cons.IH require_unsigned_def split: option.splits)
qed

lemma validate_distinct_expert_ids_iff:
  "validate_distinct_expert_ids (- 1) xs = None \<longleftrightarrow> distinct_ids_ok xs"
  by (auto simp: validate_distinct_expert_ids_from distinct_ids_ok_def)

lemma distinct_ids_ok_append:
  "distinct_ids_ok xs \<Longrightarrow> set ys \<subseteq> set xs \<Longrightarrow> sorted_wrt (<) ys \<Longrightarrow> distinct_ids_ok ys"
  by (auto simp: distinct_ids_ok_def)

lemma distinct_ids_ok_filter: "distinct_ids_ok xs \<Longrightarrow> distinct_ids_ok (filter P xs)"
  by (auto simp: distinct_ids_ok_def intro: sorted_wrt_filter)

text \<open>The metadata conditions of the two dataclasses, as one predicate each.\<close>

definition routing_meta_ok :: "nat \<Rightarrow> 'f matrix tensor \<Rightarrow> int matrix tensor \<Rightarrow> 'f matrix tensor \<Rightarrow> bool" where
  "routing_meta_ok n hidden ids weights \<longleftrightarrow>
     ndim hidden = 2 \<and> 0 < dim0 hidden \<and> 0 < dim1 hidden \<and> t_dtype hidden \<in> set ACTIVATION_DTYPES \<and>
     ndim ids = 2 \<and> dim0 ids = n \<and> 0 < dim1 ids \<and> t_dtype ids = Int32 \<and>
     t_device ids = t_device hidden \<and> t_shape weights = t_shape ids \<and>
     t_dtype weights = Float32 \<and> t_device weights = t_device hidden"

lemma routed_layer_batch_post_init_iff:
  "routed_layer_batch_post_init b = None \<longleftrightarrow>
     0 \<le> rb_instance_id b \<and> rb_instance_id b \<le> uint64_max \<and>
     0 \<le> rb_layer_id b \<and> rb_layer_id b \<le> uint32_max \<and>
     routing_meta_ok (rb_token_count b) (rb_hidden_states b) (rb_expert_ids b) (rb_routing_weights b) \<and>
     distinct_ids_ok (rb_distinct_expert_ids b)"
  by (simp add: routed_layer_batch_post_init_def routing_meta_ok_def rb_token_count_def
      validate_distinct_expert_ids_iff require_unsigned_def validate_routing_tensors_def conj_ac)

lemma worker_batch_post_init_iff:
  "worker_batch_post_init b = None \<longleftrightarrow>
     0 \<le> wb_instance_id b \<and> wb_instance_id b \<le> uint64_max \<and>
     0 \<le> wb_layer_id b \<and> wb_layer_id b \<le> uint32_max \<and>
     0 \<le> wb_topology_version b \<and> wb_topology_version b \<le> uint64_max \<and>
     (case wb_token_indices b of None \<Rightarrow> True
      | Some ti \<Rightarrow> ndim ti = 1 \<and> 0 < dim0 ti \<and> t_dtype ti = Int64 \<and>
          t_device ti = t_device (wb_hidden_states b)) \<and>
     routing_meta_ok (wb_token_count b) (wb_hidden_states b) (wb_expert_ids b) (wb_routing_weights b) \<and>
     distinct_ids_ok (wb_distinct_expert_ids b)"
  by (cases "wb_token_indices b")
    (simp_all add: worker_batch_post_init_def routing_meta_ok_def Let_def
      validate_distinct_expert_ids_iff require_unsigned_def conj_ac)

end
