(* ===== verification/Routing_Topology.thy ===== *)
theory Routing_Topology
  imports Batches
begin

text \<open>
  \<open>ek-transport/src/expertkit_transport/routing/topology.py\<close>: Worker identities with their
  dataclass order, Worker connections, and the construction of one immutable routing snapshot
  with its per-layer index. A Transport object is represented by its identity (a natural
  number), because the code only compares it.
\<close>

datatype worker_identity = WorkerIdentity (worker_id: string) (start_id: string)

text \<open>\<open>@dataclass(order=True)\<close>: comparison of the field tuples.\<close>

instantiation worker_identity :: linorder
begin

definition less_eq_worker_identity :: "worker_identity \<Rightarrow> worker_identity \<Rightarrow> bool" where
  "less_eq_worker_identity a b \<longleftrightarrow> (worker_id a, start_id a) \<le> (worker_id b, start_id b)"

definition less_worker_identity :: "worker_identity \<Rightarrow> worker_identity \<Rightarrow> bool" where
  "less_worker_identity a b \<longleftrightarrow> (worker_id a, start_id a) < (worker_id b, start_id b)"

instance
  by standard
    (auto simp: less_eq_worker_identity_def less_worker_identity_def worker_identity.expand)

end

definition worker_identity_post_init :: "worker_identity \<Rightarrow> exn option" where
  "worker_identity_post_init w = raise_first
     [(worker_id w = [], ValueError ''worker_id must not be empty''),
      (start_id w = [], ValueError ''start_id must not be empty'')]"

record worker_connection =
  wc_identity :: worker_identity
  wc_transport :: nat
  wc_max_batch_tokens :: int
  wc_max_active_batches :: int
  wc_max_pending_batches :: int

definition worker_connection_post_init :: "worker_connection \<Rightarrow> exn option" where
  "worker_connection_post_init c = raise_first
     [(wc_max_batch_tokens c \<le> 0, ValueError ''max_batch_tokens must be positive''),
      (wc_max_active_batches c \<le> 0, ValueError ''max_active_batches must be positive''),
      (wc_max_pending_batches c \<le> 0, ValueError ''max_pending_batches must be positive'')]"

definition wc_max_in_flight :: "worker_connection \<Rightarrow> int" where
  "wc_max_in_flight c = wc_max_active_batches c + wc_max_pending_batches c"

type_synonym route_key = "int \<times> int"
type_synonym route_table = "(route_key, worker_connection list) dict"
type_synonym layer_table = "(int, worker_connection list) dict"

record topology_snapshot =
  ts_instance_id :: int
  ts_version :: int
  ts_routes :: route_table
  ts_routes_by_layer :: "(int, layer_table) dict"

text \<open>The inner loop over the replicas of one route with \<open>targets_by_identity\<close>.\<close>

fun check_targets ::
  "worker_connection list \<Rightarrow> (worker_identity \<rightharpoonup> worker_connection) \<Rightarrow>
   exn + (worker_identity \<rightharpoonup> worker_connection)" where
  "check_targets [] tbi = Inr tbi"
| "check_targets (target # rest) tbi =
     (let existing = (case tbi (wc_identity target) of None \<Rightarrow> target | Some t \<Rightarrow> t);
          tbi' = tbi(wc_identity target \<mapsto> existing)
      in if existing \<noteq> target
         then Inl (ValueError ''one Worker process must have consistent route metadata'')
         else check_targets rest tbi')"

definition layer_index_add ::
  "int \<Rightarrow> int \<Rightarrow> worker_connection list \<Rightarrow> (int, layer_table) dict \<Rightarrow> (int, layer_table) dict" where
  "layer_index_add layer_id expert_id replicas by_layer =
     AList.update layer_id
       (AList.update expert_id replicas
          (case map_of by_layer layer_id of None \<Rightarrow> [] | Some d \<Rightarrow> d))
       by_layer"

text \<open>The loop of \<open>__post_init__\<close> over \<open>self.routes.items()\<close>.\<close>

fun install_routes ::
  "(route_key \<times> worker_connection list) list \<Rightarrow> route_table \<Rightarrow> (int, layer_table) dict \<Rightarrow>
   (worker_identity \<rightharpoonup> worker_connection) \<Rightarrow> exn + route_table \<times> (int, layer_table) dict" where
  "install_routes [] copied by_layer tbi = Inr (copied, by_layer)"
| "install_routes (((layer_id, expert_id), replicas) # rest) copied by_layer tbi =
     after (raise_first
        (require_unsigned ''layer_id'' layer_id uint32_max @
         require_unsigned ''expert_id'' expert_id uint32_max @
         [(replicas = [], ValueError ''a published expert route must have at least one replica''),
          (\<not> distinct (map wc_identity replicas),
            ValueError ''an expert route must not repeat a Worker process'')]))
      (rbind (check_targets replicas tbi) (\<lambda>tbi'.
         install_routes rest
           (AList.update (layer_id, expert_id) replicas copied)
           (layer_index_add layer_id expert_id replicas by_layer) tbi'))"

definition make_topology_snapshot :: "int \<Rightarrow> int \<Rightarrow> route_table \<Rightarrow> exn + topology_snapshot" where
  "make_topology_snapshot instance_id version routes =
     after (raise_first (require_unsigned ''instance_id'' instance_id uint64_max @
                         require_unsigned ''version'' version uint64_max))
      (rbind (install_routes routes [] [] Map.empty) (\<lambda>(copied, by_layer).
         Inr \<lparr>ts_instance_id = instance_id, ts_version = version, ts_routes = copied,
              ts_routes_by_layer = by_layer\<rparr>))"

definition layer_routes :: "topology_snapshot \<Rightarrow> int \<Rightarrow> layer_table" where
  "layer_routes s layer_id =
     (case map_of (ts_routes_by_layer s) layer_id of None \<Rightarrow> [] | Some d \<Rightarrow> d)"

section \<open>What a snapshot promises\<close>

definition targets_of :: "route_table \<Rightarrow> worker_connection list" where
  "targets_of rs = concat (map snd rs)"

definition consistent_targets :: "route_table \<Rightarrow> bool" where
  "consistent_targets rs \<longleftrightarrow>
     (\<forall>t\<in>set (targets_of rs). \<forall>t'\<in>set (targets_of rs). wc_identity t = wc_identity t' \<longrightarrow> t = t')"

definition route_ok :: "route_key \<times> worker_connection list \<Rightarrow> bool" where
  "route_ok r \<longleftrightarrow> 0 \<le> fst (fst r) \<and> fst (fst r) \<le> uint32_max \<and>
     0 \<le> snd (fst r) \<and> snd (fst r) \<le> uint32_max \<and>
     snd r \<noteq> [] \<and> distinct (map wc_identity (snd r))"

definition layer_index_ok :: "route_table \<Rightarrow> (int, layer_table) dict \<Rightarrow> bool" where
  "layer_index_ok rs by \<longleftrightarrow> (\<forall>l. dict_ok (case map_of by l of None \<Rightarrow> [] | Some d \<Rightarrow> d) \<and>
     (\<forall>e. map_of (case map_of by l of None \<Rightarrow> [] | Some d \<Rightarrow> d) e = map_of rs (l, e)))"

lemma layer_index_ok_add:
  assumes "layer_index_ok rs by"
  shows "layer_index_ok (AList.update (l, e) v rs) (layer_index_add l e v by)"
  using assms by (auto simp: layer_index_ok_def layer_index_add_def split: option.splits)

lemma check_targets_Inr:
  assumes "check_targets ts tbi = Inr tbi'"
  shows "tbi \<subseteq>\<^sub>m tbi' \<and> (\<forall>t\<in>set ts. tbi' (wc_identity t) = Some t)"
  using assms
proof (induction ts arbitrary: tbi)
  case Nil
  then show ?case by simp
next
  case (Cons t ts)
  let ?tbi = "tbi(wc_identity t \<mapsto> t)"
  from Cons.prems have ex: "tbi (wc_identity t) = None \<or> tbi (wc_identity t) = Some t"
    and run: "check_targets ts ?tbi = Inr tbi'"
    by (auto simp: Let_def split: option.splits if_splits)
  note IH = Cons.IH [OF run]
  have sub: "?tbi \<subseteq>\<^sub>m tbi'" and rest: "\<forall>t\<in>set ts. tbi' (wc_identity t) = Some t"
    by (rule IH [THEN conjunct1], rule IH [THEN conjunct2])
  from ex have "tbi \<subseteq>\<^sub>m ?tbi"
    by (auto simp: map_le_def)
  then have "tbi \<subseteq>\<^sub>m tbi'"
    using sub by (rule map_le_trans)
  moreover from sub have "tbi' (wc_identity t) = Some t"
    by (auto simp: map_le_def dest: bspec [where x = "wc_identity t"])
  ultimately show ?case using rest by simp
qed

lemma check_targets_complete:
  assumes "tbi \<subseteq>\<^sub>m G" and "\<forall>t\<in>set ts. G (wc_identity t) = Some t"
  shows "\<exists>tbi'. check_targets ts tbi = Inr tbi' \<and> tbi' \<subseteq>\<^sub>m G"
  using assms
proof (induction ts arbitrary: tbi)
  case Nil
  then show ?case by simp
next
  case (Cons t ts)
  from Cons.prems have g: "G (wc_identity t) = Some t" by simp
  have ex: "(case tbi (wc_identity t) of None \<Rightarrow> t | Some u \<Rightarrow> u) = t"
    using Cons.prems(1) g by (auto simp: map_le_def split: option.splits dest: bspec)
  have "tbi(wc_identity t \<mapsto> t) \<subseteq>\<^sub>m G"
    using Cons.prems(1) g by (auto simp: map_le_def)
  then have "\<exists>tbi'. check_targets ts (tbi(wc_identity t \<mapsto> t)) = Inr tbi' \<and> tbi' \<subseteq>\<^sub>m G"
    by (rule Cons.IH) (use Cons.prems(2) in simp)
  then show ?case by (simp add: ex)
qed

lemma install_routes_Inr:
  assumes "install_routes rs copied by tbi = Inr (copied', by')" and "layer_index_ok copied by"
    and "dict_ok copied" and "\<forall>k\<in>set (map fst rs). map_of copied k = None" and "dict_ok rs"
  shows "copied' = copied @ rs \<and> layer_index_ok copied' by' \<and> (\<forall>r\<in>set rs. route_ok r) \<and>
     (\<exists>tbi'. tbi \<subseteq>\<^sub>m tbi' \<and> (\<forall>t\<in>set (targets_of rs). tbi' (wc_identity t) = Some t))"
  using assms
proof (induction rs arbitrary: copied "by" tbi)
  case Nil
  then show ?case by (auto simp: targets_of_def intro: map_le_refl)
next
  case (Cons r rs)
  obtain l e v where r: "r = ((l, e), v)" by (metis prod.collapse)
  let ?c = "AList.update (l, e) v copied" and ?b = "layer_index_add l e v by"
  from Cons.prems(1) r obtain tbi1 where ct: "check_targets v tbi = Inr tbi1"
    and run: "install_routes rs ?c ?b tbi1 = Inr (copied', by')" and ok: "route_ok r"
    by (auto simp: route_ok_def require_unsigned_def)
  have new: "map_of copied (l, e) = None"
    using Cons.prems(4) r by simp
  then have app: "?c = copied @ [((l, e), v)]"
    by (induction copied) (auto split: if_splits)
  have IH: "copied' = ?c @ rs \<and> layer_index_ok copied' by' \<and> (\<forall>r\<in>set rs. route_ok r) \<and>
     (\<exists>tbi'. tbi1 \<subseteq>\<^sub>m tbi' \<and> (\<forall>t\<in>set (targets_of rs). tbi' (wc_identity t) = Some t))"
  proof (rule Cons.IH [OF run])
    show "layer_index_ok ?c ?b" by (rule layer_index_ok_add [OF Cons.prems(2)])
    show "dict_ok ?c" using Cons.prems(3) by simp
    show "\<forall>k\<in>set (map fst rs). map_of ?c k = None"
      using Cons.prems(4,5) r by (fastforce simp: dict_ok_def image_iff)
    show "dict_ok rs" using Cons.prems(5) by (simp add: dict_ok_def)
  qed
  then obtain tbi' where le: "tbi1 \<subseteq>\<^sub>m tbi'" and rest: "\<forall>t\<in>set (targets_of rs). tbi' (wc_identity t) = Some t"
    by blast
  from check_targets_Inr [OF ct] have le1: "tbi \<subseteq>\<^sub>m tbi1" and v: "\<forall>t\<in>set v. tbi1 (wc_identity t) = Some t"
    by auto
  have "\<forall>t\<in>set v. tbi' (wc_identity t) = Some t"
    using v le by (metis domI map_le_def)
  with rest r have "\<forall>t\<in>set (targets_of (r # rs)). tbi' (wc_identity t) = Some t"
    by (auto simp: targets_of_def)
  moreover have "tbi \<subseteq>\<^sub>m tbi'" using le1 le by (rule map_le_trans)
  ultimately show ?case using IH ok app r by auto
qed

lemma install_routes_complete:
  assumes "tbi \<subseteq>\<^sub>m G" and "\<forall>t\<in>set (targets_of rs). G (wc_identity t) = Some t"
    and "\<forall>r\<in>set rs. route_ok r"
  shows "\<exists>c b. install_routes rs copied by tbi = Inr (c, b)"
  using assms
proof (induction rs arbitrary: copied "by" tbi)
  case Nil
  then show ?case by simp
next
  case (Cons r rs)
  obtain l e v where r: "r = ((l, e), v)" by (metis prod.collapse)
  have "\<forall>t\<in>set v. G (wc_identity t) = Some t"
    using Cons.prems(2) r by (auto simp: targets_of_def)
  from check_targets_complete [OF Cons.prems(1) this] obtain tbi1
    where ct: "check_targets v tbi = Inr tbi1" and le: "tbi1 \<subseteq>\<^sub>m G" by blast
  have "\<exists>c b. install_routes rs (AList.update (l, e) v copied) (layer_index_add l e v by) tbi1 = Inr (c, b)"
    using le Cons.prems(2,3) by (intro Cons.IH) (auto simp: targets_of_def)
  with ct Cons.prems(3) r show ?case
    by (auto simp: route_ok_def require_unsigned_def)
qed

lemma consistent_targets_alt:
  "(\<exists>G. \<forall>t\<in>set (targets_of rs). G (wc_identity t) = Some t) \<longleftrightarrow> consistent_targets rs"
proof
  assume "\<exists>G. \<forall>t\<in>set (targets_of rs). G (wc_identity t) = Some t"
  then obtain G where G: "\<forall>t\<in>set (targets_of rs). G (wc_identity t) = Some t" ..
  show "consistent_targets rs"
    unfolding consistent_targets_def
  proof (intro ballI impI)
    fix t t'
    assume "t \<in> set (targets_of rs)" and "t' \<in> set (targets_of rs)" and "wc_identity t = wc_identity t'"
    with G show "t = t'" by (metis option.inject)
  qed
next
  assume c: "consistent_targets rs"
  let ?G = "map_of (map (\<lambda>t. (wc_identity t, t)) (targets_of rs))"
  have "?G (wc_identity t) = Some t" if "t \<in> set (targets_of rs)" for t
  proof -
    have "(wc_identity t, t) \<in> set (map (\<lambda>t. (wc_identity t, t)) (targets_of rs))"
      using that by auto
    then have "wc_identity t \<in> dom ?G"
      unfolding dom_map_of_conv_image_fst by force
    then obtain u where u: "?G (wc_identity t) = Some u"
      by blast
    then have "(wc_identity t, u) \<in> set (map (\<lambda>t. (wc_identity t, t)) (targets_of rs))"
      by (rule map_of_SomeD)
    then have "u \<in> set (targets_of rs)" and "wc_identity u = wc_identity t"
      by auto
    with c that have "u = t" unfolding consistent_targets_def by blast
    with u show ?thesis by simp
  qed
  then show "\<exists>G. \<forall>t\<in>set (targets_of rs). G (wc_identity t) = Some t" by blast
qed

definition snapshot_ok :: "topology_snapshot \<Rightarrow> bool" where
  "snapshot_ok s \<longleftrightarrow> dict_ok (ts_routes s) \<and> (\<forall>r\<in>set (ts_routes s). route_ok r) \<and>
     consistent_targets (ts_routes s) \<and> layer_index_ok (ts_routes s) (ts_routes_by_layer s) \<and>
     0 \<le> ts_instance_id s \<and> ts_instance_id s \<le> uint64_max \<and>
     0 \<le> ts_version s \<and> ts_version s \<le> uint64_max"

lemma make_topology_snapshot_Inr:
  assumes "make_topology_snapshot i v rs = Inr s" and "dict_ok rs"
  shows "snapshot_ok s \<and> ts_routes s = rs \<and> ts_instance_id s = i \<and> ts_version s = v"
proof -
  from assms(1) obtain c b where run: "install_routes rs [] [] Map.empty = Inr (c, b)"
    and s: "s = \<lparr>ts_instance_id = i, ts_version = v, ts_routes = c, ts_routes_by_layer = b\<rparr>"
    and rng: "0 \<le> i" "i \<le> uint64_max" "0 \<le> v" "v \<le> uint64_max"
    by (auto simp: make_topology_snapshot_def require_unsigned_def)
  have "layer_index_ok [] []" by (simp add: layer_index_ok_def)
  from install_routes_Inr [OF run this] assms(2)
  have "c = rs" "layer_index_ok c b" "\<forall>r\<in>set rs. route_ok r" "consistent_targets rs"
    by (auto simp flip: consistent_targets_alt)
  with s rng assms(2) show ?thesis by (simp add: snapshot_ok_def)
qed

lemma make_topology_snapshot_accepts:
  assumes "dict_ok rs"
  shows "(\<exists>s. make_topology_snapshot i v rs = Inr s) \<longleftrightarrow>
     0 \<le> i \<and> i \<le> uint64_max \<and> 0 \<le> v \<and> v \<le> uint64_max \<and>
     (\<forall>r\<in>set rs. route_ok r) \<and> consistent_targets rs" (is "?L \<longleftrightarrow> ?R")
proof
  assume ?L
  then obtain s where "make_topology_snapshot i v rs = Inr s" ..
  from make_topology_snapshot_Inr [OF this assms] show ?R
    by (auto simp: snapshot_ok_def)
next
  assume R: ?R
  then obtain G where "\<forall>t\<in>set (targets_of rs). G (wc_identity t) = Some t"
    using consistent_targets_alt by blast
  with R install_routes_complete [of Map.empty G rs "[]" "[]"] obtain c b
    where "install_routes rs [] [] Map.empty = Inr (c, b)" by auto
  with R show ?L by (simp add: make_topology_snapshot_def require_unsigned_def)
qed

lemma layer_routes_lookup:
  "snapshot_ok s \<Longrightarrow> map_of (layer_routes s l) e = map_of (ts_routes s) (l, e)"
  by (simp add: snapshot_ok_def layer_index_ok_def layer_routes_def)

lemma layer_routes_replicas:
  assumes "snapshot_ok s" and "map_of (layer_routes s l) e = Some reps"
  shows "reps \<noteq> [] \<and> distinct (map wc_identity reps) \<and> ((l, e), reps) \<in> set (ts_routes s)"
proof -
  from assms have m: "map_of (ts_routes s) (l, e) = Some reps"
    by (simp add: layer_routes_lookup)
  then have "((l, e), reps) \<in> set (ts_routes s)" by (rule map_of_SomeD)
  moreover from this assms(1) have "route_ok ((l, e), reps)"
    by (simp add: snapshot_ok_def)
  ultimately show ?thesis by (simp add: route_ok_def)
qed

lemma snapshot_same_identity:
  assumes "snapshot_ok s" and "((l, e), reps) \<in> set (ts_routes s)" and "((l', e'), reps') \<in> set (ts_routes s)"
    and "t \<in> set reps" and "t' \<in> set reps'" and "wc_identity t = wc_identity t'"
  shows "t = t'"
proof -
  have "t \<in> set (targets_of (ts_routes s))" "t' \<in> set (targets_of (ts_routes s))"
    using assms(2-5) by (force simp: targets_of_def)+
  with assms(1,6) show ?thesis
    unfolding snapshot_ok_def consistent_targets_def by blast
qed

section \<open>A concrete snapshot\<close>

definition ex_worker_a :: worker_connection where
  "ex_worker_a = \<lparr>wc_identity = WorkerIdentity ''a'' ''a1'', wc_transport = 0, wc_max_batch_tokens = 1,
     wc_max_active_batches = 1, wc_max_pending_batches = 1\<rparr>"

definition ex_worker_b :: worker_connection where
  "ex_worker_b = \<lparr>wc_identity = WorkerIdentity ''b'' ''b1'', wc_transport = 1, wc_max_batch_tokens = 2,
     wc_max_active_batches = 1, wc_max_pending_batches = 1\<rparr>"

definition ex_snapshot :: topology_snapshot where
  "ex_snapshot = \<lparr>ts_instance_id = 7, ts_version = 3,
     ts_routes = [((2, 0), [ex_worker_a]), ((2, 1), [ex_worker_b]), ((2, 4), [ex_worker_a, ex_worker_b])],
     ts_routes_by_layer = [(2, [(0, [ex_worker_a]), (1, [ex_worker_b]), (4, [ex_worker_a, ex_worker_b])])]\<rparr>"

lemma ex_snapshot_made: "make_topology_snapshot 7 3 (ts_routes ex_snapshot) = Inr ex_snapshot"
  by code_simp

lemma ex_routes_dict: "dict_ok (ts_routes ex_snapshot)"
  by code_simp

lemma ex_snapshot_ok: "snapshot_ok ex_snapshot"
  using make_topology_snapshot_Inr [OF ex_snapshot_made ex_routes_dict] by simp

section \<open>Properties\<close>

text \<open>
  C10. A routing snapshot is accepted exactly when its identifiers are unsigned 64-bit, every
  route has 32-bit keys, a nonempty replica list without repeated Worker processes, and all
  routes agree on the connection of each Worker process.
\<close>

theorem topology_snapshot_acceptance:
  assumes "dict_ok rs"
  shows "(\<exists>s. make_topology_snapshot i v rs = Inr s) \<longleftrightarrow>
     0 \<le> i \<and> i \<le> uint64_max \<and> 0 \<le> v \<and> v \<le> uint64_max \<and>
     (\<forall>r\<in>set rs. route_ok r) \<and> consistent_targets rs"
  using assms by (rule make_topology_snapshot_accepts)

theorem topology_snapshot_acceptance_witness:
  "route_ok ((2, 4), [ex_worker_a, ex_worker_b]) \<and> consistent_targets (ts_routes ex_snapshot) \<and>
   (\<exists>s. make_topology_snapshot 7 3 (ts_routes ex_snapshot) = Inr s)"
  using topology_snapshot_acceptance [OF ex_routes_dict, of 7 3] ex_snapshot_made
  by (auto simp: ex_snapshot_def)

text \<open>
  The per-layer index of an accepted snapshot answers every lookup like the route table it
  was built from, and what it returns is a nonempty replica list without repeated processes.
\<close>

theorem layer_index_agrees:
  assumes "make_topology_snapshot i v rs = Inr s" and "dict_ok rs"
  shows "map_of (layer_routes s l) e = map_of rs (l, e) \<and>
     (\<forall>reps. map_of rs (l, e) = Some reps \<longrightarrow> reps \<noteq> [] \<and> distinct (map wc_identity reps))"
  using make_topology_snapshot_Inr [OF assms] layer_routes_lookup [of s l e] layer_routes_replicas [of s l e]
  by auto

theorem layer_index_agrees_witness:
  "map_of (layer_routes ex_snapshot 2) 4 = Some [ex_worker_a, ex_worker_b]"
  using layer_index_agrees [OF ex_snapshot_made ex_routes_dict, of 2 4] by (simp add: ex_snapshot_def)

end
