(* ===== verification/Selection.thy ===== *)
theory Selection
  imports Routing_Topology
begin

text \<open>
  \<open>ek-transport/src/expertkit_transport/routing/selection.py\<close>: the abstract \<open>ReplicaSelector\<close>
  is the locale \<open>replica_selector\<close> (what grouping relies on), and \<open>RoundRobinSelector\<close> is its
  implementation \<open>rr_select\<close>, interpreted below. The counter table is the \<open>defaultdict(int)\<close>
  of the class: a function with default 0. The lock makes one \<open>select\<close> atomic.
\<close>

record rr_selector =
  rr_next :: "int \<times> int \<times> int \<Rightarrow> nat"

definition RoundRobinSelector :: rr_selector where
  "RoundRobinSelector = \<lparr>rr_next = (\<lambda>_. 0)\<rparr>"

text \<open>The candidates: preferred replicas, or all of them when none is preferred and the caller allows it.\<close>

definition rr_eligible :: "worker_connection list \<Rightarrow> worker_identity set \<Rightarrow> bool \<Rightarrow> worker_connection list" where
  "rr_eligible replicas excluded fallback_to_excluded =
     (let eligible = filter (\<lambda>target. wc_identity target \<notin> excluded) replicas
      in if eligible = [] \<and> fallback_to_excluded then replicas else eligible)"

definition no_eligible_replica :: "int \<Rightarrow> exn" where
  "no_eligible_replica expert_id = Raised_TransportError
     ((TransportError UNAVAILABLE True ''no eligible ready replica'')
       \<lparr>te_unavailable_expert_ids := [expert_id]\<rparr>)"

definition rr_select ::
  "rr_selector \<Rightarrow> int \<Rightarrow> int \<Rightarrow> int \<Rightarrow> worker_connection list \<Rightarrow> worker_identity set \<Rightarrow> bool \<Rightarrow>
   (exn + worker_connection) \<times> rr_selector" where
  "rr_select s instance_id layer_id expert_id replicas excluded fallback_to_excluded =
     (let eligible = rr_eligible replicas excluded fallback_to_excluded
      in if eligible = [] then (Inl (no_eligible_replica expert_id), s)
         else let key = (instance_id, layer_id, expert_id);
                  index = rr_next s key
              in (Inr (eligible ! (index mod length eligible)),
                  s\<lparr>rr_next := (rr_next s)(key := index + 1)\<rparr>))"

section \<open>The selector interface\<close>

locale replica_selector =
  fixes select :: "'s \<Rightarrow> int \<Rightarrow> int \<Rightarrow> int \<Rightarrow> worker_connection list \<Rightarrow> worker_identity set \<Rightarrow> bool \<Rightarrow>
      (exn + worker_connection) \<times> 's"
  assumes select_member: "fst (select st i l e reps ex fb) = Inr t \<Longrightarrow> t \<in> set reps"
    and select_preferred: "fst (select st i l e reps ex fb) = Inr t \<Longrightarrow>
      wc_identity t \<notin> ex \<or> (fb \<and> wc_identity ` set reps \<subseteq> ex)"
    and select_total: "wc_identity ` set reps \<subseteq> ex \<longrightarrow> fb \<and> reps \<noteq> [] \<Longrightarrow>
      \<exists>t. fst (select st i l e reps ex fb) = Inr t"
    and select_failure: "fst (select st i l e reps ex fb) = Inl err \<Longrightarrow> err = no_eligible_replica e"
begin

lemma select_fresh:
  assumes "\<exists>t\<in>set reps. wc_identity t \<notin> ex"
  shows "\<exists>t. fst (select st i l e reps ex fb) = Inr t \<and> t \<in> set reps \<and> wc_identity t \<notin> ex"
proof -
  have "\<not> wc_identity ` set reps \<subseteq> ex" using assms by auto
  then obtain t where "fst (select st i l e reps ex fb) = Inr t"
    using select_total by blast
  with select_member select_preferred assms show ?thesis by blast
qed

lemma select_unrestricted:
  "reps \<noteq> [] \<Longrightarrow> \<exists>t. fst (select st i l e reps {} fb) = Inr t \<and> t \<in> set reps"
  using select_total [of reps "{}"] select_member by (metis image_is_empty set_empty subset_empty)

end

lemma rr_eligible_subset: "set (rr_eligible reps ex fb) \<subseteq> set reps"
  by (auto simp: rr_eligible_def Let_def)

lemma rr_eligible_empty:
  "rr_eligible reps ex fb = [] \<longleftrightarrow> wc_identity ` set reps \<subseteq> ex \<and> (fb \<longrightarrow> reps = [])"
  by (auto simp: rr_eligible_def Let_def filter_empty_conv)

lemma rr_eligible_preferred:
  "t \<in> set (rr_eligible reps ex fb) \<Longrightarrow> wc_identity t \<notin> ex \<or> (fb \<and> wc_identity ` set reps \<subseteq> ex)"
  by (auto simp: rr_eligible_def Let_def filter_empty_conv split: if_splits)

lemma rr_select_Inr:
  "fst (rr_select s i l e reps ex fb) = Inr t \<longleftrightarrow>
     rr_eligible reps ex fb \<noteq> [] \<and>
     t = rr_eligible reps ex fb ! (rr_next s (i, l, e) mod length (rr_eligible reps ex fb))"
  by (auto simp: rr_select_def Let_def)

lemma rr_select_eligible: "fst (rr_select s i l e reps ex fb) = Inr t \<Longrightarrow> t \<in> set (rr_eligible reps ex fb)"
  by (simp add: rr_select_Inr)

interpretation rr: replica_selector rr_select
proof unfold_locales
  fix st i l e and reps :: "worker_connection list" and ex fb and t :: worker_connection
  assume sel: "fst (rr_select st i l e reps ex fb) = Inr t"
  then show "t \<in> set reps"
    using rr_select_eligible rr_eligible_subset by blast
  show "wc_identity t \<notin> ex \<or> (fb \<and> wc_identity ` set reps \<subseteq> ex)"
    using sel by (intro rr_eligible_preferred rr_select_eligible)
next
  fix st i l e and reps :: "worker_connection list" and ex fb
  assume "wc_identity ` set reps \<subseteq> ex \<longrightarrow> fb \<and> reps \<noteq> []"
  then show "\<exists>t. fst (rr_select st i l e reps ex fb) = Inr t"
    by (auto simp: rr_select_Inr rr_eligible_empty)
next
  fix st i l e and reps :: "worker_connection list" and ex fb err
  assume "fst (rr_select st i l e reps ex fb) = Inl err"
  then show "err = no_eligible_replica e"
    by (auto simp: rr_select_def Let_def split: if_splits)
qed

section \<open>Round robin\<close>

text \<open>Repeated selection for one expert with the same replicas.\<close>

fun rr_select_n ::
  "nat \<Rightarrow> rr_selector \<Rightarrow> int \<Rightarrow> int \<Rightarrow> int \<Rightarrow> worker_connection list \<Rightarrow> worker_identity set \<Rightarrow> bool \<Rightarrow>
   (exn + worker_connection) list" where
  "rr_select_n 0 s i l e reps ex fb = []"
| "rr_select_n (Suc n) s i l e reps ex fb =
     (let (r, s') = rr_select s i l e reps ex fb in r # rr_select_n n s' i l e reps ex fb)"

lemma rr_select_n_eq:
  assumes "rr_eligible reps ex fb \<noteq> []"
  shows "rr_select_n n s i l e reps ex fb =
     map (\<lambda>j. Inr (rr_eligible reps ex fb ! ((rr_next s (i, l, e) + j) mod length (rr_eligible reps ex fb)))) [0 ..< n]"
proof (induction n arbitrary: s)
  case 0
  then show ?case by simp
next
  case (Suc n)
  let ?s = "s\<lparr>rr_next := (rr_next s)((i, l, e) := rr_next s (i, l, e) + 1)\<rparr>"
  have "rr_select_n (Suc n) s i l e reps ex fb =
     Inr (rr_eligible reps ex fb ! (rr_next s (i, l, e) mod length (rr_eligible reps ex fb)))
     # rr_select_n n ?s i l e reps ex fb"
    using assms by (simp add: rr_select_def Let_def)
  then show ?case
    by (simp add: Suc.IH map_upt_Suc del: upt_Suc)
qed

lemma rotation_as_map:
  "map (\<lambda>j. xs ! ((c + j) mod length xs)) [0 ..< length xs] = rotate c xs"
  by (rule nth_equalityI) (simp_all add: nth_rotate)

lemma mset_rotate: "mset (rotate n xs) = mset xs"
  by (metis append_take_drop_id mset_append rotate_drop_take union_commute)

lemma rr_full_round:
  assumes "rr_eligible reps ex fb \<noteq> []"
  shows "mset (rr_select_n (length (rr_eligible reps ex fb)) s i l e reps ex fb)
       = image_mset Inr (mset (rr_eligible reps ex fb))"
proof -
  let ?xs = "rr_eligible reps ex fb"
  have "rr_select_n (length ?xs) s i l e reps ex fb = map Inr (rotate (rr_next s (i, l, e)) ?xs)"
    by (simp add: rr_select_n_eq [OF assms] flip: rotation_as_map)
  then show ?thesis
    by (simp add: mset_rotate)
qed

lemma rr_select_frame:
  "snd (rr_select s i l e reps ex fb) = s \<or>
   (\<forall>k. k \<noteq> (i, l, e) \<longrightarrow> rr_next (snd (rr_select s i l e reps ex fb)) k = rr_next s k)"
  by (auto simp: rr_select_def Let_def)

section \<open>Properties\<close>

text \<open>
  Round robin is fair: as many successive selections for one expert as there are eligible
  replicas return every eligible replica exactly once, wherever the counter starts.
\<close>

theorem round_robin_fair:
  assumes "rr_eligible reps ex fb \<noteq> []"
  shows "mset (rr_select_n (length (rr_eligible reps ex fb)) s i l e reps ex fb)
       = image_mset Inr (mset (rr_eligible reps ex fb))"
  using assms by (rule rr_full_round)

theorem round_robin_fair_witness:
  "mset (rr_select_n 2 RoundRobinSelector 7 2 4 [ex_worker_a, ex_worker_b] {} False)
   = {# Inr ex_worker_a, Inr ex_worker_b #}"
  using round_robin_fair [of "[ex_worker_a, ex_worker_b]" "{}" False RoundRobinSelector 7 2 4]
  by (simp add: rr_eligible_def numeral_2_eq_2 del: rr_select_n.simps)

text \<open>
  A replica outside the excluded set is always preferred: when one exists, selection succeeds
  with such a replica even if falling back to excluded processes is allowed.
\<close>

theorem round_robin_prefers:
  assumes "\<exists>t\<in>set reps. wc_identity t \<notin> ex"
  shows "\<exists>t. fst (rr_select s i l e reps ex fb) = Inr t \<and> t \<in> set reps \<and> wc_identity t \<notin> ex"
  using assms by (rule rr.select_fresh)

theorem round_robin_prefers_witness:
  "\<exists>t. fst (rr_select RoundRobinSelector 7 2 4 [ex_worker_a, ex_worker_b] {wc_identity ex_worker_a} True) = Inr t \<and>
     t \<in> {ex_worker_a, ex_worker_b} \<and> wc_identity t \<noteq> wc_identity ex_worker_a"
  using round_robin_prefers [of "[ex_worker_a, ex_worker_b]" "{wc_identity ex_worker_a}" RoundRobinSelector 7 2 4 True]
  by (simp add: ex_worker_a_def ex_worker_b_def)

end
