(* ===== verification/Routing_Validation.thy ===== *)
theory Routing_Validation
  imports Batches
begin

text \<open>
  The two independent checks of routing values:
  \<open>validate_and_convert_routing\<close> of \<open>ek-transport/src/expertkit_transport/routing/validation.py\<close>,
  which the Frontend runs once on the router output, and \<open>validate_received_routing\<close> of
  \<open>ek-transport/src/expertkit_transport/transports/validation.py\<close>, which a Worker receiver runs
  on untrusted Host Tensors. A Tensor's \<open>flatten()\<close> is the concatenation of its rows.
\<close>

definition flatten :: "'a matrix tensor \<Rightarrow> 'a list" where
  "flatten t = concat (t_data t)"

text \<open>\<open>checked_ids\<close>: unsigned inputs are widened before they are compared with \<open>-1\<close>.\<close>

definition checked_id :: "('f, 'z) torch_ops_scheme \<Rightarrow> dtype \<Rightarrow> int \<Rightarrow> int" where
  "checked_id T d x =
     (case iinfo d of
        None \<Rightarrow> x
      | Some (imin, imax) \<Rightarrow> if imin \<ge> 0 \<and> imax > 2 ^ 63 - 1 then i_to_float64 T x else x)"

definition validate_and_convert_routing ::
  "('f, 'z) torch_ops_scheme \<Rightarrow> int matrix tensor \<Rightarrow> 'f matrix tensor \<Rightarrow> int \<Rightarrow>
   exn + int matrix tensor \<times> 'f matrix tensor \<times> int list" where
  "validate_and_convert_routing T expert_ids routing_weights experts_per_layer =
     after (raise_first
       [(\<not> (0 < experts_per_layer \<and> experts_per_layer \<le> (2 ^ 31 - 1) + 1),
          ValueError ''experts_per_layer must fit the int32 expert-ID range''),
        (ndim expert_ids \<noteq> 2, ValueError ''expert_ids must have shape [token_count, top_k]''),
        (t_shape routing_weights \<noteq> t_shape expert_ids, ValueError ''routing_weights must match expert_ids''),
        (t_device routing_weights \<noteq> t_device expert_ids,
          ValueError ''routing_weights and expert_ids must use the same device''),
        (iinfo (t_dtype expert_ids) = None, ValueError ''expert_ids must use an integer dtype'')])
      (let checked_ids = map (checked_id T (t_dtype expert_ids)) (flatten expert_ids);
           invalid_range = map (\<lambda>c. c < - 1 \<or> c \<ge> experts_per_layer) checked_ids;
           invalid_weight = map (\<lambda>(c, w). c = - 1 \<and> f_nonzero T w) (zip checked_ids (flatten routing_weights));
           valid = map (\<lambda>c. c \<ge> 0 \<and> c < experts_per_layer) checked_ids;
           safe_ids = map (\<lambda>c. if c \<ge> 0 \<and> c < experts_per_layer then nat c else 0) checked_ids
       in rbind (i_scatter_add T (nat experts_per_layer) safe_ids (map (\<lambda>v. if v then 1 else 0) valid))
          (\<lambda>counts.
             after (raise_first
               [(True \<in> set invalid_range,
                  ValueError ''expert_ids must be within the configured expert range [-1, count)''),
                (True \<in> set invalid_weight, ValueError ''an expert ID of -1 must have zero routing weight'')])
              (Inr (expert_ids\<lparr>t_dtype := Int32, t_data := map (map (i_to_int32 T)) (t_data expert_ids)\<rparr>,
                    routing_weights\<lparr>t_dtype := Float32, t_data := map (map (f_to T Float32)) (t_data routing_weights)\<rparr>,
                    map int (filter (\<lambda>e. counts ! e \<noteq> 0) [0 ..< length counts])))))"

text \<open>numpy's \<open>min\<close> and \<open>max\<close> raise on an empty array.\<close>

definition validate_received_routing ::
  "('f, 'z) torch_ops_scheme \<Rightarrow> int matrix tensor \<Rightarrow> 'f matrix tensor \<Rightarrow> int \<Rightarrow> exn + int list" where
  "validate_received_routing T expert_ids routing_weights experts_per_layer =
     (let expert_values = flatten expert_ids;
          routing_values = flatten routing_weights
      in after (raise_first
          [(expert_values = [], ValueError ''zero-size array to reduction operation''),
           (Min (set expert_values) < - 1, TransportProtocolError ''expert IDs below -1 are invalid''),
           (Max (set expert_values) \<ge> experts_per_layer,
             TransportProtocolError ''expert ID exceeds the configured expert range''),
           (\<exists>p\<in>set (zip expert_values routing_values). fst p = - 1 \<and> f_nonzero T (snd p),
             TransportProtocolError ''an invalid expert position must have zero routing weight'')])
        (let valid = filter (\<lambda>e. e \<noteq> - 1) expert_values
         in if valid = [] then Inr []
            else let seen = fold (\<lambda>e s. s[nat e := True]) valid (replicate (nat experts_per_layer) False)
                 in Inr (map int (filter (\<lambda>i. seen ! i) [0 ..< length seen]))))"

section \<open>What the checks accept and return\<close>

text \<open>The exact distinct valid expert numbers of a routing table, in increasing order.\<close>

definition experts_in :: "int list \<Rightarrow> int list" where
  "experts_in ids = sorted_list_of_set {e \<in> set ids. 0 \<le> e}"

definition routing_values_ok :: "('f, 'z) torch_ops_scheme \<Rightarrow> int \<Rightarrow> int list \<Rightarrow> 'f list \<Rightarrow> bool" where
  "routing_values_ok T n ids ws \<longleftrightarrow> (\<forall>e\<in>set ids. - 1 \<le> e \<and> e < n) \<and>
     (\<forall>p\<in>set (zip ids ws). fst p = - 1 \<longrightarrow> \<not> f_nonzero T (snd p))"

lemma experts_in_props:
  "sorted_wrt (<) (experts_in ids)" "set (experts_in ids) = {e \<in> set ids. 0 \<le> e}"
  by (simp_all add: experts_in_def)

lemma experts_in_unique:
  "sorted_wrt (<) xs \<Longrightarrow> set xs = {e \<in> set ids. 0 \<le> e} \<Longrightarrow> xs = experts_in ids"
  by (rule strict_sorted_unique) (simp_all add: experts_in_props)

lemma experts_in_code [code]: "experts_in ids = sort (remdups (filter (\<lambda>e. 0 \<le> e) ids))"
  by (rule experts_in_unique [symmetric]) (auto simp: strict_sorted_iff)

lemma sorted_map_int_filter: "sorted_wrt (<) (map int (filter P [0 ..< n]))"
  by (simp add: sorted_wrt_map strict_sorted_filter_upt)

lemma experts_in_enumerate:
  assumes "\<And>e. e < m \<Longrightarrow> P e \<longleftrightarrow> int e \<in> set ids" and "\<forall>x\<in>set ids. x < int m"
  shows "map int (filter P [0 ..< m]) = experts_in ids"
proof (rule experts_in_unique)
  show "sorted_wrt (<) (map int (filter P [0 ..< m]))"
    by (rule sorted_map_int_filter)
  show "set (map int (filter P [0 ..< m])) = {e \<in> set ids. 0 \<le> e}"
  proof (intro set_eqI iffI)
    fix x assume "x \<in> set (map int (filter P [0 ..< m]))"
    then show "x \<in> {e \<in> set ids. 0 \<le> e}" using assms(1) by auto
  next
    fix x assume x: "x \<in> {e \<in> set ids. 0 \<le> e}"
    then have "nat x < m" and "int (nat x) = x" using assms(2) by auto
    moreover from this x assms(1) have "P (nat x)" by auto
    ultimately show "x \<in> set (map int (filter P [0 ..< m]))"
      by (auto intro!: image_eqI [where x = "nat x"])
  qed
qed

text \<open>Widening never changes which identifiers are in range.\<close>

definition representable :: "dtype \<Rightarrow> int list \<Rightarrow> bool" where
  "representable d xs \<longleftrightarrow> (case iinfo d of None \<Rightarrow> True | Some (lo, hi) \<Rightarrow> \<forall>x\<in>set xs. lo \<le> x \<and> x \<le> hi)"

lemma checked_id_range:
  assumes "torch_int_doc T" and "n \<le> 2 ^ 31" and "representable d [x]"
  shows "(checked_id T d x < - 1 \<or> n \<le> checked_id T d x) \<longleftrightarrow> (x < - 1 \<or> n \<le> x)"
    and "- 1 \<le> x \<Longrightarrow> x < n \<Longrightarrow> checked_id T d x = x"
proof -
  have wide: "checked_id T d x = x \<or> (0 \<le> x \<and> 2 ^ 53 < x \<and> 2 ^ 53 \<le> checked_id T d x)"
  proof (cases "d = UInt64")
    case True
    then have "0 \<le> x" using assms(3) by (simp add: representable_def)
    with True assms(1) show ?thesis
      by (cases "x \<le> 2 ^ 53") (simp_all add: checked_id_def torch_int_doc_def)
  next
    case False
    then show ?thesis by (cases d) (simp_all add: checked_id_def)
  qed
  then show "(checked_id T d x < - 1 \<or> n \<le> checked_id T d x) \<longleftrightarrow> (x < - 1 \<or> n \<le> x)"
    and "- 1 \<le> x \<Longrightarrow> x < n \<Longrightarrow> checked_id T d x = x"
    using assms(2) by auto
qed

lemma length_flatten:
  "matrix_ok t \<Longrightarrow> length (flatten t) = dim0 t * dim1 t"
  by (simp add: matrix_ok_def flatten_def length_concat sum_list_triv cong: map_cong)

lemma routing_error_free:
  assumes "torch_int_doc T" and "n \<le> 2 ^ 31" and "representable d ids"
  shows "True \<notin> set (map (\<lambda>c. c < - 1 \<or> c \<ge> n) (map (checked_id T d) ids)) \<and>
         True \<notin> set (map (\<lambda>(c, w). c = - 1 \<and> f_nonzero T w) (zip (map (checked_id T d) ids) ws))
     \<longleftrightarrow> routing_values_ok T n ids ws" (is "?R \<and> ?W \<longleftrightarrow> _")
proof -
  have rep: "representable d [x]" if "x \<in> set ids" for x
    using assms(3) that by (auto simp: representable_def split: option.splits)
  have R: "?R \<longleftrightarrow> (\<forall>e\<in>set ids. - 1 \<le> e \<and> e < n)"
    using checked_id_range(1) [OF assms(1,2) rep] by (fastforce simp: not_less not_le)
  have "?W \<longleftrightarrow> (\<forall>p\<in>set (zip ids ws). fst p = - 1 \<longrightarrow> \<not> f_nonzero T (snd p))"
    if "\<forall>e\<in>set ids. - 1 \<le> e \<and> e < n"
  proof -
    have "checked_id T d e = e" if "e \<in> set ids" for e
      using checked_id_range(2) [OF assms(1,2) rep [OF that]] that \<open>\<forall>e\<in>set ids. - 1 \<le> e \<and> e < n\<close> by auto
    then have "map (checked_id T d) ids = ids"
      by (simp add: map_idI)
    then show ?thesis by auto
  qed
  with R show ?thesis unfolding routing_values_ok_def by blast
qed

definition frontend_meta_ok :: "int matrix tensor \<Rightarrow> 'f matrix tensor \<Rightarrow> int \<Rightarrow> bool" where
  "frontend_meta_ok ids ws n \<longleftrightarrow> 0 < n \<and> n \<le> 2 ^ 31 \<and> ndim ids = 2 \<and> t_shape ws = t_shape ids \<and>
     t_device ws = t_device ids \<and> iinfo (t_dtype ids) \<noteq> None"

lemma frontend_counts:
  assumes doc: "torch_int_doc T" and n: "0 < n" "n \<le> 2 ^ 31" and len: "length ids < 2 ^ 32"
    and rep: "representable d ids"
  defines "cs \<equiv> map (checked_id T d) ids"
  defines "safe \<equiv> map (\<lambda>c. if c \<ge> 0 \<and> c < n then nat c else 0) cs"
    and "valid \<equiv> map (\<lambda>c. c \<ge> 0 \<and> c < n) cs"
  shows "\<exists>counts. i_scatter_add T (nat n) safe (map (\<lambda>v. if v then 1 else 0) valid) = Inr counts \<and>
     (routing_values_ok T n ids ws \<longrightarrow>
       map int (filter (\<lambda>e. counts ! e \<noteq> 0) [0 ..< length counts]) = experts_in ids)"
proof -
  let ?src = "map (\<lambda>v. if v then 1 else 0) valid"
  let ?counts = "map (\<lambda>j. signed_take_bit 31 (scatter_sum safe ?src j)) [0 ..< nat n]"
  have len': "length safe = length ?src" and "length safe < 2 ^ 32"
    using len by (simp_all add: safe_def valid_def cs_def)
  have run: "i_scatter_add T (nat n) safe ?src = Inr ?counts"
    by (rule torch_doc_scatter [OF doc len']) (use n in \<open>auto simp: safe_def split: if_splits\<close>)
  have zip: "zip safe valid = map (\<lambda>c. (if c \<ge> 0 \<and> c < n then nat c else 0, c \<ge> 0 \<and> c < n)) cs"
    by (simp add: safe_def valid_def zip_map_map zip_same_conv_map)
  have "map int (filter (\<lambda>e. ?counts ! e \<noteq> 0) [0 ..< length ?counts]) = experts_in ids"
    if ok: "routing_values_ok T n ids ws"
  proof (rule experts_in_enumerate)
    have "checked_id T d e = e" if "e \<in> set ids" for e
      using checked_id_range(2) [OF doc n(2), of d e] that rep ok
      by (auto simp: representable_def routing_values_ok_def split: option.splits)
    then have cs: "cs = ids" by (simp add: cs_def map_idI)
    show "?counts ! e \<noteq> 0 \<longleftrightarrow> int e \<in> set ids" if e: "e < length ?counts" for e
    proof -
      have "?counts ! e \<noteq> 0 \<longleftrightarrow> (e, True) \<in> set (zip safe valid)"
        using e count_table_nonzero [OF \<open>length safe < 2 ^ 32\<close>] by simp
      also have "\<dots> \<longleftrightarrow> int e \<in> set ids"
        using e n unfolding zip cs
        by (auto simp: image_iff split: if_splits intro!: bexI [where x = "int e"])
      finally show ?thesis .
    qed
    show "\<forall>x\<in>set ids. x < int (length ?counts)"
      using ok n by (auto simp: routing_values_ok_def)
  qed
  with run show ?thesis by blast
qed

lemma validate_and_convert_routing_Inr:
  assumes doc: "torch_int_doc T" and ok: "matrix_ok ids" and len: "dim0 ids * dim1 ids < 2 ^ 32"
    and rep: "representable (t_dtype ids) (flatten ids)"
  shows "validate_and_convert_routing T ids ws n = Inr r \<longleftrightarrow>
     frontend_meta_ok ids ws n \<and> routing_values_ok T n (flatten ids) (flatten ws) \<and>
     r = (ids\<lparr>t_dtype := Int32\<rparr>,
          ws\<lparr>t_dtype := Float32, t_data := map (map (f_to T Float32)) (t_data ws)\<rparr>,
          experts_in (flatten ids))"
proof (cases "frontend_meta_ok ids ws n")
  case False
  then show ?thesis
    by (auto simp: validate_and_convert_routing_def frontend_meta_ok_def Let_def)
next
  case True
  then have n: "0 < n" "n \<le> 2 ^ 31" by (simp_all add: frontend_meta_ok_def)
  have "length (flatten ids) < 2 ^ 32" using len by (simp add: length_flatten [OF ok])
  from frontend_counts [OF doc n this rep, of "flatten ws"] obtain counts where
    run: "i_scatter_add T (nat n) (map (\<lambda>c. if c \<ge> 0 \<and> c < n then nat c else 0) (map (checked_id T (t_dtype ids)) (flatten ids)))
       (map (\<lambda>v. if v then 1 else 0) (map (\<lambda>c. c \<ge> 0 \<and> c < n) (map (checked_id T (t_dtype ids)) (flatten ids)))) = Inr counts"
    and dist: "routing_values_ok T n (flatten ids) (flatten ws) \<Longrightarrow>
       map int (filter (\<lambda>e. counts ! e \<noteq> 0) [0 ..< length counts]) = experts_in (flatten ids)"
    by blast
  have narrow: "ids\<lparr>t_dtype := Int32, t_data := map (map (i_to_int32 T)) (t_data ids)\<rparr> = ids\<lparr>t_dtype := Int32\<rparr>"
    if "routing_values_ok T n (flatten ids) (flatten ws)"
  proof -
    have "i_to_int32 T x = x" if "row \<in> set (t_data ids)" "x \<in> set row" for row x
      using that \<open>routing_values_ok T n (flatten ids) (flatten ws)\<close> n
      by (intro torch_doc_int32 [OF doc]) (fastforce simp: routing_values_ok_def flatten_def)+
    then have "map (map (i_to_int32 T)) (t_data ids) = t_data ids"
      by (simp add: map_idI)
    then show ?thesis by simp
  qed
  show ?thesis
    using True run dist narrow routing_error_free [OF doc n(2) rep, of "flatten ws"]
    unfolding validate_and_convert_routing_def frontend_meta_ok_def Let_def
    by (auto simp only: run rbind_simps after_eq_Inr raise_first_None_simps sum.inject HOL.simp_thms)
qed

lemma seen_table:
  assumes "\<forall>e\<in>set es. 0 \<le> e" and "i < length s"
  shows "fold (\<lambda>e s. s[nat e := True]) es s ! i \<longleftrightarrow> s ! i \<or> int i \<in> set es"
  using assms
proof (induction es arbitrary: s)
  case Nil
  then show ?case by simp
next
  case (Cons e es)
  then show ?case by (cases "nat e = i") (auto simp: nth_list_update)
qed

lemma length_seen_table: "length (fold (\<lambda>e s. s[nat e := True]) es s) = length s"
  by (induction es arbitrary: s) auto

lemma validate_received_routing_Inr:
  "validate_received_routing T ids ws n = Inr d \<longleftrightarrow>
     flatten ids \<noteq> [] \<and> routing_values_ok T n (flatten ids) (flatten ws) \<and> d = experts_in (flatten ids)"
proof (cases "flatten ids \<noteq> [] \<and> routing_values_ok T n (flatten ids) (flatten ws)")
  case False
  then have "\<not> (flatten ids \<noteq> [] \<and> \<not> Min (set (flatten ids)) < - 1 \<and> \<not> Max (set (flatten ids)) \<ge> n \<and>
      \<not> (\<exists>p\<in>set (zip (flatten ids) (flatten ws)). fst p = - 1 \<and> f_nonzero T (snd p)))"
    by (cases "flatten ids = []") (auto simp: routing_values_ok_def not_less not_le)
  with False show ?thesis
    unfolding validate_received_routing_def Let_def after_eq_Inr raise_first_None_simps by blast
next
  case True
  let ?ids = "flatten ids" and ?valid = "filter (\<lambda>e. e \<noteq> - 1) (flatten ids)"
  have range: "- 1 \<le> e \<and> e < n" if "e \<in> set ?ids" for e
    using True that by (simp add: routing_values_ok_def)
  then have pos: "\<forall>e\<in>set ?valid. 0 \<le> e" by force
  let ?seen = "fold (\<lambda>e s. s[nat e := True]) ?valid (replicate (nat n) False)"
  have "map int (filter (\<lambda>i. ?seen ! i) [0 ..< length ?seen]) = experts_in ?ids"
  proof (rule experts_in_enumerate)
    show "?seen ! i \<longleftrightarrow> int i \<in> set ?ids" if "i < length ?seen" for i
      using that seen_table [OF pos, of i "replicate (nat n) False"] by (auto simp: length_seen_table)
    show "\<forall>x\<in>set ?ids. x < int (length ?seen)"
      using range by (force simp: length_seen_table)
  qed
  moreover have "experts_in ?ids = []" if "?valid = []"
    using that range by (force simp: experts_in_def filter_empty_conv)
  moreover have "Min (set ?ids) \<ge> - 1" and "Max (set ?ids) < n"
    using True range by auto
  ultimately show ?thesis
    using True by (auto simp: validate_received_routing_def Let_def routing_values_ok_def not_less not_le)
qed

section \<open>Properties\<close>

text \<open>
  The Frontend check accepts a routing table exactly when its metadata is consistent, every
  identifier is \<open>-1\<close> or below the configured count, and every \<open>-1\<close> has zero weight. It then
  returns the identifiers unchanged as \<open>int32\<close>, the converted weights, and the exact increasing
  list of the experts used.
\<close>

theorem frontend_routing_check:
  assumes "torch_int_doc T" and "matrix_ok ids" and "dim0 ids * dim1 ids < 2 ^ 32"
    and "representable (t_dtype ids) (flatten ids)"
  shows "validate_and_convert_routing T ids ws n = Inr r \<longleftrightarrow>
     frontend_meta_ok ids ws n \<and> routing_values_ok T n (flatten ids) (flatten ws) \<and>
     r = (ids\<lparr>t_dtype := Int32\<rparr>,
          ws\<lparr>t_dtype := Float32, t_data := map (map (f_to T Float32)) (t_data ws)\<rparr>,
          experts_in (flatten ids))"
  using assms by (rule validate_and_convert_routing_Inr)

theorem frontend_routing_check_witness:
  "validate_and_convert_routing torch_ref (mk_matrix UInt8 ''cpu'' 2 [[3, 0], [3, 1]]) (mk_matrix Float32 ''cpu'' 2 [[1, 2], [3, 4]]) 4
   = Inr (mk_matrix Int32 ''cpu'' 2 [[3, 0], [3, 1]], mk_matrix Float32 ''cpu'' 2 [[1, 2], [3, 4]], [0, 1, 3])"
proof -
  let ?ids = "mk_matrix UInt8 ''cpu'' 2 [[3, 0], [3, 1 :: int]]"
  let ?ws = "mk_matrix Float32 ''cpu'' 2 [[1, 2], [3, 4 :: int]]"
  have "experts_in (flatten ?ids) = [0, 1, 3]" by code_simp
  then show ?thesis
    by (subst frontend_routing_check [OF torch_ref_doc])
      (simp_all add: frontend_meta_ok_def routing_values_ok_def representable_def flatten_def torch_ref_def mk_matrix_def
        matrix_ok_def)
qed

text \<open>
  The receiver's independent check accepts exactly the nonempty tables whose identifiers are
  \<open>-1\<close> or in range with zero weight at every \<open>-1\<close>, and computes the same exact expert list the
  Frontend computed.
\<close>

theorem receiver_routing_check:
  "validate_received_routing T ids ws n = Inr d \<longleftrightarrow>
     flatten ids \<noteq> [] \<and> routing_values_ok T n (flatten ids) (flatten ws) \<and> d = experts_in (flatten ids)"
  by (rule validate_received_routing_Inr)

end
