(* ===== verification/Grouping.thy ===== *)
theory Grouping
  imports Selection Routing_Validation
begin

text \<open>
  \<open>ek-transport/src/expertkit_transport/routing/grouping.py\<close>: one replica is selected per
  expert, the assignments are grouped by Worker process and oversized groups are split into
  physical batches. The selector is a parameter \<open>select\<close> that threads its own state, so the
  lemmas hold for every implementation of the \<open>replica_selector\<close> interface. The published
  limit \<open>max_batch_tokens\<close> is positive for every \<open>WorkerConnection\<close> that passed its
  constructor check.
\<close>

record 'f worker_batch_plan =
  pl_target :: worker_connection
  pl_batch :: "'f worker_batch"

definition invalid_request :: "string \<Rightarrow> exn" where
  "invalid_request diagnostic = Raised_TransportError (TransportError INVALID_REQUEST False diagnostic)"

definition distinct_experts_by_chunk ::
  "('f, 'z) torch_ops_scheme \<Rightarrow> int matrix tensor \<Rightarrow> nat \<Rightarrow> int list \<Rightarrow> exn + int list list" where
  "distinct_experts_by_chunk T expert_ids chunk_size distinct_expert_ids =
     (let chunk_count = (dim0 expert_ids + chunk_size - 1) div chunk_size
      in if distinct_expert_ids = [] then Inr (replicate chunk_count [])
         else
           let valid = map (map (\<lambda>e. 0 \<le> e)) (t_data expert_ids);
               expert_width = nat (last distinct_expert_ids + 1);
               chunk_indices = map (\<lambda>r. r div chunk_size) [0 ..< dim0 expert_ids];
               safe_expert_ids = map (map (\<lambda>e. if 0 \<le> e then nat e else 0)) (t_data expert_ids);
               flat_indices = map (\<lambda>(c, row). map (\<lambda>e. c * expert_width + e) row) (zip chunk_indices safe_expert_ids)
           in rbind (i_scatter_add T (chunk_count * expert_width) (concat flat_indices)
                       (map (\<lambda>v. if v then 1 else 0) (concat valid)))
               (\<lambda>counts. Inr (map (\<lambda>c. map int (filter (\<lambda>e. counts ! (c * expert_width + e) \<noteq> 0) [0 ..< expert_width]))
                                [0 ..< chunk_count])))"

text \<open>Row slices \<open>tensor[start:stop]\<close>.\<close>

definition slice_rows :: "nat \<Rightarrow> nat \<Rightarrow> 'a matrix tensor \<Rightarrow> 'a matrix tensor" where
  "slice_rows a b t = mk_matrix (t_dtype t) (t_device t) (dim1 t) (slice a b (t_data t))"

definition slice_vector :: "nat \<Rightarrow> nat \<Rightarrow> 'a list tensor \<Rightarrow> 'a list tensor" where
  "slice_vector a b t = mk_vector (t_dtype t) (t_device t) (slice a b (t_data t))"

definition all_token_indices :: "'f worker_batch \<Rightarrow> nat list tensor" where
  "all_token_indices batch =
     (case wb_token_indices batch of
        Some ti \<Rightarrow> ti
      | None \<Rightarrow> mk_vector Int64 (t_device (wb_hidden_states batch)) [0 ..< dim0 (wb_hidden_states batch)])"

definition physical_batch :: "'f worker_batch \<Rightarrow> nat \<Rightarrow> nat \<Rightarrow> int list \<Rightarrow> 'f worker_batch" where
  "physical_batch batch start stop distinct_ids =
     batch\<lparr>wb_token_indices := Some (slice_vector start stop (all_token_indices batch)),
           wb_expert_ids := slice_rows start stop (wb_expert_ids batch),
           wb_routing_weights := slice_rows start stop (wb_routing_weights batch),
           wb_distinct_expert_ids := distinct_ids\<rparr>"

definition split_batch ::
  "('f, 'z) torch_ops_scheme \<Rightarrow> worker_connection \<Rightarrow> 'f worker_batch \<Rightarrow> exn + 'f worker_batch_plan list" where
  "split_batch T target batch =
     (if int (wb_token_count batch) \<le> wc_max_batch_tokens target
      then Inr [\<lparr>pl_target = target, pl_batch = batch\<rparr>]
      else let size = nat (wc_max_batch_tokens target)
           in rbind (distinct_experts_by_chunk T (wb_expert_ids batch) size (wb_distinct_expert_ids batch))
             (\<lambda>distinct_by_chunk.
                rmap (\<lambda>(chunk_index, start).
                   let stop = min (start + size) (wb_token_count batch);
                       physical = physical_batch batch start stop (distinct_by_chunk ! chunk_index)
                   in after (worker_batch_post_init physical)
                        (Inr \<lparr>pl_target = target, pl_batch = physical\<rparr>))
                  (enumerate 0 (chunk_starts (wb_token_count batch) size))))"

text \<open>
  The selection loop: the three dictionaries \<open>selected_targets\<close>, \<open>targets_by_identity\<close> and
  \<open>experts_by_identity\<close>.
\<close>

type_synonym selection =
  "(int, worker_connection) dict \<times> (worker_identity, worker_connection) dict \<times> (worker_identity, int list) dict"

type_synonym 's select_fun =
  "'s \<Rightarrow> int \<Rightarrow> int \<Rightarrow> int \<Rightarrow> worker_connection list \<Rightarrow> worker_identity set \<Rightarrow> bool \<Rightarrow> (exn + worker_connection) \<times> 's"

definition expert_exclusions ::
  "worker_identity set \<Rightarrow> (int \<rightharpoonup> worker_identity set) option \<Rightarrow> int \<Rightarrow> worker_identity set" where
  "expert_exclusions excluded excluded_by_expert e =
     (case excluded_by_expert of
        None \<Rightarrow> excluded
      | Some ex \<Rightarrow> excluded \<union> (case ex e of None \<Rightarrow> {} | Some w \<Rightarrow> w))"

definition record_selection :: "int \<Rightarrow> worker_connection \<Rightarrow> selection \<Rightarrow> selection" where
  "record_selection e target sel =
     (case sel of (selected, by_identity, experts) \<Rightarrow>
       (AList.update e target selected,
        AList.update (wc_identity target) target by_identity,
        AList.update (wc_identity target)
          ((case map_of experts (wc_identity target) of None \<Rightarrow> [] | Some es \<Rightarrow> es) @ [e]) experts))"

fun select_targets ::
  "'s select_fun \<Rightarrow> int \<Rightarrow> int \<Rightarrow> layer_table \<Rightarrow> (int \<Rightarrow> worker_identity set) \<Rightarrow> bool \<Rightarrow>
   int list \<Rightarrow> selection \<Rightarrow> 's \<Rightarrow> (exn + selection) \<times> 's" where
  "select_targets select instance_id layer_id routes exclusions fallback [] sel st = (Inr sel, st)"
| "select_targets select instance_id layer_id routes exclusions fallback (e # rest) sel st =
     (case map_of routes e of
        None \<Rightarrow> (Inl KeyError, st)
      | Some replicas \<Rightarrow>
         (case select st instance_id layer_id e replicas (exclusions e) fallback of
            (Inl err, st') \<Rightarrow> (Inl err, st')
          | (Inr target, st') \<Rightarrow>
              select_targets select instance_id layer_id routes exclusions fallback rest
                (record_selection e target sel) st'))"

definition worker_batch_of ::
  "'f routed_layer_batch \<Rightarrow> int \<Rightarrow> nat list tensor option \<Rightarrow> int matrix tensor \<Rightarrow> 'f matrix tensor \<Rightarrow> int list \<Rightarrow>
   'f worker_batch" where
  "worker_batch_of batch version token_indices ids weights distinct_ids =
     \<lparr>wb_instance_id = rb_instance_id batch, wb_layer_id = rb_layer_id batch, wb_topology_version = version,
      wb_hidden_states = rb_hidden_states batch, wb_token_indices = token_indices, wb_expert_ids = ids,
      wb_routing_weights = weights, wb_distinct_expert_ids = distinct_ids\<rparr>"

text \<open>\<open>expert_target_values\<close>: target index per expert number, \<open>-1\<close> where none is selected.\<close>

definition target_index :: "worker_identity list \<Rightarrow> worker_identity \<Rightarrow> int" where
  "target_index order w = (case map_of (zip order [0 ..< length order]) w of Some i \<Rightarrow> int i | None \<Rightarrow> - 1)"

definition expert_target_values ::
  "(int, worker_connection) dict \<Rightarrow> worker_identity list \<Rightarrow> int list" where
  "expert_target_values selected order =
     fold (\<lambda>(e, target) values. values[nat e := target_index order (wc_identity target)]) selected
       (replicate (nat (Max (set (map fst selected)) + 1)) (- 1))"

text \<open>\<open>expert_target_indices[safe_expert_ids]\<close> raises when an identifier is out of range.\<close>

definition assignment_target :: "int list \<Rightarrow> int \<Rightarrow> exn + int" where
  "assignment_target values e =
     (let safe = (if 0 \<le> e then nat e else 0)
      in if safe < length values then Inr (if 0 \<le> e then values ! safe else - 1) else Inl IndexError)"

definition masked :: "bool list \<Rightarrow> 'a list \<Rightarrow> 'a \<Rightarrow> 'a list" where
  "masked flags row d = map2 (\<lambda>m x. if m then x else d) flags row"

text \<open>One turn of the loop over the selected targets.\<close>

definition target_plans ::
  "('f, 'z) torch_ops_scheme \<Rightarrow> 'f routed_layer_batch \<Rightarrow> int \<Rightarrow> int matrix \<Rightarrow>
   (worker_identity, int list) dict \<Rightarrow> nat \<times> worker_connection \<Rightarrow> exn + 'f worker_batch_plan list" where
  "target_plans T batch version assignment_targets experts ix =
     (case ix of (index, target) \<Rightarrow>
       let target_assignments = map (map (\<lambda>a. a = int index)) assignment_targets;
           token_indices = filter (\<lambda>t. list_ex (\<lambda>b. b) (target_assignments ! t)) [0 ..< length target_assignments]
       in if token_indices = [] then Inr []
          else
            let ids = rb_expert_ids batch; weights = rb_routing_weights batch;
                selected_ids = map (\<lambda>t. masked (target_assignments ! t) (t_data ids ! t) (- 1)) token_indices;
                selected_weights = map (\<lambda>t. masked (target_assignments ! t) (t_data weights ! t) (f_zero T)) token_indices
            in (case map_of experts (wc_identity target) of
                  None \<Rightarrow> Inl KeyError
                | Some es \<Rightarrow>
                    let logical = worker_batch_of batch version
                          (Some (mk_vector Int64 (t_device ids) token_indices))
                          (mk_matrix Int32 (t_device ids) (dim1 ids) selected_ids)
                          (mk_matrix Float32 (t_device weights) (dim1 weights) selected_weights) es
                    in after (worker_batch_post_init logical) (split_batch T target logical)))"

definition group_by_target ::
  "('f, 'z) torch_ops_scheme \<Rightarrow> 'f routed_layer_batch \<Rightarrow> int \<Rightarrow> selection \<Rightarrow> exn + 'f worker_batch_plan list" where
  "group_by_target T batch version sel =
     (case sel of (selected, by_identity, experts) \<Rightarrow>
       let order = sort (map fst by_identity);
           targets = map (\<lambda>w. the (map_of by_identity w)) order;
           values = expert_target_values selected order
       in rbind (rmap (rmap (assignment_target values)) (t_data (rb_expert_ids batch)))
           (\<lambda>assignment_targets.
              rbind (rmap (target_plans T batch version assignment_targets experts) (enumerate 0 targets))
                (\<lambda>plans. Inr (concat plans))))"

definition group_selected ::
  "('f, 'z) torch_ops_scheme \<Rightarrow> 'f routed_layer_batch \<Rightarrow> int \<Rightarrow> bool \<Rightarrow> selection \<Rightarrow> exn + 'f worker_batch_plan list" where
  "group_selected T batch version reuse_complete_tensors sel =
     (case sel of (selected, by_identity, experts) \<Rightarrow>
       if reuse_complete_tensors \<and> length by_identity = 1
       then let target = snd (hd by_identity);
                logical = worker_batch_of batch version None (rb_expert_ids batch) (rb_routing_weights batch)
                            (rb_distinct_expert_ids batch)
            in after (worker_batch_post_init logical) (split_batch T target logical)
       else group_by_target T batch version sel)"

definition group_worker_batches ::
  "('f, 'z) torch_ops_scheme \<Rightarrow> 's select_fun \<Rightarrow> 'f routed_layer_batch \<Rightarrow> topology_snapshot \<Rightarrow> 's \<Rightarrow>
   worker_identity set \<Rightarrow> (int \<rightharpoonup> worker_identity set) option \<Rightarrow> bool \<Rightarrow> bool \<Rightarrow>
   (exn + 'f worker_batch_plan list) \<times> 's" where
  "group_worker_batches T select batch topology st excluded excluded_by_expert fallback reuse =
     (if rb_instance_id batch \<noteq> ts_instance_id topology
      then (Inl (invalid_request ''Routed layer and Topology instance IDs differ''), st)
      else
       let routes = layer_routes topology (rb_layer_id batch);
           requested = rb_distinct_expert_ids batch
       in if routes = []
          then (if requested = [] then (Inr [], st)
                else (Inl (Raised_TransportError ((TransportError UNAVAILABLE True
                        ''the layer has no ready expert routes'')\<lparr>te_unavailable_expert_ids := requested\<rparr>)), st))
          else if requested = [] then (Inr [], st)
          else
            let missing = filter (\<lambda>e. map_of routes e = None) requested
            in if missing \<noteq> []
               then (Inl (Raised_TransportError ((TransportError UNAVAILABLE True
                       ''one or more experts have no ready route'')\<lparr>te_unavailable_expert_ids := missing\<rparr>)), st)
               else (case select_targets select (rb_instance_id batch) (rb_layer_id batch) routes
                            (expert_exclusions excluded excluded_by_expert) fallback requested ([], [], []) st of
                       (Inl err, st') \<Rightarrow> (Inl err, st')
                     | (Inr sel, st') \<Rightarrow> (group_selected T batch (ts_version topology) reuse sel, st')))"

section \<open>Assignments of a batch\<close>

text \<open>
  The routing assignments a batch stands for: token, routing column, expert number and weight
  of every position with a valid expert number, in row order.
\<close>

definition row_assignments :: "nat \<Rightarrow> int list \<Rightarrow> 'f list \<Rightarrow> (nat \<times> nat \<times> int \<times> 'f) list" where
  "row_assignments t es ws =
     map (Pair t) (filter (\<lambda>(k, e, w). 0 \<le> e) (zip [0 ..< length es] (zip es ws)))"

definition matrix_assignments ::
  "nat list \<Rightarrow> int matrix \<Rightarrow> 'f matrix \<Rightarrow> (nat \<times> nat \<times> int \<times> 'f) list" where
  "matrix_assignments ts ids ws = concat (map (\<lambda>(t, es, wr). row_assignments t es wr) (zip ts (zip ids ws)))"

definition rb_assignments :: "'f routed_layer_batch \<Rightarrow> (nat \<times> nat \<times> int \<times> 'f) list" where
  "rb_assignments b = matrix_assignments [0 ..< rb_token_count b] (t_data (rb_expert_ids b)) (t_data (rb_routing_weights b))"

definition wb_assignments :: "'f worker_batch \<Rightarrow> (nat \<times> nat \<times> int \<times> 'f) list" where
  "wb_assignments b =
     matrix_assignments (t_data (all_token_indices b)) (t_data (wb_expert_ids b)) (t_data (wb_routing_weights b))"

text \<open>Metadata and values of a physical batch agree, and its expert list is exact.\<close>

definition wb_values_ok :: "'f worker_batch \<Rightarrow> bool" where
  "wb_values_ok b \<longleftrightarrow> worker_batch_post_init b = None \<and>
     matrix_ok (wb_expert_ids b) \<and> matrix_ok (wb_routing_weights b) \<and>
     (case wb_token_indices b of None \<Rightarrow> True
      | Some ti \<Rightarrow> vector_ok ti \<and> distinct (t_data ti) \<and> (\<forall>t\<in>set (t_data ti). t < dim0 (wb_hidden_states b))) \<and>
     wb_distinct_expert_ids b = experts_in (flatten (wb_expert_ids b))"

section \<open>Splitting\<close>

lemma zip_concat_map:
  "zip (concat (map (\<lambda>x. map (f x) (g x)) xs)) (concat (map (\<lambda>x. map (h x) (g x)) xs))
     = concat (map (\<lambda>x. map (\<lambda>y. (f x y, h x y)) (g x)) xs)"
  by (induction xs) (auto simp: zip_append zip_map_map zip_same_conv_map)

lemma last_experts_in:
  assumes "e \<in> set ids" and "0 \<le> e"
  shows "e \<le> last (experts_in ids)" and "experts_in ids \<noteq> []"
proof -
  have mem: "e \<in> set (experts_in ids)" using assms by (simp add: experts_in_props)
  then show "experts_in ids \<noteq> []" by auto
  have "sorted (experts_in ids)"
    using experts_in_props(1) [of ids] by (simp add: strict_sorted_iff)
  with mem show "e \<le> last (experts_in ids)"
    by (metis in_set_conv_decomp last_appendR last_in_set last_ConsR last_ConsL list.distinct(1) order_refl sorted_append
        sorted_simps(2) list.set_intros(1))
qed

lemma set_slice_rows:
  assumes "length xs = n" and "0 < c"
  shows "set (slice (ci * c) (min (ci * c + c) n) xs) = {xs ! r | r. r < n \<and> r div c = ci}"
proof -
  have div: "r div c = ci \<longleftrightarrow> ci * c \<le> r \<and> r < ci * c + c" for r
    using assms(2) by (metis add.commute div_nat_eqI dividend_less_div_times div_times_less_eq_dividend mult.commute mult_Suc_right)
  have "set (slice (ci * c) (ci * c + c) xs) = {xs ! r | r. r < n \<and> ci * c \<le> r \<and> r < ci * c + c}"
  proof (intro set_eqI iffI)
    fix x assume "x \<in> set (slice (ci * c) (ci * c + c) xs)"
    then obtain i where i: "i < length (slice (ci * c) (ci * c + c) xs)" "x = slice (ci * c) (ci * c + c) xs ! i"
      by (auto simp: in_set_conv_nth)
    then show "x \<in> {xs ! r | r. r < n \<and> ci * c \<le> r \<and> r < ci * c + c}"
      using assms(1) by (auto simp: slice_def intro!: exI [where x = "ci * c + i"])
  next
    fix x assume "x \<in> {xs ! r | r. r < n \<and> ci * c \<le> r \<and> r < ci * c + c}"
    then obtain r where r: "x = xs ! r" "r < n" "ci * c \<le> r" "r < ci * c + c" by auto
    then have "slice (ci * c) (ci * c + c) xs ! (r - ci * c) = x"
      and "r - ci * c < length (slice (ci * c) (ci * c + c) xs)"
      using assms(1) by (auto simp: slice_def)
    then show "x \<in> set (slice (ci * c) (ci * c + c) xs)" by (metis nth_mem)
  qed
  then show ?thesis
    using assms(1) by (simp add: slice_min_length div)
qed

lemma chunk_index_unique:
  assumes "c * w + e = c' * w + e'" and "e < w" and "e' < (w::nat)"
  shows "c = c' \<and> e = e'"
proof -
  have "(c * w + e) div w = c" "(c' * w + e') div w = c'"
    using assms(2,3) by simp_all
  with assms(1) show ?thesis by auto
qed

lemma flat_index_bound: "c < m \<Longrightarrow> e < w \<Longrightarrow> c * w + e < m * (w::nat)"
  by (metis add.commute add_less_cancel_right less_le_trans mult_Suc mult_le_mono1 Suc_leI add_less_le_mono)

text \<open>The table \<open>flat_indices\<close> with the validity flags, as one list over the rows.\<close>

definition flat_table :: "nat \<Rightarrow> nat \<Rightarrow> int matrix \<Rightarrow> (nat \<times> bool) list" where
  "flat_table c w rows =
     concat (map (\<lambda>r. map (\<lambda>e. ((r div c) * w + (if 0 \<le> e then nat e else 0), 0 \<le> e)) (rows ! r)) [0 ..< length rows])"

lemma length_flat_table: "length (flat_table c w rows) = length (concat rows)"
proof -
  have "map length rows = map (\<lambda>r. length (rows ! r)) [0 ..< length rows]"
    by (metis map_map comp_def map_nth map_cong)
  then show ?thesis by (simp add: flat_table_def length_concat comp_def)
qed

lemma flat_table_code:
  "concat (map (\<lambda>(ch, row). map (\<lambda>e. ch * w + e) row)
     (zip (map (\<lambda>r. r div c) [0 ..< length rows]) (map (map (\<lambda>e. if 0 \<le> e then nat e else 0)) rows)))
   = map fst (flat_table c w rows)"
  "concat (map (map (\<lambda>e. 0 \<le> e)) rows) = map snd (flat_table c w rows)"
proof -
  have "zip (map (\<lambda>r. r div c) [0 ..< length rows]) (map (map (\<lambda>e. if 0 \<le> e then nat e else 0)) rows)
      = map (\<lambda>r. (r div c, map (\<lambda>e. if 0 \<le> e then nat e else 0) (rows ! r))) [0 ..< length rows]"
    by (rule nth_equalityI) auto
  then show "concat (map (\<lambda>(ch, row). map (\<lambda>e. ch * w + e) row)
     (zip (map (\<lambda>r. r div c) [0 ..< length rows]) (map (map (\<lambda>e. if 0 \<le> e then nat e else 0)) rows)))
   = map fst (flat_table c w rows)"
    by (simp add: flat_table_def map_concat comp_def)
  have "map (map (\<lambda>e. 0 \<le> e)) rows = map (\<lambda>r. map (\<lambda>e. 0 \<le> e) (rows ! r)) [0 ..< length rows]"
    by (rule nth_equalityI) auto
  then show "concat (map (map (\<lambda>e. 0 \<le> e)) rows) = map snd (flat_table c w rows)"
    by (simp add: flat_table_def map_concat comp_def)
qed

lemma in_set_concat_rows:
  "p \<in> set (concat (map (\<lambda>r. map (f r) (rows ! r)) [0 ..< length rows])) \<longleftrightarrow>
     (\<exists>r<length rows. \<exists>e\<in>set (rows ! r). p = f r e)"
  by auto

lemma set_flat_table:
  "(j, b) \<in> set (flat_table c w rows) \<longleftrightarrow>
     (\<exists>r<length rows. \<exists>e\<in>set (rows ! r). j = (r div c) * w + (if 0 \<le> e then nat e else 0) \<and> b = (0 \<le> e))"
  unfolding flat_table_def in_set_concat_rows prod.inject by (rule refl)

lemma flat_table_bound:
  assumes "0 < c" and "0 < w" and "\<forall>row\<in>set rows. \<forall>e\<in>set row. e < int w"
    and "i \<in> set (map fst (flat_table c w rows))"
  shows "i < ((length rows + c - 1) div c) * w"
proof -
  from assms(4) obtain r e where r: "r < length rows" "e \<in> set (rows ! r)"
    "i = (r div c) * w + (if 0 \<le> e then nat e else 0)"
    by (auto simp: set_flat_table)
  moreover have "r div c < (length rows + c - 1) div c"
    using r(1) ceil_div_bounds(1) [OF assms(1), of "length rows"] assms(1) by (simp add: div_less_iff_less_mult)
  moreover have "e < int w"
    using assms(3) r(1,2) nth_mem by blast
  ultimately show ?thesis using assms(2) flat_index_bound by auto
qed

lemma flat_table_hit:
  assumes "0 < c" and "\<forall>row\<in>set rows. \<forall>e\<in>set row. e < int w" and "e < w"
  shows "(ci * w + e, True) \<in> set (flat_table c w rows) \<longleftrightarrow>
     int e \<in> set (concat (slice (ci * c) (min (ci * c + c) (length rows)) rows))"
proof -
  have "(ci * w + e, True) \<in> set (flat_table c w rows) \<longleftrightarrow>
      (\<exists>r<length rows. r div c = ci \<and> int e \<in> set (rows ! r))"
  proof
    assume "(ci * w + e, True) \<in> set (flat_table c w rows)"
    then obtain r x where r: "r < length rows" "x \<in> set (rows ! r)" "0 \<le> x" "ci * w + e = (r div c) * w + nat x"
      by (auto simp: set_flat_table split: if_splits)
    moreover from r(1,2) have "x < int w" using assms(2) nth_mem by blast
    ultimately show "\<exists>r<length rows. r div c = ci \<and> int e \<in> set (rows ! r)"
      using chunk_index_unique [OF r(4) assms(3)] by auto
  next
    assume "\<exists>r<length rows. r div c = ci \<and> int e \<in> set (rows ! r)"
    then show "(ci * w + e, True) \<in> set (flat_table c w rows)"
      unfolding set_flat_table
      by (elim exE conjE, intro exI conjI bexI) auto
  qed
  then show ?thesis
    unfolding set_concat set_slice_rows [OF refl assms(1)] by auto
qed

lemma distinct_experts_by_chunk_exact:
  assumes doc: "torch_int_doc T" and ok: "matrix_ok ids" and c: "0 < c"
    and small: "dim0 ids * dim1 ids < 2 ^ 32"
  shows "distinct_experts_by_chunk T ids c (experts_in (flatten ids)) =
     Inr (map (\<lambda>a. experts_in (concat (slice a (min (a + c) (dim0 ids)) (t_data ids)))) (chunk_starts (dim0 ids) c))"
proof -
  let ?n = "dim0 ids" and ?rows = "t_data ids" and ?ds = "experts_in (flatten ids)"
  let ?m = "(?n + c - 1) div c"
  let ?chunk = "\<lambda>ci. slice (ci * c) (min (ci * c + c) ?n) ?rows"
  have len: "length ?rows = ?n" using ok by (simp add: matrix_ok_def)
  have sub: "set (concat (?chunk ci)) \<subseteq> set (flatten ids)" for ci
    using set_slice_subset [of "ci * c" "min (ci * c + c) ?n" ?rows] by (auto simp: flatten_def)
  show ?thesis
  proof (cases "?ds = []")
    case True
    then have none: "e < 0" if "e \<in> set (flatten ids)" for e
      using that last_experts_in(2) [of e "flatten ids"] by force
    have "experts_in (concat (?chunk ci)) = []" for ci
      using sub [of ci] none by (force simp: experts_in_def)
    then show ?thesis
      using True by (simp add: distinct_experts_by_chunk_def chunk_starts_def comp_def map_replicate_const)
  next
    case False
    define w where "w = nat (last ?ds + 1)"
    have "last ?ds \<in> set ?ds" using False by simp
    then have w0: "0 < w" by (auto simp: w_def experts_in_props)
    have mem: "e < int w" if "e \<in> set (flatten ids)" for e
      using last_experts_in(1) [OF that] w0 by (cases "0 \<le> e") (auto simp: w_def)
    then have mem': "\<forall>row\<in>set ?rows. \<forall>e\<in>set row. e < int w" by (auto simp: flatten_def)
    let ?tab = "flat_table c w ?rows"
    let ?src = "map (\<lambda>v. if v then 1 else 0) (map snd ?tab)"
    let ?counts = "map (\<lambda>j. signed_take_bit 31 (scatter_sum (map fst ?tab) ?src j)) [0 ..< ?m * w]"
    have "length (map fst ?tab) < 2 ^ 32"
      using small by (simp add: length_flat_table length_flatten [OF ok, unfolded flatten_def])
    note nonzero = count_table_nonzero [OF this, of "map snd ?tab", unfolded zip_map_fst_snd]
    have run: "i_scatter_add T (?m * w) (map fst ?tab) ?src = Inr ?counts"
      using flat_table_bound [OF c w0 mem'] len by (intro torch_doc_scatter [OF doc]) simp_all
    have each: "map int (filter (\<lambda>e. ?counts ! (ci * w + e) \<noteq> 0) [0 ..< w]) = experts_in (concat (?chunk ci))"
      if "ci < ?m" for ci
    proof (rule experts_in_enumerate)
      show "\<forall>x\<in>set (concat (?chunk ci)). x < int w" using sub mem by blast
      show "?counts ! (ci * w + e) \<noteq> 0 \<longleftrightarrow> int e \<in> set (concat (?chunk ci))" if "e < w" for e
        using nonzero [of "ci * w + e"] flat_table_hit [OF c mem' that, of ci] flat_index_bound [OF \<open>ci < ?m\<close> that]
        by (simp add: len)
    qed
    have "distinct_experts_by_chunk T ids c ?ds =
      rbind (i_scatter_add T (?m * w) (map fst ?tab) ?src)
        (\<lambda>counts. Inr (map (\<lambda>ci. map int (filter (\<lambda>e. counts ! (ci * w + e) \<noteq> 0) [0 ..< w])) [0 ..< ?m]))"
      using False flat_table_code [where w = w and c = c and rows = ?rows] len
      by (simp add: distinct_experts_by_chunk_def Let_def w_def)
    also have "\<dots> = Inr (map (\<lambda>ci. experts_in (concat (?chunk ci))) [0 ..< ?m])"
      unfolding run rbind_simps using each by (intro arg_cong [where f = Inr] map_cong refl) simp
    finally show ?thesis
      by (simp add: chunk_starts_def comp_def)
  qed
qed

text \<open>What splitting keeps of the logical batch.\<close>

definition same_context :: "'f worker_batch \<Rightarrow> 'f worker_batch \<Rightarrow> bool" where
  "same_context b b' \<longleftrightarrow> wb_instance_id b' = wb_instance_id b \<and> wb_layer_id b' = wb_layer_id b \<and>
     wb_topology_version b' = wb_topology_version b \<and> wb_hidden_states b' = wb_hidden_states b \<and>
     wb_top_k b' = wb_top_k b"

definition split_of :: "worker_connection \<Rightarrow> 'f worker_batch \<Rightarrow> 'f worker_batch_plan list \<Rightarrow> bool" where
  "split_of target b plans \<longleftrightarrow>
     concat (map (\<lambda>p. wb_assignments (pl_batch p)) plans) = wb_assignments b \<and>
     (\<forall>p\<in>set plans. pl_target p = target \<and> int (wb_token_count (pl_batch p)) \<le> wc_max_batch_tokens target \<and>
        wb_values_ok (pl_batch p) \<and> same_context b (pl_batch p))"

lemma in_sliceD: "x \<in> set (slice a b xs) \<Longrightarrow> x \<in> set xs"
  by (rule subsetD [OF set_slice_subset])

lemma wb_values_ok_post_init: "wb_values_ok b \<Longrightarrow> worker_batch_post_init b = None"
  by (simp add: wb_values_ok_def)

lemma wb_values_ok_shapes:
  assumes "wb_values_ok b"
  shows "dim0 (wb_expert_ids b) = wb_token_count b" "length (t_data (wb_expert_ids b)) = wb_token_count b"
    "length (t_data (wb_routing_weights b)) = wb_token_count b"
    "length (t_data (all_token_indices b)) = wb_token_count b"
    "t_device (all_token_indices b) = t_device (wb_hidden_states b)" "t_dtype (all_token_indices b) = Int64"
    "\<forall>t\<in>set (t_data (all_token_indices b)). t < dim0 (wb_hidden_states b)"
    "t_shape (wb_routing_weights b) = t_shape (wb_expert_ids b)"
    "distinct (t_data (all_token_indices b))"
  using assms
  by (auto simp: wb_values_ok_def worker_batch_post_init_iff routing_meta_ok_def matrix_ok_def vector_ok_def
      all_token_indices_def wb_token_count_def split: option.splits)

lemma distinct_ids_ok_experts_in:
  "distinct_ids_ok (experts_in xs) \<Longrightarrow> set ys \<subseteq> set xs \<Longrightarrow> distinct_ids_ok (experts_in ys)"
  by (erule distinct_ids_ok_append) (auto simp: experts_in_props)

lemma physical_batch_sel [simp]:
  "wb_instance_id (physical_batch b a s d) = wb_instance_id b"
  "wb_layer_id (physical_batch b a s d) = wb_layer_id b"
  "wb_topology_version (physical_batch b a s d) = wb_topology_version b"
  "wb_hidden_states (physical_batch b a s d) = wb_hidden_states b"
  "wb_token_indices (physical_batch b a s d) = Some (slice_vector a s (all_token_indices b))"
  "wb_expert_ids (physical_batch b a s d) = slice_rows a s (wb_expert_ids b)"
  "wb_routing_weights (physical_batch b a s d) = slice_rows a s (wb_routing_weights b)"
  "wb_distinct_expert_ids (physical_batch b a s d) = d"
  "wb_token_count (physical_batch b a s d) = length (slice a s (t_data (all_token_indices b)))"
  by (simp_all add: physical_batch_def wb_token_count_def slice_vector_def)

lemma physical_batch_ok:
  assumes ok: "wb_values_ok b" and a: "a < wb_token_count b" "0 < c"
  defines "stop \<equiv> min (a + c) (wb_token_count b)"
  shows "wb_values_ok (physical_batch b a stop (experts_in (concat (slice a stop (t_data (wb_expert_ids b))))))"
proof -
  note sh = wb_values_ok_shapes [OF ok]
  have len: "length (slice a stop (t_data (wb_expert_ids b))) = stop - a"
    "length (slice a stop (t_data (wb_routing_weights b))) = stop - a"
    "length (slice a stop (t_data (all_token_indices b))) = stop - a"
    using sh a by (simp_all add: length_slice stop_def)
  have "set (concat (slice a stop (t_data (wb_expert_ids b)))) \<subseteq> set (flatten (wb_expert_ids b))"
    using set_slice_subset [of a stop "t_data (wb_expert_ids b)"] by (auto simp: flatten_def)
  moreover have "distinct_ids_ok (experts_in (flatten (wb_expert_ids b)))"
    using ok unfolding wb_values_ok_def worker_batch_post_init_iff by metis
  ultimately have d: "distinct_ids_ok (experts_in (concat (slice a stop (t_data (wb_expert_ids b)))))"
    by (blast intro: distinct_ids_ok_experts_in)
  have rows: "\<forall>r\<in>set (slice a stop (t_data (wb_expert_ids b))). length r = dim1 (wb_expert_ids b)"
    "\<forall>r\<in>set (slice a stop (t_data (wb_routing_weights b))). length r = dim1 (wb_routing_weights b)"
    "\<forall>t\<in>set (slice a stop (t_data (all_token_indices b))). t < dim0 (wb_hidden_states b)"
    using ok sh(7) by (auto simp: wb_values_ok_def matrix_ok_def dest: in_sliceD)
  have pos: "0 < stop - a" using a by (simp add: stop_def)
  let ?b = "physical_batch b a stop (experts_in (concat (slice a stop (t_data (wb_expert_ids b)))))"
  have old: "worker_batch_post_init b = None" using ok by (rule wb_values_ok_post_init)
  have "routing_meta_ok (wb_token_count ?b) (wb_hidden_states ?b) (wb_expert_ids ?b) (wb_routing_weights ?b)"
    using old pos len sh(8) unfolding worker_batch_post_init_iff routing_meta_ok_def
    by (simp add: slice_rows_def)
  then have "worker_batch_post_init ?b = None"
    using old d pos len sh(5,6) unfolding worker_batch_post_init_iff [of ?b]
    by (simp add: slice_vector_def worker_batch_post_init_iff)
  moreover have "distinct (slice a stop (t_data (all_token_indices b)))"
    using sh(9) by (simp add: slice_def)
  ultimately show ?thesis
    using rows unfolding wb_values_ok_def by (simp add: slice_rows_def slice_vector_def flatten_def)
qed

lemma physical_batch_context: "same_context b (physical_batch b a s d)"
  by (simp add: same_context_def wb_top_k_def slice_rows_def)

lemma physical_batch_assignments:
  "wb_assignments (physical_batch b a s d) =
     concat (map (\<lambda>(t, es, wr). row_assignments t es wr)
       (slice a s (zip (t_data (all_token_indices b)) (zip (t_data (wb_expert_ids b)) (t_data (wb_routing_weights b))))))"
  by (simp add: wb_assignments_def matrix_assignments_def all_token_indices_def [of "physical_batch b a s d"]
      slice_rows_def slice_vector_def slice_zip)

lemma concat_map_concat: "concat (map (\<lambda>a. concat (map f (g a))) as) = concat (map f (concat (map g as)))"
  by (induction as) auto

lemma split_batch_ok:
  assumes doc: "torch_int_doc T" and ok: "wb_values_ok b" and pos: "0 < wc_max_batch_tokens target"
    and small: "dim0 (wb_expert_ids b) * dim1 (wb_expert_ids b) < 2 ^ 32"
  shows "\<exists>plans. split_batch T target b = Inr plans \<and> split_of target b plans"
proof (cases "int (wb_token_count b) \<le> wc_max_batch_tokens target")
  case True
  then show ?thesis
    using ok by (simp add: split_batch_def split_of_def same_context_def)
next
  case False
  let ?c = "nat (wc_max_batch_tokens target)" and ?n = "wb_token_count b" and ?rows = "t_data (wb_expert_ids b)"
  let ?d = "\<lambda>a. experts_in (concat (slice a (min (a + ?c) ?n) ?rows))"
  let ?p = "\<lambda>a. \<lparr>pl_target = target, pl_batch = physical_batch b a (min (a + ?c) ?n) (?d a)\<rparr>"
  let ?starts = "chunk_starts ?n ?c"
  note sh = wb_values_ok_shapes [OF ok]
  have c: "0 < ?c" using pos by simp
  have start: "a < ?n" if "a \<in> set ?starts" for a
    using that ceil_div_bounds(2) [OF c] by (auto simp: chunk_starts_def)
  have "matrix_ok (wb_expert_ids b)" and dist: "wb_distinct_expert_ids b = experts_in (flatten (wb_expert_ids b))"
    using ok by (simp_all add: wb_values_ok_def)
  from distinct_experts_by_chunk_exact [OF doc this(1) c small]
  have dx: "distinct_experts_by_chunk T (wb_expert_ids b) ?c (wb_distinct_expert_ids b) = Inr (map ?d ?starts)"
    by (simp add: sh(1) dist)
  have good: "wb_values_ok (pl_batch (?p a))" if "a \<in> set ?starts" for a
    using physical_batch_ok [OF ok start [OF that] c] by simp
  have "split_batch T target b = rmap (\<lambda>(i, a).
      let physical = physical_batch b a (min (a + ?c) ?n) (map ?d ?starts ! i)
      in after (worker_batch_post_init physical) (Inr \<lparr>pl_target = target, pl_batch = physical\<rparr>)) (enumerate 0 ?starts)"
    using False by (simp add: split_batch_def dx Let_def)
  also have "\<dots> = Inr (map (\<lambda>(i, a). ?p a) (enumerate 0 ?starts))"
  proof (rule rmap_Inr)
    fix x assume "x \<in> set (enumerate 0 ?starts)"
    then obtain i where i: "i < length ?starts" "x = (i, ?starts ! i)"
      by (auto simp: in_set_enumerate_eq)
    then have "worker_batch_post_init (pl_batch (?p (?starts ! i))) = None"
      by (intro wb_values_ok_post_init good) simp
    with i show "(case x of (i, a) \<Rightarrow> let physical = physical_batch b a (min (a + ?c) ?n) (map ?d ?starts ! i)
      in after (worker_batch_post_init physical) (Inr \<lparr>pl_target = target, pl_batch = physical\<rparr>))
      = Inr (case x of (i, a) \<Rightarrow> ?p a)"
      by (simp add: Let_def)
  qed
  also have "map (\<lambda>(i, a). ?p a) (enumerate 0 ?starts) = map ?p ?starts"
    by (rule nth_equalityI) (simp_all add: nth_enumerate_eq)
  finally have run: "split_batch T target b = Inr (map ?p ?starts)" .
  let ?z = "zip (t_data (all_token_indices b)) (zip ?rows (t_data (wb_routing_weights b)))"
  have "concat (map (\<lambda>p. wb_assignments (pl_batch p)) (map ?p ?starts))
      = concat (map (\<lambda>(t, es, wr). row_assignments t es wr) (concat (map (\<lambda>a. slice a (min (a + ?c) ?n) ?z) ?starts)))"
    by (simp add: physical_batch_assignments concat_map_concat comp_def)
  also have "\<dots> = wb_assignments b"
    using sh by (simp add: concat_chunks [OF c] wb_assignments_def matrix_assignments_def)
  finally have "concat (map (\<lambda>p. wb_assignments (pl_batch p)) (map ?p ?starts)) = wb_assignments b" .
  moreover have "int (wb_token_count (pl_batch (?p a))) \<le> wc_max_batch_tokens target" for a
    using pos by (simp add: length_slice)
  ultimately show ?thesis
    using run good physical_batch_context by (auto simp: split_of_def)
qed

section \<open>Selection\<close>

text \<open>The dictionaries after the experts \<open>es\<close> got the targets \<open>s\<close>.\<close>

definition selection_of :: "(int \<Rightarrow> worker_connection) \<Rightarrow> int list \<Rightarrow> selection \<Rightarrow> bool" where
  "selection_of s es sel \<longleftrightarrow> (case sel of (selected, by_identity, experts) \<Rightarrow>
     selected = map (\<lambda>e. (e, s e)) es \<and> dict_ok by_identity \<and>
     (\<forall>w t. map_of by_identity w = Some t \<longrightarrow> wc_identity t = w \<and> t \<in> s ` set es) \<and>
     (\<forall>e\<in>set es. map_of by_identity (wc_identity (s e)) \<noteq> None) \<and>
     (\<forall>w. map_of experts w = (let xs = filter (\<lambda>e. wc_identity (s e) = w) es in if xs = [] then None else Some xs)))"

lemma selection_of_start: "selection_of s [] ([], [], [])"
  by (simp add: selection_of_def)

lemma AList_update_fresh: "k \<notin> fst ` set d \<Longrightarrow> AList.update k v d = d @ [(k, v)]"
  by (induction d) auto

lemma selection_of_cong: "(\<And>e. e \<in> set es \<Longrightarrow> s e = s' e) \<Longrightarrow> selection_of s es = selection_of s' es"
  by (intro ext) (simp add: selection_of_def cong: map_cong filter_cong image_cong split: prod.split)

lemma selection_of_record:
  assumes "selection_of s es sel" and "e \<notin> set es" and "s e = t"
  shows "selection_of s (es @ [e]) (record_selection e t sel)"
proof (cases sel)
  case (fields selected by_identity experts)
  note sel = assms(1) [unfolded selection_of_def fields prod.case]
  have "AList.update e t selected = map (\<lambda>e. (e, s e)) (es @ [e])"
    using sel assms(2,3) by (subst AList_update_fresh) auto
  moreover have "map_of (AList.update (wc_identity t)
      ((case map_of experts (wc_identity t) of None \<Rightarrow> [] | Some es \<Rightarrow> es) @ [e]) experts) w =
      (let xs = filter (\<lambda>e. wc_identity (s e) = w) (es @ [e]) in if xs = [] then None else Some xs)" for w
    using sel assms(3) by (auto simp: Let_def split: option.splits if_splits)
  moreover have "dict_ok by_identity" using sel by blast
  ultimately show ?thesis
    using sel assms(3) unfolding selection_of_def fields record_selection_def prod.case
    by (auto simp: image_iff split: if_splits)
qed

context replica_selector
begin

lemma select_targets_Inr:
  assumes "fst (select_targets select i l routes ex fb todo sel st) = Inr sel'"
    and "selection_of s es sel" and "distinct (es @ todo)"
  shows "\<exists>s'. selection_of s' (es @ todo) sel' \<and> (\<forall>e\<in>set es. s' e = s e) \<and>
     (\<forall>e\<in>set todo. \<exists>reps. map_of routes e = Some reps \<and> s' e \<in> set reps \<and>
        (wc_identity (s' e) \<notin> ex e \<or> fb \<and> wc_identity ` set reps \<subseteq> ex e))"
  using assms
proof (induction todo arbitrary: sel st es s)
  case Nil
  then show ?case by auto
next
  case (Cons e todo)
  from Cons.prems(1) obtain reps t st' where r: "map_of routes e = Some reps"
    and sel: "select st i l e reps (ex e) fb = (Inr t, st')"
    and rest: "fst (select_targets select i l routes ex fb todo (record_selection e t sel) st') = Inr sel'"
    by (auto split: option.splits prod.splits sum.splits)
  have new: "e \<notin> set es" using Cons.prems(3) by auto
  have "selection_of (s(e := t)) es sel"
    using Cons.prems(2) new by (subst selection_of_cong [of es _ s]) auto
  then have "selection_of (s(e := t)) (es @ [e]) (record_selection e t sel)"
    using new by (rule selection_of_record) simp
  from Cons.IH [OF rest this] Cons.prems(3) obtain s' where
    s': "selection_of s' (es @ e # todo) sel'" "\<forall>x\<in>set (es @ [e]). s' x = (s(e := t)) x"
      "\<forall>e\<in>set todo. \<exists>reps. map_of routes e = Some reps \<and> s' e \<in> set reps \<and>
        (wc_identity (s' e) \<notin> ex e \<or> fb \<and> wc_identity ` set reps \<subseteq> ex e)"
    by auto
  have "t \<in> set reps \<and> (wc_identity t \<notin> ex e \<or> fb \<and> wc_identity ` set reps \<subseteq> ex e)"
    using sel select_member select_preferred by (metis fst_conv)
  with s' new r show ?case
    by (intro exI [where x = s']) auto
qed

lemma select_targets_total:
  assumes "\<And>e. e \<in> set todo \<Longrightarrow> \<exists>reps. map_of routes e = Some reps \<and>
     (wc_identity ` set reps \<subseteq> ex e \<longrightarrow> fb \<and> reps \<noteq> [])"
  shows "\<exists>sel'. fst (select_targets select i l routes ex fb todo sel st) = Inr sel'"
  using assms
proof (induction todo arbitrary: sel st)
  case (Cons e todo)
  then obtain reps where r: "map_of routes e = Some reps" "wc_identity ` set reps \<subseteq> ex e \<longrightarrow> fb \<and> reps \<noteq> []"
    by (metis list.set_intros(1))
  then obtain t st' where "select st i l e reps (ex e) fb = (Inr t, st')"
    using select_total by (metis prod.collapse)
  with r Cons show ?case by simp
qed (metis select_targets.simps(1) fst_conv)

lemma select_targets_failure:
  assumes "fst (select_targets select i l routes ex fb todo sel st) = Inl err"
    and "\<forall>e\<in>set todo. map_of routes e \<noteq> None"
  shows "\<exists>e\<in>set todo. err = no_eligible_replica e \<and>
     (\<exists>reps. map_of routes e = Some reps \<and> wc_identity ` set reps \<subseteq> ex e)"
  using assms
proof (induction todo arbitrary: sel st)
  case (Cons e todo)
  then obtain reps where r: "map_of routes e = Some reps" by auto
  show ?case
  proof (cases "select st i l e reps (ex e) fb")
    case (Pair res st')
    show ?thesis
    proof (cases res)
      case (Inl x)
      with Cons.prems(1) r Pair have "x = err" by simp
      moreover have "x = no_eligible_replica e"
        using select_failure [of st i l e reps "ex e" fb x] Pair Inl by simp
      moreover have "wc_identity ` set reps \<subseteq> ex e"
        using select_total [of reps "ex e" fb st i l e] Pair Inl by auto
      ultimately show ?thesis using r by auto
    next
      case (Inr t)
      with Cons r Pair show ?thesis by (auto split: sum.splits)
    qed
  qed
qed simp

end

section \<open>Grouping by target\<close>

definition rb_values_ok :: "'f routed_layer_batch \<Rightarrow> bool" where
  "rb_values_ok b \<longleftrightarrow> routed_layer_batch_post_init b = None \<and>
     matrix_ok (rb_expert_ids b) \<and> matrix_ok (rb_routing_weights b) \<and>
     rb_distinct_expert_ids b = experts_in (flatten (rb_expert_ids b))"

lemma rb_values_ok_shapes:
  assumes "rb_values_ok b"
  shows "length (t_data (rb_expert_ids b)) = rb_token_count b" "length (t_data (rb_routing_weights b)) = rb_token_count b"
    "dim0 (rb_expert_ids b) = rb_token_count b" "rb_token_count b = dim0 (rb_hidden_states b)"
    "dim1 (rb_routing_weights b) = dim1 (rb_expert_ids b)"
    "t < rb_token_count b \<Longrightarrow> length (t_data (rb_expert_ids b) ! t) = dim1 (rb_expert_ids b)"
    "t < rb_token_count b \<Longrightarrow> length (t_data (rb_routing_weights b) ! t) = dim1 (rb_expert_ids b)"
  using assms
  by (auto simp: rb_values_ok_def routed_layer_batch_post_init_iff routing_meta_ok_def matrix_ok_def rb_token_count_def)

lemma masked_columns:
  fixes es :: "int list"
  assumes "length ws = length es"
  shows "filter (\<lambda>(k, e, w). 0 \<le> e)
      (zip [a ..< a + length es] (zip (masked (map g es) es (- 1)) (masked (map g es) ws z)))
    = filter (\<lambda>(k, e, w). g e) (filter (\<lambda>(k, e, w). 0 \<le> e) (zip [a ..< a + length es] (zip es ws)))"
  using assms
proof (induction es arbitrary: a ws)
  case (Cons e es)
  then obtain v vs where "ws = v # vs" "length vs = length es" by (cases ws) auto
  with Cons.IH [of vs "Suc a"] show ?case
    by (simp add: masked_def upt_conv_Cons del: upt_Suc)
qed simp

lemma length_masked [simp]: "length (masked m xs d) = min (length m) (length xs)"
  by (simp add: masked_def)

lemma row_assignments_masked:
  assumes "length ws = length es"
  shows "row_assignments t (masked (map g es) es (- 1)) (masked (map g es) ws z)
       = filter (\<lambda>(t, k, e, w). g e) (row_assignments t es ws)"
  using masked_columns [OF assms, of 0 g z] assms
  by (simp add: row_assignments_def filter_map comp_def case_prod_unfold)

lemma row_assignments_set:
  "(t', k, e, w) \<in> set (row_assignments t es ws) \<Longrightarrow> t' = t \<and> e \<in> set es \<and> 0 \<le> e"
  by (auto simp: row_assignments_def dest!: set_zip_rightD [of _ _ "[0 ..< length es]"] dest: set_zip_leftD)

lemma matrix_assignments_rows:
  "matrix_assignments ts (map f ts) (map h ts) = concat (map (\<lambda>t. row_assignments t (f t) (h t)) ts)"
  unfolding matrix_assignments_def
  by (intro arg_cong [where f = concat] nth_equalityI) simp_all

lemma rb_assignments_rows:
  assumes "rb_values_ok b"
  shows "rb_assignments b =
     concat (map (\<lambda>t. row_assignments t (t_data (rb_expert_ids b) ! t) (t_data (rb_routing_weights b) ! t)) [0 ..< rb_token_count b])"
proof -
  have "t_data (rb_expert_ids b) = map ((!) (t_data (rb_expert_ids b))) [0 ..< rb_token_count b]"
    and "t_data (rb_routing_weights b) = map ((!) (t_data (rb_routing_weights b))) [0 ..< rb_token_count b]"
    using rb_values_ok_shapes(1,2) [OF assms] by (metis map_nth)+
  then show ?thesis
    unfolding rb_assignments_def by (metis matrix_assignments_rows)
qed

lemma concat_map_filter_empty:
  "(\<And>x. x \<in> set xs \<Longrightarrow> \<not> Q x \<Longrightarrow> f x = []) \<Longrightarrow> concat (map f (filter Q xs)) = concat (map f xs)"
  by (induction xs) auto

text \<open>The rows one target gets: its tokens and its masked identifiers and weights.\<close>

lemma masked_matrix_assignments:
  assumes "rb_values_ok b" and "\<And>e. e < 0 \<Longrightarrow> \<not> g e"
  defines "rows \<equiv> t_data (rb_expert_ids b)" and "wts \<equiv> t_data (rb_routing_weights b)"
  defines "toks \<equiv> filter (\<lambda>t. \<exists>e\<in>set (rows ! t). g e) [0 ..< rb_token_count b]"
  shows "matrix_assignments toks (map (\<lambda>t. masked (map g (rows ! t)) (rows ! t) (- 1)) toks)
       (map (\<lambda>t. masked (map g (rows ! t)) (wts ! t) z) toks) = filter (\<lambda>(t, k, e, w). g e) (rb_assignments b)"
proof -
  note sh = rb_values_ok_shapes [OF assms(1)]
  have "matrix_assignments toks (map (\<lambda>t. masked (map g (rows ! t)) (rows ! t) (- 1)) toks)
       (map (\<lambda>t. masked (map g (rows ! t)) (wts ! t) z) toks)
     = concat (map (\<lambda>t. filter (\<lambda>(t, k, e, w). g e) (row_assignments t (rows ! t) (wts ! t))) toks)"
    unfolding matrix_assignments_rows
    by (intro arg_cong [where f = concat] map_cong refl row_assignments_masked) (simp add: toks_def rows_def wts_def sh)
  also have "\<dots> = concat (map (\<lambda>t. filter (\<lambda>(t, k, e, w). g e) (row_assignments t (rows ! t) (wts ! t))) [0 ..< rb_token_count b])"
    unfolding toks_def
    by (rule concat_map_filter_empty) (auto simp: filter_empty_conv dest: row_assignments_set)
  also have "\<dots> = filter (\<lambda>(t, k, e, w). g e) (rb_assignments b)"
    by (simp add: rb_assignments_rows [OF assms(1)] filter_concat rows_def wts_def comp_def)
  finally show ?thesis .
qed

text \<open>The table of target indices per expert number.\<close>

lemma fold_update_other:
  "\<forall>p\<in>set kvs. nat (fst p) \<noteq> j \<Longrightarrow> fold (\<lambda>(e, t) v. v[nat e := f t]) kvs v ! j = v ! j"
  by (induction kvs arbitrary: v) (auto simp: nth_list_update_neq)

lemma fold_update_length: "length (fold (\<lambda>(e, t) v. v[nat e := f t]) kvs v) = length v"
  by (induction kvs arbitrary: v) auto

lemma fold_update_nth:
  assumes "distinct (map fst kvs)" and "\<forall>p\<in>set kvs. 0 \<le> fst p \<and> nat (fst p) < length v" and "(e, t) \<in> set kvs"
  shows "fold (\<lambda>(e, t) v. v[nat e := f t]) kvs v ! nat e = f t"
  using assms
proof (induction kvs arbitrary: v)
  case (Cons p kvs)
  obtain e' t' where p: "p = (e', t')" by force
  show ?case
  proof (cases "(e, t) \<in> set kvs")
    case True
    with Cons p show ?thesis by simp
  next
    case False
    with Cons.prems p have [simp]: "e' = e" "t' = t" by auto
    have "nat (fst q) \<noteq> nat e" if "q \<in> set kvs" for q
      using Cons.prems(1,2) that p by (force simp: eq_nat_nat_iff)
    then show ?thesis
      using Cons.prems(2) p by (simp add: fold_update_other)
  qed
qed simp

lemma expert_target_values_nth:
  assumes "distinct es" and "\<forall>e\<in>set es. 0 \<le> e" and "e \<in> set es"
  shows "nat e < length (expert_target_values (map (\<lambda>e. (e, s e)) es) order)"
    and "expert_target_values (map (\<lambda>e. (e, s e)) es) order ! nat e = target_index order (wc_identity (s e))"
proof -
  let ?m = "Max (set (map fst (map (\<lambda>e. (e, s e)) es)))"
  have bound: "x \<le> ?m" if "x \<in> set es" for x
    using that by (intro Max_ge) (auto simp: image_iff)
  have "0 \<le> e" "e \<le> ?m"
    using assms(2,3) bound by blast+
  then show "nat e < length (expert_target_values (map (\<lambda>e. (e, s e)) es) order)"
    unfolding expert_target_values_def fold_update_length length_replicate by linarith
  have "\<forall>p\<in>set (map (\<lambda>e. (e, s e)) es). 0 \<le> fst p \<and> nat (fst p) < length (replicate (nat (?m + 1)) (- 1 :: int))"
  proof
    fix p assume "p \<in> set (map (\<lambda>e. (e, s e)) es)"
    then have "0 \<le> fst p" "fst p \<le> ?m" using assms(2) bound by auto
    then show "0 \<le> fst p \<and> nat (fst p) < length (replicate (nat (?m + 1)) (- 1 :: int))"
      unfolding length_replicate by linarith
  qed
  then show "expert_target_values (map (\<lambda>e. (e, s e)) es) order ! nat e = target_index order (wc_identity (s e))"
    unfolding expert_target_values_def
    using assms(1,3) by (intro fold_update_nth) (auto simp: comp_def)
qed

lemma target_index_nth:
  assumes "distinct order" and "i < length order"
  shows "target_index order w = int i \<longleftrightarrow> w = order ! i"
proof
  assume "w = order ! i"
  then show "target_index order w = int i"
    using assms by (simp add: target_index_def map_of_zip_nth)
next
  assume "target_index order w = int i"
  then have "map_of (zip order [0 ..< length order]) w = Some i"
    by (auto simp: target_index_def split: option.splits)
  then have "(w, i) \<in> set (zip order [0 ..< length order])" by (rule map_of_SomeD)
  then show "w = order ! i" by (auto simp: set_zip)
qed

lemma target_index_range:
  "w \<in> set order \<Longrightarrow> distinct order \<Longrightarrow> \<exists>i<length order. target_index order w = int i"
  by (metis in_set_conv_nth target_index_nth)

definition expert_target :: "(int \<Rightarrow> worker_connection) \<Rightarrow> worker_identity list \<Rightarrow> int \<Rightarrow> int" where
  "expert_target s order e = (if 0 \<le> e then target_index order (wc_identity (s e)) else - 1)"

lemma expert_target_neg: "e < 0 \<Longrightarrow> expert_target s order e = - 1"
  by (simp add: expert_target_def)

lemma assignment_targets_table:
  fixes s :: "int \<Rightarrow> worker_connection" and order :: "worker_identity list"
  assumes ok: "rb_values_ok b" and ne: "rb_distinct_expert_ids b \<noteq> []"
  defines "values \<equiv> expert_target_values (map (\<lambda>e. (e, s e)) (rb_distinct_expert_ids b)) order"
  shows "rmap (rmap (assignment_target values)) (t_data (rb_expert_ids b))
       = Inr (map (map (expert_target s order)) (t_data (rb_expert_ids b)))"
proof (intro rmap_Inr)
  fix row e assume row: "row \<in> set (t_data (rb_expert_ids b))" and e: "e \<in> set row"
  have ds: "rb_distinct_expert_ids b = experts_in (flatten (rb_expert_ids b))"
    using ok by (simp add: rb_values_ok_def)
  then have nonneg: "\<forall>e\<in>set (rb_distinct_expert_ids b). 0 \<le> e" and dist: "distinct (rb_distinct_expert_ids b)"
    by (simp_all add: experts_in_def)
  note nth = expert_target_values_nth [OF dist nonneg, where s = s and order = order, folded values_def]
  obtain d where "d \<in> set (rb_distinct_expert_ids b)" using ne by (metis last_in_set)
  then have len: "values \<noteq> []" using nth(1) by force
  show "assignment_target values e = Inr (expert_target s order e)"
  proof (cases "0 \<le> e")
    case True
    then have "e \<in> set (rb_distinct_expert_ids b)"
      using row e by (auto simp: ds experts_in_props flatten_def)
    with nth True show ?thesis by (simp add: assignment_target_def expert_target_def)
  qed (simp add: assignment_target_def expert_target_def len)
qed

lemma masked_set:
  "{x \<in> set (masked (map g es) es (- 1 :: int)). 0 \<le> x} = {e \<in> set es. g e \<and> 0 \<le> e}"
  by (induction es) (auto simp: masked_def)

text \<open>The logical batch of one target.\<close>

definition logical_batch ::
  "('f, 'z) torch_ops_scheme \<Rightarrow> 'f routed_layer_batch \<Rightarrow> int \<Rightarrow> (int \<Rightarrow> bool) \<Rightarrow> nat list \<Rightarrow> int list \<Rightarrow> 'f worker_batch" where
  "logical_batch T b version g toks es = worker_batch_of b version
     (Some (mk_vector Int64 (t_device (rb_expert_ids b)) toks))
     (mk_matrix Int32 (t_device (rb_expert_ids b)) (dim1 (rb_expert_ids b))
        (map (\<lambda>t. masked (map g (t_data (rb_expert_ids b) ! t)) (t_data (rb_expert_ids b) ! t) (- 1)) toks))
     (mk_matrix Float32 (t_device (rb_routing_weights b)) (dim1 (rb_routing_weights b))
        (map (\<lambda>t. masked (map g (t_data (rb_expert_ids b) ! t)) (t_data (rb_routing_weights b) ! t) (f_zero T)) toks)) es"

definition tokens_of :: "'f routed_layer_batch \<Rightarrow> (int \<Rightarrow> bool) \<Rightarrow> nat list" where
  "tokens_of b g = filter (\<lambda>t. \<exists>e\<in>set (t_data (rb_expert_ids b) ! t). g e) [0 ..< rb_token_count b]"

lemma masked_tokens_nth:
  assumes "rb_values_ok b"
  shows "map (\<lambda>t. masked (map (map g) (t_data (rb_expert_ids b)) ! t) (xs ! t) d) (tokens_of b g)
       = map (\<lambda>t. masked (map g (t_data (rb_expert_ids b) ! t)) (xs ! t) d) (tokens_of b g)"
  using rb_values_ok_shapes(1) [OF assms] by (intro map_cong refl) (simp add: tokens_of_def)

lemma set_flatten_ids:
  assumes "rb_values_ok b"
  shows "set (flatten (rb_expert_ids b)) = (\<Union>t\<in>{0 ..< rb_token_count b}. set (t_data (rb_expert_ids b) ! t))"
proof -
  have "set (t_data (rb_expert_ids b)) = (\<lambda>t. t_data (rb_expert_ids b) ! t) ` {0 ..< rb_token_count b}"
    using rb_values_ok_shapes(1) [OF assms] by (metis map_nth set_map set_upt)
  then show ?thesis by (simp add: flatten_def)
qed

lemma target_plans_logical:
  assumes "rb_values_ok b" and "map_of experts (wc_identity target) = Some es"
    and "\<And>e. g e \<longleftrightarrow> tg e = int i"
  shows "target_plans T b version (map (map tg) (t_data (rb_expert_ids b))) experts (i, target) =
     (if tokens_of b g = [] then Inr []
      else let logical = logical_batch T b version g (tokens_of b g) es
           in after (worker_batch_post_init logical) (split_batch T target logical))"
proof -
  let ?rows = "t_data (rb_expert_ids b)"
  have g: "(\<lambda>a. a = int i) \<circ> tg = g" using assms(3) by auto
  have len: "length ?rows = rb_token_count b" using rb_values_ok_shapes(1) [OF assms(1)] .
  have ta: "map (map (\<lambda>a. a = int i)) (map (map tg) ?rows) = map (map g) ?rows"
    by (simp add: comp_def g [unfolded comp_def])
  have toks: "filter (\<lambda>t. list_ex (\<lambda>b. b) (map (map g) ?rows ! t)) [0 ..< length (map (map g) ?rows)] = tokens_of b g"
    unfolding tokens_of_def by (rule filter_cong) (auto simp: len list_ex_iff)
  show ?thesis
    unfolding target_plans_def prod.case ta Let_def toks
    by (simp add: assms(2) masked_tokens_nth [OF assms(1)] logical_batch_def)
qed

lemma logical_batch_sel [simp]:
  "wb_instance_id (logical_batch T b v g ts es) = rb_instance_id b"
  "wb_layer_id (logical_batch T b v g ts es) = rb_layer_id b"
  "wb_topology_version (logical_batch T b v g ts es) = v"
  "wb_hidden_states (logical_batch T b v g ts es) = rb_hidden_states b"
  "wb_distinct_expert_ids (logical_batch T b v g ts es) = es"
  "wb_token_count (logical_batch T b v g ts es) = length ts"
  "t_shape (wb_expert_ids (logical_batch T b v g ts es)) = [length ts, dim1 (rb_expert_ids b)]"
  "wb_top_k (logical_batch T b v g ts es) = rb_top_k b"
  by (simp_all add: wb_top_k_def rb_top_k_def logical_batch_def worker_batch_of_def wb_token_count_def)

lemma logical_batch_assignments:
  assumes "rb_values_ok b" and "\<And>e. e < 0 \<Longrightarrow> \<not> g e"
  shows "wb_assignments (logical_batch T b v g (tokens_of b g) es) = filter (\<lambda>(t, k, e, w). g e) (rb_assignments b)"
  using masked_matrix_assignments [OF assms]
  by (simp add: logical_batch_def worker_batch_of_def wb_assignments_def all_token_indices_def tokens_of_def)

lemma logical_batch_ok:
  assumes ok: "rb_values_ok b" and neg: "\<And>e. e < 0 \<Longrightarrow> \<not> g e" and ne: "tokens_of b g \<noteq> []"
    and v: "0 \<le> v" "v \<le> uint64_max"
  shows "wb_values_ok (logical_batch T b v g (tokens_of b g) (filter g (rb_distinct_expert_ids b)))"
proof -
  let ?b = "logical_batch T b v g (tokens_of b g) (filter g (rb_distinct_expert_ids b))"
  let ?rows = "t_data (rb_expert_ids b)"
  note sh = rb_values_ok_shapes [OF ok]
  have pre: "routed_layer_batch_post_init b = None"
    and ds: "rb_distinct_expert_ids b = experts_in (flatten (rb_expert_ids b))"
    using ok by (simp_all add: rb_values_ok_def)
  have tok: "t < rb_token_count b" if "t \<in> set (tokens_of b g)" for t
    using that by (simp add: tokens_of_def)
  have "{e \<in> set (flatten (wb_expert_ids ?b)). 0 \<le> e}
      = (\<Union>t\<in>set (tokens_of b g). {x \<in> set (masked (map g (?rows ! t)) (?rows ! t) (- 1)). 0 \<le> x})"
    by (auto simp: logical_batch_def worker_batch_of_def flatten_def)
  also have "\<dots> = {e \<in> set (flatten (rb_expert_ids b)). g e \<and> 0 \<le> e}"
    unfolding masked_set set_flatten_ids [OF ok] by (auto simp: tokens_of_def)
  finally have "filter g (rb_distinct_expert_ids b) = experts_in (flatten (wb_expert_ids ?b))"
    by (intro experts_in_unique) (auto simp: ds experts_in_props intro: sorted_wrt_filter)
  moreover have "worker_batch_post_init ?b = None"
    using pre v ne sh(4,5) distinct_ids_ok_filter [of "rb_distinct_expert_ids b" g]
    unfolding worker_batch_post_init_iff routed_layer_batch_post_init_iff routing_meta_ok_def
    by (simp add: logical_batch_def worker_batch_of_def wb_token_count_def)
  moreover have "distinct (tokens_of b g)" by (simp add: tokens_of_def)
  ultimately show ?thesis
    using tok sh(4,5,6,7) unfolding wb_values_ok_def
    by (auto simp: logical_batch_def worker_batch_of_def)
qed

text \<open>What a grouping promises: every assignment once, at its selected target, within the published limit.\<close>

definition grouped :: "'f routed_layer_batch \<Rightarrow> int \<Rightarrow> (int \<Rightarrow> worker_connection) \<Rightarrow> 'f worker_batch_plan list \<Rightarrow> bool" where
  "grouped b v s plans \<longleftrightarrow>
     mset (concat (map (\<lambda>p. wb_assignments (pl_batch p)) plans)) = mset (rb_assignments b) \<and>
     (\<forall>p\<in>set plans. int (wb_token_count (pl_batch p)) \<le> wc_max_batch_tokens (pl_target p) \<and>
        wb_values_ok (pl_batch p) \<and> wb_instance_id (pl_batch p) = rb_instance_id b \<and>
        wb_layer_id (pl_batch p) = rb_layer_id b \<and> wb_topology_version (pl_batch p) = v \<and>
        wb_hidden_states (pl_batch p) = rb_hidden_states b \<and> wb_top_k (pl_batch p) = rb_top_k b \<and>
        pl_target p \<in> s ` set (rb_distinct_expert_ids b) \<and>
        (\<forall>a\<in>set (wb_assignments (pl_batch p)). pl_target p = s (fst (snd (snd a)))))"

lemma mset_partition_by_index:
  "mset (concat (map (\<lambda>i. filter (\<lambda>x. h x = int i) xs) [0 ..< n])) = mset (filter (\<lambda>x. 0 \<le> h x \<and> h x < int n) xs)"
proof (induction n)
  case (Suc n)
  have "{#x \<in># M. 0 \<le> h x \<and> h x < int n#} + {#x \<in># M. h x = int n#} = {#x \<in># M. 0 \<le> h x \<and> h x < int (Suc n)#}" for M
    by (induction M) auto
  with Suc show ?case by simp
qed simp

lemma expert_of_assignment:
  assumes "rb_values_ok b" and "a \<in> set (rb_assignments b)"
  shows "fst (snd (snd a)) \<in> set (rb_distinct_expert_ids b)"
proof -
  let ?row = "\<lambda>t. row_assignments t (t_data (rb_expert_ids b) ! t) (t_data (rb_routing_weights b) ! t)"
  obtain t k e w where a: "a = (t, k, e, w)" by (metis prod_cases4)
  obtain t' where t': "t' \<in> {0 ..< rb_token_count b}" "(t, k, e, w) \<in> set (?row t')"
    using assms unfolding a rb_assignments_rows [OF assms(1)] set_concat set_map set_upt by blast
  then have "e \<in> set (t_data (rb_expert_ids b) ! t')" "0 \<le> e"
    using row_assignments_set [OF t'(2)] by simp_all
  with t'(1) have "e \<in> set (flatten (rb_expert_ids b))"
    unfolding set_flatten_ids [OF assms(1)] by blast
  with \<open>0 \<le> e\<close> assms(1) a show ?thesis by (simp add: rb_values_ok_def experts_in_props)
qed

definition targets_ok :: "(int \<Rightarrow> worker_connection) \<Rightarrow> int list \<Rightarrow> bool" where
  "targets_ok s es \<longleftrightarrow> (\<forall>e\<in>set es. 0 < wc_max_batch_tokens (s e) \<and>
     (\<forall>e'\<in>set es. wc_identity (s e) = wc_identity (s e') \<longrightarrow> s e = s e'))"

lemma selection_of_lookup:
  assumes "selection_of s es (selected, by_identity, experts)" and "targets_ok s es"
  shows "set (map fst by_identity) = (\<lambda>e. wc_identity (s e)) ` set es"
    and "e \<in> set es \<Longrightarrow> map_of by_identity (wc_identity (s e)) = Some (s e)"
proof -
  have known: "\<forall>w t. map_of by_identity w = Some t \<longrightarrow> wc_identity t = w \<and> t \<in> s ` set es"
    and forth: "\<forall>e\<in>set es. map_of by_identity (wc_identity (s e)) \<noteq> None"
    using assms(1) unfolding selection_of_def prod.case by - (elim conjE, assumption)+
  show look: "map_of by_identity (wc_identity (s e)) = Some (s e)" if mem: "e \<in> set es" for e
  proof -
    obtain t where t: "map_of by_identity (wc_identity (s e)) = Some t" using forth mem by auto
    with known obtain e' where "e' \<in> set es" "t = s e'" "wc_identity t = wc_identity (s e)" by (metis imageE)
    with assms(2) mem t show ?thesis unfolding targets_ok_def by metis
  qed
  show "set (map fst by_identity) = (\<lambda>e. wc_identity (s e)) ` set es"
  proof (intro set_eqI iffI)
    fix w assume "w \<in> set (map fst by_identity)"
    then obtain t where "map_of by_identity w = Some t" by (metis domD dom_map_of_conv_image_fst set_map)
    then show "w \<in> (\<lambda>e. wc_identity (s e)) ` set es" using known by blast
  next
    fix w assume "w \<in> (\<lambda>e. wc_identity (s e)) ` set es"
    then show "w \<in> set (map fst by_identity)"
      using look by (metis (no_types, lifting) domI dom_map_of_conv_image_fst imageE set_map)
  qed
qed

text \<open>The plans of one target: exactly the assignments with a selected expert.\<close>

definition target_share ::
  "'f routed_layer_batch \<Rightarrow> int \<Rightarrow> (int \<Rightarrow> bool) \<Rightarrow> worker_connection \<Rightarrow> 'f worker_batch_plan list \<Rightarrow> bool" where
  "target_share b v g t ps \<longleftrightarrow>
     concat (map (\<lambda>p. wb_assignments (pl_batch p)) ps) = filter (\<lambda>a. g (fst (snd (snd a)))) (rb_assignments b) \<and>
     (\<forall>p\<in>set ps. pl_target p = t \<and> int (wb_token_count (pl_batch p)) \<le> wc_max_batch_tokens t \<and>
        wb_values_ok (pl_batch p) \<and> wb_instance_id (pl_batch p) = rb_instance_id b \<and>
        wb_layer_id (pl_batch p) = rb_layer_id b \<and> wb_topology_version (pl_batch p) = v \<and>
        wb_hidden_states (pl_batch p) = rb_hidden_states b \<and> wb_top_k (pl_batch p) = rb_top_k b)"

lemma target_share_assignment:
  assumes "target_share b v g t ps" and "p \<in> set ps" and "a \<in> set (wb_assignments (pl_batch p))"
  shows "a \<in> set (rb_assignments b) \<and> g (fst (snd (snd a)))"
proof -
  have "a \<in> set (concat (map (\<lambda>p. wb_assignments (pl_batch p)) ps))" using assms(2,3) by auto
  also have "concat (map (\<lambda>p. wb_assignments (pl_batch p)) ps) = filter (\<lambda>a. g (fst (snd (snd a)))) (rb_assignments b)"
    using assms(1) by (simp add: target_share_def)
  finally show ?thesis by simp
qed

lemma target_plans_ok:
  assumes doc: "torch_int_doc T" and ok: "rb_values_ok b" and v: "0 \<le> v" "v \<le> uint64_max"
    and small: "rb_token_count b * rb_top_k b < 2 ^ 32"
    and ex: "map_of experts (wc_identity t) = Some (filter (\<lambda>e. wc_identity (s e) = wc_identity t) (rb_distinct_expert_ids b))"
    and tg: "\<forall>e\<in>set (rb_distinct_expert_ids b). tg e = int i \<longleftrightarrow> wc_identity (s e) = wc_identity t"
    and neg: "\<And>e. e < 0 \<Longrightarrow> tg e = - 1" and pos: "0 < wc_max_batch_tokens t"
  shows "\<exists>ps. target_plans T b v (map (map tg) (t_data (rb_expert_ids b))) experts (i, t) = Inr ps \<and>
     target_share b v (\<lambda>e. tg e = int i) t ps"
proof -
  let ?g = "\<lambda>e. tg e = int i"
  have neg': "\<not> ?g e" if "e < 0" for e using neg [OF that] by simp
  let ?es = "filter ?g (rb_distinct_expert_ids b)"
  let ?l = "logical_batch T b v ?g (tokens_of b ?g) ?es"
  have "map_of experts (wc_identity t) = Some ?es"
    unfolding ex using tg by (auto intro: filter_cong)
  note run = target_plans_logical [OF ok this, of ?g tg i T v, OF refl]
  have asg: "wb_assignments ?l = filter (\<lambda>a. ?g (fst (snd (snd a)))) (rb_assignments b)"
    using logical_batch_assignments [OF ok neg'] by (simp add: case_prod_unfold)
  show ?thesis
  proof (cases "tokens_of b ?g = []")
    case True
    then have "wb_assignments ?l = []"
      by (simp add: wb_assignments_def all_token_indices_def logical_batch_def worker_batch_of_def matrix_assignments_def)
    with True run asg show ?thesis by (simp add: target_share_def)
  next
    case False
    have l: "wb_values_ok ?l" using ok neg' False v by (rule logical_batch_ok)
    have "length (tokens_of b ?g) \<le> rb_token_count b"
      unfolding tokens_of_def by (rule order_trans [OF length_filter_le]) simp
    then have "dim0 (wb_expert_ids ?l) * dim1 (wb_expert_ids ?l) \<le> rb_token_count b * rb_top_k b"
      by (simp add: rb_top_k_def)
    then have "dim0 (wb_expert_ids ?l) * dim1 (wb_expert_ids ?l) < 2 ^ 32"
      using small by (rule le_less_trans)
    from split_batch_ok [OF doc l pos this] obtain ps
      where "split_batch T t ?l = Inr ps" "split_of t ?l ps" by blast
    with run False wb_values_ok_post_init [OF l] asg show ?thesis
      by (simp add: split_of_def same_context_def target_share_def)
  qed
qed

lemma enumerate_map_upt: "enumerate 0 (map f xs) = map (\<lambda>i. (i, f (xs ! i))) [0 ..< length xs]"
  by (rule nth_equalityI) (simp_all add: nth_enumerate_eq)

lemma group_by_target_plan:
  assumes sel: "selection_of s (rb_distinct_expert_ids b) (selected, by_identity, experts)"
    and ok: "rb_values_ok b" and t: "targets_ok s (rb_distinct_expert_ids b)" and i: "i < length by_identity"
  defines "order \<equiv> sort (map fst by_identity)"
  shows "\<exists>e\<in>set (rb_distinct_expert_ids b). the (map_of by_identity (order ! i)) = s e \<and> order ! i = wc_identity (s e)"
    and "map_of experts (order ! i) = Some (filter (\<lambda>e. wc_identity (s e) = order ! i) (rb_distinct_expert_ids b))"
    and "\<forall>e\<in>set (rb_distinct_expert_ids b). expert_target s order e = int i \<longleftrightarrow> wc_identity (s e) = order ! i"
proof -
  have "distinct (map fst by_identity)"
    using sel by (simp add: selection_of_def dict_ok_def)
  then have d: "distinct order" by (simp add: order_def)
  have ex: "\<forall>w. map_of experts w = (let xs = filter (\<lambda>e. wc_identity (s e) = w) (rb_distinct_expert_ids b)
      in if xs = [] then None else Some xs)"
    using sel unfolding selection_of_def prod.case by (elim conjE)
  have i': "i < length order" using i by (simp add: order_def)
  then have "order ! i \<in> set (map fst by_identity)" by (metis nth_mem order_def set_sort)
  then obtain e where e: "e \<in> set (rb_distinct_expert_ids b)" "order ! i = wc_identity (s e)"
    unfolding selection_of_lookup(1) [OF sel t] by blast
  with selection_of_lookup(2) [OF sel t e(1)]
  show "\<exists>e\<in>set (rb_distinct_expert_ids b). the (map_of by_identity (order ! i)) = s e \<and> order ! i = wc_identity (s e)"
    by (intro bexI [where x = e]) simp_all
  have "filter (\<lambda>e. wc_identity (s e) = order ! i) (rb_distinct_expert_ids b) \<noteq> []"
    using e by (auto simp: filter_empty_conv)
  with ex show "map_of experts (order ! i) = Some (filter (\<lambda>e. wc_identity (s e) = order ! i) (rb_distinct_expert_ids b))"
    by (simp add: Let_def)
  have "0 \<le> e" if "e \<in> set (rb_distinct_expert_ids b)" for e
    using that ok by (simp add: rb_values_ok_def experts_in_props)
  then show "\<forall>e\<in>set (rb_distinct_expert_ids b). expert_target s order e = int i \<longleftrightarrow> wc_identity (s e) = order ! i"
    using target_index_nth [OF d i'] by (simp add: expert_target_def)
qed

lemma expert_target_range:
  assumes sel: "selection_of s (rb_distinct_expert_ids b) (selected, by_identity, experts)"
    and ok: "rb_values_ok b" and t: "targets_ok s (rb_distinct_expert_ids b)" and e: "e \<in> set (rb_distinct_expert_ids b)"
  shows "0 \<le> expert_target s (sort (map fst by_identity)) e"
    and "expert_target s (sort (map fst by_identity)) e < int (length by_identity)"
proof -
  have "distinct (map fst by_identity)"
    using sel by (simp add: selection_of_def dict_ok_def)
  then have d: "distinct (sort (map fst by_identity))" by simp
  have "wc_identity (s e) \<in> set (sort (map fst by_identity))"
    unfolding set_sort selection_of_lookup(1) [OF sel t] using e by blast
  from target_index_range [OF this d] obtain i where
    "i < length by_identity" "target_index (sort (map fst by_identity)) (wc_identity (s e)) = int i" by auto
  moreover have "0 \<le> e" using e ok by (simp add: rb_values_ok_def experts_in_props)
  ultimately show "0 \<le> expert_target s (sort (map fst by_identity)) e"
    and "expert_target s (sort (map fst by_identity)) e < int (length by_identity)"
    by (simp_all add: expert_target_def)
qed

lemma group_by_target_ok:
  assumes doc: "torch_int_doc T" and ok: "rb_values_ok b" and v: "0 \<le> v" "v \<le> uint64_max"
    and small: "rb_token_count b * rb_top_k b < 2 ^ 32" and ne: "rb_distinct_expert_ids b \<noteq> []"
    and sel: "selection_of s (rb_distinct_expert_ids b) (selected, by_identity, experts)"
    and t: "targets_ok s (rb_distinct_expert_ids b)"
  shows "\<exists>plans. group_by_target T b v (selected, by_identity, experts) = Inr plans \<and> grouped b v s plans"
proof -
  let ?order = "sort (map fst by_identity)" and ?n = "length by_identity"
  let ?tg = "expert_target s ?order" and ?rows = "t_data (rb_expert_ids b)"
  let ?target = "\<lambda>i. the (map_of by_identity (?order ! i))"
  let ?Q = "\<lambda>i ps. target_plans T b v (map (map ?tg) ?rows) experts (i, ?target i) = Inr ps \<and>
     target_share b v (\<lambda>e. ?tg e = int i) (?target i) ps"
  have "\<exists>ps. ?Q i ps" if i: "i < ?n" for i
  proof -
    from group_by_target_plan(1) [OF sel ok t i] obtain e where e: "e \<in> set (rb_distinct_expert_ids b)"
      "?target i = s e" "?order ! i = wc_identity (s e)" by blast
    have pos: "0 < wc_max_batch_tokens (?target i)" using t e unfolding targets_ok_def by metis
    have eq: "wc_identity (?target i) = ?order ! i" using e by simp
    show ?thesis
      using group_by_target_plan(2,3) [OF sel ok t i]
      by (intro target_plans_ok [OF doc ok v small _ _ _ pos, where s = s]) (simp_all add: eq expert_target_neg)
  qed
  then obtain P where P: "\<And>i. i < ?n \<Longrightarrow> ?Q i (P i)" by metis
  have "rmap (target_plans T b v (map (map ?tg) ?rows) experts) (enumerate 0 (map (\<lambda>w. the (map_of by_identity w)) ?order))
      = Inr (map (\<lambda>x. P (fst x)) (enumerate 0 (map (\<lambda>w. the (map_of by_identity w)) ?order)))"
    using P by (intro rmap_Inr) (auto simp: enumerate_map_upt)
  moreover have "selected = map (\<lambda>e. (e, s e)) (rb_distinct_expert_ids b)"
    using sel by (simp add: selection_of_def)
  ultimately have run: "group_by_target T b v (selected, by_identity, experts) = Inr (concat (map P [0 ..< ?n]))"
    unfolding group_by_target_def prod.case Let_def
    by (simp add: assignment_targets_table [OF ok ne] enumerate_map_upt comp_def)
  have "concat (map (\<lambda>p. wb_assignments (pl_batch p)) (concat (map P [0 ..< ?n])))
      = concat (map (\<lambda>i. concat (map (\<lambda>p. wb_assignments (pl_batch p)) (P i))) [0 ..< ?n])"
    by (simp add: concat_map_concat)
  also have "\<dots> = concat (map (\<lambda>i. filter (\<lambda>a. ?tg (fst (snd (snd a))) = int i) (rb_assignments b)) [0 ..< ?n])"
    using P by (intro arg_cong [where f = concat] map_cong refl) (simp add: target_share_def)
  finally have "mset (concat (map (\<lambda>p. wb_assignments (pl_batch p)) (concat (map P [0 ..< ?n]))))
      = mset (filter (\<lambda>a. 0 \<le> ?tg (fst (snd (snd a))) \<and> ?tg (fst (snd (snd a))) < int ?n) (rb_assignments b))"
    by (simp only: mset_partition_by_index)
  also have "filter (\<lambda>a. 0 \<le> ?tg (fst (snd (snd a))) \<and> ?tg (fst (snd (snd a))) < int ?n) (rb_assignments b) = rb_assignments b"
    using expert_target_range [OF sel ok t expert_of_assignment [OF ok]] by (simp add: filter_id_conv)
  finally have cover: "mset (concat (map (\<lambda>p. wb_assignments (pl_batch p)) (concat (map P [0 ..< ?n])))) = mset (rb_assignments b)" .
  have "pl_target p = s (fst (snd (snd a)))"
    if i: "i < ?n" and p: "p \<in> set (P i)" and a: "a \<in> set (wb_assignments (pl_batch p))" for i p a
  proof -
    have "a \<in> set (rb_assignments b)" and ti: "?tg (fst (snd (snd a))) = int i"
      using target_share_assignment [OF conjunct2 [OF P [OF i]] p a] by simp_all
    then have e: "fst (snd (snd a)) \<in> set (rb_distinct_expert_ids b)" using expert_of_assignment [OF ok] by blast
    then have "wc_identity (s (fst (snd (snd a)))) = ?order ! i"
      using group_by_target_plan(3) [OF sel ok t i] ti by blast
    then show ?thesis
      using selection_of_lookup(2) [OF sel t e] P [OF i] p by (simp add: target_share_def)
  qed
  moreover have "pl_target p \<in> s ` set (rb_distinct_expert_ids b)" if i: "i < ?n" and p: "p \<in> set (P i)" for i p
    using group_by_target_plan(1) [OF sel ok t i] P [OF i] p by (auto simp: target_share_def)
  ultimately show ?thesis
    using P cover run by (intro exI [where x = "concat (map P [0 ..< ?n])"]) (auto simp: grouped_def target_share_def)
qed

lemma complete_batch_ok:
  assumes ok: "rb_values_ok b" and v: "0 \<le> v" "v \<le> uint64_max"
  defines "l \<equiv> worker_batch_of b v None (rb_expert_ids b) (rb_routing_weights b) (rb_distinct_expert_ids b)"
  shows "wb_values_ok l" and "wb_assignments l = rb_assignments b"
proof -
  have "worker_batch_post_init l = None"
    using conjunct1 [OF ok [unfolded rb_values_ok_def]] v
    unfolding routed_layer_batch_post_init_iff worker_batch_post_init_iff
    by (simp add: l_def worker_batch_of_def wb_token_count_def rb_token_count_def)
  with ok show "wb_values_ok l"
    by (simp add: wb_values_ok_def rb_values_ok_def l_def worker_batch_of_def)
  show "wb_assignments l = rb_assignments b"
    by (simp add: wb_assignments_def rb_assignments_def l_def worker_batch_of_def all_token_indices_def rb_token_count_def)
qed

lemma group_selected_ok:
  assumes doc: "torch_int_doc T" and ok: "rb_values_ok b" and v: "0 \<le> v" "v \<le> uint64_max"
    and small: "rb_token_count b * rb_top_k b < 2 ^ 32" and ne: "rb_distinct_expert_ids b \<noteq> []"
    and sel: "selection_of s (rb_distinct_expert_ids b) sel" and t: "targets_ok s (rb_distinct_expert_ids b)"
  shows "\<exists>plans. group_selected T b v reuse sel = Inr plans \<and> grouped b v s plans"
proof (cases sel)
  case (fields selected by_identity experts)
  note sel' = sel [unfolded fields]
  show ?thesis
  proof (cases "reuse \<and> length by_identity = 1")
    case False
    then show ?thesis
      using group_by_target_ok [OF doc ok v small ne sel' t] by (auto simp: group_selected_def fields)
  next
    case True
    then obtain w target where one: "by_identity = [(w, target)]" by (auto simp: length_Suc_conv)
    let ?l = "worker_batch_of b v None (rb_expert_ids b) (rb_routing_weights b) (rb_distinct_expert_ids b)"
    note l = complete_batch_ok [OF ok v]
    have all: "s e = target" if "e \<in> set (rb_distinct_expert_ids b)" for e
      using selection_of_lookup(2) [OF sel' t that] by (simp add: one split: if_splits)
    obtain e where e: "e \<in> set (rb_distinct_expert_ids b)" using ne by (metis last_in_set)
    with all t have pos: "0 < wc_max_batch_tokens target" by (auto simp: targets_ok_def)
    have "dim0 (wb_expert_ids ?l) * dim1 (wb_expert_ids ?l) < 2 ^ 32"
      using small rb_values_ok_shapes(3) [OF ok] by (simp add: worker_batch_of_def rb_top_k_def)
    from split_batch_ok [OF doc l(1) pos this] obtain ps
      where ps: "split_batch T target ?l = Inr ps" "split_of target ?l ps" by blast
    have "s (fst (snd (snd a))) = target" if "p \<in> set ps" "a \<in> set (wb_assignments (pl_batch p))" for p a
    proof -
      have "a \<in> set (concat (map (\<lambda>p. wb_assignments (pl_batch p)) ps))" using that by auto
      then have "a \<in> set (rb_assignments b)" using ps(2) l(2) by (simp only: split_of_def)
      then show ?thesis using all expert_of_assignment [OF ok] by blast
    qed
    moreover have "target \<in> s ` set (rb_distinct_expert_ids b)" using e all by blast
    ultimately have "grouped b v s ps" using ps(2) l(2)
      by (simp add: grouped_def split_of_def same_context_def worker_batch_of_def wb_top_k_def rb_top_k_def)
    with True ps(1) wb_values_ok_post_init [OF l(1)] show ?thesis
      by (simp add: group_selected_def fields one)
  qed
qed

section \<open>The whole operation\<close>

definition topology_targets_ok :: "topology_snapshot \<Rightarrow> bool" where
  "topology_targets_ok s \<longleftrightarrow> (\<forall>t\<in>set (targets_of (ts_routes s)). worker_connection_post_init t = None)"

lemma topology_targets_positive:
  assumes "topology_targets_ok s" and "map_of (ts_routes s) k = Some reps" and "t \<in> set reps"
  shows "0 < wc_max_batch_tokens t"
proof -
  have "t \<in> set (targets_of (ts_routes s))"
    using map_of_SomeD [OF assms(2)] assms(3) by (force simp: targets_of_def)
  with assms(1) show ?thesis
    by (simp add: topology_targets_ok_def worker_connection_post_init_def not_le)
qed

lemma snapshot_targets_ok:
  assumes "snapshot_ok tp" and "topology_targets_ok tp"
    and "\<forall>e\<in>set es. \<exists>reps. map_of (layer_routes tp l) e = Some reps \<and> s e \<in> set reps"
  shows "targets_ok s es"
  unfolding targets_ok_def
proof (intro ballI conjI impI)
  fix e assume "e \<in> set es"
  then obtain reps where r: "map_of (layer_routes tp l) e = Some reps" "s e \<in> set reps" using assms(3) by blast
  then show "0 < wc_max_batch_tokens (s e)"
    using topology_targets_positive [OF assms(2)] layer_routes_lookup [OF assms(1)] by metis
  fix e' assume "e' \<in> set es" and same: "wc_identity (s e) = wc_identity (s e')"
  then obtain reps' where r': "map_of (layer_routes tp l) e' = Some reps'" "s e' \<in> set reps'" using assms(3) by blast
  from layer_routes_replicas [OF assms(1) r(1)] layer_routes_replicas [OF assms(1) r'(1)] r(2) r'(2) same
  show "s e = s e'" by (blast intro: snapshot_same_identity [OF assms(1)])
qed

lemma rb_assignments_none: "rb_values_ok b \<Longrightarrow> rb_distinct_expert_ids b = [] \<Longrightarrow> rb_assignments b = []"
  using expert_of_assignment by (metis last_in_set list.set(1) empty_iff)

lemma layer_routes_empty:
  "snapshot_ok tp \<Longrightarrow> layer_routes tp l = [] \<Longrightarrow> map_of (ts_routes tp) (l, e) = None"
  by (metis layer_routes_lookup map_of.simps(1))

lemma group_worker_batches_missing:
  assumes "snapshot_ok tp" and "rb_instance_id b = ts_instance_id tp"
    and "filter (\<lambda>e. map_of (ts_routes tp) (rb_layer_id b, e) = None) (rb_distinct_expert_ids b) = missing" "missing \<noteq> []"
  shows "\<exists>d. group_worker_batches T select b tp st ex exe fb reuse =
     (Inl (Raised_TransportError ((TransportError UNAVAILABLE True d)\<lparr>te_unavailable_expert_ids := missing\<rparr>)), st)"
proof (cases "layer_routes tp (rb_layer_id b) = []")
  case True
  then have "missing = rb_distinct_expert_ids b"
    using assms(3) layer_routes_empty [OF assms(1)] by simp
  with True assms(2,4) show ?thesis
    by (auto simp: group_worker_batches_def)
next
  case False
  moreover have "rb_distinct_expert_ids b \<noteq> []" using assms(3,4) by auto
  ultimately show ?thesis
    using assms by (auto simp: group_worker_batches_def Let_def layer_routes_lookup)
qed

context replica_selector
begin

lemma group_worker_batches_ok:
  assumes doc: "torch_int_doc T" and ok: "rb_values_ok b" and tp: "snapshot_ok tp" "topology_targets_ok tp"
    and small: "rb_token_count b * rb_top_k b < 2 ^ 32" and inst: "rb_instance_id b = ts_instance_id tp"
    and routed: "\<forall>e\<in>set (rb_distinct_expert_ids b). \<exists>reps. map_of (ts_routes tp) (rb_layer_id b, e) = Some reps \<and>
       (wc_identity ` set reps \<subseteq> expert_exclusions ex exe e \<longrightarrow> fb)"
  shows "\<exists>plans s. fst (group_worker_batches T select b tp st ex exe fb reuse) = Inr plans \<and>
     grouped b (ts_version tp) s plans \<and>
     (\<forall>e\<in>set (rb_distinct_expert_ids b). \<exists>reps. map_of (ts_routes tp) (rb_layer_id b, e) = Some reps \<and>
        s e \<in> set reps \<and> (wc_identity (s e) \<notin> expert_exclusions ex exe e \<or>
          fb \<and> wc_identity ` set reps \<subseteq> expert_exclusions ex exe e))"
proof (cases "rb_distinct_expert_ids b = []")
  case True
  then show ?thesis
    using inst rb_assignments_none [OF ok True] by (simp add: group_worker_batches_def Let_def grouped_def)
next
  case False
  let ?routes = "layer_routes tp (rb_layer_id b)" and ?ex = "expert_exclusions ex exe"
  let ?run = "select_targets select (rb_instance_id b) (rb_layer_id b) ?routes ?ex fb (rb_distinct_expert_ids b) ([], [], []) st"
  have look: "map_of ?routes e = map_of (ts_routes tp) (rb_layer_id b, e)" for e
    using tp(1) by (rule layer_routes_lookup)
  have nomiss: "filter (\<lambda>e. map_of ?routes e = None) (rb_distinct_expert_ids b) = []"
    using routed by (auto simp: filter_empty_conv look)
  moreover from this have "?routes \<noteq> []" using False by (auto simp: filter_empty_conv)
  ultimately have run: "group_worker_batches T select b tp st ex exe fb reuse =
      (case ?run of (Inl err, st') \<Rightarrow> (Inl err, st')
       | (Inr sel, st') \<Rightarrow> (group_selected T b (ts_version tp) reuse sel, st'))"
    using inst False by (simp add: group_worker_batches_def Let_def)
  have "\<exists>reps. map_of ?routes e = Some reps \<and> (wc_identity ` set reps \<subseteq> ?ex e \<longrightarrow> fb \<and> reps \<noteq> [])"
    if "e \<in> set (rb_distinct_expert_ids b)" for e
    using routed that layer_routes_replicas [OF tp(1), of "rb_layer_id b" e] unfolding look by metis
  then obtain sel where sel: "fst ?run = Inr sel" using select_targets_total by meson
  have "distinct ([] @ rb_distinct_expert_ids b)" using ok by (simp add: rb_values_ok_def experts_in_def)
  from select_targets_Inr [OF sel selection_of_start this] obtain s where
    s: "selection_of s (rb_distinct_expert_ids b) sel"
    and picked: "\<forall>e\<in>set (rb_distinct_expert_ids b). \<exists>reps. map_of ?routes e = Some reps \<and> s e \<in> set reps \<and>
        (wc_identity (s e) \<notin> ?ex e \<or> fb \<and> wc_identity ` set reps \<subseteq> ?ex e)" by auto
  then have t: "targets_ok s (rb_distinct_expert_ids b)" by (intro snapshot_targets_ok [OF tp]) blast
  have "0 \<le> ts_version tp" "ts_version tp \<le> uint64_max" using tp(1) by (simp_all add: snapshot_ok_def)
  from group_selected_ok [OF doc ok this small False s t] obtain plans where
    "group_selected T b (ts_version tp) reuse sel = Inr plans" "grouped b (ts_version tp) s plans" by blast
  with sel run picked show ?thesis
    by (intro exI [where x = plans] exI [where x = s]) (auto simp: look split: prod.splits)
qed

text \<open>Conversely, a grouping that returns is a complete one.\<close>

lemma group_worker_batches_Inr:
  assumes run: "fst (group_worker_batches T select b tp st ex exe fb reuse) = Inr plans"
    and doc: "torch_int_doc T" and ok: "rb_values_ok b" and tp: "snapshot_ok tp" "topology_targets_ok tp"
    and small: "rb_token_count b * rb_top_k b < 2 ^ 32"
  shows "\<exists>s. grouped b (ts_version tp) s plans \<and>
     (\<forall>e\<in>set (rb_distinct_expert_ids b). \<exists>reps. map_of (ts_routes tp) (rb_layer_id b, e) = Some reps \<and>
        s e \<in> set reps \<and> (wc_identity (s e) \<notin> expert_exclusions ex exe e \<or>
          fb \<and> wc_identity ` set reps \<subseteq> expert_exclusions ex exe e))"
proof (cases "rb_distinct_expert_ids b = []")
  case True
  then have "plans = []" using run by (auto simp: group_worker_batches_def Let_def split: if_splits)
  with True show ?thesis
    using rb_assignments_none [OF ok True] by (simp add: grouped_def)
next
  case False
  let ?routes = "layer_routes tp (rb_layer_id b)" and ?ex = "expert_exclusions ex exe"
  let ?run = "select_targets select (rb_instance_id b) (rb_layer_id b) ?routes ?ex fb (rb_distinct_expert_ids b) ([], [], []) st"
  obtain sel where sel: "fst ?run = Inr sel" and grp: "group_selected T b (ts_version tp) reuse sel = Inr plans"
    using run False by (auto simp: group_worker_batches_def Let_def split: if_splits prod.splits sum.splits)
  have "distinct ([] @ rb_distinct_expert_ids b)" using ok by (simp add: rb_values_ok_def experts_in_def)
  from select_targets_Inr [OF sel selection_of_start this] obtain s where
    s: "selection_of s (rb_distinct_expert_ids b) sel"
    and picked: "\<forall>e\<in>set (rb_distinct_expert_ids b). \<exists>reps. map_of ?routes e = Some reps \<and> s e \<in> set reps \<and>
        (wc_identity (s e) \<notin> ?ex e \<or> fb \<and> wc_identity ` set reps \<subseteq> ?ex e)" by auto
  then have t: "targets_ok s (rb_distinct_expert_ids b)" by (intro snapshot_targets_ok [OF tp]) blast
  have "0 \<le> ts_version tp" "ts_version tp \<le> uint64_max" using tp(1) by (simp_all add: snapshot_ok_def)
  from group_selected_ok [OF doc ok this small False s t, of reuse] grp have "grouped b (ts_version tp) s plans" by auto
  with picked show ?thesis
    by (intro exI [where x = s]) (simp add: layer_routes_lookup [OF tp(1)])
qed

end

section \<open>A concrete batch\<close>

definition ex_batch :: "int routed_layer_batch" where
  "ex_batch = \<lparr>rb_instance_id = 7, rb_layer_id = 2,
     rb_hidden_states = mk_matrix BFloat16 ''cpu'' 2 [[1, 2], [3, 4], [5, 6]],
     rb_expert_ids = mk_matrix Int32 ''cpu'' 2 [[0, 1], [4, -1], [0, 4]],
     rb_routing_weights = mk_matrix Float32 ''cpu'' 2 [[10, 20], [30, 0], [40, 50]],
     rb_distinct_expert_ids = [0, 1, 4]\<rparr>"

lemma ex_batch_ok: "rb_values_ok ex_batch"
  by code_simp

lemma ex_targets_ok: "topology_targets_ok ex_snapshot"
  by code_simp

lemma ex_batch_routed:
  "\<forall>e\<in>set (rb_distinct_expert_ids ex_batch). \<exists>reps. map_of (ts_routes ex_snapshot) (rb_layer_id ex_batch, e) = Some reps \<and>
     (wc_identity ` set reps \<subseteq> expert_exclusions {} None e \<longrightarrow> False)"
  by (simp add: ex_batch_def ex_snapshot_def expert_exclusions_def)

section \<open>Properties\<close>

text \<open>
  C2. Grouping one routed layer batch against a valid snapshot with the round-robin selector
  returns whenever every requested expert has a replica the caller allows. The plans carry every
  valid routing assignment (token, column, expert, weight) exactly once and nothing else; each
  plan respects its Worker's published \<open>max_batch_tokens\<close>, passes the \<open>WorkerBatch\<close> checks with an
  exact expert list, and is addressed to a ready replica of every expert it carries, an excluded
  one only as the permitted fallback.
\<close>

theorem group_worker_batches_exact_cover:
  assumes "torch_int_doc T" and "rb_values_ok b" and "snapshot_ok tp" and "topology_targets_ok tp"
    and "rb_token_count b * rb_top_k b < 2 ^ 32" and "rb_instance_id b = ts_instance_id tp"
    and "\<forall>e\<in>set (rb_distinct_expert_ids b). \<exists>reps. map_of (ts_routes tp) (rb_layer_id b, e) = Some reps \<and>
       (wc_identity ` set reps \<subseteq> expert_exclusions ex exe e \<longrightarrow> fb)"
  shows "\<exists>plans s. fst (group_worker_batches T rr_select b tp st ex exe fb reuse) = Inr plans \<and>
     grouped b (ts_version tp) s plans \<and>
     (\<forall>e\<in>set (rb_distinct_expert_ids b). \<exists>reps. map_of (ts_routes tp) (rb_layer_id b, e) = Some reps \<and>
        s e \<in> set reps \<and> (wc_identity (s e) \<notin> expert_exclusions ex exe e \<or>
          fb \<and> wc_identity ` set reps \<subseteq> expert_exclusions ex exe e))"
  using assms by (rule rr.group_worker_batches_ok)

theorem group_worker_batches_exact_cover_witness:
  "\<exists>plans s. fst (group_worker_batches torch_ref rr_select ex_batch ex_snapshot RoundRobinSelector {} None False True) = Inr plans \<and>
     grouped ex_batch 3 s plans \<and> s 0 = ex_worker_a"
  using group_worker_batches_exact_cover [OF torch_ref_doc ex_batch_ok ex_snapshot_ok ex_targets_ok _ _ ex_batch_routed,
      of RoundRobinSelector True]
  by (auto simp: ex_batch_def ex_snapshot_def rb_token_count_def rb_top_k_def)

text \<open>
  When some requested experts have no route in the snapshot, grouping fails before any
  selection with a retryable \<open>UNAVAILABLE\<close> error that lists exactly those experts in order,
  whatever the selector, and leaves the selector state unchanged.
\<close>

theorem group_worker_batches_unrouted:
  assumes "snapshot_ok tp" and "rb_instance_id b = ts_instance_id tp"
    and "filter (\<lambda>e. map_of (ts_routes tp) (rb_layer_id b, e) = None) (rb_distinct_expert_ids b) = missing"
    and "missing \<noteq> []"
  shows "\<exists>d. group_worker_batches T select b tp st ex exe fb reuse =
     (Inl (Raised_TransportError ((TransportError UNAVAILABLE True d)\<lparr>te_unavailable_expert_ids := missing\<rparr>)), st)"
  using assms by (rule group_worker_batches_missing)

theorem group_worker_batches_unrouted_witness:
  "\<exists>d. group_worker_batches torch_ref rr_select (ex_batch\<lparr>rb_distinct_expert_ids := [0, 3, 4, 9]\<rparr>) ex_snapshot
       RoundRobinSelector {} None False True =
     (Inl (Raised_TransportError ((TransportError UNAVAILABLE True d)\<lparr>te_unavailable_expert_ids := [3, 9]\<rparr>)), RoundRobinSelector)"
  by (rule group_worker_batches_unrouted [OF ex_snapshot_ok]) (simp_all add: ex_batch_def ex_snapshot_def)

end
