(* ===== verification/Output_Pool.thy ===== *)
theory Output_Pool
  imports Batches
begin

text \<open>
  \<open>ek-transport/src/expertkit_transport/buffers.py\<close>: the pool of output Tensors. A Tensor is
  represented by its number. Every operation below is one critical section under the pool's
  condition variable (or one stretch of code without \<open>await\<close>), so that an execution of the event
  loop is a sequence of these operations. Clock readings and deadlines are integers.
\<close>

record tensor_slot =
  sl_tensor :: nat
  sl_reuse_event :: bool

record output_lease =
  ol_slot :: tensor_slot
  ol_consumed :: bool

record output_pool =
  op_max_batch_tokens :: int
  op_hidden_dim :: int
  op_dtype :: dtype
  op_device :: string
  op_accelerator :: bool
  op_capacity :: int
  op_available :: "tensor_slot list"
  op_leased :: int
  op_failed :: bool
  op_closing :: bool
  op_closed :: bool

definition pool_deadline_error :: exn where
  "pool_deadline_error = Raised_TransportError
     (TransportError DEADLINE_EXCEEDED False ''deadline expired while waiting for an output Tensor'')"

definition pool_unavailable :: exn where
  "pool_unavailable = Raised_TransportError
     (TransportError UNAVAILABLE True ''output Tensor pool is unavailable'')"

definition OutputPool :: "int \<Rightarrow> int \<Rightarrow> dtype \<Rightarrow> string \<Rightarrow> bool \<Rightarrow> int \<Rightarrow> exn + output_pool" where
  "OutputPool max_batch_tokens hidden_dim dt device accelerator capacity =
     after (raise_first
       [(max_batch_tokens \<le> 0, ValueError ''max_batch_tokens must be a positive integer''),
        (hidden_dim \<le> 0, ValueError ''hidden_dim must be a positive integer''),
        (capacity \<le> 0, ValueError ''capacity must be a positive integer''),
        (dt \<notin> set ACTIVATION_DTYPES, ValueError ''output dtype must be FP16, BF16, or FP32'')])
      (Inr \<lparr>op_max_batch_tokens = max_batch_tokens, op_hidden_dim = hidden_dim, op_dtype = dt,
            op_device = device, op_accelerator = accelerator, op_capacity = capacity,
            op_available = map (\<lambda>i. \<lparr>sl_tensor = i, sl_reuse_event = False\<rparr>) [0 ..< nat capacity],
            op_leased = 0, op_failed = False, op_closing = False, op_closed = False\<rparr>)"

text \<open>\<open>OutputLease.mark_consumed\<close>.\<close>

definition mark_consumed :: "output_lease \<Rightarrow> exn + output_lease" where
  "mark_consumed l = (if ol_consumed l then Inl (RuntimeError ''output Tensor consumption was already recorded'')
                      else Inr (l\<lparr>ol_consumed := True\<rparr>))"

text \<open>
  One pass of \<open>_acquire\<close> through its waiting loop: it raises, waits on the condition (\<open>None\<close>) or
  takes the last available slot. \<open>enter\<close> marks the first pass, which also checks the deadline
  before looking at the slots.
\<close>

definition acquire_pass ::
  "bool \<Rightarrow> int \<Rightarrow> int \<Rightarrow> output_pool \<Rightarrow> (exn + tensor_slot option) \<times> output_pool" where
  "acquire_pass enter deadline now p =
     (if enter \<and> deadline - now \<le> 0 then (Inl pool_deadline_error, p)
      else if op_available p = [] then
        (if op_closing p \<or> op_failed p then (Inl pool_unavailable, p)
         else if deadline - now \<le> 0 then (Inl pool_deadline_error, p)
         else (Inr None, p))
      else if op_closing p \<or> op_failed p then (Inl pool_unavailable, p)
      else (Inr (Some (last (op_available p))),
            p\<lparr>op_available := butlast (op_available p), op_leased := op_leased p + 1\<rparr>))"

text \<open>Giving a slot back when waiting for its event raised.\<close>

definition acquire_rollback :: "tensor_slot \<Rightarrow> output_pool \<Rightarrow> output_pool" where
  "acquire_rollback s p =
     p\<lparr>op_available := op_available p @ [s], op_leased := op_leased p - 1, op_failed := True\<rparr>"

text \<open>
  \<open>_return\<close>; \<open>created\<close> and \<open>recorded\<close> tell whether creating the reuse event, if the slot has none, and recording it
  worked. A created event stays with the slot even if recording it fails.
\<close>

definition pool_return :: "output_lease \<Rightarrow> bool \<Rightarrow> bool \<Rightarrow> output_pool \<Rightarrow> output_pool" where
  "pool_return l created recorded p =
     (let record_event = ol_consumed l \<and> op_accelerator p;
          slot = (ol_slot l)\<lparr>sl_reuse_event := sl_reuse_event (ol_slot l) \<or> (record_event \<and> created)\<rparr>
      in p\<lparr>op_available := op_available p @ [slot], op_leased := op_leased p - 1,
           op_failed := op_failed p \<or> (record_event \<and> \<not> (sl_reuse_event slot \<and> recorded))\<rparr>)"

text \<open>\<open>_close\<close>: stop new leases; once no lease is left take the slots; finally mark the pool closed.\<close>

definition pool_begin_close :: "output_pool \<Rightarrow> output_pool" where
  "pool_begin_close p = (if op_closed p then p else p\<lparr>op_closing := True\<rparr>)"

definition pool_take_slots :: "output_pool \<Rightarrow> output_pool" where
  "pool_take_slots p = p\<lparr>op_available := []\<rparr>"

definition pool_set_closed :: "output_pool \<Rightarrow> output_pool" where
  "pool_set_closed p = p\<lparr>op_closed := True\<rparr>"

section \<open>The pool as a transition system\<close>

text \<open>
  A configuration is the pool, the outstanding leases (including a slot whose event wait is in
  progress) and whether the close task has taken the slots.
\<close>

record pool_sys =
  ps_pool :: output_pool
  ps_leases :: "output_lease list"
  ps_drained :: bool

inductive pool_step :: "pool_sys \<Rightarrow> pool_sys \<Rightarrow> bool" where
  step_acquire: "acquire_pass enter deadline now (ps_pool s) = (Inr (Some slot), p') \<Longrightarrow>
     pool_step s (s\<lparr>ps_pool := p', ps_leases := \<lparr>ol_slot = slot, ol_consumed = False\<rparr> # ps_leases s\<rparr>)"
| step_wait_or_raise: "acquire_pass enter deadline now (ps_pool s) = (r, p') \<Longrightarrow> r = Inr None \<or> r = Inl e \<Longrightarrow>
     pool_step s (s\<lparr>ps_pool := p'\<rparr>)"
| step_rollback: "ps_leases s = xs @ l # ys \<Longrightarrow>
     pool_step s (s\<lparr>ps_pool := acquire_rollback (ol_slot l) (ps_pool s), ps_leases := xs @ ys\<rparr>)"
| step_consume: "ps_leases s = xs @ l # ys \<Longrightarrow> mark_consumed l = Inr l' \<Longrightarrow>
     pool_step s (s\<lparr>ps_leases := xs @ l' # ys\<rparr>)"
| step_return: "ps_leases s = xs @ l # ys \<Longrightarrow>
     pool_step s (s\<lparr>ps_pool := pool_return l created recorded (ps_pool s), ps_leases := xs @ ys\<rparr>)"
| step_begin_close: "pool_step s (s\<lparr>ps_pool := pool_begin_close (ps_pool s)\<rparr>)"
| step_take_slots: "op_closing (ps_pool s) \<Longrightarrow> op_leased (ps_pool s) = 0 \<Longrightarrow>
     pool_step s (s\<lparr>ps_pool := pool_take_slots (ps_pool s), ps_drained := True\<rparr>)"
| step_set_closed: "ps_drained s \<Longrightarrow> pool_step s (s\<lparr>ps_pool := pool_set_closed (ps_pool s)\<rparr>)"

definition pool_init :: "pool_sys \<Rightarrow> bool" where
  "pool_init s \<longleftrightarrow> ps_leases s = [] \<and> \<not> ps_drained s \<and>
     (\<exists>m h d dev acc c. OutputPool m h d dev acc c = Inr (ps_pool s))"

definition tensors_out :: "pool_sys \<Rightarrow> nat list" where
  "tensors_out s = map (\<lambda>l. sl_tensor (ol_slot l)) (ps_leases s)"

definition tensors_in :: "pool_sys \<Rightarrow> nat list" where
  "tensors_in s = map sl_tensor (op_available (ps_pool s))"

text \<open>Every Tensor is in exactly one place until the drained pool gave its Tensors up.\<close>

definition pool_inv :: "pool_sys \<Rightarrow> bool" where
  "pool_inv s \<longleftrightarrow> 0 < op_capacity (ps_pool s) \<and>
     op_leased (ps_pool s) = int (length (ps_leases s)) \<and>
     (ps_drained s \<longrightarrow> op_closing (ps_pool s) \<and> ps_leases s = [] \<and> op_available (ps_pool s) = []) \<and>
     (op_closed (ps_pool s) \<longrightarrow> ps_drained s) \<and>
     (\<not> ps_drained s \<longrightarrow> mset (tensors_out s @ tensors_in s) = mset [0 ..< nat (op_capacity (ps_pool s))])"

lemma acquire_pass_cases:
  assumes "acquire_pass enter deadline now p = (r, p')"
  shows "(r = Inr None \<or> (\<exists>e. r = Inl e)) \<and> p' = p \<or>
     (\<exists>xs slot. op_available p = xs @ [slot] \<and> r = Inr (Some slot) \<and> \<not> op_closing p \<and> \<not> op_failed p \<and>
        p' = p\<lparr>op_available := xs, op_leased := op_leased p + 1\<rparr>)"
proof (cases "op_available p" rule: rev_cases)
  case (snoc xs slot)
  then show ?thesis using assms by (auto simp: acquire_pass_def split: if_splits)
qed (use assms in \<open>auto simp: acquire_pass_def split: if_splits\<close>)

lemma OutputPool_Inr:
  assumes "OutputPool m h d dev acc c = Inr p"
  shows "0 < m \<and> 0 < h \<and> 0 < c \<and> d \<in> set ACTIVATION_DTYPES \<and> op_max_batch_tokens p = m \<and> op_hidden_dim p = h \<and>
     op_dtype p = d \<and> op_device p = dev \<and> op_accelerator p = acc \<and> op_capacity p = c \<and>
     map sl_tensor (op_available p) = [0 ..< nat c] \<and> op_leased p = 0 \<and> \<not> op_failed p \<and> \<not> op_closing p \<and> \<not> op_closed p"
  using assms by (auto simp: OutputPool_def comp_def)

lemma pool_init_inv:
  assumes "pool_init s"
  shows "pool_inv s"
proof -
  from assms obtain m h d dev acc c where "OutputPool m h d dev acc c = Inr (ps_pool s)"
    and "ps_leases s = []" "\<not> ps_drained s" by (auto simp: pool_init_def)
  with OutputPool_Inr [OF this(1)] show ?thesis
    by (simp add: pool_inv_def tensors_out_def tensors_in_def)
qed

lemma pool_step_inv: "pool_inv s \<Longrightarrow> pool_step s t \<Longrightarrow> pool_inv t"
proof (erule pool_step.cases, goal_cases)
  case (1 enter deadline now s' slot p')
  then obtain xs where av: "op_available (ps_pool s) = xs @ [slot]" and cl: "\<not> op_closing (ps_pool s)"
    and p': "p' = (ps_pool s)\<lparr>op_available := xs, op_leased := op_leased (ps_pool s) + 1\<rparr>"
    using acquire_pass_cases [of enter deadline now "ps_pool s" "Inr (Some slot)" p'] by auto
  with 1 show ?case by (auto simp: pool_inv_def tensors_out_def tensors_in_def ac_simps)
next
  case (2 enter deadline now s' r p' e)
  then have "p' = ps_pool s" using acquire_pass_cases [of enter deadline now "ps_pool s" r p'] by auto
  with 2 show ?case by simp
next
  case (3 s' xs l ys)
  then show ?case
    by (auto simp: pool_inv_def acquire_rollback_def tensors_out_def tensors_in_def ac_simps)
next
  case (4 s' xs l ys l')
  then have "ol_slot l' = ol_slot l" by (auto simp: mark_consumed_def split: if_splits)
  with 4 show ?case by (auto simp: pool_inv_def tensors_out_def tensors_in_def)
next
  case (5 s' xs l ys created recorded)
  then show ?case
    by (auto simp: pool_inv_def pool_return_def Let_def tensors_out_def tensors_in_def ac_simps)
next
  case 6
  then show ?case by (auto simp: pool_inv_def pool_begin_close_def tensors_out_def tensors_in_def)
next
  case 7
  then show ?case by (auto simp: pool_inv_def pool_take_slots_def tensors_out_def tensors_in_def)
next
  case 8
  then show ?case by (auto simp: pool_inv_def pool_set_closed_def tensors_out_def tensors_in_def)
qed

interpretation pool: invariant_system pool_init pool_step pool_inv
  by unfold_locales (auto intro: pool_init_inv pool_step_inv)

lemma pool_inv_ownership:
  assumes "pool_inv s"
  shows "distinct (tensors_out s) \<and> set (tensors_out s) \<inter> set (tensors_in s) = {} \<and>
     int (length (ps_leases s)) = op_leased (ps_pool s) \<and>
     (\<not> ps_drained s \<longrightarrow> op_leased (ps_pool s) + int (length (op_available (ps_pool s))) = op_capacity (ps_pool s))"
proof (cases "ps_drained s")
  case True
  then show ?thesis using assms by (simp add: pool_inv_def tensors_out_def)
next
  case False
  then have m: "mset (tensors_out s @ tensors_in s) = mset [0 ..< nat (op_capacity (ps_pool s))]"
    and cap: "0 < op_capacity (ps_pool s)" using assms by (simp_all add: pool_inv_def)
  have "distinct (tensors_out s @ tensors_in s)" using m by (metis distinct_upt mset_eq_imp_distinct_iff)
  moreover have "length (tensors_out s @ tensors_in s) = nat (op_capacity (ps_pool s))"
    using m by (metis diff_zero length_upt size_mset)
  then have "int (length (ps_leases s)) + int (length (op_available (ps_pool s))) = op_capacity (ps_pool s)"
    using cap by (simp add: tensors_out_def tensors_in_def)
  ultimately show ?thesis
    using assms cap by (simp add: pool_inv_def tensors_out_def tensors_in_def)
qed

lemma acquire_after_return:
  assumes "\<not> op_closing p" and "\<not> op_failed p" and "now < deadline"
  shows "fst (acquire_pass enter deadline now (pool_return l True True p)) =
     Inr (Some ((ol_slot l)\<lparr>sl_reuse_event := sl_reuse_event (ol_slot l) \<or> ol_consumed l \<and> op_accelerator p\<rparr>))"
  using assms by (simp add: acquire_pass_def pool_return_def Let_def)

lemma closed_pool_raises:
  assumes "pool_inv s" and "op_closed (ps_pool s)"
  shows "fst (acquire_pass enter deadline now (ps_pool s)) \<in> {Inl pool_deadline_error, Inl pool_unavailable}"
  using assms by (auto simp: pool_inv_def acquire_pass_def)

section \<open>Properties\<close>

text \<open>
  C9. Whatever the interleaving of leases, consumption marks, returns, failed event waits and
  closing, no output Tensor is ever checked out twice or both checked out and available, the
  lease counter is exact, and until a closing pool gives its Tensors up no Tensor is lost.
\<close>

theorem output_pool_exclusive_ownership:
  assumes "reachable pool_init pool_step s"
  shows "distinct (tensors_out s) \<and> set (tensors_out s) \<inter> set (tensors_in s) = {} \<and>
     int (length (ps_leases s)) = op_leased (ps_pool s) \<and>
     (\<not> ps_drained s \<longrightarrow> op_leased (ps_pool s) + int (length (op_available (ps_pool s))) = op_capacity (ps_pool s))"
  using pool.reachable_inv [OF assms] by (rule pool_inv_ownership)

definition ex_pool :: output_pool where
  "ex_pool = \<lparr>op_max_batch_tokens = 4, op_hidden_dim = 2, op_dtype = BFloat16, op_device = ''cpu'',
     op_accelerator = False, op_capacity = 2,
     op_available = [\<lparr>sl_tensor = 0, sl_reuse_event = False\<rparr>, \<lparr>sl_tensor = 1, sl_reuse_event = False\<rparr>],
     op_leased = 0, op_failed = False, op_closing = False, op_closed = False\<rparr>"

definition ex_pool_start :: pool_sys where
  "ex_pool_start = \<lparr>ps_pool = ex_pool, ps_leases = [], ps_drained = False\<rparr>"

definition ex_pool_leased :: pool_sys where
  "ex_pool_leased = ex_pool_start\<lparr>ps_pool := snd (acquire_pass True 10 3 ex_pool),
     ps_leases := [\<lparr>ol_slot = \<lparr>sl_tensor = 1, sl_reuse_event = False\<rparr>, ol_consumed = False\<rparr>]\<rparr>"

lemma ex_pool_leased_reachable: "reachable pool_init pool_step ex_pool_leased"
proof (rule reach_step)
  have "OutputPool 4 2 BFloat16 ''cpu'' False 2 = Inr ex_pool" by code_simp
  then show "reachable pool_init pool_step ex_pool_start"
    by (intro reach_init) (simp add: pool_init_def ex_pool_start_def, blast)
  have "acquire_pass True 10 3 (ps_pool ex_pool_start) =
     (Inr (Some \<lparr>sl_tensor = 1, sl_reuse_event = False\<rparr>), snd (acquire_pass True 10 3 ex_pool))"
    by code_simp
  from step_acquire [OF this] show "pool_step ex_pool_start ex_pool_leased"
    by (simp add: ex_pool_leased_def ex_pool_start_def)
qed

theorem output_pool_exclusive_ownership_witness:
  "tensors_out ex_pool_leased = [1] \<and> set (tensors_out ex_pool_leased) \<inter> set (tensors_in ex_pool_leased) = {} \<and>
   op_leased (ps_pool ex_pool_leased) = 1"
  using output_pool_exclusive_ownership [OF ex_pool_leased_reachable]
  by (simp add: ex_pool_leased_def tensors_out_def)

text \<open>
  A returned Tensor is immediately available to a waiter: in an open, unfailed pool the next
  pass of a waiting acquisition whose deadline has not expired takes exactly the returned slot.
\<close>

theorem output_pool_return_wakes_waiter:
  assumes "\<not> op_closing p" and "\<not> op_failed p" and "now < deadline"
  shows "fst (acquire_pass enter deadline now (pool_return l True True p)) =
     Inr (Some ((ol_slot l)\<lparr>sl_reuse_event := sl_reuse_event (ol_slot l) \<or> ol_consumed l \<and> op_accelerator p\<rparr>))"
  using assms by (rule acquire_after_return)

theorem output_pool_return_wakes_waiter_witness:
  "fst (acquire_pass False 10 3 (pool_return \<lparr>ol_slot = \<lparr>sl_tensor = 1, sl_reuse_event = False\<rparr>, ol_consumed = True\<rparr> True True
     (ex_pool\<lparr>op_available := [], op_leased := 2\<rparr>))) = Inr (Some \<lparr>sl_tensor = 1, sl_reuse_event = False\<rparr>)"
  by (subst output_pool_return_wakes_waiter) (simp_all add: ex_pool_def)

end
