(* ===== verification/Dispatch.thy ===== *)
theory Dispatch
  imports Grouping Output_Pool
begin

text \<open>
  \<open>ek-transport/src/expertkit_transport/routing/dispatch.py\<close>: one submission per plan and the
  FP32 accumulation of the partial outputs.

  What leasing an output Tensor and \<open>WorkerTransport.execute\<close> (an abstract method) yield for one
  submission is a value of \<open>submission\<close>: the rows written to the leased Tensor, a
  \<open>TransportError\<close>, or any other exception. The concurrent tasks of \<open>dispatch_once\<close> touch the
  accumulator and the failure list only in the stretch of code after \<open>execute\<close>, which has no
  \<open>await\<close>; their interleaving is therefore the order in which the tasks reach that stretch,
  the argument \<open>order\<close>.
\<close>

record 'f failed_worker_batch =
  fw_plan :: "'f worker_batch_plan"
  fw_error :: transport_error

definition validate_accumulator ::
  "'f worker_batch_plan \<Rightarrow> output_pool \<Rightarrow> 'f matrix tensor \<Rightarrow> exn option" where
  "validate_accumulator plan pool accumulator =
     (let batch = pl_batch plan
      in raise_first
        [(ndim accumulator \<noteq> 2 \<or> dim1 accumulator \<noteq> wb_hidden_dim batch,
            ValueError ''accumulator must have shape [layer_tokens, hidden_dim]''),
         (t_dtype accumulator \<noteq> Float32, ValueError ''accumulator must use FP32''),
         (t_device accumulator \<noteq> t_device (wb_hidden_states batch),
            ValueError ''accumulator and Worker batch must be on the same device''),
         (op_hidden_dim pool \<noteq> int (wb_hidden_dim batch),
            ValueError ''output pool hidden dimension does not match the Worker batch''),
         (op_dtype pool \<noteq> t_dtype (wb_hidden_states batch),
            ValueError ''output pool dtype does not match the activation dtype''),
         (op_device pool \<noteq> t_device accumulator,
            ValueError ''output pool and accumulator must be on the same device''),
         (op_max_batch_tokens pool < int (wb_token_count batch),
            ValueError ''output pool is too small for the physical Worker batch'')])"

datatype 'f submission = Filled "'f matrix" | Transport_failed transport_error | Unexpected exn

definition plan_tokens :: "'f worker_batch \<Rightarrow> nat list" where
  "plan_tokens b = (case wb_token_indices b of None \<Rightarrow> [0 ..< wb_token_count b] | Some ti \<Rightarrow> t_data ti)"

text \<open>\<open>accumulator.index_add_(0, token_indices, partial.to(torch.float32))\<close>.\<close>

definition add_row :: "('f, 'z) torch_ops_scheme \<Rightarrow> nat \<times> 'f list \<Rightarrow> 'f matrix \<Rightarrow> 'f matrix" where
  "add_row T tr acc = acc[fst tr := map2 (f_add T) (acc ! fst tr) (map (f_to T Float32) (snd tr))]"

definition index_add :: "('f, 'z) torch_ops_scheme \<Rightarrow> nat list \<Rightarrow> 'f matrix \<Rightarrow> 'f matrix \<Rightarrow> exn + 'f matrix" where
  "index_add T tokens rows acc =
     (if list_all (\<lambda>t. t < length acc) tokens then Inr (fold (add_row T) (zip tokens rows) acc) else Inl IndexError)"

definition dispatch_plan ::
  "('f, 'z) torch_ops_scheme \<Rightarrow> 'f worker_batch_plan \<Rightarrow> 'f submission \<Rightarrow> 'f matrix tensor \<Rightarrow>
   (exn + 'f failed_worker_batch option) \<times> 'f matrix tensor" where
  "dispatch_plan T plan sub accumulator =
     (case sub of
        Filled rows \<Rightarrow>
          (case index_add T (plan_tokens (pl_batch plan)) (take (wb_token_count (pl_batch plan)) rows) (t_data accumulator) of
             Inl e \<Rightarrow> (Inl e, accumulator)
           | Inr acc \<Rightarrow> (Inr None, accumulator\<lparr>t_data := acc\<rparr>))
      | Transport_failed e \<Rightarrow> (Inr (Some \<lparr>fw_plan = plan, fw_error = e\<rparr>), accumulator)
      | Unexpected e \<Rightarrow> (Inl e, accumulator))"

definition dispatch_complete_plan ::
  "'f worker_batch_plan \<Rightarrow> 'f submission \<Rightarrow> exn + ('f matrix + 'f failed_worker_batch)" where
  "dispatch_complete_plan plan sub =
     (if wb_token_indices (pl_batch plan) \<noteq> None
      then Inl (ValueError ''a complete Worker plan must select every source token'')
      else (case sub of
              Filled rows \<Rightarrow> Inr (Inl rows)
            | Transport_failed e \<Rightarrow> Inr (Inr \<lparr>fw_plan = plan, fw_error = e\<rparr>)
            | Unexpected e \<Rightarrow> Inl e))"

text \<open>The local coroutine \<open>run\<close>.\<close>

definition dispatch_run ::
  "('f, 'z) torch_ops_scheme \<Rightarrow> (worker_identity \<rightharpoonup> output_pool) \<Rightarrow> 'f worker_batch_plan \<Rightarrow> 'f submission \<Rightarrow>
   'f matrix tensor \<Rightarrow> (exn + 'f failed_worker_batch option) \<times> 'f matrix tensor" where
  "dispatch_run T pools plan sub accumulator =
     (case pools (wc_identity (pl_target plan)) of
        None \<Rightarrow> (Inl (RuntimeError ''no output pool for selected Worker process''), accumulator)
      | Some pool \<Rightarrow>
         (case validate_accumulator plan pool accumulator of
            Some e \<Rightarrow> (Inl e, accumulator)
          | None \<Rightarrow> dispatch_plan T plan sub accumulator))"

text \<open>The tasks in the order in which they finish; an unexpected exception aborts the group.\<close>

fun dispatch_tasks ::
  "('f, 'z) torch_ops_scheme \<Rightarrow> (worker_identity \<rightharpoonup> output_pool) \<Rightarrow> 'f worker_batch_plan list \<Rightarrow> (nat \<Rightarrow> 'f submission) \<Rightarrow>
   nat list \<Rightarrow> 'f failed_worker_batch option list \<Rightarrow> 'f matrix tensor \<Rightarrow>
   (exn + 'f failed_worker_batch option list) \<times> 'f matrix tensor" where
  "dispatch_tasks T pools plans subs [] failures accumulator = (Inr failures, accumulator)"
| "dispatch_tasks T pools plans subs (index # rest) failures accumulator =
     (case dispatch_run T pools (plans ! index) (subs index) accumulator of
        (Inl e, acc) \<Rightarrow> (Inl (ExceptionGroup e), acc)
      | (Inr f, acc) \<Rightarrow> dispatch_tasks T pools plans subs rest (failures[index := f]) acc)"

definition dispatch_once ::
  "('f, 'z) torch_ops_scheme \<Rightarrow> 'f worker_batch_plan list \<Rightarrow> (worker_identity \<rightharpoonup> output_pool) \<Rightarrow> 'f matrix tensor \<Rightarrow>
   (nat \<Rightarrow> 'f submission) \<Rightarrow> nat list \<Rightarrow> (exn + 'f failed_worker_batch list) \<times> 'f matrix tensor" where
  "dispatch_once T plans pools accumulator subs order =
     (case dispatch_tasks T pools plans subs order (replicate (length plans) None) accumulator of
        (Inl e, acc) \<Rightarrow> (Inl e, acc)
      | (Inr failures, acc) \<Rightarrow> (Inr (map the (filter (\<lambda>f. f \<noteq> None) failures)), acc))"

section \<open>What one dispatch does\<close>

text \<open>The contributions: a plan and the rows its Worker returned.\<close>

type_synonym 'f contribution = "'f worker_batch_plan \<times> 'f matrix"

definition contribution_rows :: "'f contribution \<Rightarrow> (nat \<times> 'f list) list" where
  "contribution_rows c = zip (plan_tokens (pl_batch (fst c))) (take (wb_token_count (pl_batch (fst c))) (snd c))"

definition accumulate :: "('f, 'z) torch_ops_scheme \<Rightarrow> 'f contribution list \<Rightarrow> 'f matrix \<Rightarrow> 'f matrix" where
  "accumulate T cs acc = fold (add_row T) (concat (map contribution_rows cs)) acc"

definition successes :: "'f worker_batch_plan list \<Rightarrow> (nat \<Rightarrow> 'f submission) \<Rightarrow> nat list \<Rightarrow> 'f contribution list" where
  "successes plans subs order =
     concat (map (\<lambda>i. case subs i of Filled rows \<Rightarrow> [(plans ! i, rows)] | _ \<Rightarrow> []) order)"

definition failures_of :: "'f worker_batch_plan list \<Rightarrow> (nat \<Rightarrow> 'f submission) \<Rightarrow> 'f failed_worker_batch list" where
  "failures_of plans subs =
     concat (map (\<lambda>i. case subs i of Transport_failed e \<Rightarrow> [\<lparr>fw_plan = plans ! i, fw_error = e\<rparr>] | _ \<Rightarrow> []) [0 ..< length plans])"

definition failure_at :: "'f worker_batch_plan list \<Rightarrow> (nat \<Rightarrow> 'f submission) \<Rightarrow> nat \<Rightarrow> 'f failed_worker_batch option" where
  "failure_at plans subs i =
     (case subs i of Transport_failed e \<Rightarrow> Some \<lparr>fw_plan = plans ! i, fw_error = e\<rparr> | _ \<Rightarrow> None)"

lemma length_add_rows [simp]: "length (fold (add_row T) trs acc) = length acc"
  by (induction trs arbitrary: acc) (auto simp: add_row_def)

text \<open>Everything a task checks before it submits.\<close>

definition dispatchable ::
  "(worker_identity \<rightharpoonup> output_pool) \<Rightarrow> 'f matrix tensor \<Rightarrow> 'f worker_batch_plan \<Rightarrow> bool" where
  "dispatchable pools acc plan \<longleftrightarrow>
     (\<exists>pool. pools (wc_identity (pl_target plan)) = Some pool \<and> validate_accumulator plan pool acc = None) \<and>
     (\<forall>t\<in>set (plan_tokens (pl_batch plan)). t < length (t_data acc))"

lemma validate_accumulator_data [simp]:
  "validate_accumulator plan pool (acc\<lparr>t_data := d\<rparr>) = validate_accumulator plan pool acc"
  by (simp add: validate_accumulator_def)

lemma dispatchable_data: "length d = length (t_data acc) \<Longrightarrow> dispatchable pools (acc\<lparr>t_data := d\<rparr>) = dispatchable pools acc"
  by (simp add: dispatchable_def fun_eq_iff)

lemma dispatch_run_ok:
  assumes "dispatchable pools acc (plans ! i)" and "\<And>e. subs i \<noteq> Unexpected e"
  shows "dispatch_run T pools (plans ! i) (subs i) acc =
     (Inr (failure_at plans subs i), acc\<lparr>t_data := accumulate T (successes plans subs [i]) (t_data acc)\<rparr>)"
proof -
  from assms(1) obtain pool where p: "pools (wc_identity (pl_target (plans ! i))) = Some pool"
    "validate_accumulator (plans ! i) pool acc = None"
    and tok: "list_all (\<lambda>t. t < length (t_data acc)) (plan_tokens (pl_batch (plans ! i)))"
    by (auto simp: dispatchable_def list_all_iff)
  show ?thesis
  proof (cases "subs i")
    case (Filled rows)
    with p tok show ?thesis
      by (simp add: dispatch_run_def dispatch_plan_def index_add_def failure_at_def successes_def accumulate_def contribution_rows_def)
  next
    case (Transport_failed e)
    with p show ?thesis
      by (simp add: dispatch_run_def dispatch_plan_def failure_at_def successes_def accumulate_def)
  qed (use assms(2) in simp)
qed

lemma accumulate_append: "accumulate T (xs @ ys) acc = accumulate T ys (accumulate T xs acc)"
  by (simp add: accumulate_def)

lemma length_accumulate [simp]: "length (accumulate T cs acc) = length acc"
  by (simp add: accumulate_def)

lemma successes_Cons: "successes plans subs (i # is) = successes plans subs [i] @ successes plans subs is"
  by (simp add: successes_def)

lemma dispatch_tasks_ok:
  assumes "\<And>i. i \<in> set order \<Longrightarrow> dispatchable pools acc (plans ! i)" and "\<And>i e. i \<in> set order \<Longrightarrow> subs i \<noteq> Unexpected e"
    and "distinct order"
  shows "dispatch_tasks T pools plans subs order fs acc =
     (Inr (map (\<lambda>i. if i \<in> set order then failure_at plans subs i else fs ! i) [0 ..< length fs]),
      acc\<lparr>t_data := accumulate T (successes plans subs order) (t_data acc)\<rparr>)"
  using assms
proof (induction order arbitrary: fs acc)
  case Nil
  then show ?case by (simp add: successes_def accumulate_def map_nth)
next
  case (Cons i order)
  let ?acc = "acc\<lparr>t_data := accumulate T (successes plans subs [i]) (t_data acc)\<rparr>"
  have run: "dispatch_run T pools (plans ! i) (subs i) acc = (Inr (failure_at plans subs i), ?acc)"
    using Cons.prems(1,2) by (intro dispatch_run_ok) auto
  have "dispatch_tasks T pools plans subs order (fs[i := failure_at plans subs i]) ?acc =
     (Inr (map (\<lambda>j. if j \<in> set order then failure_at plans subs j else fs[i := failure_at plans subs i] ! j) [0 ..< length fs]),
      ?acc\<lparr>t_data := accumulate T (successes plans subs order) (t_data ?acc)\<rparr>)"
    using Cons.prems by (subst Cons.IH) (auto simp: dispatchable_data)
  moreover have "map (\<lambda>j. if j \<in> set order then failure_at plans subs j else fs[i := failure_at plans subs i] ! j) [0 ..< length fs]
     = map (\<lambda>j. if j \<in> set (i # order) then failure_at plans subs j else fs ! j) [0 ..< length fs]"
    by (rule map_cong) (auto simp: nth_list_update)
  moreover have "accumulate T (successes plans subs order) (t_data ?acc) = accumulate T (successes plans subs (i # order)) (t_data acc)"
    by (simp add: successes_Cons [of plans subs i order] accumulate_append)
  ultimately show ?case using run by simp
qed

lemma failures_of_alt:
  "map the (filter (\<lambda>f. f \<noteq> None) (map (failure_at plans subs) xs)) =
   concat (map (\<lambda>i. case subs i of Transport_failed e \<Rightarrow> [\<lparr>fw_plan = plans ! i, fw_error = e\<rparr>] | _ \<Rightarrow> []) xs)"
  by (induction xs) (auto simp: failure_at_def split: submission.splits)

lemma dispatch_once_ok:
  assumes "\<And>p. p \<in> set plans \<Longrightarrow> dispatchable pools acc p" and "\<And>i e. i < length plans \<Longrightarrow> subs i \<noteq> Unexpected e"
    and "mset order = mset [0 ..< length plans]"
  shows "dispatch_once T plans pools acc subs order =
     (Inr (failures_of plans subs), acc\<lparr>t_data := accumulate T (successes plans subs order) (t_data acc)\<rparr>)"
proof -
  have "set order = {0 ..< length plans}" using assms(3) by (metis set_mset_mset set_upt)
  moreover have "distinct order" using assms(3) by (metis distinct_upt mset_eq_imp_distinct_iff)
  ultimately have "dispatch_tasks T pools plans subs order (replicate (length plans) None) acc =
     (Inr (map (failure_at plans subs) [0 ..< length plans]),
      acc\<lparr>t_data := accumulate T (successes plans subs order) (t_data acc)\<rparr>)"
    using assms(1,2) by (subst dispatch_tasks_ok) (auto intro: map_cong)
  then show ?thesis
    by (simp only: dispatch_once_def failures_of_alt failures_of_def prod.case sum.case)
qed

text \<open>Conversely, a dispatch that returns has handled every task this way.\<close>

lemma dispatch_run_Inr:
  assumes "dispatch_run T pools (plans ! i) (subs i) acc = (Inr f, acc')"
  shows "f = failure_at plans subs i \<and> acc' = acc\<lparr>t_data := accumulate T (successes plans subs [i]) (t_data acc)\<rparr> \<and>
     (\<forall>e. subs i \<noteq> Unexpected e)"
  using assms
  by (cases "subs i")
    (auto simp: dispatch_run_def dispatch_plan_def index_add_def failure_at_def successes_def accumulate_def
      contribution_rows_def split: option.splits if_splits)

lemma dispatch_tasks_Inr:
  assumes "dispatch_tasks T pools plans subs order fs acc = (Inr gs, acc')" and "distinct order"
  shows "gs = map (\<lambda>i. if i \<in> set order then failure_at plans subs i else fs ! i) [0 ..< length fs] \<and>
     acc' = acc\<lparr>t_data := accumulate T (successes plans subs order) (t_data acc)\<rparr> \<and>
     (\<forall>i\<in>set order. \<forall>e. subs i \<noteq> Unexpected e)"
  using assms
proof (induction order arbitrary: fs acc)
  case Nil
  then show ?case by (simp add: successes_def accumulate_def map_nth)
next
  case (Cons i order)
  from Cons.prems(1) obtain f acc1 where run: "dispatch_run T pools (plans ! i) (subs i) acc = (Inr f, acc1)"
    and rest: "dispatch_tasks T pools plans subs order (fs[i := f]) acc1 = (Inr gs, acc')"
    by (auto split: prod.splits sum.splits)
  note one = dispatch_run_Inr [where plans = plans and subs = subs and i = i, OF run]
  have "gs = map (\<lambda>j. if j \<in> set order then failure_at plans subs j else fs[i := f] ! j) [0 ..< length (fs[i := f])]"
    and acc': "acc' = acc1\<lparr>t_data := accumulate T (successes plans subs order) (t_data acc1)\<rparr>"
    and un: "\<forall>i\<in>set order. \<forall>e. subs i \<noteq> Unexpected e"
    using Cons.IH [OF rest] Cons.prems(2) by auto
  moreover have "map (\<lambda>j. if j \<in> set order then failure_at plans subs j else fs[i := f] ! j) [0 ..< length (fs[i := f])]
     = map (\<lambda>j. if j \<in> set (i # order) then failure_at plans subs j else fs ! j) [0 ..< length fs]"
    using one by (intro map_cong) (auto simp: nth_list_update)
  moreover have "accumulate T (successes plans subs order) (t_data acc1) = accumulate T (successes plans subs (i # order)) (t_data acc)"
    using one by (simp add: successes_Cons [of plans subs i order] accumulate_append)
  ultimately show ?case using one by simp
qed

lemma dispatch_once_Inr:
  assumes "dispatch_once T plans pools acc subs order = (Inr fs, acc')" and "mset order = mset [0 ..< length plans]"
  shows "fs = failures_of plans subs \<and> acc' = acc\<lparr>t_data := accumulate T (successes plans subs order) (t_data acc)\<rparr> \<and>
     (\<forall>i<length plans. \<forall>e. subs i \<noteq> Unexpected e)"
proof -
  have set: "set order = {0 ..< length plans}" using assms(2) by (metis set_mset_mset set_upt)
  have dist: "distinct order" using assms(2) by (metis distinct_upt mset_eq_imp_distinct_iff)
  from assms(1) obtain gs where run: "dispatch_tasks T pools plans subs order (replicate (length plans) None) acc = (Inr gs, acc')"
    and fs: "fs = map the (filter (\<lambda>f. f \<noteq> None) gs)"
    by (auto simp: dispatch_once_def split: prod.splits sum.splits)
  note res = dispatch_tasks_Inr [OF run dist]
  have "gs = map (\<lambda>i. if i \<in> set order then failure_at plans subs i else replicate (length plans) None ! i)
      [0 ..< length (replicate (length plans) (None :: 'a failed_worker_batch option))]"
    using res by blast
  also have "\<dots> = map (failure_at plans subs) [0 ..< length plans]"
    using set by (intro map_cong) auto
  finally have "fs = failures_of plans subs"
    unfolding fs failures_of_def failures_of_alt [symmetric] by simp
  with res set show ?thesis by auto
qed

text \<open>Row by row, the accumulator is the left fold of the FP32 additions of its contributions.\<close>

definition row_sum :: "('f, 'z) torch_ops_scheme \<Rightarrow> 'f list \<Rightarrow> 'f list list \<Rightarrow> 'f list" where
  "row_sum T start rows = foldl (\<lambda>r x. map2 (f_add T) r (map (f_to T Float32) x)) start rows"

lemma nth_add_rows:
  assumes "t < length acc"
  shows "fold (add_row T) trs acc ! t = row_sum T (acc ! t) (map snd (filter (\<lambda>p. fst p = t) trs))"
  using assms
proof (induction trs arbitrary: acc)
  case (Cons p trs)
  then show ?case by (auto simp: add_row_def row_sum_def nth_list_update)
qed (simp add: row_sum_def)

lemma nth_accumulate:
  assumes "t < length acc"
  shows "accumulate T cs acc ! t =
     row_sum T (acc ! t) (map snd (filter (\<lambda>p. fst p = t) (concat (map contribution_rows cs))))"
  using assms by (simp add: accumulate_def nth_add_rows)

text \<open>Each plan is either a success or a failure.\<close>

lemma mset_successes:
  assumes "mset order = mset order'"
  shows "mset (successes plans subs order) = mset (successes plans subs order')"
proof -
  have "mset (successes plans subs is) = (\<Sum>i\<in>#mset is. mset (case subs i of Filled rows \<Rightarrow> [(plans ! i, rows)] | _ \<Rightarrow> []))" for "is"
    by (induction "is") (auto simp: successes_def)
  with assms show ?thesis by simp
qed

lemma success_or_failure:
  assumes "\<forall>i<length plans. \<forall>e. subs i \<noteq> Unexpected e" and "mset order = mset [0 ..< length plans]"
  shows "mset (map fst (successes plans subs order)) + mset (map fw_plan (failures_of plans subs)) = mset plans"
proof -
  have "mset (map fst (successes plans subs xs)) +
      mset (map fw_plan (concat (map (\<lambda>i. case subs i of Transport_failed e \<Rightarrow> [\<lparr>fw_plan = plans ! i, fw_error = e\<rparr>] | _ \<Rightarrow> []) xs)))
      = mset (map ((!) plans) xs)" if "set xs \<subseteq> {0 ..< length plans}" for xs
    using that
  proof (induction xs)
    case (Cons i xs)
    then have "\<forall>e. subs i \<noteq> Unexpected e" using assms(1) by simp
    with Cons show ?case
      by (cases "subs i") (auto simp: successes_def)
  qed (simp add: successes_def)
  from this [of "[0 ..< length plans]"] show ?thesis
    using mset_successes [OF assms(2), of plans subs] by (simp add: failures_of_def map_nth)
qed

section \<open>Properties\<close>

definition ex_plan :: "nat list \<Rightarrow> int matrix \<Rightarrow> int worker_batch_plan" where
  "ex_plan toks ids = \<lparr>pl_target = ex_worker_a,
     pl_batch = worker_batch_of ex_batch 3 (Some (mk_vector Int64 ''cpu'' toks)) (mk_matrix Int32 ''cpu'' 1 ids)
       (mk_matrix Float32 ''cpu'' 1 (map (\<lambda>_. [1]) ids)) (experts_in (concat ids))\<rparr>"

definition ex_accumulator :: "int matrix tensor" where
  "ex_accumulator = mk_matrix Float32 ''cpu'' 2 [[0, 0], [0, 0], [0, 0]]"

definition ex_plans :: "int worker_batch_plan list" where
  "ex_plans = [ex_plan [0, 2] [[0], [4]], ex_plan [1] [[4]]]"

definition ex_submissions :: "nat \<Rightarrow> int submission" where
  "ex_submissions i = (if i = 0 then Filled [[5, 6], [7, 8]] else Transport_failed (TransportError BUSY True ''''))"

text \<open>
  C7. A dispatch whose plans have matching pools and whose submissions only fail with
  \<open>TransportError\<close> returns: the failures come back in input order, every plan is either one
  success or one failure, and each accumulator row is the FP32 sum, in completion order, of
  exactly the rows that successful plans returned for that token. This holds for every order in
  which the concurrent submissions finish.
\<close>

theorem dispatch_once_exactly_once:
  assumes "\<forall>p\<in>set plans. dispatchable pools acc p" and "\<forall>i<length plans. \<forall>e. subs i \<noteq> Unexpected e"
    and "mset order = mset [0 ..< length plans]"
  shows "\<exists>acc'. dispatch_once T plans pools acc subs order = (Inr (failures_of plans subs), acc') \<and>
     mset (map fst (successes plans subs order)) + mset (map fw_plan (failures_of plans subs)) = mset plans \<and>
     length (t_data acc') = length (t_data acc) \<and>
     (\<forall>t<length (t_data acc). t_data acc' ! t = row_sum T (t_data acc ! t)
        (map snd (filter (\<lambda>p. fst p = t) (concat (map contribution_rows (successes plans subs order))))))"
  using assms success_or_failure [OF assms(2,3)]
  by (subst dispatch_once_ok) (auto simp: nth_accumulate)

theorem dispatch_once_exactly_once_witness:
  "\<exists>acc'. dispatch_once torch_ref ex_plans [wc_identity ex_worker_a \<mapsto> ex_pool] ex_accumulator ex_submissions [1, 0]
     = (Inr [\<lparr>fw_plan = ex_plan [1] [[4]], fw_error = TransportError BUSY True ''''\<rparr>], acc') \<and>
     length (t_data acc') = 3 \<and> t_data acc' ! 2 = [7, 8]"
proof -
  have "\<forall>p\<in>set ex_plans. dispatchable [wc_identity ex_worker_a \<mapsto> ex_pool] ex_accumulator p"
    by (simp add: dispatchable_def validate_accumulator_def ex_plans_def ex_plan_def ex_pool_def ex_accumulator_def
        worker_batch_of_def ex_batch_def wb_hidden_dim_def wb_token_count_def plan_tokens_def)
  moreover have "\<forall>i<length ex_plans. \<forall>e. ex_submissions i \<noteq> Unexpected e" by (simp add: ex_submissions_def)
  moreover have "mset [1, 0] = mset [0 ..< length ex_plans]" by code_simp
  ultimately obtain acc' where acc':
    "dispatch_once torch_ref ex_plans [wc_identity ex_worker_a \<mapsto> ex_pool] ex_accumulator ex_submissions [1, 0]
       = (Inr (failures_of ex_plans ex_submissions), acc')"
    "length (t_data acc') = length (t_data ex_accumulator)"
    "\<forall>t<length (t_data ex_accumulator). t_data acc' ! t = row_sum torch_ref (t_data ex_accumulator ! t)
        (map snd (filter (\<lambda>p. fst p = t) (concat (map contribution_rows (successes ex_plans ex_submissions [1, 0])))))"
    using dispatch_once_exactly_once [of ex_plans _ ex_accumulator ex_submissions "[1, 0]" torch_ref] by blast
  have len: "length (t_data ex_accumulator) = 3" by (simp add: ex_accumulator_def)
  have "row_sum torch_ref (t_data ex_accumulator ! 2)
      (map snd (filter (\<lambda>p. fst p = 2) (concat (map contribution_rows (successes ex_plans ex_submissions [1, 0]))))) = [7, 8]"
    by code_simp
  then have "t_data acc' ! 2 = [7, 8]" using acc'(3) len by simp
  moreover have "failures_of ex_plans ex_submissions = [\<lparr>fw_plan = ex_plan [1] [[4]], fw_error = TransportError BUSY True ''''\<rparr>]"
    by (simp add: failures_of_def ex_plans_def ex_submissions_def)
  ultimately show ?thesis using acc'(1,2) len by auto
qed

end
