(* ===== verification/Execute.thy ===== *)
theory Execute
  imports Dispatch
begin

text \<open>
  \<open>ek-transport/src/expertkit_transport/routing/execute.py\<close>: one routed layer with one bounded
  retry of the unfinished assignments.

  What the function calls and cannot be read here comes in through \<open>layer_env\<close>: the clock
  readings in the order the code takes them, the two calls of the \<open>TopologyProvider\<close>, and, for each
  of the dispatch rounds, the submissions and the completion order of a given number of them. The delay and the deadline
  are integers, so the \<open>isfinite\<close> test reduces to positivity.
\<close>

definition layer_deadline_error :: "string \<Rightarrow> exn" where
  "layer_deadline_error diagnostic = Raised_TransportError (TransportError DEADLINE_EXCEEDED False diagnostic)"

text \<open>\<open>index_select\<close>, \<open>torch.where\<close> and \<open>index_copy_\<close> of one failed contribution.\<close>

definition merge_rows ::
  "nat list \<Rightarrow> bool matrix \<Rightarrow> 'a matrix \<Rightarrow> 'a matrix \<Rightarrow> 'a matrix" where
  "merge_rows tokens valid rows m =
     (let existing = map (\<lambda>t. m ! t) tokens;
          merged = map (\<lambda>(v, new, old). map (\<lambda>(b, x, y). if b then x else y) (zip v (zip new old)))
                     (zip valid (zip rows existing))
      in fold (\<lambda>(t, r) m. m[t := r]) (zip tokens merged) m)"

definition add_failed_worker ::
  "worker_identity \<Rightarrow> int \<Rightarrow> (int, worker_identity set) dict \<Rightarrow> (int, worker_identity set) dict" where
  "add_failed_worker w e d = AList.update e (insert w (case map_of d e of None \<Rightarrow> {} | Some s \<Rightarrow> s)) d"

definition merge_failure ::
  "'f failed_worker_batch \<Rightarrow> int matrix \<times> 'f matrix \<times> (int, worker_identity set) dict \<Rightarrow>
   int matrix \<times> 'f matrix \<times> (int, worker_identity set) dict" where
  "merge_failure failure st =
     (case st of (ids, weights, failed) \<Rightarrow>
       let physical = pl_batch (fw_plan failure);
           tokens = plan_tokens physical;
           valid = map (map (\<lambda>e. 0 \<le> e)) (t_data (wb_expert_ids physical))
       in (merge_rows tokens valid (t_data (wb_expert_ids physical)) ids,
           merge_rows tokens valid (t_data (wb_routing_weights physical)) weights,
           fold (add_failed_worker (wc_identity (pl_target (fw_plan failure)))) (wb_distinct_expert_ids physical) failed))"

definition unfinished_batch ::
  "('f, 'z) torch_ops_scheme \<Rightarrow> 'f routed_layer_batch \<Rightarrow> 'f failed_worker_batch list \<Rightarrow>
   exn + 'f routed_layer_batch \<times> (int, worker_identity set) dict" where
  "unfinished_batch T source failures =
     (if \<exists>f\<in>set failures. \<exists>t\<in>set (plan_tokens (pl_batch (fw_plan f))). \<not> t < dim0 (rb_expert_ids source)
      then Inl IndexError
      else
        let ids0 = map (map (\<lambda>_. - 1)) (t_data (rb_expert_ids source));
            weights0 = map (map (\<lambda>_. f_zero T)) (t_data (rb_routing_weights source));
            (ids, weights, failed) = fold merge_failure failures (ids0, weights0, []);
            result = source\<lparr>rb_expert_ids := (rb_expert_ids source)\<lparr>t_data := ids\<rparr>,
                            rb_routing_weights := (rb_routing_weights source)\<lparr>t_data := weights\<rparr>,
                            rb_distinct_expert_ids := sort (map fst failed)\<rparr>
        in after (routed_layer_batch_post_init result) (Inr (result, failed)))"

definition uses_failed_process :: "'f worker_batch_plan \<Rightarrow> (int, worker_identity set) dict \<Rightarrow> bool" where
  "uses_failed_process plan failed =
     list_ex (\<lambda>e. wc_identity (pl_target plan) \<in> (case map_of failed e of None \<Rightarrow> {} | Some s \<Rightarrow> s))
       (wb_distinct_expert_ids (pl_batch plan))"

definition required_topology_version :: "'f failed_worker_batch list \<Rightarrow> int option" where
  "required_topology_version failures =
     (let required = List.map_filter (\<lambda>f. te_min_topology_version (fw_error f)) failures
      in if required = [] then None else Some (Max (set required)))"

definition unavailable_before_required_version :: "'f failed_worker_batch list \<Rightarrow> int \<Rightarrow> exn" where
  "unavailable_before_required_version failures required_version =
     Raised_TransportError ((TransportError UNAVAILABLE True ''the required replacement topology is not available'')
       \<lparr>te_min_topology_version := Some required_version,
        te_unavailable_expert_ids :=
          sort (remdups (concat (map (\<lambda>f. wb_distinct_expert_ids (pl_batch (fw_plan f))) failures)))\<rparr>)"

record 'f layer_env =
  le_deadline :: int
  le_retry_delay :: int
  le_clock :: "nat \<Rightarrow> int"
  le_current :: "exn + topology_snapshot"
  le_refresh :: "int \<Rightarrow> exn + topology_snapshot"
  le_pools :: "worker_identity \<rightharpoonup> output_pool"
  le_direct :: "'f submission"
  le_first :: "nat \<Rightarrow> 'f submission"
  le_first_order :: "nat \<Rightarrow> nat list"
  le_retry :: "nat \<Rightarrow> 'f submission"
  le_retry_order :: "nat \<Rightarrow> nat list"

definition zeros_for :: "('f, 'z) torch_ops_scheme \<Rightarrow> dtype \<Rightarrow> 'f routed_layer_batch \<Rightarrow> 'f matrix tensor" where
  "zeros_for T d b = mk_matrix d (t_device (rb_hidden_states b)) (rb_hidden_dim b)
     (replicate (rb_token_count b) (replicate (rb_hidden_dim b) (f_zero T)))"

definition cast_output :: "('f, 'z) torch_ops_scheme \<Rightarrow> dtype \<Rightarrow> 'f matrix tensor \<Rightarrow> 'f matrix tensor" where
  "cast_output T d t = t\<lparr>t_dtype := d, t_data := map (map (f_to T d)) (t_data t)\<rparr>"

text \<open>The first round: a finished result, or the failures with the accumulator if there is one.\<close>

definition first_round ::
  "('f, 'z) torch_ops_scheme \<Rightarrow> 'f routed_layer_batch \<Rightarrow> 'f layer_env \<Rightarrow> 'f worker_batch_plan list \<Rightarrow>
   exn + ('f matrix tensor + 'f failed_worker_batch list \<times> 'f matrix tensor option)" where
  "first_round T batch env plans =
     (if length plans = 1 \<and> wb_token_indices (pl_batch (hd plans)) = None
      then (case dispatch_complete_plan (hd plans) (le_direct env) of
              Inl e \<Rightarrow> Inl e
            | Inr (Inl rows) \<Rightarrow> Inr (Inl ((rb_hidden_states batch)\<lparr>t_data := rows\<rparr>))
            | Inr (Inr failure) \<Rightarrow> Inr (Inr ([failure], None)))
      else (case dispatch_once T plans (le_pools env) (zeros_for T Float32 batch) (le_first env) (le_first_order env (length plans)) of
              (Inl e, _) \<Rightarrow> Inl e
            | (Inr [], acc) \<Rightarrow> Inr (Inl (cast_output T (t_dtype (rb_hidden_states batch)) acc))
            | (Inr failures, acc) \<Rightarrow> Inr (Inr (failures, Some acc))))"

definition retry_round ::
  "('f, 'z) torch_ops_scheme \<Rightarrow> 'f routed_layer_batch \<Rightarrow> 'f layer_env \<Rightarrow> 'f worker_batch_plan list \<Rightarrow>
   'f matrix tensor option \<Rightarrow> exn + 'f matrix tensor" where
  "retry_round T batch env plans accumulator =
     (case dispatch_once T plans (le_pools env)
             (case accumulator of Some acc \<Rightarrow> acc | None \<Rightarrow> zeros_for T Float32 batch) (le_retry env) (le_retry_order env (length plans)) of
        (Inl e, _) \<Rightarrow> Inl e
      | (Inr [], acc) \<Rightarrow> Inr (cast_output T (t_dtype (rb_hidden_states batch)) acc)
      | (Inr failures, _) \<Rightarrow> Inl (Raised_TransportError (fw_error (last failures))))"

text \<open>The guards between the second grouping and the second dispatch; clock readings 2 and 3.\<close>

definition retry_delay_check :: "'f layer_env \<Rightarrow> bool \<Rightarrow> 'f failed_worker_batch list \<Rightarrow> exn option" where
  "retry_delay_check env reuses_failed failures =
     (if reuses_failed then
        (if le_deadline env - le_clock env 2 \<le> le_retry_delay env
         then Some (Raised_TransportError (fw_error (last failures)))
         else if le_deadline env - le_clock env 3 \<le> 0
         then Some (layer_deadline_error ''the Routed layer deadline expired before its retry'')
         else None)
      else None)"

definition retry_unfinished ::
  "('f, 'z) torch_ops_scheme \<Rightarrow> 's select_fun \<Rightarrow> 'f routed_layer_batch \<Rightarrow> 'f layer_env \<Rightarrow> topology_snapshot \<Rightarrow>
   'f failed_worker_batch list \<Rightarrow> 'f matrix tensor option \<Rightarrow> 's \<Rightarrow> (exn + 'f matrix tensor) \<times> 's" where
  "retry_unfinished T select batch env snapshot failures accumulator st =
     (case List.find (\<lambda>f. \<not> te_retryable (fw_error f)) failures of
        Some f \<Rightarrow> (Inl (Raised_TransportError (fw_error f)), st)
      | None \<Rightarrow>
       (case unfinished_batch T batch failures of
          Inl e \<Rightarrow> (Inl e, st)
        | Inr (unfinished, failed_workers) \<Rightarrow>
          (case le_refresh env (ts_version snapshot) of
             Inl e \<Rightarrow> (Inl e, st)
           | Inr refreshed \<Rightarrow>
              if le_deadline env - le_clock env 1 \<le> 0
              then (Inl (layer_deadline_error ''the Routed layer deadline expired during Topology refresh''), st)
              else
               (case (case required_topology_version failures of
                        Some v \<Rightarrow> if ts_version refreshed < v then Some (unavailable_before_required_version failures v) else None
                      | None \<Rightarrow> None) of
                  Some e \<Rightarrow> (Inl e, st)
                | None \<Rightarrow>
                  (case group_worker_batches T select unfinished refreshed st {} (Some (map_of failed_workers)) True False of
                     (Inl e, st') \<Rightarrow> (Inl e, st')
                   | (Inr retry_plans, st') \<Rightarrow>
                      (case retry_delay_check env (list_ex (\<lambda>p. uses_failed_process p failed_workers) retry_plans) failures of
                         Some e \<Rightarrow> (Inl e, st')
                       | None \<Rightarrow> (retry_round T batch env retry_plans accumulator, st')))))))"

definition execute_routed_layer ::
  "('f, 'z) torch_ops_scheme \<Rightarrow> 's select_fun \<Rightarrow> 'f routed_layer_batch \<Rightarrow> 'f layer_env \<Rightarrow> 's \<Rightarrow>
   (exn + 'f matrix tensor) \<times> 's" where
  "execute_routed_layer T select batch env st =
     (if le_retry_delay env \<le> 0
      then (Inl (ValueError ''same_worker_retry_delay_seconds must be finite and positive''), st)
      else if le_deadline env - le_clock env 0 \<le> 0
      then (Inl (layer_deadline_error ''the Routed layer deadline expired before dispatch''), st)
      else
       (case le_current env of
          Inl e \<Rightarrow> (Inl e, st)
        | Inr snapshot \<Rightarrow>
         (case group_worker_batches T select batch snapshot st {} None False True of
            (Inl e, st') \<Rightarrow> (Inl e, st')
          | (Inr [], st') \<Rightarrow> (Inr (zeros_for T (t_dtype (rb_hidden_states batch)) batch), st')
          | (Inr plans, st') \<Rightarrow>
             (case first_round T batch env plans of
                Inl e \<Rightarrow> (Inl e, st')
              | Inr (Inl result) \<Rightarrow> (Inr result, st')
              | Inr (Inr (failures, accumulator)) \<Rightarrow>
                  retry_unfinished T select batch env snapshot failures accumulator st'))))"

section \<open>Positions of assignments\<close>

definition pos :: "nat \<times> nat \<times> int \<times> 'f \<Rightarrow> nat \<times> nat" where
  "pos a = (fst a, fst (snd a))"

definition pos_map :: "(nat \<times> nat \<times> int \<times> 'f) list \<Rightarrow> nat \<times> nat \<rightharpoonup> int \<times> 'f" where
  "pos_map L = map_of (map (\<lambda>a. (pos a, snd (snd a))) L)"

lemma pos_map_Some:
  assumes "distinct (map pos L)"
  shows "pos_map L (t, k) = Some (e, w) \<longleftrightarrow> (t, k, e, w) \<in> set L"
proof -
  have "distinct (map fst (map (\<lambda>a. (pos a, snd (snd a))) L))"
    using assms by (simp add: comp_def)
  from map_of_eq_Some_iff [OF this] show ?thesis
    by (force simp: pos_map_def pos_def)
qed

lemma pos_map_None: "pos_map L p = None \<longleftrightarrow> p \<notin> pos ` set L"
  by (simp add: pos_map_def map_of_eq_None_iff image_image)

lemma in_row_assignments:
  "length ws = length es \<Longrightarrow> (t', k, e, w) \<in> set (row_assignments t es ws) \<longleftrightarrow>
     t' = t \<and> k < length es \<and> es ! k = e \<and> ws ! k = w \<and> 0 \<le> e"
proof -
  assume "length ws = length es"
  then have "zip [0 ..< length es] (zip es ws) = map (\<lambda>k. (k, es ! k, ws ! k)) [0 ..< length es]"
    by (intro nth_equalityI) simp_all
  then show ?thesis by (auto simp: row_assignments_def)
qed

lemma distinct_row_pos: "distinct (map pos (row_assignments t es ws))"
proof -
  have "map pos (row_assignments t es ws) =
      map (Pair t \<circ> fst) (filter (\<lambda>(k, e, w). 0 \<le> e) (zip [0 ..< length es] (zip es ws)))"
    by (simp add: row_assignments_def pos_def comp_def)
  also have "\<dots> = map (Pair t) (map fst (filter (\<lambda>(k, e, w). 0 \<le> e) (zip [0 ..< length es] (zip es ws))))"
    by simp
  finally have eq: "map pos (row_assignments t es ws) =
      map (Pair t) (map fst (filter (\<lambda>(k, e, w). 0 \<le> e) (zip [0 ..< length es] (zip es ws))))" .
  have "distinct (map fst (filter (\<lambda>(k, e, w). 0 \<le> e) (zip [0 ..< length es] (zip es ws))))"
    by (intro distinct_map_filter) (simp add: map_fst_zip_take)
  then show ?thesis
    unfolding eq distinct_map [of "Pair t"] by (simp add: inj_on_def)
qed

lemma in_matrix_assignments:
  assumes "length ids = length ts" and "length ws = length ts"
    and "\<And>i. i < length ts \<Longrightarrow> length (ws ! i) = length (ids ! i)"
  shows "(t, k, e, w) \<in> set (matrix_assignments ts ids ws) \<longleftrightarrow>
     (\<exists>i<length ts. ts ! i = t \<and> k < length (ids ! i) \<and> ids ! i ! k = e \<and> ws ! i ! k = w \<and> 0 \<le> e)"
proof -
  have "(t, k, e, w) \<in> set (matrix_assignments ts ids ws) \<longleftrightarrow>
      (\<exists>i<length ts. (t, k, e, w) \<in> set (row_assignments (ts ! i) (ids ! i) (ws ! i)))"
  proof -
    have "zip ts (zip ids ws) = map (\<lambda>i. (ts ! i, ids ! i, ws ! i)) [0 ..< length ts]"
      using assms(1,2) by (intro nth_equalityI) simp_all
    then show ?thesis by (auto simp: matrix_assignments_def)
  qed
  also have "\<dots> \<longleftrightarrow> (\<exists>i<length ts. t = ts ! i \<and> k < length (ids ! i) \<and> ids ! i ! k = e \<and> ws ! i ! k = w \<and> 0 \<le> e)"
    using in_row_assignments [OF assms(3)] by (metis (no_types, lifting))
  finally show ?thesis by auto
qed

lemma distinct_matrix_pos:
  assumes "distinct ts"
  shows "distinct (map pos (matrix_assignments ts ids ws))"
  using assms
proof (induction ts arbitrary: ids ws)
  case (Cons t ts)
  show ?case
  proof (cases "ids = [] \<or> ws = []")
    case True
    then show ?thesis by (auto simp: matrix_assignments_def)
  next
    case False
    then obtain es ids' wr ws' where [simp]: "ids = es # ids'" "ws = wr # ws'" by (metis neq_Nil_conv)
    have B: "fst p \<in> set ts" if "p \<in> set (map pos (matrix_assignments ts ids' ws'))" for p
      using that by (auto simp: matrix_assignments_def pos_def row_assignments_def dest: set_zip_leftD)
    have A: "fst p = t" if "p \<in> set (map pos (row_assignments t es wr))" for p
      using that by (auto simp: pos_def row_assignments_def)
    have "set (map pos (row_assignments t es wr)) \<inter> set (map pos (matrix_assignments ts ids' ws')) = {}"
      using A B Cons.prems by (metis disjoint_iff distinct.simps(2))
    moreover have "matrix_assignments (t # ts) ids ws = row_assignments t es wr @ matrix_assignments ts ids' ws'"
      by (simp add: matrix_assignments_def)
    moreover have "distinct (map pos (matrix_assignments ts ids' ws'))"
      using Cons by simp
    ultimately show ?thesis
      using distinct_row_pos [of t es wr] by (simp only: map_append distinct_append)
  qed
qed (simp add: matrix_assignments_def)

lemma rb_assignments_in:
  assumes "matrix_ok (rb_expert_ids b)" "matrix_ok (rb_routing_weights b)"
    "t_shape (rb_routing_weights b) = t_shape (rb_expert_ids b)" "dim0 (rb_expert_ids b) = rb_token_count b"
  shows "(t, k, e, w) \<in> set (rb_assignments b) \<longleftrightarrow>
     t < rb_token_count b \<and> k < rb_top_k b \<and> t_data (rb_expert_ids b) ! t ! k = e \<and> t_data (rb_routing_weights b) ! t ! k = w \<and> 0 \<le> e"
    and "distinct (map pos (rb_assignments b))"
proof -
  have rows: "length (t_data (rb_expert_ids b) ! i) = rb_top_k b \<and> length (t_data (rb_routing_weights b) ! i) = rb_top_k b"
    if "i < rb_token_count b" for i
    using assms that by (simp add: matrix_ok_def rb_top_k_def)
  have "length (t_data (rb_expert_ids b)) = rb_token_count b" "length (t_data (rb_routing_weights b)) = rb_token_count b"
    using assms by (simp_all add: matrix_ok_def)
  then show "(t, k, e, w) \<in> set (rb_assignments b) \<longleftrightarrow>
     t < rb_token_count b \<and> k < rb_top_k b \<and> t_data (rb_expert_ids b) ! t ! k = e \<and> t_data (rb_routing_weights b) ! t ! k = w \<and> 0 \<le> e"
    unfolding rb_assignments_def using rows by (subst in_matrix_assignments) auto
  show "distinct (map pos (rb_assignments b))"
    unfolding rb_assignments_def by (rule distinct_matrix_pos) simp
qed

lemma wb_assignments_in:
  assumes "wb_values_ok b"
  shows "(t, k, e, w) \<in> set (wb_assignments b) \<longleftrightarrow>
     (\<exists>i<wb_token_count b. t_data (all_token_indices b) ! i = t \<and> k < wb_top_k b \<and>
        t_data (wb_expert_ids b) ! i ! k = e \<and> t_data (wb_routing_weights b) ! i ! k = w \<and> 0 \<le> e)"
    and "distinct (map pos (wb_assignments b))"
proof -
  note sh = wb_values_ok_shapes [OF assms]
  have rows: "length (t_data (wb_expert_ids b) ! i) = wb_top_k b \<and> length (t_data (wb_routing_weights b) ! i) = wb_top_k b"
    if "i < wb_token_count b" for i
    using assms that sh by (simp add: wb_values_ok_def matrix_ok_def wb_top_k_def)
  with sh show "(t, k, e, w) \<in> set (wb_assignments b) \<longleftrightarrow>
     (\<exists>i<wb_token_count b. t_data (all_token_indices b) ! i = t \<and> k < wb_top_k b \<and>
        t_data (wb_expert_ids b) ! i ! k = e \<and> t_data (wb_routing_weights b) ! i ! k = w \<and> 0 \<le> e)"
    unfolding wb_assignments_def by (subst in_matrix_assignments) auto
  show "distinct (map pos (wb_assignments b))"
    unfolding wb_assignments_def using sh(9) by (rule distinct_matrix_pos)
qed

lemma plan_tokens_all: "wb_values_ok b \<Longrightarrow> plan_tokens b = t_data (all_token_indices b)"
  by (simp add: plan_tokens_def all_token_indices_def wb_token_count_def split: option.splits)

section \<open>The unfinished assignments\<close>

lemma fold_row_update_other:
  "t \<notin> set ts \<Longrightarrow> fold (\<lambda>(t, r) m. m[t := r]) (zip ts rs) m ! t = m ! t"
proof (induction ts arbitrary: rs m)
  case (Cons s ts)
  then show ?case by (cases rs) auto
qed simp

lemma fold_row_update_nth:
  assumes "distinct ts" and "length rs = length ts" and "\<forall>t\<in>set ts. t < length m" and "i < length ts"
  shows "fold (\<lambda>(t, r) m. m[t := r]) (zip ts rs) m ! (ts ! i) = rs ! i"
  using assms
proof (induction ts arbitrary: rs m i)
  case (Cons s ts)
  then obtain r rs' where [simp]: "rs = r # rs'" by (cases rs) auto
  show ?case
  proof (cases i)
    case 0
    then show ?thesis using Cons.prems by (simp add: fold_row_update_other)
  next
    case (Suc j)
    then show ?thesis using Cons.prems by (simp add: Cons.IH)
  qed
qed simp

lemma length_fold_row_update: "length (fold (\<lambda>(t, r) m. m[t := r]) xs m) = length m"
  by (induction xs arbitrary: m) auto

definition merged_row :: "bool list \<Rightarrow> 'a list \<Rightarrow> 'a list \<Rightarrow> 'a list" where
  "merged_row v new old = map (\<lambda>(b, x, y). if b then x else y) (zip v (zip new old))"

lemma merged_row_nth:
  "length v = k \<Longrightarrow> length new = k \<Longrightarrow> length old = k \<Longrightarrow> j < k \<Longrightarrow>
   merged_row v new old ! j = (if v ! j then new ! j else old ! j)"
  by (simp add: merged_row_def)

lemma merge_rows_props:
  assumes "distinct ts" and "length valid = length ts" and "length rows = length ts" and "\<forall>t\<in>set ts. t < length m"
  shows "i < length ts \<Longrightarrow> merge_rows ts valid rows m ! (ts ! i) = merged_row (valid ! i) (rows ! i) (m ! (ts ! i))"
    and "t \<notin> set ts \<Longrightarrow> merge_rows ts valid rows m ! t = m ! t"
    and "length (merge_rows ts valid rows m) = length m"
proof -
  have eq: "merge_rows ts valid rows m = fold (\<lambda>(t, r) m. m[t := r])
      (zip ts (map (\<lambda>(v, new, old). merged_row v new old) (zip valid (zip rows (map ((!) m) ts))))) m"
    by (simp add: merge_rows_def Let_def merged_row_def)
  show "merge_rows ts valid rows m ! (ts ! i) = merged_row (valid ! i) (rows ! i) (m ! (ts ! i))" if "i < length ts"
    unfolding eq using assms that by (subst fold_row_update_nth) auto
  show "merge_rows ts valid rows m ! t = m ! t" if "t \<notin> set ts"
    unfolding eq by (rule fold_row_update_other [OF that])
  show "length (merge_rows ts valid rows m) = length m"
    unfolding eq by (rule length_fold_row_update)
qed

text \<open>The matrices that hold exactly the assignments \<open>L\<close>.\<close>

definition holds_rows :: "nat \<Rightarrow> nat \<Rightarrow> 'a matrix \<Rightarrow> bool" where
  "holds_rows n k m \<longleftrightarrow> length m = n \<and> (\<forall>t<n. length (m ! t) = k)"

definition holds :: "nat \<Rightarrow> nat \<Rightarrow> 'f \<Rightarrow> (nat \<times> nat \<times> int \<times> 'f) list \<Rightarrow> int matrix \<Rightarrow> 'f matrix \<Rightarrow> bool" where
  "holds n k z L ids ws \<longleftrightarrow> holds_rows n k ids \<and> holds_rows n k ws \<and>
     (\<forall>t<n. \<forall>j<k. (ids ! t ! j, ws ! t ! j) = (case pos_map L (t, j) of Some p \<Rightarrow> p | None \<Rightarrow> (- 1, z)))"

lemma holds_rows_merge:
  assumes "holds_rows n k m" and "distinct ts" and "length valid = length ts" and "length rows = length ts"
    and "\<forall>t\<in>set ts. t < n" and "\<forall>i<length ts. length (valid ! i) = k \<and> length (rows ! i) = k"
  shows "holds_rows n k (merge_rows ts valid rows m)"
proof -
  have len: "\<forall>t\<in>set ts. t < length m" using assms(1,5) by (simp add: holds_rows_def)
  note props = merge_rows_props [OF assms(2-4) len]
  have "length (merge_rows ts valid rows m ! t) = k" if "t < n" for t
  proof (cases "t \<in> set ts")
    case True
    then obtain i where "i < length ts" "t = ts ! i" by (metis in_set_conv_nth)
    with props(1) assms(1,5,6) show ?thesis by (simp add: merged_row_def holds_rows_def)
  qed (use props(2) assms(1) that in \<open>simp add: holds_rows_def\<close>)
  with props(3) assms(1) show ?thesis by (simp add: holds_rows_def)
qed

lemma pos_map_append:
  "distinct (map pos (L @ M)) \<Longrightarrow> pos_map (L @ M) p = (case pos_map M p of Some x \<Rightarrow> Some x | None \<Rightarrow> pos_map L p)"
proof (cases "pos_map M p")
  case (Some x)
  assume d: "distinct (map pos (L @ M))"
  from Some have "p \<in> pos ` set M" by (metis option.distinct(1) pos_map_None)
  with d have "pos_map L p = None" by (auto simp: pos_map_None)
  with Some show ?thesis by (simp add: pos_map_def map_add_def)
qed (simp add: pos_map_def map_add_def split: option.splits)

lemma holds_merge:
  assumes st: "holds n k z L ids ws" and ok: "wb_values_ok b" and k: "wb_top_k b = k"
    and n: "dim0 (wb_hidden_states b) = n" and d: "distinct (map pos (L @ wb_assignments b))"
  defines "valid \<equiv> map (map (\<lambda>e. 0 \<le> e)) (t_data (wb_expert_ids b))"
  shows "holds n k z (L @ wb_assignments b) (merge_rows (plan_tokens b) valid (t_data (wb_expert_ids b)) ids)
     (merge_rows (plan_tokens b) valid (t_data (wb_routing_weights b)) ws)"
proof -
  note sh = wb_values_ok_shapes [OF ok]
  let ?ts = "t_data (all_token_indices b)"
  have ts: "plan_tokens b = ?ts" by (rule plan_tokens_all [OF ok])
  have bound: "\<forall>t\<in>set ?ts. t < n" using sh(7) n by simp
  have rows: "\<forall>i<length ?ts. length (valid ! i) = k \<and> length (t_data (wb_expert_ids b) ! i) = k \<and>
      length (t_data (wb_routing_weights b) ! i) = k"
    using ok sh k by (simp add: valid_def wb_values_ok_def matrix_ok_def wb_top_k_def)
  have lens: "length valid = length ?ts" "length (t_data (wb_expert_ids b)) = length ?ts"
    "length (t_data (wb_routing_weights b)) = length ?ts" using sh by (simp_all add: valid_def)
  have hr: "holds_rows n k ids" "holds_rows n k ws" using st by (simp_all add: holds_def)
  then have lm: "\<forall>t\<in>set ?ts. t < length ids" "\<forall>t\<in>set ?ts. t < length ws" using bound by (simp_all add: holds_rows_def)
  note I = merge_rows_props [OF sh(9) lens(1,2) lm(1)] and W = merge_rows_props [OF sh(9) lens(1,3) lm(2)]
  have entry: "(merge_rows ?ts valid (t_data (wb_expert_ids b)) ids ! t ! j, merge_rows ?ts valid (t_data (wb_routing_weights b)) ws ! t ! j)
      = (case pos_map (L @ wb_assignments b) (t, j) of Some p \<Rightarrow> p | None \<Rightarrow> (- 1, z))" if t: "t < n" and j: "j < k" for t j
  proof -
    have old: "(ids ! t ! j, ws ! t ! j) = (case pos_map L (t, j) of Some p \<Rightarrow> p | None \<Rightarrow> (- 1, z))"
      using st t j by (simp add: holds_def)
    note app = pos_map_append [OF d, of "(t, j)"]
    have dw: "distinct (map pos (wb_assignments b))" by (rule wb_assignments_in(2) [OF ok])
    show ?thesis
    proof (cases "t \<in> set ?ts")
      case False
      then have "pos_map (wb_assignments b) (t, j) = None"
        using wb_assignments_in(1) [OF ok] sh(4) by (fastforce simp: pos_map_None pos_def)
      with False old app I(2) W(2) show ?thesis by simp
    next
      case True
      then obtain i where i: "i < length ?ts" "t = ?ts ! i" by (metis in_set_conv_nth)
      have row: "merge_rows ?ts valid (t_data (wb_expert_ids b)) ids ! t ! j = (if valid ! i ! j then t_data (wb_expert_ids b) ! i ! j else ids ! t ! j)"
        "merge_rows ?ts valid (t_data (wb_routing_weights b)) ws ! t ! j = (if valid ! i ! j then t_data (wb_routing_weights b) ! i ! j else ws ! t ! j)"
        using I(1) [OF i(1)] W(1) [OF i(1)] rows i j hr t by (simp_all add: merged_row_nth [where k = k] holds_rows_def)
      have v: "valid ! i ! j \<longleftrightarrow> 0 \<le> t_data (wb_expert_ids b) ! i ! j"
        using i lens rows j by (simp add: valid_def)
      have here: "pos_map (wb_assignments b) (t, j) = Some (e, w) \<longleftrightarrow>
          t_data (wb_expert_ids b) ! i ! j = e \<and> t_data (wb_routing_weights b) ! i ! j = w \<and> 0 \<le> e" for e w
        using pos_map_Some [OF dw] wb_assignments_in(1) [OF ok, of t j e w] i sh(4,9) j k
        by (auto simp: nth_eq_iff_index_eq)
      show ?thesis
      proof (cases "valid ! i ! j")
        case True
        then have "pos_map (wb_assignments b) (t, j) = Some (t_data (wb_expert_ids b) ! i ! j, t_data (wb_routing_weights b) ! i ! j)"
          using here v by simp
        with True row app show ?thesis by simp
      next
        case False
        then have "pos_map (wb_assignments b) (t, j) = None"
          using here v by (metis not_Some_eq surj_pair)
        with False row app old show ?thesis by simp
      qed
    qed
  qed
  have "holds_rows n k (merge_rows ?ts valid (t_data (wb_expert_ids b)) ids)"
    "holds_rows n k (merge_rows ?ts valid (t_data (wb_routing_weights b)) ws)"
    using hr sh(9) lens bound rows by (auto intro!: holds_rows_merge)
  with entry show ?thesis by (simp add: holds_def ts)
qed

abbreviation failure_batch :: "'f failed_worker_batch \<Rightarrow> 'f worker_batch" where
  "failure_batch f \<equiv> pl_batch (fw_plan f)"

lemma add_failed_workers:
  assumes "dict_ok d"
  shows "dict_ok (fold (add_failed_worker w) es d)"
    and "fst ` set (fold (add_failed_worker w) es d) = fst ` set d \<union> set es"
    and "x \<in> (case map_of (fold (add_failed_worker w) es d) e of None \<Rightarrow> {} | Some s \<Rightarrow> s) \<longleftrightarrow>
         x \<in> (case map_of d e of None \<Rightarrow> {} | Some s \<Rightarrow> s) \<or> (e \<in> set es \<and> x = w)"
  using assms
proof (induction es arbitrary: d)
  case (Cons a es)
  {
    case 1
    then show ?case using Cons.IH(1) [of "add_failed_worker w a d"] by (simp add: add_failed_worker_def)
  next
    case 2
    have "fst ` set (add_failed_worker w a d) = insert a (fst ` set d)"
      unfolding add_failed_worker_def by (simp add: dom_update flip: dom_map_of_conv_image_fst)
    with 2 Cons.IH(2) [of "add_failed_worker w a d"] show ?case by (simp add: add_failed_worker_def)
  next
    case 3
    then show ?case using Cons.IH(3) [of "add_failed_worker w a d"]
      by (auto simp: add_failed_worker_def split: option.splits)
  }
qed auto

definition plan_fits :: "nat \<Rightarrow> nat \<Rightarrow> 'f worker_batch_plan \<Rightarrow> bool" where
  "plan_fits n k p \<longleftrightarrow> wb_values_ok (pl_batch p) \<and> wb_top_k (pl_batch p) = k \<and> dim0 (wb_hidden_states (pl_batch p)) = n"

lemma merge_failures:
  assumes "\<forall>f\<in>set fs. plan_fits n k (fw_plan f)" and "holds n k z L ids ws" and "dict_ok failed"
    and "distinct (map pos (L @ concat (map (\<lambda>f. wb_assignments (failure_batch f)) fs)))"
  shows "\<exists>ids' ws' failed'. fold merge_failure fs (ids, ws, failed) = (ids', ws', failed') \<and>
     holds n k z (L @ concat (map (\<lambda>f. wb_assignments (failure_batch f)) fs)) ids' ws' \<and> dict_ok failed' \<and>
     fst ` set failed' = fst ` set failed \<union> (\<Union>f\<in>set fs. set (wb_distinct_expert_ids (failure_batch f))) \<and>
     (\<forall>e x. x \<in> (case map_of failed' e of None \<Rightarrow> {} | Some s \<Rightarrow> s) \<longleftrightarrow>
        x \<in> (case map_of failed e of None \<Rightarrow> {} | Some s \<Rightarrow> s) \<or>
        (\<exists>f\<in>set fs. e \<in> set (wb_distinct_expert_ids (failure_batch f)) \<and> x = wc_identity (pl_target (fw_plan f))))"
  using assms
proof (induction fs arbitrary: L ids ws failed)
  case (Cons f fs)
  let ?b = "failure_batch f" and ?v = "map (map (\<lambda>e. 0 \<le> e)) (t_data (wb_expert_ids (failure_batch f)))"
  let ?ids = "merge_rows (plan_tokens ?b) ?v (t_data (wb_expert_ids ?b)) ids"
  let ?ws = "merge_rows (plan_tokens ?b) ?v (t_data (wb_routing_weights ?b)) ws"
  let ?failed = "fold (add_failed_worker (wc_identity (pl_target (fw_plan f)))) (wb_distinct_expert_ids ?b) failed"
  have fits: "wb_values_ok ?b" "wb_top_k ?b = k" "dim0 (wb_hidden_states ?b) = n"
    using Cons.prems(1) by (simp_all add: plan_fits_def)
  have "holds n k z (L @ wb_assignments ?b) ?ids ?ws"
    using Cons.prems(2) fits Cons.prems(4) by (intro holds_merge) auto
  moreover note afw = add_failed_workers [OF Cons.prems(3), where w = "wc_identity (pl_target (fw_plan f))"
      and es = "wb_distinct_expert_ids ?b"]
  ultimately obtain ids' ws' failed' where ih: "fold merge_failure fs (?ids, ?ws, ?failed) = (ids', ws', failed')"
    "holds n k z (L @ wb_assignments ?b @ concat (map (\<lambda>f. wb_assignments (failure_batch f)) fs)) ids' ws'" "dict_ok failed'"
    "fst ` set failed' = fst ` set ?failed \<union> (\<Union>f\<in>set fs. set (wb_distinct_expert_ids (failure_batch f)))"
    "\<forall>e x. x \<in> (case map_of failed' e of None \<Rightarrow> {} | Some s \<Rightarrow> s) \<longleftrightarrow>
        x \<in> (case map_of ?failed e of None \<Rightarrow> {} | Some s \<Rightarrow> s) \<or>
        (\<exists>f\<in>set fs. e \<in> set (wb_distinct_expert_ids (failure_batch f)) \<and> x = wc_identity (pl_target (fw_plan f)))"
    using Cons.IH [of "L @ wb_assignments ?b" ?ids ?ws ?failed] Cons.prems(1,4) by auto
  have "fold merge_failure (f # fs) (ids, ws, failed) = (ids', ws', failed')"
    using ih(1) by (simp add: merge_failure_def Let_def)
  moreover have "fst ` set failed' = fst ` set failed \<union> (\<Union>f\<in>set (f # fs). set (wb_distinct_expert_ids (failure_batch f)))"
    using ih(4) afw(2) by auto
  ultimately show ?case
    using ih(2,3,5) afw(3) by (intro exI [where x = ids'] exI [where x = ws'] exI [where x = failed']) auto
qed simp

lemma holds_start:
  assumes "rb_values_ok b"
  shows "holds (rb_token_count b) (rb_top_k b) z [] (map (map (\<lambda>_. - 1)) (t_data (rb_expert_ids b)))
     (map (map (\<lambda>_. z)) (t_data (rb_routing_weights b)))"
  using rb_values_ok_shapes [OF assms]
  by (simp add: holds_def holds_rows_def rb_top_k_def pos_map_def)

abbreviation expert_of :: "nat \<times> nat \<times> int \<times> 'f \<Rightarrow> int" where
  "expert_of a \<equiv> fst (snd (snd a))"

lemma in_flatten:
  "matrix_ok m \<Longrightarrow> x \<in> set (flatten m) \<longleftrightarrow> (\<exists>i<dim0 m. \<exists>j<dim1 m. t_data m ! i ! j = x)"
proof -
  assume "matrix_ok m"
  then have len: "length (t_data m) = dim0 m" and rows: "\<And>i. i < dim0 m \<Longrightarrow> length (t_data m ! i) = dim1 m"
    by (auto simp: matrix_ok_def)
  have "set (t_data m) = (!) (t_data m) ` {0 ..< dim0 m}"
    using nth_image [of "dim0 m" "t_data m"] len by simp
  then have "x \<in> set (flatten m) \<longleftrightarrow> (\<exists>i<dim0 m. x \<in> set (t_data m ! i))"
    by (auto simp: flatten_def)
  also have "\<dots> \<longleftrightarrow> (\<exists>i<dim0 m. \<exists>j<dim1 m. t_data m ! i ! j = x)"
    using rows by (metis in_set_conv_nth)
  finally show ?thesis .
qed

lemma wb_experts:
  assumes "wb_values_ok b"
  shows "set (wb_distinct_expert_ids b) = expert_of ` set (wb_assignments b)"
proof -
  have "matrix_ok (wb_expert_ids b)" and "wb_distinct_expert_ids b = experts_in (flatten (wb_expert_ids b))"
    using assms by (simp_all add: wb_values_ok_def)
  then have "e \<in> set (wb_distinct_expert_ids b) \<longleftrightarrow> (\<exists>t k w. (t, k, e, w) \<in> set (wb_assignments b))" for e
    using wb_values_ok_shapes(1) [OF assms]
    by (auto simp: experts_in_props in_flatten wb_assignments_in [OF assms] wb_top_k_def)
  then show ?thesis by (force simp: image_iff)
qed

lemma rb_experts:
  assumes "matrix_ok (rb_expert_ids b)" "matrix_ok (rb_routing_weights b)"
    "t_shape (rb_routing_weights b) = t_shape (rb_expert_ids b)" "dim0 (rb_expert_ids b) = rb_token_count b"
  shows "{e \<in> set (flatten (rb_expert_ids b)). 0 \<le> e} = expert_of ` set (rb_assignments b)"
proof -
  have "e \<in> set (flatten (rb_expert_ids b)) \<and> 0 \<le> e \<longleftrightarrow> (\<exists>t k w. (t, k, e, w) \<in> set (rb_assignments b))" for e
    using assms(4) by (auto simp: in_flatten [OF assms(1)] rb_assignments_in [OF assms] rb_top_k_def)
  then show ?thesis by (force simp: image_iff)
qed

lemma wb_assignment_bounds:
  "wb_values_ok b \<Longrightarrow> (t, k, e, w) \<in> set (wb_assignments b) \<Longrightarrow> t < dim0 (wb_hidden_states b) \<and> k < wb_top_k b \<and> 0 \<le> e"
  using wb_values_ok_shapes(4,7) by (fastforce simp: wb_assignments_in)

lemma holds_assignments:
  assumes h: "holds n k z L ids ws" and d: "distinct (map pos L)"
    and L: "\<And>t j e w. (t, j, e, w) \<in> set L \<Longrightarrow> t < n \<and> j < k \<and> 0 \<le> e"
    and b: "matrix_ok (rb_expert_ids b)" "matrix_ok (rb_routing_weights b)"
      "t_shape (rb_routing_weights b) = t_shape (rb_expert_ids b)" "dim0 (rb_expert_ids b) = rb_token_count b"
    and data: "t_data (rb_expert_ids b) = ids" "t_data (rb_routing_weights b) = ws" "rb_token_count b = n" "rb_top_k b = k"
  shows "mset (rb_assignments b) = mset L"
proof -
  have "(t, j, e, w) \<in> set (rb_assignments b) \<longleftrightarrow> (t, j, e, w) \<in> set L" for t j e w
  proof -
    have "(t, j, e, w) \<in> set (rb_assignments b) \<longleftrightarrow> t < n \<and> j < k \<and> (ids ! t ! j, ws ! t ! j) = (e, w) \<and> 0 \<le> e"
      using rb_assignments_in(1) [OF b] data by auto
    also have "\<dots> \<longleftrightarrow> pos_map L (t, j) = Some (e, w)"
    proof (cases "pos_map L (t, j)")
      case None
      moreover have "(ids ! t ! j, ws ! t ! j) = (case pos_map L (t, j) of Some p \<Rightarrow> p | None \<Rightarrow> (- 1, z))"
        if "t < n" "j < k" using h that by (simp add: holds_def)
      ultimately show ?thesis by auto
    next
      case (Some p)
      then have "t < n \<and> j < k \<and> 0 \<le> fst p"
        using L pos_map_Some [OF d] by (metis prod.collapse)
      with Some h show ?thesis by (auto simp: holds_def)
    qed
    finally show ?thesis by (simp add: pos_map_Some [OF d])
  qed
  then have "set (rb_assignments b) = set L" by (auto simp: set_eq_iff)
  moreover have "distinct (rb_assignments b)" using rb_assignments_in(2) [OF b] by (simp add: distinct_map)
  moreover have "distinct L" using d by (simp add: distinct_map)
  ultimately show ?thesis by (simp add: set_eq_iff_mset_eq_distinct)
qed

text \<open>What the batch built for the retry keeps of its source.\<close>

definition unfinished_of :: "'f routed_layer_batch \<Rightarrow> 'f failed_worker_batch list \<Rightarrow> 'f routed_layer_batch \<Rightarrow>
   (int, worker_identity set) dict \<Rightarrow> bool" where
  "unfinished_of b fs u failed \<longleftrightarrow> rb_values_ok u \<and>
     mset (rb_assignments u) = mset (concat (map (\<lambda>f. wb_assignments (failure_batch f)) fs)) \<and>
     rb_instance_id u = rb_instance_id b \<and> rb_layer_id u = rb_layer_id b \<and> rb_hidden_states u = rb_hidden_states b \<and>
     rb_top_k u = rb_top_k b \<and>
     (\<forall>e x. x \<in> (case map_of failed e of None \<Rightarrow> {} | Some s \<Rightarrow> s) \<longleftrightarrow>
        (\<exists>f\<in>set fs. e \<in> set (wb_distinct_expert_ids (failure_batch f)) \<and> x = wc_identity (pl_target (fw_plan f))))"

lemma unfinished_distinct_ids:
  assumes "\<forall>f\<in>set fs. plan_fits n k (fw_plan f)" and "dict_ok failed"
    and "fst ` set failed = (\<Union>f\<in>set fs. set (wb_distinct_expert_ids (failure_batch f)))"
  shows "distinct_ids_ok (sort (map fst failed))"
    and "set (sort (map fst failed)) = expert_of ` set (concat (map (\<lambda>f. wb_assignments (failure_batch f)) fs))"
proof -
  have "0 \<le> e \<and> e \<le> uint32_max" if "e \<in> fst ` set failed" for e
  proof -
    from that obtain f where "f \<in> set fs" and e: "e \<in> set (wb_distinct_expert_ids (failure_batch f))"
      unfolding assms(3) by blast
    then have "worker_batch_post_init (failure_batch f) = None"
      using assms(1) wb_values_ok_post_init by (auto simp: plan_fits_def)
    then have "distinct_ids_ok (wb_distinct_expert_ids (failure_batch f))" by (simp add: worker_batch_post_init_iff)
    with e show ?thesis by (simp add: distinct_ids_ok_def)
  qed
  then show "distinct_ids_ok (sort (map fst failed))"
    using assms(2) by (auto simp: distinct_ids_ok_def strict_sorted_iff dict_ok_def)
  show "set (sort (map fst failed)) = expert_of ` set (concat (map (\<lambda>f. wb_assignments (failure_batch f)) fs))"
  proof -
    have "set (wb_distinct_expert_ids (failure_batch f)) = expert_of ` set (wb_assignments (failure_batch f))" if "f \<in> set fs" for f
      using assms(1) that by (intro wb_experts) (simp add: plan_fits_def)
    with assms(3) show ?thesis by (simp add: image_UN)
  qed
qed

lemma unfinished_batch_ok:
  assumes ok: "rb_values_ok b" and fits: "\<forall>f\<in>set fs. plan_fits (rb_token_count b) (rb_top_k b) (fw_plan f)"
    and d: "distinct (map pos (concat (map (\<lambda>f. wb_assignments (failure_batch f)) fs)))"
  shows "\<exists>u failed. unfinished_batch T b fs = Inr (u, failed) \<and> unfinished_of b fs u failed"
proof -
  let ?L = "concat (map (\<lambda>f. wb_assignments (failure_batch f)) fs)" and ?n = "rb_token_count b" and ?k = "rb_top_k b"
  note sh = rb_values_ok_shapes [OF ok]
  note merged = merge_failures [OF fits holds_start [OF ok, where z = "f_zero T"] dict_ok_Nil, simplified append_Nil
      list.set(1) image_empty sup_bot_left map_of.simps(1) option.case(1) empty_iff simp_thms, OF d]
  then obtain ids ws failed where
    m: "fold merge_failure fs (map (map (\<lambda>_. - 1)) (t_data (rb_expert_ids b)), map (map (\<lambda>_. f_zero T)) (t_data (rb_routing_weights b)), [])
       = (ids, ws, failed)" "holds ?n ?k (f_zero T) ?L ids ws" "dict_ok failed"
     "fst ` set failed = (\<Union>f\<in>set fs. set (wb_distinct_expert_ids (failure_batch f)))"
     "\<forall>e x. x \<in> (case map_of failed e of None \<Rightarrow> {} | Some s \<Rightarrow> s) \<longleftrightarrow>
        (\<exists>f\<in>set fs. e \<in> set (wb_distinct_expert_ids (failure_batch f)) \<and> x = wc_identity (pl_target (fw_plan f)))"
    by (elim exE conjE) blast
  let ?u = "b\<lparr>rb_expert_ids := (rb_expert_ids b)\<lparr>t_data := ids\<rparr>, rb_routing_weights := (rb_routing_weights b)\<lparr>t_data := ws\<rparr>,
     rb_distinct_expert_ids := sort (map fst failed)\<rparr>"
  note ds = unfinished_distinct_ids [OF fits m(3,4)]
  have pre: "routed_layer_batch_post_init b = None" using ok by (simp add: rb_values_ok_def)
  have u: "matrix_ok (rb_expert_ids ?u)" "matrix_ok (rb_routing_weights ?u)"
    "t_shape (rb_routing_weights ?u) = t_shape (rb_expert_ids ?u)" "dim0 (rb_expert_ids ?u) = rb_token_count ?u"
    using m(2) pre sh(3) by (auto simp: holds_def holds_rows_def matrix_ok_def rb_top_k_def rb_token_count_def
        routed_layer_batch_post_init_iff routing_meta_ok_def in_set_conv_nth)
  have post: "routed_layer_batch_post_init ?u = None"
    using pre ds(1) by (simp add: routed_layer_batch_post_init_iff routing_meta_ok_def rb_token_count_def)
  have "t < ?n \<and> j < ?k \<and> 0 \<le> e" if mem: "(t, j, e, w) \<in> set ?L" for t j e w
  proof -
    from mem obtain f where "f \<in> set fs" "(t, j, e, w) \<in> set (wb_assignments (failure_batch f))" by auto
    with fits wb_assignment_bounds show ?thesis by (fastforce simp: plan_fits_def)
  qed
  then have asg: "mset (rb_assignments ?u) = mset ?L"
    by (intro holds_assignments [OF m(2) d _ u]) (simp_all add: rb_token_count_def rb_top_k_def)
  have "rb_distinct_expert_ids ?u = experts_in (flatten (rb_expert_ids ?u))"
    using ds rb_experts [OF u] mset_eq_setD [OF asg]
    by (intro experts_in_unique) (simp_all add: distinct_ids_ok_def)
  with u post asg m(5) have "unfinished_of b fs ?u failed"
    by (simp add: unfinished_of_def rb_values_ok_def rb_top_k_def)
  moreover have "\<not> (\<exists>f\<in>set fs. \<exists>t\<in>set (plan_tokens (failure_batch f)). \<not> t < dim0 (rb_expert_ids b))"
    using fits sh(3) wb_values_ok_shapes(7) by (fastforce simp: plan_fits_def plan_tokens_all)
  ultimately show ?thesis
    using m(1) post by (simp add: unfinished_batch_def)
qed

section \<open>The result of a layer\<close>

text \<open>
  What the Workers answered, read off the environment: a single plan for every source token is
  submitted directly, other plans are dispatched together. \<open>first_replies\<close> pairs each plan that was
  answered with the rows of its reply, in completion order; \<open>first_failures\<close> are the plans whose
  submission failed; \<open>retry_replies\<close> are the replies of the second attempt.
\<close>

definition complete_single :: "'f worker_batch_plan list \<Rightarrow> bool" where
  "complete_single plans \<longleftrightarrow> length plans = 1 \<and> wb_token_indices (pl_batch (hd plans)) = None"

definition first_replies :: "'f layer_env \<Rightarrow> 'f worker_batch_plan list \<Rightarrow> 'f contribution list" where
  "first_replies env plans =
     (if complete_single plans then (case le_direct env of Filled rows \<Rightarrow> [(hd plans, rows)] | _ \<Rightarrow> [])
      else successes plans (le_first env) (le_first_order env (length plans)))"

definition first_failures :: "'f layer_env \<Rightarrow> 'f worker_batch_plan list \<Rightarrow> 'f failed_worker_batch list" where
  "first_failures env plans =
     (if complete_single plans
      then (case le_direct env of Transport_failed e \<Rightarrow> [\<lparr>fw_plan = hd plans, fw_error = e\<rparr>] | _ \<Rightarrow> [])
      else failures_of plans (le_first env))"

definition retry_replies :: "'f layer_env \<Rightarrow> 'f worker_batch_plan list \<Rightarrow> 'f contribution list" where
  "retry_replies env plans = successes plans (le_retry env) (le_retry_order env (length plans))"

text \<open>
  The plans of the two attempts: the first grouping is of the whole batch on the current
  snapshot; if some submission failed, the second grouping is of the unfinished assignments on
  the refreshed snapshot, and none of its submissions failed.
\<close>

definition layer_plans ::
  "('f, 'z) torch_ops_scheme \<Rightarrow> 's select_fun \<Rightarrow> 'f routed_layer_batch \<Rightarrow> 'f layer_env \<Rightarrow> 's \<Rightarrow>
   'f worker_batch_plan list \<Rightarrow> 'f worker_batch_plan list \<Rightarrow> bool" where
  "layer_plans T select b env st plans retry_plans \<longleftrightarrow> (\<exists>snapshot st'.
     le_current env = Inr snapshot \<and>
     group_worker_batches T select b snapshot st {} None False True = (Inr plans, st') \<and>
     (if first_failures env plans = [] then retry_plans = []
      else \<exists>u failed refreshed. unfinished_batch T b (first_failures env plans) = Inr (u, failed) \<and>
         le_refresh env (ts_version snapshot) = Inr refreshed \<and>
         fst (group_worker_batches T select u refreshed st' {} (Some (map_of failed)) True False) = Inr retry_plans \<and>
         failures_of retry_plans (le_retry env) = []))"

text \<open>
  The result of a layer whose replies are \<open>cs\<close>: they carry every assignment of the batch exactly
  once, and the result is the zero Tensor when there was nothing to submit, the reply itself when a
  single complete plan was answered directly, and otherwise, in each row, the FP32 sum of exactly
  the reply rows for that token, cast once to the activation type.
\<close>

definition layer_result ::
  "('f, 'z) torch_ops_scheme \<Rightarrow> 'f routed_layer_batch \<Rightarrow> 'f layer_env \<Rightarrow> 'f worker_batch_plan list \<Rightarrow>
   'f contribution list \<Rightarrow> 'f matrix tensor \<Rightarrow> bool" where
  "layer_result T b env plans cs out \<longleftrightarrow>
     mset (concat (map (\<lambda>c. wb_assignments (pl_batch (fst c))) cs)) = mset (rb_assignments b) \<and>
     t_dtype out = t_dtype (rb_hidden_states b) \<and> t_device out = t_device (rb_hidden_states b) \<and>
     (if plans = [] then out = zeros_for T (t_dtype (rb_hidden_states b)) b
      else if complete_single plans \<and> first_failures env plans = []
      then (\<exists>rows. le_direct env = Filled rows \<and> cs = [(hd plans, rows)] \<and> out = (rb_hidden_states b)\<lparr>t_data := rows\<rparr>)
      else t_shape out = [rb_token_count b, rb_hidden_dim b] \<and> length (t_data out) = rb_token_count b \<and>
        (\<forall>t<rb_token_count b. t_data out ! t = map (f_to T (t_dtype (rb_hidden_states b)))
           (row_sum T (replicate (rb_hidden_dim b) (f_zero T))
             (map snd (filter (\<lambda>p. fst p = t) (concat (map contribution_rows cs)))))))"

lemma zeros_for_meta [simp]:
  "t_shape (zeros_for T d b) = [rb_token_count b, rb_hidden_dim b]" "t_dtype (zeros_for T d b) = d"
  "t_device (zeros_for T d b) = t_device (rb_hidden_states b)" "length (t_data (zeros_for T d b)) = rb_token_count b"
  by (simp_all add: zeros_for_def)

text \<open>A cast accumulator is the result of its contributions.\<close>

lemma layer_result_sum:
  assumes "mset (concat (map (\<lambda>c. wb_assignments (pl_batch (fst c))) cs)) = mset (rb_assignments b)"
    and "plans \<noteq> []" and "\<not> (complete_single plans \<and> first_failures env plans = [])"
  shows "layer_result T b env plans cs (cast_output T (t_dtype (rb_hidden_states b))
     ((zeros_for T Float32 b)\<lparr>t_data := accumulate T cs (t_data (zeros_for T Float32 b))\<rparr>))"
proof -
  have "accumulate T cs (t_data (zeros_for T Float32 b)) ! t = row_sum T (replicate (rb_hidden_dim b) (f_zero T))
      (map snd (filter (\<lambda>p. fst p = t) (concat (map contribution_rows cs))))" if "t < rb_token_count b" for t
    using nth_accumulate [of t "t_data (zeros_for T Float32 b)" T cs] that by (simp add: zeros_for_def)
  with assms show ?thesis by (auto simp: layer_result_def cast_output_def)
qed

lemma mset_concat_map: "mset (concat (map f xs)) = (\<Sum>x\<in>#mset xs. mset (f x))"
  by (induction xs) auto

abbreviation carried :: "'f worker_batch_plan list \<Rightarrow> (nat \<times> nat \<times> int \<times> 'f) list" where
  "carried ps \<equiv> concat (map (\<lambda>p. wb_assignments (pl_batch p)) ps)"

lemma carried_split:
  assumes "mset (map fst cs) + mset (map fw_plan fs) = mset plans"
  shows "mset (carried (map fst cs)) + mset (carried (map fw_plan fs)) = mset (carried plans)"
  unfolding mset_concat_map assms [symmetric] by simp

lemma failure_positions:
  assumes "rb_values_ok b" and "grouped b v s plans" and "mset (map fst cs) + mset (map fw_plan fs) = mset plans"
  shows "distinct (map pos (carried (map fw_plan fs)))"
proof -
  have "mset (carried (map fst cs)) + mset (carried (map fw_plan fs)) = mset (rb_assignments b)"
    using assms(2) carried_split [OF assms(3)] by (simp only: grouped_def)
  then have "mset (map pos (carried (map fst cs) @ carried (map fw_plan fs))) = mset (map pos (rb_assignments b))"
    by (metis mset_append mset_map)
  moreover have "distinct (map pos (rb_assignments b))"
    unfolding rb_assignments_def by (rule distinct_matrix_pos) simp
  ultimately have "distinct (map pos (carried (map fst cs) @ carried (map fw_plan fs)))"
    by (metis mset_eq_imp_distinct_iff)
  then show ?thesis by simp
qed

lemma first_round_result:
  assumes "first_round T b env plans = Inr (Inl out)" and "grouped b v s plans" and "plans \<noteq> []"
    and "\<And>n. mset (le_first_order env n) = mset [0 ..< n]"
  shows "first_failures env plans = [] \<and> layer_result T b env plans (first_replies env plans) out"
proof (cases "complete_single plans")
  case True
  then obtain p where p: "plans = [p]" by (auto simp: complete_single_def length_Suc_conv)
  with True assms(1) obtain rows where "out = (rb_hidden_states b)\<lparr>t_data := rows\<rparr>" "le_direct env = Filled rows"
    by (auto simp: first_round_def complete_single_def dispatch_complete_plan_def split: sum.splits submission.splits)
  with p True assms(2) show ?thesis
    by (simp add: layer_result_def grouped_def first_replies_def first_failures_def)
next
  case False
  with assms(1) obtain acc where
    run: "dispatch_once T plans (le_pools env) (zeros_for T Float32 b) (le_first env) (le_first_order env (length plans)) = (Inr [], acc)"
    and out: "out = cast_output T (t_dtype (rb_hidden_states b)) acc"
    by (auto simp: first_round_def complete_single_def split: sum.splits prod.splits list.splits)
  let ?cs = "successes plans (le_first env) (le_first_order env (length plans))"
  note res = dispatch_once_Inr [OF run assms(4)]
  then have "mset (map fst ?cs) + mset (map fw_plan (failures_of plans (le_first env))) = mset plans"
    by (intro success_or_failure assms(4)) blast
  from carried_split [OF this] res have "mset (carried (map fst ?cs)) = mset (rb_assignments b)"
    using assms(2) by (auto simp: grouped_def)
  with res out False assms(3) show ?thesis
    using layer_result_sum [of ?cs b plans env T] by (simp add: first_replies_def first_failures_def comp_def)
qed

text \<open>What a first round with failures leaves: the contributions already added and the failed plans.\<close>

definition first_round_left ::
  "('f, 'z) torch_ops_scheme \<Rightarrow> 'f routed_layer_batch \<Rightarrow> 'f worker_batch_plan list \<Rightarrow> 'f failed_worker_batch list \<Rightarrow>
   'f matrix tensor option \<Rightarrow> 'f contribution list \<Rightarrow> bool" where
  "first_round_left T b plans fs acc cs \<longleftrightarrow> fs \<noteq> [] \<and> mset (map fst cs) + mset (map fw_plan fs) = mset plans \<and>
     (case acc of None \<Rightarrow> zeros_for T Float32 b | Some a \<Rightarrow> a) =
       (zeros_for T Float32 b)\<lparr>t_data := accumulate T cs (t_data (zeros_for T Float32 b))\<rparr>"

lemma first_round_failures:
  assumes "first_round T b env plans = Inr (Inr (fs, acc))"
    and "\<And>n. mset (le_first_order env n) = mset [0 ..< n]"
  shows "fs = first_failures env plans \<and> first_round_left T b plans fs acc (first_replies env plans)"
proof (cases "complete_single plans")
  case True
  then obtain p where p: "plans = [p]" by (auto simp: complete_single_def length_Suc_conv)
  with True assms(1) show ?thesis
    by (auto simp: first_round_left_def first_round_def dispatch_complete_plan_def accumulate_def complete_single_def
        first_failures_def first_replies_def split: sum.splits submission.splits)
next
  case False
  with assms(1) obtain a where
    run: "dispatch_once T plans (le_pools env) (zeros_for T Float32 b) (le_first env) (le_first_order env (length plans)) = (Inr fs, a)"
    and fs: "fs \<noteq> []" "acc = Some a"
    by (auto simp: first_round_def complete_single_def split: sum.splits prod.splits list.splits)
  note res = dispatch_once_Inr [OF run assms(2)]
  then have "mset (map fst (successes plans (le_first env) (le_first_order env (length plans)))) + mset (map fw_plan fs) = mset plans"
    using success_or_failure [OF _ assms(2)] by blast
  with False fs res show ?thesis by (auto simp: first_round_left_def first_replies_def first_failures_def)
qed

lemma retry_round_result:
  assumes "retry_round T b env plans acc = Inr out" and "first_round_left T b plans1 fs acc cs1"
    and "mset (carried plans) = mset (carried (map fw_plan fs))" and "mset (carried plans1) = mset (rb_assignments b)"
    and "\<And>n. mset (le_retry_order env n) = mset [0 ..< n]" and "fs = first_failures env plans1" and "plans1 \<noteq> []"
  shows "failures_of plans (le_retry env) = [] \<and> layer_result T b env plans1 (cs1 @ retry_replies env plans) out"
proof -
  let ?z = "zeros_for T Float32 b"
  let ?start = "case acc of Some acc \<Rightarrow> acc | None \<Rightarrow> ?z"
  from assms(1) obtain a where
    run: "dispatch_once T plans (le_pools env) ?start (le_retry env) (le_retry_order env (length plans)) = (Inr [], a)"
    and out: "out = cast_output T (t_dtype (rb_hidden_states b)) a"
    by (auto simp: retry_round_def split: sum.splits prod.splits list.splits)
  let ?cs = "successes plans (le_retry env) (le_retry_order env (length plans))"
  note res = dispatch_once_Inr [OF run assms(5)]
  then have "mset (map fst ?cs) + mset (map fw_plan (failures_of plans (le_retry env))) = mset plans"
    by (intro success_or_failure assms(5)) blast
  from carried_split [OF this] res have two: "mset (carried (map fst ?cs)) = mset (carried plans)" by auto
  have start: "?start = ?z\<lparr>t_data := accumulate T cs1 (t_data ?z)\<rparr>"
    and left: "mset (map fst cs1) + mset (map fw_plan fs) = mset plans1"
    using assms(2) by (auto simp: first_round_left_def split: option.splits)
  have "mset (carried (map fst cs1)) + mset (carried (map fst ?cs)) = mset (rb_assignments b)"
    using carried_split [OF left] two assms(3,4) by simp
  then have "mset (concat (map (\<lambda>c. wb_assignments (pl_batch (fst c))) (cs1 @ ?cs))) = mset (rb_assignments b)"
    by (simp add: comp_def)
  moreover have "a = ?z\<lparr>t_data := accumulate T (cs1 @ ?cs) (t_data ?z)\<rparr>"
    using res start by (simp add: accumulate_append)
  moreover have "first_failures env plans1 \<noteq> []" using assms(2,6) by (simp add: first_round_left_def)
  ultimately show ?thesis
    using layer_result_sum [of "cs1 @ ?cs" b plans1 env T] res out assms(7) by (simp add: retry_replies_def)
qed

definition env_ok :: "'f layer_env \<Rightarrow> bool" where
  "env_ok env \<longleftrightarrow> (\<forall>s. le_current env = Inr s \<longrightarrow> snapshot_ok s \<and> topology_targets_ok s) \<and>
     (\<forall>v s. le_refresh env v = Inr s \<longrightarrow> snapshot_ok s \<and> topology_targets_ok s) \<and>
     (\<forall>n. mset (le_first_order env n) = mset [0 ..< n]) \<and> (\<forall>n. mset (le_retry_order env n) = mset [0 ..< n])"

lemma grouped_fits:
  assumes "grouped b v s plans" and "rb_values_ok b" and "mset (map fst cs) + mset (map fw_plan fs) = mset plans"
  shows "\<forall>f\<in>set fs. plan_fits (rb_token_count b) (rb_top_k b) (fw_plan f)"
proof
  fix f assume "f \<in> set fs"
  then have "fw_plan f \<in># mset plans" unfolding assms(3) [symmetric] by simp
  then show "plan_fits (rb_token_count b) (rb_top_k b) (fw_plan f)"
    using assms(1) by (simp add: grouped_def plan_fits_def rb_token_count_def)
qed

lemma unfinished_small: "unfinished_of b fs u failed \<Longrightarrow> rb_token_count u * rb_top_k u = rb_token_count b * rb_top_k b"
  by (simp add: unfinished_of_def rb_token_count_def)

context replica_selector
begin

lemma retry_unfinished_result:
  assumes doc: "torch_int_doc T" and ok: "rb_values_ok b" and small: "rb_token_count b * rb_top_k b < 2 ^ 32"
    and env: "env_ok env" and grp: "grouped b v s plans" and left: "first_round_left T b plans fs acc cs"
    and fs: "fs = first_failures env plans" and ne: "plans \<noteq> []"
    and run: "fst (retry_unfinished T select b env snapshot fs acc st) = Inr out"
  shows "\<exists>u failed refreshed retry_plans. unfinished_batch T b fs = Inr (u, failed) \<and>
     le_refresh env (ts_version snapshot) = Inr refreshed \<and>
     fst (group_worker_batches T select u refreshed st {} (Some (map_of failed)) True False) = Inr retry_plans \<and>
     failures_of retry_plans (le_retry env) = [] \<and> layer_result T b env plans (cs @ retry_replies env retry_plans) out"
proof -
  have split: "mset (map fst cs) + mset (map fw_plan fs) = mset plans" using left by (simp add: first_round_left_def)
  have "distinct (map pos (concat (map (\<lambda>f. wb_assignments (failure_batch f)) fs)))"
    using failure_positions [OF ok grp split] by (simp add: comp_def)
  from unfinished_batch_ok [OF ok grouped_fits [OF grp ok split] this] obtain u failed where
    u: "unfinished_batch T b fs = Inr (u, failed)" "unfinished_of b fs u failed" by blast
  from run u(1) obtain refreshed retry_plans where
    ref: "le_refresh env (ts_version snapshot) = Inr refreshed"
    and grp2: "fst (group_worker_batches T select u refreshed st {} (Some (map_of failed)) True False) = Inr retry_plans"
    and fin: "retry_round T b env retry_plans acc = Inr out"
    by (auto simp: retry_unfinished_def Let_def split: option.splits sum.splits prod.splits if_splits)
  have tp: "snapshot_ok refreshed" "topology_targets_ok refreshed" using env ref by (auto simp: env_ok_def)
  have "rb_values_ok u" using u(2) by (simp add: unfinished_of_def)
  from group_worker_batches_Inr [OF grp2 doc this tp] unfinished_small [OF u(2)] small obtain s' where
    "grouped u (ts_version refreshed) s' retry_plans" by auto
  then have "mset (carried retry_plans) = mset (carried (map fw_plan fs))"
    using u(2) by (simp add: grouped_def unfinished_of_def comp_def)
  moreover have "mset (carried plans) = mset (rb_assignments b)" using grp by (simp add: grouped_def)
  ultimately have "failures_of retry_plans (le_retry env) = [] \<and> layer_result T b env plans (cs @ retry_replies env retry_plans) out"
    using env fs ne by (intro retry_round_result [OF fin left]) (auto simp: env_ok_def)
  with u(1) ref grp2 show ?thesis by blast
qed

lemma execute_result:
  assumes doc: "torch_int_doc T" and ok: "rb_values_ok b" and small: "rb_token_count b * rb_top_k b < 2 ^ 32"
    and env: "env_ok env" and run: "fst (execute_routed_layer T select b env st) = Inr out"
  shows "\<exists>plans retry_plans. layer_plans T select b env st plans retry_plans \<and>
     layer_result T b env plans (first_replies env plans @ retry_replies env retry_plans) out"
proof -
  from run obtain snapshot where cur: "le_current env = Inr snapshot"
    by (auto simp: execute_routed_layer_def split: if_splits sum.splits)
  have tp: "snapshot_ok snapshot" "topology_targets_ok snapshot" using env cur by (auto simp: env_ok_def)
  have ord: "\<And>n. mset (le_first_order env n) = mset [0 ..< n]" using env by (simp add: env_ok_def)
  obtain r st' where g: "group_worker_batches T select b snapshot st {} None False True = (r, st')" by fastforce
  with run cur obtain plans where r: "r = Inr plans"
    by (auto simp: execute_routed_layer_def split: if_splits sum.splits)
  from group_worker_batches_Inr [OF _ doc ok tp small, of st "{}" None False True plans] g r obtain s
    where grp: "grouped b (ts_version snapshot) s plans" by auto
  have "mset (le_first_order env 0) = {#}" "mset (le_retry_order env 0) = {#}" using env by (simp_all add: env_ok_def)
  then have none: "le_first_order env 0 = []" "retry_replies env [] = []"
    by (simp_all add: retry_replies_def successes_def)
  show ?thesis
  proof (cases plans)
    case Nil
    with none have "first_failures env plans = []" "first_replies env plans = []"
      by (simp_all add: first_failures_def first_replies_def complete_single_def failures_of_def successes_def)
    moreover have "out = zeros_for T (t_dtype (rb_hidden_states b)) b"
      using run cur g r Nil by (auto simp: execute_routed_layer_def split: if_splits)
    ultimately have "layer_plans T select b env st plans []"
      "layer_result T b env plans (first_replies env plans @ retry_replies env []) out"
      using Nil cur g r grp none by (simp_all add: layer_plans_def layer_result_def grouped_def)
    then show ?thesis by blast
  next
    case (Cons p ps)
    then consider (done1) "first_round T b env plans = Inr (Inl out)"
      | (again) fs acc where "first_round T b env plans = Inr (Inr (fs, acc))"
          "fst (retry_unfinished T select b env snapshot fs acc st') = Inr out"
      using run cur g r by (auto simp: execute_routed_layer_def split: if_splits sum.splits)
    then show ?thesis
    proof cases
      case done1
      from first_round_result [OF this grp _ ord] Cons have "first_failures env plans = []"
        "layer_result T b env plans (first_replies env plans) out" by simp_all
      then have "layer_plans T select b env st plans []"
        "layer_result T b env plans (first_replies env plans @ retry_replies env []) out"
        using cur g r none by (simp_all add: layer_plans_def)
      then show ?thesis by blast
    next
      case again
      from first_round_failures [OF again(1) ord] have left: "fs = first_failures env plans"
        "first_round_left T b plans fs acc (first_replies env plans)" by blast+
      from retry_unfinished_result [OF doc ok small env grp left(2,1) _ again(2)] Cons obtain u failed refreshed retry_plans where
        two: "unfinished_batch T b fs = Inr (u, failed)" "le_refresh env (ts_version snapshot) = Inr refreshed"
          "fst (group_worker_batches T select u refreshed st' {} (Some (map_of failed)) True False) = Inr retry_plans"
          "failures_of retry_plans (le_retry env) = []"
          "layer_result T b env plans (first_replies env plans @ retry_replies env retry_plans) out" by auto
      have "fs \<noteq> []" using left(2) by (simp add: first_round_left_def)
      then have "layer_plans T select b env st plans retry_plans"
        using cur g r two left(1) by (auto simp: layer_plans_def)
      with two(5) show ?thesis by blast
    qed
  qed
qed

lemma unfinished_batch_of:
  assumes doc: "torch_int_doc T" and ok: "rb_values_ok b" and small: "rb_token_count b * rb_top_k b < 2 ^ 32"
    and tp: "snapshot_ok snapshot" "topology_targets_ok snapshot"
    and grp: "fst (group_worker_batches T select b snapshot st {} None False True) = Inr plans"
    and fs: "mset (map fw_plan fs) \<subseteq># mset plans" and unf: "unfinished_batch T b fs = Inr (u, failed)"
  shows "unfinished_of (b :: 'f routed_layer_batch) fs u failed"
proof -
  from group_worker_batches_Inr [OF grp doc ok tp small] obtain s where g: "grouped b (ts_version snapshot) s plans" by blast
  from fs obtain M where "mset plans = mset (map fw_plan fs) + M" by (metis mset_subset_eq_exists_conv)
  moreover obtain qs where "M = mset qs" by (metis ex_mset)
  ultimately have split: "mset (map fst (map (\<lambda>q. (q, [])) qs :: 'f contribution list)) + mset (map fw_plan fs) = mset plans"
    by (simp add: comp_def)
  have "distinct (map pos (concat (map (\<lambda>f. wb_assignments (failure_batch f)) fs)))"
    using failure_positions [OF ok g split] by (simp add: comp_def)
  from unfinished_batch_ok [OF ok grouped_fits [OF g ok split] this, of T] unf show ?thesis by auto
qed

lemma retry_avoids_failed:
  assumes doc: "torch_int_doc T" and bok: "rb_values_ok b" and bsmall: "rb_token_count b * rb_top_k b < 2 ^ 32"
    and tp1: "snapshot_ok snapshot" "topology_targets_ok snapshot"
    and grp1: "fst (group_worker_batches T select b snapshot st1 {} None False True) = Inr plans1"
    and fs: "mset (map fw_plan fs) \<subseteq># mset plans1" and unf: "unfinished_batch T b fs = Inr (u, failed)"
    and tp: "snapshot_ok refreshed" "topology_targets_ok refreshed"
    and grp: "fst (group_worker_batches T select u refreshed st {} (Some (map_of failed)) True False) = Inr plans"
    and p: "p \<in> set plans" and e: "e \<in> set (wb_distinct_expert_ids (pl_batch p))"
    and f: "f \<in> set fs" "e \<in> set (wb_distinct_expert_ids (failure_batch f))"
      "wc_identity (pl_target p) = wc_identity (pl_target (fw_plan f))"
  shows "uses_failed_process p failed \<and> (\<exists>reps. map_of (ts_routes refreshed) (rb_layer_id b, e) = Some reps \<and>
     (\<forall>t\<in>set reps. \<exists>g\<in>set fs. e \<in> set (wb_distinct_expert_ids (failure_batch g)) \<and>
        wc_identity t = wc_identity (pl_target (fw_plan g))))"
proof -
  have u: "unfinished_of b fs u failed" by (rule unfinished_batch_of [OF doc bok bsmall tp1 grp1 fs unf])
  have small: "rb_token_count u * rb_top_k u < 2 ^ 32" using unfinished_small [OF u] bsmall by simp
  have ok: "rb_values_ok u" and layer: "rb_layer_id u = rb_layer_id b" using u by (simp_all add: unfinished_of_def)
  from group_worker_batches_Inr [OF grp doc ok tp small] obtain s where s: "grouped u (ts_version refreshed) s plans"
    and picked: "\<forall>e\<in>set (rb_distinct_expert_ids u). \<exists>reps. map_of (ts_routes refreshed) (rb_layer_id u, e) = Some reps \<and>
        s e \<in> set reps \<and> (wc_identity (s e) \<notin> expert_exclusions {} (Some (map_of failed)) e \<or>
          True \<and> wc_identity ` set reps \<subseteq> expert_exclusions {} (Some (map_of failed)) e)" by blast
  have "wb_values_ok (pl_batch p)" using s p by (simp add: grouped_def)
  from wb_experts [OF this] e obtain a where a: "a \<in> set (wb_assignments (pl_batch p))" "e = expert_of a" by auto
  then have target: "pl_target p = s e" using s p by (simp add: grouped_def)
  have "a \<in> set (carried plans)" using a(1) p by auto
  moreover have "mset (carried plans) = mset (rb_assignments u)" using s by (simp only: grouped_def)
  ultimately have "a \<in> set (rb_assignments u)" using mset_eq_setD by blast
  then have eu: "e \<in> set (rb_distinct_expert_ids u)" using expert_of_assignment [OF ok] a(2) by blast
  have ex: "x \<in> expert_exclusions {} (Some (map_of failed)) e \<longleftrightarrow>
      (\<exists>g\<in>set fs. e \<in> set (wb_distinct_expert_ids (failure_batch g)) \<and> x = wc_identity (pl_target (fw_plan g)))" for x
    using u by (simp add: expert_exclusions_def unfinished_of_def)
  from bspec [OF picked eu] obtain reps where "map_of (ts_routes refreshed) (rb_layer_id b, e) = Some reps"
    "wc_identity (s e) \<notin> expert_exclusions {} (Some (map_of failed)) e \<or>
     wc_identity ` set reps \<subseteq> expert_exclusions {} (Some (map_of failed)) e"
    unfolding layer by auto
  moreover have "wc_identity (s e) \<in> expert_exclusions {} (Some (map_of failed)) e"
    unfolding ex using f target by metis
  moreover have "uses_failed_process p failed"
    using calculation(3) e target by (auto simp: uses_failed_process_def expert_exclusions_def list_ex_iff)
  ultimately show ?thesis using ex by (intro conjI exI [where x = reps]) auto
qed

end

section \<open>When a layer returns\<close>

text \<open>The pools of every Worker a snapshot publishes fit the batch.\<close>

definition pools_serve :: "'f layer_env \<Rightarrow> 'f routed_layer_batch \<Rightarrow> topology_snapshot \<Rightarrow> bool" where
  "pools_serve env b tp \<longleftrightarrow> (\<forall>t\<in>set (targets_of (ts_routes tp)). \<exists>pool. le_pools env (wc_identity t) = Some pool \<and>
     op_hidden_dim pool = int (rb_hidden_dim b) \<and> op_dtype pool = t_dtype (rb_hidden_states b) \<and>
     op_device pool = t_device (rb_hidden_states b) \<and> wc_max_batch_tokens t \<le> op_max_batch_tokens pool)"

text \<open>The snapshot routes every expert of the batch.\<close>

definition routes_all :: "topology_snapshot \<Rightarrow> 'f routed_layer_batch \<Rightarrow> bool" where
  "routes_all tp b \<longleftrightarrow> ts_instance_id tp = rb_instance_id b \<and>
     (\<forall>e\<in>set (rb_distinct_expert_ids b). map_of (ts_routes tp) (rb_layer_id b, e) \<noteq> None)"

lemma grouped_dispatchable:
  assumes g: "grouped b v s plans" and serve: "pools_serve env b tp"
    and picked: "\<forall>e\<in>set (rb_distinct_expert_ids b). \<exists>reps. map_of (ts_routes tp) (rb_layer_id b, e) = Some reps \<and> s e \<in> set reps"
    and acc: "t_shape acc = [rb_token_count b, rb_hidden_dim b]" "t_dtype acc = Float32"
      "t_device acc = t_device (rb_hidden_states b)" "length (t_data acc) = rb_token_count b"
    and p: "p \<in> set plans"
  shows "dispatchable (le_pools env) acc p"
proof -
  from g p have pp: "int (wb_token_count (pl_batch p)) \<le> wc_max_batch_tokens (pl_target p)" "wb_values_ok (pl_batch p)"
    "wb_hidden_states (pl_batch p) = rb_hidden_states b" "pl_target p \<in> s ` set (rb_distinct_expert_ids b)"
    by (simp_all add: grouped_def)
  from pp(4) picked obtain e reps where "map_of (ts_routes tp) (rb_layer_id b, e) = Some reps" "pl_target p \<in> set reps" by (metis imageE)
  then have "pl_target p \<in> set (targets_of (ts_routes tp))"
    by (force simp: targets_of_def dest!: map_of_SomeD)
  with serve obtain pool where pool: "le_pools env (wc_identity (pl_target p)) = Some pool"
    "op_hidden_dim pool = int (rb_hidden_dim b)" "op_dtype pool = t_dtype (rb_hidden_states b)"
    "op_device pool = t_device (rb_hidden_states b)" "wc_max_batch_tokens (pl_target p) \<le> op_max_batch_tokens pool"
    by (auto simp: pools_serve_def)
  have "validate_accumulator p pool acc = None"
    using pool pp acc by (simp add: validate_accumulator_def wb_hidden_dim_def rb_hidden_dim_def)
  moreover have "\<forall>t\<in>set (plan_tokens (pl_batch p)). t < length (t_data acc)"
    using wb_values_ok_shapes(7) [OF pp(2)] pp(3) acc(4) by (simp add: plan_tokens_all [OF pp(2)] rb_token_count_def)
  ultimately show ?thesis using pool(1) by (auto simp: dispatchable_def)
qed

lemma failures_of_Nil:
  "(\<And>i. i < length plans \<Longrightarrow> \<exists>rows. subs i = Filled rows) \<Longrightarrow> failures_of plans subs = []"
  unfolding failures_of_def by (force split: submission.splits)

text \<open>A retryable failure the refreshed snapshot is recent enough for.\<close>

definition retryable_upto :: "int \<Rightarrow> 'f submission \<Rightarrow> bool" where
  "retryable_upto v sub = (case sub of
     Filled _ \<Rightarrow> True
   | Transport_failed e \<Rightarrow> te_retryable e \<and> (case te_min_topology_version e of None \<Rightarrow> True | Some m \<Rightarrow> m \<le> v)
   | Unexpected _ \<Rightarrow> False)"

lemma failures_of_retryable:
  assumes "f \<in> set (failures_of plans subs)" and "\<And>i. i < length plans \<Longrightarrow> retryable_upto v (subs i)"
  shows "te_retryable (fw_error f) \<and> (\<forall>m. te_min_topology_version (fw_error f) = Some m \<longrightarrow> m \<le> v)"
proof -
  from assms(1) obtain i where "i < length plans" "subs i = Transport_failed (fw_error f)"
    by (auto simp: failures_of_def split: submission.splits)
  with assms(2) [of i] show ?thesis by (auto simp: retryable_upto_def split: option.splits)
qed

lemma required_version_le:
  assumes "\<And>f m. f \<in> set fs \<Longrightarrow> te_min_topology_version (fw_error f) = Some m \<Longrightarrow> m \<le> v"
  shows "required_topology_version fs = Some r \<Longrightarrow> r \<le> v"
proof -
  assume r: "required_topology_version fs = Some r"
  let ?vs = "List.map_filter (\<lambda>f. te_min_topology_version (fw_error f)) fs"
  have "?vs \<noteq> []" "r = Max (set ?vs)" using r by (auto simp: required_topology_version_def Let_def split: if_splits)
  then have "r \<in> set ?vs" by (metis List.finite_set Max_in set_empty)
  then show "r \<le> v" using assms by (auto simp: map_filter_def)
qed

lemma rb_values_ok_experts:
  assumes "rb_values_ok b"
  shows "set (rb_distinct_expert_ids b) = expert_of ` set (rb_assignments b)"
proof -
  have ds: "rb_distinct_expert_ids b = experts_in (flatten (rb_expert_ids b))" and
    m: "matrix_ok (rb_expert_ids b)" "matrix_ok (rb_routing_weights b)"
    using assms by (simp_all add: rb_values_ok_def)
  have "t_shape (rb_routing_weights b) = t_shape (rb_expert_ids b)"
    using assms by (simp add: rb_values_ok_def routed_layer_batch_post_init_iff routing_meta_ok_def)
  from rb_experts [OF m this rb_values_ok_shapes(3) [OF assms]] ds show ?thesis by (simp add: experts_in_props)
qed

lemma unfinished_experts:
  assumes "rb_values_ok b" and "unfinished_of b fs u failed" and "grouped b v s plans"
    and "mset (map fst cs) + mset (map fw_plan fs) = mset plans"
  shows "set (rb_distinct_expert_ids u) \<subseteq> set (rb_distinct_expert_ids b)"
proof -
  have u: "rb_values_ok u" "mset (rb_assignments u) = mset (carried (map fw_plan fs))"
    using assms(2) by (simp_all add: unfinished_of_def comp_def)
  have "mset (carried (map fst cs)) + mset (carried (map fw_plan fs)) = mset (rb_assignments b)"
    using assms(3) carried_split [OF assms(4)] by (simp only: grouped_def)
  then have "mset (rb_assignments u) \<subseteq># mset (rb_assignments b)"
    unfolding u(2) by (metis mset_subset_eq_add_right)
  then have "set (rb_assignments u) \<subseteq> set (rb_assignments b)"
    by (metis set_mset_mono set_mset_mset)
  then show ?thesis
    unfolding rb_values_ok_experts [OF assms(1)] rb_values_ok_experts [OF u(1)] by (rule image_mono)
qed

lemma first_round_progress:
  assumes g: "grouped b v s plans" and disp: "\<And>p. p \<in> set plans \<Longrightarrow> dispatchable (le_pools env) (zeros_for T Float32 b) p"
    and ord: "\<And>n. mset (le_first_order env n) = mset [0 ..< n]"
    and subs: "retryable_upto m (le_direct env)" "\<And>i. retryable_upto m (le_first env i)"
  shows "(\<exists>out. first_round T b env plans = Inr (Inl out)) \<or>
     (\<exists>fs acc. first_round T b env plans = Inr (Inr (fs, acc)) \<and>
        (\<forall>f\<in>set fs. te_retryable (fw_error f) \<and> (\<forall>k. te_min_topology_version (fw_error f) = Some k \<longrightarrow> k \<le> m)))"
proof (cases "length plans = 1 \<and> wb_token_indices (pl_batch (hd plans)) = None")
  case True
  then show ?thesis
    using subs(1) by (cases "le_direct env")
      (auto simp: first_round_def dispatch_complete_plan_def retryable_upto_def split: option.splits)
next
  case False
  have "le_first env i \<noteq> Unexpected e" for i e using subs(2) [of i] by (auto simp: retryable_upto_def)
  then have "dispatch_once T plans (le_pools env) (zeros_for T Float32 b) (le_first env) (le_first_order env (length plans)) =
      (Inr (failures_of plans (le_first env)), (zeros_for T Float32 b)\<lparr>t_data := accumulate T
         (successes plans (le_first env) (le_first_order env (length plans))) (t_data (zeros_for T Float32 b))\<rparr>)"
    by (intro dispatch_once_ok disp ord) auto
  then show ?thesis
    using False failures_of_retryable [of _ plans "le_first env", OF _ subs(2)]
    by (cases "failures_of plans (le_first env)") (auto simp: first_round_def)
qed

lemma retry_round_progress:
  assumes "\<And>p. p \<in> set plans \<Longrightarrow> dispatchable (le_pools env) (case acc of Some a \<Rightarrow> a | None \<Rightarrow> zeros_for T Float32 b) p"
    and "\<And>n. mset (le_retry_order env n) = mset [0 ..< n]" and "\<And>i. \<exists>rows. le_retry env i = Filled rows"
  shows "\<exists>out. retry_round T b env plans acc = Inr out"
proof -
  have "le_retry env i \<noteq> Unexpected e" for i e using assms(3) [of i] by auto
  from dispatch_once_ok [where subs = "le_retry env" and plans = plans and T = T, OF assms(1) this assms(2)]
    failures_of_Nil [of plans "le_retry env", OF assms(3)]
  show ?thesis by (simp add: retry_round_def)
qed

lemma routed_without_exclusions:
  assumes "snapshot_ok tp" and "routes_all tp b" and "e \<in> set (rb_distinct_expert_ids b)"
  shows "\<exists>reps. map_of (ts_routes tp) (rb_layer_id b, e) = Some reps \<and> (wc_identity ` set reps \<subseteq> expert_exclusions {} None e \<longrightarrow> False)"
proof -
  obtain reps where r: "map_of (ts_routes tp) (rb_layer_id b, e) = Some reps" using assms(2,3) by (auto simp: routes_all_def)
  then have "map_of (layer_routes tp (rb_layer_id b)) e = Some reps" by (simp add: layer_routes_lookup [OF assms(1)])
  from layer_routes_replicas [OF assms(1) this] r show ?thesis by (auto simp: expert_exclusions_def)
qed

definition clock_suffices :: "'f layer_env \<Rightarrow> bool" where
  "clock_suffices env \<longleftrightarrow> 0 < le_retry_delay env \<and> le_clock env 0 < le_deadline env \<and> le_clock env 1 < le_deadline env \<and>
     le_clock env 2 + le_retry_delay env < le_deadline env \<and> le_clock env 3 < le_deadline env"

context replica_selector
begin

lemma retry_unfinished_returns:
  assumes doc: "torch_int_doc T" and ok: "rb_values_ok b" and small: "rb_token_count b * rb_top_k b < 2 ^ 32"
    and env: "env_ok env" and clock: "clock_suffices env" and grp: "grouped b v s plans"
    and left: "first_round_left T b plans fs acc cs"
    and ref: "le_refresh env (ts_version snapshot) = Inr refreshed" and all: "routes_all refreshed b"
    and serve: "pools_serve env b refreshed" and retry: "\<And>i. \<exists>rows. le_retry env i = Filled rows"
    and fs: "\<forall>f\<in>set fs. te_retryable (fw_error f) \<and>
       (\<forall>k. te_min_topology_version (fw_error f) = Some k \<longrightarrow> k \<le> ts_version refreshed)"
  shows "\<exists>out. fst (retry_unfinished T select b env snapshot fs acc st) = Inr out"
proof -
  have split: "mset (map fst cs) + mset (map fw_plan fs) = mset plans" using left by (simp add: first_round_left_def)
  have "distinct (map pos (concat (map (\<lambda>f. wb_assignments (failure_batch f)) fs)))"
    using failure_positions [OF ok grp split] by (simp add: comp_def)
  from unfinished_batch_ok [OF ok grouped_fits [OF grp ok split] this] obtain u failed where
    u: "unfinished_batch T b fs = Inr (u, failed)" "unfinished_of b fs u failed" by blast
  have uok: "rb_values_ok u" and ub: "rb_instance_id u = rb_instance_id b" "rb_layer_id u = rb_layer_id b"
    "rb_hidden_states u = rb_hidden_states b" using u(2) by (simp_all add: unfinished_of_def)
  have tp: "snapshot_ok refreshed" "topology_targets_ok refreshed" using env ref by (auto simp: env_ok_def)
  have usmall: "rb_token_count u * rb_top_k u < 2 ^ 32" using unfinished_small [OF u(2)] small by simp
  have "\<forall>e\<in>set (rb_distinct_expert_ids u). \<exists>reps. map_of (ts_routes refreshed) (rb_layer_id u, e) = Some reps \<and>
      (wc_identity ` set reps \<subseteq> expert_exclusions {} (Some (map_of failed)) e \<longrightarrow> True)"
    using all unfinished_experts [OF ok u(2) grp split] ub(2) by (auto simp: routes_all_def)
  moreover have "rb_instance_id u = ts_instance_id refreshed" using all ub(1) by (simp add: routes_all_def)
  ultimately obtain retry_plans s' st' where
    run: "group_worker_batches T select u refreshed st {} (Some (map_of failed)) True False = (Inr retry_plans, st')"
    and g: "grouped u (ts_version refreshed) s' retry_plans"
    and picked: "\<forall>e\<in>set (rb_distinct_expert_ids u). \<exists>reps. map_of (ts_routes refreshed) (rb_layer_id u, e) = Some reps \<and> s' e \<in> set reps"
    using group_worker_batches_ok [OF doc uok tp usmall, where st = st and reuse = False and ex = "{}" and fb = True]
    by (metis (no_types, lifting) prod.collapse)
  have "dispatchable (le_pools env) (case acc of Some a \<Rightarrow> a | None \<Rightarrow> zeros_for T Float32 b) p" if "p \<in> set retry_plans" for p
  proof (rule grouped_dispatchable [OF g _ picked _ _ _ _ that])
    show "pools_serve env u refreshed" using serve ub(3) by (simp add: pools_serve_def rb_hidden_dim_def)
  qed (use left ub(3) in \<open>auto simp: first_round_left_def rb_token_count_def rb_hidden_dim_def split: option.splits\<close>)
  then obtain out where out: "retry_round T b env retry_plans acc = Inr out"
    using retry_round_progress env retry unfolding env_ok_def by metis
  have "List.find (\<lambda>f. \<not> te_retryable (fw_error f)) fs = None" using fs by (auto simp: find_None_iff)
  moreover have "r \<le> ts_version refreshed" if "required_topology_version fs = Some r" for r
    using required_version_le [OF _ that] fs by blast
  moreover have "retry_delay_check env x fs = None" for x
    using clock by (simp add: retry_delay_check_def clock_suffices_def)
  ultimately show ?thesis
    using u(1) ref run out clock by (auto simp: retry_unfinished_def clock_suffices_def split: option.splits)
qed

lemma execute_returns:
  assumes doc: "torch_int_doc T" and ok: "rb_values_ok b" and small: "rb_token_count b * rb_top_k b < 2 ^ 32"
    and env: "env_ok env" and clock: "clock_suffices env"
    and cur: "le_current env = Inr snapshot" and ref: "le_refresh env (ts_version snapshot) = Inr refreshed"
    and all: "routes_all snapshot b" "routes_all refreshed b"
    and serve: "pools_serve env b snapshot" "pools_serve env b refreshed"
    and first: "retryable_upto (ts_version refreshed) (le_direct env)" "\<And>i. retryable_upto (ts_version refreshed) (le_first env i)"
    and retry: "\<And>i. \<exists>rows. le_retry env i = Filled rows"
  shows "\<exists>out. fst (execute_routed_layer T select b env st) = Inr out"
proof -
  have tp: "snapshot_ok snapshot" "topology_targets_ok snapshot" using env cur by (auto simp: env_ok_def)
  have ord: "\<And>n. mset (le_first_order env n) = mset [0 ..< n]" using env by (simp add: env_ok_def)
  have "rb_instance_id b = ts_instance_id snapshot" using all(1) by (simp add: routes_all_def)
  from group_worker_batches_ok [OF doc ok tp small this, of "{}" None False st True] routed_without_exclusions [OF tp(1) all(1)]
  obtain plans s st' where run: "group_worker_batches T select b snapshot st {} None False True = (Inr plans, st')"
    and g: "grouped b (ts_version snapshot) s plans"
    and picked: "\<forall>e\<in>set (rb_distinct_expert_ids b). \<exists>reps. map_of (ts_routes snapshot) (rb_layer_id b, e) = Some reps \<and> s e \<in> set reps"
    by (metis (no_types, lifting) prod.collapse)
  have "dispatchable (le_pools env) (zeros_for T Float32 b) p" if "p \<in> set plans" for p
    by (rule grouped_dispatchable [OF g serve(1) picked _ _ _ _ that]) simp_all
  from first_round_progress [OF g this ord first]
  have "\<exists>out. first_round T b env plans = Inr (Inl out) \<or> (\<exists>fs acc. first_round T b env plans = Inr (Inr (fs, acc)) \<and>
      fst (retry_unfinished T select b env snapshot fs acc st') = Inr out)"
    using retry_unfinished_returns [OF doc ok small env clock g _ ref all(2) serve(2) retry] first_round_failures [OF _ ord]
    by metis
  then show ?thesis
    using cur run clock by (cases plans) (auto simp: execute_routed_layer_def clock_suffices_def)
qed

end

section \<open>A concrete environment\<close>

definition ex_env :: "int layer_env" where
  "ex_env = \<lparr>le_deadline = 100, le_retry_delay = 1, le_clock = int, le_current = Inr ex_snapshot,
     le_refresh = (\<lambda>_. Inr ex_snapshot),
     le_pools = [wc_identity ex_worker_a \<mapsto> ex_pool, wc_identity ex_worker_b \<mapsto> ex_pool],
     le_direct = Transport_failed (TransportError BUSY True ''''),
     le_first = (\<lambda>i. if i = 0 then Filled [[1, 1], [2, 2]] else Transport_failed (TransportError BUSY True '''')),
     le_first_order = (\<lambda>n. rev [0 ..< n]), le_retry = (\<lambda>_. Filled [[1, 1], [2, 2]]), le_retry_order = (\<lambda>n. [0 ..< n])\<rparr>"

lemma ex_env_ok: "env_ok ex_env"
  by (simp add: env_ok_def ex_env_def ex_snapshot_ok ex_targets_ok)

lemma ex_env_clock: "clock_suffices ex_env"
  by (simp add: clock_suffices_def ex_env_def)

lemma ex_env_routes: "routes_all ex_snapshot ex_batch"
  by (simp add: routes_all_def ex_snapshot_def ex_batch_def)

lemma ex_env_pools: "pools_serve ex_env ex_batch ex_snapshot"
  by (simp add: pools_serve_def ex_env_def ex_snapshot_def ex_batch_def ex_pool_def targets_of_def ex_worker_a_def
      ex_worker_b_def rb_hidden_dim_def)

lemma ex_env_submissions:
  "retryable_upto 3 (le_direct ex_env)" "retryable_upto 3 (le_first ex_env i)" "\<exists>rows. le_retry ex_env i = Filled rows"
  by (simp_all add: retryable_upto_def ex_env_def)

lemma ex_env_topology:
  "le_current ex_env = Inr ex_snapshot" "le_refresh ex_env (ts_version ex_snapshot) = Inr ex_snapshot" "ts_version ex_snapshot = 3"
  by (simp_all add: ex_env_def ex_snapshot_def)

lemma ex_batch_small: "rb_token_count ex_batch * rb_top_k ex_batch < 2 ^ 32"
  by (simp add: ex_batch_def rb_token_count_def rb_top_k_def)

section \<open>Properties\<close>

text \<open>
  C1. Whatever the submissions, failures, refreshed topology, interleaving and clock do: if
  \<open>execute_routed_layer\<close> returns a Tensor, then the plans are those of the grouping on the current
  snapshot and, when submissions failed, of the grouping of the unfinished assignments on the
  refreshed snapshot; the replies to the plans of both attempts together carry every valid routing
  assignment of the batch exactly once; and each row of the Tensor is the FP32 sum of exactly the rows
  those replies hold for its token, cast once to the activation type (or the reply to the single
  complete plan itself, or zero when there was no plan).
\<close>

theorem execute_layer_exactly_once:
  assumes "torch_int_doc T" and "rb_values_ok b" and "rb_token_count b * rb_top_k b < 2 ^ 32" and "env_ok env"
    and "fst (execute_routed_layer T rr_select b env st) = Inr out"
  shows "\<exists>plans retry_plans. layer_plans T rr_select b env st plans retry_plans \<and>
     layer_result T b env plans (first_replies env plans @ retry_replies env retry_plans) out"
  using assms by (rule rr.execute_result)

theorem execute_layer_exactly_once_witness:
  "\<exists>out plans retry_plans. fst (execute_routed_layer torch_ref rr_select ex_batch ex_env RoundRobinSelector) = Inr out \<and>
     layer_plans torch_ref rr_select ex_batch ex_env RoundRobinSelector plans retry_plans \<and>
     layer_result torch_ref ex_batch ex_env plans (first_replies ex_env plans @ retry_replies ex_env retry_plans) out"
proof -
  obtain out where "fst (execute_routed_layer torch_ref rr_select ex_batch ex_env RoundRobinSelector) = Inr out"
    using rr.execute_returns [OF torch_ref_doc ex_batch_ok ex_batch_small ex_env_ok ex_env_clock ex_env_topology(1,2)
        ex_env_routes ex_env_routes ex_env_pools ex_env_pools] ex_env_submissions ex_env_topology(3) by metis
  with execute_layer_exactly_once [OF torch_ref_doc ex_batch_ok ex_batch_small ex_env_ok this] show ?thesis by blast
qed

text \<open>
  C6. The layer completes: when both snapshots route every expert to Workers with matching
  pools, the clock leaves time for the retry delay, every failure of the first attempt is
  retryable with a required version the refreshed snapshot reaches, and the second attempt's
  submissions succeed, then \<open>execute_routed_layer\<close> returns a result.
\<close>

theorem execute_layer_returns:
  assumes "torch_int_doc T" and "rb_values_ok b" and "rb_token_count b * rb_top_k b < 2 ^ 32" and "env_ok env"
    and "clock_suffices env" and "le_current env = Inr snapshot" and "le_refresh env (ts_version snapshot) = Inr refreshed"
    and "routes_all snapshot b" and "routes_all refreshed b" and "pools_serve env b snapshot" and "pools_serve env b refreshed"
    and "retryable_upto (ts_version refreshed) (le_direct env)" and "\<And>i. retryable_upto (ts_version refreshed) (le_first env i)"
    and "\<And>i. \<exists>rows. le_retry env i = Filled rows"
  shows "\<exists>out. fst (execute_routed_layer T rr_select b env st) = Inr out"
  using assms by (rule rr.execute_returns)

theorem execute_layer_returns_witness:
  "\<exists>out. fst (execute_routed_layer torch_ref rr_select ex_batch ex_env RoundRobinSelector) = Inr out"
  using execute_layer_returns [OF torch_ref_doc ex_batch_ok ex_batch_small ex_env_ok ex_env_clock ex_env_topology(1,2)
      ex_env_routes ex_env_routes ex_env_pools ex_env_pools] ex_env_submissions ex_env_topology(3) by metis

text \<open>
  C8. The retry prefers other processes: let some of the plans of the first grouping have failed,
  and let \<open>unfinished_batch\<close> have built the retry batch and the table of failed processes from them. A
  plan of the second grouping sends an expert to a process that already failed that expert only if every replica of the expert in
  the refreshed snapshot is such a process; and such a plan is recognised by \<open>uses_failed_process\<close>, the test that
  delays the retry.
\<close>

theorem retry_avoids_failed_processes:
  assumes "torch_int_doc T" and "rb_values_ok b" and "rb_token_count b * rb_top_k b < 2 ^ 32"
    and "snapshot_ok snapshot" and "topology_targets_ok snapshot"
    and "fst (group_worker_batches T rr_select b snapshot st1 {} None False True) = Inr plans1"
    and "mset (map fw_plan fs) \<subseteq># mset plans1" and "unfinished_batch T b fs = Inr (u, failed)"
    and "snapshot_ok refreshed" and "topology_targets_ok refreshed"
    and "fst (group_worker_batches T rr_select u refreshed st {} (Some (map_of failed)) True False) = Inr plans"
    and "p \<in> set plans" and "e \<in> set (wb_distinct_expert_ids (pl_batch p))"
    and "f \<in> set fs" and "e \<in> set (wb_distinct_expert_ids (failure_batch f))"
    and "wc_identity (pl_target p) = wc_identity (pl_target (fw_plan f))"
  shows "uses_failed_process p failed \<and> (\<exists>reps. map_of (ts_routes refreshed) (rb_layer_id b, e) = Some reps \<and>
     (\<forall>t\<in>set reps. \<exists>g\<in>set fs. e \<in> set (wb_distinct_expert_ids (failure_batch g)) \<and>
        wc_identity t = wc_identity (pl_target (fw_plan g))))"
  using assms by (rule rr.retry_avoids_failed)

text \<open>
  The first plan of the example, expert 0 for token 0 on the only Worker that has it, and the third, both experts of
  token 2, fail. Expert 0 has no other replica, so the retry goes back to that Worker.
\<close>

definition ex_plans1 :: "int worker_batch_plan list" where
  "ex_plans1 = projr (fst (group_worker_batches torch_ref rr_select ex_batch ex_snapshot RoundRobinSelector {} None False True))"

definition ex_failures :: "int failed_worker_batch list" where
  "ex_failures = map (\<lambda>i. \<lparr>fw_plan = ex_plans1 ! i, fw_error = TransportError BUSY True []\<rparr>) [0, 2]"

definition ex_unfinished :: "int routed_layer_batch" where
  "ex_unfinished = fst (projr (unfinished_batch torch_ref ex_batch ex_failures))"

definition ex_failed :: "(int, worker_identity set) dict" where
  "ex_failed = snd (projr (unfinished_batch torch_ref ex_batch ex_failures))"

definition ex_retry_plans :: "int worker_batch_plan list" where
  "ex_retry_plans = projr (fst (group_worker_batches torch_ref rr_select ex_unfinished ex_snapshot RoundRobinSelector {}
     (Some (map_of ex_failed)) True False))"

lemma projr_eq: "\<not> isl x \<Longrightarrow> x = Inr (projr x)"
  by (cases x) simp_all

theorem retry_avoids_failed_processes_witness:
  "uses_failed_process (hd ex_retry_plans) ex_failed \<and> map fst ex_failed = [0, 4] \<and>
   (\<exists>reps. map_of (ts_routes ex_snapshot) (rb_layer_id ex_batch, 0) = Some reps \<and> wc_identity ` set reps = {wc_identity ex_worker_a})"
proof -
  have "\<not> isl (fst (group_worker_batches torch_ref rr_select ex_batch ex_snapshot RoundRobinSelector {} None False True))" by code_simp
  then have first: "fst (group_worker_batches torch_ref rr_select ex_batch ex_snapshot RoundRobinSelector {} None False True) = Inr ex_plans1"
    unfolding ex_plans1_def by (rule projr_eq)
  have "\<not> isl (unfinished_batch torch_ref ex_batch ex_failures)" by code_simp
  then have unfinished: "unfinished_batch torch_ref ex_batch ex_failures = Inr (ex_unfinished, ex_failed)"
    unfolding ex_unfinished_def ex_failed_def by (simp add: projr_eq)
  have "\<not> isl (fst (group_worker_batches torch_ref rr_select ex_unfinished ex_snapshot RoundRobinSelector {} (Some (map_of ex_failed)) True False))"
    by code_simp
  then have second: "fst (group_worker_batches torch_ref rr_select ex_unfinished ex_snapshot RoundRobinSelector {} (Some (map_of ex_failed)) True False)
      = Inr ex_retry_plans" unfolding ex_retry_plans_def by (rule projr_eq)
  have "map fw_plan ex_failures = [ex_plans1 ! 0, ex_plans1 ! 2]" by (simp add: ex_failures_def)
  moreover have "ex_plans1 = [ex_plans1 ! 0, ex_plans1 ! 1, ex_plans1 ! 2, ex_plans1 ! 3]"
  proof -
    have "length ex_plans1 = 4" by code_simp
    then show ?thesis by (intro nth_equalityI) (auto simp: less_Suc_eq numeral_eq_Suc)
  qed
  then have "mset ex_plans1 = mset [ex_plans1 ! 0, ex_plans1 ! 1, ex_plans1 ! 2, ex_plans1 ! 3]" by (rule arg_cong)
  ultimately have part: "mset (map fw_plan ex_failures) \<subseteq># mset ex_plans1" by (simp add: subseteq_mset_def)
  have p: "hd ex_retry_plans \<in> set ex_retry_plans" "0 \<in> set (wb_distinct_expert_ids (pl_batch (hd ex_retry_plans)))"
    "0 \<in> set (wb_distinct_expert_ids (failure_batch (ex_failures ! 0)))"
    "wc_identity (pl_target (hd ex_retry_plans)) = wc_identity (pl_target (fw_plan (ex_failures ! 0)))"
    "list_all (\<lambda>f. wc_identity (pl_target (fw_plan f)) = wc_identity ex_worker_a) ex_failures" by code_simp+
  have f: "ex_failures ! 0 \<in> set ex_failures" by (simp add: ex_failures_def)
  note avoid = retry_avoids_failed_processes [OF torch_ref_doc ex_batch_ok ex_batch_small ex_snapshot_ok ex_targets_ok first part unfinished
      ex_snapshot_ok ex_targets_ok second p(1,2) f p(3,4)]
  then obtain reps where "map_of (ts_routes ex_snapshot) (rb_layer_id ex_batch, 0) = Some reps" "\<forall>t\<in>set reps. wc_identity t = wc_identity ex_worker_a"
    using p(5) by (fastforce simp: list_all_iff)
  moreover have "reps \<noteq> []" if "map_of (ts_routes ex_snapshot) (rb_layer_id ex_batch, 0) = Some reps" for reps
    using that by (auto simp: ex_snapshot_def ex_batch_def)
  moreover have "map fst ex_failed = [0, 4]" by code_simp
  moreover have "wc_identity ` set xs = {w}" if "xs \<noteq> []" "\<forall>t\<in>set xs. wc_identity t = w" for xs w
    using that by (cases xs) auto
  ultimately show ?thesis using avoid by blast
qed

end
