(* ===== verification/Receiver_Queue.thy ===== *)
theory Receiver_Queue
  imports Batches
begin

text \<open>
  \<open>ek-transport/src/expertkit_transport/transports/queue.py\<close>: the waiting area, drain gates and idle
  tracking of a Worker receiver. A \<open>ReceivedBatch\<close> is an object: \<open>ri_id\<close> is its identity, and the
  queue reads the layer and the distinct experts of its batch. Each coroutine body is one critical
  section of the condition variable, so an execution is a sequence of the operations below; the
  waiting coroutines are their test, evaluated when they hold the lock. The \<open>Counter\<close> of admitted
  experts is a function with default 0 and the observability callback, whose exceptions are
  suppressed, is left out.
\<close>

type_synonym expert_key = "int \<times> int"

record received_item =
  ri_id :: nat
  ri_layer :: int
  ri_experts :: "int list"

datatype entry_state = WAITING | ACTIVE

record queue_entry =
  qe_item :: received_item
  qe_layer_id :: int
  qe_expert_ids :: "int list"
  qe_retained_bytes :: int
  qe_state :: entry_state

record receiver_queue =
  rq_max_pending_batches :: int
  rq_max_retained_bytes :: int
  rq_waiting :: "queue_entry list"
  rq_entries :: "(nat, queue_entry) dict"
  rq_retained_bytes :: int
  rq_active_count :: int
  rq_admitted_experts :: "expert_key \<Rightarrow> int"
  rq_draining_experts :: "expert_key \<rightharpoonup> int"
  rq_stop_all :: "int option"
  rq_closing :: bool

definition ReceiverQueue :: "int \<Rightarrow> int \<Rightarrow> exn + receiver_queue" where
  "ReceiverQueue max_pending_batches max_retained_bytes =
     after (raise_first
       [(max_pending_batches < 1, ValueError ''max_pending_batches must be a positive integer''),
        (max_retained_bytes < 0, ValueError ''max_retained_bytes must be a nonnegative integer'')])
      (Inr \<lparr>rq_max_pending_batches = max_pending_batches, rq_max_retained_bytes = max_retained_bytes,
            rq_waiting = [], rq_entries = [], rq_retained_bytes = 0, rq_active_count = 0,
            rq_admitted_experts = (\<lambda>_. 0), rq_draining_experts = Map.empty, rq_stop_all = None, rq_closing = False\<rparr>)"

fun validate_experts_from :: "expert_key set \<Rightarrow> expert_key list \<Rightarrow> exn option" where
  "validate_experts_from seen [] = None"
| "validate_experts_from seen (key # rest) =
     (case raise_first
        [(\<not> (0 \<le> fst key \<and> fst key \<le> uint32_max), ValueError ''layer_id must be an unsigned 32-bit integer''),
         (\<not> (0 \<le> snd key \<and> snd key \<le> uint32_max), ValueError ''expert_id must be an unsigned 32-bit integer''),
         (key \<in> seen, ValueError ''draining experts must not contain duplicates'')]
      of Some e \<Rightarrow> Some e | None \<Rightarrow> validate_experts_from (insert key seen) rest)"

definition validate_experts :: "expert_key list \<Rightarrow> exn option" where
  "validate_experts experts = validate_experts_from {} experts"

definition drain_version :: "receiver_queue \<Rightarrow> int \<Rightarrow> int list \<Rightarrow> int option" where
  "drain_version q layer experts =
     fold (\<lambda>e m. case rq_draining_experts q (layer, e) of
                   None \<Rightarrow> m
                 | Some v \<Rightarrow> Some (max (case m of None \<Rightarrow> 0 | Some x \<Rightarrow> x) v))
       experts (rq_stop_all q)"

definition drain_error :: "receiver_queue \<Rightarrow> queue_entry \<Rightarrow> transport_error option" where
  "drain_error q entry =
     (case drain_version q (qe_layer_id entry) (qe_expert_ids entry) of
        None \<Rightarrow> None
      | Some v \<Rightarrow> Some ((TransportError DRAINING True ''Worker is draining the requested expert route'')
                          \<lparr>te_min_topology_version := Some v\<rparr>))"

definition admit_experts :: "queue_entry \<Rightarrow> (expert_key \<Rightarrow> int) \<Rightarrow> expert_key \<Rightarrow> int" where
  "admit_experts entry counts =
     fold (\<lambda>e c. c((qe_layer_id entry, e) := c (qe_layer_id entry, e) + 1)) (qe_expert_ids entry) counts"

definition release_experts :: "queue_entry \<Rightarrow> (expert_key \<Rightarrow> int) \<Rightarrow> expert_key \<Rightarrow> int" where
  "release_experts entry counts =
     fold (\<lambda>e c. c((qe_layer_id entry, e) := c (qe_layer_id entry, e) - 1)) (qe_expert_ids entry) counts"

text \<open>\<open>admit\<close> returns the rejection, or \<open>None\<close> after admitting.\<close>

definition queue_admit ::
  "received_item \<Rightarrow> int \<Rightarrow> receiver_queue \<Rightarrow> (exn + transport_error option) \<times> receiver_queue" where
  "queue_admit item retained_bytes q =
     (if retained_bytes < 0 then (Inl (ValueError ''retained_bytes must be a nonnegative integer''), q)
      else
       let entry = \<lparr>qe_item = item, qe_layer_id = ri_layer item, qe_expert_ids = ri_experts item,
                    qe_retained_bytes = retained_bytes, qe_state = WAITING\<rparr>
       in if rq_closing q
          then (Inr (Some (TransportError UNAVAILABLE True ''Worker Transport receiver is closing'')), q)
          else if map_of (rq_entries q) (ri_id item) \<noteq> None
          then (Inl (RuntimeError ''received batch is already admitted''), q)
          else (case drain_error q entry of
                  Some e \<Rightarrow> (Inr (Some e), q)
                | None \<Rightarrow>
                   if int (length (rq_waiting q)) \<ge> rq_max_pending_batches q \<or>
                      rq_retained_bytes q + retained_bytes > rq_max_retained_bytes q
                   then (Inr (Some (TransportError BUSY True ''Worker Transport waiting area is full'')), q)
                   else (Inr None,
                         q\<lparr>rq_waiting := rq_waiting q @ [entry],
                           rq_entries := AList.update (ri_id item) entry (rq_entries q),
                           rq_retained_bytes := rq_retained_bytes q + retained_bytes,
                           rq_admitted_experts := admit_experts entry (rq_admitted_experts q)\<rparr>)))"

text \<open>One evaluation of \<open>take\<close>: \<open>None\<close> keeps waiting. The entry object is shared by deque and dictionary.\<close>

definition queue_take :: "receiver_queue \<Rightarrow> (exn + received_item option) \<times> receiver_queue" where
  "queue_take q =
     (case rq_waiting q of
        [] \<Rightarrow> if rq_closing q then (Inl (ReceiverClosed ''Worker Transport receiver is closed''), q) else (Inr None, q)
      | entry # rest \<Rightarrow>
          (Inr (Some (qe_item entry)),
           q\<lparr>rq_waiting := rest,
             rq_retained_bytes := rq_retained_bytes q - qe_retained_bytes entry,
             rq_entries := AList.map_entry (ri_id (qe_item entry)) (\<lambda>e. e\<lparr>qe_state := ACTIVE\<rparr>) (rq_entries q),
             rq_active_count := rq_active_count q + 1\<rparr>))"

definition queue_cancel_waiting :: "received_item \<Rightarrow> receiver_queue \<Rightarrow> bool \<times> receiver_queue" where
  "queue_cancel_waiting item q =
     (case map_of (rq_entries q) (ri_id item) of
        None \<Rightarrow> (False, q)
      | Some entry \<Rightarrow>
         if qe_state entry \<noteq> WAITING then (False, q)
         else (True, q\<lparr>rq_waiting := remove1 entry (rq_waiting q),
                       rq_retained_bytes := rq_retained_bytes q - qe_retained_bytes entry,
                       rq_entries := AList.delete (ri_id item) (rq_entries q),
                       rq_admitted_experts := release_experts entry (rq_admitted_experts q)\<rparr>))"

definition not_active :: exn where
  "not_active = RuntimeError ''Worker batch completion requires an active received batch''"

definition queue_finish :: "received_item \<Rightarrow> receiver_queue \<Rightarrow> (exn + unit) \<times> receiver_queue" where
  "queue_finish item q =
     (case map_of (rq_entries q) (ri_id item) of
        None \<Rightarrow> (Inl not_active, q)
      | Some entry \<Rightarrow>
         if qe_state entry \<noteq> ACTIVE then (Inl not_active, q)
         else (Inr (), q\<lparr>rq_entries := AList.delete (ri_id item) (rq_entries q),
                         rq_active_count := rq_active_count q - 1,
                         rq_admitted_experts := release_experts entry (rq_admitted_experts q)\<rparr>))"

definition queue_require_active :: "received_item \<Rightarrow> receiver_queue \<Rightarrow> exn + unit" where
  "queue_require_active item q =
     (case map_of (rq_entries q) (ri_id item) of
        None \<Rightarrow> Inl not_active
      | Some entry \<Rightarrow> if qe_state entry \<noteq> ACTIVE then Inl not_active else Inr ())"

definition queue_begin_drain ::
  "expert_key list \<Rightarrow> int \<Rightarrow> bool \<Rightarrow> receiver_queue \<Rightarrow> (exn + unit) \<times> receiver_queue" where
  "queue_begin_drain experts min_topology_version stop_all q =
     (case validate_experts experts of
        Some e \<Rightarrow> (Inl e, q)
      | None \<Rightarrow>
        (case raise_first
           [(\<not> (0 \<le> min_topology_version \<and> min_topology_version \<le> uint64_max),
               ValueError ''min_topology_version must be a uint64''),
            (experts = [] \<and> \<not> stop_all, ValueError ''an expert drain must name at least one expert'')]
         of Some e \<Rightarrow> (Inl e, q)
          | None \<Rightarrow>
             (Inr (), q\<lparr>rq_draining_experts :=
                          fold (\<lambda>key d. d(key \<mapsto> max (case d key of None \<Rightarrow> 0 | Some v \<Rightarrow> v) min_topology_version))
                            experts (rq_draining_experts q),
                        rq_stop_all :=
                          (if stop_all then Some (max (case rq_stop_all q of None \<Rightarrow> 0 | Some v \<Rightarrow> v) min_topology_version)
                           else rq_stop_all q)\<rparr>)))"

definition queue_clear_expert_drains :: "expert_key list \<Rightarrow> receiver_queue \<Rightarrow> (exn + unit) \<times> receiver_queue" where
  "queue_clear_expert_drains experts q =
     (case validate_experts experts of
        Some e \<Rightarrow> (Inl e, q)
      | None \<Rightarrow> (Inr (), q\<lparr>rq_draining_experts := fold (\<lambda>key d. d(key := None)) experts (rq_draining_experts q)\<rparr>))"

text \<open>The waits: \<open>Inr True\<close> returns, \<open>Inr False\<close> waits again.\<close>

definition queue_wait :: "string \<Rightarrow> int option \<Rightarrow> int \<Rightarrow> exn + bool" where
  "queue_wait subject deadline now =
     (case deadline of
        None \<Rightarrow> Inr False
      | Some d \<Rightarrow> if d - now \<le> 0 then Inl (TimeoutError subject) else Inr False)"

definition wait_experts_idle :: "expert_key list \<Rightarrow> int option \<Rightarrow> int \<Rightarrow> receiver_queue \<Rightarrow> exn + bool" where
  "wait_experts_idle experts deadline now q =
     after (validate_experts experts)
      (if \<exists>key\<in>set experts. rq_admitted_experts q key \<noteq> 0
       then queue_wait ''deadline expired while waiting for admitted expert use'' deadline now else Inr True)"

definition wait_all_idle :: "int option \<Rightarrow> int \<Rightarrow> receiver_queue \<Rightarrow> exn + bool" where
  "wait_all_idle deadline now q =
     (if rq_waiting q \<noteq> [] \<or> rq_active_count q \<noteq> 0
      then queue_wait ''deadline expired while waiting for all admitted work'' deadline now else Inr True)"

definition wait_active_empty :: "receiver_queue \<Rightarrow> bool" where
  "wait_active_empty q \<longleftrightarrow> rq_active_count q = 0"

definition pending_count :: "receiver_queue \<Rightarrow> int" where
  "pending_count q = int (length (rq_waiting q))"

definition wait_for_pending_count :: "int \<Rightarrow> receiver_queue \<Rightarrow> bool" where
  "wait_for_pending_count expected q \<longleftrightarrow> int (length (rq_waiting q)) = expected \<or> rq_closing q"

definition admitted_count :: "int \<Rightarrow> int \<Rightarrow> receiver_queue \<Rightarrow> int" where
  "admitted_count layer_id expert_id q = rq_admitted_experts q (layer_id, expert_id)"

definition queue_begin_close :: "receiver_queue \<Rightarrow> received_item list \<times> receiver_queue" where
  "queue_begin_close q =
     (if rq_closing q then ([], q)
      else (map qe_item (rq_waiting q),
            q\<lparr>rq_closing := True,
              rq_entries := fold (\<lambda>e d. AList.delete (ri_id (qe_item e)) d) (rq_waiting q) (rq_entries q),
              rq_admitted_experts := fold release_experts (rq_waiting q) (rq_admitted_experts q),
              rq_waiting := [], rq_retained_bytes := 0\<rparr>))"

section \<open>Sequences of operations\<close>

datatype queue_op =
    Admit received_item int
  | Take
  | Cancel_Waiting received_item
  | Finish received_item
  | Begin_Drain "expert_key list" int bool
  | Clear_Drains "expert_key list"
  | Begin_Close

fun queue_apply :: "queue_op \<Rightarrow> receiver_queue \<Rightarrow> receiver_queue" where
  "queue_apply (Admit i n) q = snd (queue_admit i n q)"
| "queue_apply Take q = snd (queue_take q)"
| "queue_apply (Cancel_Waiting i) q = snd (queue_cancel_waiting i q)"
| "queue_apply (Finish i) q = snd (queue_finish i q)"
| "queue_apply (Begin_Drain es v s) q = snd (queue_begin_drain es v s q)"
| "queue_apply (Clear_Drains es) q = snd (queue_clear_expert_drains es q)"
| "queue_apply Begin_Close q = snd (queue_begin_close q)"

definition queue_run :: "queue_op list \<Rightarrow> receiver_queue \<Rightarrow> receiver_queue" where
  "queue_run ops q = fold queue_apply ops q"

section \<open>The invariant\<close>

definition uses :: "queue_entry \<Rightarrow> expert_key \<Rightarrow> int" where
  "uses e k = (if fst k = qe_layer_id e then int (count_list (qe_expert_ids e) (snd k)) else 0)"

abbreviation live :: "receiver_queue \<Rightarrow> queue_entry list" where
  "live q \<equiv> map snd (rq_entries q)"

abbreviation waiting_of :: "queue_entry list \<Rightarrow> queue_entry list" where
  "waiting_of es \<equiv> filter (\<lambda>e. qe_state e = WAITING) es"

abbreviation active_of :: "queue_entry list \<Rightarrow> queue_entry list" where
  "active_of es \<equiv> filter (\<lambda>e. qe_state e = ACTIVE) es"

definition usage :: "queue_entry list \<Rightarrow> expert_key \<Rightarrow> int" where
  "usage es k = (\<Sum>e\<leftarrow>es. uses e k)"

definition bytes_of :: "queue_entry list \<Rightarrow> int" where
  "bytes_of es = (\<Sum>e\<leftarrow>es. qe_retained_bytes e)"

definition queue_inv :: "receiver_queue \<Rightarrow> bool" where
  "queue_inv q \<longleftrightarrow> dict_ok (rq_entries q) \<and> (\<forall>p\<in>set (rq_entries q). ri_id (qe_item (snd p)) = fst p) \<and>
     (\<forall>e\<in>set (live q). 0 \<le> qe_retained_bytes e) \<and>
     rq_waiting q = waiting_of (live q) \<and>
     rq_retained_bytes q = bytes_of (rq_waiting q) \<and> rq_retained_bytes q \<le> rq_max_retained_bytes q \<and>
     int (length (rq_waiting q)) \<le> rq_max_pending_batches q \<and>
     rq_active_count q = int (length (active_of (live q))) \<and>
     (\<forall>k. rq_admitted_experts q k = usage (live q) k) \<and>
     (rq_closing q \<longrightarrow> rq_waiting q = [])"

lemma usage_simps [simp]:
  "usage [] k = 0" "usage (e # es) k = uses e k + usage es k" "usage (xs @ ys) k = usage xs k + usage ys k"
  by (simp_all add: usage_def)

lemma bytes_of_simps [simp]:
  "bytes_of [] = 0" "bytes_of (e # es) = qe_retained_bytes e + bytes_of es" "bytes_of (xs @ ys) = bytes_of xs + bytes_of ys"
  by (simp_all add: bytes_of_def)

lemma uses_nonneg: "0 \<le> uses e k"
  by (simp add: uses_def)

lemma usage_nonneg: "0 \<le> usage es k"
  by (induction es) (auto intro: add_nonneg_nonneg uses_nonneg)

lemma bytes_of_nonneg: "\<forall>e\<in>set es. 0 \<le> qe_retained_bytes e \<Longrightarrow> 0 \<le> bytes_of es"
  by (induction es) auto

lemma uses_state [simp]: "uses (e\<lparr>qe_state := st\<rparr>) k = uses e k"
  by (simp add: uses_def)

lemma admit_experts_eq: "admit_experts e c k = c k + uses e k"
proof -
  have "fold (\<lambda>x c. c((l, x) := c (l, x) + 1)) xs c k = c k + (if fst k = l then int (count_list xs (snd k)) else 0)" for l xs
    by (induction xs arbitrary: c) (auto simp: prod_eq_iff)
  then show ?thesis by (simp add: admit_experts_def uses_def)
qed

lemma release_experts_eq: "release_experts e c k = c k - uses e k"
proof -
  have "fold (\<lambda>x c. c((l, x) := c (l, x) - 1)) xs c k = c k - (if fst k = l then int (count_list xs (snd k)) else 0)" for l xs
    by (induction xs arbitrary: c) (auto simp: prod_eq_iff)
  then show ?thesis by (simp add: release_experts_def uses_def)
qed

lemma release_all_eq: "fold release_experts es c k = c k - usage es k"
  by (induction es arbitrary: c) (auto simp: release_experts_eq)

lemma ReceiverQueue_inv: "ReceiverQueue m r = Inr q \<Longrightarrow> queue_inv q"
  by (auto simp: ReceiverQueue_def queue_inv_def dict_ok_def)

lemma queue_admit_cases:
  assumes "queue_inv q"
  shows "snd (queue_admit i n q) = q \<or>
     (\<exists>e. e = \<lparr>qe_item = i, qe_layer_id = ri_layer i, qe_expert_ids = ri_experts i, qe_retained_bytes = n, qe_state = WAITING\<rparr> \<and>
        0 \<le> n \<and> \<not> rq_closing q \<and> map_of (rq_entries q) (ri_id i) = None \<and> drain_error q e = None \<and>
        int (length (rq_waiting q)) < rq_max_pending_batches q \<and> rq_retained_bytes q + n \<le> rq_max_retained_bytes q \<and>
        fst (queue_admit i n q) = Inr None \<and>
        snd (queue_admit i n q) = q\<lparr>rq_waiting := rq_waiting q @ [e], rq_entries := rq_entries q @ [(ri_id i, e)],
          rq_retained_bytes := rq_retained_bytes q + n, rq_admitted_experts := admit_experts e (rq_admitted_experts q)\<rparr>)"
  by (auto simp: queue_admit_def Let_def not_le not_less dict_update_new split: option.splits)

lemma queue_inv_admit:
  assumes "queue_inv q"
  shows "queue_inv (snd (queue_admit i n q))"
  using queue_admit_cases [OF assms, of i n]
proof (elim disjE exE conjE)
  assume "snd (queue_admit i n q) = q"
  with assms show ?thesis by simp
next
  fix e
  assume "e = \<lparr>qe_item = i, qe_layer_id = ri_layer i, qe_expert_ids = ri_experts i, qe_retained_bytes = n, qe_state = WAITING\<rparr>"
    and "0 \<le> n" "\<not> rq_closing q" "map_of (rq_entries q) (ri_id i) = None"
    "int (length (rq_waiting q)) < rq_max_pending_batches q" "rq_retained_bytes q + n \<le> rq_max_retained_bytes q"
    and s: "snd (queue_admit i n q) = q\<lparr>rq_waiting := rq_waiting q @ [e], rq_entries := rq_entries q @ [(ri_id i, e)],
          rq_retained_bytes := rq_retained_bytes q + n, rq_admitted_experts := admit_experts e (rq_admitted_experts q)\<rparr>"
  with assms show ?thesis
    unfolding s queue_inv_def by (simp add: dict_ok_def map_of_eq_None_iff admit_experts_eq)
qed

text \<open>An entry of the dictionary, with the lists around it.\<close>

lemma entry_split:
  assumes "queue_inv q" and "map_of (rq_entries q) i = Some e"
  obtains xs ys where "rq_entries q = xs @ (i, e) # ys" and "AList.delete i (rq_entries q) = xs @ ys"
    and "\<And>f. AList.map_entry i f (rq_entries q) = xs @ (i, f e) # ys" and "ri_id (qe_item e) = i"
    and "i \<notin> fst ` set xs" and "i \<notin> fst ` set ys" and "e \<notin> set (map snd xs)" and "e \<notin> set (map snd ys)"
proof -
  have d: "dict_ok (rq_entries q)" and ids: "\<forall>p\<in>set (rq_entries q). ri_id (qe_item (snd p)) = fst p"
    using assms(1) by (simp_all add: queue_inv_def)
  from dict_split [OF d assms(2)] obtain xs ys where s: "rq_entries q = xs @ (i, e) # ys" "i \<notin> fst ` set xs"
    "i \<notin> fst ` set ys" "AList.delete i (rq_entries q) = xs @ ys" "\<And>f. AList.map_entry i f (rq_entries q) = xs @ (i, f e) # ys"
    by metis
  moreover have "ri_id (qe_item e) = i" using ids s(1) by simp
  moreover have "e \<notin> set (map snd xs)" "e \<notin> set (map snd ys)"
    using ids s(1-3) \<open>ri_id (qe_item e) = i\<close> by force+
  ultimately show ?thesis using that by blast
qed

lemma queue_inv_take: "queue_inv q \<Longrightarrow> queue_inv (snd (queue_take q))"
proof (cases "rq_waiting q")
  case (Cons e rest)
  assume inv: "queue_inv q"
  have wait: "waiting_of (live q) = e # rest" using inv Cons by (simp add: queue_inv_def)
  then have "e \<in> set (waiting_of (live q))" by simp
  then have "e \<in> set (live q)" "qe_state e = WAITING" by simp_all
  then obtain i where "(i, e) \<in> set (rq_entries q)" by auto
  then have look: "map_of (rq_entries q) (ri_id (qe_item e)) = Some e" and i: "i = ri_id (qe_item e)"
    using inv by (auto simp: queue_inv_def dict_ok_def)
  obtain xs ys where s: "rq_entries q = xs @ (i, e) # ys"
    "AList.map_entry i (\<lambda>e. e\<lparr>qe_state := ACTIVE\<rparr>) (rq_entries q) = xs @ (i, e\<lparr>qe_state := ACTIVE\<rparr>) # ys" "e \<notin> set (map snd xs)"
    using entry_split [OF inv look] i by metis
  have "waiting_of (map snd xs) = []"
  proof (cases "waiting_of (map snd xs)")
    case (Cons e' r)
    with wait s(1) have "e' = e" by simp
    moreover have "e' \<in> set (waiting_of (map snd xs))" using Cons by simp
    ultimately show ?thesis using s(3) by simp
  qed
  with wait s(1) \<open>qe_state e = WAITING\<close> have "rest = waiting_of (map snd ys)" by simp
  with inv Cons s \<open>waiting_of (map snd xs) = []\<close> i show ?thesis
    by (auto simp: queue_inv_def queue_take_def dict_ok_def simp del: length_filter_map)
qed (auto simp: queue_take_def)

lemma queue_inv_cancel:
  assumes "queue_inv q"
  shows "queue_inv (snd (queue_cancel_waiting i q))"
proof (cases "map_of (rq_entries q) (ri_id i)")
  case (Some e)
  from entry_split [OF assms Some] obtain xs ys where s: "rq_entries q = xs @ (ri_id i, e) # ys"
    "AList.delete (ri_id i) (rq_entries q) = xs @ ys" "e \<notin> set (map snd xs)" "e \<notin> set (map snd ys)" by metis
  show ?thesis
  proof (cases "qe_state e = WAITING")
    case True
    have "remove1 e (rq_waiting q) = waiting_of (map snd (xs @ ys))"
      using assms s True by (simp add: queue_inv_def remove1_append)
    moreover have "int (length (remove1 e (rq_waiting q))) \<le> rq_max_pending_batches q"
      using assms by (auto simp: queue_inv_def length_remove1 simp del: length_filter_map)
    moreover have "bytes_of (waiting_of (map snd (xs @ ys))) \<le> bytes_of (rq_waiting q)"
      using assms s(1) True by (simp add: queue_inv_def)
    ultimately show ?thesis
      using assms s True Some
      by (auto simp: queue_inv_def queue_cancel_waiting_def dict_ok_def release_experts_eq simp del: length_filter_map)
  qed (use assms Some in \<open>simp add: queue_cancel_waiting_def\<close>)
qed (use assms in \<open>simp add: queue_cancel_waiting_def\<close>)

lemma queue_inv_finish:
  assumes "queue_inv q"
  shows "queue_inv (snd (queue_finish i q))"
proof (cases "map_of (rq_entries q) (ri_id i)")
  case (Some e)
  from entry_split [OF assms Some] obtain xs ys where s: "rq_entries q = xs @ (ri_id i, e) # ys"
    "AList.delete (ri_id i) (rq_entries q) = xs @ ys" by metis
  show ?thesis
    using assms s Some
    by (cases "qe_state e") (auto simp: queue_inv_def queue_finish_def dict_ok_def release_experts_eq simp del: length_filter_map)
qed (use assms in \<open>simp add: queue_finish_def\<close>)

lemma delete_all_eq:
  "fold (\<lambda>e d. AList.delete (f e) d) es d = filter (\<lambda>p. fst p \<notin> f ` set es) d"
proof (induction es arbitrary: d)
  case (Cons e es)
  then show ?case by (simp add: AList.delete_eq case_prod_unfold conj_commute) (metis (no_types, lifting))
qed simp

lemma queue_inv_close:
  assumes "queue_inv q"
  shows "queue_inv (snd (queue_begin_close q))"
proof (cases "rq_closing q")
  case False
  let ?es = "rq_entries q"
  have keys: "fst p \<in> (\<lambda>e. ri_id (qe_item e)) ` set (rq_waiting q) \<longleftrightarrow> qe_state (snd p) = WAITING" if p: "p \<in> set ?es" for p
  proof
    assume "fst p \<in> (\<lambda>e. ri_id (qe_item e)) ` set (rq_waiting q)"
    then obtain p' where p': "p' \<in> set ?es" "qe_state (snd p') = WAITING" "fst p = ri_id (qe_item (snd p'))"
      using assms by (auto simp: queue_inv_def)
    then have "fst p' = fst p" using assms by (simp add: queue_inv_def)
    then have "p' = p" using assms p p'(1) by (simp add: queue_inv_def dict_ok_def eq_key_imp_eq_value prod_eq_iff)
        (metis eq_key_imp_eq_value prod.collapse)
    with p'(2) show "qe_state (snd p) = WAITING" by simp
  next
    assume "qe_state (snd p) = WAITING"
    then have "snd p \<in> set (rq_waiting q)" using assms p by (simp add: queue_inv_def)
    moreover have "fst p = ri_id (qe_item (snd p))" using assms p by (simp add: queue_inv_def)
    ultimately show "fst p \<in> (\<lambda>e. ri_id (qe_item e)) ` set (rq_waiting q)" by blast
  qed
  then have del: "fold (\<lambda>e d. AList.delete (ri_id (qe_item e)) d) (rq_waiting q) ?es = filter (\<lambda>p. qe_state (snd p) \<noteq> WAITING) ?es"
    unfolding delete_all_eq by (intro filter_cong refl) simp
  have sum: "usage (map snd ps) k - usage (waiting_of (map snd ps)) k = usage (map snd (filter (\<lambda>p. qe_state (snd p) \<noteq> WAITING) ps)) k"
    and act: "active_of (map snd (filter (\<lambda>p. qe_state (snd p) \<noteq> WAITING) ps)) = active_of (map snd ps)"
    and none: "waiting_of (map snd (filter (\<lambda>p. qe_state (snd p) \<noteq> WAITING) ps)) = []" for ps :: "(nat \<times> queue_entry) list" and k
    by (induction ps) auto
  have "0 \<le> rq_max_retained_bytes q" "0 \<le> rq_max_pending_batches q"
  proof -
    have "0 \<le> bytes_of (waiting_of (live q))" using assms by (intro bytes_of_nonneg) (auto simp: queue_inv_def)
    moreover have "bytes_of (waiting_of (live q)) \<le> rq_max_retained_bytes q" using assms unfolding queue_inv_def by metis
    ultimately show "0 \<le> rq_max_retained_bytes q" by linarith
    show "0 \<le> rq_max_pending_batches q" using assms unfolding queue_inv_def by linarith
  qed
  moreover have w: "rq_waiting q = waiting_of (live q)" using assms unfolding queue_inv_def by blast
  ultimately show ?thesis
    using assms False unfolding queue_inv_def
    by (simp add: queue_begin_close_def del [unfolded w] act none release_all_eq sum dict_ok_def distinct_map_filter
        del: length_filter_map)
qed (use assms in \<open>simp add: queue_begin_close_def\<close>)

lemma queue_inv_frame: "queue_inv (q\<lparr>rq_draining_experts := d, rq_stop_all := s\<rparr>) = queue_inv q"
  "queue_inv (q\<lparr>rq_draining_experts := d\<rparr>) = queue_inv q"
  by (simp_all add: queue_inv_def)

lemma queue_inv_gates:
  "queue_inv q \<Longrightarrow> queue_inv (snd (queue_begin_drain es v s q))"
  "queue_inv q \<Longrightarrow> queue_inv (snd (queue_clear_expert_drains es q))"
  by (auto simp: queue_inv_frame queue_begin_drain_def queue_clear_expert_drains_def split: option.splits)

lemma queue_apply_inv: "queue_inv q \<Longrightarrow> queue_inv (queue_apply op q)"
  by (cases op)
    (simp_all add: queue_inv_admit queue_inv_take queue_inv_cancel queue_inv_finish queue_inv_close queue_inv_gates)

lemma queue_run_inv: "queue_inv q \<Longrightarrow> queue_inv (queue_run ops q)"
  unfolding queue_run_def by (induction ops arbitrary: q) (simp_all add: queue_apply_inv)

section \<open>First in, first out\<close>

text \<open>The abstract queue: the items in waiting order.\<close>

definition queue_abs :: "receiver_queue \<Rightarrow> received_item list" where
  "queue_abs q = map qe_item (rq_waiting q)"

locale fifo_waiting =
  fixes abs :: "'s \<Rightarrow> 'i list"
    and admit :: "'i \<Rightarrow> 'n \<Rightarrow> 's \<Rightarrow> ('x + 'r option) \<times> 's"
    and take_next :: "'s \<Rightarrow> ('x + 'i option) \<times> 's"
    and inv :: "'s \<Rightarrow> bool"
  assumes abs_admitted: "inv s \<Longrightarrow> admit i n s = (Inr None, t) \<Longrightarrow> abs t = abs s @ [i]"
    and abs_rejected: "inv s \<Longrightarrow> fst (admit i n s) \<noteq> Inr None \<Longrightarrow> snd (admit i n s) = s"
    and take_oldest: "inv s \<Longrightarrow> abs s = i # is \<Longrightarrow> fst (take_next s) = Inr (Some i) \<and> abs (snd (take_next s)) = is"
    and take_empty: "inv s \<Longrightarrow> abs s = [] \<Longrightarrow> (\<forall>i. fst (take_next s) \<noteq> Inr (Some i)) \<and> snd (take_next s) = s"
begin

lemma take_from_front: "inv s \<Longrightarrow> fst (take_next s) = Inr (Some i) \<Longrightarrow> abs s = i # abs (snd (take_next s))"
  using take_oldest take_empty by (cases "abs s") fastforce+

lemma take_only_front: "inv s \<Longrightarrow> \<forall>i. fst (take_next s) \<noteq> Inr (Some i) \<Longrightarrow> abs (snd (take_next s)) = abs s"
  using take_oldest take_empty by (cases "abs s") fastforce+

end

interpretation fifo: fifo_waiting queue_abs queue_admit queue_take queue_inv
proof unfold_locales
  fix q t i n assume "queue_inv q" "queue_admit i n q = (Inr None, t)"
  then show "queue_abs t = queue_abs q @ [i]"
    by (auto simp: queue_admit_def queue_abs_def Let_def split: if_splits option.splits)
next
  fix q i n assume "queue_inv q" "fst (queue_admit i n q) \<noteq> Inr None"
  then show "snd (queue_admit i n q) = q"
    by (auto simp: queue_admit_def Let_def split: if_splits option.splits)
next
  fix q i "is" assume "queue_inv q" "queue_abs q = i # is"
  then show "fst (queue_take q) = Inr (Some i) \<and> queue_abs (snd (queue_take q)) = is"
    by (auto simp: queue_take_def queue_abs_def)
next
  fix q assume "queue_inv q" "queue_abs q = []"
  then show "(\<forall>i. fst (queue_take q) \<noteq> Inr (Some i)) \<and> snd (queue_take q) = q"
    by (auto simp: queue_take_def queue_abs_def)
qed

text \<open>What a sequence of operations admits, and what it hands to execution.\<close>

fun accepted :: "queue_op list \<Rightarrow> receiver_queue \<Rightarrow> received_item list" where
  "accepted [] q = []"
| "accepted (op # ops) q =
     (case op of Admit i n \<Rightarrow> (if fst (queue_admit i n q) = Inr None then [i] else []) | _ \<Rightarrow> []) @
     accepted ops (queue_apply op q)"

fun taken :: "queue_op list \<Rightarrow> receiver_queue \<Rightarrow> received_item list" where
  "taken [] q = []"
| "taken (op # ops) q =
     (case op of Take \<Rightarrow> (case fst (queue_take q) of Inr (Some i) \<Rightarrow> [i] | _ \<Rightarrow> []) | _ \<Rightarrow> []) @
     taken ops (queue_apply op q)"

definition keeps_waiting :: "queue_op \<Rightarrow> bool" where
  "keeps_waiting op \<longleftrightarrow> (case op of Cancel_Waiting _ \<Rightarrow> False | Begin_Close \<Rightarrow> False | _ \<Rightarrow> True)"

lemma queue_abs_other:
  "queue_abs (snd (queue_finish i q)) = queue_abs q" "queue_abs (snd (queue_begin_drain es v s q)) = queue_abs q"
  "queue_abs (snd (queue_clear_expert_drains es q)) = queue_abs q"
  by (auto simp: queue_abs_def queue_finish_def queue_begin_drain_def queue_clear_expert_drains_def split: option.splits)

lemma fifo_step:
  assumes "queue_inv q" and "keeps_waiting op"
  shows "queue_abs q @ accepted [op] q = taken [op] q @ queue_abs (queue_apply op q)"
proof (cases op)
  case (Admit i n)
  show ?thesis
  proof (cases "fst (queue_admit i n q) = Inr None")
    case True
    then have "queue_admit i n q = (Inr None, snd (queue_admit i n q))" by (metis prod.collapse)
    from fifo.abs_admitted [OF assms(1) this] Admit True show ?thesis by simp
  qed (use Admit fifo.abs_rejected [OF assms(1)] in simp)
next
  case Take
  then show ?thesis
    using fifo.take_from_front [OF assms(1)] fifo.take_only_front [OF assms(1)]
    by (auto split: sum.splits option.splits)
qed (use assms(2) in \<open>simp_all add: queue_abs_other keeps_waiting_def\<close>)

lemma fifo_run:
  assumes "queue_inv q" and "\<forall>op\<in>set ops. keeps_waiting op"
  shows "queue_abs q @ accepted ops q = taken ops q @ queue_abs (queue_run ops q)"
  using assms
proof (induction ops arbitrary: q)
  case (Cons op ops)
  have one: "queue_abs q @ accepted [op] q = taken [op] q @ queue_abs (queue_apply op q)"
    using Cons.prems by (intro fifo_step) auto
  have rest: "queue_abs (queue_apply op q) @ accepted ops (queue_apply op q)
      = taken ops (queue_apply op q) @ queue_abs (queue_run ops (queue_apply op q))"
    using Cons.prems by (intro Cons.IH) (auto intro: queue_apply_inv)
  have "queue_abs q @ accepted (op # ops) q = (queue_abs q @ accepted [op] q) @ accepted ops (queue_apply op q)" by simp
  also have "\<dots> = taken [op] q @ taken ops (queue_apply op q) @ queue_abs (queue_run ops (queue_apply op q))"
    unfolding one append.assoc rest by (rule refl)
  also have "\<dots> = taken (op # ops) q @ queue_abs (queue_run (op # ops) q)" by (simp add: queue_run_def)
  finally show ?case .
qed (simp add: queue_run_def)

section \<open>Drain gates\<close>

text \<open>
  The contract weight removal relies on: behind a gate the use of an expert never grows, and a
  gate stays until it is cleared.
\<close>

definition queue_gated :: "receiver_queue \<Rightarrow> expert_key \<Rightarrow> bool" where
  "queue_gated q k \<longleftrightarrow> rq_draining_experts q k \<noteq> None \<or> rq_stop_all q \<noteq> None"

definition clears_gate :: "queue_op \<Rightarrow> expert_key \<Rightarrow> bool" where
  "clears_gate op k \<longleftrightarrow> (case op of Clear_Drains es \<Rightarrow> k \<in> set es | _ \<Rightarrow> False)"

lemma drain_version_None:
  "drain_version q l es = None \<longleftrightarrow> rq_stop_all q = None \<and> (\<forall>e\<in>set es. rq_draining_experts q (l, e) = None)"
proof -
  have "fold (\<lambda>e m. case rq_draining_experts q (l, e) of None \<Rightarrow> m
         | Some v \<Rightarrow> Some (max (case m of None \<Rightarrow> 0 | Some x \<Rightarrow> x) v)) es m = None
      \<longleftrightarrow> m = None \<and> (\<forall>e\<in>set es. rq_draining_experts q (l, e) = None)" for m
    by (induction es arbitrary: m) (auto split: option.splits)
  then show ?thesis by (simp add: drain_version_def)
qed

lemma gated_admit:
  assumes "queue_inv q" and "queue_gated q k"
  shows "rq_admitted_experts (snd (queue_admit i n q)) k = rq_admitted_experts q k"
  using queue_admit_cases [OF assms(1), of i n]
proof (elim disjE exE conjE)
  fix e assume e: "e = \<lparr>qe_item = i, qe_layer_id = ri_layer i, qe_expert_ids = ri_experts i, qe_retained_bytes = n, qe_state = WAITING\<rparr>"
    and free: "drain_error q e = None"
    and new: "snd (queue_admit i n q) = q\<lparr>rq_waiting := rq_waiting q @ [e], rq_entries := rq_entries q @ [(ri_id i, e)],
          rq_retained_bytes := rq_retained_bytes q + n, rq_admitted_experts := admit_experts e (rq_admitted_experts q)\<rparr>"
  have "rq_stop_all q = None" "\<forall>x\<in>set (ri_experts i). rq_draining_experts q (ri_layer i, x) = None"
    using free by (auto simp: drain_error_def drain_version_None e split: option.splits)
  with assms(2) have "uses e k = 0"
    by (cases k) (auto simp: queue_gated_def uses_def e count_list_0_iff)
  then show ?thesis unfolding new by (simp add: admit_experts_eq)
qed simp

lemma admitted_other:
  assumes "queue_inv q"
  shows "rq_admitted_experts (snd (queue_take q)) k = rq_admitted_experts q k"
    and "rq_admitted_experts (snd (queue_cancel_waiting i q)) k \<le> rq_admitted_experts q k"
    and "rq_admitted_experts (snd (queue_finish i q)) k \<le> rq_admitted_experts q k"
    and "rq_admitted_experts (snd (queue_begin_drain es v s q)) k = rq_admitted_experts q k"
    and "rq_admitted_experts (snd (queue_clear_expert_drains es q)) k = rq_admitted_experts q k"
    and "rq_admitted_experts (snd (queue_begin_close q)) k \<le> rq_admitted_experts q k"
  by (auto simp: queue_take_def queue_cancel_waiting_def queue_finish_def queue_begin_drain_def
      queue_clear_expert_drains_def queue_begin_close_def release_experts_eq release_all_eq uses_nonneg usage_nonneg
      split: list.splits option.splits)

lemma drain_fold_kept:
  "d k \<noteq> None \<Longrightarrow> fold (\<lambda>key d. d(key \<mapsto> f key (d key))) es d k \<noteq> None"
  by (induction es arbitrary: d) auto

lemma clear_fold: "fold (\<lambda>key d. d(key := None)) es d k = (if k \<in> set es then None else d k)"
  by (induction es arbitrary: d) auto

lemma gate_preserved:
  assumes "queue_gated q k" and "\<not> clears_gate op k"
  shows "queue_gated (queue_apply op q) k"
proof (cases op)
  case (Admit i n)
  with assms show ?thesis
    by (auto simp: queue_gated_def queue_admit_def Let_def split: option.splits)
next
  case Take
  with assms show ?thesis by (auto simp: queue_gated_def queue_take_def split: list.splits)
next
  case (Begin_Drain es v s)
  with assms drain_fold_kept [of "rq_draining_experts q" k "\<lambda>key old. max (case old of None \<Rightarrow> 0 | Some v \<Rightarrow> v) v" es]
  show ?thesis by (auto simp: queue_gated_def queue_begin_drain_def split: option.splits)
next
  case (Clear_Drains es)
  with assms show ?thesis
    by (auto simp: queue_gated_def queue_clear_expert_drains_def clears_gate_def clear_fold split: option.splits)
qed (use assms in \<open>auto simp: queue_gated_def queue_cancel_waiting_def queue_finish_def queue_begin_close_def split: option.splits\<close>)

interpretation gate: drain_gate queue_apply queue_inv queue_gated rq_admitted_experts clears_gate
proof unfold_locales
  fix q op assume "queue_inv q"
  then show "queue_inv (queue_apply op q)" by (rule queue_apply_inv)
next
  fix q k assume "queue_inv q"
  then show "0 \<le> rq_admitted_experts q k" by (cases k) (simp add: queue_inv_def usage_nonneg)
next
  fix q k op assume "queue_gated q k" "\<not> clears_gate op k"
  then show "queue_gated (queue_apply op q) k" by (rule gate_preserved)
next
  fix q k op assume "queue_inv q" "queue_gated q k"
  then show "rq_admitted_experts (queue_apply op q) k \<le> rq_admitted_experts q k"
    using gated_admit admitted_other by (cases op) simp_all
qed

section \<open>Properties\<close>

definition ex_item :: "nat \<Rightarrow> int list \<Rightarrow> received_item" where
  "ex_item i es = \<lparr>ri_id = i, ri_layer = 2, ri_experts = es\<rparr>"

definition ex_queue :: receiver_queue where
  "ex_queue = \<lparr>rq_max_pending_batches = 2, rq_max_retained_bytes = 100, rq_waiting = [], rq_entries = [],
     rq_retained_bytes = 0, rq_active_count = 0, rq_admitted_experts = (\<lambda>_. 0),
     rq_draining_experts = Map.empty, rq_stop_all = None, rq_closing = False\<rparr>"

definition ex_ops :: "queue_op list" where
  "ex_ops = [Admit (ex_item 0 [4]) 60, Admit (ex_item 1 [4, 5]) 60, Admit (ex_item 2 [5]) 40, Take]"

lemma ex_queue_made: "ReceiverQueue 2 100 = Inr ex_queue"
  by (simp add: ex_queue_def ReceiverQueue_def)

text \<open>
  C11. After any sequence of operations on a new receiver queue the waiting area respects both
  published limits, the retained bytes and the active count are exact, the waiting entries are
  the admitted entries not yet taken in admission order, and the admitted-use counter of every
  expert is exactly the number of live batches naming it.
\<close>

theorem receiver_queue_accounting:
  assumes "ReceiverQueue m r = Inr q0" and "q = queue_run ops q0"
  shows "int (length (rq_waiting q)) \<le> rq_max_pending_batches q \<and> rq_retained_bytes q \<le> rq_max_retained_bytes q \<and>
     rq_retained_bytes q = bytes_of (rq_waiting q) \<and>
     rq_waiting q = waiting_of (live q) \<and> rq_active_count q = int (length (active_of (live q))) \<and>
     (\<forall>k. rq_admitted_experts q k = usage (live q) k)"
  using queue_run_inv [OF ReceiverQueue_inv [OF assms(1)], of ops] unfolding assms(2) [symmetric] queue_inv_def by blast

theorem receiver_queue_accounting_witness:
  "length (rq_waiting (queue_run ex_ops ex_queue)) = 1 \<and>
   rq_waiting (queue_run ex_ops ex_queue) = waiting_of (live (queue_run ex_ops ex_queue)) \<and>
   rq_retained_bytes (queue_run ex_ops ex_queue) = bytes_of (rq_waiting (queue_run ex_ops ex_queue))"
proof
  show "length (rq_waiting (queue_run ex_ops ex_queue)) = 1" by code_simp
  show "rq_waiting (queue_run ex_ops ex_queue) = waiting_of (live (queue_run ex_ops ex_queue)) \<and>
      rq_retained_bytes (queue_run ex_ops ex_queue) = bytes_of (rq_waiting (queue_run ex_ops ex_queue))"
    using receiver_queue_accounting [OF ex_queue_made refl, of ex_ops] by blast
qed

text \<open>
  C12. Batches reach execution in admission order: for every sequence of operations without
  cancellation or closing, the batches handed out followed by the batches still waiting are
  exactly the batches waiting at the start followed by the accepted ones.
\<close>

theorem receiver_queue_fifo:
  assumes "ReceiverQueue m r = Inr q0" and "q = queue_run before q0" and "\<forall>op\<in>set ops. keeps_waiting op"
  shows "queue_abs q @ accepted ops q = taken ops q @ queue_abs (queue_run ops q)"
  using fifo_run [OF queue_run_inv [OF ReceiverQueue_inv [OF assms(1)]] assms(3)] assms(2) by simp

theorem receiver_queue_fifo_witness:
  "taken [Admit (ex_item 0 [4]) 60, Admit (ex_item 2 [5]) 40, Take] ex_queue @
     queue_abs (queue_run [Admit (ex_item 0 [4]) 60, Admit (ex_item 2 [5]) 40, Take] ex_queue) = [ex_item 0 [4], ex_item 2 [5]]"
proof -
  let ?ops = "[Admit (ex_item 0 [4]) 60, Admit (ex_item 2 [5]) 40, Take]"
  have "ex_queue = queue_run [] ex_queue" by (simp add: queue_run_def)
  moreover have "\<forall>op\<in>set ?ops. keeps_waiting op" by (simp add: keeps_waiting_def)
  moreover have "queue_abs ex_queue @ accepted ?ops ex_queue = [ex_item 0 [4], ex_item 2 [5]]" by code_simp
  ultimately show ?thesis using receiver_queue_fifo [OF ex_queue_made, of ex_queue "[]" ?ops] by simp
qed

text \<open>
  C13. Draining is final: once \<open>begin_drain\<close> was accepted for a set of experts and, after any
  further operations, \<open>wait_experts_idle\<close> returned for them, then after any later operations that do
  not clear their gates no admitted batch names any of them, so their weights can be removed.
\<close>

theorem drained_experts_stay_idle:
  assumes "ReceiverQueue m r = Inr q0" and "q1 = queue_run before q0"
    and "queue_begin_drain es v stop q1 = (Inr (), q2)"
    and "q3 = queue_run between q2" and "wait_experts_idle es deadline now q3 = Inr True"
    and "\<forall>op\<in>set (between @ later). \<forall>k\<in>set es. \<not> clears_gate op k" and "k \<in> set es"
  shows "rq_admitted_experts (queue_run later q3) k = 0"
proof -
  have inv1: "queue_inv q1" using queue_run_inv [OF ReceiverQueue_inv [OF assms(1)]] assms(2) by simp
  then have inv2: "queue_inv q2" using queue_inv_gates(1) [of q1 es v stop] assms(3) by simp
  then have inv3: "queue_inv q3" using queue_run_inv assms(4) by simp
  have "d k \<noteq> None \<or> k \<in> set es \<Longrightarrow>
      fold (\<lambda>key d. d(key \<mapsto> max (case d key of None \<Rightarrow> 0 | Some x \<Rightarrow> x) v)) es d k \<noteq> None" for d
  proof (induction es arbitrary: d)
    case Nil
    then show ?case by simp
  next
    case (Cons x es)
    then show ?case unfolding fold_Cons comp_def by (intro Cons.IH) (auto split: option.splits)
  qed
  then have "queue_gated q2 k" using assms(3,7) by (auto simp: queue_begin_drain_def queue_gated_def split: option.splits)
  then have "queue_gated q3 k"
    using gate.use_decreases [OF inv2] assms(4,6,7) unfolding queue_run_def by simp
  moreover have "rq_admitted_experts q3 k = 0"
    using assms(5,7) by (auto simp: wait_experts_idle_def queue_wait_def split: if_splits option.splits)
  ultimately show ?thesis
    unfolding queue_run_def using gate.drained_for_good [OF inv3] assms(6,7) by simp
qed

theorem drained_experts_stay_idle_witness:
  "rq_admitted_experts (queue_run [Admit (ex_item 1 [4]) 10, Admit (ex_item 2 [5]) 10]
     (queue_run [Take, Finish (ex_item 0 [4])]
       (snd (queue_begin_drain [(2, 4)] 7 False (queue_run [Admit (ex_item 0 [4]) 60] ex_queue))))) (2, 4) = 0"
proof -
  let ?q1 = "queue_run [Admit (ex_item 0 [4]) 60] ex_queue"
  let ?q2 = "snd (queue_begin_drain [(2, 4)] 7 False ?q1)"
  let ?q3 = "queue_run [Take, Finish (ex_item 0 [4])] ?q2"
  have "fst (queue_begin_drain [(2, 4)] 7 False ?q1) = Inr ()" by code_simp
  then have "queue_begin_drain [(2, 4)] 7 False ?q1 = (Inr (), ?q2)" by (metis prod.collapse)
  moreover have "wait_experts_idle [(2, 4)] None 0 ?q3 = Inr True" by code_simp
  ultimately show ?thesis
    by (intro drained_experts_stay_idle [OF ex_queue_made refl _ refl, where es = "[(2, 4)]"]) (auto simp: clears_gate_def)
qed

end
