(* ===== verification/Safetensors.thy ===== *)
theory Safetensors
  imports Errors
begin

text \<open>
  \<open>ek-worker/src/expertkit_worker/weights/format.py\<close>: bounded SafeTensors parsing. A buffer is a
  list of bytes and a \<open>memoryview\<close> slice the sublist it shows. The standard library's text decoding of
  the header is passed in: \<open>decode\<close> is UTF-8 decoding into code points and \<open>loads\<close> the JSON reader, which
  yields the tree with the pairs of every object in order, before \<open>object_pairs_hook\<close> runs; \<open>None\<close> means
  that the text is rejected. Every theorem holds for all such readers. Diagnostics leave out the quoted
  entry name.
\<close>

type_synonym bytes = "nat list"

datatype json =
    JNull
  | JBool bool
  | JInt int
  | JFloat string
  | JString string
  | JArray "json list"
  | JObject "(string \<times> json) list"

definition MAX_SAFETENSORS_HEADER_BYTES :: int where
  "MAX_SAFETENSORS_HEADER_BYTES = 16 * 1024 * 1024"

definition MAX_TENSOR_BYTES :: int where
  "MAX_TENSOR_BYTES = 2 ^ 63 - 1"

definition max_safetensors_file_bytes :: "int \<Rightarrow> exn + int" where
  "max_safetensors_file_bytes tensor_bytes =
     (if tensor_bytes \<le> 0 then Inl (ValueError ''tensor_bytes must be a positive integer'')
      else Inr (8 + MAX_SAFETENSORS_HEADER_BYTES + tensor_bytes))"

datatype safetensor_dtype = ST_FP16 | ST_BF16 | ST_FP32

definition element_bytes :: "safetensor_dtype \<Rightarrow> int" where
  "element_bytes d = (if d = ST_FP32 then 4 else 2)"

definition safetensor_dtype_of :: "string \<Rightarrow> safetensor_dtype option" where
  "safetensor_dtype_of s =
     (if s = ''F16'' then Some ST_FP16 else if s = ''BF16'' then Some ST_BF16
      else if s = ''F32'' then Some ST_FP32 else None)"

record safetensor_region =
  sr_name :: string
  sr_dtype :: safetensor_dtype
  sr_shape :: "int list"
  sr_data :: bytes

record safetensor_data =
  sd_buffer :: bytes
  sd_tensors :: "(string, safetensor_region) dict"
  sd_metadata :: "(string, string) dict"

definition sr_byte_count :: "safetensor_region \<Rightarrow> int" where
  "sr_byte_count r = int (length (sr_data r))"

definition ends_with :: "string \<Rightarrow> string \<Rightarrow> bool" where
  "ends_with name suffix \<longleftrightarrow> length suffix \<le> length name \<and> drop (length name - length suffix) name = suffix"

definition find_unique_suffix :: "safetensor_data \<Rightarrow> string list \<Rightarrow> exn + safetensor_region" where
  "find_unique_suffix d suffixes =
     (case map snd (filter (\<lambda>(name, _). \<exists>s\<in>set suffixes. ends_with name s) (sd_tensors d)) of
        [] \<Rightarrow> Inl (SafeTensorFormatError ''required weight Tensor is missing'')
      | [t] \<Rightarrow> Inr t
      | _ \<Rightarrow> Inl (SafeTensorFormatError ''weight Tensor suffix is ambiguous''))"

text \<open>\<open>_unique_object\<close>, and the reader's application of it to every object, innermost first.\<close>

fun unique_object :: "(string, json) dict \<Rightarrow> (string \<times> json) list \<Rightarrow> exn + (string, json) dict" where
  "unique_object result [] = Inr result"
| "unique_object result ((key, value) # rest) =
     (if map_of result key \<noteq> None then Inl (SafeTensorFormatError (''duplicate SafeTensors header key: '' @ key))
      else unique_object (AList.update key value result) rest)"

fun hook_json :: "json \<Rightarrow> exn + json" and hook_list :: "json list \<Rightarrow> exn + json list"
  and hook_pairs :: "(string \<times> json) list \<Rightarrow> exn + (string \<times> json) list" where
  "hook_json (JObject ps) = rbind (hook_pairs ps) (\<lambda>qs. rbind (unique_object [] qs) (\<lambda>d. Inr (JObject d)))"
| "hook_json (JArray xs) = rbind (hook_list xs) (\<lambda>ys. Inr (JArray ys))"
| "hook_json JNull = Inr JNull"
| "hook_json (JBool b) = Inr (JBool b)"
| "hook_json (JInt i) = Inr (JInt i)"
| "hook_json (JFloat s) = Inr (JFloat s)"
| "hook_json (JString s) = Inr (JString s)"
| "hook_list [] = Inr []"
| "hook_list (x # xs) = rbind (hook_json x) (\<lambda>y. rbind (hook_list xs) (\<lambda>ys. Inr (y # ys)))"
| "hook_pairs [] = Inr []"
| "hook_pairs ((k, x) # ps) = rbind (hook_json x) (\<lambda>y. rbind (hook_pairs ps) (\<lambda>qs. Inr ((k, y) # qs)))"

definition require_integer :: "json \<Rightarrow> string \<Rightarrow> exn + int" where
  "require_integer value description =
     (case value of JInt i \<Rightarrow> Inr i | _ \<Rightarrow> Inl (SafeTensorFormatError (description @ '' must be an integer'')))"

fun checked_element_count_from :: "int \<Rightarrow> int list \<Rightarrow> exn + int" where
  "checked_element_count_from n [] = Inr n"
| "checked_element_count_from n (dimension # rest) =
     (if dimension < 0 then Inl (SafeTensorFormatError ''SafeTensors shape dimensions must be nonnegative'')
      else if dimension \<noteq> 0 \<and> n > MAX_TENSOR_BYTES div dimension
      then Inl (SafeTensorFormatError ''SafeTensors shape product overflows the supported range'')
      else checked_element_count_from (n * dimension) rest)"

definition checked_element_count :: "int list \<Rightarrow> exn + int" where
  "checked_element_count shape = checked_element_count_from 1 shape"

definition tensor_offsets :: "json \<Rightarrow> int \<Rightarrow> int \<Rightarrow> exn + int \<times> int" where
  "tensor_offsets offsets nbytes expected_bytes =
     (case offsets of
        JArray [a, b] \<Rightarrow>
          rbind (require_integer a ''SafeTensors entry start offset'') (\<lambda>start.
          rbind (require_integer b ''SafeTensors entry end offset'') (\<lambda>end.
            after (raise_first
              [(start < 0 \<or> end < start \<or> end > nbytes, SafeTensorFormatError ''SafeTensors entry offsets are out of bounds''),
               (end - start \<noteq> expected_bytes, SafeTensorFormatError ''SafeTensors entry byte length is inconsistent'')])
             (Inr (start, end))))
      | _ \<Rightarrow> Inl (SafeTensorFormatError ''SafeTensors entry data_offsets must contain two integers''))"

definition tensor_dtype :: "json \<Rightarrow> exn + safetensor_dtype" where
  "tensor_dtype raw =
     (case raw of
        JString s \<Rightarrow>
          (case safetensor_dtype_of s of
             Some d \<Rightarrow> Inr d
           | None \<Rightarrow> Inl (SafeTensorFormatError ''SafeTensors entry uses unsupported dtype''))
      | _ \<Rightarrow> Inl (SafeTensorFormatError ''SafeTensors entry dtype must be a string''))"

definition tensor_shape :: "json \<Rightarrow> exn + int list" where
  "tensor_shape raw =
     (case raw of
        JArray dims \<Rightarrow> rmap (\<lambda>x. require_integer x ''SafeTensors entry shape dimension'') dims
      | _ \<Rightarrow> Inl (SafeTensorFormatError ''SafeTensors entry shape must be an array''))"

definition parse_tensor :: "string \<Rightarrow> json \<Rightarrow> bytes \<Rightarrow> exn + safetensor_region \<times> int \<times> int" where
  "parse_tensor name value data =
     (if name = '''' then Inl (SafeTensorFormatError ''SafeTensors Tensor names must not be empty'')
      else case value of
        JObject flds \<Rightarrow>
          if set (map fst flds) \<noteq> {''dtype'', ''shape'', ''data_offsets''}
          then Inl (SafeTensorFormatError ''SafeTensors entry has invalid fields'')
          else
            rbind (tensor_dtype (the (map_of flds ''dtype''))) (\<lambda>dt.
            rbind (tensor_shape (the (map_of flds ''shape''))) (\<lambda>shape.
            rbind (checked_element_count shape) (\<lambda>element_count.
              if element_count > MAX_TENSOR_BYTES div element_bytes dt
              then Inl (SafeTensorFormatError ''SafeTensors entry byte length overflows'')
              else
                rbind (tensor_offsets (the (map_of flds ''data_offsets'')) (int (length data)) (element_count * element_bytes dt))
                  (\<lambda>(start, end).
                     Inr (\<lparr>sr_name = name, sr_dtype = dt, sr_shape = shape, sr_data = slice (nat start) (nat end) data\<rparr>,
                          start, end)))))
      | _ \<Rightarrow> Inl (SafeTensorFormatError ''SafeTensors entry must be an object''))"

definition parse_metadata :: "json option \<Rightarrow> exn + (string, string) dict" where
  "parse_metadata value =
     (case value of
        None \<Rightarrow> Inr []
      | Some JNull \<Rightarrow> Inr []
      | Some (JObject ps) \<Rightarrow>
          (if \<exists>p\<in>set ps. (case snd p of JString _ \<Rightarrow> False | _ \<Rightarrow> True)
           then Inl (SafeTensorFormatError ''SafeTensors __metadata__ must map strings to strings'')
           else Inr (map (\<lambda>(k, v). (k, case v of JString s \<Rightarrow> s | _ \<Rightarrow> '''')) ps))
      | _ \<Rightarrow> Inl (SafeTensorFormatError ''SafeTensors __metadata__ must map strings to strings''))"

fun parse_entries ::
  "bytes \<Rightarrow> (string, json) dict \<Rightarrow> (string, safetensor_region) dict \<Rightarrow> (int \<times> int \<times> string) list
     \<Rightarrow> exn + (string, safetensor_region) dict \<times> (int \<times> int \<times> string) list" where
  "parse_entries data [] tensors ranges = Inr (tensors, ranges)"
| "parse_entries data ((name, value) # rest) tensors ranges =
     rbind (parse_tensor name value data) (\<lambda>(tensor, start, end).
       parse_entries data rest (AList.update name tensor tensors) (ranges @ [(start, end, name)]))"

fun check_ranges :: "int \<Rightarrow> (int \<times> int \<times> string) list \<Rightarrow> exn + int" where
  "check_ranges cursor [] = Inr cursor"
| "check_ranges cursor ((start, end, name) # rest) =
     (if start \<noteq> cursor
      then Inl (SafeTensorFormatError
             (if start < cursor then ''SafeTensors entry overlaps another Tensor'' else ''SafeTensors entry leaves an unexplained hole''))
      else check_ranges end rest)"

definition from_bytes_little :: "bytes \<Rightarrow> int" where
  "from_bytes_little bs = int (foldr (\<lambda>b n. b + 256 * n) bs 0)"

definition parse_header ::
  "(bytes \<Rightarrow> nat list option) \<Rightarrow> (nat list \<Rightarrow> json option) \<Rightarrow> bytes \<Rightarrow> exn + (string, json) dict" where
  "parse_header decode loads raw =
     (case decode raw of
        None \<Rightarrow> Inl (SafeTensorFormatError ''SafeTensors header is not valid UTF-8'')
      | Some text \<Rightarrow>
         if \<not> (text \<noteq> [] \<and> hd text = 123) then Inl (SafeTensorFormatError ''SafeTensors header must begin with a JSON object'')
         else case loads text of
           None \<Rightarrow> Inl (SafeTensorFormatError ''SafeTensors header is not valid JSON'')
         | Some tree \<Rightarrow>
             rbind (hook_json tree) (\<lambda>header.
               case header of JObject d \<Rightarrow> Inr d
               | _ \<Rightarrow> Inl (SafeTensorFormatError ''SafeTensors header must be a JSON object'')))"

definition parse_safetensors ::
  "(bytes \<Rightarrow> nat list option) \<Rightarrow> (nat list \<Rightarrow> json option) \<Rightarrow> bytes \<Rightarrow> exn + safetensor_data" where
  "parse_safetensors decode loads view =
     (if length view < 8 then Inl (SafeTensorFormatError ''SafeTensors input is shorter than its length prefix'')
      else
       let header_bytes = from_bytes_little (take 8 view);
           data_start = 8 + nat header_bytes
       in after (raise_first
            [(\<not> (2 \<le> header_bytes \<and> header_bytes \<le> MAX_SAFETENSORS_HEADER_BYTES),
                SafeTensorFormatError ''SafeTensors header length is outside the supported bound''),
             (data_start > length view, SafeTensorFormatError ''SafeTensors header length exceeds the input buffer'')])
           (rbind (parse_header decode loads (slice 8 data_start view)) (\<lambda>header.
            rbind (parse_metadata (map_of header ''__metadata__'')) (\<lambda>metadata.
            let data = drop data_start view in
            rbind (parse_entries data (AList.delete ''__metadata__'' header) [] []) (\<lambda>(tensors, ranges).
              if tensors = [] then Inl (SafeTensorFormatError ''SafeTensors input contains no Tensors'')
              else rbind (check_ranges 0 (sort ranges)) (\<lambda>cursor.
                if cursor \<noteq> int (length data)
                then Inl (SafeTensorFormatError ''SafeTensors data leaves unexplained trailing bytes'')
                else Inr \<lparr>sd_buffer = view, sd_tensors = tensors, sd_metadata = metadata\<rparr>))))))"
section \<open>What the parser establishes\<close>

lemma unique_object_ok: "unique_object acc ps = Inr d \<Longrightarrow> dict_ok acc \<Longrightarrow> dict_ok d"
  by (induction acc ps rule: unique_object.induct) (auto split: if_splits)

lemma parse_header_ok:
  assumes "parse_header decode loads raw = Inr d"
  shows "dict_ok d"
proof -
  obtain tree header where h: "hook_json tree = Inr header"
    and d: "(case header of JObject d \<Rightarrow> Inr d
               | _ \<Rightarrow> Inl (SafeTensorFormatError ''SafeTensors header must be a JSON object'')) = Inr d"
    using assms by (auto simp: parse_header_def split: option.splits if_splits)
  from d have "header = JObject d" by (cases header) simp_all
  with h show ?thesis by (cases tree) (auto intro: unique_object_ok)
qed

lemma checked_element_count_from_Inr:
  assumes "checked_element_count_from m ds = Inr n" and "0 \<le> m" and "m \<le> MAX_TENSOR_BYTES"
  shows "n = m * prod_list ds \<and> (\<forall>d\<in>set ds. 0 \<le> d) \<and> 0 \<le> n \<and> n \<le> MAX_TENSOR_BYTES"
  using assms
proof (induction ds arbitrary: m)
  case (Cons d ds)
  from Cons.prems(1) have d: "0 \<le> d" and ok: "d = 0 \<or> m \<le> MAX_TENSOR_BYTES div d"
    and rec: "checked_element_count_from (m * d) ds = Inr n" by (auto split: if_splits)
  have "m * d \<le> MAX_TENSOR_BYTES"
  proof (cases "d = 0")
    case False
    with d ok have "m * d \<le> (MAX_TENSOR_BYTES div d) * d" by (intro mult_right_mono) auto
    also have "\<dots> \<le> MAX_TENSOR_BYTES"
      using d False by (intro int_div_mult_le) simp
    finally show ?thesis .
  qed (simp add: MAX_TENSOR_BYTES_def)
  with Cons.IH [OF rec] Cons.prems d show ?case by (simp add: mult.assoc)
qed simp

lemma tensor_offsets_Inr:
  assumes "tensor_offsets j n m = Inr (s, e)"
  shows "0 \<le> s \<and> s \<le> e \<and> e \<le> n \<and> e - s = m"
  using assms by (auto simp: tensor_offsets_def split: json.splits list.splits)

definition region_ok :: "bytes \<Rightarrow> string \<Rightarrow> safetensor_region \<times> int \<times> int \<Rightarrow> bool" where
  "region_ok data name t = (case t of (r, s, e) \<Rightarrow>
     sr_name r = name \<and> name \<noteq> '''' \<and> (\<forall>d\<in>set (sr_shape r). 0 \<le> d) \<and> 0 \<le> s \<and> s \<le> e \<and> e \<le> int (length data) \<and>
     sr_data r = slice (nat s) (nat e) data \<and> e - s = prod_list (sr_shape r) * element_bytes (sr_dtype r) \<and>
     sr_byte_count r = prod_list (sr_shape r) * element_bytes (sr_dtype r) \<and> sr_byte_count r \<le> MAX_TENSOR_BYTES)"

lemma parse_tensor_ok:
  assumes "parse_tensor name value data = Inr t"
  shows "region_ok data name t"
proof -
  obtain flds dt shape n s e where name: "name \<noteq> ''''" and v: "value = JObject flds"
    and cnt: "checked_element_count shape = Inr n" and max: "n \<le> MAX_TENSOR_BYTES div element_bytes dt"
    and off: "tensor_offsets (the (map_of flds ''data_offsets'')) (int (length data)) (n * element_bytes dt) = Inr (s, e)"
    and t: "t = (\<lparr>sr_name = name, sr_dtype = dt, sr_shape = shape, sr_data = slice (nat s) (nat e) data\<rparr>, s, e)"
    using assms by (auto simp: parse_tensor_def not_le split: if_splits json.splits)
  have n: "n = prod_list shape" "\<forall>d\<in>set shape. 0 \<le> d" "0 \<le> n"
    using checked_element_count_from_Inr [of 1 shape n] cnt by (simp_all add: checked_element_count_def MAX_TENSOR_BYTES_def)
  have b: "0 < element_bytes dt" by (simp add: element_bytes_def)
  have o: "0 \<le> s" "s \<le> e" "e \<le> int (length data)" "e - s = n * element_bytes dt" using tensor_offsets_Inr [OF off] by auto
  have "n * element_bytes dt \<le> MAX_TENSOR_BYTES div element_bytes dt * element_bytes dt"
    using max b by (intro mult_right_mono) auto
  also have "\<dots> \<le> MAX_TENSOR_BYTES" by (rule int_div_mult_le [OF b])
  finally have "n * element_bytes dt \<le> MAX_TENSOR_BYTES" .
  moreover have "int (length (slice (nat s) (nat e) data)) = e - s" using o by (simp add: length_slice)
  ultimately show ?thesis using name n o by (simp add: region_ok_def t sr_byte_count_def)
qed

text \<open>The loop over the entries collects the regions and their ranges in step.\<close>

lemma parse_entries_Inr:
  assumes "parse_entries data d ts0 rs0 = Inr (ts, rs)" and "distinct (map fst ts0 @ map fst d)"
  shows "\<exists>us. length us = length d \<and> (\<forall>i<length d. region_ok data (fst (d ! i)) (us ! i)) \<and>
     ts = ts0 @ zip (map fst d) (map fst us) \<and> rs = rs0 @ zip (map (fst \<circ> snd) us) (zip (map (snd \<circ> snd) us) (map fst d))"
  using assms
proof (induction d arbitrary: ts0 rs0)
  case (Cons p d)
  obtain name v where p: "p = (name, v)" by fastforce
  from Cons.prems(1) obtain r s e where t: "parse_tensor name v data = Inr (r, s, e)"
    and rec: "parse_entries data d (AList.update name r ts0) (rs0 @ [(s, e, name)]) = Inr (ts, rs)"
    by (auto simp: p)
  have "map_of ts0 name = None" using Cons.prems(2) by (auto simp: p map_of_eq_None_iff)
  then have u: "AList.update name r ts0 = ts0 @ [(name, r)]" by (rule dict_update_new)
  have "distinct (map fst (ts0 @ [(name, r)]) @ map fst d)" using Cons.prems(2) by (simp add: p)
  from Cons.IH [OF rec [unfolded u] this] obtain us where us: "length us = length d"
    "\<forall>i<length d. region_ok data (fst (d ! i)) (us ! i)" "ts = (ts0 @ [(name, r)]) @ zip (map fst d) (map fst us)"
    "rs = (rs0 @ [(s, e, name)]) @ zip (map (fst \<circ> snd) us) (zip (map (snd \<circ> snd) us) (map fst d))" by blast
  have "\<forall>i<length (p # d). region_ok data (fst ((p # d) ! i)) (((r, s, e) # us) ! i)"
    using us(2) parse_tensor_ok [OF t] by (auto simp: nth_Cons p split: nat.split)
  with us show ?case by (intro exI [of _ "(r, s, e) # us"]) (simp add: p comp_def)
qed simp

text \<open>The cursor walk: adjacent slices join to the part of the data they cover.\<close>

lemma check_ranges_concat:
  assumes "check_ranges c xs = Inr e" and "0 \<le> c"
    and "\<And>s t n. (s, t, n) \<in> set xs \<Longrightarrow> 0 \<le> s \<and> s \<le> t \<and> t \<le> int (length data)"
  shows "concat (map (\<lambda>(s, t, n). slice (nat s) (nat t) data) xs) = slice (nat c) (nat e) data \<and> c \<le> e"
  using assms
proof (induction c xs rule: check_ranges.induct)
  case (2 c s t n xs)
  have s: "s = c" and rec: "check_ranges t xs = Inr e" using 2(2) by (auto split: if_splits)
  have b: "0 \<le> c" "c \<le> t" "t \<le> int (length data)" using 2(4) [of s t n] s by auto
  have ih: "concat (map (\<lambda>(s, t, n). slice (nat s) (nat t) data) xs) = slice (nat t) (nat e) data \<and> t \<le> e"
  proof (rule 2(1))
    show "\<not> s \<noteq> c" "check_ranges t xs = Inr e" "0 \<le> t" using s rec b by auto
    show "0 \<le> s' \<and> s' \<le> t' \<and> t' \<le> int (length data)" if "(s', t', n') \<in> set xs" for s' t' n' using 2(4) that by auto
  qed
  then have te: "t \<le> e" by simp
  have "slice (nat c) (nat t) data @ slice (nat t) (nat e) data = slice (nat c) (nat e) data"
    using b te by (intro slice_join nat_mono)
  with ih s b show ?case by auto
qed (simp add: slice_def)
lemma parse_safetensors_Inr:
  assumes "parse_safetensors decode loads view = Inr d"
    and "data = drop (8 + nat (from_bytes_little (take 8 view))) view"
  obtains header rs where "dict_ok header" and "parse_entries data header [] [] = Inr (sd_tensors d, rs)"
    and "sd_tensors d \<noteq> []" and "check_ranges 0 (sort rs) = Inr (int (length data))" and "sd_buffer d = view"
proof -
  obtain header metadata ts rs where h: "parse_header decode loads (slice 8 (8 + nat (from_bytes_little (take 8 view))) view) = Inr header"
    and e: "parse_entries data (AList.delete ''__metadata__'' header) [] [] = Inr (ts, rs)" and ne: "ts \<noteq> []"
    and c: "check_ranges 0 (sort rs) = Inr (int (length data))"
    and d: "d = \<lparr>sd_buffer = view, sd_tensors = ts, sd_metadata = metadata\<rparr>"
    using assms by (auto simp: parse_safetensors_def Let_def split: if_splits)
  from that [of "AList.delete ''__metadata__'' header" rs] parse_header_ok [OF h] e ne c d show ?thesis by simp
qed

lemma parsed_entries_partition:
  assumes ok: "dict_ok header" and e: "parse_entries data header [] [] = Inr (ts, rs)"
    and c: "check_ranges 0 (sort rs) = Inr (int (length data))"
  shows "dict_ok ts" and "\<And>n r. (n, r) \<in> set ts \<Longrightarrow> \<exists>s t. region_ok data n (r, s, t)"
    and "\<exists>order. mset order = mset ts \<and> concat (map (\<lambda>p. sr_data (snd p)) order) = data"
proof -
  obtain us where len: "length us = length header" and reg: "\<forall>i<length header. region_ok data (fst (header ! i)) (us ! i)"
    and ts: "ts = zip (map fst header) (map fst us)"
    and rs: "rs = zip (map (fst \<circ> snd) us) (zip (map (snd \<circ> snd) us) (map fst header))"
    using parse_entries_Inr [OF e] ok by (auto simp: dict_ok_def)
  show okt: "dict_ok ts" using ok len by (simp add: dict_ok_def ts)
  show "\<exists>s t. region_ok data n (r, s, t)" if "(n, r) \<in> set ts" for n r
  proof -
    from that obtain i where "i < length header" "n = fst (header ! i)" "r = fst (us ! i)"
      using len by (auto simp: ts in_set_zip)
    with reg have "region_ok data n (r, fst (snd (us ! i)), snd (snd (us ! i)))" by (metis prod.collapse)
    then show ?thesis by blast
  qed
  define f where "f = (\<lambda>x :: int \<times> int \<times> string. (snd (snd x), the (map_of ts (snd (snd x)))))"
  have look: "map_of ts (fst (header ! i)) = Some (fst (us ! i))" if "i < length header" for i
  proof -
    have "(fst (header ! i), fst (us ! i)) \<in> set ts" using that len by (force simp: ts in_set_zip)
    then show ?thesis using dict_ok_map_of [OF okt] by blast
  qed
  have "map f rs = ts"
    by (rule nth_equalityI) (use len look in \<open>auto simp: rs ts f_def\<close>)
  then have m: "mset (map f (sort rs)) = mset ts" by (metis mset_map mset_sort)
  have at: "(s, t, n) \<in> set rs \<Longrightarrow> 0 \<le> s \<and> s \<le> t \<and> t \<le> int (length data) \<and> sr_data (snd (f (s, t, n))) = slice (nat s) (nat t) data" for s t n
  proof -
    assume "(s, t, n) \<in> set rs"
    then obtain i where i: "i < length header" "s = fst (snd (us ! i))" "t = snd (snd (us ! i))" "n = fst (header ! i)"
      using len by (auto simp: rs in_set_zip)
    with reg look [OF i(1)] show ?thesis
      by (cases "us ! i") (auto simp: region_ok_def f_def)
  qed
  have "concat (map (\<lambda>(s, t, n). slice (nat s) (nat t) data) (sort rs)) = data"
    using check_ranges_concat [OF c, of data] at by simp
  moreover have "map (\<lambda>p. sr_data (snd p)) (map f (sort rs)) = map (\<lambda>(s, t, n). slice (nat s) (nat t) data) (sort rs)"
    using at by auto
  ultimately have "concat (map (\<lambda>p. sr_data (snd p)) (map f (sort rs))) = data" by (simp only:)
  with m show "\<exists>order. mset order = mset ts \<and> concat (map (\<lambda>p. sr_data (snd p)) order) = data" by blast
qed

section \<open>Writing a file\<close>

text \<open>A SafeTensors file as its specification describes it: length prefix, header, Tensor data in order.\<close>

fun to_bytes_little :: "nat \<Rightarrow> nat \<Rightarrow> bytes" where
  "to_bytes_little 0 n = []"
| "to_bytes_little (Suc k) n = n mod 256 # to_bytes_little k (n div 256)"

definition dtype_name :: "safetensor_dtype \<Rightarrow> string" where
  "dtype_name d = (case d of ST_FP16 \<Rightarrow> ''F16'' | ST_BF16 \<Rightarrow> ''BF16'' | ST_FP32 \<Rightarrow> ''F32'')"

fun header_entries :: "int \<Rightarrow> safetensor_region list \<Rightarrow> (string \<times> json) list" where
  "header_entries c [] = []"
| "header_entries c (r # rs) =
     (sr_name r, JObject [(''dtype'', JString (dtype_name (sr_dtype r))), (''shape'', JArray (map JInt (sr_shape r))),
        (''data_offsets'', JArray [JInt c, JInt (c + sr_byte_count r)])]) # header_entries (c + sr_byte_count r) rs"

definition safetensors_file :: "bytes \<Rightarrow> safetensor_region list \<Rightarrow> bytes" where
  "safetensors_file h rs = to_bytes_little 8 (length h) @ h @ concat (map sr_data rs)"

definition writable :: "safetensor_region \<Rightarrow> bool" where
  "writable r \<longleftrightarrow> sr_name r \<noteq> '''' \<and> sr_name r \<noteq> ''__metadata__'' \<and> (\<forall>d\<in>set (sr_shape r). 0 < d) \<and>
     sr_byte_count r = prod_list (sr_shape r) * element_bytes (sr_dtype r) \<and> sr_byte_count r \<le> MAX_TENSOR_BYTES"

lemma from_to_bytes: "from_bytes_little (to_bytes_little k n) = int (n mod 256 ^ k)"
proof (induction k arbitrary: n)
  case (Suc k)
  have "n mod (256 * 256 ^ k) = 256 * (n div 256 mod 256 ^ k) + n mod 256" by (rule mod_mult2_eq)
  moreover have "foldr (\<lambda>b n. b + 256 * n) (to_bytes_little k (n div 256)) 0 = n div 256 mod 256 ^ k"
    using Suc [of "n div 256"] by (simp add: from_bytes_little_def)
  ultimately show ?case by (simp add: from_bytes_little_def)
qed (simp add: from_bytes_little_def)

lemma length_to_bytes [simp]: "length (to_bytes_little k n) = k"
  by (induction k arbitrary: n) auto

lemma unique_object_distinct: "distinct (map fst (acc @ ps)) \<Longrightarrow> unique_object acc ps = Inr (acc @ ps)"
proof (induction ps arbitrary: acc)
  case (Cons p ps)
  then have "map_of acc (fst p) = None" by (auto simp: map_of_eq_None_iff)
  with Cons.IH [of "acc @ [p]"] Cons.prems show ?case by (cases p) (simp add: dict_update_new)
qed simp

lemma hook_header:
  assumes "distinct (map sr_name rs)"
  shows "hook_json (JObject (header_entries c rs)) = Inr (JObject (header_entries c rs))"
proof -
  have dims: "hook_list (map JInt xs) = Inr (map JInt xs)" for xs by (induction xs) auto
  have "hook_pairs (header_entries c rs) = Inr (header_entries c rs)"
    by (induction c rs rule: header_entries.induct) (simp_all add: dims)
  moreover have "map fst (header_entries c rs) = map sr_name rs"
    by (induction c rs rule: header_entries.induct) simp_all
  ultimately show ?thesis using assms unique_object_distinct [of "[]"] by simp
qed

lemma checked_element_count_positive:
  assumes "\<forall>d\<in>set ds. 0 < d" and "0 < m" and "m * prod_list ds \<le> MAX_TENSOR_BYTES"
  shows "checked_element_count_from m ds = Inr (m * prod_list ds)"
  using assms
proof (induction ds arbitrary: m)
  case (Cons d ds)
  have pos: "1 \<le> prod_list ds"
    using Cons.prems(1) by (induction ds) (auto intro: order_trans [OF _ mult_mono, of 1 1 1, simplified])
  have "m * d \<le> m * d * prod_list ds" using pos Cons.prems(1,2) by simp
  then have "m * d \<le> MAX_TENSOR_BYTES" using Cons.prems(3) by (simp add: mult.assoc)
  then have "m \<le> MAX_TENSOR_BYTES div d" using Cons.prems(1)
    by (metis list.set_intros(1) nonzero_mult_div_cancel_right order_less_irrefl zdiv_mono1)
  with Cons.IH [of "m * d"] Cons.prems show ?case by (auto simp: mult.assoc)
qed simp

lemma parse_written_tensor:
  assumes w: "writable r" and data: "data = pre @ sr_data r @ post" and c: "c = int (length pre)"
  shows "parse_tensor (sr_name r) (JObject [(''dtype'', JString (dtype_name (sr_dtype r))), (''shape'', JArray (map JInt (sr_shape r))),
        (''data_offsets'', JArray [JInt c, JInt (c + sr_byte_count r)])]) data = Inr (r, c, c + sr_byte_count r)"
proof -
  have b: "0 < element_bytes (sr_dtype r)" by (simp add: element_bytes_def)
  have n: "sr_byte_count r = prod_list (sr_shape r) * element_bytes (sr_dtype r)" "sr_byte_count r \<le> MAX_TENSOR_BYTES"
    using w by (simp_all add: writable_def)
  have le: "prod_list (sr_shape r) \<le> MAX_TENSOR_BYTES div element_bytes (sr_dtype r)"
    using n b by (metis nonzero_mult_div_cancel_right order_less_irrefl zdiv_mono1)
  have "0 \<le> prod_list (sr_shape r)" using n b by (simp add: sr_byte_count_def) (metis mult_less_0_iff not_less of_nat_0_le_iff)
  then have "prod_list (sr_shape r) \<le> MAX_TENSOR_BYTES" using n b by (simp add: element_bytes_def split: if_splits)
  then have cnt: "checked_element_count (sr_shape r) = Inr (prod_list (sr_shape r))"
    using checked_element_count_positive [of "sr_shape r" 1] w by (simp add: checked_element_count_def writable_def)
  have dt: "tensor_dtype (JString (dtype_name (sr_dtype r))) = Inr (sr_dtype r)"
    by (cases "sr_dtype r") (simp_all add: tensor_dtype_def dtype_name_def safetensor_dtype_of_def)
  have sh: "tensor_shape (JArray (map JInt (sr_shape r))) = Inr (sr_shape r)"
    by (simp add: tensor_shape_def rmap_eq_Inr_iff require_integer_def)
  have sl: "slice (length pre) (length pre + length (sr_data r)) data = sr_data r" by (simp add: data slice_def)
  have "tensor_offsets (JArray [JInt c, JInt (c + sr_byte_count r)]) (int (length data)) (sr_byte_count r) = Inr (c, c + sr_byte_count r)"
    by (simp add: tensor_offsets_def require_integer_def c data sr_byte_count_def raise_first.simps)
  moreover have "\<lparr>sr_name = sr_name r, sr_dtype = sr_dtype r, sr_shape = sr_shape r, sr_data = sr_data r\<rparr> = r" by (cases r) simp
  moreover have "nat (c + sr_byte_count r) = length pre + length (sr_data r)" by (simp add: c sr_byte_count_def)
  ultimately show ?thesis
    using w le cnt dt sh sl by (simp add: parse_tensor_def writable_def c n(1) [symmetric])
qed
fun header_ranges :: "int \<Rightarrow> safetensor_region list \<Rightarrow> (int \<times> int \<times> string) list" where
  "header_ranges c [] = []"
| "header_ranges c (r # rs) = (c, c + sr_byte_count r, sr_name r) # header_ranges (c + sr_byte_count r) rs"

lemma parse_written_entries:
  assumes "\<forall>r\<in>set rs. writable r" and "distinct (map fst ts0 @ map sr_name rs)"
    and "data = pre @ concat (map sr_data rs)" and "c = int (length pre)"
  shows "parse_entries data (header_entries c rs) ts0 ranges0 =
     Inr (ts0 @ map (\<lambda>r. (sr_name r, r)) rs, ranges0 @ header_ranges c rs)"
  using assms
proof (induction rs arbitrary: c pre ts0 ranges0)
  case (Cons r rs)
  have t: "parse_tensor (sr_name r) (JObject [(''dtype'', JString (dtype_name (sr_dtype r))), (''shape'', JArray (map JInt (sr_shape r))),
        (''data_offsets'', JArray [JInt c, JInt (c + sr_byte_count r)])]) data = Inr (r, c, c + sr_byte_count r)"
    by (rule parse_written_tensor [where pre = pre]) (use Cons.prems in auto)
  have "map_of ts0 (sr_name r) = None" using Cons.prems(2) by (auto simp: map_of_eq_None_iff)
  then have u: "AList.update (sr_name r) r ts0 = ts0 @ [(sr_name r, r)]" by (rule dict_update_new)
  have "parse_entries data (header_entries (c + sr_byte_count r) rs) (ts0 @ [(sr_name r, r)]) (ranges0 @ [(c, c + sr_byte_count r, sr_name r)])
      = Inr ((ts0 @ [(sr_name r, r)]) @ map (\<lambda>r. (sr_name r, r)) rs,
             (ranges0 @ [(c, c + sr_byte_count r, sr_name r)]) @ header_ranges (c + sr_byte_count r) rs)"
    by (rule Cons.IH [where pre = "pre @ sr_data r"]) (use Cons.prems in \<open>auto simp: sr_byte_count_def\<close>)
  then show ?case by (simp add: t u)
qed simp

lemma header_ranges_sorted:
  assumes "\<forall>r\<in>set rs. 0 < sr_byte_count r"
  shows "sorted (header_ranges c rs) \<and> (\<forall>x\<in>set (header_ranges c rs). c \<le> fst x)"
  using assms
proof (induction rs arbitrary: c)
  case (Cons r rs)
  then have ih: "sorted (header_ranges (c + sr_byte_count r) rs) \<and> (\<forall>x\<in>set (header_ranges (c + sr_byte_count r) rs). c + sr_byte_count r \<le> fst x)"
    by simp
  have "(c, c + sr_byte_count r, sr_name r) \<le> x" if "x \<in> set (header_ranges (c + sr_byte_count r) rs)" for x
    using ih that Cons.prems by (cases x) force
  with ih Cons.prems show ?case by fastforce
qed simp

lemma check_header_ranges: "check_ranges c (header_ranges c rs) = Inr (c + (\<Sum>r\<leftarrow>rs. sr_byte_count r))"
  by (induction rs arbitrary: c) (simp_all add: add.assoc)

lemma sum_byte_counts: "(\<Sum>r\<leftarrow>rs. sr_byte_count r) = int (length (concat (map sr_data rs)))"
  by (induction rs) (simp_all add: sr_byte_count_def)

lemma parse_written_file:
  assumes rs: "rs \<noteq> []" "\<forall>r\<in>set rs. writable r" "distinct (map sr_name rs)"
    and h: "2 \<le> length h" "int (length h) \<le> MAX_SAFETENSORS_HEADER_BYTES"
    and dec: "decode h = Some chars" "chars \<noteq> []" "hd chars = 123" "loads chars = Some (JObject (header_entries 0 rs))"
  shows "parse_safetensors decode loads (safetensors_file h rs) =
     Inr \<lparr>sd_buffer = safetensors_file h rs, sd_tensors = map (\<lambda>r. (sr_name r, r)) rs, sd_metadata = []\<rparr>"
proof -
  let ?f = "safetensors_file h rs"
  have "length h < 256 ^ 8" using h(2) by (simp add: MAX_SAFETENSORS_HEADER_BYTES_def)
  then have n: "from_bytes_little (take 8 ?f) = int (length h)" by (simp add: safetensors_file_def from_to_bytes)
  have sl: "slice 8 (8 + length h) ?f = h" by (simp add: safetensors_file_def slice_def)
  have dr: "drop (8 + length h) ?f = concat (map sr_data rs)" by (simp add: safetensors_file_def)
  have hd: "parse_header decode loads h = Inr (header_entries 0 rs)"
    using dec by (simp add: parse_header_def hook_header [OF rs(3)] del: hook_json.simps rbind_eq_Inr)
  have names: "map fst (header_entries c rs) = map sr_name rs" for c
    by (induction c rs rule: header_entries.induct) simp_all
  have "set (map fst (header_entries 0 rs)) = set (map sr_name rs)" by (simp only: names)
  then have "''__metadata__'' \<notin> fst ` set (header_entries 0 rs)" using rs(2) by (auto simp: writable_def)
  then have md: "map_of (header_entries 0 rs) ''__metadata__'' = None"
    and del: "AList.delete ''__metadata__'' (header_entries 0 rs) = header_entries 0 rs"
    by (simp_all add: map_of_eq_None_iff delete_id)
  have e: "parse_entries (concat (map sr_data rs)) (header_entries 0 rs) [] [] = Inr (map (\<lambda>r. (sr_name r, r)) rs, header_ranges 0 rs)"
    using parse_written_entries [of rs "[]" "concat (map sr_data rs)" "[]" 0 "[]"] rs by simp
  have "0 < prod_list ds" if "\<forall>d\<in>set ds. 0 < d" for ds :: "int list" using that by (induction ds) auto
  then have "\<forall>r\<in>set rs. 0 < sr_byte_count r" using rs(2) by (auto simp: writable_def element_bytes_def)
  then have st: "sort (header_ranges 0 rs) = header_ranges 0 rs" using header_ranges_sorted sorted_sort_id by blast
  have "2 \<le> int (length h)" "8 + length h \<le> length ?f" using h by (simp_all add: safetensors_file_def)
  then show ?thesis
    using h(2) rs(1) by (simp add: parse_safetensors_def Let_def n sl dr hd parse_metadata_def md del e st check_header_ranges sum_byte_counts raise_first.simps)
qed

section \<open>Properties\<close>

text \<open>
  C20. A file accepted by \<open>parse_safetensors\<close> is covered exactly: in some order the bytes of the
  parsed Tensors are the whole data section with no overlap, no hole and no trailing byte; names are
  distinct and non-empty, dimensions are nonnegative, and each Tensor has exactly the number of bytes its
  shape and dtype require, below \<open>2\<^sup>63\<close>.
\<close>

theorem parse_safetensors_partition:
  assumes "parse_safetensors decode loads view = Inr d"
  shows "(\<exists>order. mset order = mset (sd_tensors d) \<and>
        concat (map (\<lambda>p. sr_data (snd p)) order) = drop (8 + nat (from_bytes_little (take 8 view))) view) \<and>
     sd_tensors d \<noteq> [] \<and> dict_ok (sd_tensors d) \<and>
     (\<forall>n r. (n, r) \<in> set (sd_tensors d) \<longrightarrow> sr_name r = n \<and> n \<noteq> '''' \<and> (\<forall>k\<in>set (sr_shape r). 0 \<le> k) \<and>
        sr_byte_count r = prod_list (sr_shape r) * element_bytes (sr_dtype r) \<and> sr_byte_count r \<le> 2 ^ 63 - 1)"
proof (rule parse_safetensors_Inr [OF assms refl])
  fix header rs
  let ?data = "drop (8 + nat (from_bytes_little (take 8 view))) view"
  assume a: "dict_ok header" "parse_entries ?data header [] [] = Inr (sd_tensors d, rs)" "sd_tensors d \<noteq> []"
    "check_ranges 0 (sort rs) = Inr (int (length ?data))"
  note p = parsed_entries_partition [OF a(1,2,4)]
  have "sr_name r = n \<and> n \<noteq> '''' \<and> (\<forall>k\<in>set (sr_shape r). 0 \<le> k) \<and>
      sr_byte_count r = prod_list (sr_shape r) * element_bytes (sr_dtype r) \<and> sr_byte_count r \<le> 2 ^ 63 - 1"
    if "(n, r) \<in> set (sd_tensors d)" for n r
    using p(2) [OF that] unfolding region_ok_def MAX_TENSOR_BYTES_def by auto
  with p(1,3) a(3) show ?thesis by blast
qed

definition ex_region :: safetensor_region where
  "ex_region = \<lparr>sr_name = ''gate.weight'', sr_dtype = ST_BF16, sr_shape = [1, 2], sr_data = [1, 2, 3, 4]\<rparr>"

definition ex_region2 :: safetensor_region where
  "ex_region2 = \<lparr>sr_name = ''up.weight'', sr_dtype = ST_FP32, sr_shape = [1], sr_data = [5, 6, 7, 8]\<rparr>"

definition ex_loads :: "nat list \<Rightarrow> json option" where
  "ex_loads t = (if t = [123, 125] then Some (JObject (header_entries 0 [ex_region, ex_region2])) else None)"

definition ex_file :: bytes where
  "ex_file = safetensors_file [123, 125] [ex_region, ex_region2]"

lemma ex_file_parses:
  "parse_safetensors Some ex_loads ex_file =
     Inr \<lparr>sd_buffer = ex_file, sd_tensors = [(''gate.weight'', ex_region), (''up.weight'', ex_region2)], sd_metadata = []\<rparr>"
proof -
  have "\<forall>r\<in>set [ex_region, ex_region2]. writable r"
    by (simp add: writable_def ex_region_def ex_region2_def sr_byte_count_def element_bytes_def MAX_TENSOR_BYTES_def)
  then show ?thesis
    using parse_written_file [of "[ex_region, ex_region2]" "[123, 125]" Some "[123, 125]" ex_loads]
    by (simp add: ex_file_def ex_loads_def MAX_SAFETENSORS_HEADER_BYTES_def ex_region_def ex_region2_def)
qed

theorem parse_safetensors_partition_witness:
  "\<exists>order. mset order = mset [(''gate.weight'', ex_region), (''up.weight'', ex_region2)] \<and>
     concat (map (\<lambda>p. sr_data (snd p)) order) = drop (8 + nat (from_bytes_little (take 8 ex_file))) ex_file"
  using parse_safetensors_partition [OF ex_file_parses] by auto

text \<open>
  C21. Round trip: writing any non-empty list of Tensors with distinct names, positive dimensions and
  matching byte counts as a SafeTensors file and parsing the file returns exactly those Tensors, for
  every header text that the JSON reader decodes to the entries.
\<close>

theorem safetensors_roundtrip:
  assumes "rs \<noteq> []" and "\<forall>r\<in>set rs. writable r" and "distinct (map sr_name rs)"
    and "2 \<le> length h" and "int (length h) \<le> MAX_SAFETENSORS_HEADER_BYTES"
    and "decode h = Some chars" and "chars \<noteq> []" and "hd chars = 123" and "loads chars = Some (JObject (header_entries 0 rs))"
  shows "parse_safetensors decode loads (safetensors_file h rs) =
     Inr \<lparr>sd_buffer = safetensors_file h rs, sd_tensors = map (\<lambda>r. (sr_name r, r)) rs, sd_metadata = []\<rparr>"
  using assms by (rule parse_written_file)

theorem safetensors_roundtrip_witness:
  "parse_safetensors Some ex_loads (safetensors_file [123, 125] [ex_region, ex_region2]) =
     Inr \<lparr>sd_buffer = safetensors_file [123, 125] [ex_region, ex_region2],
          sd_tensors = map (\<lambda>r. (sr_name r, r)) [ex_region, ex_region2], sd_metadata = []\<rparr>"
  by (rule safetensors_roundtrip [where chars = "[123, 125]"])
    (simp_all add: ex_loads_def MAX_SAFETENSORS_HEADER_BYTES_def writable_def ex_region_def ex_region2_def sr_byte_count_def element_bytes_def MAX_TENSOR_BYTES_def)

end
