(* ===== verification/Dram_Cache.thy ===== *)
theory Dram_Cache
  imports Errors
begin

text \<open>
  \<open>ek-worker/src/expertkit_worker/weights/dram_cache.py\<close>: the byte-bounded LRU cache of parsed CPU
  weights. The \<open>OrderedDict\<close> is an association list, least recently used first. No critical section
  awaits while it holds the condition's lock, so every method body is one atomic operation;
  \<open>reserve\<close> is one pass through its waiting loop. Leases and reservations are objects with their
  one-shot flags; the caller names them by number.
\<close>

type_synonym weight_key = "int \<times> int"

definition WeightKey :: "int \<Rightarrow> int \<Rightarrow> exn + weight_key" where
  "WeightKey layer_id expert_id =
     after (raise_first
       [(layer_id < 0, ValueError ''layer_id must be a nonnegative integer''),
        (expert_id < 0, ValueError ''expert_id must be a nonnegative integer'')])
      (Inr (layer_id, expert_id))"

record 'v cache_record =
  cr_value :: 'v
  cr_byte_count :: int
  cr_references :: int

record 'v dram_cache =
  dc_max_bytes :: int
  dc_used_bytes :: int
  dc_reserved_bytes :: int
  dc_entries :: "(weight_key, 'v cache_record) dict"

record 'v dram_lease =
  dl_key :: weight_key
  dl_value :: 'v
  dl_closed :: bool

record dram_reservation =
  dr_reserved_bytes :: int
  dr_finished :: bool

record dram_stats =
  ds_max_bytes :: int
  ds_used_bytes :: int
  ds_reserved_bytes :: int
  ds_entry_count :: int

definition DramCache :: "int \<Rightarrow> exn + 'v dram_cache" where
  "DramCache max_bytes =
     (if max_bytes \<le> 0 then Inl (ValueError ''max_bytes must be a positive integer'')
      else Inr \<lparr>dc_max_bytes = max_bytes, dc_used_bytes = 0, dc_reserved_bytes = 0, dc_entries = []\<rparr>)"

definition dc_available_bytes :: "'v dram_cache \<Rightarrow> int" where
  "dc_available_bytes c = dc_max_bytes c - dc_used_bytes c - dc_reserved_bytes c"

definition move_to_end :: "'k \<Rightarrow> ('k, 'v) dict \<Rightarrow> ('k, 'v) dict" where
  "move_to_end k d = (case map_of d k of None \<Rightarrow> d | Some v \<Rightarrow> AList.delete k d @ [(k, v)])"

definition dc_acquire :: "weight_key \<Rightarrow> 'v dram_cache \<Rightarrow> 'v dram_lease option \<times> 'v dram_cache" where
  "dc_acquire key c =
     (case map_of (dc_entries c) key of
        None \<Rightarrow> (None, c)
      | Some record \<Rightarrow>
          (Some \<lparr>dl_key = key, dl_value = cr_value record, dl_closed = False\<rparr>,
           c\<lparr>dc_entries := move_to_end key
               (AList.update key (record\<lparr>cr_references := cr_references record + 1\<rparr>) (dc_entries c))\<rparr>))"

lemma length_delete_present: "k \<in> fst ` set d \<Longrightarrow> length (AList.delete k d) < length d"
  by (induction d) (auto intro: le_less_trans [OF length_delete_le])

text \<open>The eviction loop; each turn removes one entry.\<close>

function evict_until_available :: "int \<Rightarrow> 'v dram_cache \<Rightarrow> 'v dram_cache" where
  "evict_until_available required c =
     (if dc_available_bytes c < required
      then (case find (\<lambda>p. cr_references (snd p) = 0) (dc_entries c) of
              None \<Rightarrow> c
            | Some victim \<Rightarrow>
                evict_until_available required
                  (c\<lparr>dc_entries := AList.delete (fst victim) (dc_entries c),
                     dc_used_bytes := dc_used_bytes c - cr_byte_count (snd victim)\<rparr>))
      else c)"
  by pat_completeness auto

termination
proof (relation "measure (\<lambda>(_, c). length (dc_entries c))", goal_cases)
  case (2 required c victim)
  then have "victim \<in> set (dc_entries c)" by (auto simp: find_Some_iff)
  then show ?case by (auto intro!: length_delete_present imageI)
qed simp

declare evict_until_available.simps [simp del]

text \<open>One pass of \<open>reserve\<close>: \<open>Inr None\<close> waits for a notification.\<close>

definition dc_reserve_pass :: "int \<Rightarrow> 'v dram_cache \<Rightarrow> (exn + dram_reservation option) \<times> 'v dram_cache" where
  "dc_reserve_pass byte_count c =
     (case raise_first
        [(byte_count \<le> 0, ValueError ''byte_count must be a positive integer''),
         (byte_count > dc_max_bytes c, ValueError ''one DRAM cache reservation exceeds max_bytes'')]
      of Some e \<Rightarrow> (Inl e, c)
       | None \<Rightarrow>
          let c = evict_until_available byte_count c
          in if dc_available_bytes c \<ge> byte_count
             then (Inr (Some \<lparr>dr_reserved_bytes = byte_count, dr_finished = False\<rparr>),
                   c\<lparr>dc_reserved_bytes := dc_reserved_bytes c + byte_count\<rparr>)
             else (Inr None, c))"

definition dc_remove :: "weight_key \<Rightarrow> 'v dram_cache \<Rightarrow> bool \<times> 'v dram_cache" where
  "dc_remove key c =
     (case map_of (dc_entries c) key of
        None \<Rightarrow> (False, c)
      | Some record \<Rightarrow>
         if cr_references record \<noteq> 0 then (False, c)
         else (True, c\<lparr>dc_entries := AList.delete key (dc_entries c),
                       dc_used_bytes := dc_used_bytes c - cr_byte_count record\<rparr>))"

definition dc_stats :: "'v dram_cache \<Rightarrow> dram_stats" where
  "dc_stats c = \<lparr>ds_max_bytes = dc_max_bytes c, ds_used_bytes = dc_used_bytes c,
     ds_reserved_bytes = dc_reserved_bytes c, ds_entry_count = int (length (dc_entries c))\<rparr>"

definition dc_clear :: "'v dram_cache \<Rightarrow> (exn + unit) \<times> 'v dram_cache" where
  "dc_clear c =
     (if dc_reserved_bytes c \<noteq> 0 then (Inl (RuntimeError ''cannot clear DRAM cache with active reservations''), c)
      else if \<exists>p\<in>set (dc_entries c). cr_references (snd p) \<noteq> 0
      then (Inl (RuntimeError ''cannot clear DRAM cache with active references''), c)
      else (Inr (), c\<lparr>dc_entries := [], dc_used_bytes := 0\<rparr>))"

definition dc_release :: "weight_key \<Rightarrow> 'v dram_cache \<Rightarrow> (exn + unit) \<times> 'v dram_cache" where
  "dc_release key c =
     (case map_of (dc_entries c) key of
        None \<Rightarrow> (Inl (RuntimeError ''DRAM cache reference is no longer valid''), c)
      | Some record \<Rightarrow>
         if cr_references record \<le> 0 then (Inl (RuntimeError ''DRAM cache reference is no longer valid''), c)
         else (Inr (), c\<lparr>dc_entries := AList.update key (record\<lparr>cr_references := cr_references record - 1\<rparr>) (dc_entries c)\<rparr>))"

definition dc_cancel :: "dram_reservation \<Rightarrow> 'v dram_cache \<Rightarrow> (exn + unit) \<times> 'v dram_cache" where
  "dc_cancel r c =
     (if dr_reserved_bytes r > dc_reserved_bytes c
      then (Inl (RuntimeError ''DRAM cache reservation accounting underflow''), c)
      else (Inr (), c\<lparr>dc_reserved_bytes := dc_reserved_bytes c - dr_reserved_bytes r\<rparr>))"

definition dc_commit ::
  "dram_reservation \<Rightarrow> weight_key \<Rightarrow> 'v \<Rightarrow> int \<Rightarrow> 'v dram_cache \<Rightarrow> (exn + 'v dram_lease) \<times> 'v dram_cache" where
  "dc_commit r key value actual_bytes c =
     (if actual_bytes \<le> 0 then
        (case dc_cancel r c of
           (Inl e, c') \<Rightarrow> (Inl e, c')
         | (Inr _, c') \<Rightarrow> (Inl (ValueError ''actual_bytes must be a positive integer''), c'))
      else if dr_reserved_bytes r > dc_reserved_bytes c
      then (Inl (RuntimeError ''DRAM cache reservation accounting underflow''), c)
      else
        let c = c\<lparr>dc_reserved_bytes := dc_reserved_bytes c - dr_reserved_bytes r\<rparr>
        in if actual_bytes > dr_reserved_bytes r
           then (Inl (ValueError ''actual cache entry exceeds its reservation''), c)
           else if map_of (dc_entries c) key \<noteq> None
           then (Inl (RuntimeError ''DRAM cache key is already present''), c)
           else (Inr \<lparr>dl_key = key, dl_value = value, dl_closed = False\<rparr>,
                 c\<lparr>dc_entries := AList.update key
                      \<lparr>cr_value = value, cr_byte_count = actual_bytes, cr_references = 1\<rparr> (dc_entries c),
                   dc_used_bytes := dc_used_bytes c + actual_bytes\<rparr>))"

text \<open>The one-shot methods of leases and reservations.\<close>

definition dl_close :: "'v dram_lease \<Rightarrow> 'v dram_cache \<Rightarrow> (exn + unit) \<times> 'v dram_lease \<times> 'v dram_cache" where
  "dl_close lease c =
     (if dl_closed lease then (Inr (), lease, c)
      else (case dc_release (dl_key lease) c of (r, c') \<Rightarrow> (r, lease\<lparr>dl_closed := True\<rparr>, c')))"

definition dr_commit ::
  "dram_reservation \<Rightarrow> weight_key \<Rightarrow> 'v \<Rightarrow> int \<Rightarrow> 'v dram_cache \<Rightarrow> (exn + 'v dram_lease) \<times> dram_reservation \<times> 'v dram_cache" where
  "dr_commit r key value actual_bytes c =
     (if dr_finished r then (Inl (RuntimeError ''DRAM cache reservation is already finished''), r, c)
      else let r = r\<lparr>dr_finished := True\<rparr>
           in (case dc_commit r key value actual_bytes c of (x, c') \<Rightarrow> (x, r, c')))"

definition dr_cancel :: "dram_reservation \<Rightarrow> 'v dram_cache \<Rightarrow> (exn + unit) \<times> dram_reservation \<times> 'v dram_cache" where
  "dr_cancel r c =
     (if dr_finished r then (Inr (), r, c)
      else let r = r\<lparr>dr_finished := True\<rparr> in (case dc_cancel r c of (x, c') \<Rightarrow> (x, r, c')))"

section \<open>Sequences of operations\<close>

record 'v dram_sys =
  dsys_cache :: "'v dram_cache"
  dsys_leases :: "'v dram_lease list"
  dsys_reservations :: "dram_reservation list"

datatype 'v dram_op =
    Acquire_Key weight_key
  | Reserve_Pass int
  | Remove_Key weight_key
  | Clear_Cache
  | Commit_Reservation nat weight_key 'v int
  | Cancel_Reservation nat
  | Close_Cache_Lease nat

fun dram_apply :: "'v dram_op \<Rightarrow> 'v dram_sys \<Rightarrow> 'v dram_sys" where
  "dram_apply (Acquire_Key k) s =
     (case dc_acquire k (dsys_cache s) of
        (None, c) \<Rightarrow> s\<lparr>dsys_cache := c\<rparr>
      | (Some lease, c) \<Rightarrow> s\<lparr>dsys_cache := c, dsys_leases := dsys_leases s @ [lease]\<rparr>)"
| "dram_apply (Reserve_Pass n) s =
     (case dc_reserve_pass n (dsys_cache s) of
        (Inr (Some r), c) \<Rightarrow> s\<lparr>dsys_cache := c, dsys_reservations := dsys_reservations s @ [r]\<rparr>
      | (_, c) \<Rightarrow> s\<lparr>dsys_cache := c\<rparr>)"
| "dram_apply (Remove_Key k) s = s\<lparr>dsys_cache := snd (dc_remove k (dsys_cache s))\<rparr>"
| "dram_apply Clear_Cache s = s\<lparr>dsys_cache := snd (dc_clear (dsys_cache s))\<rparr>"
| "dram_apply (Commit_Reservation i k v n) s =
     (if i < length (dsys_reservations s)
      then (case dr_commit (dsys_reservations s ! i) k v n (dsys_cache s) of
              (Inl _, r, c) \<Rightarrow> s\<lparr>dsys_cache := c, dsys_reservations := (dsys_reservations s)[i := r]\<rparr>
            | (Inr lease, r, c) \<Rightarrow> s\<lparr>dsys_cache := c, dsys_reservations := (dsys_reservations s)[i := r],
                                  dsys_leases := dsys_leases s @ [lease]\<rparr>)
      else s)"
| "dram_apply (Cancel_Reservation i) s =
     (if i < length (dsys_reservations s)
      then (case dr_cancel (dsys_reservations s ! i) (dsys_cache s) of
              (_, r, c) \<Rightarrow> s\<lparr>dsys_cache := c, dsys_reservations := (dsys_reservations s)[i := r]\<rparr>)
      else s)"
| "dram_apply (Close_Cache_Lease i) s =
     (if i < length (dsys_leases s)
      then (case dl_close (dsys_leases s ! i) (dsys_cache s) of
              (_, l, c) \<Rightarrow> s\<lparr>dsys_cache := c, dsys_leases := (dsys_leases s)[i := l]\<rparr>)
      else s)"

definition dram_run :: "'v dram_op list \<Rightarrow> 'v dram_sys \<Rightarrow> 'v dram_sys" where
  "dram_run ops s = fold dram_apply ops s"
section \<open>The invariant\<close>

definition cached_bytes :: "(weight_key, 'v cache_record) dict \<Rightarrow> int" where
  "cached_bytes d = (\<Sum>p\<leftarrow>d. cr_byte_count (snd p))"

definition open_leases :: "'v dram_lease list \<Rightarrow> weight_key \<Rightarrow> int" where
  "open_leases ls k = int (length (filter (\<lambda>l. \<not> dl_closed l \<and> dl_key l = k) ls))"

definition pending :: "dram_reservation list \<Rightarrow> int" where
  "pending rs = (\<Sum>r\<leftarrow>rs. if dr_finished r then 0 else dr_reserved_bytes r)"

text \<open>The reference count of a cached record is the number of open leases, which hold its value.\<close>

definition lease_match :: "'v cache_record option \<Rightarrow> 'v dram_lease list \<Rightarrow> weight_key \<Rightarrow> bool" where
  "lease_match r ls k = (case r of
      None \<Rightarrow> open_leases ls k = 0
    | Some rec \<Rightarrow> cr_references rec = open_leases ls k \<and>
        (\<forall>l\<in>set ls. \<not> dl_closed l \<longrightarrow> dl_key l = k \<longrightarrow> dl_value l = cr_value rec))"

definition cache_inv :: "'v dram_cache \<Rightarrow> 'v dram_lease list \<Rightarrow> int \<Rightarrow> bool" where
  "cache_inv c ls p \<longleftrightarrow> dict_ok (dc_entries c) \<and> (\<forall>r\<in>snd ` set (dc_entries c). 0 < cr_byte_count r) \<and>
     dc_used_bytes c = cached_bytes (dc_entries c) \<and> dc_reserved_bytes c = p \<and>
     dc_used_bytes c + dc_reserved_bytes c \<le> dc_max_bytes c \<and>
     (\<forall>k. lease_match (map_of (dc_entries c) k) ls k)"

definition dram_inv :: "'v dram_sys \<Rightarrow> bool" where
  "dram_inv s \<longleftrightarrow> cache_inv (dsys_cache s) (dsys_leases s) (pending (dsys_reservations s)) \<and>
     (\<forall>r\<in>set (dsys_reservations s). 0 < dr_reserved_bytes r)"

lemma cached_bytes_simps [simp]:
  "cached_bytes [] = 0" "cached_bytes (p # d) = cr_byte_count (snd p) + cached_bytes d"
  "cached_bytes (d @ d') = cached_bytes d + cached_bytes d'"
  by (simp_all add: cached_bytes_def)

lemma open_leases_simps [simp]:
  "open_leases [] k = 0"
  "open_leases (l # ls) k = (if \<not> dl_closed l \<and> dl_key l = k then 1 else 0) + open_leases ls k"
  "open_leases (ls @ ls') k = open_leases ls k + open_leases ls' k"
  by (simp_all add: open_leases_def)

lemma open_leases_nonneg [simp]: "0 \<le> open_leases ls k"
  by (simp add: open_leases_def)

lemma open_leases_0: "open_leases ls k = 0 \<longleftrightarrow> (\<forall>l\<in>set ls. \<not> dl_closed l \<longrightarrow> dl_key l \<noteq> k)"
  by (auto simp: open_leases_def filter_empty_conv)

lemma pending_simps [simp]:
  "pending [] = 0" "pending (r # rs) = (if dr_finished r then 0 else dr_reserved_bytes r) + pending rs"
  "pending (rs @ rs') = pending rs + pending rs'"
  by (simp_all add: pending_def)

lemma pending_nonneg: "\<forall>r\<in>set rs. 0 < dr_reserved_bytes r \<Longrightarrow> 0 \<le> pending rs"
  by (induction rs) auto

lemma DramCache_inv: "DramCache m = Inr c \<Longrightarrow> cache_inv c [] 0"
  by (auto simp: DramCache_def cache_inv_def lease_match_def split: if_splits)

lemma cache_inv_D:
  assumes "cache_inv c ls p"
  shows "dict_ok (dc_entries c)" and "\<And>k r. (k, r) \<in> set (dc_entries c) \<Longrightarrow> 0 < cr_byte_count r"
    and "dc_used_bytes c = cached_bytes (dc_entries c)" and "dc_reserved_bytes c = p"
    and "dc_used_bytes c + dc_reserved_bytes c \<le> dc_max_bytes c"
    and "\<And>k. lease_match (map_of (dc_entries c) k) ls k"
  using assms unfolding cache_inv_def by (force)+

lemma cached_bytes_delete:
  assumes "dict_ok d" and "map_of d k = Some rec"
  shows "cached_bytes (AList.delete k d) = cached_bytes d - cr_byte_count rec"
  by (rule dict_split [OF assms]) simp

lemma cached_bytes_update:
  assumes "dict_ok d" and "map_of d k = Some rec"
  shows "cached_bytes (AList.update k r d) = cached_bytes d - cr_byte_count rec + cr_byte_count r"
  by (rule dict_split [OF assms]) simp

lemma set_delete_sub: "set (AList.delete k d) \<subseteq> set d"
  by (auto simp: AList.delete_eq)

lemma set_update_sub: "set (AList.update k v d) \<subseteq> insert (k, v) (set d)"
  by (induction d) auto

lemma move_to_end_dict:
  assumes "dict_ok d"
  shows "dict_ok (move_to_end k d)" and "map_of (move_to_end k d) = map_of d" and "set (move_to_end k d) = set d"
proof -
  have "dict_ok (move_to_end k d) \<and> map_of (move_to_end k d) = map_of d \<and> set (move_to_end k d) = set d"
  proof (cases "map_of d k")
    case (Some v)
    have move: "move_to_end k d = AList.delete k d @ [(k, v)]" by (simp add: move_to_end_def Some)
    have "map_of (AList.delete k d @ [(k, v)]) x = map_of d x" for x
      using Some by (simp add: map_add_def split: option.split)
    then have "map_of (move_to_end k d) = map_of d" by (simp add: fun_eq_iff move del: map_of_append)
    moreover obtain xs ys where s: "d = xs @ (k, v) # ys" and e: "AList.delete k d = xs @ ys"
      using dict_split [OF assms Some] by metis
    have "dict_ok (move_to_end k d) \<and> set (move_to_end k d) = set d"
      using assms unfolding move e unfolding s by (auto simp: dict_ok_def)
    ultimately show ?thesis by blast
  qed (simp add: move_to_end_def assms)
  then show "dict_ok (move_to_end k d)" "map_of (move_to_end k d) = map_of d" "set (move_to_end k d) = set d" by auto
qed

lemma cached_bytes_move_to_end: "dict_ok d \<Longrightarrow> cached_bytes (move_to_end k d) = cached_bytes d"
  by (simp add: move_to_end_def cached_bytes_delete split: option.splits)

text \<open>Dropping an unreferenced entry.\<close>

lemma cache_inv_drop:
  assumes inv: "cache_inv c ls p" and m: "map_of (dc_entries c) k = Some rec" and z: "cr_references rec = 0"
  shows "cache_inv (c\<lparr>dc_entries := AList.delete k (dc_entries c), dc_used_bytes := dc_used_bytes c - cr_byte_count rec\<rparr>) ls p"
proof -
  note D = cache_inv_D [OF inv]
  have "0 < cr_byte_count rec" using D(2) map_of_SomeD [OF m] .
  moreover have "lease_match (((map_of (dc_entries c))(k := None)) k') ls k'" for k'
    using D(6) [of k'] D(6) [of k] m z by (auto simp: lease_match_def)
  ultimately show ?thesis
    using D(1-5) cached_bytes_delete [OF D(1) m] set_delete_sub [of k "dc_entries c"]
    unfolding cache_inv_def by auto
qed

lemma cache_inv_evict: "cache_inv c ls p \<Longrightarrow> cache_inv (evict_until_available n c) ls p"
proof (induction n c rule: evict_until_available.induct)
  case (1 n c)
  show ?case
  proof (cases "dc_available_bytes c < n")
    case True
    show ?thesis
    proof (cases "find (\<lambda>p. cr_references (snd p) = 0) (dc_entries c)")
      case None
      then show ?thesis using 1(2) by (subst evict_until_available.simps) (simp add: True)
    next
      case (Some v)
      then have v: "v \<in> set (dc_entries c)" "cr_references (snd v) = 0" by (auto simp: find_Some_iff)
      then have "map_of (dc_entries c) (fst v) = Some (snd v)"
        using cache_inv_D(1) [OF 1(2)] by (simp add: dict_ok_def map_of_is_SomeI)
      from 1(1) [OF True Some cache_inv_drop [OF 1(2) this v(2)]] show ?thesis
        by (subst evict_until_available.simps) (simp add: True Some)
    qed
  next
    case False
    then show ?thesis using 1(2) by (subst evict_until_available.simps) simp
  qed
qed

lemma cache_inv_update:
  assumes inv: "cache_inv c ls p" and m: "map_of (dc_entries c) k = Some rec"
    and r: "cr_value r = cr_value rec" "cr_byte_count r = cr_byte_count rec"
    and ls': "\<And>k'. k' \<noteq> k \<Longrightarrow> open_leases ls' k' = open_leases ls k'" "cr_references r = open_leases ls' k"
      "\<And>l. l \<in> set ls' \<Longrightarrow> \<not> dl_closed l \<Longrightarrow> l \<in> set ls \<or> dl_key l = k \<and> dl_value l = cr_value rec"
  shows "cache_inv (c\<lparr>dc_entries := AList.update k r (dc_entries c)\<rparr>) ls' p"
proof -
  note D = cache_inv_D [OF inv]
  have "0 < cr_byte_count rec" using D(2) map_of_SomeD [OF m] .
  then have "\<forall>x\<in>snd ` set (AList.update k r (dc_entries c)). 0 < cr_byte_count x"
    using D(2) r set_update_sub [of k r "dc_entries c"] by auto
  moreover have "lease_match (((map_of (dc_entries c))(k \<mapsto> r)) k') ls' k'" for k'
  proof (cases "k' = k")
    case True
    then show ?thesis using D(6) [of k] ls'(2,3) m r(1) by (auto simp: lease_match_def)
  next
    case False
    then show ?thesis using D(6) [of k'] ls'(1) ls'(3) by (auto simp: lease_match_def split: option.splits)
  qed
  ultimately show ?thesis
    using D(1-5) cached_bytes_update [OF D(1) m, of r] r unfolding cache_inv_def by simp
qed

lemma cache_inv_acquire:
  assumes inv: "cache_inv c ls p" and a: "dc_acquire k c = (Some l, c')"
  shows "cache_inv c' (ls @ [l]) p"
proof -
  note D = cache_inv_D [OF inv]
  from a obtain rec where m: "map_of (dc_entries c) k = Some rec"
    and l: "l = \<lparr>dl_key = k, dl_value = cr_value rec, dl_closed = False\<rparr>"
    and c': "c' = c\<lparr>dc_entries := move_to_end k (AList.update k (rec\<lparr>cr_references := cr_references rec + 1\<rparr>) (dc_entries c))\<rparr>"
    by (auto simp: dc_acquire_def split: option.splits)
  let ?u = "AList.update k (rec\<lparr>cr_references := cr_references rec + 1\<rparr>) (dc_entries c)"
  have u: "cache_inv (c\<lparr>dc_entries := ?u\<rparr>) (ls @ [l]) p"
    by (rule cache_inv_update [OF inv m]) (use D(6) [of k] m l in \<open>auto simp: lease_match_def\<close>)
  note move = move_to_end_dict [OF dict_ok_update [OF D(1)]]
  show ?thesis
    using u move [of k k] cached_bytes_move_to_end [OF dict_ok_update [OF D(1)], of k k] unfolding cache_inv_def c' by simp
qed

lemma lease_in_cache:
  assumes inv: "cache_inv c ls p" and l: "l \<in> set ls" "\<not> dl_closed l"
  obtains rec where "map_of (dc_entries c) (dl_key l) = Some rec" and "cr_value rec = dl_value l"
    and "cr_references rec = open_leases ls (dl_key l)" and "0 < open_leases ls (dl_key l)"
proof -
  have pos: "open_leases ls (dl_key l) \<noteq> 0" using l by (auto simp: open_leases_0)
  then have gt: "0 < open_leases ls (dl_key l)" using open_leases_nonneg [of ls "dl_key l"] by linarith
  from cache_inv_D(6) [OF inv, of "dl_key l"] pos obtain rec where
    rec: "map_of (dc_entries c) (dl_key l) = Some rec" "cr_references rec = open_leases ls (dl_key l)"
      "\<forall>x\<in>set ls. \<not> dl_closed x \<longrightarrow> dl_key x = dl_key l \<longrightarrow> dl_value x = cr_value rec"
    by (auto simp: lease_match_def split: option.splits)
  show thesis using that [OF rec(1) _ rec(2) gt] rec(3) l by simp
qed

lemma dl_close_open:
  assumes inv: "cache_inv c ls p" and i: "i < length ls" and o: "\<not> dl_closed (ls ! i)"
  obtains c' where "dl_close (ls ! i) c = (Inr (), (ls ! i)\<lparr>dl_closed := True\<rparr>, c')"
    and "cache_inv c' (ls[i := (ls ! i)\<lparr>dl_closed := True\<rparr>]) p"
proof -
  define l where "l = ls ! i"
  have l: "l \<in> set ls" "\<not> dl_closed l" using i o by (simp_all add: l_def)
  obtain rec where rec: "map_of (dc_entries c) (dl_key l) = Some rec" "cr_value rec = dl_value l"
    "cr_references rec = open_leases ls (dl_key l)" "0 < open_leases ls (dl_key l)"
    using lease_in_cache [OF inv l] by metis
  have split: "ls = take i ls @ l # drop (Suc i) ls" using i by (simp add: l_def id_take_nth_drop)
  have upd: "ls[i := l\<lparr>dl_closed := True\<rparr>] = take i ls @ l\<lparr>dl_closed := True\<rparr> # drop (Suc i) ls"
    using i by (simp add: upd_conv_take_nth_drop)
  have cnt: "open_leases ls k = open_leases (ls[i := l\<lparr>dl_closed := True\<rparr>]) k + (if dl_key l = k then 1 else 0)" for k
    using l(2) by (subst split) (simp add: upd)
  let ?c = "c\<lparr>dc_entries := AList.update (dl_key l) (rec\<lparr>cr_references := cr_references rec - 1\<rparr>) (dc_entries c)\<rparr>"
  have "cache_inv ?c (ls[i := l\<lparr>dl_closed := True\<rparr>]) p"
  proof (rule cache_inv_update [OF inv rec(1)])
    fix x assume "x \<in> set (ls[i := l\<lparr>dl_closed := True\<rparr>])" "\<not> dl_closed x"
    then show "x \<in> set ls \<or> dl_key x = dl_key l \<and> dl_value x = cr_value rec"
      using set_update_subset_insert [of ls i "l\<lparr>dl_closed := True\<rparr>"] by auto
  qed (use cnt rec(3) in auto)
  moreover have "dl_close l c = (Inr (), l\<lparr>dl_closed := True\<rparr>, ?c)"
    using l(2) rec by (simp add: dl_close_def dc_release_def)
  ultimately show thesis using that by (simp add: l_def)
qed
lemma pending_finish:
  assumes i: "i < length rs" and f: "\<not> dr_finished (rs ! i)" and pos: "\<forall>r\<in>set rs. 0 < dr_reserved_bytes r"
  shows "pending (rs[i := (rs ! i)\<lparr>dr_finished := True\<rparr>]) = pending rs - dr_reserved_bytes (rs ! i)"
    and "dr_reserved_bytes (rs ! i) \<le> pending rs"
    and "\<forall>r\<in>set (rs[i := (rs ! i)\<lparr>dr_finished := True\<rparr>]). 0 < dr_reserved_bytes r"
proof -
  have split: "rs = take i rs @ rs ! i # drop (Suc i) rs" using i by (rule id_take_nth_drop)
  have sum: "pending rs = pending (take i rs) + dr_reserved_bytes (rs ! i) + pending (drop (Suc i) rs)"
    using f by (subst split) simp
  then show "pending (rs[i := (rs ! i)\<lparr>dr_finished := True\<rparr>]) = pending rs - dr_reserved_bytes (rs ! i)"
    using i by (simp add: upd_conv_take_nth_drop)
  have "0 \<le> pending (take i rs)" "0 \<le> pending (drop (Suc i) rs)"
    using pos by (auto intro!: pending_nonneg dest: in_set_takeD in_set_dropD)
  with sum show "dr_reserved_bytes (rs ! i) \<le> pending rs" by simp
  show "\<forall>r\<in>set (rs[i := (rs ! i)\<lparr>dr_finished := True\<rparr>]). 0 < dr_reserved_bytes r"
    using pos i set_update_subset_insert [of rs i "(rs ! i)\<lparr>dr_finished := True\<rparr>"] by auto
qed

lemma cache_inv_unreserve:
  "cache_inv c ls p \<Longrightarrow> 0 \<le> b \<Longrightarrow> cache_inv (c\<lparr>dc_reserved_bytes := dc_reserved_bytes c - b\<rparr>) ls (p - b)"
  by (auto simp: cache_inv_def)

lemma cache_inv_insert:
  assumes inv: "cache_inv c ls p" and m: "map_of (dc_entries c) k = None" and n: "0 < n"
    and fit: "dc_used_bytes c + dc_reserved_bytes c + n \<le> dc_max_bytes c"
  shows "cache_inv (c\<lparr>dc_entries := AList.update k \<lparr>cr_value = v, cr_byte_count = n, cr_references = 1\<rparr> (dc_entries c),
      dc_used_bytes := dc_used_bytes c + n\<rparr>) (ls @ [\<lparr>dl_key = k, dl_value = v, dl_closed = False\<rparr>]) p"
proof -
  note D = cache_inv_D [OF inv]
  have new: "AList.update k r (dc_entries c) = dc_entries c @ [(k, r)]" for r by (rule dict_update_new [OF m])
  have ok: "dict_ok (dc_entries c @ [(k, r)])" for r using dict_ok_update [OF D(1), of k r] by (simp add: new)
  have none: "open_leases ls k = 0" using D(6) [of k] m by (simp add: lease_match_def)
  have "lease_match (((map_of (dc_entries c))(k \<mapsto> \<lparr>cr_value = v, cr_byte_count = n, cr_references = 1\<rparr>)) k')
      (ls @ [\<lparr>dl_key = k, dl_value = v, dl_closed = False\<rparr>]) k'" for k'
    using D(6) [of k'] none by (auto simp: lease_match_def open_leases_0 split: option.splits)
  then have "lease_match (map_of (dc_entries c @ [(k, \<lparr>cr_value = v, cr_byte_count = n, cr_references = 1\<rparr>)]) k')
      (ls @ [\<lparr>dl_key = k, dl_value = v, dl_closed = False\<rparr>]) k'" for k'
    using map_of_update [of k _ "dc_entries c"] unfolding new by metis
  then show ?thesis
    using D(1-5) ok n fit unfolding cache_inv_def new by (auto simp del: map_of_append)
qed

lemma dc_commit_inv:
  assumes inv: "cache_inv c ls p" and b: "0 < dr_reserved_bytes r" "dr_reserved_bytes r \<le> p"
  shows "case dc_commit r k v n c of
      (Inl _, c') \<Rightarrow> cache_inv c' ls (p - dr_reserved_bytes r)
    | (Inr l, c') \<Rightarrow> cache_inv c' (ls @ [l]) (p - dr_reserved_bytes r) \<and> l = \<lparr>dl_key = k, dl_value = v, dl_closed = False\<rparr>"
proof -
  note D = cache_inv_D [OF inv]
  let ?c = "c\<lparr>dc_reserved_bytes := dc_reserved_bytes c - dr_reserved_bytes r\<rparr>"
  have un: "cache_inv ?c ls (p - dr_reserved_bytes r)" using b(1) by (intro cache_inv_unreserve [OF inv]) simp
  have res: "\<not> dr_reserved_bytes r > dc_reserved_bytes c" using D(4) b(2) by simp
  show ?thesis
  proof (cases "0 < n \<and> n \<le> dr_reserved_bytes r \<and> map_of (dc_entries c) k = None")
    case True
    have "cache_inv (?c\<lparr>dc_entries := AList.update k \<lparr>cr_value = v, cr_byte_count = n, cr_references = 1\<rparr> (dc_entries ?c),
        dc_used_bytes := dc_used_bytes ?c + n\<rparr>) (ls @ [\<lparr>dl_key = k, dl_value = v, dl_closed = False\<rparr>]) (p - dr_reserved_bytes r)"
      by (rule cache_inv_insert [OF un]) (use True D(5) in auto)
    then show ?thesis using True res by (simp add: dc_commit_def Let_def)
  next
    case False
    then show ?thesis using un res by (auto simp: dc_commit_def dc_cancel_def Let_def)
  qed
qed

lemma dram_inv_commit:
  assumes "dram_inv s"
  shows "dram_inv (dram_apply (Commit_Reservation i k v n) s)"
proof (cases "i < length (dsys_reservations s) \<and> \<not> dr_finished (dsys_reservations s ! i)")
  case True
  let ?r = "dsys_reservations s ! i"
  have inv: "cache_inv (dsys_cache s) (dsys_leases s) (pending (dsys_reservations s))"
    and pos: "\<forall>r\<in>set (dsys_reservations s). 0 < dr_reserved_bytes r" using assms by (simp_all add: dram_inv_def)
  note f = pending_finish [OF conjunct1 [OF True] conjunct2 [OF True] pos]
  have "0 < dr_reserved_bytes (?r\<lparr>dr_finished := True\<rparr>)" using pos True by simp
  from dc_commit_inv [OF inv this, of k v n] f show ?thesis
    using True by (auto simp: dram_inv_def dr_commit_def Let_def split: prod.splits sum.splits)
qed (use assms in \<open>auto simp: dr_commit_def\<close>)

lemma dram_inv_cancel:
  assumes "dram_inv s"
  shows "dram_inv (dram_apply (Cancel_Reservation i) s)"
proof (cases "i < length (dsys_reservations s) \<and> \<not> dr_finished (dsys_reservations s ! i)")
  case True
  let ?r = "dsys_reservations s ! i"
  have inv: "cache_inv (dsys_cache s) (dsys_leases s) (pending (dsys_reservations s))"
    and pos: "\<forall>r\<in>set (dsys_reservations s). 0 < dr_reserved_bytes r" using assms by (simp_all add: dram_inv_def)
  note f = pending_finish [OF conjunct1 [OF True] conjunct2 [OF True] pos]
  have "0 \<le> dr_reserved_bytes ?r" using pos True by (simp add: less_imp_le)
  from cache_inv_unreserve [OF inv this] f cache_inv_D(4) [OF inv] show ?thesis
    using True by (simp add: dram_inv_def dr_cancel_def dc_cancel_def)
qed (use assms in \<open>auto simp: dr_cancel_def\<close>)

lemma dram_inv_reserve:
  assumes "dram_inv s"
  shows "dram_inv (dram_apply (Reserve_Pass n) s)"
proof -
  let ?c = "evict_until_available n (dsys_cache s)"
  have e: "cache_inv ?c (dsys_leases s) (pending (dsys_reservations s))"
    by (rule cache_inv_evict) (use assms in \<open>simp add: dram_inv_def\<close>)
  have "cache_inv (?c\<lparr>dc_reserved_bytes := dc_reserved_bytes ?c + n\<rparr>) (dsys_leases s) (pending (dsys_reservations s) + n)"
    if "n \<le> dc_available_bytes ?c"
    using e that by (auto simp: cache_inv_def dc_available_bytes_def)
  then show ?thesis
    using assms e by (auto simp: dram_inv_def dc_reserve_pass_def Let_def not_le split: option.splits)
qed

lemma dram_inv_clear:
  assumes "dram_inv s"
  shows "dram_inv (dram_apply Clear_Cache s)"
proof (cases "dc_reserved_bytes (dsys_cache s) = 0 \<and> (\<forall>p\<in>set (dc_entries (dsys_cache s)). cr_references (snd p) = 0)")
  case True
  have inv: "cache_inv (dsys_cache s) (dsys_leases s) (pending (dsys_reservations s))" using assms by (simp add: dram_inv_def)
  have "open_leases (dsys_leases s) k = 0" for k
    using cache_inv_D(6) [OF inv, of k] True map_of_SomeD [of "dc_entries (dsys_cache s)" k]
    by (fastforce simp: lease_match_def split: option.splits)
  moreover have "0 \<le> cached_bytes (dc_entries (dsys_cache s))"
    unfolding cached_bytes_def by (rule sum_list_nonneg) (use cache_inv_D(2) [OF inv] in \<open>force intro: less_imp_le\<close>)
  ultimately have "cache_inv ((dsys_cache s)\<lparr>dc_entries := [], dc_used_bytes := 0\<rparr>) (dsys_leases s) (pending (dsys_reservations s))"
    using cache_inv_D(3-5) [OF inv] by (simp add: cache_inv_def lease_match_def)
  then show ?thesis using True assms by (auto simp: dram_inv_def dc_clear_def)
qed (use assms in \<open>auto simp: dc_clear_def\<close>)

lemma dram_inv_remove:
  assumes "dram_inv s"
  shows "dram_inv (dram_apply (Remove_Key k) s)"
  using assms cache_inv_drop [of "dsys_cache s" "dsys_leases s" "pending (dsys_reservations s)" k]
  by (auto simp: dram_inv_def dc_remove_def split: option.splits)

lemma dram_inv_acquire:
  assumes "dram_inv s"
  shows "dram_inv (dram_apply (Acquire_Key k) s)"
proof (cases "dc_acquire k (dsys_cache s)")
  case (Pair r c)
  show ?thesis
  proof (cases r)
    case None
    then have "c = dsys_cache s" using Pair by (auto simp: dc_acquire_def split: option.splits)
    then show ?thesis using assms Pair None by simp
  next
    case (Some l)
    then show ?thesis using assms Pair cache_inv_acquire [of "dsys_cache s"] by (auto simp: dram_inv_def)
  qed
qed

lemma dram_inv_close:
  assumes "dram_inv s"
  shows "dram_inv (dram_apply (Close_Cache_Lease i) s)"
proof (cases "i < length (dsys_leases s) \<and> \<not> dl_closed (dsys_leases s ! i)")
  case True
  have inv: "cache_inv (dsys_cache s) (dsys_leases s) (pending (dsys_reservations s))" using assms by (simp add: dram_inv_def)
  obtain c' where "dl_close (dsys_leases s ! i) (dsys_cache s) = (Inr (), (dsys_leases s ! i)\<lparr>dl_closed := True\<rparr>, c')"
    and "cache_inv c' ((dsys_leases s)[i := (dsys_leases s ! i)\<lparr>dl_closed := True\<rparr>]) (pending (dsys_reservations s))"
    using dl_close_open [OF inv conjunct1 [OF True] conjunct2 [OF True]] by metis
  then show ?thesis using True assms by (simp add: dram_inv_def)
qed (use assms in \<open>auto simp: dl_close_def\<close>)

lemma dram_apply_inv: "dram_inv s \<Longrightarrow> dram_inv (dram_apply op s)"
  by (cases op) (simp_all only: dram_inv_acquire dram_inv_reserve dram_inv_remove dram_inv_clear
      dram_inv_commit dram_inv_cancel dram_inv_close)

lemma dram_run_inv: "dram_inv s \<Longrightarrow> dram_inv (dram_run ops s)"
  unfolding dram_run_def by (induction ops arbitrary: s) (simp_all add: dram_apply_inv)
section \<open>Eviction against its specification\<close>

text \<open>The shortest prefix whose bytes reach the need, or everything.\<close>

fun lru_prefix :: "int \<Rightarrow> (weight_key \<times> 'v cache_record) list \<Rightarrow> (weight_key \<times> 'v cache_record) list" where
  "lru_prefix need [] = []"
| "lru_prefix need (p # ps) = (if need \<le> 0 then [] else p # lru_prefix (need - cr_byte_count (snd p)) ps)"

definition unreferenced :: "'v dram_cache \<Rightarrow> (weight_key \<times> 'v cache_record) list" where
  "unreferenced c = filter (\<lambda>p. cr_references (snd p) = 0) (dc_entries c)"

lemma set_lru_prefix: "set (lru_prefix n ps) \<subseteq> set ps"
  by (induction n ps rule: lru_prefix.induct) auto

lemma lru_prefix_none: "n \<le> 0 \<Longrightarrow> lru_prefix n ps = []"
  by (cases ps) auto

lemma lru_prefix_enough:
  "(\<And>p. p \<in> set ps \<Longrightarrow> 0 < cr_byte_count (snd p)) \<Longrightarrow> n \<le> cached_bytes (lru_prefix n ps) \<or> lru_prefix n ps = ps"
proof (induction n ps rule: lru_prefix.induct)
  case (2 n p ps)
  then show ?case by (cases "n \<le> 0") auto
qed auto

lemma find_split:
  "find P xs = Some v \<Longrightarrow> \<exists>ys zs. xs = ys @ v # zs \<and> (\<forall>y\<in>set ys. \<not> P y) \<and> P v"
proof (induction xs)
  case (Cons x xs)
  then show ?case by (cases "P x") (force, metis append_Cons find.simps(2) set_ConsD)
qed simp

lemma evict_eq:
  assumes "dict_ok (dc_entries c)"
  shows "evict_until_available n c =
     c\<lparr>dc_entries := filter (\<lambda>p. p \<notin> set (lru_prefix (n - dc_available_bytes c) (unreferenced c))) (dc_entries c),
       dc_used_bytes := dc_used_bytes c - cached_bytes (lru_prefix (n - dc_available_bytes c) (unreferenced c))\<rparr>"
  using assms
proof (induction n c rule: evict_until_available.induct)
  case (1 n c)
  consider (enough) "n \<le> dc_available_bytes c"
    | (stuck) "dc_available_bytes c < n" "find (\<lambda>p. cr_references (snd p) = 0) (dc_entries c) = None"
    | (victim) v where "dc_available_bytes c < n" "find (\<lambda>p. cr_references (snd p) = 0) (dc_entries c) = Some v"
    by fastforce
  then show ?case
  proof cases
    case enough
    then show ?thesis by (subst evict_until_available.simps) (simp add: lru_prefix_none)
  next
    case stuck
    then have "unreferenced c = []" by (auto simp: unreferenced_def find_None_iff filter_empty_conv)
    with stuck show ?thesis by (subst evict_until_available.simps) simp
  next
    case (victim v)
    obtain xs ys where s: "dc_entries c = xs @ v # ys" and xs: "\<forall>y\<in>set xs. cr_references (snd y) \<noteq> 0"
      and v: "cr_references (snd v) = 0" using find_split [OF victim(2)] by auto
    have m: "map_of (dc_entries c) (fst v) = Some (snd v)"
      using dict_ok_map_of [OF 1(2), of "fst v" "snd v"] s by simp
    let ?c = "c\<lparr>dc_entries := AList.delete (fst v) (dc_entries c), dc_used_bytes := dc_used_bytes c - cr_byte_count (snd v)\<rparr>"
    have d: "AList.delete (fst v) (dc_entries c) = xs @ ys"
    proof (rule dict_split [OF 1(2) m])
      fix us vs assume e: "dc_entries c = us @ (fst v, snd v) # vs" and k: "fst v \<notin> fst ` set us" "fst v \<notin> fst ` set vs"
        and del: "AList.delete (fst v) (dc_entries c) = us @ vs"
      have "us = xs \<and> vs = ys"
        using e s k by (metis append_Cons_eq_iff image_eqI prod.collapse)
      then show ?thesis using del by simp
    qed
    have notin: "v \<notin> set xs" "v \<notin> set ys" using 1(2) s by (auto simp: dict_ok_def)
    have un: "unreferenced c = v # unreferenced ?c" using xs v by (simp add: unreferenced_def s [symmetric] d) (simp add: s v filter_empty_conv)
    have av: "dc_available_bytes ?c = dc_available_bytes c + cr_byte_count (snd v)" by (simp add: dc_available_bytes_def)
    have ih: "evict_until_available n ?c = ?c\<lparr>dc_entries :=
        filter (\<lambda>p. p \<notin> set (lru_prefix (n - dc_available_bytes ?c) (unreferenced ?c))) (dc_entries ?c),
        dc_used_bytes := dc_used_bytes ?c - cached_bytes (lru_prefix (n - dc_available_bytes ?c) (unreferenced ?c))\<rparr>"
      by (rule 1(1) [OF victim]) (use 1(2) in simp)
    have lp: "lru_prefix (n - dc_available_bytes c) (unreferenced c) = v # lru_prefix (n - dc_available_bytes ?c) (unreferenced ?c)"
      using victim(1) by (simp add: un av algebra_simps)
    have "filter (\<lambda>p. p \<notin> set (v # L)) zs = filter (\<lambda>p. p \<notin> set L) zs" if "v \<notin> set zs" for L zs
      by (rule filter_cong) (use that in auto)
    with notin have filt: "filter (\<lambda>p. p \<notin> set (v # L)) (dc_entries c) =
        filter (\<lambda>p. p \<notin> set L) (AList.delete (fst v) (dc_entries c))" for L unfolding d unfolding s by simp
    have "evict_until_available n c = evict_until_available n ?c"
      using victim by (subst evict_until_available.simps) simp
    then show ?thesis unfolding ih lp filt by simp
  qed
qed

lemma reserve_succeeds_iff:
  assumes inv: "cache_inv c ls p" and n: "0 < n" "n \<le> dc_max_bytes c"
  shows "(\<exists>r. fst (dc_reserve_pass n c) = Inr (Some r)) \<longleftrightarrow> n \<le> dc_available_bytes c + cached_bytes (unreferenced c)"
proof -
  note D = cache_inv_D [OF inv]
  let ?L = "lru_prefix (n - dc_available_bytes c) (unreferenced c)"
  have av: "dc_available_bytes (evict_until_available n c) = dc_available_bytes c + cached_bytes ?L"
    by (simp add: evict_eq [OF D(1)] dc_available_bytes_def)
  have pos: "\<And>p. p \<in> set (unreferenced c) \<Longrightarrow> 0 < cr_byte_count (snd p)" using D(2) by (force simp: unreferenced_def)
  have le: "cached_bytes (lru_prefix m ps) \<le> cached_bytes ps" if "\<And>p. p \<in> set ps \<Longrightarrow> 0 < cr_byte_count (snd p)" for m ps
    using that
  proof (induction m ps rule: lru_prefix.induct)
    case (2 m p ps)
    have "0 \<le> cached_bytes ps" unfolding cached_bytes_def by (rule sum_list_nonneg) (use 2(2) in \<open>force intro: less_imp_le\<close>)
    with 2 show ?case by (auto simp: less_imp_le add_nonneg_nonneg)
  qed simp
  have "(\<exists>r. fst (dc_reserve_pass n c) = Inr (Some r)) \<longleftrightarrow> n \<le> dc_available_bytes (evict_until_available n c)"
    using n by (simp add: dc_reserve_pass_def Let_def raise_first.simps)
  also have "\<dots> \<longleftrightarrow> n \<le> dc_available_bytes c + cached_bytes (unreferenced c)"
    using lru_prefix_enough [OF pos, of "unreferenced c" "n - dc_available_bytes c"] le [OF pos, of "unreferenced c" "n - dc_available_bytes c"]
    unfolding av by auto
  finally show ?thesis .
qed

section \<open>Properties\<close>

definition dram_start :: "'v dram_cache \<Rightarrow> 'v dram_sys" where
  "dram_start c = \<lparr>dsys_cache = c, dsys_leases = [], dsys_reservations = []\<rparr>"

lemma dram_reached_inv: "DramCache m = Inr c0 \<Longrightarrow> dram_inv (dram_run ops (dram_start c0))"
  by (rule dram_run_inv) (simp add: dram_inv_def dram_start_def DramCache_inv)

definition ex_dram :: "string dram_cache" where
  "ex_dram = \<lparr>dc_max_bytes = 10, dc_used_bytes = 0, dc_reserved_bytes = 0, dc_entries = []\<rparr>"

lemma ex_dram_made: "DramCache 10 = Inr ex_dram"
  by (simp add: DramCache_def ex_dram_def)

definition ex_dram_ops :: "string dram_op list" where
  "ex_dram_ops = [Reserve_Pass 4, Commit_Reservation 0 (0, 0) ''a'' 4, Reserve_Pass 4, Commit_Reservation 1 (0, 1) ''b'' 3,
     Close_Cache_Lease 0, Close_Cache_Lease 1, Acquire_Key (0, 0)]"

definition ex_dram_sys :: "string dram_sys" where
  "ex_dram_sys = dram_run ex_dram_ops (dram_start ex_dram)"

text \<open>
  C16. The Host memory budget holds: after any sequence of cache operations the bytes of the cached
  entries plus all outstanding reservations never exceed \<open>max_bytes\<close>, both counters are exact, every
  reference count is the number of open leases, and an open lease still finds its value cached and can
  be closed without error.
\<close>

theorem dram_cache_accounting:
  assumes "DramCache m = Inr c0" and "s = dram_run ops (dram_start c0)"
  shows "dc_used_bytes (dsys_cache s) + dc_reserved_bytes (dsys_cache s) \<le> dc_max_bytes (dsys_cache s) \<and>
     dc_used_bytes (dsys_cache s) = cached_bytes (dc_entries (dsys_cache s)) \<and>
     dc_reserved_bytes (dsys_cache s) = pending (dsys_reservations s) \<and>
     (\<forall>k r. map_of (dc_entries (dsys_cache s)) k = Some r \<longrightarrow> cr_references r = open_leases (dsys_leases s) k) \<and>
     (\<forall>i<length (dsys_leases s). \<not> dl_closed (dsys_leases s ! i) \<longrightarrow>
        map_option cr_value (map_of (dc_entries (dsys_cache s)) (dl_key (dsys_leases s ! i))) = Some (dl_value (dsys_leases s ! i)) \<and>
        fst (dl_close (dsys_leases s ! i) (dsys_cache s)) = Inr ())"
proof -
  have inv: "cache_inv (dsys_cache s) (dsys_leases s) (pending (dsys_reservations s))"
    using dram_reached_inv [OF assms(1), of ops] assms(2) by (simp add: dram_inv_def)
  have refs: "cr_references r = open_leases (dsys_leases s) k" if "map_of (dc_entries (dsys_cache s)) k = Some r" for k r
    using cache_inv_D(6) [OF inv, of k] that by (simp add: lease_match_def)
  have "map_option cr_value (map_of (dc_entries (dsys_cache s)) (dl_key (dsys_leases s ! i))) = Some (dl_value (dsys_leases s ! i)) \<and>
      fst (dl_close (dsys_leases s ! i) (dsys_cache s)) = Inr ()"
    if i: "i < length (dsys_leases s)" "\<not> dl_closed (dsys_leases s ! i)" for i
  proof
    show "map_option cr_value (map_of (dc_entries (dsys_cache s)) (dl_key (dsys_leases s ! i))) = Some (dl_value (dsys_leases s ! i))"
      by (rule lease_in_cache [OF inv nth_mem [OF i(1)] i(2)]) simp
    show "fst (dl_close (dsys_leases s ! i) (dsys_cache s)) = Inr ()"
      by (rule dl_close_open [OF inv i]) simp
  qed
  with refs cache_inv_D(3-5) [OF inv] show ?thesis by blast
qed

theorem dram_cache_accounting_witness:
  "dc_used_bytes (dsys_cache ex_dram_sys) = 7 \<and> cached_bytes (dc_entries (dsys_cache ex_dram_sys)) = 7 \<and>
   fst (dl_close (dsys_leases ex_dram_sys ! 2) (dsys_cache ex_dram_sys)) = Inr ()"
proof -
  have "dc_used_bytes (dsys_cache ex_dram_sys) = 7" "2 < length (dsys_leases ex_dram_sys)" "\<not> dl_closed (dsys_leases ex_dram_sys ! 2)"
    by code_simp+
  with dram_cache_accounting [OF ex_dram_made ex_dram_sys_def] show ?thesis by auto
qed

text \<open>
  C17. Eviction follows the LRU policy: in every reachable state the eviction loop of \<open>reserve\<close>
  removes exactly the shortest prefix of the unreferenced entries, in least-recently-used order, that
  makes room (or all of them) and keeps every other entry in place.
\<close>

theorem dram_eviction_is_lru:
  assumes "DramCache m = Inr c0" and "c = dsys_cache (dram_run ops (dram_start c0))"
    and "victims = lru_prefix (n - dc_available_bytes c) (unreferenced c)"
  shows "evict_until_available n c = c\<lparr>dc_entries := filter (\<lambda>p. p \<notin> set victims) (dc_entries c),
     dc_used_bytes := dc_used_bytes c - cached_bytes victims\<rparr>"
proof -
  have "dram_inv (dram_run ops (dram_start c0))" by (rule dram_reached_inv [OF assms(1)])
  then have "dict_ok (dc_entries c)" unfolding assms(2) dram_inv_def cache_inv_def by blast
  then show ?thesis unfolding assms(3) by (rule evict_eq)
qed

theorem dram_eviction_is_lru_witness:
  "map fst (dc_entries (evict_until_available 5 (dsys_cache ex_dram_sys))) = [(0, 0)]"
proof -
  let ?c = "dsys_cache ex_dram_sys"
  have v: "map fst (filter (\<lambda>p. p \<notin> set (lru_prefix (5 - dc_available_bytes ?c) (unreferenced ?c))) (dc_entries ?c)) = [(0, 0)]"
    by code_simp
  show ?thesis
    by (subst dram_eviction_is_lru [OF ex_dram_made _ refl, of ?c ex_dram_ops]) (simp_all add: ex_dram_sys_def v [unfolded ex_dram_sys_def])
qed

text \<open>
  A reservation waits only for leases and other reservations: in every reachable state a pass of
  \<open>reserve\<close> for an admissible size succeeds exactly when the free bytes together with all
  unreferenced entries suffice.
\<close>

theorem dram_reserve_succeeds_iff:
  assumes "DramCache m = Inr c0" and "c = dsys_cache (dram_run ops (dram_start c0))" and "0 < n" and "n \<le> dc_max_bytes c"
  shows "(\<exists>r. fst (dc_reserve_pass n c) = Inr (Some r)) \<longleftrightarrow> n \<le> dc_available_bytes c + cached_bytes (unreferenced c)"
proof -
  have "dram_inv (dram_run ops (dram_start c0))" by (rule dram_reached_inv [OF assms(1)])
  then show ?thesis unfolding assms(2) dram_inv_def using reserve_succeeds_iff assms(2-4) by blast
qed

theorem dram_reserve_succeeds_iff_witness:
  "(\<exists>r. fst (dc_reserve_pass 6 (dsys_cache ex_dram_sys)) = Inr (Some r)) \<and>
   \<not> (\<exists>r. fst (dc_reserve_pass 7 (dsys_cache ex_dram_sys)) = Inr (Some r))"
proof -
  let ?c = "dsys_cache ex_dram_sys"
  have "dc_available_bytes ?c + cached_bytes (unreferenced ?c) = 6" "dc_max_bytes ?c = 10" by code_simp+
  then show ?thesis
    using dram_reserve_succeeds_iff [OF ex_dram_made, of ?c ex_dram_ops 6]
      dram_reserve_succeeds_iff [OF ex_dram_made, of ?c ex_dram_ops 7] by (simp add: ex_dram_sys_def)
qed

end
