(* ===== verification/Weight_Loader.thy ===== *)
theory Weight_Loader
  imports Safetensors Dram_Cache
begin

text \<open>
  \<open>ek-worker/src/expertkit_worker/weights/loader.py\<close>: finding one expert's CPU weight in DRAM, on disk,
  at the peers and at the central server. The file system, the HTTP transfer and the backend's weight
  adapter are outside the loader; \<open>load_env\<close> holds what they answer to one load attempt. A load attempt
  threads a log: the source failures collected so far, the disk files removed as invalid, the reported
  source results and the URLs downloaded from. An exception the loader does not catch, such as an
  \<open>OSError\<close> of removing an invalid file, ends the attempt; the results are then \<open>Inl\<close>. Buffers are byte lists.
\<close>

datatype weight_source = DRAM | DISK | PEER | WEIGHT_SERVER

datatype weight_load_stage = FETCH | READ | PARSE | VALIDATE | CONVERT | PLACE

datatype weight_load_error_code =
    WL_NOT_FOUND | WL_IO | WL_NETWORK | WL_INVALID_FORMAT | WL_UNEXPECTED_METADATA | WL_UNSUPPORTED | WL_INTERNAL

record weight_load_failure =
  lf_source :: weight_source
  lf_stage :: weight_load_stage
  lf_code :: weight_load_error_code
  lf_retryable :: bool
  lf_diagnostic :: string

abbreviation WeightLoadFailure ::
  "weight_source \<Rightarrow> weight_load_stage \<Rightarrow> weight_load_error_code \<Rightarrow> bool \<Rightarrow> string \<Rightarrow> weight_load_failure" where
  "WeightLoadFailure s st c r d \<equiv> \<lparr>lf_source = s, lf_stage = st, lf_code = c, lf_retryable = r, lf_diagnostic = d\<rparr>"

text \<open>The exception \<open>WeightLoadFailed\<close>; its text joins the diagnostics of all sources.\<close>

record weight_load_failed =
  wf_key :: weight_key
  wf_failures :: "weight_load_failure list"
  wf_retryable :: bool
  wf_stage :: weight_load_stage
  wf_code :: weight_load_error_code

definition WeightLoadFailed :: "weight_key \<Rightarrow> weight_load_failure list \<Rightarrow> exn + weight_load_failed" where
  "WeightLoadFailed key failures =
     (if failures = [] then Inl (ValueError ''WeightLoadFailed requires at least one source failure'')
      else Inr \<lparr>wf_key = key, wf_failures = failures, wf_retryable = (\<exists>f\<in>set failures. lf_retryable f),
                wf_stage = lf_stage (last failures), wf_code = lf_code (last failures)\<rparr>)"

record 'c cached_cpu_weight =
  cw_buffer :: bytes
  cw_parsed :: safetensor_data
  cw_value :: 'c
  cw_byte_count :: int

record preparation_failure =
  pf_stage :: weight_load_stage
  pf_code :: weight_load_error_code
  pf_diagnostic :: string

record load_policy =
  lp_local_only :: bool
  lp_peer_endpoints :: "string list"

datatype read_result = Read_OK bytes | File_Not_Found | Invalid_File string | OS_Error string | Read_Raised exn

datatype download_result = Downloaded bytes | Weight_Not_Found string | Transfer_Error bool string | Download_Raised exn

record 'c load_env =
  le_model_name :: string
  le_weight_server_endpoint :: string
  le_read :: "weight_key \<Rightarrow> read_result"
  le_remove :: "weight_key \<Rightarrow> exn option"
  le_download :: "string \<Rightarrow> download_result"
  le_decode :: "bytes \<Rightarrow> nat list option"
  le_loads :: "nat list \<Rightarrow> json option"
  le_make_cpu_weight :: "safetensor_data \<Rightarrow> exn + 'c"
  le_cpu_extra_bytes :: int

record load_log =
  ll_failures :: "weight_load_failure list"
  ll_disk_removed :: "weight_key list"
  ll_results :: "(weight_source \<times> bool) list"
  ll_urls :: "string list"

definition empty_log :: load_log where
  "empty_log = \<lparr>ll_failures = [], ll_disk_removed = [], ll_results = [], ll_urls = []\<rparr>"

definition add_failure :: "weight_load_failure \<Rightarrow> load_log \<Rightarrow> load_log" where
  "add_failure f log = log\<lparr>ll_failures := ll_failures log @ [f]\<rparr>"

definition record_source_result :: "weight_source \<Rightarrow> bool \<Rightarrow> load_log \<Rightarrow> load_log" where
  "record_source_result source success log = log\<lparr>ll_results := ll_results log @ [(source, success)]\<rparr>"

section \<open>Endpoints and URLs\<close>

definition rstrip_slash :: "string \<Rightarrow> string" where
  "rstrip_slash s = rev (dropWhile (\<lambda>c. c = CHR ''/'') (rev s))"

definition normalize_peer_endpoints :: "string list \<Rightarrow> string list" where
  "normalize_peer_endpoints peer_endpoints =
     fold (\<lambda>endpoint normalized.
        let candidate = rstrip_slash endpoint
        in if candidate \<noteq> '''' \<and> candidate \<notin> set normalized then normalized @ [candidate] else normalized)
       peer_endpoints []"

text \<open>\<open>urllib.parse.quote(s, safe='')\<close> on the encoded bytes and \<open>str\<close> of a nonnegative integer.\<close>

definition hex_digit :: "nat \<Rightarrow> char" where
  "hex_digit n = ''0123456789ABCDEF'' ! n"

definition unreserved :: "char \<Rightarrow> bool" where
  "unreserved c \<longleftrightarrow> (CHR ''a'' \<le> c \<and> c \<le> CHR ''z'') \<or> (CHR ''A'' \<le> c \<and> c \<le> CHR ''Z'') \<or>
     (CHR ''0'' \<le> c \<and> c \<le> CHR ''9'') \<or> c \<in> set ''_.-~''"

definition quote :: "string \<Rightarrow> string" where
  "quote s = concat (map (\<lambda>c. if unreserved c then [c]
      else [CHR ''%'', hex_digit (of_char c div 16), hex_digit (of_char c mod 16)]) s)"

fun str_nat :: "nat \<Rightarrow> string" where
  "str_nat n = (if n < 10 then [hex_digit n] else str_nat (n div 10) @ [hex_digit (n mod 10)])"

definition expert_url :: "string \<Rightarrow> string \<Rightarrow> weight_key \<Rightarrow> string" where
  "expert_url model_name endpoint key =
     endpoint @ ''/expert/'' @ quote model_name @ ''/'' @ str_nat (nat (fst key)) @ ''/'' @ str_nat (nat (snd key))"

section \<open>One load attempt\<close>

definition is_format_error :: "exn \<Rightarrow> bool" where
  "is_format_error e = (case e of SafeTensorFormatError _ \<Rightarrow> True | ValueError _ \<Rightarrow> True | TypeError _ \<Rightarrow> True | _ \<Rightarrow> False)"

fun exn_text :: "exn \<Rightarrow> string" where
  "exn_text (SafeTensorFormatError s) = s"
| "exn_text (ValueError s) = s"
| "exn_text (TypeError s) = s"
| "exn_text (RuntimeError s) = s"
| "exn_text (AssertionError s) = s"
| "exn_text (TimeoutError s) = s"
| "exn_text _ = ''''"

definition prepare :: "'c load_env \<Rightarrow> bytes \<Rightarrow> preparation_failure + 'c cached_cpu_weight" where
  "prepare env buffer =
     (case parse_safetensors (le_decode env) (le_loads env) buffer of
        Inl e \<Rightarrow> Inl \<lparr>pf_stage = PARSE, pf_code = WL_INVALID_FORMAT, pf_diagnostic = exn_text e\<rparr>
      | Inr parsed \<Rightarrow>
         (case le_make_cpu_weight env parsed of
            Inl e \<Rightarrow> Inl \<lparr>pf_stage = VALIDATE, pf_code = (if is_format_error e then WL_UNEXPECTED_METADATA else WL_INTERNAL),
                          pf_diagnostic = exn_text e\<rparr>
          | Inr cpu_weight \<Rightarrow>
              Inr \<lparr>cw_buffer = buffer, cw_parsed = parsed, cw_value = cpu_weight,
                   cw_byte_count = int (length buffer) + le_cpu_extra_bytes env\<rparr>))"

text \<open>An invalid file is removed before the failure is recorded; what the removal raises ends the load.\<close>

definition remove_invalid ::
  "'c load_env \<Rightarrow> weight_key \<Rightarrow> weight_load_failure \<Rightarrow> load_log \<Rightarrow> (exn + 'c cached_cpu_weight option) \<times> load_log" where
  "remove_invalid env key failure log =
     (case le_remove env key of
        Some e \<Rightarrow> (Inl e, log)
      | None \<Rightarrow> (Inr None, add_failure failure (log\<lparr>ll_disk_removed := ll_disk_removed log @ [key]\<rparr>)))"

definition load_disk :: "'c load_env \<Rightarrow> weight_key \<Rightarrow> load_log \<Rightarrow> (exn + 'c cached_cpu_weight option) \<times> load_log" where
  "load_disk env key log =
     (case le_read env key of
        File_Not_Found \<Rightarrow>
          (Inr None, add_failure (WeightLoadFailure DISK READ WL_NOT_FOUND False ''expert file does not exist'')
                   (record_source_result DISK False log))
      | Invalid_File d \<Rightarrow>
          remove_invalid env key (WeightLoadFailure DISK READ WL_INVALID_FORMAT False d) (record_source_result DISK False log)
      | OS_Error d \<Rightarrow>
          (Inr None, add_failure (WeightLoadFailure DISK READ WL_IO True d) (record_source_result DISK False log))
      | Read_Raised e \<Rightarrow> (Inl e, log)
      | Read_OK buffer \<Rightarrow>
          (case prepare env buffer of
             Inr entry \<Rightarrow> (Inr (Some entry), record_source_result DISK True log)
           | Inl p \<Rightarrow>
               remove_invalid env key (WeightLoadFailure DISK (pf_stage p) (pf_code p) False (pf_diagnostic p))
                 (record_source_result DISK False log)))"

definition load_http ::
  "'c load_env \<Rightarrow> weight_key \<Rightarrow> string \<Rightarrow> weight_source \<Rightarrow> load_log \<Rightarrow> (exn + 'c cached_cpu_weight option) \<times> load_log" where
  "load_http env key endpoint source log =
     (let url = expert_url (le_model_name env) endpoint key;
          log = log\<lparr>ll_urls := ll_urls log @ [url]\<rparr>
      in case le_download env url of
           Weight_Not_Found d \<Rightarrow>
             (Inr None, add_failure (WeightLoadFailure source FETCH WL_NOT_FOUND False d) (record_source_result source False log))
         | Transfer_Error retryable d \<Rightarrow>
             (Inr None, add_failure (WeightLoadFailure source FETCH WL_NETWORK retryable d) (record_source_result source False log))
         | Download_Raised e \<Rightarrow> (Inl e, log)
         | Downloaded buffer \<Rightarrow>
             (case prepare env buffer of
                Inr entry \<Rightarrow> (Inr (Some entry), record_source_result source True log)
              | Inl p \<Rightarrow>
                  (Inr None, add_failure (WeightLoadFailure source (pf_stage p) (pf_code p) False (pf_diagnostic p))
                           (record_source_result source False log))))"

fun load_peers ::
  "'c load_env \<Rightarrow> weight_key \<Rightarrow> string list \<Rightarrow> string set \<Rightarrow> load_log \<Rightarrow>
   (exn + 'c cached_cpu_weight option) \<times> string set \<times> load_log" where
  "load_peers env key [] attempted log = (Inr None, attempted, log)"
| "load_peers env key (endpoint # rest) attempted log =
     (case load_http env key endpoint PEER log of
        (Inl e, log') \<Rightarrow> (Inl e, insert endpoint attempted, log')
      | (Inr (Some entry), log') \<Rightarrow> (Inr (Some entry), insert endpoint attempted, log')
      | (Inr None, log') \<Rightarrow> load_peers env key rest (insert endpoint attempted) log')"

text \<open>The part of \<open>_populate_cache\<close> that tries the sources.\<close>

definition load_sources ::
  "'c load_env \<Rightarrow> weight_key \<Rightarrow> load_policy \<Rightarrow> load_log \<Rightarrow> (exn + (weight_source \<times> 'c cached_cpu_weight) option) \<times> load_log" where
  "load_sources env key policy log =
     (case load_disk env key log of
        (Inl e, log') \<Rightarrow> (Inl e, log')
      | (Inr (Some entry), log') \<Rightarrow> (Inr (Some (DISK, entry)), log')
      | (Inr None, log') \<Rightarrow>
         if lp_local_only policy then (Inr None, log')
         else
           (case load_peers env key (lp_peer_endpoints policy) {} log' of
              (Inl e, _, log'') \<Rightarrow> (Inl e, log'')
            | (Inr (Some entry), _, log'') \<Rightarrow> (Inr (Some (PEER, entry)), log'')
            | (Inr None, attempted, log'') \<Rightarrow>
               let central = rstrip_slash (le_weight_server_endpoint env)
               in if central \<in> attempted then (Inr None, log'')
                  else (case load_http env key central WEIGHT_SERVER log'' of
                          (Inl e, log3) \<Rightarrow> (Inl e, log3)
                        | (Inr (Some entry), log3) \<Rightarrow> (Inr (Some (WEIGHT_SERVER, entry)), log3)
                        | (Inr None, log3) \<Rightarrow> (Inr None, log3))))"

text \<open>
  \<open>_populate_cache\<close> once its reservation is granted. It runs the cache's critical sections: the second
  lookup, which may find the weight loaded meanwhile, and after the sources were tried the commit; the
  reservation is cancelled at the end, which does nothing after a commit. \<open>mid\<close> is the cache state the
  commit finds, after whatever other tasks did.
\<close>

datatype 'c populate_outcome =
    Populated weight_source "'c cached_cpu_weight dram_lease"
  | Populate_Failed weight_load_failed
  | Populate_Raised exn

definition populate_cache ::
  "'c load_env \<Rightarrow> weight_key \<Rightarrow> load_policy \<Rightarrow> dram_reservation \<Rightarrow> 'c cached_cpu_weight dram_cache \<Rightarrow>
   ('c cached_cpu_weight dram_cache \<Rightarrow> 'c cached_cpu_weight dram_cache) \<Rightarrow>
   'c populate_outcome \<times> load_log \<times> dram_reservation \<times> 'c cached_cpu_weight dram_cache" where
  "populate_cache env key policy reservation cache mid =
     (case dc_acquire key cache of
        (Some lease, c) \<Rightarrow>
          (case dr_cancel reservation c of
             (Inl e, r, c') \<Rightarrow> (Populate_Raised e, record_source_result DRAM True empty_log, r, c')
           | (Inr _, r, c') \<Rightarrow> (Populated DRAM lease, record_source_result DRAM True empty_log, r, c'))
      | (None, c) \<Rightarrow>
          (case load_sources env key policy empty_log of
             (Inl e, log) \<Rightarrow>
               (case dr_cancel reservation (mid c) of
                  (Inl e', r, c') \<Rightarrow> (Populate_Raised e', log, r, c')
                | (Inr _, r, c') \<Rightarrow> (Populate_Raised e, log, r, c'))
           | (Inr None, log) \<Rightarrow>
               (case dr_cancel reservation (mid c) of
                  (Inl e, r, c') \<Rightarrow> (Populate_Raised e, log, r, c')
                | (Inr _, r, c') \<Rightarrow>
                    (case WeightLoadFailed key (ll_failures log) of
                       Inl e \<Rightarrow> (Populate_Raised e, log, r, c')
                     | Inr failed \<Rightarrow> (Populate_Failed failed, log, r, c')))
           | (Inr (Some (source, entry)), log) \<Rightarrow>
               (case dr_commit reservation key entry (cw_byte_count entry) (mid c) of
                  (Inl e, r, c') \<Rightarrow> (Populate_Raised e, log, r, c')
                | (Inr lease, r, c') \<Rightarrow>
                    (case dr_cancel r c' of (_, r', c'') \<Rightarrow> (Populated source lease, log, r', c'')))))"

section \<open>Sharing loads in flight\<close>

record inflight_load =
  il_key :: weight_key
  il_policy :: load_policy
  il_waiters :: int

text \<open>Objects are numbered; \<open>li_objects\<close> holds every \<open>_InflightLoad\<close> made, \<open>li_inflight\<close> the dictionary.\<close>

record loader_inflight =
  li_objects :: "inflight_load list"
  li_inflight :: "(weight_key, nat) dict"

definition join_inflight :: "weight_key \<Rightarrow> load_policy \<Rightarrow> loader_inflight \<Rightarrow> nat \<times> loader_inflight" where
  "join_inflight key policy s =
     (case map_of (li_inflight s) key of
        None \<Rightarrow>
          (length (li_objects s),
           s\<lparr>li_objects := li_objects s @ [\<lparr>il_key = key, il_policy = policy, il_waiters = 1\<rparr>],
             li_inflight := AList.update key (length (li_objects s)) (li_inflight s)\<rparr>)
      | Some i \<Rightarrow>
          (i, s\<lparr>li_objects := (li_objects s)[i := (li_objects s ! i)\<lparr>il_waiters := il_waiters (li_objects s ! i) + 1\<rparr>]\<rparr>))"

text \<open>\<open>_leave_inflight\<close>; \<open>True\<close> when the caller cleans up (cancels the task or closes its seed lease).\<close>

definition leave_inflight :: "weight_key \<Rightarrow> nat \<Rightarrow> loader_inflight \<Rightarrow> (exn + bool) \<times> loader_inflight" where
  "leave_inflight key i s =
     (let o1 = li_objects s ! i
      in if il_waiters o1 \<le> 0 then (Inl (RuntimeError ''CPU weight in-flight waiter accounting underflow''), s)
         else
           let o2 = o1\<lparr>il_waiters := il_waiters o1 - 1\<rparr>;
               s' = s\<lparr>li_objects := (li_objects s)[i := o2]\<rparr>
           in if il_waiters o2 = 0 \<and> map_of (li_inflight s') key = Some i
              then (Inr True, s'\<lparr>li_inflight := AList.delete key (li_inflight s')\<rparr>)
              else (Inr False, s'))"

text \<open>
  One round of \<open>_acquire\<close> after the shared load finished: the result is returned from the cache, the
  failure is raised when the load ran with this caller's policy, otherwise the caller starts over; any other
  exception of the load is raised to every waiter.
\<close>

datatype 'v acquire_round = Round_Lease "'v dram_lease" weight_source | Round_Raise weight_load_failed | Round_Error exn | Round_Retry

definition acquire_round ::
  "weight_key \<Rightarrow> load_policy \<Rightarrow> inflight_load \<Rightarrow> 'c populate_outcome \<Rightarrow> 'c cached_cpu_weight dram_cache \<Rightarrow>
   'c cached_cpu_weight acquire_round \<times> 'c cached_cpu_weight dram_cache" where
  "acquire_round key policy inflight result cache =
     (case result of
        Populate_Failed failed \<Rightarrow> (if il_policy inflight = policy then Round_Raise failed else Round_Retry, cache)
      | Populate_Raised e \<Rightarrow> (Round_Error e, cache)
      | Populated source _ \<Rightarrow>
          (case dc_acquire key cache of
             (None, c) \<Rightarrow> (Round_Error (RuntimeError ''completed CPU weight load is missing from DRAM cache''), c)
           | (Some lease, c) \<Rightarrow> (Round_Lease lease source, c)))"
section \<open>The order of the sources\<close>

text \<open>The specification: a list of attempts, the first that supplies the weight wins.\<close>

type_synonym attempt = "weight_source \<times> string option"

definition attempts :: "'c load_env \<Rightarrow> load_policy \<Rightarrow> attempt list" where
  "attempts env policy =
     (DISK, None) # (if lp_local_only policy then [] else
        map (\<lambda>p. (PEER, Some p)) (lp_peer_endpoints policy) @
        (let central = rstrip_slash (le_weight_server_endpoint env)
         in if central \<in> set (lp_peer_endpoints policy) then [] else [(WEIGHT_SERVER, Some central)]))"

definition attempt_load ::
  "'c load_env \<Rightarrow> weight_key \<Rightarrow> attempt \<Rightarrow> load_log \<Rightarrow> (exn + 'c cached_cpu_weight option) \<times> load_log" where
  "attempt_load env key a log =
     (case snd a of None \<Rightarrow> load_disk env key log | Some endpoint \<Rightarrow> load_http env key endpoint (fst a) log)"

fun first_success ::
  "'c load_env \<Rightarrow> weight_key \<Rightarrow> attempt list \<Rightarrow> load_log \<Rightarrow> (exn + (weight_source \<times> 'c cached_cpu_weight) option) \<times> load_log" where
  "first_success env key [] log = (Inr None, log)"
| "first_success env key (a # rest) log =
     (case attempt_load env key a log of
        (Inl e, log') \<Rightarrow> (Inl e, log')
      | (Inr (Some entry), log') \<Rightarrow> (Inr (Some (fst a, entry)), log')
      | (Inr None, log') \<Rightarrow> first_success env key rest log')"

lemma first_success_peers:
  "first_success env key (map (\<lambda>p. (PEER, Some p)) ps @ rest) log =
     (case load_peers env key ps A log of
        (Inl e, _, log') \<Rightarrow> (Inl e, log')
      | (Inr (Some entry), _, log') \<Rightarrow> (Inr (Some (PEER, entry)), log')
      | (Inr None, B, log') \<Rightarrow> first_success env key rest log')"
proof (induction ps arbitrary: A log)
  case (Cons p ps)
  obtain r log' where p: "load_http env key p PEER log = (r, log')" by fastforce
  consider e where "r = Inl e" | entry where "r = Inr (Some entry)" | "r = Inr None" by (metis option.exhaust sum.exhaust)
  then show ?case
    by cases (use p Cons.IH [of log' "insert p A"] in \<open>simp_all add: attempt_load_def\<close>)
qed simp

lemma load_peers_attempted:
  "load_peers env key ps A log = (Inr None, B, log') \<Longrightarrow> B = A \<union> set ps"
  by (induction ps arbitrary: A log) (auto split: prod.splits option.splits sum.splits)

lemma load_sources_first_success:
  "load_sources env key policy log = first_success env key (attempts env policy) log"
proof (cases "load_disk env key log")
  case (Pair r log')
  show ?thesis
  proof (cases "r = Inr None \<and> \<not> lp_local_only policy")
    case True
    obtain r' B log'' where p: "load_peers env key (lp_peer_endpoints policy) {} log' = (r', B, log'')" by (metis prod_cases3)
    note peers = first_success_peers [where A = "{}" and ps = "lp_peer_endpoints policy" and env = env and key = key]
    consider e where "r' = Inl e" | entry where "r' = Inr (Some entry)" | "r' = Inr None" by (metis option.exhaust sum.exhaust)
    then show ?thesis
      using True Pair p load_peers_attempted [of env key "lp_peer_endpoints policy" "{}" log' B log'']
      by cases (auto simp: load_sources_def attempts_def attempt_load_def Let_def peers peers [of "[]", simplified]
          split: prod.splits option.splits sum.splits)
  qed (use Pair in \<open>auto simp: load_sources_def attempts_def attempt_load_def split: option.split sum.split\<close>)
qed

text \<open>Every attempt answers the same whatever was logged before, and adds one failure or none.\<close>

definition attempt_urls :: "'c load_env \<Rightarrow> weight_key \<Rightarrow> attempt \<Rightarrow> string list" where
  "attempt_urls env key a = (case snd a of None \<Rightarrow> [] | Some ep \<Rightarrow> [expert_url (le_model_name env) ep key])"

lemma attempt_load_log:
  assumes "snd a = None \<longrightarrow> fst a = DISK"
  shows "fst (attempt_load env key a log) = fst (attempt_load env key a empty_log)"
    and "map lf_source (ll_failures (snd (attempt_load env key a log))) =
       map lf_source (ll_failures log) @ (if fst (attempt_load env key a log) = Inr None then [fst a] else [])"
    and "ll_urls (snd (attempt_load env key a log)) = ll_urls log @ attempt_urls env key a"
  using assms
  by (auto simp: attempt_load_def load_disk_def load_http_def remove_invalid_def Let_def add_failure_def record_source_result_def
      attempt_urls_def split: option.splits read_result.splits download_result.splits sum.splits)

text \<open>Only the disk cache and the transfer raise what ends an attempt.\<close>

lemma attempt_load_raised:
  assumes "fst (attempt_load env key a log) = Inl e"
  shows "le_read env key = Read_Raised e \<or> le_remove env key = Some e \<or> (\<exists>url\<in>set (attempt_urls env key a). le_download env url = Download_Raised e)"
  using assms by (auto simp: attempt_load_def load_disk_def load_http_def remove_invalid_def Let_def attempt_urls_def
      split: option.splits read_result.splits download_result.splits sum.splits)

lemma first_success_spec:
  assumes "\<forall>a\<in>set as. snd a = None \<longrightarrow> fst a = DISK"
  shows "\<exists>n\<le>length as.
     map lf_source (ll_failures (snd (first_success env key as log))) = map lf_source (ll_failures log) @ map fst (take n as) \<and>
     (\<forall>i<n. fst (attempt_load env key (as ! i) empty_log) = Inr None) \<and>
     (case fst (first_success env key as log) of
        Inl e \<Rightarrow> n < length as \<and> fst (attempt_load env key (as ! n) empty_log) = Inl e
      | Inr None \<Rightarrow> n = length as
      | Inr (Some (src, entry)) \<Rightarrow> n < length as \<and> src = fst (as ! n) \<and> fst (attempt_load env key (as ! n) empty_log) = Inr (Some entry)) \<and>
     ll_urls (snd (first_success env key as log)) = ll_urls log @ concat (map (attempt_urls env key) (take (Suc n) as))"
  using assms
proof (induction "as" arbitrary: log)
  case (Cons a as)
  have a: "snd a = None \<longrightarrow> fst a = DISK" using Cons.prems by simp
  note L = attempt_load_log [OF a, of env key]
  obtain r log' where p: "attempt_load env key a log = (r, log')" by fastforce
  have r: "fst (attempt_load env key a empty_log) = r" using L(1) [of log] p by simp
  consider e where "r = Inl e" | entry where "r = Inr (Some entry)" | "r = Inr None" by (metis option.exhaust sum.exhaust)
  then show ?case
  proof cases
    case 1
    show ?thesis by (rule exI [of _ 0]) (use L(2,3) [of log] p r 1 in auto)
  next
    case 2
    show ?thesis by (rule exI [of _ 0]) (use L(2,3) [of log] p r 2 in auto)
  next
    case 3
    from Cons.IH [of log'] Cons.prems obtain n where n: "n \<le> length as"
      "map lf_source (ll_failures (snd (first_success env key as log'))) = map lf_source (ll_failures log') @ map fst (take n as)"
      "\<forall>i<n. fst (attempt_load env key (as ! i) empty_log) = Inr None"
      "case fst (first_success env key as log') of
         Inl e \<Rightarrow> n < length as \<and> fst (attempt_load env key (as ! n) empty_log) = Inl e
       | Inr None \<Rightarrow> n = length as
       | Inr (Some (src, entry)) \<Rightarrow> n < length as \<and> src = fst (as ! n) \<and> fst (attempt_load env key (as ! n) empty_log) = Inr (Some entry)"
      "ll_urls (snd (first_success env key as log')) = ll_urls log' @ concat (map (attempt_urls env key) (take (Suc n) as))" by auto
    have "\<forall>i<Suc n. fst (attempt_load env key ((a # as) ! i) empty_log) = Inr None"
      using n(3) r 3 by (auto simp: nth_Cons split: nat.split)
    then show ?thesis
      using n L(2,3) [of log] p 3
      by (intro exI [of _ "Suc n"]) (auto split: option.splits sum.splits)
  qed
qed simp

lemma distinct_normalize: "distinct (normalize_peer_endpoints ps)"
proof -
  have "distinct acc \<Longrightarrow> distinct (fold (\<lambda>endpoint normalized.
        let candidate = rstrip_slash endpoint
        in if candidate \<noteq> '''' \<and> candidate \<notin> set normalized then normalized @ [candidate] else normalized) ps acc)" for acc
    by (induction ps arbitrary: acc) (auto simp: Let_def)
  then show ?thesis by (simp add: normalize_peer_endpoints_def)
qed

lemma attempt_urls_distinct:
  assumes "distinct (lp_peer_endpoints policy)"
  shows "distinct (concat (map (attempt_urls env key) (take m (attempts env policy))))"
proof -
  have inj: "expert_url md a k = expert_url md b k \<longleftrightarrow> a = b" for md a b k by (simp add: expert_url_def)
  have peers: "concat (map (attempt_urls env key) (map (\<lambda>p. (PEER, Some p)) ps)) = map (\<lambda>p. expert_url (le_model_name env) p key) ps" for ps
    by (induction ps) (simp_all add: attempt_urls_def)
  have all: "distinct (concat (map (attempt_urls env key) (attempts env policy)))"
    using assms unfolding attempts_def Let_def list.map map_append concat.simps concat_append peers
    by (auto simp: attempt_urls_def distinct_map inj inj_on_def peers simp del: map_map)
  have "concat (map (attempt_urls env key) (attempts env policy)) =
      concat (map (attempt_urls env key) (take m (attempts env policy))) @ concat (map (attempt_urls env key) (drop m (attempts env policy)))"
    by (metis append_take_drop_id concat_append map_append)
  then show ?thesis using all by simp
qed
section \<open>Sharing one load between waiters\<close>

record loader_sys =
  lsys_inflight :: loader_inflight
  lsys_waiting :: "(weight_key \<times> nat) list"

datatype loader_op = Join weight_key load_policy | Leave nat

fun loader_apply :: "loader_op \<Rightarrow> loader_sys \<Rightarrow> loader_sys" where
  "loader_apply (Join k p) s =
     (case join_inflight k p (lsys_inflight s) of
        (i, f) \<Rightarrow> s\<lparr>lsys_inflight := f, lsys_waiting := lsys_waiting s @ [(k, i)]\<rparr>)"
| "loader_apply (Leave j) s =
     (if j < length (lsys_waiting s)
      then (case lsys_waiting s ! j of (k, i) \<Rightarrow>
              s\<lparr>lsys_inflight := snd (leave_inflight k i (lsys_inflight s)),
                lsys_waiting := take j (lsys_waiting s) @ drop (Suc j) (lsys_waiting s)\<rparr>)
      else s)"

definition loader_run :: "loader_op list \<Rightarrow> loader_sys" where
  "loader_run ops = fold loader_apply ops
     \<lparr>lsys_inflight = \<lparr>li_objects = [], li_inflight = []\<rparr>, lsys_waiting = []\<rparr>"

definition waiters_of :: "(weight_key \<times> nat) list \<Rightarrow> nat \<Rightarrow> int" where
  "waiters_of ws i = int (length (filter (\<lambda>w. snd w = i) ws))"

definition loader_inv :: "loader_sys \<Rightarrow> bool" where
  "loader_inv s \<longleftrightarrow>
     (\<forall>k i. (k, i) \<in> set (lsys_waiting s) \<longrightarrow> map_of (li_inflight (lsys_inflight s)) k = Some i) \<and>
     (\<forall>k i. map_of (li_inflight (lsys_inflight s)) k = Some i \<longrightarrow>
        i < length (li_objects (lsys_inflight s)) \<and> il_key (li_objects (lsys_inflight s) ! i) = k \<and>
        0 < il_waiters (li_objects (lsys_inflight s) ! i)) \<and>
     (\<forall>i<length (li_objects (lsys_inflight s)). il_waiters (li_objects (lsys_inflight s) ! i) = waiters_of (lsys_waiting s) i)"

lemma waiters_of_simps [simp]:
  "waiters_of [] i = 0" "waiters_of (w # ws) i = (if snd w = i then 1 else 0) + waiters_of ws i"
  "waiters_of (xs @ ys) i = waiters_of xs i + waiters_of ys i"
  by (simp_all add: waiters_of_def)

lemma waiters_of_nonneg: "0 \<le> waiters_of ws i"
  by (simp add: waiters_of_def)

lemma waiters_of_pos: "0 < waiters_of ws i \<longleftrightarrow> (\<exists>k. (k, i) \<in> set ws)"
  by (induction ws) (auto simp: add_pos_nonneg add_nonneg_pos waiters_of_nonneg)

lemma loader_inv_D:
  assumes "loader_inv s"
  shows "\<And>k i. (k, i) \<in> set (lsys_waiting s) \<Longrightarrow> map_of (li_inflight (lsys_inflight s)) k = Some i"
    and "\<And>k i. map_of (li_inflight (lsys_inflight s)) k = Some i \<Longrightarrow> i < length (li_objects (lsys_inflight s)) \<and>
        il_key (li_objects (lsys_inflight s) ! i) = k \<and> 0 < il_waiters (li_objects (lsys_inflight s) ! i)"
    and "\<And>i. i < length (li_objects (lsys_inflight s)) \<Longrightarrow>
        il_waiters (li_objects (lsys_inflight s) ! i) = waiters_of (lsys_waiting s) i"
  using assms unfolding loader_inv_def by blast+

lemma loader_invI:
  assumes "\<And>k i. (k, i) \<in> set (lsys_waiting s) \<Longrightarrow> map_of (li_inflight (lsys_inflight s)) k = Some i"
    and "\<And>k i. map_of (li_inflight (lsys_inflight s)) k = Some i \<Longrightarrow> i < length (li_objects (lsys_inflight s)) \<and>
        il_key (li_objects (lsys_inflight s) ! i) = k \<and> 0 < il_waiters (li_objects (lsys_inflight s) ! i)"
    and "\<And>i. i < length (li_objects (lsys_inflight s)) \<Longrightarrow>
        il_waiters (li_objects (lsys_inflight s) ! i) = waiters_of (lsys_waiting s) i"
  shows "loader_inv s"
  using assms unfolding loader_inv_def by blast

lemma loader_inv_join:
  assumes inv: "loader_inv s"
  shows "loader_inv (loader_apply (Join k p) s)"
proof (cases "map_of (li_inflight (lsys_inflight s)) k")
  case None
  note D = loader_inv_D [OF inv]
  let ?n = "length (li_objects (lsys_inflight s))"
  have "(k', ?n) \<notin> set (lsys_waiting s)" for k' using D(1,2) by blast
  then have zero: "waiters_of (lsys_waiting s) ?n = 0" using waiters_of_pos [of "lsys_waiting s" ?n] waiters_of_nonneg [of "lsys_waiting s" ?n] by fastforce
  have w: "(k', i) \<in> set (lsys_waiting s) \<Longrightarrow> k' \<noteq> k" for k' i using D(1) None by fastforce
  show ?thesis
  proof (rule loader_invI)
    fix k' i assume "(k', i) \<in> set (lsys_waiting (loader_apply (Join k p) s))"
    then consider "(k', i) \<in> set (lsys_waiting s)" | "k' = k" "i = ?n" using None by (auto simp: join_inflight_def)
    then show "map_of (li_inflight (lsys_inflight (loader_apply (Join k p) s))) k' = Some i"
    proof cases
      case 1
      from D(1) [OF 1] w [OF 1] None show ?thesis by (simp add: join_inflight_def)
    next
      case 2
      with None show ?thesis by (simp add: join_inflight_def)
    qed
  next
    fix k' i assume "map_of (li_inflight (lsys_inflight (loader_apply (Join k p) s))) k' = Some i"
    then show "i < length (li_objects (lsys_inflight (loader_apply (Join k p) s))) \<and>
        il_key (li_objects (lsys_inflight (loader_apply (Join k p) s)) ! i) = k' \<and>
        0 < il_waiters (li_objects (lsys_inflight (loader_apply (Join k p) s)) ! i)"
      using D(2) [of k' i] None by (auto simp: join_inflight_def nth_append split: if_splits)
  next
    fix i assume "i < length (li_objects (lsys_inflight (loader_apply (Join k p) s)))"
    then show "il_waiters (li_objects (lsys_inflight (loader_apply (Join k p) s)) ! i) =
        waiters_of (lsys_waiting (loader_apply (Join k p) s)) i"
      using D(3) [of i] zero None by (auto simp: join_inflight_def nth_append less_Suc_eq)
  qed
next
  case (Some i)
  note D = loader_inv_D [OF inv]
  have i: "i < length (li_objects (lsys_inflight s))" using D(2) [OF Some] by blast
  let ?o = "li_objects (lsys_inflight s)"
  have w: "lsys_waiting (loader_apply (Join k p) s) = lsys_waiting s @ [(k, i)]"
    and t: "li_inflight (lsys_inflight (loader_apply (Join k p) s)) = li_inflight (lsys_inflight s)"
    and objs: "li_objects (lsys_inflight (loader_apply (Join k p) s)) = ?o[i := (?o ! i)\<lparr>il_waiters := il_waiters (?o ! i) + 1\<rparr>]"
    using Some by (simp_all add: join_inflight_def)
  show ?thesis
  proof (rule loader_invI)
    fix k' x assume "(k', x) \<in> set (lsys_waiting (loader_apply (Join k p) s))"
    then have "(k', x) \<in> set (lsys_waiting s) \<or> k' = k \<and> x = i" unfolding w by auto
    then show "map_of (li_inflight (lsys_inflight (loader_apply (Join k p) s))) k' = Some x"
      using D(1) [of k' x] Some t by metis
  next
    fix k' x assume "map_of (li_inflight (lsys_inflight (loader_apply (Join k p) s))) k' = Some x"
    then have "map_of (li_inflight (lsys_inflight s)) k' = Some x" unfolding t by simp
    from D(2) [OF this] show "x < length (li_objects (lsys_inflight (loader_apply (Join k p) s))) \<and>
        il_key (li_objects (lsys_inflight (loader_apply (Join k p) s)) ! x) = k' \<and>
        0 < il_waiters (li_objects (lsys_inflight (loader_apply (Join k p) s)) ! x)"
      unfolding objs by (cases "x = i") simp_all
  next
    fix x assume "x < length (li_objects (lsys_inflight (loader_apply (Join k p) s)))"
    then have x: "x < length ?o" unfolding objs by simp
    show "il_waiters (li_objects (lsys_inflight (loader_apply (Join k p) s)) ! x) =
        waiters_of (lsys_waiting (loader_apply (Join k p) s)) x"
      using D(3) [OF x] x unfolding objs w by (cases "x = i") simp_all
  qed
qed

lemma leave_waiting:
  assumes inv: "loader_inv s" and w: "(k, i) \<in> set (lsys_waiting s)"
  shows "fst (leave_inflight k i (lsys_inflight s)) = Inr (waiters_of (lsys_waiting s) i = 1)"
proof -
  note D = loader_inv_D [OF inv]
  have m: "map_of (li_inflight (lsys_inflight s)) k = Some i" by (rule D(1) [OF w])
  then have i: "i < length (li_objects (lsys_inflight s))" "0 < il_waiters (li_objects (lsys_inflight s) ! i)" using D(2) by blast+
  with m D(3) [OF i(1)] show ?thesis by (simp add: leave_inflight_def Let_def)
qed

lemma loader_inv_leave:
  assumes inv: "loader_inv s"
  shows "loader_inv (loader_apply (Leave j) s)"
proof (cases "j < length (lsys_waiting s)")
  case True
  note D = loader_inv_D [OF inv]
  obtain k i where ki: "lsys_waiting s ! j = (k, i)" by fastforce
  have w: "(k, i) \<in> set (lsys_waiting s)" using True ki by (metis nth_mem)
  have m: "map_of (li_inflight (lsys_inflight s)) k = Some i" by (rule D(1) [OF w])
  have i: "i < length (li_objects (lsys_inflight s))" "0 < il_waiters (li_objects (lsys_inflight s) ! i)" using D(2) [OF m] by blast+
  define ws where "ws = take j (lsys_waiting s) @ drop (Suc j) (lsys_waiting s)"
  have split: "lsys_waiting s = take j (lsys_waiting s) @ (k, i) # drop (Suc j) (lsys_waiting s)"
    using True ki by (metis id_take_nth_drop)
  have cnt: "waiters_of (lsys_waiting s) x = waiters_of ws x + (if x = i then 1 else 0)" for x
    by (subst split) (simp add: ws_def)
  have sub: "x \<in> set (lsys_waiting s)" if "x \<in> set ws" for x
    using that by (auto simp: ws_def dest: in_set_takeD in_set_dropD)
  have own: "map_of (li_inflight (lsys_inflight s)) k' = Some i \<Longrightarrow> k' = k" for k' using D(2) m by blast
  have last: "(k', x) \<in> set ws \<Longrightarrow> waiters_of ws i = 0 \<Longrightarrow> k' \<noteq> k" for k' x
  proof
    assume x: "(k', x) \<in> set ws" and z: "waiters_of ws i = 0" and k: "k' = k"
    have "x = i" using D(1) [OF sub [OF x]] m k by simp
    with x have "0 < waiters_of ws i" using waiters_of_pos [of ws i] by blast
    with z show False by simp
  qed
  define f where "f = snd (leave_inflight k i (lsys_inflight s))"
  have objs: "li_objects f = (li_objects (lsys_inflight s))[i := (li_objects (lsys_inflight s) ! i)
      \<lparr>il_waiters := il_waiters (li_objects (lsys_inflight s) ! i) - 1\<rparr>]"
    using i m by (simp add: f_def leave_inflight_def Let_def)
  have wi: "il_waiters (li_objects (lsys_inflight s) ! i) = waiters_of ws i + 1" using D(3) [OF i(1)] cnt by simp
  have tab: "map_of (li_inflight f) = (if waiters_of ws i = 0 then (map_of (li_inflight (lsys_inflight s)))(k := None)
      else map_of (li_inflight (lsys_inflight s)))"
    using i m wi by (simp add: f_def leave_inflight_def Let_def)
  have s': "loader_apply (Leave j) s = s\<lparr>lsys_inflight := f, lsys_waiting := ws\<rparr>" using True ki by (simp add: f_def ws_def)
  show ?thesis
    unfolding s'
  proof (rule loader_invI)
    fix k' x assume x: "(k', x) \<in> set (lsys_waiting (s\<lparr>lsys_inflight := f, lsys_waiting := ws\<rparr>))"
    then have "map_of (li_inflight (lsys_inflight s)) k' = Some x" using sub D(1) by simp
    then show "map_of (li_inflight (lsys_inflight (s\<lparr>lsys_inflight := f, lsys_waiting := ws\<rparr>))) k' = Some x"
      using last [of k' x] x by (simp add: tab)
  next
    fix k' x assume x: "map_of (li_inflight (lsys_inflight (s\<lparr>lsys_inflight := f, lsys_waiting := ws\<rparr>))) k' = Some x"
    then have old: "map_of (li_inflight (lsys_inflight s)) k' = Some x" by (simp add: tab split: if_splits)
    have "x = i \<Longrightarrow> waiters_of ws i \<noteq> 0" using x own [of k'] by (auto simp: tab split: if_splits)
    then show "x < length (li_objects (lsys_inflight (s\<lparr>lsys_inflight := f, lsys_waiting := ws\<rparr>))) \<and>
        il_key (li_objects (lsys_inflight (s\<lparr>lsys_inflight := f, lsys_waiting := ws\<rparr>)) ! x) = k' \<and>
        0 < il_waiters (li_objects (lsys_inflight (s\<lparr>lsys_inflight := f, lsys_waiting := ws\<rparr>)) ! x)"
      using D(2) [OF old] wi waiters_of_nonneg [of ws i] by (cases "x = i") (auto simp: objs)
  next
    fix x assume "x < length (li_objects (lsys_inflight (s\<lparr>lsys_inflight := f, lsys_waiting := ws\<rparr>)))"
    then show "il_waiters (li_objects (lsys_inflight (s\<lparr>lsys_inflight := f, lsys_waiting := ws\<rparr>)) ! x) =
        waiters_of (lsys_waiting (s\<lparr>lsys_inflight := f, lsys_waiting := ws\<rparr>)) x"
      using D(3) [of x] cnt [of x] wi by (cases "x = i") (auto simp: objs)
  qed
qed (use inv in simp)

lemma loader_run_inv: "loader_inv (loader_run ops)"
proof -
  have "loader_inv s \<Longrightarrow> loader_inv (fold loader_apply ops s)" for s
  proof (induction ops arbitrary: s)
    case (Cons op ops)
    then show ?case by (cases op) (auto simp del: loader_apply.simps intro: loader_inv_join loader_inv_leave)
  qed simp
  moreover have "loader_inv \<lparr>lsys_inflight = \<lparr>li_objects = [], li_inflight = []\<rparr>, lsys_waiting = []\<rparr>"
    by (simp add: loader_inv_def)
  ultimately show ?thesis unfolding loader_run_def by blast
qed

section \<open>URLs name one expert\<close>

fun nat_of_str :: "nat \<Rightarrow> string \<Rightarrow> nat" where
  "nat_of_str n [] = n"
| "nat_of_str n (c # cs) = nat_of_str (10 * n + (of_char c - 48)) cs"

lemma nat_of_str_append: "nat_of_str n (xs @ ys) = nat_of_str (nat_of_str n xs) ys"
  by (induction xs arbitrary: n) auto

lemma hex_digit_val: "n < 10 \<Longrightarrow> of_char (hex_digit n) - 48 = n \<and> hex_digit n \<noteq> CHR ''/''"
  by (auto simp: hex_digit_def less_Suc_eq numeral_eq_Suc)

declare str_nat.simps [simp del]

lemma nat_of_str_nat: "nat_of_str 0 (str_nat n) = n"
proof (induction n rule: str_nat.induct)
  case (1 n)
  show ?case
  proof (cases "n < 10")
    case True
    then show ?thesis by (subst str_nat.simps) (simp add: hex_digit_val)
  next
    case False
    have "of_char (hex_digit (n mod 10)) - 48 = n mod 10" using hex_digit_val [of "n mod 10"] by simp
    then show ?thesis using 1 [OF False] False by (subst str_nat.simps) (simp add: nat_of_str_append)
  qed
qed

lemma str_nat_no_slash: "CHR ''/'' \<notin> set (str_nat n)"
proof (induction n rule: str_nat.induct)
  case (1 n)
  show ?case
    using 1 hex_digit_val [of n] hex_digit_val [of "n mod 10"] by (subst str_nat.simps) auto
qed

lemma hex_digit_inj: "a < 16 \<Longrightarrow> b < 16 \<Longrightarrow> hex_digit a = hex_digit b \<longleftrightarrow> a = b"
proof -
  have "distinct ''0123456789ABCDEF''" "length ''0123456789ABCDEF'' = 16" by simp_all
  then show "a < 16 \<Longrightarrow> b < 16 \<Longrightarrow> hex_digit a = hex_digit b \<longleftrightarrow> a = b"
    unfolding hex_digit_def by (metis nth_eq_iff_index_eq)
qed

lemma unreserved_not: "\<not> unreserved (CHR ''/'')" "\<not> unreserved (CHR ''%'')"
  by (simp_all add: unreserved_def less_eq_char_def)

lemma hex_digit_not_slash: "n < 16 \<Longrightarrow> hex_digit n \<noteq> CHR ''/''"
  by (auto simp: hex_digit_def less_Suc_eq numeral_eq_Suc)

lemma of_char_parts: "(of_char c :: nat) div 16 < 16" "(of_char c :: nat) mod 16 < 16"
proof -
  have "(of_char c :: nat) < 256" by (rule nat_of_char_less_256)
  then have "(of_char c :: nat) < 16 * 16" by simp
  then show "(of_char c :: nat) div 16 < 16" "(of_char c :: nat) mod 16 < 16" by (simp_all add: less_mult_imp_div_less)
qed

lemma quote_Cons: "quote (c # s) = (if unreserved c then [c]
      else [CHR ''%'', hex_digit (of_char c div 16), hex_digit (of_char c mod 16)]) @ quote s"
  by (simp add: quote_def)

lemma quote_no_slash: "CHR ''/'' \<notin> set (quote s)"
proof (induction s)
  case (Cons c s)
  then show ?case using unreserved_not hex_digit_not_slash [OF of_char_parts(1) [of c]] hex_digit_not_slash [OF of_char_parts(2) [of c]]
    by (simp add: quote_Cons) (metis)
qed (simp add: quote_def)

lemma quote_inj: "quote s = quote t \<Longrightarrow> s = t"
proof (induction s arbitrary: t)
  case Nil
  then show ?case by (cases t) (auto simp: quote_def split: if_splits)
next
  case (Cons c s)
  then obtain d u where t: "t = d # u" by (cases t) (auto simp: quote_def split: if_splits)
  have eq: "of_char a div 16 = (of_char b :: nat) div 16 \<Longrightarrow> of_char a mod 16 = (of_char b :: nat) mod 16 \<Longrightarrow> a = b" for a b :: char
    by (metis div_mod_decomp of_char_eq_iff)
  have "c = d \<and> quote s = quote u"
    using Cons.prems unreserved_not of_char_parts [of c] of_char_parts [of d]
    by (auto simp: t quote_Cons hex_digit_inj intro: eq split: if_splits)
  then show ?case using Cons.IH t by blast
qed

lemma split_at_slash:
  assumes "xs @ CHR ''/'' # ys = xs' @ CHR ''/'' # ys'" and "CHR ''/'' \<notin> set xs" and "CHR ''/'' \<notin> set xs'"
  shows "xs = xs' \<and> ys = ys'"
proof -
  have "takeWhile (\<lambda>c. c \<noteq> CHR ''/'') (us @ CHR ''/'' # vs) = us" if "CHR ''/'' \<notin> set us" for us vs
    using that by (induction us) auto
  with assms have "xs = xs'" by metis
  with assms(1) show ?thesis by simp
qed
section \<open>Properties\<close>

text \<open>
  C18. Sources are tried in the documented order, each endpoint at most once: disk, then the peers in
  order, then the central server unless it was one of the peers, and disk only for local loads. The
  first source that supplies a valid weight is used, every earlier one is recorded as a failure in order,
  no URL is downloaded twice, and when all fail the failure report is not empty. A load that neither
  supplies nor reports was ended by an exception the loader does not catch, raised at the first source not recorded as a
  failure: by reading the file, by removing an invalid file, or by a download other than the transfer's own errors.
\<close>

theorem load_source_order:
  assumes "lp_peer_endpoints policy = normalize_peer_endpoints endpoints"
    and "load_sources env key policy empty_log = (r, log)"
  shows "distinct (ll_urls log) \<and> (\<exists>n\<le>length (attempts env policy).
     map lf_source (ll_failures log) = map fst (take n (attempts env policy)) \<and>
     (\<forall>i<n. fst (attempt_load env key (attempts env policy ! i) empty_log) = Inr None) \<and>
     (case r of
        Inl e \<Rightarrow> n < length (attempts env policy) \<and> fst (attempt_load env key (attempts env policy ! n) empty_log) = Inl e \<and>
          (le_read env key = Read_Raised e \<or> le_remove env key = Some e \<or> (\<exists>url\<in>set (ll_urls log). le_download env url = Download_Raised e))
      | Inr None \<Rightarrow> n = length (attempts env policy) \<and> (\<exists>failed. WeightLoadFailed key (ll_failures log) = Inr failed)
      | Inr (Some (source, entry)) \<Rightarrow> n < length (attempts env policy) \<and> source = fst (attempts env policy ! n) \<and>
          fst (attempt_load env key (attempts env policy ! n) empty_log) = Inr (Some entry)))"
proof -
  have "\<forall>a\<in>set (attempts env policy). snd a = None \<longrightarrow> fst a = DISK" by (auto simp: attempts_def Let_def)
  from first_success_spec [OF this, of env key empty_log] assms(2) [unfolded load_sources_first_success]
  obtain n where n: "n \<le> length (attempts env policy)"
    "map lf_source (ll_failures log) = map fst (take n (attempts env policy))"
    "\<forall>i<n. fst (attempt_load env key (attempts env policy ! i) empty_log) = Inr None"
    "case r of
       Inl e \<Rightarrow> n < length (attempts env policy) \<and> fst (attempt_load env key (attempts env policy ! n) empty_log) = Inl e
     | Inr None \<Rightarrow> n = length (attempts env policy)
     | Inr (Some (src, entry)) \<Rightarrow> n < length (attempts env policy) \<and> src = fst (attempts env policy ! n) \<and>
           fst (attempt_load env key (attempts env policy ! n) empty_log) = Inr (Some entry)"
    "ll_urls log = concat (map (attempt_urls env key) (take (Suc n) (attempts env policy)))"
    by (auto simp: empty_log_def)
  have "r = Inr None \<Longrightarrow> ll_failures log \<noteq> []"
    using n(2,4) by (auto simp: attempts_def)
  moreover have "le_read env key = Read_Raised e \<or> le_remove env key = Some e \<or> (\<exists>url\<in>set (ll_urls log). le_download env url = Download_Raised e)"
    if "r = Inl e" for e
  proof -
    have l: "n < length (attempts env policy)" "fst (attempt_load env key (attempts env policy ! n) empty_log) = Inl e" using n(4) that by auto
    then have "set (attempt_urls env key (attempts env policy ! n)) \<subseteq> set (ll_urls log)"
      unfolding n(5) by (auto simp: take_Suc_conv_app_nth)
    then show ?thesis using attempt_load_raised [OF l(2)] by blast
  qed
  moreover have "distinct (ll_urls log)"
    unfolding n(5) using attempt_urls_distinct [of policy env key "Suc n"] distinct_normalize [of endpoints] assms(1) by simp
  ultimately show ?thesis
    using n(1-4) by (intro conjI exI [of _ n]) (auto simp: WeightLoadFailed_def split: option.splits sum.splits)
qed

definition ex_load_env :: "string load_env" where
  "ex_load_env = \<lparr>le_model_name = ''m/1'', le_weight_server_endpoint = ''http://ws/'', le_read = (\<lambda>_. Invalid_File ''short''),
     le_remove = (\<lambda>_. None),
     le_download = (\<lambda>url. if url = ''http://p2/expert/m%2F1/3/12'' then Downloaded ex_file else Weight_Not_Found ''missing''),
     le_decode = Some, le_loads = ex_loads, le_make_cpu_weight = (\<lambda>d. Inr (concat (map fst (sd_tensors d)))),
     le_cpu_extra_bytes = 5\<rparr>"

definition ex_policy :: load_policy where
  "ex_policy = \<lparr>lp_local_only = False, lp_peer_endpoints = normalize_peer_endpoints [''http://p1/'', ''http://p1'', ''http://p2/'']\<rparr>"

theorem load_source_order_witness:
  "\<exists>n\<le>4. map lf_source (ll_failures (snd (load_sources ex_load_env (3, 12) ex_policy empty_log))) = map fst (take n (attempts ex_load_env ex_policy)) \<and>
     distinct (ll_urls (snd (load_sources ex_load_env (3, 12) ex_policy empty_log)))"
proof -
  have "length (attempts ex_load_env ex_policy) = 4" by code_simp
  moreover have p: "lp_peer_endpoints ex_policy = normalize_peer_endpoints [''http://p1/'', ''http://p1'', ''http://p2/'']"
    by (simp add: ex_policy_def)
  moreover obtain r log where rl: "load_sources ex_load_env (3, 12) ex_policy empty_log = (r, log)" by fastforce
  ultimately show ?thesis using load_source_order [OF p rl] by (auto simp: rl)
qed

text \<open>
  C19. One load per expert: after any joins and leaves all waiters of an expert share one load object,
  its waiter count is exact, leaving never fails, and exactly the last waiter removes the object and
  cleans up; an expert is in the table exactly while it has waiters.
\<close>

theorem single_flight:
  assumes "s = loader_run ops"
  shows "(\<forall>k i j. (k, i) \<in> set (lsys_waiting s) \<longrightarrow> (k, j) \<in> set (lsys_waiting s) \<longrightarrow> i = j) \<and>
     (\<forall>k i. (k, i) \<in> set (lsys_waiting s) \<longrightarrow>
        fst (leave_inflight k i (lsys_inflight s)) = Inr (length (filter (\<lambda>w. snd w = i) (lsys_waiting s)) = 1)) \<and>
     (\<forall>k. (map_of (li_inflight (lsys_inflight s)) k \<noteq> None) = (k \<in> fst ` set (lsys_waiting s)))"
proof -
  have inv: "loader_inv s" unfolding assms by (rule loader_run_inv)
  note D = loader_inv_D [OF inv]
  have has: "\<exists>j. (k, j) \<in> set (lsys_waiting s)" if "map_of (li_inflight (lsys_inflight s)) k = Some i" for k i
  proof -
    have "0 < waiters_of (lsys_waiting s) i" using D(2) [OF that] D(3) by fastforce
    then obtain k' where w: "(k', i) \<in> set (lsys_waiting s)" by (auto simp: waiters_of_pos)
    then show ?thesis using D(1) [OF w] D(2) that by blast
  qed
  have tab: "(map_of (li_inflight (lsys_inflight s)) k \<noteq> None) = (k \<in> fst ` set (lsys_waiting s))" for k
  proof
    assume "map_of (li_inflight (lsys_inflight s)) k \<noteq> None"
    then obtain i where "map_of (li_inflight (lsys_inflight s)) k = Some i" by auto
    from has [OF this] obtain j where "(k, j) \<in> set (lsys_waiting s)" by blast
    from imageI [OF this, of fst] show "k \<in> fst ` set (lsys_waiting s)" by simp
  next
    assume "k \<in> fst ` set (lsys_waiting s)"
    then obtain w where w: "k = fst w" "w \<in> set (lsys_waiting s)" by (rule imageE)
    then have "(k, snd w) \<in> set (lsys_waiting s)" by simp
    from D(1) [OF this] show "map_of (li_inflight (lsys_inflight s)) k \<noteq> None" by simp
  qed
  have leave: "fst (leave_inflight k i (lsys_inflight s)) = Inr (length (filter (\<lambda>w. snd w = i) (lsys_waiting s)) = 1)"
    if "(k, i) \<in> set (lsys_waiting s)" for k i
    using leave_waiting [OF inv that] by (simp add: waiters_of_def)
  have "i = j" if "(k, i) \<in> set (lsys_waiting s)" "(k, j) \<in> set (lsys_waiting s)" for k i j
    using D(1) [OF that(1)] D(1) [OF that(2)] by simp
  with leave tab show ?thesis by blast
qed

theorem single_flight_witness:
  "fst (leave_inflight (0, 7) 0 (lsys_inflight (loader_run [Join (0, 7) ex_policy, Join (0, 8) ex_policy, Join (0, 7) ex_policy, Leave 0]))) = Inr True"
proof -
  let ?s = "loader_run [Join (0, 7) ex_policy, Join (0, 8) ex_policy, Join (0, 7) ex_policy, Leave 0]"
  have w: "lsys_waiting ?s = [((0, 8), 1), ((0, 7), 0)]" by code_simp
  then have m: "((0, 7), 0) \<in> set (lsys_waiting ?s)" by simp
  have "fst (leave_inflight (0, 7) 0 (lsys_inflight ?s)) = Inr (length (filter (\<lambda>w. snd w = 0) (lsys_waiting ?s)) = 1)"
    using single_flight [OF refl, of "[Join (0, 7) ex_policy, Join (0, 8) ex_policy, Join (0, 7) ex_policy, Leave 0]"] m by blast
  with w show ?thesis by simp
qed

text \<open>
  A weight URL names one expert of one model: at the same endpoint, equal URLs imply equal model
  names and equal layer and expert numbers.
\<close>

theorem expert_url_injective:
  assumes "expert_url m ep k = expert_url m' ep k'" and "0 \<le> fst k" and "0 \<le> snd k" and "0 \<le> fst k'" and "0 \<le> snd k'"
  shows "m = m' \<and> k = k'"
proof -
  have "quote m @ CHR ''/'' # (str_nat (nat (fst k)) @ CHR ''/'' # str_nat (nat (snd k))) =
      quote m' @ CHR ''/'' # (str_nat (nat (fst k')) @ CHR ''/'' # str_nat (nat (snd k')))"
    using assms(1) by (simp add: expert_url_def)
  from split_at_slash [OF this quote_no_slash quote_no_slash]
  have q: "quote m = quote m'" and r: "str_nat (nat (fst k)) @ CHR ''/'' # str_nat (nat (snd k)) =
      str_nat (nat (fst k')) @ CHR ''/'' # str_nat (nat (snd k'))" by auto
  from split_at_slash [OF r str_nat_no_slash str_nat_no_slash]
  have "nat (fst k) = nat (fst k')" "nat (snd k) = nat (snd k')" using nat_of_str_nat by metis+
  with assms(2-) quote_inj [OF q] show ?thesis by (simp add: prod_eq_iff eq_nat_nat_iff)
qed

theorem expert_url_injective_witness:
  "expert_url ''m/1'' ''http://p2'' (3, 12) \<noteq> expert_url ''m/1'' ''http://p2'' (31, 2)"
  using expert_url_injective [of "''m/1''" "''http://p2''" "(3, 12)" "''m/1''" "(31, 2)"] by auto

end
