(* ===== verification/Ready_Table.thy ===== *)
theory Ready_Table
  imports Errors
begin

text \<open>
  \<open>ek-worker/src/expertkit_worker/weights/ready.py\<close>: the table of computation-ready weights and its
  leases. An entry object is shared between the table and the leases that retain it, so entries live
  in a store and the table and the leases hold addresses; \<open>is\<close> of the source is equality of addresses.
  Every method body is one critical section of the table's condition variable; \<open>finish_withdrawal\<close>
  is its entry and the passes through its wait.
\<close>

record 'v ready_entry =
  re_value :: 'v
  re_accepting :: bool
  re_use_count :: int

record 'v ready_table =
  rt_num_layers :: int
  rt_experts_per_layer :: int
  rt_entries :: "nat option list list"
  rt_store :: "'v ready_entry list"

record 'v ready_lease =
  rl_layer_id :: int
  rl_expert_ids :: "int list"
  rl_objects :: "'v list"
  rl_entries :: "nat list"
  rl_closed :: bool

definition ReadyWeightTable :: "int \<Rightarrow> int \<Rightarrow> exn + 'v ready_table" where
  "ReadyWeightTable num_layers experts_per_layer =
     after (raise_first
       [(num_layers \<le> 0, ValueError ''num_layers must be a positive integer''),
        (experts_per_layer \<le> 0, ValueError ''experts_per_layer must be a positive integer'')])
      (Inr \<lparr>rt_num_layers = num_layers, rt_experts_per_layer = experts_per_layer,
            rt_entries = replicate (nat num_layers) (replicate (nat experts_per_layer) None), rt_store = []\<rparr>)"

definition rt_validate_layer :: "'v ready_table \<Rightarrow> int \<Rightarrow> exn option" where
  "rt_validate_layer t layer_id =
     (if 0 \<le> layer_id \<and> layer_id < rt_num_layers t then None
      else Some (ValueError ''layer_id exceeds the ready weight table''))"

definition rt_validate_expert :: "'v ready_table \<Rightarrow> int \<Rightarrow> exn option" where
  "rt_validate_expert t expert_id =
     (if 0 \<le> expert_id \<and> expert_id < rt_experts_per_layer t then None
      else Some (ValueError ''expert_id exceeds the ready weight table''))"

definition rt_validate_position :: "'v ready_table \<Rightarrow> int \<Rightarrow> int \<Rightarrow> exn option" where
  "rt_validate_position t layer_id expert_id =
     (case rt_validate_layer t layer_id of Some e \<Rightarrow> Some e | None \<Rightarrow> rt_validate_expert t expert_id)"

fun rt_validate_ids :: "'v ready_table \<Rightarrow> int \<Rightarrow> int list \<Rightarrow> exn option" where
  "rt_validate_ids t previous [] = None"
| "rt_validate_ids t previous (expert_id # rest) =
     (case rt_validate_expert t expert_id of
        Some e \<Rightarrow> Some e
      | None \<Rightarrow> if expert_id \<le> previous then Some (ValueError ''distinct_expert_ids must be sorted with no duplicates'')
                else rt_validate_ids t expert_id rest)"

definition rt_validate_expert_list :: "'v ready_table \<Rightarrow> int \<Rightarrow> int list \<Rightarrow> exn option" where
  "rt_validate_expert_list t layer_id expert_ids =
     (case rt_validate_layer t layer_id of Some e \<Rightarrow> Some e | None \<Rightarrow> rt_validate_ids t (-1) expert_ids)"

text \<open>\<open>self._entries[layer_id][expert_id]\<close> and its assignment, after the position was validated.\<close>

definition rt_get :: "'v ready_table \<Rightarrow> int \<Rightarrow> int \<Rightarrow> nat option" where
  "rt_get t layer_id expert_id = rt_entries t ! nat layer_id ! nat expert_id"

definition rt_set :: "int \<Rightarrow> int \<Rightarrow> nat option \<Rightarrow> 'v ready_table \<Rightarrow> 'v ready_table" where
  "rt_set layer_id expert_id x t =
     t\<lparr>rt_entries := (rt_entries t)[nat layer_id := (rt_entries t ! nat layer_id)[nat expert_id := x]]\<rparr>"

definition rt_entry :: "'v ready_table \<Rightarrow> nat \<Rightarrow> 'v ready_entry" where
  "rt_entry t a = rt_store t ! a"

definition rt_modify :: "nat \<Rightarrow> ('v ready_entry \<Rightarrow> 'v ready_entry) \<Rightarrow> 'v ready_table \<Rightarrow> 'v ready_table" where
  "rt_modify a f t = t\<lparr>rt_store := (rt_store t)[a := f (rt_store t ! a)]\<rparr>"

text \<open>The argument \<open>value\<close> is \<open>None\<close> when the caller passes Python's \<open>None\<close>.\<close>

definition rt_publish :: "int \<Rightarrow> int \<Rightarrow> 'v option \<Rightarrow> 'v ready_table \<Rightarrow> (exn + unit) \<times> 'v ready_table" where
  "rt_publish layer_id expert_id value t =
     (case rt_validate_position t layer_id expert_id of
        Some e \<Rightarrow> (Inl e, t)
      | None \<Rightarrow>
        (case value of
           None \<Rightarrow> (Inl (ValueError ''ready weight value must not be None''), t)
         | Some v \<Rightarrow>
            if rt_get t layer_id expert_id \<noteq> None
            then (Inl (RuntimeError ''ready weight position is already occupied''), t)
            else (Inr (), (rt_set layer_id expert_id (Some (length (rt_store t))) t)
                    \<lparr>rt_store := rt_store t @ [\<lparr>re_value = v, re_accepting = True, re_use_count = 0\<rparr>]\<rparr>)))"

definition rt_unavailable :: "'v ready_table \<Rightarrow> nat option \<Rightarrow> bool" where
  "rt_unavailable t entry = (case entry of None \<Rightarrow> True | Some a \<Rightarrow> \<not> re_accepting (rt_entry t a))"

definition rt_acquire_many ::
  "int \<Rightarrow> int list \<Rightarrow> 'v ready_table \<Rightarrow> (exn + 'v ready_lease) \<times> 'v ready_table" where
  "rt_acquire_many layer_id expert_ids t =
     (case rt_validate_expert_list t layer_id expert_ids of
        Some e \<Rightarrow> (Inl e, t)
      | None \<Rightarrow>
        let entries = map (rt_get t layer_id) expert_ids;
            unavailable = map fst (filter (\<lambda>(_, entry). rt_unavailable t entry) (zip expert_ids entries))
        in if unavailable \<noteq> [] then (Inl (WeightsNotReady unavailable), t)
           else let retained = List.map_filter id entries
                in (Inr \<lparr>rl_layer_id = layer_id, rl_expert_ids = expert_ids,
                         rl_objects = map (\<lambda>a. re_value (rt_entry t a)) retained, rl_entries = retained, rl_closed = False\<rparr>,
                    fold (\<lambda>a. rt_modify a (\<lambda>e. e\<lparr>re_use_count := re_use_count e + 1\<rparr>)) retained t))"

definition rt_begin_withdrawal :: "int \<Rightarrow> int \<Rightarrow> 'v ready_table \<Rightarrow> (exn + unit) \<times> 'v ready_table" where
  "rt_begin_withdrawal layer_id expert_id t =
     (case rt_validate_position t layer_id expert_id of
        Some e \<Rightarrow> (Inl e, t)
      | None \<Rightarrow>
        (case rt_get t layer_id expert_id of
           None \<Rightarrow> (Inl (WeightsNotReady [expert_id]), t)
         | Some a \<Rightarrow> (Inr (), rt_modify a (\<lambda>e. e\<lparr>re_accepting := False\<rparr>) t)))"

text \<open>\<open>finish_withdrawal\<close> until its wait: the entry whose users it waits for.\<close>

definition rt_finish_enter :: "int \<Rightarrow> int \<Rightarrow> int option \<Rightarrow> 'v ready_table \<Rightarrow> exn + nat" where
  "rt_finish_enter layer_id expert_id timeout t =
     (case rt_validate_position t layer_id expert_id of
        Some e \<Rightarrow> Inl e
      | None \<Rightarrow>
        if (case timeout of None \<Rightarrow> False | Some s \<Rightarrow> s < 0) then Inl (ValueError ''timeout must be nonnegative'')
        else (case rt_get t layer_id expert_id of
                None \<Rightarrow> Inl (WeightsNotReady [expert_id])
              | Some a \<Rightarrow>
                  if re_accepting (rt_entry t a)
                  then Inl (RuntimeError ''begin_withdrawal must run before finish_withdrawal'')
                  else Inr a))"

text \<open>One evaluation of the wait and what follows it; \<open>Inr None\<close> waits on, \<open>expired\<close> ends the wait.\<close>

definition rt_finish_pass ::
  "int \<Rightarrow> int \<Rightarrow> nat \<Rightarrow> bool \<Rightarrow> 'v ready_table \<Rightarrow> (exn + 'v option) \<times> 'v ready_table" where
  "rt_finish_pass layer_id expert_id a expired t =
     (if re_use_count (rt_entry t a) \<noteq> 0
      then (if expired then (Inl (TimeoutError ''timed out waiting for ready weight users''), t) else (Inr None, t))
      else if rt_get t layer_id expert_id \<noteq> Some a
      then (Inl (RuntimeError ''ready weight position changed during withdrawal''), t)
      else (Inr (Some (re_value (rt_entry t a))), rt_set layer_id expert_id None t))"

definition rt_usage_count :: "int \<Rightarrow> int \<Rightarrow> 'v ready_table \<Rightarrow> exn + int" where
  "rt_usage_count layer_id expert_id t =
     after (rt_validate_position t layer_id expert_id)
       (Inr (case rt_get t layer_id expert_id of None \<Rightarrow> 0 | Some a \<Rightarrow> re_use_count (rt_entry t a)))"

definition rt_is_ready :: "int \<Rightarrow> int \<Rightarrow> 'v ready_table \<Rightarrow> exn + bool" where
  "rt_is_ready layer_id expert_id t =
     after (rt_validate_position t layer_id expert_id)
       (Inr (case rt_get t layer_id expert_id of None \<Rightarrow> False | Some a \<Rightarrow> re_accepting (rt_entry t a)))"

definition rt_release :: "int \<Rightarrow> int list \<Rightarrow> nat list \<Rightarrow> 'v ready_table \<Rightarrow> (exn + unit) \<times> 'v ready_table" where
  "rt_release layer_id expert_ids entries t =
     (case raise_first (concat (map (\<lambda>(expert_id, a).
        [(rt_get t layer_id expert_id \<noteq> Some a, RuntimeError ''retained ready weight changed before release''),
         (re_use_count (rt_entry t a) \<le> 0, RuntimeError ''ready weight usage count underflow'')])
        (zip expert_ids entries)))
      of Some e \<Rightarrow> (Inl e, t)
       | None \<Rightarrow> (Inr (), fold (\<lambda>a. rt_modify a (\<lambda>e. e\<lparr>re_use_count := re_use_count e - 1\<rparr>)) entries t))"

definition rl_close :: "'v ready_lease \<Rightarrow> 'v ready_table \<Rightarrow> (exn + unit) \<times> 'v ready_lease \<times> 'v ready_table" where
  "rl_close lease t =
     (if rl_closed lease then (Inr (), lease, t)
      else (case rt_release (rl_layer_id lease) (rl_expert_ids lease) (rl_entries lease) t of
              (Inl e, t') \<Rightarrow> (Inl e, lease, t')
            | (Inr _, t') \<Rightarrow> (Inr (), lease\<lparr>rl_closed := True\<rparr>, t')))"

section \<open>Sequences of operations\<close>

text \<open>
  The table with every lease it handed out and every withdrawal that reached its wait. A lease and a
  withdrawal are named by their number.
\<close>

record 'v ready_sys =
  rs_table :: "'v ready_table"
  rs_leases :: "'v ready_lease list"
  rs_withdrawals :: "(int \<times> int \<times> nat) list"

datatype 'v ready_op =
    Publish int int "'v option"
  | Acquire_Many int "int list"
  | Begin_Withdrawal int int
  | Finish_Enter int int "int option"
  | Finish_Pass nat bool
  | Close_Lease nat

fun ready_apply :: "'v ready_op \<Rightarrow> 'v ready_sys \<Rightarrow> 'v ready_sys" where
  "ready_apply (Publish l e v) s = s\<lparr>rs_table := snd (rt_publish l e v (rs_table s))\<rparr>"
| "ready_apply (Acquire_Many l es) s =
     (case rt_acquire_many l es (rs_table s) of
        (Inl _, t) \<Rightarrow> s\<lparr>rs_table := t\<rparr>
      | (Inr lease, t) \<Rightarrow> s\<lparr>rs_table := t, rs_leases := rs_leases s @ [lease]\<rparr>)"
| "ready_apply (Begin_Withdrawal l e) s = s\<lparr>rs_table := snd (rt_begin_withdrawal l e (rs_table s))\<rparr>"
| "ready_apply (Finish_Enter l e timeout) s =
     (case rt_finish_enter l e timeout (rs_table s) of
        Inl _ \<Rightarrow> s
      | Inr a \<Rightarrow> s\<lparr>rs_withdrawals := rs_withdrawals s @ [(l, e, a)]\<rparr>)"
| "ready_apply (Finish_Pass i expired) s =
     (if i < length (rs_withdrawals s)
      then (case rs_withdrawals s ! i of (l, e, a) \<Rightarrow> s\<lparr>rs_table := snd (rt_finish_pass l e a expired (rs_table s))\<rparr>)
      else s)"
| "ready_apply (Close_Lease i) s =
     (if i < length (rs_leases s)
      then (case rl_close (rs_leases s ! i) (rs_table s) of
              (_, lease, t) \<Rightarrow> s\<lparr>rs_table := t, rs_leases := (rs_leases s)[i := lease]\<rparr>)
      else s)"

definition ready_run :: "'v ready_op list \<Rightarrow> 'v ready_sys \<Rightarrow> 'v ready_sys" where
  "ready_run ops s = fold ready_apply ops s"
section \<open>Positions and entries\<close>

definition rt_pos :: "'v ready_table \<Rightarrow> int \<times> int \<Rightarrow> bool" where
  "rt_pos t k \<longleftrightarrow> 0 \<le> fst k \<and> fst k < rt_num_layers t \<and> 0 \<le> snd k \<and> snd k < rt_experts_per_layer t"

definition rt_at :: "'v ready_table \<Rightarrow> int \<times> int \<Rightarrow> nat option" where
  "rt_at t k = (if rt_pos t k then rt_get t (fst k) (snd k) else None)"

definition rt_shape :: "'v ready_table \<Rightarrow> bool" where
  "rt_shape t \<longleftrightarrow> length (rt_entries t) = nat (rt_num_layers t) \<and>
     (\<forall>row\<in>set (rt_entries t). length row = nat (rt_experts_per_layer t))"

lemma rt_validate_position_None [simp]: "rt_validate_position t l e = None \<longleftrightarrow> rt_pos t (l, e)"
  by (auto simp: rt_validate_position_def rt_validate_layer_def rt_validate_expert_def rt_pos_def)

lemma rt_validate_position_ok [simp]: "rt_pos t (l, e) \<Longrightarrow> rt_validate_position t l e = None"
  by simp

lemma rt_get_at [simp]: "rt_pos t (l, e) \<Longrightarrow> rt_get t l e = rt_at t (l, e)"
  by (simp add: rt_at_def)

lemma rt_validate_ids_None:
  "rt_validate_ids t p es = None \<longleftrightarrow>
     (\<forall>e\<in>set es. 0 \<le> e \<and> e < rt_experts_per_layer t) \<and> sorted_wrt (<) (p # es)"
  by (induction es arbitrary: p) (auto simp: rt_validate_expert_def)

lemma rt_validate_expert_list_None:
  "rt_validate_expert_list t l es = None \<longleftrightarrow>
     0 \<le> l \<and> l < rt_num_layers t \<and> (\<forall>e\<in>set es. rt_pos t (l, e)) \<and> sorted_wrt (<) es"
  by (auto simp: rt_validate_expert_list_def rt_validate_ids_None rt_validate_layer_def rt_pos_def)

lemma rt_set_fields [simp]:
  "rt_num_layers (rt_set l e x t) = rt_num_layers t" "rt_experts_per_layer (rt_set l e x t) = rt_experts_per_layer t"
  "rt_store (rt_set l e x t) = rt_store t" "rt_entry (rt_set l e x t) = rt_entry t" "rt_pos (rt_set l e x t) = rt_pos t"
  by (simp_all add: rt_set_def rt_entry_def rt_pos_def fun_eq_iff)

lemma rt_modify_fields [simp]:
  "rt_num_layers (rt_modify a f t) = rt_num_layers t" "rt_experts_per_layer (rt_modify a f t) = rt_experts_per_layer t"
  "rt_entries (rt_modify a f t) = rt_entries t" "length (rt_store (rt_modify a f t)) = length (rt_store t)"
  "rt_pos (rt_modify a f t) = rt_pos t" "rt_at (rt_modify a f t) = rt_at t" "rt_shape (rt_modify a f t) = rt_shape t"
  by (simp_all add: rt_modify_def rt_pos_def rt_at_def rt_get_def rt_shape_def fun_eq_iff)

lemma rt_shape_set [simp]: "rt_shape t \<Longrightarrow> rt_pos t (l, e) \<Longrightarrow> rt_shape (rt_set l e x t)"
  by (auto simp: rt_shape_def rt_set_def rt_pos_def dest!: set_update_subset_insert [THEN subsetD])

lemma rt_at_set:
  assumes "rt_shape t" and "rt_pos t (l, e)"
  shows "rt_at (rt_set l e x t) k = (if k = (l, e) then x else rt_at t k)"
proof (cases "rt_pos t k")
  case False
  with assms(2) show ?thesis by (auto simp: rt_at_def)
next
  case True
  obtain l' e' where k: "k = (l', e')" by fastforce
  have len: "nat l < length (rt_entries t)" "nat e < length (rt_entries t ! nat l)"
    using assms by (auto simp: rt_shape_def rt_pos_def)
  have "nat l' = nat l \<longleftrightarrow> l' = l" "nat e' = nat e \<longleftrightarrow> e' = e"
    using assms(2) True by (auto simp: rt_pos_def k)
  with len True show ?thesis by (auto simp: rt_at_def rt_get_def rt_set_def k nth_list_update rt_pos_def)
qed

lemma rt_entry_modify [simp]:
  "a < length (rt_store t) \<Longrightarrow> rt_entry (rt_modify a f t) b = (if b = a then f (rt_entry t a) else rt_entry t b)"
  by (auto simp: rt_entry_def rt_modify_def nth_list_update)

text \<open>The loops over the retained entries change each counter by the number of occurrences.\<close>

definition bump :: "int \<Rightarrow> nat \<Rightarrow> 'v ready_table \<Rightarrow> 'v ready_table" where
  "bump d a = rt_modify a (\<lambda>e. e\<lparr>re_use_count := re_use_count e + d\<rparr>)"

lemma fold_bump_fields [simp]:
  "rt_num_layers (fold (bump d) as t) = rt_num_layers t" "rt_experts_per_layer (fold (bump d) as t) = rt_experts_per_layer t"
  "length (rt_store (fold (bump d) as t)) = length (rt_store t)"
  "rt_pos (fold (bump d) as t) = rt_pos t" "rt_at (fold (bump d) as t) = rt_at t" "rt_shape (fold (bump d) as t) = rt_shape t"
  by (induction "as" arbitrary: t) (simp_all add: bump_def)

lemma fold_bump_entry:
  assumes "\<forall>a\<in>set as. a < length (rt_store t)"
  shows "rt_entry (fold (bump d) as t) b =
     (rt_entry t b)\<lparr>re_use_count := re_use_count (rt_entry t b) + d * int (count_list as b)\<rparr>"
  using assms
proof (induction "as" arbitrary: t)
  case (Cons a as)
  then have "\<forall>x\<in>set as. x < length (rt_store (bump d a t))" by (simp add: bump_def)
  from Cons.IH [OF this] Cons.prems show ?case by (simp add: bump_def algebra_simps)
qed simp

section \<open>The invariant\<close>

definition lease_uses :: "'v ready_lease list \<Rightarrow> nat \<Rightarrow> int" where
  "lease_uses ls a = (\<Sum>L\<leftarrow>ls. if rl_closed L then 0 else int (count_list (rl_entries L) a))"

definition lease_held :: "'v ready_table \<Rightarrow> 'v ready_lease \<Rightarrow> bool" where
  "lease_held t L \<longleftrightarrow> map (\<lambda>e. rt_at t (rl_layer_id L, e)) (rl_expert_ids L) = map Some (rl_entries L) \<and>
     rl_objects L = map (\<lambda>a. re_value (rt_entry t a)) (rl_entries L)"

definition table_ok :: "'v ready_table \<Rightarrow> bool" where
  "table_ok t \<longleftrightarrow> rt_shape t \<and> (\<forall>k a. rt_at t k = Some a \<longrightarrow> a < length (rt_store t)) \<and>
     (\<forall>k k' a. rt_at t k = Some a \<longrightarrow> rt_at t k' = Some a \<longrightarrow> k = k')"

definition ready_inv :: "'v ready_sys \<Rightarrow> bool" where
  "ready_inv s \<longleftrightarrow> table_ok (rs_table s) \<and>
     (\<forall>L\<in>set (rs_leases s). \<not> rl_closed L \<longrightarrow> lease_held (rs_table s) L) \<and>
     (\<forall>a<length (rt_store (rs_table s)). re_use_count (rt_entry (rs_table s) a) = lease_uses (rs_leases s) a) \<and>
     (\<forall>L\<in>set (rs_leases s). \<forall>a\<in>set (rl_entries L). a < length (rt_store (rs_table s))) \<and>
     (\<forall>(l, e, a)\<in>set (rs_withdrawals s). rt_pos (rs_table s) (l, e) \<and> a < length (rt_store (rs_table s)) \<and>
        \<not> re_accepting (rt_entry (rs_table s) a))"

lemma lease_uses_nonneg: "0 \<le> lease_uses ls a"
  by (induction ls) (auto simp: lease_uses_def)

lemma lease_uses_append [simp]: "lease_uses (xs @ ys) a = lease_uses xs a + lease_uses ys a"
  by (simp add: lease_uses_def)

lemma lease_uses_Cons [simp]:
  "lease_uses (L # ys) a = (if rl_closed L then 0 else int (count_list (rl_entries L) a)) + lease_uses ys a"
  by (simp add: lease_uses_def)

lemma lease_uses_Nil [simp]: "lease_uses [] a = 0"
  by (simp add: lease_uses_def)

lemma lease_uses_pos:
  assumes "L \<in> set ls" and "\<not> rl_closed L" and "a \<in> set (rl_entries L)"
  shows "0 < lease_uses ls a"
proof -
  from assms(1) obtain xs ys where "ls = xs @ L # ys" by (meson split_list)
  moreover have "0 < count_list (rl_entries L) a" using assms(3) by (metis count_list_0_iff gr0I)
  ultimately show ?thesis using assms(2) lease_uses_nonneg [of xs a] lease_uses_nonneg [of ys a] by simp
qed

lemma lease_uses_out_of_store:
  "\<forall>L\<in>set ls. \<forall>b\<in>set (rl_entries L). b < n \<Longrightarrow> n \<le> a \<Longrightarrow> lease_uses ls a = 0"
  by (induction ls) (force simp: count_list_0_iff)+

lemma ReadyWeightTable_inv:
  assumes "ReadyWeightTable n m = Inr t"
  shows "ready_inv \<lparr>rs_table = t, rs_leases = [], rs_withdrawals = []\<rparr>"
  using assms by (auto simp: ReadyWeightTable_def ready_inv_def table_ok_def rt_shape_def rt_at_def rt_get_def rt_pos_def)
lemma lease_held_mono:
  assumes "lease_held t L" and "\<And>e. rt_at t (rl_layer_id L, e) \<noteq> None \<Longrightarrow> e \<in> set (rl_expert_ids L) \<Longrightarrow>
      rt_at t' (rl_layer_id L, e) = rt_at t (rl_layer_id L, e)"
    and "\<And>a. a \<in> set (rl_entries L) \<Longrightarrow> re_value (rt_entry t' a) = re_value (rt_entry t a)"
  shows "lease_held t' L"
proof -
  have "rt_at t (rl_layer_id L, e) \<noteq> None" if "e \<in> set (rl_expert_ids L)" for e
  proof -
    have "rt_at t (rl_layer_id L, e) \<in> set (map (\<lambda>e. rt_at t (rl_layer_id L, e)) (rl_expert_ids L))"
      using that by simp
    with assms(1) show ?thesis unfolding lease_held_def by auto
  qed
  with assms(2) have "map (\<lambda>e. rt_at t' (rl_layer_id L, e)) (rl_expert_ids L) =
      map (\<lambda>e. rt_at t (rl_layer_id L, e)) (rl_expert_ids L)" by simp
  with assms(1,3) show ?thesis by (simp add: lease_held_def)
qed

lemma lease_held_at:
  assumes "lease_held t L" and "a \<in> set (rl_entries L)"
  obtains e where "e \<in> set (rl_expert_ids L)" and "rt_at t (rl_layer_id L, e) = Some a"
proof -
  have "Some a \<in> set (map (\<lambda>e. rt_at t (rl_layer_id L, e)) (rl_expert_ids L))"
    using assms unfolding lease_held_def by simp
  with that show ?thesis by auto
qed

lemma table_ok_D:
  assumes "table_ok t"
  shows "rt_shape t" and "\<And>k a. rt_at t k = Some a \<Longrightarrow> a < length (rt_store t)"
    and "\<And>k a k'. rt_at t k = Some a \<Longrightarrow> rt_at t k' = Some a \<Longrightarrow> k = k'"
  using assms unfolding table_ok_def by blast+

lemma ready_inv_D:
  assumes "ready_inv s"
  shows "table_ok (rs_table s)"
    and "\<And>L. L \<in> set (rs_leases s) \<Longrightarrow> \<not> rl_closed L \<Longrightarrow> lease_held (rs_table s) L"
    and "\<And>a. a < length (rt_store (rs_table s)) \<Longrightarrow> re_use_count (rt_entry (rs_table s) a) = lease_uses (rs_leases s) a"
    and "\<And>L a. L \<in> set (rs_leases s) \<Longrightarrow> a \<in> set (rl_entries L) \<Longrightarrow> a < length (rt_store (rs_table s))"
    and "\<And>l e a. (l, e, a) \<in> set (rs_withdrawals s) \<Longrightarrow> rt_pos (rs_table s) (l, e) \<and> a < length (rt_store (rs_table s)) \<and>
        \<not> re_accepting (rt_entry (rs_table s) a)"
  using assms unfolding ready_inv_def by (fastforce)+

lemma rt_publish_cases:
  obtains (raised) e where "rt_publish l x v t = (Inl e, t)"
  | (published) w where "rt_pos t (l, x)" and "rt_at t (l, x) = None" and "v = Some w"
      and "rt_publish l x v t = (Inr (), (rt_set l x (Some (length (rt_store t))) t)
             \<lparr>rt_store := rt_store t @ [\<lparr>re_value = w, re_accepting = True, re_use_count = 0\<rparr>]\<rparr>)"
proof (cases "rt_validate_position t l x")
  case None
  then have pos: "rt_pos t (l, x)" by simp
  show ?thesis
  proof (cases "rt_at t (l, x) = None \<and> v \<noteq> None")
    case True
    then obtain w where "v = Some w" by blast
    with published [of w] True pos None show ?thesis by (simp add: rt_publish_def)
  next
    case False
    with raised pos None show ?thesis by (cases v) (simp_all add: rt_publish_def)
  qed
qed (simp add: rt_publish_def raised)

lemma rt_store_append [simp]:
  "rt_pos (t\<lparr>rt_store := st\<rparr>) = rt_pos t" "rt_at (t\<lparr>rt_store := st\<rparr>) = rt_at t" "rt_shape (t\<lparr>rt_store := st\<rparr>) = rt_shape t"
  by (simp_all add: rt_pos_def rt_at_def rt_get_def rt_shape_def fun_eq_iff)

lemma ready_inv_publish:
  assumes inv: "ready_inv s"
  shows "ready_inv (ready_apply (Publish l x v) s)"
proof (cases rule: rt_publish_cases [of l x v "rs_table s"])
  case (raised e)
  then have "ready_apply (Publish l x v) s = s" by simp
  with inv show ?thesis by simp
next
  case (published w)
  define t where "t = rs_table s"
  define n where "n = length (rt_store t)"
  define t' where "t' = (rt_set l x (Some n) t)\<lparr>rt_store := rt_store t @ [\<lparr>re_value = w, re_accepting = True, re_use_count = 0\<rparr>]\<rparr>"
  note D = ready_inv_D [OF inv, folded t_def]
  have shape: "rt_shape t" using D(1) by (simp add: table_ok_def)
  have pos: "rt_pos t (l, x)" using published(1) by (simp add: t_def)
  have at: "rt_at t' k = (if k = (l, x) then Some n else rt_at t k)" for k
    using rt_at_set [OF shape pos] by (simp add: t'_def)
  have len: "length (rt_store t') = Suc n" by (simp add: t'_def n_def)
  have old: "rt_entry t' a = rt_entry t a" if "a < n" for a
    using that by (simp add: t'_def n_def rt_entry_def nth_append)
  have new: "rt_entry t' n = \<lparr>re_value = w, re_accepting = True, re_use_count = 0\<rparr>"
    by (simp add: t'_def n_def rt_entry_def)
  have fresh: "rt_at t k \<noteq> Some n" for k
    using table_ok_D(2) [OF D(1), of k n] by (auto simp: n_def)
  have "table_ok t'"
    unfolding table_ok_def
  proof (intro conjI allI impI)
    show "rt_shape t'" using shape pos by (simp add: t'_def)
    fix k a assume "rt_at t' k = Some a"
    then show "a < length (rt_store t')"
      using table_ok_D(2) [OF D(1), of k a] by (simp add: at len n_def less_SucI split: if_splits)
  next
    fix k k' a assume "rt_at t' k = Some a" "rt_at t' k' = Some a"
    then show "k = k'"
      using fresh table_ok_D(3) [OF D(1), of k a k'] by (simp add: at split: if_splits)
  qed
  moreover have "lease_held t' L" if "L \<in> set (rs_leases s)" "\<not> rl_closed L" for L
    using D(2) [OF that]
  proof (rule lease_held_mono)
    fix e assume "rt_at t (rl_layer_id L, e) \<noteq> None"
    then show "rt_at t' (rl_layer_id L, e) = rt_at t (rl_layer_id L, e)" using published(2) by (auto simp: at t_def)
  next
    fix a assume "a \<in> set (rl_entries L)"
    then show "re_value (rt_entry t' a) = re_value (rt_entry t a)" using old D(4) that(1) by (simp add: n_def)
  qed
  moreover have "re_use_count (rt_entry t' a) = lease_uses (rs_leases s) a" if "a < length (rt_store t')" for a
  proof (cases "a = n")
    case True
    have "lease_uses (rs_leases s) n = 0" using D(4) by (intro lease_uses_out_of_store) (auto simp: n_def)
    then show ?thesis by (simp add: True new)
  next
    case False
    with that D(3) old show ?thesis by (simp add: len n_def)
  qed
  moreover have "rt_pos t' (l', e') \<and> a < length (rt_store t') \<and> \<not> re_accepting (rt_entry t' a)"
    if "(l', e', a) \<in> set (rs_withdrawals s)" for l' e' a
    using D(5) [OF that] old by (simp add: t'_def n_def)
  ultimately show ?thesis
    using D(4) published(4) by (auto simp: ready_inv_def t_def [symmetric] n_def [symmetric] t'_def [symmetric] len intro: less_SucI)
qed
text \<open>Operations that leave the positions alone.\<close>

lemma ready_inv_same_positions:
  assumes inv: "ready_inv s"
    and same: "rt_at t' = rt_at (rs_table s)" "rt_pos t' = rt_pos (rs_table s)" "rt_shape t' = rt_shape (rs_table s)"
      "length (rt_store t') = length (rt_store (rs_table s))"
    and val: "\<And>a. a < length (rt_store t') \<Longrightarrow> re_value (rt_entry t' a) = re_value (rt_entry (rs_table s) a) \<and>
        (re_accepting (rt_entry t' a) \<longrightarrow> re_accepting (rt_entry (rs_table s) a))"
    and cnt: "\<And>a. a < length (rt_store t') \<Longrightarrow> re_use_count (rt_entry t' a) = lease_uses ls a"
    and held: "\<And>L. L \<in> set ls \<Longrightarrow> \<not> rl_closed L \<Longrightarrow> lease_held (rs_table s) L"
    and rng: "\<And>L a. L \<in> set ls \<Longrightarrow> a \<in> set (rl_entries L) \<Longrightarrow> a < length (rt_store t')"
  shows "ready_inv (s\<lparr>rs_table := t', rs_leases := ls\<rparr>)"
proof -
  note D = ready_inv_D [OF inv]
  have "table_ok t'" using D(1) same by (simp add: table_ok_def)
  moreover have "lease_held t' L" if "L \<in> set ls" "\<not> rl_closed L" for L
    using held [OF that] by (rule lease_held_mono) (use val rng that(1) same in auto)
  moreover have "rt_pos t' (l, e) \<and> a < length (rt_store t') \<and> \<not> re_accepting (rt_entry t' a)"
    if "(l, e, a) \<in> set (rs_withdrawals s)" for l e a
    using D(5) [OF that] val [of a] same by auto
  ultimately show ?thesis using cnt rng by (auto simp: ready_inv_def)
qed

lemma ready_inv_begin_withdrawal:
  assumes "ready_inv s"
  shows "ready_inv (ready_apply (Begin_Withdrawal l e) s)"
proof (cases "rt_pos (rs_table s) (l, e) \<and> rt_at (rs_table s) (l, e) \<noteq> None")
  case True
  then obtain a where a: "rt_at (rs_table s) (l, e) = Some a" and pos: "rt_pos (rs_table s) (l, e)" by blast
  note D = ready_inv_D [OF assms]
  have "a < length (rt_store (rs_table s))" using table_ok_D(2) [OF D(1) a] .
  then have "ready_inv (s\<lparr>rs_table := rt_modify a (\<lambda>e. e\<lparr>re_accepting := False\<rparr>) (rs_table s), rs_leases := rs_leases s\<rparr>)"
    by (intro ready_inv_same_positions [OF assms]) (use D in auto)
  then show ?thesis using a pos by (simp add: rt_begin_withdrawal_def)
next
  case False
  then have "snd (rt_begin_withdrawal l e (rs_table s)) = rs_table s"
    by (auto simp: rt_begin_withdrawal_def split: option.splits)
  with assms show ?thesis by simp
qed

lemma rt_acquire_cases:
  obtains (raised) x where "rt_acquire_many l es t = (Inl x, t)"
  | (retained) "as" where "rt_validate_expert_list t l es = None" and "map (\<lambda>e. rt_at t (l, e)) es = map Some as"
      and "\<forall>a\<in>set as. re_accepting (rt_entry t a)"
      and "rt_acquire_many l es t =
        (Inr \<lparr>rl_layer_id = l, rl_expert_ids = es, rl_objects = map (\<lambda>a. re_value (rt_entry t a)) as, rl_entries = as,
              rl_closed = False\<rparr>, fold (bump 1) as t)"
proof (cases "rt_validate_expert_list t l es = None \<and> (\<forall>e\<in>set es. \<not> rt_unavailable t (rt_at t (l, e)))")
  case True
  define as where "as = map (\<lambda>e. the (rt_at t (l, e))) es"
  from True have pos: "rt_pos t (l, e)" if "e \<in> set es" for e
    using that by (simp add: rt_validate_expert_list_None)
  then have get: "map (rt_get t l) es = map (\<lambda>e. rt_at t (l, e)) es" by simp
  have some: "map (\<lambda>e. rt_at t (l, e)) es = map Some as"
    using True by (auto simp: as_def rt_unavailable_def split: option.splits)
  have "List.map_filter id (map Some xs) = xs" for xs :: "nat list"
    by (induction xs) (simp_all add: map_filter_simps)
  moreover have "filter (\<lambda>(_, entry). rt_unavailable t entry) (zip es (map (\<lambda>e. rt_at t (l, e)) es)) = []"
    using True by (auto simp: filter_empty_conv in_set_zip)
  moreover have "\<forall>a\<in>set as. re_accepting (rt_entry t a)"
    using True by (auto simp: as_def rt_unavailable_def split: option.splits)
  ultimately show ?thesis
    using retained [of as] True get some by (simp add: rt_acquire_many_def bump_def [abs_def])
next
  case False
  show ?thesis
  proof (cases "rt_validate_expert_list t l es")
    case None
    with False obtain e where e: "e \<in> set es" "rt_unavailable t (rt_at t (l, e))" by auto
    with None have "rt_get t l e = rt_at t (l, e)" by (simp add: rt_validate_expert_list_None)
    with e have "(e, rt_get t l e) \<in> set (filter (\<lambda>(_, entry). rt_unavailable t entry) (zip es (map (rt_get t l) es)))"
      by (auto simp: zip_map2 zip_same_conv_map)
    then have "filter (\<lambda>(_, entry). rt_unavailable t entry) (zip es (map (rt_get t l) es)) \<noteq> []"
      by (metis empty_iff empty_set)
    then show ?thesis using None raised by (simp add: rt_acquire_many_def Let_def)
  qed (simp add: rt_acquire_many_def raised)
qed

lemma ready_inv_acquire:
  assumes "ready_inv s"
  shows "ready_inv (ready_apply (Acquire_Many l es) s)"
proof (cases rule: rt_acquire_cases [of l es "rs_table s"])
  case (raised x)
  with assms show ?thesis by simp
next
  case (retained "as")
  note D = ready_inv_D [OF assms]
  have at: "\<exists>k. rt_at (rs_table s) k = Some a" if "a \<in> set as" for a
  proof -
    have "Some a \<in> set (map (\<lambda>e. rt_at (rs_table s) (l, e)) es)" using retained(2) that by simp
    then show ?thesis by (metis (no_types, lifting) imageE set_map)
  qed
  then have lt: "\<forall>a\<in>set as. a < length (rt_store (rs_table s))" using table_ok_D(2) [OF D(1)] by blast
  have held: "lease_held (rs_table s) \<lparr>rl_layer_id = l, rl_expert_ids = es,
      rl_objects = map (\<lambda>a. re_value (rt_entry (rs_table s) a)) as, rl_entries = as, rl_closed = False\<rparr>"
    using retained(2) by (simp add: lease_held_def)
  have "ready_inv (s\<lparr>rs_table := fold (bump 1) as (rs_table s), rs_leases := rs_leases s @ [\<lparr>rl_layer_id = l,
      rl_expert_ids = es, rl_objects = map (\<lambda>a. re_value (rt_entry (rs_table s) a)) as, rl_entries = as, rl_closed = False\<rparr>]\<rparr>)"
    by (rule ready_inv_same_positions [OF assms]) (use D held lt in \<open>auto simp: fold_bump_entry [OF lt]\<close>)
  then show ?thesis by (simp add: retained(4))
qed
lemma ready_inv_finish_enter:
  assumes "ready_inv s"
  shows "ready_inv (ready_apply (Finish_Enter l e timeout) s)"
proof (cases "rt_finish_enter l e timeout (rs_table s)")
  case (Inr a)
  then have pos: "rt_pos (rs_table s) (l, e)" and a: "rt_at (rs_table s) (l, e) = Some a"
    and acc: "\<not> re_accepting (rt_entry (rs_table s) a)"
    by (auto simp: rt_finish_enter_def split: option.splits if_splits)
  note D = ready_inv_D [OF assms]
  have "a < length (rt_store (rs_table s))" using table_ok_D(2) [OF D(1) a] .
  with pos acc Inr D show ?thesis by (auto simp: ready_inv_def)
qed (use assms in simp)

lemma ready_inv_finish_pass:
  assumes inv: "ready_inv s"
  shows "ready_inv (ready_apply (Finish_Pass i expired) s)"
proof (cases "i < length (rs_withdrawals s)")
  case True
  obtain l e a where w: "rs_withdrawals s ! i = (l, e, a)" by (metis prod_cases3)
  then have mem: "(l, e, a) \<in> set (rs_withdrawals s)" using True by (metis nth_mem)
  define t where "t = rs_table s"
  note D = ready_inv_D [OF inv, folded t_def]
  have pos: "rt_pos t (l, e)" and lt: "a < length (rt_store t)" using D(5) [OF mem] by auto
  show ?thesis
  proof (cases "re_use_count (rt_entry t a) = 0 \<and> rt_at t (l, e) = Some a")
    case False
    then have "snd (rt_finish_pass l e a expired t) = t" using pos by (auto simp: rt_finish_pass_def)
    with inv True w show ?thesis by (simp add: t_def)
  next
    case Tr: True
    define t' where "t' = rt_set l e None t"
    have at: "rt_at t' k = (if k = (l, e) then None else rt_at t k)" for k
      using rt_at_set [OF table_ok_D(1) [OF D(1)] pos] by (simp add: t'_def)
    have "table_ok t'"
      unfolding table_ok_def
    proof (intro conjI allI impI)
      show "rt_shape t'" using table_ok_D(1) [OF D(1)] pos by (simp add: t'_def)
    next
      fix k b assume "rt_at t' k = Some b"
      then show "b < length (rt_store t')" using table_ok_D(2) [OF D(1), of k b] at [of k] by (simp add: t'_def split: if_splits)
    next
      fix k k' b assume "rt_at t' k = Some b" "rt_at t' k' = Some b"
      then show "k = k'" using table_ok_D(3) [OF D(1), of k b k'] by (simp add: at split: if_splits)
    qed
    moreover have "lease_held t' L" if L: "L \<in> set (rs_leases s)" "\<not> rl_closed L" for L
      using D(2) [OF L]
    proof (rule lease_held_mono)
      fix x assume x: "x \<in> set (rl_expert_ids L)"
      have "Some a \<noteq> rt_at t (rl_layer_id L, x)"
      proof
        assume "Some a = rt_at t (rl_layer_id L, x)"
        moreover have "rt_at t (rl_layer_id L, x) \<in> set (map (\<lambda>e. rt_at t (rl_layer_id L, e)) (rl_expert_ids L))"
          using x by simp
        ultimately have "a \<in> set (rl_entries L)"
          using D(2) [OF L] unfolding lease_held_def by (metis (no_types, lifting) image_iff option.inject set_map)
        from lease_uses_pos [OF L this] D(3) [OF lt] Tr show False by simp
      qed
      with Tr show "rt_at t' (rl_layer_id L, x) = rt_at t (rl_layer_id L, x)" by (auto simp: at)
    qed (simp add: t'_def)
    ultimately have "ready_inv (s\<lparr>rs_table := t'\<rparr>)"
      using D(3-5) by (auto simp: ready_inv_def t'_def)
    then show ?thesis using Tr True w pos by (simp add: rt_finish_pass_def t_def t'_def)
  qed
qed (use inv in simp)

text \<open>An open lease can always be released: its entries are in place and counted.\<close>

lemma rl_close_open:
  assumes inv: "ready_inv s" and L: "L \<in> set (rs_leases s)" "\<not> rl_closed L"
  shows "rl_close L (rs_table s) = (Inr (), L\<lparr>rl_closed := True\<rparr>, fold (bump (-1)) (rl_entries L) (rs_table s))"
proof -
  define t where "t = rs_table s"
  note D = ready_inv_D [OF inv, folded t_def]
  have held: "map (\<lambda>e. rt_at t (rl_layer_id L, e)) (rl_expert_ids L) = map Some (rl_entries L)"
    using D(2) [OF L] by (simp add: lease_held_def)
  have "rt_get t (rl_layer_id L) e = Some a \<and> 0 < re_use_count (rt_entry t a)"
    if "(e, a) \<in> set (zip (rl_expert_ids L) (rl_entries L))" for e a
  proof -
    from that obtain j where j: "j < length (rl_expert_ids L)" "j < length (rl_entries L)"
      "e = rl_expert_ids L ! j" "a = rl_entries L ! j" by (auto simp: in_set_zip)
    have "rt_at t (rl_layer_id L, e) = Some a" using arg_cong [OF held, of "\<lambda>xs. xs ! j"] j by simp
    moreover have "0 < lease_uses (rs_leases s) a" using j by (intro lease_uses_pos [OF L]) simp
    moreover have "a < length (rt_store t)" using D(4) [OF L(1)] j by simp
    ultimately show ?thesis using D(3) [of a] by (simp add: rt_at_def del: rt_get_at split: if_splits)
  qed
  then have "raise_first (concat (map (\<lambda>(expert_id, a).
        [(rt_get t (rl_layer_id L) expert_id \<noteq> Some a, RuntimeError ''retained ready weight changed before release''),
         (re_use_count (rt_entry t a) \<le> 0, RuntimeError ''ready weight usage count underflow'')])
        (zip (rl_expert_ids L) (rl_entries L)))) = None"
    unfolding raise_first_None_iff by fastforce
  then have "rt_release (rl_layer_id L) (rl_expert_ids L) (rl_entries L) t = (Inr (), fold (bump (-1)) (rl_entries L) t)"
    unfolding rt_release_def bump_def [abs_def] by simp
  then show ?thesis
    using L(2) unfolding t_def by (simp add: rl_close_def)
qed

lemma ready_inv_close:
  assumes inv: "ready_inv s"
  shows "ready_inv (ready_apply (Close_Lease i) s)"
proof (cases "i < length (rs_leases s) \<and> \<not> rl_closed (rs_leases s ! i)")
  case True
  define L where "L = rs_leases s ! i"
  have L: "L \<in> set (rs_leases s)" "\<not> rl_closed L" using True by (auto simp: L_def)
  note D = ready_inv_D [OF inv]
  have lt: "\<forall>a\<in>set (rl_entries L). a < length (rt_store (rs_table s))" using D(4) [OF L(1)] by blast
  have split: "rs_leases s = take i (rs_leases s) @ L # drop (Suc i) (rs_leases s)"
    using True by (simp add: L_def id_take_nth_drop)
  have upd: "(rs_leases s)[i := M] = take i (rs_leases s) @ M # drop (Suc i) (rs_leases s)" for M
    using True by (simp add: upd_conv_take_nth_drop)
  have uses: "lease_uses (rs_leases s) a = lease_uses ((rs_leases s)[i := L\<lparr>rl_closed := True\<rparr>]) a + int (count_list (rl_entries L) a)" for a
    using L(2) by (subst split) (simp add: upd)
  have sub: "M \<in> set (rs_leases s) \<or> M = L\<lparr>rl_closed := True\<rparr>" if "M \<in> set ((rs_leases s)[i := L\<lparr>rl_closed := True\<rparr>])" for M
    using set_update_subset_insert [THEN subsetD, OF that] by auto
  have "ready_inv (s\<lparr>rs_table := fold (bump (-1)) (rl_entries L) (rs_table s),
      rs_leases := (rs_leases s)[i := L\<lparr>rl_closed := True\<rparr>]\<rparr>)"
  proof (rule ready_inv_same_positions [OF inv], goal_cases)
    case (6 a)
    then show ?case using D(3) [of a] uses [of a] by (simp add: fold_bump_entry [OF lt])
  next
    case (7 M)
    then show ?case using sub [OF 7(1)] D(2) by auto
  next
    case (8 M a)
    then show ?case using sub [OF 8(1)] D(4) lt by auto
  qed (use D sub in \<open>auto simp: fold_bump_entry [OF lt]\<close>)
  then show ?thesis using True rl_close_open [OF inv L] by (simp add: L_def)
next
  case False
  then have "ready_apply (Close_Lease i) s = s" by (auto simp: rl_close_def)
  with inv show ?thesis by simp
qed

lemma ready_apply_inv: "ready_inv s \<Longrightarrow> ready_inv (ready_apply op s)"
  by (cases op) (simp_all only: ready_inv_publish ready_inv_acquire ready_inv_begin_withdrawal
     ready_inv_finish_enter ready_inv_finish_pass ready_inv_close)

lemma ready_run_inv: "ready_inv s \<Longrightarrow> ready_inv (ready_run ops s)"
  unfolding ready_run_def by (induction ops arbitrary: s) (simp_all add: ready_apply_inv)
section \<open>Withdrawal as a drain gate\<close>

definition position_use :: "'v ready_sys \<Rightarrow> int \<times> int \<Rightarrow> int" where
  "position_use s k = (case rt_at (rs_table s) k of None \<Rightarrow> 0 | Some a \<Rightarrow> re_use_count (rt_entry (rs_table s) a))"

definition withdrawn :: "'v ready_sys \<Rightarrow> int \<times> int \<Rightarrow> bool" where
  "withdrawn s k \<longleftrightarrow> rt_unavailable (rs_table s) (rt_at (rs_table s) k)"

definition republishes :: "'v ready_op \<Rightarrow> int \<times> int \<Rightarrow> bool" where
  "republishes op k \<longleftrightarrow> (case op of Publish l e _ \<Rightarrow> k = (l, e) | _ \<Rightarrow> False)"

lemma position_use_nonneg:
  assumes "ready_inv s"
  shows "0 \<le> position_use s k"
  using ready_inv_D(3) [OF assms] table_ok_D(2) [OF ready_inv_D(1) [OF assms], of k]
  by (auto simp: position_use_def lease_uses_nonneg split: option.splits)

lemma position_use_counts:
  assumes "ready_inv s" and "rt_at (rs_table s) k = Some a"
  shows "position_use s k = lease_uses (rs_leases s) a"
  using ready_inv_D(3) [OF assms(1)] table_ok_D(2) [OF ready_inv_D(1) [OF assms(1)] assms(2)] assms(2)
  by (simp add: position_use_def)

lemma withdrawn_publish:
  assumes "ready_inv s" and "withdrawn s k"
  shows "position_use (ready_apply (Publish l e v) s) k \<le> position_use s k"
    and "k \<noteq> (l, e) \<Longrightarrow> withdrawn (ready_apply (Publish l e v) s) k"
proof (atomize (full), cases rule: rt_publish_cases [of l e v "rs_table s"])
  case (published w)
  define t where "t = rs_table s"
  have D: "table_ok t" using ready_inv_D(1) [OF assms(1)] by (simp add: t_def)
  have at: "rt_at (rt_set l e x t) k = (if k = (l, e) then x else rt_at t k)" for x
    using rt_at_set [OF table_ok_D(1) [OF D]] published(1) by (simp add: t_def)
  show "position_use (ready_apply (Publish l e v) s) k \<le> position_use s k \<and>
      (k \<noteq> (l, e) \<longrightarrow> withdrawn (ready_apply (Publish l e v) s) k)"
    using published(2,4) assms(2) table_ok_D(2) [OF D, of k]
    by (auto simp: position_use_def withdrawn_def rt_unavailable_def at rt_entry_def nth_append t_def [symmetric] split: option.splits)
qed (use assms(2) in auto)

lemma withdrawn_acquire:
  assumes "ready_inv s" and "withdrawn s k"
  shows "position_use (ready_apply (Acquire_Many l es) s) k \<le> position_use s k"
    and "withdrawn (ready_apply (Acquire_Many l es) s) k"
proof (atomize (full), cases rule: rt_acquire_cases [of l es "rs_table s"])
  case (retained "as")
  have lt: "\<forall>a\<in>set as. a < length (rt_store (rs_table s))"
  proof
    fix a assume "a \<in> set as"
    then have "Some a \<in> set (map (\<lambda>e. rt_at (rs_table s) (l, e)) es)" using retained(2) by simp
    then show "a < length (rt_store (rs_table s))"
      using table_ok_D(2) [OF ready_inv_D(1) [OF assms(1)]] by (metis (no_types, lifting) imageE set_map)
  qed
  have "count_list as a = 0" if "rt_at (rs_table s) k = Some a" for a
    using that assms(2) retained(3) by (auto simp: withdrawn_def rt_unavailable_def count_list_0_iff)
  then show "position_use (ready_apply (Acquire_Many l es) s) k \<le> position_use s k \<and>
      withdrawn (ready_apply (Acquire_Many l es) s) k"
    using assms(2) by (auto simp: position_use_def withdrawn_def rt_unavailable_def retained(4) fold_bump_entry [OF lt] split: option.splits)
qed (use assms(2) in \<open>simp add: position_use_def withdrawn_def\<close>)

lemma withdrawn_begin:
  assumes "ready_inv s" and "withdrawn s k"
  shows "position_use (ready_apply (Begin_Withdrawal l e) s) k \<le> position_use s k"
    and "withdrawn (ready_apply (Begin_Withdrawal l e) s) k"
proof (atomize (full), cases "rt_pos (rs_table s) (l, e) \<and> rt_at (rs_table s) (l, e) \<noteq> None")
  case True
  then obtain a where a: "rt_at (rs_table s) (l, e) = Some a" by blast
  have "a < length (rt_store (rs_table s))" using table_ok_D(2) [OF ready_inv_D(1) [OF assms(1)] a] .
  with True a assms(2) show "position_use (ready_apply (Begin_Withdrawal l e) s) k \<le> position_use s k \<and>
      withdrawn (ready_apply (Begin_Withdrawal l e) s) k"
    by (auto simp: rt_begin_withdrawal_def position_use_def withdrawn_def rt_unavailable_def split: option.splits)
next
  case False
  then have "snd (rt_begin_withdrawal l e (rs_table s)) = rs_table s"
    by (auto simp: rt_begin_withdrawal_def split: option.splits)
  with assms(2) show "position_use (ready_apply (Begin_Withdrawal l e) s) k \<le> position_use s k \<and>
      withdrawn (ready_apply (Begin_Withdrawal l e) s) k" by simp
qed

lemma withdrawn_finish:
  assumes inv: "ready_inv s" and w: "withdrawn s k"
  shows "position_use (ready_apply (Finish_Pass i x) s) k \<le> position_use s k"
    and "withdrawn (ready_apply (Finish_Pass i x) s) k"
proof (atomize (full), cases "i < length (rs_withdrawals s)")
  case True
  obtain l e a where nth: "rs_withdrawals s ! i = (l, e, a)" by (metis prod_cases3)
  then have pos: "rt_pos (rs_table s) (l, e)" using ready_inv_D(5) [OF inv] True by (metis nth_mem)
  have at: "rt_at (rt_set l e None (rs_table s)) k = (if k = (l, e) then None else rt_at (rs_table s) k)"
    by (rule rt_at_set [OF table_ok_D(1) [OF ready_inv_D(1) [OF inv]] pos])
  have "snd (rt_finish_pass l e a x (rs_table s)) \<in> {rs_table s, rt_set l e None (rs_table s)}"
    by (simp add: rt_finish_pass_def)
  then have "ready_apply (Finish_Pass i x) s \<in> {s, s\<lparr>rs_table := rt_set l e None (rs_table s)\<rparr>}"
    using True nth by auto
  then show "position_use (ready_apply (Finish_Pass i x) s) k \<le> position_use s k \<and>
      withdrawn (ready_apply (Finish_Pass i x) s) k"
    using w position_use_nonneg [OF inv, of k]
    by (auto simp del: ready_apply.simps simp: position_use_def withdrawn_def rt_unavailable_def at split: option.splits if_splits)
qed (use w in simp)

lemma withdrawn_close:
  assumes inv: "ready_inv s" and w: "withdrawn s k"
  shows "position_use (ready_apply (Close_Lease i) s) k \<le> position_use s k"
    and "withdrawn (ready_apply (Close_Lease i) s) k"
proof (atomize (full), cases "i < length (rs_leases s) \<and> \<not> rl_closed (rs_leases s ! i)")
  case True
  then have L: "rs_leases s ! i \<in> set (rs_leases s)" by simp
  have lt: "\<forall>a\<in>set (rl_entries (rs_leases s ! i)). a < length (rt_store (rs_table s))"
    using ready_inv_D(4) [OF inv L] by blast
  show "position_use (ready_apply (Close_Lease i) s) k \<le> position_use s k \<and> withdrawn (ready_apply (Close_Lease i) s) k"
    using True w rl_close_open [OF inv L]
    by (auto simp: position_use_def withdrawn_def rt_unavailable_def fold_bump_entry [OF lt] split: option.splits)
next
  case False
  then have "ready_apply (Close_Lease i) s = s" by (auto simp: rl_close_def)
  with w show "position_use (ready_apply (Close_Lease i) s) k \<le> position_use s k \<and> withdrawn (ready_apply (Close_Lease i) s) k" by simp
qed

lemma withdrawn_enter:
  assumes "withdrawn s k"
  shows "position_use (ready_apply (Finish_Enter l e x) s) k \<le> position_use s k"
    and "withdrawn (ready_apply (Finish_Enter l e x) s) k"
  using assms by (auto simp: position_use_def withdrawn_def split: sum.splits option.splits)

interpretation withdrawal: drain_gate "ready_apply :: 'v ready_op \<Rightarrow> 'v ready_sys \<Rightarrow> 'v ready_sys" ready_inv withdrawn position_use republishes
proof unfold_locales
  fix s :: "'v ready_sys" and op :: "'v ready_op" assume "ready_inv s"
  then show "ready_inv (ready_apply op s)" by (rule ready_apply_inv)
next
  fix s :: "'v ready_sys" and k assume "ready_inv s"
  then show "0 \<le> position_use s k" by (rule position_use_nonneg)
next
  fix s :: "'v ready_sys" and k and op :: "'v ready_op" assume "ready_inv s" "withdrawn s k" "\<not> republishes op k"
  then show "withdrawn (ready_apply op s) k"
    using withdrawn_publish(2) withdrawn_acquire(2) withdrawn_begin(2) withdrawn_finish(2) withdrawn_close(2) withdrawn_enter(2)
    by (cases op) (simp_all del: ready_apply.simps add: republishes_def)
next
  fix s :: "'v ready_sys" and k and op :: "'v ready_op" assume "ready_inv s" "withdrawn s k"
  then show "position_use (ready_apply op s) k \<le> position_use s k"
    using withdrawn_publish(1) withdrawn_acquire(1) withdrawn_begin(1) withdrawn_finish(1) withdrawn_close(1) withdrawn_enter(1)
    by (cases op) (simp_all del: ready_apply.simps)
qed
text \<open>Addresses enter the table only when they are new.\<close>

lemma ready_apply_at:
  assumes inv: "ready_inv s"
  shows "length (rt_store (rs_table s)) \<le> length (rt_store (rs_table (ready_apply op s))) \<and>
     (rt_at (rs_table (ready_apply op s)) k = Some a \<longrightarrow> rt_at (rs_table s) k = Some a \<or> length (rt_store (rs_table s)) \<le> a)"
proof (cases op)
  case (Publish l e v)
  show ?thesis
  proof (cases rule: rt_publish_cases [of l e v "rs_table s"])
    case (published w)
    then show ?thesis
      using rt_at_set [OF table_ok_D(1) [OF ready_inv_D(1) [OF inv]] published(1)] Publish by auto
  qed (simp add: Publish)
next
  case (Acquire_Many l es)
  then show ?thesis by (cases rule: rt_acquire_cases [of l es "rs_table s"]) simp_all
next
  case (Begin_Withdrawal l e)
  then show ?thesis by (auto simp: rt_begin_withdrawal_def split: option.splits)
next
  case (Finish_Enter l e x)
  then show ?thesis by (auto split: sum.splits)
next
  case (Finish_Pass i x)
  show ?thesis
  proof (cases "i < length (rs_withdrawals s)")
    case True
    obtain l e b where nth: "rs_withdrawals s ! i = (l, e, b)" by (metis prod_cases3)
    then have pos: "rt_pos (rs_table s) (l, e)" using ready_inv_D(5) [OF inv] True by (metis nth_mem)
    then show ?thesis
      using True nth Finish_Pass rt_at_set [OF table_ok_D(1) [OF ready_inv_D(1) [OF inv]] pos, of None k]
      by (auto simp: rt_finish_pass_def split: if_splits)
  qed (simp add: Finish_Pass)
next
  case (Close_Lease i)
  show ?thesis
  proof (cases "i < length (rs_leases s) \<and> \<not> rl_closed (rs_leases s ! i)")
    case True
    then show ?thesis using rl_close_open [OF inv, of "rs_leases s ! i"] Close_Lease by simp
  qed (auto simp: Close_Lease rl_close_def)
qed

definition gone :: "nat \<Rightarrow> 'v ready_sys \<Rightarrow> bool" where
  "gone a s \<longleftrightarrow> a < length (rt_store (rs_table s)) \<and> (\<forall>k. rt_at (rs_table s) k \<noteq> Some a)"

lemma gone_apply:
  assumes "ready_inv s" and "gone a s"
  shows "gone a (ready_apply op s)"
  unfolding gone_def
proof (intro conjI allI notI)
  show "a < length (rt_store (rs_table (ready_apply op s)))"
    using conjunct1 [OF ready_apply_at [OF assms(1), of op]] assms(2) by (simp add: gone_def)
  fix k assume "rt_at (rs_table (ready_apply op s)) k = Some a"
  with ready_apply_at [OF assms(1), of op k a] assms(2) show False
    unfolding gone_def by (metis not_le)
qed

lemma gone_run: "ready_inv s \<Longrightarrow> gone a s \<Longrightarrow> gone a (ready_run ops s)"
  unfolding ready_run_def by (induction ops arbitrary: s) (simp_all add: gone_apply ready_apply_inv)

lemma gone_unused:
  assumes "ready_inv s" and "gone a s" and "L \<in> set (rs_leases s)" and "\<not> rl_closed L"
  shows "a \<notin> set (rl_entries L)"
  using lease_held_at [OF ready_inv_D(2) [OF assms(1,3,4)]] assms(2) by (auto simp: gone_def)

lemma finish_gone:
  assumes inv: "ready_inv s" and i: "i < length (rs_withdrawals s)" and w: "rs_withdrawals s ! i = (l, e, a)"
    and r: "fst (rt_finish_pass l e a x (rs_table s)) = Inr (Some v)"
  shows "gone a (ready_apply (Finish_Pass i x) s)"
proof -
  have mem: "(l, e, a) \<in> set (rs_withdrawals s)" using i w by (metis nth_mem)
  note D = ready_inv_D [OF inv]
  have pos: "rt_pos (rs_table s) (l, e)" and a: "a < length (rt_store (rs_table s))" using D(5) [OF mem] by auto
  have z: "re_use_count (rt_entry (rs_table s) a) = 0" and at: "rt_at (rs_table s) (l, e) = Some a"
    using r pos by (auto simp: rt_finish_pass_def split: if_splits)
  have "rt_at (rt_set l e None (rs_table s)) k \<noteq> Some a" for k
    using rt_at_set [OF table_ok_D(1) [OF D(1)] pos, of None k] table_ok_D(3) [OF D(1) at, of k] by auto
  then show ?thesis using i w z at pos a by (simp add: gone_def rt_finish_pass_def)
qed

lemma rt_is_ready_available:
  "rt_pos t (l, e) \<Longrightarrow> rt_is_ready l e t = Inr (\<not> rt_unavailable t (rt_at t (l, e)))"
  by (simp add: rt_is_ready_def rt_unavailable_def split: option.splits)

lemma rt_acquire_raises:
  assumes "rt_validate_expert_list t l es = None" and "rt_acquire_many l es t = (Inl x, t')"
  shows "t' = t \<and> x = WeightsNotReady (filter (\<lambda>e. rt_unavailable t (rt_at t (l, e))) es) \<and>
     (\<exists>e\<in>set es. rt_unavailable t (rt_at t (l, e)))"
proof -
  have get: "map (rt_get t l) es = map (\<lambda>e. rt_at t (l, e)) es"
    using assms(1) by (simp add: rt_validate_expert_list_None)
  have "map fst (filter (\<lambda>(_, y). P y) (zip es (map f es))) = filter (\<lambda>e. P (f e)) es" for P f and es :: "int list"
    by (induction es) auto
  then show ?thesis
    using assms by (auto simp: rt_acquire_many_def get Let_def filter_empty_conv in_set_zip split: if_splits)
      (use nth_mem in blast)
qed

text \<open>A position named by a strictly increasing list is retained once.\<close>

lemma retained_count:
  assumes "table_ok t" and "map (\<lambda>e. rt_at t (l, e)) es = map Some as" and "distinct es" and "rt_at t k = Some a"
  shows "count_list as a = (if fst k = l \<and> snd k \<in> set es then 1 else 0)"
  using assms(2,3)
proof (induction es arbitrary: as)
  case (Cons e es)
  then obtain b bs where "as": "as = b # bs" and b: "rt_at t (l, e) = Some b"
    and bs: "map (\<lambda>e. rt_at t (l, e)) es = map Some bs" by (cases "as") auto
  have "a = b \<longleftrightarrow> k = (l, e)"
    using table_ok_D(3) [OF assms(1,4), of "(l, e)"] b assms(4) by auto
  then show ?case
    using Cons.IH [OF bs] Cons.prems(2) by (cases k) (auto simp: "as")
qed simp

section \<open>Properties\<close>

definition ready_start :: "'v ready_table \<Rightarrow> 'v ready_sys" where
  "ready_start t = \<lparr>rs_table = t, rs_leases = [], rs_withdrawals = []\<rparr>"

lemma ready_reached_inv: "ReadyWeightTable n m = Inr t0 \<Longrightarrow> ready_inv (ready_run ops (ready_start t0))"
  unfolding ready_start_def by (intro ready_run_inv ReadyWeightTable_inv)

definition ex_table :: "string ready_table" where
  "ex_table = \<lparr>rt_num_layers = 1, rt_experts_per_layer = 3, rt_entries = [[None, None, None]], rt_store = []\<rparr>"

lemma ex_table_made: "ReadyWeightTable 1 3 = Inr ex_table"
  by (simp add: ReadyWeightTable_def ex_table_def numeral_3_eq_3)

definition ex_ready_ops :: "string ready_op list" where
  "ex_ready_ops = [Publish 0 0 (Some ''w0''), Publish 0 2 (Some ''w2''), Acquire_Many 0 [0, 2], Begin_Withdrawal 0 2,
     Acquire_Many 0 [2], Finish_Enter 0 2 None, Finish_Pass 0 False]"

definition ex_ready :: "string ready_sys" where
  "ex_ready = ready_run ex_ready_ops (ready_start ex_table)"

text \<open>
  C14. A lease protects its weights: in every state reached from a new table by any sequence of
  publications, acquisitions, withdrawals and releases, each object of an open lease is still the
  object in the table at its position, the usage counter of every position is the number of open
  leases on it, and releasing an open lease succeeds.
\<close>

theorem ready_lease_protects:
  assumes "ReadyWeightTable n m = Inr t0" and "s = ready_run ops (ready_start t0)"
    and "L \<in> set (rs_leases s)" and "\<not> rl_closed L"
  shows "lease_held (rs_table s) L \<and> fst (rl_close L (rs_table s)) = Inr () \<and>
     (\<forall>k. case rt_at (rs_table s) k of None \<Rightarrow> True
          | Some a \<Rightarrow> rt_usage_count (fst k) (snd k) (rs_table s) = Inr (lease_uses (rs_leases s) a))"
proof -
  have inv: "ready_inv s" using ready_reached_inv [OF assms(1)] assms(2) by simp
  have "rt_usage_count (fst k) (snd k) (rs_table s) = Inr (lease_uses (rs_leases s) a)" if "rt_at (rs_table s) k = Some a" for k a
    using position_use_counts [OF inv that] that
    by (auto simp: rt_usage_count_def position_use_def rt_at_def simp del: rt_get_at split: if_splits)
  then show ?thesis
    using rl_close_open [OF inv assms(3,4)] ready_inv_D(2) [OF inv assms(3,4)] by (auto split: option.split)
qed

theorem ready_lease_protects_witness:
  "length (rs_leases ex_ready) = 1 \<and> \<not> rl_closed (rs_leases ex_ready ! 0) \<and>
   lease_held (rs_table ex_ready) (rs_leases ex_ready ! 0) \<and>
   fst (rl_close (rs_leases ex_ready ! 0) (rs_table ex_ready)) = Inr ()"
proof -
  have len: "length (rs_leases ex_ready) = 1" and cl: "\<not> rl_closed (rs_leases ex_ready ! 0)" by code_simp+
  then have "rs_leases ex_ready ! 0 \<in> set (rs_leases ex_ready)" by simp
  from ready_lease_protects [OF ex_table_made ex_ready_def this cl] len cl show ?thesis by blast
qed

text \<open>
  \<open>acquire_many\<close> is all or nothing: on a valid, sorted expert list it either changes nothing
  and reports exactly the missing or withdrawing experts, or returns a lease with one object per
  expert in order and raises the usage counter of exactly the named positions by one.
\<close>

theorem acquire_many_all_or_nothing:
  assumes "ReadyWeightTable n m = Inr t0" and "s = ready_run ops (ready_start t0)"
    and "rt_validate_expert_list (rs_table s) l es = None"
  shows "case rt_acquire_many l es (rs_table s) of
       (Inl x, t') \<Rightarrow> t' = rs_table s \<and> (\<exists>e\<in>set es. rt_is_ready l e (rs_table s) = Inr False) \<and>
          x = WeightsNotReady (filter (\<lambda>e. rt_is_ready l e (rs_table s) = Inr False) es)
     | (Inr L, t') \<Rightarrow> (\<forall>e\<in>set es. rt_is_ready l e (rs_table s) = Inr True) \<and> rl_expert_ids L = es \<and> rl_layer_id L = l \<and>
          lease_held t' L \<and> rt_at t' = rt_at (rs_table s) \<and>
          (\<forall>k. rt_pos (rs_table s) k \<longrightarrow> rt_usage_count (fst k) (snd k) t' =
             Inr (position_use s k + (if fst k = l \<and> snd k \<in> set es then 1 else 0)))"
proof -
  define t where "t = rs_table s"
  have inv: "ready_inv s" using ready_reached_inv [OF assms(1)] assms(2) by simp
  have ok: "table_ok t" using ready_inv_D(1) [OF inv] by (simp add: t_def)
  have v: "rt_validate_expert_list t l es = None" using assms(3) by (simp add: t_def)
  then have pos: "\<And>e. e \<in> set es \<Longrightarrow> rt_pos t (l, e)" and "distinct es"
    by (auto simp: rt_validate_expert_list_None strict_sorted_iff)
  have rd: "\<And>e. e \<in> set es \<Longrightarrow> rt_is_ready l e t = Inr (\<not> rt_unavailable t (rt_at t (l, e)))"
    using rt_is_ready_available pos by blast
  show ?thesis
  proof (cases rule: rt_acquire_cases [of l es t])
    case (raised x)
    have "filter (\<lambda>e. rt_is_ready l e t = Inr False) es = filter (\<lambda>e. rt_unavailable t (rt_at t (l, e))) es"
      using rd by (intro filter_cong) auto
    with rt_acquire_raises [OF v raised] raised rd show ?thesis by (auto simp flip: t_def)
  next
    case (retained "as")
    have lt: "\<forall>a\<in>set as. a < length (rt_store t)"
      using retained(2) table_ok_D(2) [OF ok] by (metis (no_types, lifting) image_iff set_map)
    have "rt_is_ready l e t = Inr True" if "e \<in> set es" for e
    proof -
      have "rt_at t (l, e) \<in> Some ` set as" using retained(2) that by (metis (no_types, lifting) image_iff set_map)
      then show ?thesis using rd [OF that] retained(3) by (auto simp: rt_unavailable_def)
    qed
    moreover have "rt_usage_count (fst k) (snd k) (fold (bump 1) as t) =
        Inr (position_use s k + (if fst k = l \<and> snd k \<in> set es then 1 else 0))" if "rt_pos t k" for k
    proof (cases "rt_at t k")
      case None
      with calculation [of "snd k"] that have "\<not> (fst k = l \<and> snd k \<in> set es)"
        by (cases k) (auto simp: rt_is_ready_def)
      with None that show ?thesis by (simp add: rt_usage_count_def position_use_def flip: t_def)
    next
      case (Some a)
      from retained_count [OF ok retained(2) \<open>distinct es\<close> Some] that Some show ?thesis
        by (simp add: rt_usage_count_def position_use_def fold_bump_entry [OF lt] flip: t_def)
    qed
    ultimately show ?thesis
      using retained by (simp add: lease_held_def fold_bump_entry [OF lt] del: split_paired_All flip: t_def)
  qed
qed

theorem acquire_many_all_or_nothing_witness:
  "rt_acquire_many 0 [0, 2] (rs_table ex_ready) = (Inl (WeightsNotReady [2]), rs_table ex_ready)"
proof -
  have v: "rt_validate_expert_list (rs_table ex_ready) 0 [0, 2] = None" by code_simp
  have r: "fst (rt_acquire_many 0 [0, 2] (rs_table ex_ready)) = Inl (WeightsNotReady [2])" by code_simp
  with acquire_many_all_or_nothing [OF ex_table_made ex_ready_def v] show ?thesis
    by (cases "rt_acquire_many 0 [0, 2] (rs_table ex_ready)") simp
qed

text \<open>
  C15. A withdrawn weight is released safely: once \<open>finish_withdrawal\<close> has returned an object, no
  lease that is open then or after any later operations holds it.
\<close>

theorem withdrawn_weight_never_used_again:
  assumes "ReadyWeightTable n m = Inr t0" and "s = ready_run before (ready_start t0)"
    and "i < length (rs_withdrawals s)" and "rs_withdrawals s ! i = (l, e, a)"
    and "fst (rt_finish_pass l e a expired (rs_table s)) = Inr (Some v)"
    and "s' = ready_run later (ready_apply (Finish_Pass i expired) s)" and "L \<in> set (rs_leases s')" and "\<not> rl_closed L"
  shows "a \<notin> set (rl_entries L)"
proof -
  have inv: "ready_inv s" using ready_reached_inv [OF assms(1)] assms(2) by simp
  have inv': "ready_inv (ready_apply (Finish_Pass i expired) s)" by (rule ready_apply_inv [OF inv])
  have "gone a s'" unfolding assms(6) by (rule gone_run [OF inv' finish_gone [OF inv assms(3-5)]])
  then show ?thesis using gone_unused ready_run_inv [OF inv', of later] assms(6-8) by blast
qed

theorem withdrawn_weight_never_used_again_witness:
  "fst (rt_finish_pass 0 2 1 False (rs_table (ready_run [Close_Lease 0] ex_ready))) = Inr (Some ''w2'') \<and>
   1 \<notin> set (rl_entries (rs_leases (ready_run [Publish 0 2 (Some ''n2''), Acquire_Many 0 [2]]
      (ready_apply (Finish_Pass 0 False) (ready_run [Close_Lease 0] ex_ready))) ! 1))"
proof -
  let ?s = "ready_run [Close_Lease 0] ex_ready"
  let ?s' = "ready_run [Publish 0 2 (Some ''n2''), Acquire_Many 0 [2]] (ready_apply (Finish_Pass 0 False) ?s)"
  have s: "?s = ready_run (ex_ready_ops @ [Close_Lease 0]) (ready_start ex_table)"
    by (simp add: ex_ready_def ready_run_def)
  have i: "0 < length (rs_withdrawals ?s)" and w: "rs_withdrawals ?s ! 0 = (0, 2, 1)" by code_simp+
  have r: "fst (rt_finish_pass 0 2 1 False (rs_table ?s)) = Inr (Some ''w2'')" by code_simp
  have "length (rs_leases ?s') = 2" by code_simp
  then have "rs_leases ?s' ! 1 \<in> set (rs_leases ?s')" by simp
  moreover have "\<not> rl_closed (rs_leases ?s' ! 1)" by code_simp
  ultimately show ?thesis
    using withdrawn_weight_never_used_again [OF ex_table_made s i w r refl] r by blast
qed

end
