(* ===== verification/Weight_Manager.thy ===== *)
theory Weight_Manager
  imports Weight_Loader Ready_Table
begin

text \<open>
  \<open>ek-worker/src/expertkit_worker/weights/manager.py\<close>: placement generations, expert loads and the owner
  of the ready table.

  Every \<open>async with self._lock\<close> block is one operation; the single block that awaits while it holds the
  lock, the removal of drained experts, is split at its awaits and blocks the other operations meanwhile.
  A load task is a coroutine object: a number into \<open>wm_tasks\<close>, the place where it is suspended and
  whether a \<open>cancel()\<close> call is still to be delivered, as \<open>CancelledError\<close>, when it resumes. What the CPU
  loader and the backend's adapter answer is part of the resume event. \<open>wm_made\<close> and \<open>wm_released\<close>
  record the objects the adapter made and released. Iteration over a set difference of dictionary keys
  follows the order of the dictionary; log lines and wall-clock durations are left out, and the load
  semaphore only delays the step out of \<open>Waiting\<close>.
\<close>

datatype expert_state_kind = READY | FAILED | REMOVED

record target_expert =
  tx_layer_id :: int
  tx_expert_id :: int
  tx_target_device :: string
  tx_peer_endpoints :: "string list"

definition target_expert_post_init :: "target_expert \<Rightarrow> exn option" where
  "target_expert_post_init t = raise_first
     [(tx_layer_id t < 0, ValueError ''layer_id must be a nonnegative integer''),
      (tx_expert_id t < 0, ValueError ''expert_id must be a nonnegative integer''),
      (tx_target_device t = [], ValueError ''target_device must not be empty''),
      ([] \<in> set (tx_peer_endpoints t), ValueError ''peer endpoints must not be empty'')]"

definition tx_key :: "target_expert \<Rightarrow> weight_key" where
  "tx_key t = (tx_layer_id t, tx_expert_id t)"

record expert_state =
  es_key :: weight_key
  es_state :: expert_state_kind
  es_failure :: "weight_load_failure option"

definition expert_state_post_init :: "expert_state \<Rightarrow> exn option" where
  "expert_state_post_init s = raise_first
     [(es_state s = FAILED \<and> es_failure s = None, ValueError ''FAILED expert state requires failure details''),
      (es_state s \<noteq> FAILED \<and> es_failure s \<noteq> None, ValueError ''only FAILED expert state may include failure details'')]"

record expert_state_change =
  ec_placement_generation :: int
  ec_expert :: expert_state

record weight_manager_stats =
  ms_placement_generation :: int
  ms_assigned_experts :: nat
  ms_loading_experts :: nat
  ms_ready_experts :: nat
  ms_loaded_device_bytes :: int
  ms_device_weight_capacity_bytes :: int
  ms_max_experts :: int

record removal_request =
  rq_placement_generation :: int
  rq_keys :: "weight_key list"
  rq_whole_worker_shutdown :: bool

record weight_manager_fatal_error =
  fe_key :: weight_key
  fe_reason :: string
  fe_diagnostic :: string

text \<open>
  Where a load task is suspended in \<open>_load_one\<close>: not yet started, at the semaphore or the lock, in the
  loader, in the conversion (with the local variable \<open>cancelled\<close>), before \<open>_finish_failure\<close>, before
  \<open>_set_fatal\<close>, waiting for the inner \<open>_finish_ready\<close> task before and after it ran, before \<open>_load_ended\<close>, or
  finished. Closing the CPU lease does not suspend the task, since no task holds the lock of the DRAM cache across an
  \<open>await\<close>, and neither it nor the handover to the writeback changes the manager. A lock is a suspension
  point here even when it is free, which allows more interleavings than the event loop produces.
\<close>

datatype 'v load_phase =
    Created
  | Waiting
  | Loading
  | Converting weight_source bool
  | Failing weight_load_failure
  | Setting_Fatal string string
  | Finishing 'v bool
  | Finished bool
  | Ending bool
  | Task_Done

record 'v load_task =
  lt_key :: weight_key
  lt_phase :: "'v load_phase"
  lt_cancel :: bool

text \<open>The removal task: created, holding the lock with the keys withdrawn and still to withdraw, or done.\<close>

datatype removal_status =
    Removal_Created
  | Removal_Holding "weight_key list" "weight_key list"
  | Removal_Done "exn + bool"

datatype close_phase =
    Not_Closing
  | Close_Gathering "nat list"
  | Close_Withdrawing "weight_key list" bool
  | Close_Ended

record 'v weight_manager =
  wm_num_layers :: int
  wm_experts_per_layer :: int
  wm_device :: string
  wm_device_weight_capacity_bytes :: int
  wm_ready_weight_bytes :: int
  wm_max_experts :: int
  wm_ready :: "'v ready_sys"
  wm_placement_generation :: int
  wm_targets :: "(weight_key, target_expert) dict"
  wm_states :: "(weight_key, expert_state) dict"
  wm_load_tasks :: "(weight_key, nat) dict"
  wm_tasks :: "'v load_task list"
  wm_removal :: "(removal_request \<times> removal_status) option"
  wm_ready_keys :: "weight_key list"
  wm_loaded_device_bytes :: int
  wm_logged_placement_generation :: int
  wm_load_progress_step :: int
  wm_next_load_progress_count :: int
  wm_load_completion_logged :: bool
  wm_fatal_error :: "weight_manager_fatal_error option"
  wm_close :: close_phase
  wm_started :: bool
  wm_shutting_down :: bool
  wm_closed :: bool
  wm_emitted :: "expert_state_change list"
  wm_emitted_bytes :: "int list"
  wm_made :: "'v list"
  wm_released :: "'v list"

definition WeightManager :: "int \<Rightarrow> int \<Rightarrow> string \<Rightarrow> int \<Rightarrow> int \<Rightarrow> int \<Rightarrow> exn + 'v weight_manager" where
  "WeightManager num_layers experts_per_layer device capacity max_concurrent_loads ready_weight_bytes =
     after (raise_first
       [(num_layers \<le> 0, ValueError ''num_layers must be a positive integer''),
        (experts_per_layer \<le> 0, ValueError ''experts_per_layer must be a positive integer''),
        (capacity \<le> 0, ValueError ''device_weight_capacity_bytes must be a positive integer''),
        (max_concurrent_loads \<le> 0, ValueError ''max_concurrent_loads must be a positive integer''),
        (device = [], ValueError ''device must not be empty''),
        (ready_weight_bytes \<le> 0, ValueError ''Weight adapter ready size must be positive''),
        (capacity div ready_weight_bytes \<le> 0, ValueError ''device weight capacity cannot fit one expert'')])
     (rbind (ReadyWeightTable num_layers experts_per_layer) (\<lambda>table.
        Inr \<lparr>wm_num_layers = num_layers, wm_experts_per_layer = experts_per_layer, wm_device = device,
          wm_device_weight_capacity_bytes = capacity, wm_ready_weight_bytes = ready_weight_bytes,
          wm_max_experts = capacity div ready_weight_bytes,
          wm_ready = ready_start table, wm_placement_generation = 0, wm_targets = [], wm_states = [],
          wm_load_tasks = [], wm_tasks = [], wm_removal = None, wm_ready_keys = [], wm_loaded_device_bytes = 0,
          wm_logged_placement_generation = 0, wm_load_progress_step = 1, wm_next_load_progress_count = 1,
          wm_load_completion_logged = False, wm_fatal_error = None, wm_close = Not_Closing,
          wm_started = False, wm_shutting_down = False, wm_closed = False,
          wm_emitted = [], wm_emitted_bytes = [], wm_made = [], wm_released = []\<rparr>))"

text \<open>The lock is held across awaits only by the removal task.\<close>

definition lock_free :: "'v weight_manager \<Rightarrow> bool" where
  "lock_free m \<longleftrightarrow> (case wm_removal m of Some (_, Removal_Holding _ _) \<Rightarrow> False | _ \<Rightarrow> True)"

definition wm_start :: "'v weight_manager \<Rightarrow> (exn + unit) \<times> 'v weight_manager" where
  "wm_start m =
     (if wm_closed m then (Inl (RuntimeError ''Weight Manager is closed''), m)
      else if wm_started m then (Inr (), m)
      else (Inr (), m\<lparr>wm_started := True\<rparr>))"

section \<open>Helpers that run under the lock\<close>

definition set_state_locked :: "weight_key \<Rightarrow> expert_state \<Rightarrow> 'v weight_manager \<Rightarrow> expert_state_change list \<times> 'v weight_manager" where
  "set_state_locked key state m =
     (if map_of (wm_states m) key = Some state then ([], m)
      else ([\<lparr>ec_placement_generation = wm_placement_generation m, ec_expert = state\<rparr>],
            m\<lparr>wm_states := AList.update key state (wm_states m)\<rparr>))"

abbreviation removed_state :: "weight_key \<Rightarrow> expert_state" where
  "removed_state key \<equiv> \<lparr>es_key = key, es_state = REMOVED, es_failure = None\<rparr>"

abbreviation ready_state :: "weight_key \<Rightarrow> expert_state" where
  "ready_state key \<equiv> \<lparr>es_key = key, es_state = READY, es_failure = None\<rparr>"

abbreviation failed_state :: "weight_key \<Rightarrow> weight_load_failure \<Rightarrow> expert_state" where
  "failed_state key failure \<equiv> \<lparr>es_key = key, es_state = FAILED, es_failure = Some failure\<rparr>"

definition emit :: "expert_state_change list \<Rightarrow> 'v weight_manager \<Rightarrow> 'v weight_manager" where
  "emit changes m = m\<lparr>wm_emitted := wm_emitted m @ changes\<rparr>"

definition emit_device_bytes :: "int \<Rightarrow> 'v weight_manager \<Rightarrow> 'v weight_manager" where
  "emit_device_bytes byte_count m = m\<lparr>wm_emitted_bytes := wm_emitted_bytes m @ [byte_count]\<rparr>"

definition release_ready_weight :: "'v \<Rightarrow> 'v weight_manager \<Rightarrow> 'v weight_manager" where
  "release_ready_weight v m = m\<lparr>wm_released := wm_released m @ [v]\<rparr>"

definition start_load_locked :: "weight_key \<Rightarrow> 'v weight_manager \<Rightarrow> 'v weight_manager" where
  "start_load_locked key m =
     m\<lparr>wm_tasks := wm_tasks m @ [\<lparr>lt_key = key, lt_phase = Created, lt_cancel = False\<rparr>],
       wm_load_tasks := AList.update key (length (wm_tasks m)) (wm_load_tasks m)\<rparr>"

text \<open>\<open>Task.cancel()\<close>: no effect on a finished task, otherwise delivered when the task resumes.\<close>

definition cancel_task :: "nat \<Rightarrow> 'v weight_manager \<Rightarrow> 'v weight_manager" where
  "cancel_task i m =
     (if i < length (wm_tasks m) \<and> lt_phase (wm_tasks m ! i) \<noteq> Task_Done
      then m\<lparr>wm_tasks := (wm_tasks m)[i := (wm_tasks m ! i)\<lparr>lt_cancel := True\<rparr>]\<rparr> else m)"

section \<open>Placement\<close>

fun validate_targets_from ::
  "'v weight_manager \<Rightarrow> (weight_key, target_expert) dict \<Rightarrow> target_expert list \<Rightarrow> exn + (weight_key, target_expert) dict" where
  "validate_targets_from m resolved [] = Inr resolved"
| "validate_targets_from m resolved (target # targets) =
     (let key = tx_key target in
      after (raise_first
        [(fst key \<ge> wm_num_layers m \<or> snd key \<ge> wm_experts_per_layer m,
            ValueError ''target expert exceeds the configured model shape''),
         (tx_target_device target \<noteq> wm_device m, ValueError ''target device does not match this Worker process''),
         (map_of resolved key \<noteq> None, ValueError ''target expert list contains a duplicate'')])
      (validate_targets_from m (AList.update key target resolved) targets))"

definition validate_targets :: "'v weight_manager \<Rightarrow> target_expert list \<Rightarrow> exn + (weight_key, target_expert) dict" where
  "validate_targets m targets =
     rbind (validate_targets_from m [] targets) (\<lambda>resolved.
       if int (length resolved) > wm_max_experts m then Inl (ValueError ''target expert count exceeds max_experts'')
       else Inr resolved)"

definition drop_target :: "weight_key \<Rightarrow> expert_state_change list \<times> 'v weight_manager \<Rightarrow> expert_state_change list \<times> 'v weight_manager" where
  "drop_target key cm =
     (case cm of (changes, m) \<Rightarrow>
        let m1 = (case map_of (wm_load_tasks m) key of Some i \<Rightarrow> cancel_task i m | None \<Rightarrow> m)
        in if key \<in> set (wm_ready_keys m1) then (changes, m1)
           else (case set_state_locked key (removed_state key) m1 of (change, m2) \<Rightarrow> (changes @ change, m2)))"

definition keep_target :: "weight_key \<Rightarrow> 'v weight_manager \<Rightarrow> 'v weight_manager" where
  "keep_target key m =
     (if key \<in> set (wm_ready_keys m) then m
      else let m1 = m\<lparr>wm_states := AList.delete key (wm_states m)\<rparr>
           in if map_of (wm_load_tasks m1) key = None \<and> \<not> wm_shutting_down m1 then start_load_locked key m1 else m1)"

definition reset_progress :: "int \<Rightarrow> (weight_key, target_expert) dict \<Rightarrow> 'v weight_manager \<Rightarrow> 'v weight_manager" where
  "reset_progress placement_generation resolved m =
     (let ready_count = int (length (filter (\<lambda>key. map_of resolved key \<noteq> None) (wm_ready_keys m)));
          assigned_count = int (length resolved);
          step = max 1 ((assigned_count + 9) div 10)
      in m\<lparr>wm_logged_placement_generation := placement_generation,
           wm_load_progress_step := step,
           wm_next_load_progress_count := (ready_count div step + 1) * step,
           wm_load_completion_logged := (assigned_count > 0 \<and> ready_count = assigned_count)\<rparr>)"

definition apply_targets :: "int \<Rightarrow> target_expert list \<Rightarrow> 'v weight_manager \<Rightarrow> (exn + bool) \<times> 'v weight_manager" where
  "apply_targets placement_generation targets m =
     (if \<not> wm_started m then (Inl (RuntimeError ''Weight Manager has not been started''), m)
      else if placement_generation \<le> 0 then (Inl (ValueError ''placement_generation must be positive''), m)
      else
        (case validate_targets m targets of
           Inl e \<Rightarrow> (Inl e, m)
         | Inr resolved \<Rightarrow>
             if wm_closed m then (Inl (RuntimeError ''Weight Manager is closed''), m)
             else if placement_generation < wm_placement_generation m then (Inr False, m)
             else if placement_generation = wm_placement_generation m
             then (if \<not> dict_eq resolved (wm_targets m)
                   then (Inl (ValueError ''one placement generation cannot contain different targets''), m)
                   else (Inr False, m))
             else if wm_shutting_down m \<and> (\<exists>key\<in>set (map fst resolved). map_of (wm_targets m) key = None)
             then (Inl (RuntimeError ''shutting-down Weight Manager rejects new expert targets''), m)
             else
               (let previous = wm_targets m;
                    m1 = m\<lparr>wm_placement_generation := placement_generation, wm_targets := resolved\<rparr>
                in case fold drop_target (filter (\<lambda>key. map_of resolved key = None) (map fst previous)) ([], m1) of
                     (changes, m2) \<Rightarrow>
                       let m3 = fold keep_target (map fst resolved) m2
                       in (Inr True, emit changes (reset_progress placement_generation resolved m3)))))"

definition begin_shutdown :: "'v weight_manager \<Rightarrow> (exn + bool) \<times> 'v weight_manager" where
  "begin_shutdown m =
     (if wm_closed m then (Inl (RuntimeError ''Weight Manager is closed''), m)
      else if wm_shutting_down m then (Inr False, m)
      else (Inr True, fold cancel_task (map snd (wm_load_tasks m)) (m\<lparr>wm_shutting_down := True\<rparr>)))"

definition wm_snapshot :: "'v weight_manager \<Rightarrow> int \<times> expert_state list" where
  "wm_snapshot m = (wm_placement_generation m,
     map (\<lambda>key. the (map_of (wm_states m) key)) (sort (map fst (wm_states m))))"

definition wm_stats :: "'v weight_manager \<Rightarrow> weight_manager_stats" where
  "wm_stats m = \<lparr>ms_placement_generation = wm_placement_generation m, ms_assigned_experts = length (wm_targets m),
     ms_loading_experts = length (wm_load_tasks m), ms_ready_experts = length (wm_ready_keys m),
     ms_loaded_device_bytes = wm_loaded_device_bytes m,
     ms_device_weight_capacity_bytes = wm_device_weight_capacity_bytes m, ms_max_experts = wm_max_experts m\<rparr>"

section \<open>Ending a load\<close>

partial_function (option) advance_progress :: "int \<Rightarrow> int \<Rightarrow> int \<Rightarrow> int option" where
  "advance_progress step ready_count next_count =
     (if next_count \<le> ready_count then advance_progress step ready_count (next_count + step) else Some next_count)"

definition log_progress :: "'v weight_manager \<Rightarrow> 'v weight_manager option" where
  "log_progress m =
     (if wm_logged_placement_generation m \<noteq> wm_placement_generation m then Some m
      else
        let assigned_count = int (length (wm_targets m));
            ready_count = int (length (filter (\<lambda>key. map_of (wm_targets m) key \<noteq> None) (wm_ready_keys m)))
        in if assigned_count > 0 \<and> ready_count = assigned_count \<and> \<not> wm_load_completion_logged m
           then Some (m\<lparr>wm_load_completion_logged := True\<rparr>)
           else if ready_count \<ge> wm_next_load_progress_count m
           then (case advance_progress (wm_load_progress_step m) ready_count (wm_next_load_progress_count m) of
                   None \<Rightarrow> None
                 | Some n \<Rightarrow> Some (m\<lparr>wm_next_load_progress_count := n\<rparr>))
           else Some m)"

text \<open>\<open>None\<close> when the progress loop does not end. \<open>publish\<close> raising leaves the object to be released.\<close>

definition finish_ready :: "weight_key \<Rightarrow> 'v \<Rightarrow> 'v weight_manager \<Rightarrow> 'v weight_manager option" where
  "finish_ready key v m =
     (if wm_closed m \<or> map_of (wm_targets m) key = None \<or> key \<in> set (wm_ready_keys m)
      then Some (release_ready_weight v m)
      else if wm_loaded_device_bytes m + wm_ready_weight_bytes m > wm_device_weight_capacity_bytes m
      then (case set_state_locked key (failed_state key (WeightLoadFailure DRAM PLACE WL_INTERNAL False
                    ''ready expert exceeds the derived device weight capacity'')) m of
              (changes, m1) \<Rightarrow> Some (emit changes (release_ready_weight v m1)))
      else (case rt_publish (fst key) (snd key) (Some v) (rs_table (wm_ready m)) of
              (Inl _, _) \<Rightarrow> Some (release_ready_weight v m)
            | (Inr _, _) \<Rightarrow>
                let m1 = m\<lparr>wm_ready := ready_apply (Publish (fst key) (snd key) (Some v)) (wm_ready m),
                           wm_ready_keys := wm_ready_keys m @ [key],
                           wm_loaded_device_bytes := wm_loaded_device_bytes m + wm_ready_weight_bytes m\<rparr>
                in (case set_state_locked key (ready_state key) m1 of
                      (changes, m2) \<Rightarrow>
                        (case log_progress m2 of
                           None \<Rightarrow> None
                         | Some m3 \<Rightarrow> Some (emit_device_bytes (wm_loaded_device_bytes m1) (emit changes m3))))))"

definition finish_failure :: "weight_key \<Rightarrow> weight_load_failure \<Rightarrow> 'v weight_manager \<Rightarrow> 'v weight_manager" where
  "finish_failure key failure m =
     (if wm_closed m \<or> map_of (wm_targets m) key = None \<or> key \<in> set (wm_ready_keys m) then m
      else (case set_state_locked key (failed_state key failure) m of (changes, m1) \<Rightarrow> emit changes m1))"

definition set_fatal :: "weight_key \<Rightarrow> string \<Rightarrow> string \<Rightarrow> 'v weight_manager \<Rightarrow> 'v weight_manager" where
  "set_fatal key reason diagnostic m =
     (if wm_fatal_error m = None
      then m\<lparr>wm_fatal_error := Some \<lparr>fe_key = key, fe_reason = reason, fe_diagnostic = diagnostic\<rparr>\<rparr> else m)"

definition load_ended :: "nat \<Rightarrow> weight_key \<Rightarrow> bool \<Rightarrow> 'v weight_manager \<Rightarrow> 'v weight_manager" where
  "load_ended i key cancelled m =
     (let m1 = (if map_of (wm_load_tasks m) key = Some i
                then m\<lparr>wm_load_tasks := AList.delete key (wm_load_tasks m)\<rparr> else m)
      in if cancelled \<and> \<not> wm_closed m1 \<and> \<not> wm_shutting_down m1 \<and>
            map_of (wm_targets m1) key \<noteq> None \<and> key \<notin> set (wm_ready_keys m1)
         then start_load_locked key (m1\<lparr>wm_states := AList.delete key (wm_states m1)\<rparr>)
         else m1)"

definition source_failure :: "weight_load_failed \<Rightarrow> string \<Rightarrow> weight_load_failure" where
  "source_failure error str =
     (let f = last (wf_failures error)
      in WeightLoadFailure (lf_source f) (lf_stage f) (lf_code f) (wf_retryable error) str)"

section \<open>The load task\<close>

text \<open>
  What the task finds when it resumes: the loader's answer (\<open>Load_Raised\<close> is any exception other than
  \<open>WeightLoadFailed\<close>) and the conversion's.
\<close>

datatype 'v load_event =
    Go
  | Load_Failed weight_load_failed string
  | Load_Raised
  | Loaded weight_source
  | Converted 'v
  | Convert_Fatal string string
  | Convert_Unsupported string
  | Convert_Raised string

definition set_phase :: "nat \<Rightarrow> 'v load_phase \<Rightarrow> 'v weight_manager \<Rightarrow> 'v weight_manager" where
  "set_phase i p m = m\<lparr>wm_tasks := (wm_tasks m)[i := (wm_tasks m ! i)\<lparr>lt_phase := p\<rparr>]\<rparr>"

definition clear_cancel :: "nat \<Rightarrow> 'v weight_manager \<Rightarrow> 'v weight_manager" where
  "clear_cancel i m = m\<lparr>wm_tasks := (wm_tasks m)[i := (wm_tasks m ! i)\<lparr>lt_cancel := False\<rparr>]\<rparr>"

text \<open>
  \<open>CancelledError\<close> at the point where the task is suspended. A task that never ran its first step ends
  without entering its \<open>try\<close>; at the lock of \<open>_load_ended\<close> the exception leaves the \<open>finally\<close> block.
\<close>

definition cancelled_phase :: "'v load_phase \<Rightarrow> 'v load_phase" where
  "cancelled_phase p =
     (case p of
        Created \<Rightarrow> Task_Done
      | Waiting \<Rightarrow> Ending True
      | Loading \<Rightarrow> Ending True
      | Converting src c \<Rightarrow> Converting src True
      | Failing f \<Rightarrow> Ending True
      | Setting_Fatal reason diagnostic \<Rightarrow> Ending True
      | Finishing v c \<Rightarrow> Finishing v True
      | Finished c \<Rightarrow> Finished True
      | Ending c \<Rightarrow> Task_Done
      | Task_Done \<Rightarrow> Task_Done)"

definition load_step ::
  "nat \<Rightarrow> weight_key \<Rightarrow> 'v load_phase \<Rightarrow> 'v load_event \<Rightarrow> 'v weight_manager \<Rightarrow> 'v weight_manager" where
  "load_step i key p event m =
     (case p of
        Created \<Rightarrow> set_phase i Waiting m
      | Waiting \<Rightarrow>
          if \<not> lock_free m then m
          else set_phase i (if map_of (wm_targets m) key = None then Ending False else Loading) m
      | Loading \<Rightarrow>
          (case event of
             Load_Failed error str \<Rightarrow> set_phase i (Failing (source_failure error str)) m
           | Load_Raised \<Rightarrow> set_phase i (Ending False) m
           | Loaded src \<Rightarrow> set_phase i (Converting src False) m
           | _ \<Rightarrow> m)
      | Converting src c \<Rightarrow>
          (case event of
             Converted v \<Rightarrow>
               (let m1 = m\<lparr>wm_made := wm_made m @ [v]\<rparr>
                in if c then set_phase i (Ending True) (release_ready_weight v m1)
                   else set_phase i (Finishing v False) m1)
           | Convert_Fatal reason diagnostic \<Rightarrow> set_phase i (Setting_Fatal reason diagnostic) m
           | Convert_Unsupported str \<Rightarrow> set_phase i (Failing (WeightLoadFailure src CONVERT WL_UNSUPPORTED False str)) m
           | Convert_Raised str \<Rightarrow> set_phase i (Failing (WeightLoadFailure src CONVERT WL_INTERNAL False str)) m
           | _ \<Rightarrow> m)
      | Failing f \<Rightarrow>
          if \<not> lock_free m then m
          else set_phase i (Ending False) (finish_failure key f m)
      | Setting_Fatal reason diagnostic \<Rightarrow>
          if \<not> lock_free m then m else set_phase i (Ending False) (set_fatal key reason diagnostic m)
      | Finishing v c \<Rightarrow> m
      | Finished c \<Rightarrow> set_phase i (Ending c) m
      | Ending c \<Rightarrow> if \<not> lock_free m then m else set_phase i Task_Done (load_ended i key c m)
      | Task_Done \<Rightarrow> m)"

definition load_resume :: "nat \<Rightarrow> 'v load_event \<Rightarrow> 'v weight_manager \<Rightarrow> 'v weight_manager" where
  "load_resume i event m =
     (if i < length (wm_tasks m)
      then let t = wm_tasks m ! i in
           if lt_cancel t then set_phase i (cancelled_phase (lt_phase t)) (clear_cancel i m)
           else load_step i (lt_key t) (lt_phase t) event m
      else m)"

text \<open>The inner task of \<open>_finish_ready_without_leaking_on_cancel\<close>.\<close>

definition inner_finish :: "nat \<Rightarrow> 'v weight_manager \<Rightarrow> 'v weight_manager" where
  "inner_finish i m =
     (if i < length (wm_tasks m) \<and> lock_free m
      then (case lt_phase (wm_tasks m ! i) of
              Finishing v c \<Rightarrow> (case finish_ready (lt_key (wm_tasks m ! i)) v m of
                                  None \<Rightarrow> m
                                | Some m1 \<Rightarrow> set_phase i (Finished c) m1)
            | _ \<Rightarrow> m)
      else m)"

section \<open>Removal\<close>

definition validate_placement_generation :: "int \<Rightarrow> exn + int" where
  "validate_placement_generation g = (if g \<le> 0 then Inl (ValueError ''placement_generation must be positive'') else Inr g)"

definition validate_weight_keys :: "'v weight_manager \<Rightarrow> weight_key list \<Rightarrow> exn + weight_key list" where
  "validate_weight_keys m keys =
     (if \<not> distinct keys then Inl (ValueError ''drained experts must not contain duplicates'')
      else if \<exists>key\<in>set keys. fst key \<ge> wm_num_layers m \<or> snd key \<ge> wm_experts_per_layer m
      then Inl (ValueError ''drained expert exceeds the configured model shape'')
      else Inr (sort keys))"

text \<open>\<open>remove_after_drain\<close> until it awaits the shared removal task, and its clean-up of a done task.\<close>

definition remove_join :: "int \<Rightarrow> weight_key list \<Rightarrow> bool \<Rightarrow> 'v weight_manager \<Rightarrow> (exn + removal_request) \<times> 'v weight_manager" where
  "remove_join placement_generation keys whole m =
     (case rbind (validate_placement_generation placement_generation) (\<lambda>g.
             rbind (validate_weight_keys m keys) (\<lambda>ks.
               Inr \<lparr>rq_placement_generation = g, rq_keys = ks, rq_whole_worker_shutdown = whole\<rparr>)) of
        Inl e \<Rightarrow> (Inl e, m)
      | Inr request \<Rightarrow>
          (case wm_removal m of
             None \<Rightarrow> (Inr request, m\<lparr>wm_removal := Some (request, Removal_Created)\<rparr>)
           | Some (active, _) \<Rightarrow> (Inr active, m)))"

definition remove_leave :: "'v weight_manager \<Rightarrow> 'v weight_manager" where
  "remove_leave m = (case wm_removal m of Some (_, Removal_Done _) \<Rightarrow> m\<lparr>wm_removal := None\<rparr> | _ \<Rightarrow> m)"

definition begin_withdrawals :: "weight_key list \<Rightarrow> 'v ready_sys \<Rightarrow> exn option \<times> 'v ready_sys" where
  "begin_withdrawals keys r =
     fold (\<lambda>key (err, r). case err of Some e \<Rightarrow> (Some e, r)
        | None \<Rightarrow> (case rt_begin_withdrawal (fst key) (snd key) (rs_table r) of
                     (Inl e, _) \<Rightarrow> (Some e, r)
                   | (Inr _, _) \<Rightarrow> (None, ready_apply (Begin_Withdrawal (fst key) (snd key)) r))) keys (None, r)"

definition remove_start :: "'v weight_manager \<Rightarrow> 'v weight_manager" where
  "remove_start m =
     (case wm_removal m of
        Some (request, Removal_Created) \<Rightarrow>
          (let finish = (\<lambda>r. m\<lparr>wm_removal := Some (request, Removal_Done r)\<rparr>) in
           if wm_closed m then finish (Inl (RuntimeError ''Weight Manager is closed''))
           else if rq_placement_generation request < wm_placement_generation m then finish (Inr False)
           else if rq_placement_generation request > wm_placement_generation m
           then finish (Inl (ValueError ''drain generation is newer than current placement''))
           else if filter (\<lambda>key. map_of (wm_targets m) key \<noteq> None) (rq_keys request) \<noteq> [] \<and> \<not> rq_whole_worker_shutdown request
           then finish (Inl (ValueError ''cannot remove an expert in the current target list''))
           else
             (let ready_keys = filter (\<lambda>key. key \<in> set (wm_ready_keys m)) (rq_keys request)
              in case begin_withdrawals ready_keys (wm_ready m) of
                   (Some e, r) \<Rightarrow> m\<lparr>wm_ready := r, wm_removal := Some (request, Removal_Done (Inl e))\<rparr>
                 | (None, r) \<Rightarrow> m\<lparr>wm_ready := r, wm_removal := Some (request, Removal_Holding [] ready_keys)\<rparr>))
      | _ \<Rightarrow> m)"

text \<open>
  \<open>_finish_withdrawal_and_release\<close> in the conversion executor: the object when the users are gone,
  \<open>Inr None\<close> while the thread waits for them.
\<close>

definition finish_withdrawal :: "weight_key \<Rightarrow> 'v ready_sys \<Rightarrow> (exn + 'v option) \<times> 'v ready_sys" where
  "finish_withdrawal key r =
     (case rt_finish_enter (fst key) (snd key) None (rs_table r) of
        Inl e \<Rightarrow> (Inl e, r)
      | Inr a \<Rightarrow> (fst (rt_finish_pass (fst key) (snd key) a False (rs_table r)),
                  ready_run [Finish_Enter (fst key) (snd key) None, Finish_Pass (length (rs_withdrawals r)) False] r))"

definition remove_finish :: "'v weight_manager \<Rightarrow> 'v weight_manager" where
  "remove_finish m =
     (case wm_removal m of
        Some (request, Removal_Holding done (key # rest)) \<Rightarrow>
          (case finish_withdrawal key (wm_ready m) of
             (Inl e, r) \<Rightarrow> m\<lparr>wm_ready := r, wm_removal := Some (request, Removal_Done (Inl e))\<rparr>
           | (Inr None, r) \<Rightarrow> m\<lparr>wm_ready := r\<rparr>
           | (Inr (Some v), r) \<Rightarrow>
               (release_ready_weight v m)
                 \<lparr>wm_ready := r, wm_ready_keys := remove1 key (wm_ready_keys m),
                  wm_loaded_device_bytes := wm_loaded_device_bytes m - wm_ready_weight_bytes m,
                  wm_removal := Some (request, Removal_Holding (done @ [key]) rest)\<rparr>)
      | _ \<Rightarrow> m)"

definition mark_removed :: "weight_key \<Rightarrow> expert_state_change list \<times> 'v weight_manager \<Rightarrow> expert_state_change list \<times> 'v weight_manager" where
  "mark_removed key cm =
     (case cm of (changes, m) \<Rightarrow>
        (case set_state_locked key (removed_state key) m of (change, m1) \<Rightarrow> (changes @ change, m1)))"

definition remove_end :: "'v weight_manager \<Rightarrow> 'v weight_manager" where
  "remove_end m =
     (case wm_removal m of
        Some (request, Removal_Holding done []) \<Rightarrow>
          (case fold mark_removed (rq_keys request) ([], m) of
             (changes, m1) \<Rightarrow>
               emit_device_bytes (wm_loaded_device_bytes m) (emit changes
                 (m1\<lparr>wm_removal := Some (request, Removal_Done (Inr True))\<rparr>)))
      | _ \<Rightarrow> m)"

section \<open>Closing\<close>

definition close_begin :: "'v weight_manager \<Rightarrow> 'v weight_manager" where
  "close_begin m =
     (if wm_closed m then m
      else fold cancel_task (map snd (wm_load_tasks m))
             (m\<lparr>wm_closed := True, wm_close := Close_Gathering (map snd (wm_load_tasks m))\<rparr>))"

definition close_gathered :: "'v weight_manager \<Rightarrow> 'v weight_manager" where
  "close_gathered m =
     (case wm_close m of
        Close_Gathering ids \<Rightarrow>
          (if \<forall>i\<in>set ids. lt_phase (wm_tasks m ! i) = Task_Done
           then m\<lparr>wm_close := Close_Withdrawing (sort (wm_ready_keys m)) False\<rparr> else m)
      | _ \<Rightarrow> m)"

definition close_step :: "'v weight_manager \<Rightarrow> 'v weight_manager" where
  "close_step m =
     (case wm_close m of
        Close_Withdrawing (key # rest) False \<Rightarrow>
          (case rt_begin_withdrawal (fst key) (snd key) (rs_table (wm_ready m)) of
             (Inl _, _) \<Rightarrow> m\<lparr>wm_close := Close_Ended\<rparr>
           | (Inr _, _) \<Rightarrow> m\<lparr>wm_ready := ready_apply (Begin_Withdrawal (fst key) (snd key)) (wm_ready m),
                              wm_close := Close_Withdrawing (key # rest) True\<rparr>)
      | Close_Withdrawing (key # rest) True \<Rightarrow>
          (case finish_withdrawal key (wm_ready m) of
             (Inl _, r) \<Rightarrow> m\<lparr>wm_ready := r, wm_close := Close_Ended\<rparr>
           | (Inr None, r) \<Rightarrow> m\<lparr>wm_ready := r\<rparr>
           | (Inr (Some v), r) \<Rightarrow>
               (release_ready_weight v m)\<lparr>wm_ready := r, wm_close := Close_Withdrawing rest False\<rparr>)
      | Close_Withdrawing [] _ \<Rightarrow>
          emit_device_bytes 0 (m\<lparr>wm_ready_keys := [], wm_loaded_device_bytes := 0, wm_close := Close_Ended\<rparr>)
      | _ \<Rightarrow> m)"
section \<open>Sequences of operations\<close>

text \<open>
  The steps of every caller and task. A step that needs the lock while the removal task holds it does not
  happen yet. Targets are constructed \<open>TargetExpert\<close> objects; the executor's leases on ready weights are
  acquisitions and releases of the ready table.
\<close>

datatype 'v wm_op =
    Op_Start
  | Op_Apply int "target_expert list"
  | Op_Shutdown
  | Op_Resume nat "'v load_event"
  | Op_Inner nat
  | Op_Remove_Join int "weight_key list" bool
  | Op_Remove_Leave
  | Op_Remove_Start
  | Op_Remove_Finish
  | Op_Remove_End
  | Op_Close
  | Op_Gathered
  | Op_Close_Step
  | Op_Acquire int "int list"
  | Op_Release nat

fun wm_apply :: "'v wm_op \<Rightarrow> 'v weight_manager \<Rightarrow> 'v weight_manager" where
  "wm_apply Op_Start m = snd (wm_start m)"
| "wm_apply (Op_Apply g targets) m =
     (if lock_free m \<and> (\<forall>t\<in>set targets. target_expert_post_init t = None) then snd (apply_targets g targets m) else m)"
| "wm_apply Op_Shutdown m = (if lock_free m then snd (begin_shutdown m) else m)"
| "wm_apply (Op_Resume i event) m = load_resume i event m"
| "wm_apply (Op_Inner i) m = inner_finish i m"
| "wm_apply (Op_Remove_Join g keys whole) m = snd (remove_join g keys whole m)"
| "wm_apply Op_Remove_Leave m = remove_leave m"
| "wm_apply Op_Remove_Start m = remove_start m"
| "wm_apply Op_Remove_Finish m = remove_finish m"
| "wm_apply Op_Remove_End m = remove_end m"
| "wm_apply Op_Close m = (if lock_free m then close_begin m else m)"
| "wm_apply Op_Gathered m = (if lock_free m then close_gathered m else m)"
| "wm_apply Op_Close_Step m = (if lock_free m then close_step m else m)"
| "wm_apply (Op_Acquire l es) m = m\<lparr>wm_ready := ready_apply (Acquire_Many l es) (wm_ready m)\<rparr>"
| "wm_apply (Op_Release i) m = m\<lparr>wm_ready := ready_apply (Close_Lease i) (wm_ready m)\<rparr>"

definition wm_run :: "'v wm_op list \<Rightarrow> 'v weight_manager \<Rightarrow> 'v weight_manager" where
  "wm_run ops m = fold wm_apply ops m"

end
