(* ===== verification/Manager_Invariants.thy ===== *)
theory Manager_Invariants
  imports Weight_Manager
begin

text \<open>
  What every sequence of operations keeps of the weight manager: device memory accounting, agreement of
  the reported states with the ready table, and the ownership of every object the adapter made. The
  manager sees the ready table only through \<open>ready_vals\<close>, the object at each position.
\<close>

section \<open>The ready table as a partial map\<close>

definition ready_vals :: "'v ready_sys \<Rightarrow> weight_key \<Rightarrow> 'v option" where
  "ready_vals r k = map_option (\<lambda>a. re_value (rt_entry (rs_table r) a)) (rt_at (rs_table r) k)"

definition same_shape :: "'v ready_sys \<Rightarrow> 'v ready_sys \<Rightarrow> bool" where
  "same_shape r r' \<longleftrightarrow> rt_num_layers (rs_table r') = rt_num_layers (rs_table r) \<and>
     rt_experts_per_layer (rs_table r') = rt_experts_per_layer (rs_table r)"

lemma ready_vals_None [simp]: "ready_vals r k = None \<longleftrightarrow> rt_at (rs_table r) k = None"
  by (simp add: ready_vals_def)

lemma ready_vals_pos: "ready_vals r k \<noteq> None \<Longrightarrow> rt_pos (rs_table r) k"
  by (simp add: rt_at_def del: rt_get_at split: if_splits)

lemma publish_free:
  assumes inv: "ready_inv r" and pos: "rt_pos (rs_table r) (l, e)" and free: "ready_vals r (l, e) = None"
  shows "fst (rt_publish l e (Some v) (rs_table r)) = Inr ()"
    and "ready_vals (ready_apply (Publish l e (Some v)) r) = (ready_vals r)((l, e) \<mapsto> v)"
    and "same_shape r (ready_apply (Publish l e (Some v)) r)"
proof -
  define t where "t = rs_table r"
  have D: "table_ok t" using ready_inv_D(1) [OF inv] by (simp add: t_def)
  have at: "rt_at (rt_set l e x t) k = (if k = (l, e) then x else rt_at t k)" for x k
    using rt_at_set [OF table_ok_D(1) [OF D]] pos by (simp add: t_def)
  have old: "rt_at t k = Some a \<Longrightarrow> a < length (rt_store t)" for k a by (rule table_ok_D(2) [OF D])
  have p: "rt_publish l e (Some v) t = (Inr (), (rt_set l e (Some (length (rt_store t))) t)
      \<lparr>rt_store := rt_store t @ [\<lparr>re_value = v, re_accepting = True, re_use_count = 0\<rparr>]\<rparr>)"
    using pos free by (simp add: rt_publish_def t_def)
  then show "fst (rt_publish l e (Some v) (rs_table r)) = Inr ()" by (simp add: t_def)
  show "ready_vals (ready_apply (Publish l e (Some v)) r) = (ready_vals r)((l, e) \<mapsto> v)"
  proof
    fix k show "ready_vals (ready_apply (Publish l e (Some v)) r) k = ((ready_vals r)((l, e) \<mapsto> v)) k"
      using p old [of k] at [of _ k] unfolding ready_vals_def
      by (cases "rt_at t k") (auto simp: rt_entry_def nth_append t_def [symmetric])
  qed
  show "same_shape r (ready_apply (Publish l e (Some v)) r)"
    using p by (simp add: same_shape_def t_def)
qed

lemma begin_present:
  assumes inv: "ready_inv r" and present: "ready_vals r (l, e) \<noteq> None"
  shows "fst (rt_begin_withdrawal l e (rs_table r)) = Inr ()"
    and "ready_vals (ready_apply (Begin_Withdrawal l e) r) = ready_vals r"
    and "same_shape r (ready_apply (Begin_Withdrawal l e) r)"
    and "withdrawn (ready_apply (Begin_Withdrawal l e) r) (l, e)"
proof -
  have pos: "rt_pos (rs_table r) (l, e)" by (rule ready_vals_pos [OF present])
  obtain a where a: "rt_at (rs_table r) (l, e) = Some a" using present by auto
  have len: "a < length (rt_store (rs_table r))" using table_ok_D(2) [OF ready_inv_D(1) [OF inv] a] .
  have b: "rt_begin_withdrawal l e (rs_table r) = (Inr (), rt_modify a (\<lambda>e. e\<lparr>re_accepting := False\<rparr>) (rs_table r))"
    using pos a by (simp add: rt_begin_withdrawal_def)
  then show "fst (rt_begin_withdrawal l e (rs_table r)) = Inr ()" by simp
  show "ready_vals (ready_apply (Begin_Withdrawal l e) r) = ready_vals r"
    using b len by (auto simp: ready_vals_def fun_eq_iff intro!: option.map_cong)
  show "same_shape r (ready_apply (Begin_Withdrawal l e) r)" using b by (simp add: same_shape_def)
  show "withdrawn (ready_apply (Begin_Withdrawal l e) r) (l, e)"
    using b a len by (simp add: withdrawn_def rt_unavailable_def)
qed

text \<open>A withdrawal that was begun either still waits for users or takes exactly its own object.\<close>

lemma finish_present:
  assumes inv: "ready_inv r" and present: "ready_vals r (l, e) = Some v" and w: "withdrawn r (l, e)"
  obtains (waits) r' where "finish_withdrawal (l, e) r = (Inr None, r')" and "ready_inv r'" and "same_shape r r'"
      and "ready_vals r' = ready_vals r" and "\<And>k. withdrawn r k \<Longrightarrow> withdrawn r' k"
  | (taken) r' where "finish_withdrawal (l, e) r = (Inr (Some v), r')" and "ready_inv r'" and "same_shape r r'"
      and "ready_vals r' = (ready_vals r)((l, e) := None)" and "\<And>k. withdrawn r k \<Longrightarrow> withdrawn r' k"
proof -
  have pos: "rt_pos (rs_table r) (l, e)" using present by (intro ready_vals_pos) simp
  obtain a where a: "rt_at (rs_table r) (l, e) = Some a" and v: "v = re_value (rt_entry (rs_table r) a)"
    using present by (auto simp: ready_vals_def)
  have acc: "\<not> re_accepting (rt_entry (rs_table r) a)" using w a by (simp add: withdrawn_def rt_unavailable_def)
  have enter: "rt_finish_enter l e None (rs_table r) = Inr a" using pos a acc by (simp add: rt_finish_enter_def)
  define ops :: "'a ready_op list" where "ops = [Finish_Enter l e None, Finish_Pass (length (rs_withdrawals r)) False]"
  have fin: "finish_withdrawal (l, e) r = (fst (rt_finish_pass l e a False (rs_table r)), ready_run ops r)"
    by (simp add: finish_withdrawal_def enter ops_def)
  have inv': "ready_inv (ready_run ops r)" by (rule ready_run_inv [OF inv])
  have w': "withdrawn (ready_run ops r) k" if "withdrawn r k" for k
    unfolding ready_run_def using withdrawal.use_decreases [OF inv that, of ops] by (simp add: ops_def republishes_def)
  have tab: "rs_table (ready_run ops r) = snd (rt_finish_pass l e a False (rs_table r))"
    by (simp add: ops_def ready_run_def enter nth_append)
  have at: "rt_at (rt_set l e None (rs_table r)) k = (if k = (l, e) then None else rt_at (rs_table r) k)" for k
    by (rule rt_at_set [OF table_ok_D(1) [OF ready_inv_D(1) [OF inv]] pos])
  show ?thesis
  proof (cases "re_use_count (rt_entry (rs_table r) a) = 0")
    case True
    then have "rt_finish_pass l e a False (rs_table r) = (Inr (Some v), rt_set l e None (rs_table r))"
      using pos a v by (simp add: rt_finish_pass_def)
    with taken [OF _ inv'] fin tab w' at show ?thesis
      by (simp add: same_shape_def ready_vals_def fun_eq_iff)
  next
    case False
    then have "rt_finish_pass l e a False (rs_table r) = (Inr None, rs_table r)" by (simp add: rt_finish_pass_def)
    with waits [OF _ inv'] fin tab w' show ?thesis by (simp add: same_shape_def ready_vals_def fun_eq_iff)
  qed
qed

lemma lease_ops_keep:
  assumes inv: "ready_inv r" and op: "(\<exists>l es. op = Acquire_Many l es) \<or> (\<exists>i. op = Close_Lease i)"
  shows "ready_vals (ready_apply op r) = ready_vals r" and "same_shape r (ready_apply op r)"
    and "withdrawn r k \<Longrightarrow> withdrawn (ready_apply op r) k"
proof -
  have bumped: "ready_vals (r\<lparr>rs_table := fold (bump d) as (rs_table r), rs_leases := ls\<rparr>) = ready_vals r \<and>
      same_shape r (r\<lparr>rs_table := fold (bump d) as (rs_table r), rs_leases := ls\<rparr>)"
    if "\<forall>a\<in>set as. a < length (rt_store (rs_table r))" for d "as" ls
    using fold_bump_entry [OF that, of d] by (simp add: ready_vals_def same_shape_def fun_eq_iff)
  have *: "ready_vals (ready_apply op r) = ready_vals r \<and> same_shape r (ready_apply op r)"
    using op
  proof (elim disjE exE)
    fix l es assume op: "op = Acquire_Many l es"
    show ?thesis
    proof (cases rule: rt_acquire_cases [of l es "rs_table r"])
      case raised
      then show ?thesis by (simp add: op same_shape_def ready_vals_def)
    next
      case (retained "as")
      have "\<exists>e. rt_at (rs_table r) (l, e) = Some a" if "a \<in> set as" for a
        using that arg_cong [OF retained(2), of set] by (auto simp: image_iff) (metis imageI image_iff)
      then have "\<forall>a\<in>set as. a < length (rt_store (rs_table r))" using table_ok_D(2) [OF ready_inv_D(1) [OF inv]] by blast
      from bumped [OF this, where d = 1] show ?thesis using retained(4) by (simp add: op)
    qed
  next
    fix i assume op: "op = Close_Lease i"
    show ?thesis
    proof (cases "i < length (rs_leases r) \<and> \<not> rl_closed (rs_leases r ! i)")
      case True
      then have L: "rs_leases r ! i \<in> set (rs_leases r)" "\<not> rl_closed (rs_leases r ! i)" by auto
      have "\<forall>a\<in>set (rl_entries (rs_leases r ! i)). a < length (rt_store (rs_table r))" using ready_inv_D(4) [OF inv L(1)] by blast
      from bumped [OF this, where d = "-1"] show ?thesis using True rl_close_open [OF inv L] by (simp add: op)
    next
      case False
      then have "ready_apply op r = r" by (auto simp: op rl_close_def)
      then show ?thesis by (simp add: same_shape_def)
    qed
  qed
  from * show "ready_vals (ready_apply op r) = ready_vals r" "same_shape r (ready_apply op r)" by blast+
  show "withdrawn r k \<Longrightarrow> withdrawn (ready_apply op r) k"
    using withdrawal.gate_kept [OF inv, of k op] op by (auto simp: republishes_def)
qed
section \<open>What each helper touches\<close>

lemma cancel_task_touches: "\<exists>ts. cancel_task i m = m\<lparr>wm_tasks := ts\<rparr>"
proof (cases "i < length (wm_tasks m) \<and> lt_phase (wm_tasks m ! i) \<noteq> Task_Done")
  case False
  then have "cancel_task i m = m\<lparr>wm_tasks := wm_tasks m\<rparr>" unfolding cancel_task_def by (simp only: if_False) simp
  then show ?thesis by blast
qed (auto simp: cancel_task_def)

lemma cancel_tasks_touch: "\<exists>ts. fold cancel_task is m = m\<lparr>wm_tasks := ts\<rparr>"
proof (induction "is" arbitrary: m)
  case Nil
  have "m = m\<lparr>wm_tasks := wm_tasks m\<rparr>" by simp
  then show ?case by (metis fold_simps(1))
next
  case (Cons i "is")
  obtain ts where ts: "cancel_task i m = m\<lparr>wm_tasks := ts\<rparr>" using cancel_task_touches by blast
  obtain ts' where "fold cancel_task is (m\<lparr>wm_tasks := ts\<rparr>) = m\<lparr>wm_tasks := ts, wm_tasks := ts'\<rparr>" using Cons by blast
  with ts have "fold cancel_task (i # is) m = m\<lparr>wm_tasks := ts'\<rparr>" by simp
  then show ?case by blast
qed

lemma set_state_locked_touches: "\<exists>c st. set_state_locked k s m = (c, m\<lparr>wm_states := st\<rparr>) \<and> map_of st = (map_of (wm_states m))(k \<mapsto> s)"
proof (cases "map_of (wm_states m) k = Some s")
  case True
  then have "set_state_locked k s m = ([], m\<lparr>wm_states := wm_states m\<rparr>)" by (simp add: set_state_locked_def)
  with True show ?thesis by (metis map_upd_triv)
next
  case False
  then show ?thesis unfolding set_state_locked_def
    by (intro exI [of _ "AList.update k s (wm_states m)"] exI conjI) (simp_all only: if_False map_of_update)
qed

text \<open>A loop over keys that changes tasks and states only, and states only at its keys, to \<open>REMOVED\<close> or nothing.\<close>

lemma drop_target_touches:
  "\<exists>c' ts st. drop_target k (c, m) = (c', m\<lparr>wm_tasks := ts, wm_states := st\<rparr>) \<and>
     map_of st = (if k \<in> set (wm_ready_keys m) then map_of (wm_states m) else (map_of (wm_states m))(k \<mapsto> removed_state k))"
proof -
  obtain ts where ts: "(case map_of (wm_load_tasks m) k of Some i \<Rightarrow> cancel_task i m | None \<Rightarrow> m) = m\<lparr>wm_tasks := ts\<rparr>"
  proof (cases "map_of (wm_load_tasks m) k")
    case None
    then show ?thesis using that [of "wm_tasks m"] by simp
  next
    case (Some i)
    then show ?thesis using cancel_task_touches [of i m] that by auto
  qed
  obtain d st where st: "set_state_locked k (removed_state k) (m\<lparr>wm_tasks := ts\<rparr>) = (d, m\<lparr>wm_tasks := ts, wm_states := st\<rparr>)"
    "map_of st = (map_of (wm_states m))(k \<mapsto> removed_state k)"
    using set_state_locked_touches [of k "removed_state k" "m\<lparr>wm_tasks := ts\<rparr>"] by auto
  show ?thesis
  proof (cases "k \<in> set (wm_ready_keys m)")
    case True
    then have "drop_target k (c, m) = (c, m\<lparr>wm_tasks := ts, wm_states := wm_states m\<rparr>)" by (simp add: drop_target_def ts Let_def)
    with True show ?thesis by (intro exI conjI) (assumption, simp)
  next
    case False
    then have "drop_target k (c, m) = (c @ d, m\<lparr>wm_tasks := ts, wm_states := st\<rparr>)" by (simp add: drop_target_def ts Let_def st)
    with False st(2) show ?thesis by (intro exI conjI) (assumption, simp)
  qed
qed

lemma drop_targets_touch:
  "\<exists>c' ts st. fold drop_target ks (c, m) = (c', m\<lparr>wm_tasks := ts, wm_states := st\<rparr>) \<and>
     (\<forall>k. map_of st k = (if k \<in> set ks \<and> k \<notin> set (wm_ready_keys m) then Some (removed_state k) else map_of (wm_states m) k))"
proof (induction ks arbitrary: c m)
  case Nil
  have "m = m\<lparr>wm_tasks := wm_tasks m, wm_states := wm_states m\<rparr>" by simp
  then show ?case by (metis empty_iff empty_set fold_simps(1))
next
  case (Cons k ks)
  obtain c1 ts st where 1: "drop_target k (c, m) = (c1, m\<lparr>wm_tasks := ts, wm_states := st\<rparr>)"
    "map_of st = (if k \<in> set (wm_ready_keys m) then map_of (wm_states m) else (map_of (wm_states m))(k \<mapsto> removed_state k))"
    using drop_target_touches by blast
  obtain c2 ts' st' where 2: "fold drop_target ks (c1, m\<lparr>wm_tasks := ts, wm_states := st\<rparr>) =
      (c2, m\<lparr>wm_tasks := ts, wm_states := st, wm_tasks := ts', wm_states := st'\<rparr>)"
    "\<And>k. map_of st' k = (if k \<in> set ks \<and> k \<notin> set (wm_ready_keys m) then Some (removed_state k) else map_of st k)"
    using Cons [of c1 "m\<lparr>wm_tasks := ts, wm_states := st\<rparr>"] by (auto simp del: split_paired_All)
  have "fold drop_target (k # ks) (c, m) = (c2, m\<lparr>wm_tasks := ts', wm_states := st'\<rparr>)" using 1(1) 2(1) by simp
  moreover have "map_of st' x = (if x \<in> set (k # ks) \<and> x \<notin> set (wm_ready_keys m) then Some (removed_state x) else map_of (wm_states m) x)" for x
    using 2(2) [of x] 1(2) by simp
  ultimately show ?case by blast
qed

lemma keep_target_touches:
  "\<exists>ts lt. keep_target k m = m\<lparr>wm_tasks := ts, wm_load_tasks := lt,
     wm_states := (if k \<in> set (wm_ready_keys m) then wm_states m else AList.delete k (wm_states m))\<rparr>"
proof (cases "k \<in> set (wm_ready_keys m) \<or> map_of (wm_load_tasks m) k \<noteq> None \<or> wm_shutting_down m")
  case True
  then have "keep_target k m = m\<lparr>wm_tasks := wm_tasks m, wm_load_tasks := wm_load_tasks m,
     wm_states := (if k \<in> set (wm_ready_keys m) then wm_states m else AList.delete k (wm_states m))\<rparr>"
    by (auto simp: keep_target_def)
  then show ?thesis by blast
next
  case False
  then have "keep_target k m = m\<lparr>wm_tasks := wm_tasks m @ [\<lparr>lt_key = k, lt_phase = Created, lt_cancel = False\<rparr>],
     wm_load_tasks := AList.update k (length (wm_tasks m)) (wm_load_tasks m),
     wm_states := (if k \<in> set (wm_ready_keys m) then wm_states m else AList.delete k (wm_states m))\<rparr>"
    by (simp add: keep_target_def start_load_locked_def)
  then show ?thesis by blast
qed

lemma keep_targets_touch:
  "\<exists>ts lt st. fold keep_target ks m = m\<lparr>wm_tasks := ts, wm_load_tasks := lt, wm_states := st\<rparr> \<and>
     (\<forall>k. map_of st k = (if k \<in> set ks \<and> k \<notin> set (wm_ready_keys m) then None else map_of (wm_states m) k))"
proof (induction ks arbitrary: m)
  case Nil
  have "m = m\<lparr>wm_tasks := wm_tasks m, wm_load_tasks := wm_load_tasks m, wm_states := wm_states m\<rparr>" by simp
  then show ?case by (metis empty_iff empty_set fold_simps(1))
next
  case (Cons k ks)
  obtain ts lt where 1: "keep_target k m = m\<lparr>wm_tasks := ts, wm_load_tasks := lt,
     wm_states := (if k \<in> set (wm_ready_keys m) then wm_states m else AList.delete k (wm_states m))\<rparr>"
    using keep_target_touches by blast
  obtain ts' lt' st' where 2: "fold keep_target ks (keep_target k m) = (keep_target k m)\<lparr>wm_tasks := ts', wm_load_tasks := lt', wm_states := st'\<rparr>"
    "\<And>x. map_of st' x = (if x \<in> set ks \<and> x \<notin> set (wm_ready_keys (keep_target k m)) then None else map_of (wm_states (keep_target k m)) x)"
    using Cons [of "keep_target k m"] by (auto simp del: split_paired_All)
  have "fold keep_target (k # ks) m = m\<lparr>wm_tasks := ts', wm_load_tasks := lt', wm_states := st'\<rparr>" using 1 2(1) by simp
  moreover have "map_of st' x = (if x \<in> set (k # ks) \<and> x \<notin> set (wm_ready_keys m) then None else map_of (wm_states m) x)" for x
    using 2(2) [of x] by (simp add: 1)
  ultimately show ?case by blast
qed

lemma mark_removed_touches:
  "\<exists>c' st. fold mark_removed ks (c, m) = (c', m\<lparr>wm_states := st\<rparr>) \<and>
     (\<forall>k. map_of st k = (if k \<in> set ks then Some (removed_state k) else map_of (wm_states m) k))"
proof (induction ks arbitrary: c m)
  case Nil
  have "m = m\<lparr>wm_states := wm_states m\<rparr>" by simp
  then show ?case by (metis empty_iff empty_set fold_simps(1))
next
  case (Cons k ks)
  obtain d st where 1: "set_state_locked k (removed_state k) m = (d, m\<lparr>wm_states := st\<rparr>)"
    "map_of st = (map_of (wm_states m))(k \<mapsto> removed_state k)" using set_state_locked_touches by blast
  obtain c2 st' where 2: "fold mark_removed ks (c @ d, m\<lparr>wm_states := st\<rparr>) = (c2, m\<lparr>wm_states := st, wm_states := st'\<rparr>)"
    "\<And>k. map_of st' k = (if k \<in> set ks then Some (removed_state k) else map_of st k)"
    using Cons [of "c @ d" "m\<lparr>wm_states := st\<rparr>"] by (auto simp del: split_paired_All)
  have "fold mark_removed (k # ks) (c, m) = (c2, m\<lparr>wm_states := st'\<rparr>)" using 1(1) 2(1) by (simp add: mark_removed_def)
  moreover have "map_of st' x = (if x \<in> set (k # ks) then Some (removed_state x) else map_of (wm_states m) x)" for x
    using 2(2) [of x] 1(2) by simp
  ultimately show ?case by blast
qed
section \<open>Device memory and the ready table\<close>

text \<open>The keys whose objects are in the table: all ready keys, except while closing withdraws them.\<close>

definition live_of :: "close_phase \<Rightarrow> weight_key list \<Rightarrow> weight_key list" where
  "live_of c ready_keys = (case c of Close_Withdrawing rest _ \<Rightarrow> rest | Close_Ended \<Rightarrow> [] | _ \<Rightarrow> ready_keys)"

abbreviation live_keys :: "'v weight_manager \<Rightarrow> weight_key list" where
  "live_keys m \<equiv> live_of (wm_close m) (wm_ready_keys m)"

definition removal_ok :: "(removal_request \<times> removal_status) option \<Rightarrow> weight_key list \<Rightarrow> 'v ready_sys \<Rightarrow> bool" where
  "removal_ok removal ready_keys r \<longleftrightarrow>
     (case removal of
        None \<Rightarrow> True
      | Some (request, status) \<Rightarrow> distinct (rq_keys request) \<and>
          (case status of
             Removal_Holding done rest \<Rightarrow>
               distinct rest \<and> set rest \<subseteq> set ready_keys \<and> (\<forall>k\<in>set rest. withdrawn r k) \<and>
               set done \<inter> set ready_keys = {} \<and> set done \<union> set rest \<subseteq> set (rq_keys request) \<and>
               (\<forall>k\<in>set (rq_keys request). k \<in> set ready_keys \<longrightarrow> k \<in> set rest)
           | _ \<Rightarrow> True))"

definition closing_ok :: "close_phase \<Rightarrow> 'v ready_sys \<Rightarrow> bool" where
  "closing_ok c r \<longleftrightarrow>
     (case c of
        Close_Withdrawing rest begun \<Rightarrow> distinct rest \<and> (begun \<longrightarrow> rest \<noteq> [] \<and> withdrawn r (hd rest))
      | _ \<Rightarrow> True)"

definition table_agrees :: "'v weight_manager \<Rightarrow> bool" where
  "table_agrees m \<longleftrightarrow> ready_inv (wm_ready m) \<and> rt_num_layers (rs_table (wm_ready m)) = wm_num_layers m \<and>
     rt_experts_per_layer (rs_table (wm_ready m)) = wm_experts_per_layer m \<and>
     (\<forall>k. ready_vals (wm_ready m) k \<noteq> None \<longleftrightarrow> k \<in> set (live_keys m)) \<and>
     (\<forall>k. map_of (wm_targets m) k \<noteq> None \<longrightarrow> rt_pos (rs_table (wm_ready m)) k)"

definition bytes_ok :: "'v weight_manager \<Rightarrow> bool" where
  "bytes_ok m \<longleftrightarrow> 0 < wm_ready_weight_bytes m \<and> distinct (wm_ready_keys m) \<and>
     wm_loaded_device_bytes m = wm_ready_weight_bytes m * int (length (wm_ready_keys m)) \<and>
     wm_loaded_device_bytes m \<le> wm_device_weight_capacity_bytes m"

definition memory_inv :: "'v weight_manager \<Rightarrow> bool" where
  "memory_inv m \<longleftrightarrow> table_agrees m \<and> bytes_ok m \<and>
     removal_ok (wm_removal m) (wm_ready_keys m) (wm_ready m) \<and> closing_ok (wm_close m) (wm_ready m) \<and> 1 \<le> wm_load_progress_step m \<and>
     (wm_closed m \<longleftrightarrow> wm_close m \<noteq> Not_Closing) \<and> (wm_closed m \<longrightarrow> lock_free m)"

lemmas memory_parts = table_agrees_def bytes_ok_def lock_free_def

lemma memory_inv_frame [simp]:
  "memory_inv (m\<lparr>wm_tasks := ts\<rparr>) = memory_inv m" "memory_inv (m\<lparr>wm_load_tasks := lt\<rparr>) = memory_inv m"
  "memory_inv (m\<lparr>wm_states := st\<rparr>) = memory_inv m" "memory_inv (m\<lparr>wm_placement_generation := g\<rparr>) = memory_inv m"
  "memory_inv (m\<lparr>wm_logged_placement_generation := g\<rparr>) = memory_inv m"
  "memory_inv (m\<lparr>wm_next_load_progress_count := n\<rparr>) = memory_inv m"
  "memory_inv (m\<lparr>wm_load_completion_logged := b\<rparr>) = memory_inv m" "memory_inv (m\<lparr>wm_fatal_error := e\<rparr>) = memory_inv m"
  "memory_inv (m\<lparr>wm_started := b\<rparr>) = memory_inv m" "memory_inv (m\<lparr>wm_shutting_down := b\<rparr>) = memory_inv m"
  "memory_inv (m\<lparr>wm_emitted := cs\<rparr>) = memory_inv m" "memory_inv (m\<lparr>wm_emitted_bytes := bs\<rparr>) = memory_inv m"
  "memory_inv (m\<lparr>wm_made := vs\<rparr>) = memory_inv m" "memory_inv (m\<lparr>wm_released := vs\<rparr>) = memory_inv m"
  by (simp_all add: memory_inv_def memory_parts)

lemma memory_inv_helpers [simp]:
  "memory_inv (emit cs m) = memory_inv m" "memory_inv (emit_device_bytes n m) = memory_inv m"
  "memory_inv (release_ready_weight v m) = memory_inv m" "memory_inv (start_load_locked k m) = memory_inv m"
  "memory_inv (set_phase i p m) = memory_inv m" "memory_inv (clear_cancel i m) = memory_inv m"
  "memory_inv (set_fatal k reason d m) = memory_inv m"
  by (simp_all add: emit_def emit_device_bytes_def release_ready_weight_def start_load_locked_def set_phase_def clear_cancel_def set_fatal_def)

lemma memory_inv_cancel [simp]: "memory_inv (fold cancel_task is m) = memory_inv m"
  using cancel_tasks_touch [of "is" m] by auto

lemma memory_inv_set_state [simp]: "memory_inv (snd (set_state_locked k s m)) = memory_inv m"
  using set_state_locked_touches [of k s m] by auto

lemma memory_inv_load_ended [simp]: "memory_inv (load_ended i k c m) = memory_inv m"
  by (simp add: load_ended_def Let_def)

lemma memory_inv_finish_failure [simp]: "memory_inv (finish_failure k f m) = memory_inv m"
  using memory_inv_set_state [of k "failed_state k f" m] by (simp add: finish_failure_def case_prod_unfold)

lemma memory_inv_resume: "memory_inv m \<Longrightarrow> memory_inv (load_resume i event m)"
  by (simp add: load_resume_def load_step_def Let_def split: load_phase.splits load_event.splits)

lemma memory_inv_D:
  assumes "memory_inv m"
  shows "ready_inv (wm_ready m)" and "\<And>k. ready_vals (wm_ready m) k \<noteq> None \<longleftrightarrow> k \<in> set (live_keys m)"
    and "\<And>k. map_of (wm_targets m) k \<noteq> None \<Longrightarrow> rt_pos (rs_table (wm_ready m)) k"
    and "bytes_ok m" and "removal_ok (wm_removal m) (wm_ready_keys m) (wm_ready m)" and "closing_ok (wm_close m) (wm_ready m)"
    and "1 \<le> wm_load_progress_step m"
    and "wm_closed m \<longleftrightarrow> wm_close m \<noteq> Not_Closing" and "wm_closed m \<Longrightarrow> lock_free m"
  using assms unfolding memory_inv_def table_agrees_def by blast+

lemma table_agrees_change:
  assumes inv: "memory_inv m" and "ready_inv (wm_ready m')" and shape: "same_shape (wm_ready m) (wm_ready m')"
    and same: "wm_num_layers m' = wm_num_layers m" "wm_experts_per_layer m' = wm_experts_per_layer m" "wm_targets m' = wm_targets m"
    and "\<And>x. ready_vals (wm_ready m') x \<noteq> None \<longleftrightarrow> x \<in> set (live_keys m')"
  shows "table_agrees m'"
  unfolding table_agrees_def
proof (intro conjI allI impI)
  show "rt_num_layers (rs_table (wm_ready m')) = wm_num_layers m'" "rt_experts_per_layer (rs_table (wm_ready m')) = wm_experts_per_layer m'"
    using inv shape same by (simp_all add: memory_inv_def table_agrees_def same_shape_def)
  fix k assume "map_of (wm_targets m') k \<noteq> None"
  then have "rt_pos (rs_table (wm_ready m)) k" using memory_inv_D(3) [OF inv] same(3) by simp
  then show "rt_pos (rs_table (wm_ready m')) k" using shape by (simp add: rt_pos_def same_shape_def)
qed (use assms in blast)+

lemma live_keys_open: "\<not> wm_closed m \<Longrightarrow> memory_inv m \<Longrightarrow> live_keys m = wm_ready_keys m"
  using memory_inv_D(8) [of m] by (simp add: live_of_def)
section \<open>Placement\<close>

lemma validate_targets_from_Inr:
  assumes "validate_targets_from m d ts = Inr resolved" and "dict_ok d"
    and "\<And>k t. map_of d k = Some t \<Longrightarrow> tx_key t = k \<and> P t \<and> fst k < wm_num_layers m \<and> snd k < wm_experts_per_layer m"
    and "\<And>t. t \<in> set ts \<Longrightarrow> P t"
  shows "dict_ok resolved \<and>
    (\<forall>k t. map_of resolved k = Some t \<longrightarrow> tx_key t = k \<and> P t \<and> fst k < wm_num_layers m \<and> snd k < wm_experts_per_layer m)"
  using assms
proof (induction ts arbitrary: d)
  case Nil
  then have "resolved = d" by simp
  with Nil(2) Nil(3) show ?case by blast
next
  case (Cons t ts)
  from Cons.prems(1) have ok: "fst (tx_key t) < wm_num_layers m" "snd (tx_key t) < wm_experts_per_layer m"
    and rest: "validate_targets_from m (AList.update (tx_key t) t d) ts = Inr resolved"
    by (auto simp: Let_def)
  show ?case
  proof (rule Cons.IH [OF rest])
    show "dict_ok (AList.update (tx_key t) t d)" using Cons.prems(2) by simp
    show "tx_key x = k \<and> P x \<and> fst k < wm_num_layers m \<and> snd k < wm_experts_per_layer m"
      if "map_of (AList.update (tx_key t) t d) k = Some x" for k x
    proof (cases "k = tx_key t")
      case True
      with that have "x = t" by simp
      with True ok Cons.prems(4) show ?thesis by simp
    next
      case False
      with that have "map_of d k = Some x" by simp
      then show ?thesis by (rule Cons.prems(3))
    qed
  qed (use Cons.prems(4) in simp)
qed

lemma validate_targets_Inr:
  assumes "validate_targets m ts = Inr resolved" and "\<forall>t\<in>set ts. target_expert_post_init t = None"
  shows "dict_ok resolved" and "map_of resolved k = Some t \<Longrightarrow> tx_key t = k"
    and "map_of resolved k \<noteq> None \<Longrightarrow> 0 \<le> fst k \<and> fst k < wm_num_layers m \<and> 0 \<le> snd k \<and> snd k < wm_experts_per_layer m"
    and "int (length resolved) \<le> wm_max_experts m"
proof -
  have v: "validate_targets_from m [] ts = Inr resolved" and len: "int (length resolved) \<le> wm_max_experts m"
    using assms(1) by (auto simp: validate_targets_def split: if_splits)
  note * = validate_targets_from_Inr [OF v, where P = "\<lambda>t. target_expert_post_init t = None"]
  have all: "dict_ok resolved \<and> (\<forall>k t. map_of resolved k = Some t \<longrightarrow> tx_key t = k \<and> target_expert_post_init t = None \<and>
      fst k < wm_num_layers m \<and> snd k < wm_experts_per_layer m)" by (rule *) (use assms(2) in auto)
  then show "dict_ok resolved" "map_of resolved k = Some t \<Longrightarrow> tx_key t = k" by blast+
  show "int (length resolved) \<le> wm_max_experts m" by (rule len)
  assume "map_of resolved k \<noteq> None"
  then obtain x where "map_of resolved k = Some x" by blast
  with all have x: "tx_key x = k" "target_expert_post_init x = None" "fst k < wm_num_layers m" "snd k < wm_experts_per_layer m" by blast+
  then show "0 \<le> fst k \<and> fst k < wm_num_layers m \<and> 0 \<le> snd k \<and> snd k < wm_experts_per_layer m"
    by (auto simp: target_expert_post_init_def tx_key_def)
qed

lemma apply_targets_cases:
  obtains (kept) "snd (apply_targets g ts m) = m" and "fst (apply_targets g ts m) \<noteq> Inr True"
  | (applied) resolved c m2 where "validate_targets m ts = Inr resolved" and "\<not> wm_closed m" and "wm_started m"
      and "wm_placement_generation m < g" and "0 < g"
      and "\<not> wm_shutting_down m \<or> (\<forall>k\<in>set (map fst resolved). map_of (wm_targets m) k \<noteq> None)"
      and "fold drop_target (filter (\<lambda>k. map_of resolved k = None) (map fst (wm_targets m)))
             ([], m\<lparr>wm_placement_generation := g, wm_targets := resolved\<rparr>) = (c, m2)"
      and "apply_targets g ts m = (Inr True, emit c (reset_progress g resolved (fold keep_target (map fst resolved) m2)))"
proof (cases "validate_targets m ts")
  case (Inl e)
  then show ?thesis using kept by (simp add: apply_targets_def)
next
  case (Inr resolved)
  obtain c m2 where cm: "fold drop_target (filter (\<lambda>k. map_of resolved k = None) (map fst (wm_targets m)))
      ([], m\<lparr>wm_placement_generation := g, wm_targets := resolved\<rparr>) = (c, m2)" by (rule prod.exhaust)
  show ?thesis
  proof (cases "wm_started m \<and> 0 < g \<and> \<not> wm_closed m \<and> wm_placement_generation m < g \<and>
      \<not> (wm_shutting_down m \<and> (\<exists>k\<in>set (map fst resolved). map_of (wm_targets m) k = None))")
    case True
    then have "apply_targets g ts m = (Inr True, emit c (reset_progress g resolved (fold keep_target (map fst resolved) m2)))"
      unfolding apply_targets_def Inr Let_def by (simp del: set_map add: cm)
    moreover have "\<not> wm_closed m" "wm_started m" "wm_placement_generation m < g" "0 < g"
      "\<not> wm_shutting_down m \<or> (\<forall>k\<in>set (map fst resolved). map_of (wm_targets m) k \<noteq> None)"
      using True by (simp_all del: set_map)
    ultimately show ?thesis using applied [OF Inr _ _ _ _ _ cm] by blast
  next
    case False
    have "snd (apply_targets g ts m) = m \<and> fst (apply_targets g ts m) \<noteq> Inr True"
      using False unfolding apply_targets_def Inr by (auto simp del: set_map)
    with kept show ?thesis by blast
  qed
qed

text \<open>The state after an applied placement, up to tasks.\<close>

lemma applied_touches:
  assumes "fold drop_target (filter (\<lambda>k. map_of resolved k = None) (map fst (wm_targets m)))
      ([], m\<lparr>wm_placement_generation := g, wm_targets := resolved\<rparr>) = (c, m2)"
  obtains ts lt st n b where "emit c (reset_progress g resolved (fold keep_target (map fst resolved) m2)) =
      m\<lparr>wm_placement_generation := g, wm_targets := resolved, wm_tasks := ts, wm_load_tasks := lt, wm_states := st,
        wm_logged_placement_generation := g, wm_load_progress_step := max 1 ((int (length resolved) + 9) div 10),
        wm_next_load_progress_count := n, wm_load_completion_logged := b, wm_emitted := wm_emitted m @ c\<rparr>"
    and "\<And>k. k \<in> set (wm_ready_keys m) \<Longrightarrow> map_of st k = map_of (wm_states m) k"
    and "\<And>k. k \<notin> set (wm_ready_keys m) \<Longrightarrow> map_of st k = (if map_of resolved k \<noteq> None then None
           else if map_of (wm_targets m) k \<noteq> None then Some (removed_state k) else map_of (wm_states m) k)"
proof -
  obtain ts st where m2: "m2 = m\<lparr>wm_placement_generation := g, wm_targets := resolved, wm_tasks := ts, wm_states := st\<rparr>"
    and st: "\<And>k. map_of st k = (if k \<in> set (filter (\<lambda>k. map_of resolved k = None) (map fst (wm_targets m))) \<and> k \<notin> set (wm_ready_keys m)
        then Some (removed_state k) else map_of (wm_states m) k)"
    using drop_targets_touch [of "filter (\<lambda>k. map_of resolved k = None) (map fst (wm_targets m))" "[]"
      "m\<lparr>wm_placement_generation := g, wm_targets := resolved\<rparr>"] assms by (auto simp del: split_paired_All)
  obtain ts' lt st' where m3: "fold keep_target (map fst resolved) m2 = m2\<lparr>wm_tasks := ts', wm_load_tasks := lt, wm_states := st'\<rparr>"
    and st': "\<And>k. map_of st' k = (if k \<in> set (map fst resolved) \<and> k \<notin> set (wm_ready_keys m2) then None else map_of (wm_states m2) k)"
    using keep_targets_touch [of "map fst resolved" m2] by blast
  show thesis
  proof (rule that)
    show "emit c (reset_progress g resolved (fold keep_target (map fst resolved) m2)) =
      m\<lparr>wm_placement_generation := g, wm_targets := resolved, wm_tasks := ts', wm_load_tasks := lt, wm_states := st',
        wm_logged_placement_generation := g, wm_load_progress_step := max 1 ((int (length resolved) + 9) div 10),
        wm_next_load_progress_count := wm_next_load_progress_count (reset_progress g resolved (fold keep_target (map fst resolved) m2)),
        wm_load_completion_logged := wm_load_completion_logged (reset_progress g resolved (fold keep_target (map fst resolved) m2)),
        wm_emitted := wm_emitted m @ c\<rparr>"
      unfolding m3 by (simp add: emit_def reset_progress_def Let_def m2)
    show "map_of st' k = map_of (wm_states m) k" if "k \<in> set (wm_ready_keys m)" for k
      using st [of k] st' [of k] that by (simp add: m2)
    show "map_of st' k = (if map_of resolved k \<noteq> None then None
           else if map_of (wm_targets m) k \<noteq> None then Some (removed_state k) else map_of (wm_states m) k)"
      if "k \<notin> set (wm_ready_keys m)" for k
      using st [of k] st' [of k] that by (simp add: m2 map_of_eq_None_iff)
  qed
qed

lemma memory_inv_apply:
  assumes inv: "memory_inv m" and ts: "\<forall>t\<in>set ts. target_expert_post_init t = None"
  shows "memory_inv (snd (apply_targets g ts m))"
proof (cases rule: apply_targets_cases [of g ts m])
  case (applied resolved c m2)
  note V = validate_targets_Inr [OF applied(1) ts]
  have "rt_pos (rs_table (wm_ready m)) k" if "map_of resolved k \<noteq> None" for k
    using V(3) [OF that] inv by (simp add: rt_pos_def memory_inv_def table_agrees_def)
  note pos = this
  from applied(7) show ?thesis
  proof (cases rule: applied_touches)
    case (1 ts' lt st n b)
    show ?thesis unfolding applied(8) 1(1) snd_conv using inv pos unfolding memory_inv_def memory_parts by simp
  qed
qed (use inv in simp)
section \<open>Publishing a loaded expert\<close>

lemma advance_progress_returns:
  assumes "1 \<le> step"
  shows "\<exists>n. advance_progress step ready_count next_count = Some n \<and> ready_count < n"
proof (induction "nat (ready_count + 1 - next_count)" arbitrary: next_count rule: less_induct)
  case less
  show ?case
  proof (cases "next_count \<le> ready_count")
    case True
    then have "nat (ready_count + 1 - (next_count + step)) < nat (ready_count + 1 - next_count)" using assms by linarith
    from less [OF this] True show ?thesis by (simp add: advance_progress.simps [of step ready_count next_count])
  next
    case False
    then show ?thesis by (simp add: advance_progress.simps [of step ready_count next_count])
  qed
qed

lemma log_progress_touches:
  assumes "1 \<le> wm_load_progress_step m"
  shows "\<exists>n b. log_progress m = Some (m\<lparr>wm_next_load_progress_count := n, wm_load_completion_logged := b\<rparr>)"
proof -
  have same: "m = m\<lparr>wm_next_load_progress_count := wm_next_load_progress_count m, wm_load_completion_logged := wm_load_completion_logged m\<rparr>"
    by simp
  have n: "m\<lparr>wm_next_load_progress_count := x\<rparr> = m\<lparr>wm_next_load_progress_count := x, wm_load_completion_logged := wm_load_completion_logged m\<rparr>" for x
    by simp
  have b: "m\<lparr>wm_load_completion_logged := x\<rparr> = m\<lparr>wm_next_load_progress_count := wm_next_load_progress_count m, wm_load_completion_logged := x\<rparr>" for x
    by simp
  let ?r = "int (length (filter (\<lambda>key. map_of (wm_targets m) key \<noteq> None) (wm_ready_keys m)))"
  obtain x where x: "advance_progress (wm_load_progress_step m) ?r (wm_next_load_progress_count m) = Some x"
    using advance_progress_returns [OF assms] by blast
  have "log_progress m \<in> {Some m, Some (m\<lparr>wm_load_completion_logged := True\<rparr>), Some (m\<lparr>wm_next_load_progress_count := x\<rparr>)}"
    unfolding log_progress_def Let_def x by simp
  then show ?thesis using same n b by (elim insertE emptyE) metis+
qed

lemma finish_ready_cases:
  assumes inv: "memory_inv m"
  obtains (dropped) "finish_ready k v m = Some (release_ready_weight v m)"
      and "wm_closed m \<or> map_of (wm_targets m) k = None \<or> k \<in> set (wm_ready_keys m)"
  | (full) c st f where "finish_ready k v m = Some (emit c (release_ready_weight v (m\<lparr>wm_states := st\<rparr>)))"
      and "map_of st = (map_of (wm_states m))(k \<mapsto> failed_state k f)"
      and "\<not> wm_closed m" and "map_of (wm_targets m) k \<noteq> None" and "k \<notin> set (wm_ready_keys m)"
      and "wm_device_weight_capacity_bytes m < wm_loaded_device_bytes m + wm_ready_weight_bytes m"
  | (published) c st n b where "finish_ready k v m = Some (m\<lparr>wm_ready := ready_apply (Publish (fst k) (snd k) (Some v)) (wm_ready m),
        wm_ready_keys := wm_ready_keys m @ [k], wm_loaded_device_bytes := wm_loaded_device_bytes m + wm_ready_weight_bytes m,
        wm_states := st, wm_next_load_progress_count := n, wm_load_completion_logged := b, wm_emitted := wm_emitted m @ c,
        wm_emitted_bytes := wm_emitted_bytes m @ [wm_loaded_device_bytes m + wm_ready_weight_bytes m]\<rparr>)"
      and "map_of st = (map_of (wm_states m))(k \<mapsto> ready_state k)"
      and "\<not> wm_closed m" and "map_of (wm_targets m) k \<noteq> None" and "k \<notin> set (wm_ready_keys m)"
      and "wm_loaded_device_bytes m + wm_ready_weight_bytes m \<le> wm_device_weight_capacity_bytes m"
proof (cases "wm_closed m \<or> map_of (wm_targets m) k = None \<or> k \<in> set (wm_ready_keys m)")
  case True
  with dropped show ?thesis by (simp add: finish_ready_def)
next
  case open_target: False
  note D = memory_inv_D [OF inv]
  show ?thesis
  proof (cases "wm_device_weight_capacity_bytes m < wm_loaded_device_bytes m + wm_ready_weight_bytes m")
    case True
    let ?f = "WeightLoadFailure DRAM PLACE WL_INTERNAL False ''ready expert exceeds the derived device weight capacity''"
    obtain c st where s: "set_state_locked k (failed_state k ?f) m = (c, m\<lparr>wm_states := st\<rparr>)"
      "map_of st = (map_of (wm_states m))(k \<mapsto> failed_state k ?f)" using set_state_locked_touches by blast
    have "finish_ready k v m = Some (emit c (release_ready_weight v (m\<lparr>wm_states := st\<rparr>)))"
      using open_target True by (auto simp: finish_ready_def s(1))
    with full s(2) open_target True show ?thesis by blast
  next
    case False
    have pos: "rt_pos (rs_table (wm_ready m)) (fst k, snd k)" using D(3) [of k] open_target by simp
    have free: "ready_vals (wm_ready m) (fst k, snd k) = None"
      using D(2) [of k] live_keys_open [OF _ inv] open_target by auto
    have pub: "\<exists>t. rt_publish (fst k) (snd k) (Some v) (rs_table (wm_ready m)) = (Inr (), t)"
      using publish_free(1) [OF D(1) pos free, of v] by (metis prod.collapse)
    let ?m1 = "m\<lparr>wm_ready := ready_apply (Publish (fst k) (snd k) (Some v)) (wm_ready m), wm_ready_keys := wm_ready_keys m @ [k],
        wm_loaded_device_bytes := wm_loaded_device_bytes m + wm_ready_weight_bytes m\<rparr>"
    obtain c st where s: "set_state_locked k (ready_state k) ?m1 = (c, ?m1\<lparr>wm_states := st\<rparr>)"
      "map_of st = (map_of (wm_states m))(k \<mapsto> ready_state k)"
      using set_state_locked_touches [of k "ready_state k" ?m1] by auto
    obtain n b where l: "log_progress (?m1\<lparr>wm_states := st\<rparr>) =
        Some (?m1\<lparr>wm_states := st, wm_next_load_progress_count := n, wm_load_completion_logged := b\<rparr>)"
      using log_progress_touches [of "?m1\<lparr>wm_states := st\<rparr>"] D(7) by auto
    have "finish_ready k v m = Some (emit_device_bytes (wm_loaded_device_bytes ?m1) (emit c
        (?m1\<lparr>wm_states := st, wm_next_load_progress_count := n, wm_load_completion_logged := b\<rparr>)))"
      using open_target False pub unfolding finish_ready_def by (auto simp: Let_def s(1) l simp del: ready_apply.simps)
    then show ?thesis
      using published [where st = st and n = n and b = b and c = c] s(2) open_target False by (simp add: emit_device_bytes_def emit_def del: ready_apply.simps)
  qed
qed

lemma table_agrees_publish:
  assumes inv: "memory_inv m" and k: "\<not> wm_closed m" "map_of (wm_targets m) k \<noteq> None" "k \<notin> set (wm_ready_keys m)"
  shows "ready_inv (ready_apply (Publish (fst k) (snd k) (Some v)) (wm_ready m))"
    and "ready_vals (ready_apply (Publish (fst k) (snd k) (Some v)) (wm_ready m)) = (ready_vals (wm_ready m))(k \<mapsto> v)"
    and "same_shape (wm_ready m) (ready_apply (Publish (fst k) (snd k) (Some v)) (wm_ready m))"
    and "ready_vals (wm_ready m) k = None"
proof -
  note D = memory_inv_D [OF inv]
  have pos: "rt_pos (rs_table (wm_ready m)) (fst k, snd k)" using D(3) [OF k(2)] by simp
  have free: "ready_vals (wm_ready m) k = None" using D(2) [of k] live_keys_open [OF k(1) inv] k(3) by auto
  then have free': "ready_vals (wm_ready m) (fst k, snd k) = None" by simp
  show "ready_inv (ready_apply (Publish (fst k) (snd k) (Some v)) (wm_ready m))" by (rule ready_apply_inv [OF D(1)])
  show "ready_vals (ready_apply (Publish (fst k) (snd k) (Some v)) (wm_ready m)) = (ready_vals (wm_ready m))(k \<mapsto> v)"
    "same_shape (wm_ready m) (ready_apply (Publish (fst k) (snd k) (Some v)) (wm_ready m))"
    using publish_free(2,3) [OF D(1) pos free', of v] by (simp_all del: ready_apply.simps)
  show "ready_vals (wm_ready m) k = None" by (rule free)
qed

lemma memory_inv_finish_ready:
  assumes inv: "memory_inv m" and lock: "lock_free m" and fin: "finish_ready k v m = Some m'"
  shows "memory_inv m'"
  using inv
proof (cases rule: finish_ready_cases [of m k v])
  case dropped
  with fin inv show ?thesis by auto
next
  case (full c st)
  with fin inv show ?thesis by auto
next
  case (published c st n b)
  note T = table_agrees_publish(1-3) [OF inv published(3-5), of v]
  note D = memory_inv_D [OF inv]
  have nc: "wm_close m = Not_Closing" using D(8) published(3) by simp
  have live: "ready_vals (wm_ready m) x \<noteq> None \<longleftrightarrow> x \<in> set (wm_ready_keys m)" for x using D(2) [of x] nc by (simp add: live_of_def)
  have lck: "removal_ok (wm_removal m) ks r" for ks and r :: "'a ready_sys"
    using lock D(5) unfolding lock_free_def removal_ok_def by (auto split: option.splits removal_status.splits)
  have m': "m' = m\<lparr>wm_ready := ready_apply (Publish (fst k) (snd k) (Some v)) (wm_ready m),
        wm_ready_keys := wm_ready_keys m @ [k], wm_loaded_device_bytes := wm_loaded_device_bytes m + wm_ready_weight_bytes m,
        wm_states := st, wm_next_load_progress_count := n, wm_load_completion_logged := b, wm_emitted := wm_emitted m @ c,
        wm_emitted_bytes := wm_emitted_bytes m @ [wm_loaded_device_bytes m + wm_ready_weight_bytes m]\<rparr>"
    using fin published(1) by simp
  have "table_agrees m'"
  proof (rule table_agrees_change [OF inv])
    fix x
    have "ready_vals (wm_ready m') x = ((ready_vals (wm_ready m))(k \<mapsto> v)) x" unfolding m' using T(2) by (simp del: ready_apply.simps)
    then show "(ready_vals (wm_ready m') x \<noteq> None) = (x \<in> set (live_keys m'))"
      using live [of x] nc by (simp add: m' live_of_def del: ready_apply.simps ready_vals_None)
  qed (use T(1,3) in \<open>simp_all add: m' del: ready_apply.simps\<close>)
  moreover have "bytes_ok m'"
    using D(4) published(5,6) by (simp add: bytes_ok_def m' algebra_simps del: ready_apply.simps)
  ultimately show ?thesis
    using D(7) nc published(3) lck unfolding memory_inv_def by (simp add: m' closing_ok_def del: ready_apply.simps)
qed
section \<open>Removal and closing\<close>

lemma same_shape_refl [simp]: "same_shape r r" and same_shape_trans: "same_shape r s \<Longrightarrow> same_shape s t \<Longrightarrow> same_shape r t"
  by (simp_all add: same_shape_def)

lemma begin_withdrawals_present:
  assumes "ready_inv r" and "\<forall>k\<in>set ks. ready_vals r k \<noteq> None"
  obtains r' where "begin_withdrawals ks r = (None, r')" and "ready_inv r'" and "same_shape r r'" and "ready_vals r' = ready_vals r"
    and "\<And>k. k \<in> set ks \<or> withdrawn r k \<Longrightarrow> withdrawn r' k"
  using assms
proof (induction ks arbitrary: r thesis)
  case Nil
  show ?case by (rule Nil.prems(1) [of r]) (use Nil.prems(2) in \<open>simp_all add: begin_withdrawals_def\<close>)
next
  case (Cons k ks)
  define r1 where "r1 = ready_apply (Begin_Withdrawal (fst k) (snd k)) r"
  have pr: "ready_vals r (fst k, snd k) \<noteq> None" using Cons.prems(3) by simp
  note B = begin_present [OF Cons.prems(2) pr, folded r1_def]
  obtain t where t: "rt_begin_withdrawal (fst k) (snd k) (rs_table r) = (Inr (), t)" using B(1) by (metis prod.collapse)
  have inv1: "ready_inv r1" unfolding r1_def by (rule ready_apply_inv [OF Cons.prems(2)])
  have keep: "withdrawn r1 x" if "withdrawn r x" for x
    unfolding r1_def by (rule withdrawal.gate_kept [OF Cons.prems(2) that]) (simp add: republishes_def)
  have all: "\<forall>x\<in>set ks. ready_vals r1 x \<noteq> None" using Cons.prems(3) B(2) by simp
  obtain r' where r': "begin_withdrawals ks r1 = (None, r')" "ready_inv r'" "same_shape r1 r'" "ready_vals r' = ready_vals r1"
    "\<And>x. x \<in> set ks \<or> withdrawn r1 x \<Longrightarrow> withdrawn r' x" using Cons.IH [OF _ inv1 all] by blast
  have "begin_withdrawals (k # ks) r = (None, r')"
    using r'(1) t unfolding begin_withdrawals_def by (simp add: r1_def [symmetric] del: ready_apply.simps)
  moreover have "withdrawn r' x" if "x \<in> set (k # ks) \<or> withdrawn r x" for x
    using that B(4) keep [of x] r'(5) [of x] by (cases "x = k") auto
  ultimately show ?case using Cons.prems(1) r'(2-4) B(2,3) same_shape_trans by metis
qed

lemma removal_ok_withdrawn:
  assumes "removal_ok removal ks r" and "\<And>k. withdrawn r k \<Longrightarrow> withdrawn r' k"
  shows "removal_ok removal ks r'"
  using assms unfolding removal_ok_def by (auto split: option.splits removal_status.splits)

lemma closing_ok_withdrawn:
  assumes "closing_ok c r" and "\<And>k. withdrawn r k \<Longrightarrow> withdrawn r' k"
  shows "closing_ok c r'"
  using assms unfolding closing_ok_def by (auto split: close_phase.splits)

text \<open>Changing only the ready table, keeping its contents and the closed gates.\<close>

lemma memory_inv_ready:
  assumes inv: "memory_inv m" and r: "ready_inv r" "same_shape (wm_ready m) r" "ready_vals r = ready_vals (wm_ready m)"
    "\<And>k. withdrawn (wm_ready m) k \<Longrightarrow> withdrawn r k"
  shows "memory_inv (m\<lparr>wm_ready := r\<rparr>)"
proof -
  note D = memory_inv_D [OF inv]
  have "table_agrees (m\<lparr>wm_ready := r\<rparr>)"
    by (rule table_agrees_change [OF inv]) (use r D(2) in \<open>simp_all add: fun_eq_iff del: ready_vals_None split_paired_All\<close>)
  moreover have "removal_ok (wm_removal m) (wm_ready_keys m) r" "closing_ok (wm_close m) r"
    using removal_ok_withdrawn [OF D(5) r(4)] closing_ok_withdrawn [OF D(6) r(4)] by blast+
  ultimately show ?thesis using D(4,7-9) unfolding memory_inv_def by (simp add: bytes_ok_def lock_free_def)
qed

lemma memory_inv_lease:
  assumes inv: "memory_inv m" and op: "(\<exists>l es. op = Acquire_Many l es) \<or> (\<exists>i. op = Close_Lease i)"
  shows "memory_inv (m\<lparr>wm_ready := ready_apply op (wm_ready m)\<rparr>)"
  using memory_inv_D(1) [OF inv] by (intro memory_inv_ready [OF inv] ready_apply_inv lease_ops_keep op)

lemma memory_inv_removal:
  assumes inv: "memory_inv m" and "removal_ok removal (wm_ready_keys m) (wm_ready m)"
    and "wm_closed m \<Longrightarrow> lock_free (m\<lparr>wm_removal := removal\<rparr>)"
  shows "memory_inv (m\<lparr>wm_removal := removal\<rparr>)"
  using assms unfolding memory_inv_def by (simp add: table_agrees_def bytes_ok_def)

lemma removal_free [simp]:
  "removal_ok None ks r" "removal_ok (Some (q, Removal_Created)) ks r = distinct (rq_keys q)"
  "removal_ok (Some (q, Removal_Done x)) ks r = distinct (rq_keys q)"
  "lock_free (m\<lparr>wm_removal := None\<rparr>)" "lock_free (m\<lparr>wm_removal := Some (q, Removal_Created)\<rparr>)"
  "lock_free (m\<lparr>wm_removal := Some (q, Removal_Done x)\<rparr>)"
  by (simp_all add: removal_ok_def lock_free_def)

lemma memory_inv_join: "memory_inv m \<Longrightarrow> memory_inv (snd (remove_join g ks w m))"
  by (auto simp: remove_join_def validate_weight_keys_def intro!: memory_inv_removal split: sum.splits option.splits if_splits)

lemma memory_inv_leave: "memory_inv m \<Longrightarrow> memory_inv (remove_leave m)"
  by (auto simp: remove_leave_def intro!: memory_inv_removal split: option.splits removal_status.splits)

lemma removal_distinct: "memory_inv m \<Longrightarrow> wm_removal m = Some (q, status) \<Longrightarrow> distinct (rq_keys q)"
  using memory_inv_D(5) [of m] by (simp add: removal_ok_def)

lemma remove_start_cases:
  assumes inv: "memory_inv m"
  obtains (none) "remove_start m = m" and "\<forall>q. wm_removal m \<noteq> Some (q, Removal_Created)"
  | (refused) q x where "wm_removal m = Some (q, Removal_Created)" and "remove_start m = m\<lparr>wm_removal := Some (q, Removal_Done x)\<rparr>"
      and "x \<noteq> Inr True"
  | (began) q ks r where "wm_removal m = Some (q, Removal_Created)" and "\<not> wm_closed m"
      and "rq_placement_generation q = wm_placement_generation m"
      and "rq_whole_worker_shutdown q \<or> (\<forall>k\<in>set (rq_keys q). map_of (wm_targets m) k = None)"
      and "ks = filter (\<lambda>k. k \<in> set (wm_ready_keys m)) (rq_keys q)"
      and "remove_start m = m\<lparr>wm_ready := r, wm_removal := Some (q, Removal_Holding [] ks)\<rparr>"
      and "ready_inv r" and "same_shape (wm_ready m) r" and "ready_vals r = ready_vals (wm_ready m)"
      and "\<And>k. k \<in> set ks \<or> withdrawn (wm_ready m) k \<Longrightarrow> withdrawn r k"
proof (cases "\<exists>q. wm_removal m = Some (q, Removal_Created)")
  case True
  then obtain q where q: "wm_removal m = Some (q, Removal_Created)" by blast
  let ?ks = "filter (\<lambda>k. k \<in> set (wm_ready_keys m)) (rq_keys q)"
  show ?thesis
  proof (cases "wm_closed m \<or> rq_placement_generation q \<noteq> wm_placement_generation m \<or>
      \<not> rq_whole_worker_shutdown q \<and> filter (\<lambda>k. map_of (wm_targets m) k \<noteq> None) (rq_keys q) \<noteq> []")
    case True
    let ?done = "\<lambda>x. m\<lparr>wm_removal := Some (q, Removal_Done x)\<rparr>"
    consider "wm_closed m" | "\<not> wm_closed m" "rq_placement_generation q < wm_placement_generation m"
      | "\<not> wm_closed m" "rq_placement_generation q > wm_placement_generation m"
      | "\<not> wm_closed m" "rq_placement_generation q = wm_placement_generation m"
        "\<not> rq_whole_worker_shutdown q \<and> filter (\<lambda>k. map_of (wm_targets m) k \<noteq> None) (rq_keys q) \<noteq> []"
      using True by linarith
    then show ?thesis
    proof cases
      case 1
      then have "remove_start m = ?done (Inl (RuntimeError ''Weight Manager is closed''))" by (simp add: remove_start_def q)
      from refused [OF q this] show ?thesis by simp
    next
      case 2
      then have "remove_start m = ?done (Inr False)" by (simp add: remove_start_def q)
      from refused [OF q this] show ?thesis by simp
    next
      case 3
      then have "remove_start m = ?done (Inl (ValueError ''drain generation is newer than current placement''))" by (simp add: remove_start_def q)
      from refused [OF q this] show ?thesis by simp
    next
      case 4
      then have "remove_start m = ?done (Inl (ValueError ''cannot remove an expert in the current target list''))"
        by (simp add: remove_start_def q del: not_None_eq)
      from refused [OF q this] show ?thesis by simp
    qed
  next
    case False
    have "\<forall>k\<in>set ?ks. ready_vals (wm_ready m) k \<noteq> None"
      using memory_inv_D(2) [OF inv] live_keys_open [OF _ inv] False by (simp del: ready_vals_None)
    from begin_withdrawals_present [OF memory_inv_D(1) [OF inv] this] obtain r where
      r: "begin_withdrawals ?ks (wm_ready m) = (None, r)" "ready_inv r" "same_shape (wm_ready m) r" "ready_vals r = ready_vals (wm_ready m)"
        "\<And>k. k \<in> set ?ks \<or> withdrawn (wm_ready m) k \<Longrightarrow> withdrawn r k" by blast
    have s: "remove_start m = m\<lparr>wm_ready := r, wm_removal := Some (q, Removal_Holding [] ?ks)\<rparr>"
      using False by (auto simp: remove_start_def q Let_def r(1))
    have w: "rq_whole_worker_shutdown q \<or> (\<forall>k\<in>set (rq_keys q). map_of (wm_targets m) k = None)"
      using False by (auto simp: filter_empty_conv)
    have "\<not> wm_closed m" "rq_placement_generation q = wm_placement_generation m" using False by simp_all
    from began [OF q this w refl s r(2-5)] show ?thesis .
  qed
next
  case False
  have "remove_start m = m"
  proof (cases "wm_removal m")
    case (Some qs)
    obtain q status where qs: "qs = (q, status)" by (rule prod.exhaust)
    show ?thesis using False by (cases status) (simp_all add: remove_start_def Some qs)
  qed (simp add: remove_start_def)
  with none False show ?thesis by blast
qed
lemma memory_inv_remove_start:
  assumes inv: "memory_inv m"
  shows "memory_inv (remove_start m)"
  using inv
proof (cases rule: remove_start_cases)
  case none
  then show ?thesis using inv by simp
next
  case (refused q x)
  then show ?thesis using memory_inv_removal [OF inv, of "Some (q, Removal_Done x)"] removal_distinct [OF inv refused(1)] by simp
next
  case (began q ks r)
  have r: "memory_inv (m\<lparr>wm_ready := r\<rparr>)" by (rule memory_inv_ready [OF inv began(7-9)]) (use began(10) in blast)
  have "removal_ok (Some (q, Removal_Holding [] ks)) (wm_ready_keys m) r"
    using removal_distinct [OF inv began(1)] began(10) by (auto simp: removal_ok_def began(5))
  then show ?thesis unfolding began(6) using memory_inv_removal [OF r, of "Some (q, Removal_Holding [] ks)"] began(2) by simp
qed

lemma holding_finish_cases:
  assumes inv: "memory_inv m" and h: "wm_removal m = Some (q, Removal_Holding done (k # rest))"
  obtains (waits) r where "remove_finish m = m\<lparr>wm_ready := r\<rparr>" and "ready_inv r" and "same_shape (wm_ready m) r"
      and "ready_vals r = ready_vals (wm_ready m)" and "\<And>x. withdrawn (wm_ready m) x \<Longrightarrow> withdrawn r x"
  | (taken) v r where "remove_finish m = m\<lparr>wm_ready := r, wm_ready_keys := remove1 k (wm_ready_keys m),
        wm_loaded_device_bytes := wm_loaded_device_bytes m - wm_ready_weight_bytes m,
        wm_removal := Some (q, Removal_Holding (done @ [k]) rest), wm_released := wm_released m @ [v]\<rparr>"
      and "ready_vals (wm_ready m) k = Some v" and "k \<in> set (wm_ready_keys m)"
      and "ready_inv r" and "same_shape (wm_ready m) r"
      and "ready_vals r = (ready_vals (wm_ready m))(k := None)" and "\<And>x. withdrawn (wm_ready m) x \<Longrightarrow> withdrawn r x"
proof -
  note D = memory_inv_D [OF inv]
  have nc: "\<not> wm_closed m" using D(9) h by (auto simp: lock_free_def)
  have k: "k \<in> set (wm_ready_keys m)" "withdrawn (wm_ready m) (fst k, snd k)" using D(5) h by (simp_all add: removal_ok_def)
  then obtain v where v: "ready_vals (wm_ready m) k = Some v" using D(2) [of k] live_keys_open [OF nc inv] by (auto simp del: ready_vals_None)
  then have v': "ready_vals (wm_ready m) (fst k, snd k) = Some v" by simp
  from D(1) v' k(2) show ?thesis
  proof (cases rule: finish_present)
    case (waits r')
    have "remove_finish m = m\<lparr>wm_ready := r'\<rparr>" using waits(1) by (simp add: remove_finish_def h)
    with that(1) waits show ?thesis by blast
  next
    case (taken r')
    have "remove_finish m = m\<lparr>wm_ready := r', wm_ready_keys := remove1 k (wm_ready_keys m),
        wm_loaded_device_bytes := wm_loaded_device_bytes m - wm_ready_weight_bytes m,
        wm_removal := Some (q, Removal_Holding (done @ [k]) rest), wm_released := wm_released m @ [v]\<rparr>"
      using taken(1) by (simp add: remove_finish_def h release_ready_weight_def)
    from that(2) [OF this v k(1) taken(2,3) _ taken(5)] taken(4) show ?thesis by simp
  qed
qed

lemma remove_finish_other: "(\<And>q done k rest. wm_removal m \<noteq> Some (q, Removal_Holding done (k # rest))) \<Longrightarrow> remove_finish m = m"
  by (auto simp: remove_finish_def split: option.splits removal_status.splits list.splits)

lemma memory_inv_remove_finish:
  assumes inv: "memory_inv m"
  shows "memory_inv (remove_finish m)"
proof (cases "\<exists>q done k rest. wm_removal m = Some (q, Removal_Holding done (k # rest))")
  case False
  then show ?thesis using inv remove_finish_other [of m] by metis
next
  case True
  then obtain q don k rest where h: "wm_removal m = Some (q, Removal_Holding don (k # rest))" by blast
  note D = memory_inv_D [OF inv]
  have nc: "\<not> wm_closed m" using D(9) h by (auto simp: lock_free_def)
  from inv h show ?thesis
  proof (cases rule: holding_finish_cases)
    case (waits r)
    show ?thesis unfolding waits(1) by (rule memory_inv_ready [OF inv waits(2-5)])
  next
    case (taken v r)
    let ?m = "m\<lparr>wm_ready := r, wm_ready_keys := remove1 k (wm_ready_keys m),
        wm_loaded_device_bytes := wm_loaded_device_bytes m - wm_ready_weight_bytes m,
        wm_removal := Some (q, Removal_Holding (don @ [k]) rest), wm_released := wm_released m @ [v]\<rparr>"
    have close: "wm_close m = Not_Closing" using D(8) nc by simp
    have dist: "distinct (wm_ready_keys m)" using D(4) by (simp add: bytes_ok_def)
    have "table_agrees ?m"
      by (rule table_agrees_change [OF inv])
        (use taken(4,5,6) D(2) dist close in \<open>simp_all add: live_of_def set_remove1_eq del: ready_vals_None\<close>)
    moreover have "bytes_ok ?m"
    proof -
      have "int (length (wm_ready_keys m) - 1) = int (length (wm_ready_keys m)) - 1"
        using taken(3) by (cases "wm_ready_keys m") simp_all
      with D(4) taken(3) show ?thesis by (simp add: bytes_ok_def length_remove1 algebra_simps)
    qed
    moreover have "removal_ok (Some (q, Removal_Holding (don @ [k]) rest)) (remove1 k (wm_ready_keys m)) r"
      using D(5) h taken(7) dist by (auto simp: removal_ok_def set_remove1_eq)
    ultimately show ?thesis
      unfolding taken(1) using D(7,8) nc close by (simp add: memory_inv_def closing_ok_def)
  qed
qed

lemma memory_inv_remove_end:
  assumes inv: "memory_inv m"
  shows "memory_inv (remove_end m)"
proof (cases "\<exists>q done. wm_removal m = Some (q, Removal_Holding done [])")
  case False
  then have "remove_end m = m" by (auto simp: remove_end_def split: option.splits removal_status.splits list.splits)
  with inv show ?thesis by simp
next
  case True
  then obtain q don where h: "wm_removal m = Some (q, Removal_Holding don [])" by blast
  obtain c st where "fold mark_removed (rq_keys q) ([], m) = (c, m\<lparr>wm_states := st\<rparr>)" using mark_removed_touches by blast
  then have "remove_end m = emit_device_bytes (wm_loaded_device_bytes m) (emit c
      ((m\<lparr>wm_states := st\<rparr>)\<lparr>wm_removal := Some (q, Removal_Done (Inr True))\<rparr>))"
    by (simp add: remove_end_def h)
  moreover have "memory_inv (m\<lparr>wm_states := st\<rparr>)" using inv by simp
  ultimately show ?thesis
    using memory_inv_removal [of "m\<lparr>wm_states := st\<rparr>" "Some (q, Removal_Done (Inr True))"] removal_distinct [OF inv h] by simp
qed

lemma memory_inv_close_begin:
  assumes inv: "memory_inv m" and "lock_free m"
  shows "memory_inv (close_begin m)"
proof (cases "wm_closed m")
  case False
  have "wm_close m = Not_Closing" using memory_inv_D(8) [OF inv] False by simp
  then have "memory_inv (m\<lparr>wm_closed := True, wm_close := Close_Gathering is\<rparr>)" for "is"
    using inv assms(2) unfolding memory_inv_def
    by (simp add: table_agrees_def bytes_ok_def live_of_def closing_ok_def lock_free_def)
  then show ?thesis using False by (simp add: close_begin_def)
qed (use inv in \<open>simp add: close_begin_def\<close>)

lemma memory_inv_close_gathered:
  assumes inv: "memory_inv m"
  shows "memory_inv (close_gathered m)"
proof (cases "\<exists>is. wm_close m = Close_Gathering is \<and> (\<forall>i\<in>set is. lt_phase (wm_tasks m ! i) = Task_Done)")
  case True
  then obtain "is" where g: "wm_close m = Close_Gathering is" "\<forall>i\<in>set is. lt_phase (wm_tasks m ! i) = Task_Done" by blast
  note D = memory_inv_D [OF inv]
  have "distinct (wm_ready_keys m)" using D(4) by (simp add: bytes_ok_def)
  then have "memory_inv (m\<lparr>wm_close := Close_Withdrawing (sort (wm_ready_keys m)) False\<rparr>)"
    using inv g unfolding memory_inv_def
    by (simp add: table_agrees_def bytes_ok_def live_of_def closing_ok_def lock_free_def)
  then show ?thesis using g by (simp add: close_gathered_def)
next
  case False
  then have "close_gathered m = m" by (auto simp: close_gathered_def split: close_phase.splits)
  with inv show ?thesis by simp
qed
lemma close_step_cases:
  assumes inv: "memory_inv m"
  obtains (idle) "close_step m = m"
  | (began) k rest r where "wm_close m = Close_Withdrawing (k # rest) False"
      and "close_step m = m\<lparr>wm_ready := r, wm_close := Close_Withdrawing (k # rest) True\<rparr>"
      and "ready_inv r" and "same_shape (wm_ready m) r" and "ready_vals r = ready_vals (wm_ready m)"
      and "\<And>x. x = k \<or> withdrawn (wm_ready m) x \<Longrightarrow> withdrawn r x"
  | (waits) r where "close_step m = m\<lparr>wm_ready := r\<rparr>" and "ready_inv r" and "same_shape (wm_ready m) r"
      and "ready_vals r = ready_vals (wm_ready m)" and "\<And>x. withdrawn (wm_ready m) x \<Longrightarrow> withdrawn r x"
  | (taken) k rest v r where "wm_close m = Close_Withdrawing (k # rest) True"
      and "close_step m = m\<lparr>wm_ready := r, wm_close := Close_Withdrawing rest False, wm_released := wm_released m @ [v]\<rparr>"
      and "ready_vals (wm_ready m) k = Some v" and "ready_inv r" and "same_shape (wm_ready m) r"
      and "ready_vals r = (ready_vals (wm_ready m))(k := None)" and "\<And>x. withdrawn (wm_ready m) x \<Longrightarrow> withdrawn r x"
  | (ended) b where "wm_close m = Close_Withdrawing [] b"
      and "close_step m = m\<lparr>wm_ready_keys := [], wm_loaded_device_bytes := 0, wm_close := Close_Ended, wm_emitted_bytes := wm_emitted_bytes m @ [0]\<rparr>"
proof -
  note D = memory_inv_D [OF inv]
  consider (A) k rest where "wm_close m = Close_Withdrawing (k # rest) False"
    | (B) k rest where "wm_close m = Close_Withdrawing (k # rest) True"
    | (C) b where "wm_close m = Close_Withdrawing [] b" | (O) "close_step m = m"
  proof (cases "wm_close m")
    case (Close_Withdrawing ks b)
    then show ?thesis using A B C by (cases ks; cases b) simp_all
  qed (simp_all add: close_step_def O)
  then show ?thesis
  proof cases
    case (A k rest)
    have "ready_vals (wm_ready m) (fst k, snd k) \<noteq> None" using D(2) [of k] A by (simp add: live_of_def del: ready_vals_None)
    note B = begin_present [OF D(1) this]
    let ?r = "ready_apply (Begin_Withdrawal (fst k) (snd k)) (wm_ready m)"
    obtain t where "rt_begin_withdrawal (fst k) (snd k) (rs_table (wm_ready m)) = (Inr (), t)" using B(1) by (metis prod.collapse)
    then have c: "close_step m = m\<lparr>wm_ready := ?r, wm_close := Close_Withdrawing (k # rest) True\<rparr>"
      by (simp add: close_step_def A del: ready_apply.simps)
    have w: "withdrawn ?r x" if "x = k \<or> withdrawn (wm_ready m) x" for x
      using that
    proof
      assume "x = k" then show ?thesis using B(4) by simp
    next
      assume "withdrawn (wm_ready m) x"
      then show ?thesis by (rule withdrawal.gate_kept [OF D(1)]) (simp add: republishes_def)
    qed
    show ?thesis using that(2) [OF A c ready_apply_inv [OF D(1)] B(3,2)] w by blast
  next
    case (B k rest)
    then have w: "withdrawn (wm_ready m) (fst k, snd k)" using D(6) by (simp add: closing_ok_def)
    obtain v where v: "ready_vals (wm_ready m) k = Some v" using D(2) [of k] B by (auto simp: live_of_def simp del: ready_vals_None)
    then have v': "ready_vals (wm_ready m) (fst k, snd k) = Some v" by simp
    from D(1) v' w show ?thesis
    proof (cases rule: finish_present)
      case (waits r')
      have "close_step m = m\<lparr>wm_ready := r'\<rparr>" using waits(1) by (simp add: close_step_def B)
      with that(3) waits show ?thesis by blast
    next
      case (taken r')
      have "close_step m = m\<lparr>wm_ready := r', wm_close := Close_Withdrawing rest False, wm_released := wm_released m @ [v]\<rparr>"
        using taken(1) by (simp add: close_step_def B release_ready_weight_def)
      from that(4) [OF B this v taken(2,3) _ taken(5)] taken(4) show ?thesis by simp
    qed
  next
    case (C b)
    have "close_step m = m\<lparr>wm_ready_keys := [], wm_loaded_device_bytes := 0, wm_close := Close_Ended, wm_emitted_bytes := wm_emitted_bytes m @ [0]\<rparr>"
      by (simp add: close_step_def C emit_device_bytes_def)
    with that(5) C show ?thesis by blast
  qed (use that(1) in blast)
qed

lemma memory_inv_close_step:
  assumes inv: "memory_inv m" and lock: "lock_free m"
  shows "memory_inv (close_step m)"
  using inv
proof (cases rule: close_step_cases)
  case idle
  with inv show ?thesis by simp
next
  case (waits r)
  show ?thesis unfolding waits(1) by (rule memory_inv_ready [OF inv waits(2-5)])
next
  case (began k rest r)
  note D = memory_inv_D [OF inv]
  have "memory_inv (m\<lparr>wm_ready := r\<rparr>)" by (rule memory_inv_ready [OF inv began(3-5)]) (use began(6) in blast)
  moreover have "closing_ok (Close_Withdrawing (k # rest) True) r" using D(6) began(1,6) by (simp add: closing_ok_def)
  ultimately show ?thesis
    unfolding began(2) using began(1) by (simp add: memory_inv_def table_agrees_def bytes_ok_def live_of_def lock_free_def)
next
  case (taken k rest v r)
  note D = memory_inv_D [OF inv]
  let ?m = "m\<lparr>wm_ready := r, wm_close := Close_Withdrawing rest False, wm_released := wm_released m @ [v]\<rparr>"
  have dist: "distinct (k # rest)" using D(6) taken(1) by (simp add: closing_ok_def)
  have "table_agrees ?m"
    by (rule table_agrees_change [OF inv])
      (use taken(1,4-6) D(2) dist in \<open>auto simp: live_of_def simp del: ready_vals_None\<close>)
  moreover have "removal_ok (wm_removal m) (wm_ready_keys m) r" by (rule removal_ok_withdrawn [OF D(5) taken(7)])
  ultimately show ?thesis
    unfolding taken(2) using D(4,7,8,9) taken(1) dist by (simp add: memory_inv_def bytes_ok_def closing_ok_def lock_free_def)
next
  case (ended b)
  note D = memory_inv_D [OF inv]
  have le: "0 \<le> wm_device_weight_capacity_bytes m"
    using D(4) by (auto simp: bytes_ok_def intro: order_trans [rotated])
  have "ready_vals (wm_ready m) x = None" for x using D(2) [of x] ended(1) by (simp add: live_of_def del: ready_vals_None)
  then have "table_agrees (m\<lparr>wm_ready_keys := [], wm_loaded_device_bytes := 0, wm_close := Close_Ended, wm_emitted_bytes := wm_emitted_bytes m @ [0]\<rparr>)"
    by (intro table_agrees_change [OF inv]) (use D(1) in \<open>simp_all add: live_of_def del: ready_vals_None\<close>)
  moreover have "removal_ok (wm_removal m) [] r" for r :: "'a ready_sys"
    using lock D(5) unfolding lock_free_def removal_ok_def by (auto split: option.splits removal_status.splits)
  ultimately show ?thesis
    unfolding ended(2) using D(4,7,8,9) le ended(1) by (simp add: memory_inv_def bytes_ok_def closing_ok_def lock_free_def)
qed

lemma memory_inv_inner:
  assumes inv: "memory_inv m"
  shows "memory_inv (inner_finish i m)"
  using memory_inv_finish_ready [OF inv]
  by (auto simp: inner_finish_def split: load_phase.splits option.splits intro: inv)

lemma memory_inv_step: "memory_inv m \<Longrightarrow> memory_inv (wm_apply op m)"
proof (cases op)
  case Op_Start
  assume "memory_inv m"
  then show ?thesis by (simp add: Op_Start wm_start_def)
next
  case Op_Shutdown
  assume "memory_inv m"
  then show ?thesis by (simp add: Op_Shutdown begin_shutdown_def)
qed (simp_all del: ready_apply.simps add: memory_inv_apply memory_inv_resume memory_inv_inner memory_inv_join memory_inv_leave
      memory_inv_remove_start memory_inv_remove_finish memory_inv_remove_end memory_inv_close_begin memory_inv_close_gathered
      memory_inv_close_step memory_inv_lease)

lemma memory_inv_start:
  assumes "WeightManager n e d cap loads bytes = Inr m"
  shows "memory_inv m"
proof -
  have args: "0 < bytes" "0 < cap div bytes" "0 < cap" using assms by (auto simp: WeightManager_def)
  obtain t where t: "ReadyWeightTable n e = Inr t" and m: "wm_ready m = ready_start t" "wm_num_layers m = n" "wm_experts_per_layer m = e"
    "wm_targets m = []" "wm_ready_keys m = []" "wm_loaded_device_bytes m = 0" "wm_ready_weight_bytes m = bytes"
    "wm_device_weight_capacity_bytes m = cap" "wm_removal m = None" "wm_close m = Not_Closing" "\<not> wm_closed m" "wm_load_progress_step m = 1"
    using assms by (auto simp: WeightManager_def)
  have dims: "rt_num_layers t = n" "rt_experts_per_layer t = e" using t by (auto simp: ReadyWeightTable_def)
  have "ready_vals (ready_start t) x = None" for x
    using t by (auto simp: ReadyWeightTable_def ready_start_def rt_at_def rt_get_def rt_pos_def)
  moreover have "ready_inv (ready_start t)" unfolding ready_start_def by (rule ReadyWeightTable_inv [OF t])
  ultimately show ?thesis
    using args dims by (simp add: memory_inv_def table_agrees_def bytes_ok_def m live_of_def closing_ok_def ready_start_def)
qed
section \<open>Reported states\<close>

definition says_ready :: "expert_state option \<Rightarrow> bool" where
  "says_ready s \<longleftrightarrow> (case s of Some e \<Rightarrow> es_state e = READY | None \<Rightarrow> False)"

definition held_done :: "(removal_request \<times> removal_status) option \<Rightarrow> weight_key list" where
  "held_done removal = (case removal of Some (_, Removal_Holding done _) \<Rightarrow> done | _ \<Rightarrow> [])"

definition state_ok :: "weight_key \<Rightarrow> expert_state option \<Rightarrow> bool" where
  "state_ok k s \<longleftrightarrow> (case s of Some e \<Rightarrow> es_key e = k \<and> expert_state_post_init e = None | None \<Rightarrow> True)"

definition states_inv :: "'v weight_manager \<Rightarrow> bool" where
  "states_inv m \<longleftrightarrow> (\<forall>k. state_ok k (map_of (wm_states m) k) \<and>
     (\<not> wm_closed m \<longrightarrow> (says_ready (map_of (wm_states m) k) \<longleftrightarrow> k \<in> set (wm_ready_keys m) \<union> set (held_done (wm_removal m)))))"

lemma states_invI:
  assumes "\<And>k. state_ok k (map_of (wm_states m) k)"
    and "\<And>k. \<not> wm_closed m \<Longrightarrow> says_ready (map_of (wm_states m) k) \<longleftrightarrow> k \<in> set (wm_ready_keys m) \<union> set (held_done (wm_removal m))"
  shows "states_inv m"
  using assms unfolding states_inv_def by blast

lemma states_inv_D:
  assumes "states_inv m"
  shows "state_ok k (map_of (wm_states m) k)"
    and "\<not> wm_closed m \<Longrightarrow> says_ready (map_of (wm_states m) k) \<longleftrightarrow> k \<in> set (wm_ready_keys m) \<union> set (held_done (wm_removal m))"
  using assms unfolding states_inv_def by blast+

lemma states_of_kinds [simp]:
  "says_ready (Some (ready_state k))" "\<not> says_ready (Some (removed_state k))" "\<not> says_ready (Some (failed_state k f))" "\<not> says_ready None"
  "state_ok k (Some (ready_state k))" "state_ok k (Some (removed_state k))" "state_ok k (Some (failed_state k f))" "state_ok k None"
  by (simp_all add: says_ready_def state_ok_def expert_state_post_init_def)

lemma held_done_simps [simp]:
  "held_done None = []" "held_done (Some (q, Removal_Created)) = []" "held_done (Some (q, Removal_Done x)) = []"
  "held_done (Some (q, Removal_Holding d r)) = d"
  by (simp_all add: held_done_def)

lemma held_done_free: "lock_free m \<Longrightarrow> held_done (wm_removal m) = []"
  by (auto simp: lock_free_def held_done_def split: option.splits removal_status.splits)

text \<open>The invariant depends on four fields only.\<close>

lemma states_inv_cong:
  assumes "states_inv m" and "wm_states m' = wm_states m" and "wm_closed m' = wm_closed m"
    and "wm_ready_keys m' = wm_ready_keys m" and "held_done (wm_removal m') = held_done (wm_removal m)"
  shows "states_inv m'"
  using assms unfolding states_inv_def by (simp del: split_paired_All)

lemma states_inv_frame [simp]:
  "states_inv (m\<lparr>wm_tasks := ts\<rparr>) = states_inv m" "states_inv (m\<lparr>wm_load_tasks := lt\<rparr>) = states_inv m"
  "states_inv (m\<lparr>wm_ready := r\<rparr>) = states_inv m" "states_inv (m\<lparr>wm_fatal_error := e\<rparr>) = states_inv m"
  "states_inv (m\<lparr>wm_started := b\<rparr>) = states_inv m" "states_inv (m\<lparr>wm_shutting_down := b\<rparr>) = states_inv m"
  "states_inv (m\<lparr>wm_emitted := cs\<rparr>) = states_inv m" "states_inv (m\<lparr>wm_emitted_bytes := bs\<rparr>) = states_inv m"
  "states_inv (m\<lparr>wm_made := vs\<rparr>) = states_inv m" "states_inv (m\<lparr>wm_released := vs\<rparr>) = states_inv m"
  "states_inv (m\<lparr>wm_close := c\<rparr>) = states_inv m"
  by (simp_all add: states_inv_def)

lemma states_inv_helpers [simp]:
  "states_inv (emit cs m) = states_inv m" "states_inv (emit_device_bytes n m) = states_inv m"
  "states_inv (release_ready_weight v m) = states_inv m" "states_inv (start_load_locked k m) = states_inv m"
  "states_inv (set_phase i p m) = states_inv m" "states_inv (clear_cancel i m) = states_inv m"
  "states_inv (set_fatal k reason d m) = states_inv m"
  by (simp_all add: emit_def emit_device_bytes_def release_ready_weight_def start_load_locked_def set_phase_def clear_cancel_def set_fatal_def)

lemma states_inv_cancel [simp]: "states_inv (fold cancel_task is m) = states_inv m"
  using cancel_tasks_touch [of "is" m] by auto

text \<open>Changing the state of experts that are not ready, to something other than \<open>READY\<close>.\<close>

lemma states_inv_unready:
  assumes inv: "states_inv m" and lock: "lock_free m"
    and st: "\<And>k. map_of st k = map_of (wm_states m) k \<or> k \<notin> set (wm_ready_keys m) \<and> \<not> says_ready (map_of st k) \<and> state_ok k (map_of st k)"
  shows "states_inv (m\<lparr>wm_states := st\<rparr>)"
proof (rule states_invI)
  fix k
  show "state_ok k (map_of (wm_states (m\<lparr>wm_states := st\<rparr>)) k)" using st [of k] states_inv_D(1) [OF inv, of k] by auto
  assume "\<not> wm_closed (m\<lparr>wm_states := st\<rparr>)"
  then show "says_ready (map_of (wm_states (m\<lparr>wm_states := st\<rparr>)) k) =
      (k \<in> set (wm_ready_keys (m\<lparr>wm_states := st\<rparr>)) \<union> set (held_done (wm_removal (m\<lparr>wm_states := st\<rparr>))))"
    using st [of k] states_inv_D(2) [OF inv, of k] held_done_free [OF lock] by auto
qed

lemma states_inv_load_ended:
  assumes inv: "states_inv m" and lock: "lock_free m"
  shows "states_inv (load_ended i k c m)"
proof -
  define m1 where "m1 = (if map_of (wm_load_tasks m) k = Some i then m\<lparr>wm_load_tasks := AList.delete k (wm_load_tasks m)\<rparr> else m)"
  have m1: "states_inv m1" "lock_free m1" using inv lock by (simp_all add: m1_def lock_free_def)
  have "states_inv (m1\<lparr>wm_states := AList.delete k (wm_states m1)\<rparr>)" if "k \<notin> set (wm_ready_keys m1)"
    by (rule states_inv_unready [OF m1]) (use that in auto)
  then show ?thesis using m1(1) unfolding load_ended_def m1_def [symmetric] Let_def by simp
qed

lemma states_inv_finish_failure:
  assumes inv: "states_inv m" and lock: "lock_free m"
  shows "states_inv (finish_failure k f m)"
proof -
  obtain c st where s: "set_state_locked k (failed_state k f) m = (c, m\<lparr>wm_states := st\<rparr>)"
    "map_of st = (map_of (wm_states m))(k \<mapsto> failed_state k f)" using set_state_locked_touches by blast
  have "states_inv (m\<lparr>wm_states := st\<rparr>)" if "k \<notin> set (wm_ready_keys m)"
    by (rule states_inv_unready [OF inv lock]) (use that s(2) in auto)
  then show ?thesis using inv by (simp add: finish_failure_def s(1))
qed

lemma states_inv_resume:
  assumes "states_inv m"
  shows "states_inv (load_resume i event m)"
  using assms states_inv_load_ended [OF assms] states_inv_finish_failure [OF assms]
  by (simp add: load_resume_def load_step_def Let_def split: load_phase.splits load_event.splits)

lemma states_inv_apply:
  assumes inv: "states_inv m" and lock: "lock_free m"
  shows "states_inv (snd (apply_targets g ts m))"
proof (cases rule: apply_targets_cases [of g ts m])
  case (applied resolved c m2)
  from applied(7) show ?thesis
  proof (cases rule: applied_touches)
    case (1 ts' lt st n b)
    have "map_of st k = map_of (wm_states m) k \<or> k \<notin> set (wm_ready_keys m) \<and> \<not> says_ready (map_of st k) \<and> state_ok k (map_of st k)" for k
    proof (cases "k \<in> set (wm_ready_keys m)")
      case True
      then show ?thesis using 1(2) by blast
    next
      case False
      then show ?thesis using 1(3) [OF False] by simp
    qed
    then have "states_inv (m\<lparr>wm_states := st\<rparr>)" by (rule states_inv_unready [OF inv lock])
    then show ?thesis unfolding applied(8) 1(1) snd_conv by (rule states_inv_cong) simp_all
  qed
qed (use inv in simp)

lemma states_inv_inner:
  assumes inv: "states_inv m" and mem: "memory_inv m"
  shows "states_inv (inner_finish i m)"
proof -
  have "states_inv m'" if lock: "lock_free m" and fin: "finish_ready k v m = Some m'" for k v m'
    using mem
  proof (cases rule: finish_ready_cases [of m k v])
    case dropped
    with fin inv show ?thesis by auto
  next
    case (full c st f)
    have "states_inv (m\<lparr>wm_states := st\<rparr>)" by (rule states_inv_unready [OF inv lock]) (use full in auto)
    with full fin show ?thesis by auto
  next
    case (published c st n b)
    have m': "wm_states m' = st" "wm_ready_keys m' = wm_ready_keys m @ [k]" "wm_closed m' = wm_closed m" "wm_removal m' = wm_removal m"
      using published(1) fin by auto
    show ?thesis
    proof (rule states_invI)
      fix x
      show "state_ok x (map_of (wm_states m') x)"
        using states_inv_D(1) [OF inv, of x] published(2) by (simp add: m')
      show "says_ready (map_of (wm_states m') x) = (x \<in> set (wm_ready_keys m') \<union> set (held_done (wm_removal m')))"
        using states_inv_D(2) [OF inv published(3), of x] published(2) by (simp add: m')
    qed
  qed
  then show ?thesis using inv
    by (auto simp: inner_finish_def split: load_phase.splits option.splits)
qed

lemma states_inv_removal:
  assumes inv: "states_inv m" and mem: "memory_inv m"
  shows "states_inv (snd (remove_join g ks w m))" and "states_inv (remove_leave m)" and "states_inv (remove_start m)"
    and "states_inv (remove_finish m)" and "states_inv (remove_end m)"
proof -
  show "states_inv (snd (remove_join g ks w m))"
    by (rule states_inv_cong [OF inv]) (auto simp: remove_join_def split: sum.splits option.splits)
  show "states_inv (remove_leave m)"
    by (rule states_inv_cong [OF inv]) (auto simp: remove_leave_def split: option.splits removal_status.splits)
  show "states_inv (remove_start m)"
    using mem by (cases rule: remove_start_cases) (auto intro: states_inv_cong [OF inv] simp: inv)
  show "states_inv (remove_finish m)"
  proof (cases "\<exists>q done k rest. wm_removal m = Some (q, Removal_Holding done (k # rest))")
    case False
    then show ?thesis using inv remove_finish_other [of m] by metis
  next
    case True
    then obtain q don k rest where h: "wm_removal m = Some (q, Removal_Holding don (k # rest))" by blast
    from mem h show ?thesis
    proof (cases rule: holding_finish_cases)
      case (waits r)
      then show ?thesis using inv by simp
    next
      case (taken v r)
      have dist: "distinct (wm_ready_keys m)" using memory_inv_D(4) [OF mem] by (simp add: bytes_ok_def)
      show ?thesis unfolding taken(1)
        by (rule states_invI) (use states_inv_D [OF inv] taken(3) dist h in \<open>auto simp: set_remove1_eq\<close>)
    qed
  qed
  show "states_inv (remove_end m)"
  proof (cases "\<exists>q done. wm_removal m = Some (q, Removal_Holding done [])")
    case False
    then have "remove_end m = m" by (auto simp: remove_end_def split: option.splits removal_status.splits list.splits)
    with inv show ?thesis by simp
  next
    case True
    then obtain q don where h: "wm_removal m = Some (q, Removal_Holding don [])" by blast
    obtain c st where st: "fold mark_removed (rq_keys q) ([], m) = (c, m\<lparr>wm_states := st\<rparr>)"
      "\<And>k. map_of st k = (if k \<in> set (rq_keys q) then Some (removed_state k) else map_of (wm_states m) k)"
      using mark_removed_touches [of "rq_keys q" "[]" m] by blast
    have ok: "set don \<subseteq> set (rq_keys q)" "k \<in> set (rq_keys q) \<Longrightarrow> k \<notin> set (wm_ready_keys m)" for k
      using memory_inv_D(5) [OF mem] h by (auto simp: removal_ok_def)
    have e: "wm_states (remove_end m) = st" "wm_closed (remove_end m) = wm_closed m" "wm_ready_keys (remove_end m) = wm_ready_keys m"
      "held_done (wm_removal (remove_end m)) = []"
      by (simp_all add: remove_end_def h st(1) emit_device_bytes_def emit_def)
    show ?thesis
    proof (rule states_invI)
      fix k
      show "state_ok k (map_of (wm_states (remove_end m)) k)" using states_inv_D(1) [OF inv, of k] by (simp add: e st(2))
      assume "\<not> wm_closed (remove_end m)"
      then have "says_ready (map_of (wm_states m) k) \<longleftrightarrow> k \<in> set (wm_ready_keys m) \<or> k \<in> set don"
        using states_inv_D(2) [OF inv, of k] h by (simp add: e)
      then show "says_ready (map_of (wm_states (remove_end m)) k) = (k \<in> set (wm_ready_keys (remove_end m)) \<union> set (held_done (wm_removal (remove_end m))))"
        using ok(1) ok(2) [of k] by (auto simp: e st(2))
    qed
  qed
qed

lemma states_inv_closing:
  assumes inv: "states_inv m" and mem: "memory_inv m"
  shows "states_inv (close_begin m)" and "states_inv (close_gathered m)" and "states_inv (close_step m)"
proof -
  have "states_inv (m\<lparr>wm_closed := True, wm_close := c\<rparr>)" for c
    by (rule states_invI) (use states_inv_D(1) [OF inv] in simp_all)
  then show "states_inv (close_begin m)" using inv by (simp add: close_begin_def)
  show "states_inv (close_gathered m)" using inv by (simp add: close_gathered_def split: close_phase.splits)
  show "states_inv (close_step m)"
    using mem
  proof (cases rule: close_step_cases)
    case (ended b)
    have closed: "wm_closed m" using memory_inv_D(8) [OF mem] ended(1) by simp
    show ?thesis unfolding ended(2) by (rule states_invI) (use states_inv_D(1) [OF inv] closed in simp_all)
  qed (use inv in simp_all)
qed

lemma states_inv_step:
  assumes inv: "states_inv m" and mem: "memory_inv m"
  shows "states_inv (wm_apply op m)"
proof (cases op)
  case Op_Start
  then show ?thesis using inv by (simp add: wm_start_def)
next
  case Op_Shutdown
  then show ?thesis using inv by (simp add: begin_shutdown_def)
qed (simp_all del: ready_apply.simps add: inv states_inv_apply states_inv_resume states_inv_inner [OF inv mem] states_inv_removal [OF inv mem]
      states_inv_closing [OF inv mem])
section \<open>Ownership of the adapter's objects\<close>

definition held_by :: "'v load_task \<Rightarrow> 'v multiset" where
  "held_by t = (case lt_phase t of Finishing v _ \<Rightarrow> {#v#} | _ \<Rightarrow> {#})"

definition in_flight :: "'v load_task list \<Rightarrow> 'v multiset" where
  "in_flight ts = sum_list (map held_by ts)"

definition table_objects :: "(weight_key \<Rightarrow> 'v option) \<Rightarrow> 'v multiset" where
  "table_objects f = image_mset (\<lambda>k. the (f k)) (mset_set (dom f))"

definition objects_inv :: "'v weight_manager \<Rightarrow> bool" where
  "objects_inv m \<longleftrightarrow> mset (wm_made m) = table_objects (ready_vals (wm_ready m)) + in_flight (wm_tasks m) + mset (wm_released m)"

lemma in_flight_update:
  assumes "i < length ts"
  shows "in_flight (ts[i := t]) + held_by (ts ! i) = in_flight ts + held_by t"
proof -
  have "ts = take i ts @ ts ! i # drop (Suc i) ts" using assms by (rule id_take_nth_drop)
  then have "in_flight ts = in_flight (take i ts) + held_by (ts ! i) + in_flight (drop (Suc i) ts)"
    by (metis (no_types, lifting) add.assoc in_flight_def list.simps(9) map_append sum_list.Cons sum_list_append)
  moreover have "in_flight (ts[i := t]) = in_flight (take i ts) + held_by t + in_flight (drop (Suc i) ts)"
    using assms by (simp add: in_flight_def upd_conv_take_nth_drop add.assoc)
  ultimately show ?thesis by (simp add: ac_simps)
qed

lemma in_flight_same: "i < length ts \<Longrightarrow> held_by t = held_by (ts ! i) \<Longrightarrow> in_flight (ts[i := t]) = in_flight ts"
  using in_flight_update [of i ts t] by simp

lemma in_flight_append [simp]: "in_flight (ts @ [t]) = in_flight ts + held_by t"
  by (simp add: in_flight_def)

lemma held_by_cancel [simp]: "held_by (t\<lparr>lt_cancel := b\<rparr>) = held_by t" and held_by_created [simp]: "held_by \<lparr>lt_key = k, lt_phase = Created, lt_cancel = b\<rparr> = {#}"
  by (simp_all add: held_by_def)

lemma table_objects_insert:
  assumes "finite (dom f)" and "f k = None"
  shows "table_objects (f(k \<mapsto> v)) = table_objects f + {#v#}"
proof -
  have k: "k \<notin> dom f" using assms(2) by auto
  have "image_mset (\<lambda>x. the ((f(k \<mapsto> v)) x)) (mset_set (dom f)) = image_mset (\<lambda>x. the (f x)) (mset_set (dom f))"
    using k assms(1) by (intro image_mset_cong) auto
  then show ?thesis using assms k by (simp add: table_objects_def)
qed

lemma table_objects_delete:
  assumes "finite (dom f)" and "f k = Some v"
  shows "table_objects f = table_objects (f(k := None)) + {#v#}"
proof -
  have "(f(k := None))(k \<mapsto> v) = f" using assms(2) by (simp add: fun_eq_iff)
  then show ?thesis using table_objects_insert [of "f(k := None)" k v] assms(1) by simp
qed

lemma finite_vals: "memory_inv m \<Longrightarrow> finite (dom (ready_vals (wm_ready m)))"
proof (rule finite_subset)
  assume "memory_inv m"
  then show "dom (ready_vals (wm_ready m)) \<subseteq> set (live_keys m)"
    using memory_inv_D(2) by (auto simp: dom_def simp del: ready_vals_None split_paired_All)
qed simp

text \<open>Helpers that leave the owners alone.\<close>

lemma cancel_task_flight: "in_flight (wm_tasks (cancel_task i m)) = in_flight (wm_tasks m)"
  by (simp add: cancel_task_def in_flight_same)

lemma cancel_tasks_flight: "in_flight (wm_tasks (fold cancel_task is m)) = in_flight (wm_tasks m)"
  by (induction "is" arbitrary: m) (simp_all add: cancel_task_flight)

lemma drop_target_flight: "in_flight (wm_tasks (snd (drop_target k cm))) = in_flight (wm_tasks (snd cm))"
proof (cases cm)
  case (Pair c m)
  let ?m1 = "case map_of (wm_load_tasks m) k of Some i \<Rightarrow> cancel_task i m | None \<Rightarrow> m"
  have 1: "in_flight (wm_tasks ?m1) = in_flight (wm_tasks m)" by (simp add: cancel_task_flight split: option.splits)
  obtain d st where "set_state_locked k (removed_state k) ?m1 = (d, ?m1\<lparr>wm_states := st\<rparr>)" using set_state_locked_touches by blast
  then show ?thesis using 1 by (simp add: Pair drop_target_def Let_def)
qed

lemma drop_targets_flight: "in_flight (wm_tasks (snd (fold drop_target ks cm))) = in_flight (wm_tasks (snd cm))"
  by (induction ks arbitrary: cm) (simp_all add: drop_target_flight)

lemma keep_targets_flight: "in_flight (wm_tasks (fold keep_target ks m)) = in_flight (wm_tasks m)"
proof (induction ks arbitrary: m)
  case (Cons k ks)
  have "in_flight (wm_tasks (keep_target k m)) = in_flight (wm_tasks m)"
    by (simp add: keep_target_def start_load_locked_def Let_def)
  with Cons show ?case by simp
qed simp

lemma objects_inv_same:
  assumes "objects_inv m" and "wm_made m' = wm_made m" and "wm_released m' = wm_released m"
    and "ready_vals (wm_ready m') = ready_vals (wm_ready m)" and "in_flight (wm_tasks m') = in_flight (wm_tasks m)"
  shows "objects_inv m'"
  using assms by (simp add: objects_inv_def)

lemma apply_targets_owners:
  "wm_made (snd (apply_targets g ts m)) = wm_made m" "wm_released (snd (apply_targets g ts m)) = wm_released m"
  "wm_ready (snd (apply_targets g ts m)) = wm_ready m" "in_flight (wm_tasks (snd (apply_targets g ts m))) = in_flight (wm_tasks m)"
proof -
  have "wm_made (snd (apply_targets g ts m)) = wm_made m \<and> wm_released (snd (apply_targets g ts m)) = wm_released m \<and>
      wm_ready (snd (apply_targets g ts m)) = wm_ready m \<and> in_flight (wm_tasks (snd (apply_targets g ts m))) = in_flight (wm_tasks m)"
  proof (cases rule: apply_targets_cases [of g ts m])
  case (applied resolved c m2)
  have fl: "in_flight (wm_tasks (emit c (reset_progress g resolved (fold keep_target (map fst resolved) m2)))) = in_flight (wm_tasks m)"
    using drop_targets_flight [of "filter (\<lambda>k. map_of resolved k = None) (map fst (wm_targets m))"
        "([], m\<lparr>wm_placement_generation := g, wm_targets := resolved\<rparr>)"] applied(7) keep_targets_flight [of "map fst resolved" m2]
    by (simp add: emit_def reset_progress_def Let_def)
  from applied(7) show ?thesis
  proof (cases rule: applied_touches)
    case (1 ts' lt st n b)
    show ?thesis using fl unfolding applied(8) snd_conv 1(1) by simp
  qed
  qed simp
  then show "wm_made (snd (apply_targets g ts m)) = wm_made m" "wm_released (snd (apply_targets g ts m)) = wm_released m"
    "wm_ready (snd (apply_targets g ts m)) = wm_ready m" "in_flight (wm_tasks (snd (apply_targets g ts m))) = in_flight (wm_tasks m)"
    by blast+
qed

lemma objects_set_phase:
  assumes "objects_inv m" and "i < length (wm_tasks m)" and "held_by ((wm_tasks m ! i)\<lparr>lt_phase := p\<rparr>) = held_by (wm_tasks m ! i)"
  shows "objects_inv (set_phase i p m)"
  by (rule objects_inv_same [OF assms(1)]) (use assms(2,3) in \<open>simp_all add: set_phase_def in_flight_same\<close>)

lemma load_ended_owners:
  "wm_made (load_ended i k c m) = wm_made m" "wm_released (load_ended i k c m) = wm_released m"
  "wm_ready (load_ended i k c m) = wm_ready m" "in_flight (wm_tasks (load_ended i k c m)) = in_flight (wm_tasks m)"
  "\<exists>ts. wm_tasks (load_ended i k c m) = wm_tasks m @ ts"
  by (simp_all add: load_ended_def Let_def start_load_locked_def)

lemma finish_failure_owners:
  "wm_made (finish_failure k f m) = wm_made m" "wm_released (finish_failure k f m) = wm_released m"
  "wm_ready (finish_failure k f m) = wm_ready m" "wm_tasks (finish_failure k f m) = wm_tasks m"
  using set_state_locked_touches [of k "failed_state k f" m] by (auto simp: finish_failure_def emit_def)

lemma set_fatal_owners:
  "wm_made (set_fatal k r d m) = wm_made m" "wm_released (set_fatal k r d m) = wm_released m"
  "wm_ready (set_fatal k r d m) = wm_ready m" "wm_tasks (set_fatal k r d m) = wm_tasks m"
  by (simp_all add: set_fatal_def)
lemma objects_inv_load_step:
  assumes inv: "objects_inv m" and i: "i < length (wm_tasks m)" and p: "lt_phase (wm_tasks m ! i) = p"
  shows "objects_inv (load_step i k p event m)"
proof -
  have hold: "held_by (wm_tasks m ! i) = {#}" if "\<And>v c. p \<noteq> Finishing v c"
    using that p by (simp add: held_by_def split: load_phase.splits)
  have move: "objects_inv (set_phase i p' m')"
    if "\<And>v c. p \<noteq> Finishing v c" "\<And>v c. p' \<noteq> Finishing v c" "objects_inv m'" "\<exists>ts. wm_tasks m' = wm_tasks m @ ts" for p' m'
  proof (rule objects_set_phase [OF that(3)])
    show "i < length (wm_tasks m')" using that(4) i by auto
    have "wm_tasks m' ! i = wm_tasks m ! i" using that(4) i by (auto simp: nth_append)
    then show "held_by ((wm_tasks m' ! i)\<lparr>lt_phase := p'\<rparr>) = held_by (wm_tasks m' ! i)"
      using that(2) hold [OF that(1)] by (simp add: held_by_def split: load_phase.splits)
  qed
  show ?thesis
  proof (cases p)
    case (Converting src c)
    show ?thesis
    proof (cases event)
      case (Converted v)
      let ?m = "m\<lparr>wm_made := wm_made m @ [v]\<rparr>"
      have z: "held_by (wm_tasks m ! i) = {#}" by (rule hold) (simp add: Converting)
      show ?thesis
      proof (cases c)
        case True
        have "objects_inv (release_ready_weight v ?m)" using inv by (simp add: objects_inv_def release_ready_weight_def)
        then have "objects_inv (set_phase i (Ending True) (release_ready_weight v ?m))"
          by (intro move) (simp_all add: Converting release_ready_weight_def)
        then show ?thesis by (simp add: load_step_def Converting Converted True Let_def)
      next
        case False
        have "in_flight ((wm_tasks m)[i := (wm_tasks m ! i)\<lparr>lt_phase := Finishing v False\<rparr>]) = in_flight (wm_tasks m) + {#v#}"
          using in_flight_update [OF i, of "(wm_tasks m ! i)\<lparr>lt_phase := Finishing v False\<rparr>"] z by (simp add: held_by_def)
        then have "objects_inv (set_phase i (Finishing v False) ?m)" using inv by (simp add: objects_inv_def set_phase_def)
        then show ?thesis by (simp add: load_step_def Converting Converted False Let_def)
      qed
    qed (use inv in \<open>auto simp: load_step_def Converting intro!: move\<close>)
  next
    case (Failing f)
    have "objects_inv (finish_failure k f m)"
      by (rule objects_inv_same [OF inv]) (simp_all add: finish_failure_owners)
    then show ?thesis using inv by (auto simp: load_step_def Failing finish_failure_owners intro!: move)
  next
    case (Setting_Fatal r d)
    have "objects_inv (set_fatal k r d m)"
      by (rule objects_inv_same [OF inv]) (simp_all add: set_fatal_owners)
    then show ?thesis using inv by (auto simp: load_step_def Setting_Fatal set_fatal_owners intro!: move)
  next
    case (Ending c)
    have "objects_inv (load_ended i k c m)"
      by (rule objects_inv_same [OF inv]) (simp_all add: load_ended_owners)
    then show ?thesis using inv load_ended_owners(5) [of i k c m] by (auto simp: load_step_def Ending intro!: move)
  qed (use inv in \<open>auto simp: load_step_def intro!: move split: load_event.splits\<close>)
qed

lemma objects_inv_resume:
  assumes inv: "objects_inv m"
  shows "objects_inv (load_resume i event m)"
proof (cases "i < length (wm_tasks m)")
  case True
  have c: "objects_inv (clear_cancel i m)"
    by (rule objects_inv_same [OF inv]) (use True in \<open>simp_all add: clear_cancel_def in_flight_same\<close>)
  have "objects_inv (set_phase i (cancelled_phase (lt_phase (wm_tasks m ! i))) (clear_cancel i m))"
    by (rule objects_set_phase [OF c])
      (use True in \<open>simp_all add: clear_cancel_def held_by_def cancelled_phase_def split: load_phase.splits\<close>)
  then show ?thesis using True objects_inv_load_step [OF inv True refl] by (simp add: load_resume_def Let_def)
qed (simp add: load_resume_def inv)

lemma objects_inv_finish_ready:
  assumes inv: "objects_inv m" and mem: "memory_inv m" and fin: "finish_ready k v m = Some m'"
  shows "wm_tasks m' = wm_tasks m"
    and "mset (wm_made m') + {#v#} = table_objects (ready_vals (wm_ready m')) + in_flight (wm_tasks m') + mset (wm_released m')"
proof -
  have "wm_tasks m' = wm_tasks m \<and>
      mset (wm_made m') + {#v#} = table_objects (ready_vals (wm_ready m')) + in_flight (wm_tasks m') + mset (wm_released m')"
    using mem
  proof (cases rule: finish_ready_cases [of m k v])
    case dropped
    with fin inv show ?thesis by (auto simp: release_ready_weight_def objects_inv_def)
  next
    case (full c st f)
    with fin inv show ?thesis by (auto simp: release_ready_weight_def objects_inv_def emit_def)
  next
    case (published c st n b)
    have m': "wm_tasks m' = wm_tasks m" "wm_made m' = wm_made m" "wm_released m' = wm_released m"
      "wm_ready m' = ready_apply (Publish (fst k) (snd k) (Some v)) (wm_ready m)"
      using published(1) fin by (auto simp del: ready_apply.simps)
    have "table_objects (ready_vals (wm_ready m')) = table_objects (ready_vals (wm_ready m)) + {#v#}"
      unfolding m'(4) table_agrees_publish(2) [OF mem published(3-5)]
      by (rule table_objects_insert [OF finite_vals [OF mem] table_agrees_publish(4) [OF mem published(3-5)]])
    with inv show ?thesis by (simp add: objects_inv_def m'(1-3))
  qed
  then show "wm_tasks m' = wm_tasks m"
    "mset (wm_made m') + {#v#} = table_objects (ready_vals (wm_ready m')) + in_flight (wm_tasks m') + mset (wm_released m')" by blast+
qed

lemma objects_inv_inner:
  assumes inv: "objects_inv m" and mem: "memory_inv m"
  shows "objects_inv (inner_finish i m)"
proof -
  have "objects_inv (set_phase i (Finished c) m')"
    if i: "i < length (wm_tasks m)" and p: "lt_phase (wm_tasks m ! i) = Finishing v c" and fin: "finish_ready k v m = Some m'" for k v c m'
  proof -
    note F = objects_inv_finish_ready [OF inv mem fin]
    let ?ts = "wm_tasks (set_phase i (Finished c) m')"
    have fl: "in_flight (wm_tasks m') = in_flight ?ts + {#v#}"
      using in_flight_update [OF i, of "(wm_tasks m ! i)\<lparr>lt_phase := Finished c\<rparr>"] p by (simp add: held_by_def set_phase_def F(1))
    have "mset (wm_made m') = table_objects (ready_vals (wm_ready m')) + in_flight ?ts + mset (wm_released m')"
      using F(2) unfolding fl by simp
    then show ?thesis unfolding objects_inv_def by (simp add: set_phase_def)
  qed
  then show ?thesis using inv by (auto simp: inner_finish_def split: load_phase.splits option.splits)
qed

lemma objects_inv_taken:
  assumes inv: "objects_inv m" and mem: "memory_inv m" and v: "ready_vals (wm_ready m) k = Some v"
    and m': "wm_made m' = wm_made m" "wm_tasks m' = wm_tasks m" "wm_released m' = wm_released m @ [v]"
      "ready_vals (wm_ready m') = (ready_vals (wm_ready m))(k := None)"
  shows "objects_inv m'"
  using inv table_objects_delete [OF finite_vals [OF mem] v] by (simp add: objects_inv_def m')

lemma objects_inv_removal:
  assumes inv: "objects_inv m" and mem: "memory_inv m"
  shows "objects_inv (snd (remove_join g ks w m))" and "objects_inv (remove_leave m)" and "objects_inv (remove_start m)"
    and "objects_inv (remove_finish m)" and "objects_inv (remove_end m)"
proof -
  show "objects_inv (snd (remove_join g ks w m))"
    by (rule objects_inv_same [OF inv]) (auto simp: remove_join_def split: sum.splits option.splits)
  show "objects_inv (remove_leave m)"
    by (rule objects_inv_same [OF inv]) (auto simp: remove_leave_def split: option.splits removal_status.splits)
  show "objects_inv (remove_start m)"
    using mem by (cases rule: remove_start_cases) (auto intro: objects_inv_same [OF inv] simp: inv)
  show "objects_inv (remove_finish m)"
  proof (cases "\<exists>q done k rest. wm_removal m = Some (q, Removal_Holding done (k # rest))")
    case False
    then show ?thesis using inv remove_finish_other [of m] by metis
  next
    case True
    then obtain q don k rest where h: "wm_removal m = Some (q, Removal_Holding don (k # rest))" by blast
    from mem h show ?thesis
    proof (cases rule: holding_finish_cases)
      case (waits r)
      show ?thesis by (rule objects_inv_same [OF inv]) (simp_all add: waits(1,4))
    next
      case (taken v r)
      show ?thesis by (rule objects_inv_taken [OF inv mem taken(2)]) (simp_all add: taken(1,6))
    qed
  qed
  show "objects_inv (remove_end m)"
  proof (rule objects_inv_same [OF inv])
    obtain c st where "fold mark_removed ks ([], m) = (c ks, m\<lparr>wm_states := st ks\<rparr>)" for ks using mark_removed_touches [of _ "[]" m] by metis
    then show "wm_made (remove_end m) = wm_made m" "wm_released (remove_end m) = wm_released m"
      "ready_vals (wm_ready (remove_end m)) = ready_vals (wm_ready m)" "in_flight (wm_tasks (remove_end m)) = in_flight (wm_tasks m)"
      by (simp_all add: remove_end_def emit_def emit_device_bytes_def split: option.splits prod.splits removal_status.splits list.splits)
  qed
qed

lemma objects_inv_closing:
  assumes inv: "objects_inv m" and mem: "memory_inv m"
  shows "objects_inv (close_begin m)" and "objects_inv (close_gathered m)" and "objects_inv (close_step m)"
proof -
  show "objects_inv (close_begin m)"
  proof (cases "wm_closed m")
    case False
    let ?m = "m\<lparr>wm_closed := True, wm_close := Close_Gathering (map snd (wm_load_tasks m))\<rparr>"
    obtain ts where t: "fold cancel_task (map snd (wm_load_tasks m)) ?m = ?m\<lparr>wm_tasks := ts\<rparr>" using cancel_tasks_touch by blast
    have "in_flight ts = in_flight (wm_tasks m)" using cancel_tasks_flight [of "map snd (wm_load_tasks m)" ?m] by (simp add: t)
    then show ?thesis using False inv by (simp add: close_begin_def t objects_inv_def)
  qed (simp add: close_begin_def inv)
  show "objects_inv (close_gathered m)"
    by (rule objects_inv_same [OF inv]) (simp_all add: close_gathered_def split: close_phase.splits)
  show "objects_inv (close_step m)"
    using mem
  proof (cases rule: close_step_cases)
    case (taken k rest v r)
    show ?thesis by (rule objects_inv_taken [OF inv mem taken(3)]) (simp_all add: taken(2,6))
  qed (use inv in \<open>auto intro: objects_inv_same [OF inv]\<close>)
qed

lemma objects_inv_step:
  assumes inv: "objects_inv m" and mem: "memory_inv m"
  shows "objects_inv (wm_apply op m)"
proof (cases op)
  case Op_Start
  show ?thesis by (rule objects_inv_same [OF inv]) (simp_all add: Op_Start wm_start_def)
next
  case (Op_Apply g ts)
  have "objects_inv (snd (apply_targets g ts m))" by (rule objects_inv_same [OF inv]) (simp_all add: apply_targets_owners)
  then show ?thesis using inv by (simp add: Op_Apply)
next
  case Op_Shutdown
  obtain ts where t: "fold cancel_task (map snd (wm_load_tasks m)) (m\<lparr>wm_shutting_down := True\<rparr>) = m\<lparr>wm_shutting_down := True, wm_tasks := ts\<rparr>"
    using cancel_tasks_touch by blast
  have "in_flight ts = in_flight (wm_tasks m)"
    using cancel_tasks_flight [of "map snd (wm_load_tasks m)" "m\<lparr>wm_shutting_down := True\<rparr>"] by (simp add: t)
  then show ?thesis using inv by (simp add: Op_Shutdown begin_shutdown_def t objects_inv_def)
next
  case (Op_Acquire l es)
  show ?thesis
    by (rule objects_inv_same [OF inv]) (simp_all del: ready_apply.simps add: Op_Acquire lease_ops_keep(1) [OF memory_inv_D(1) [OF mem]])
next
  case (Op_Release i)
  show ?thesis
    by (rule objects_inv_same [OF inv]) (simp_all del: ready_apply.simps add: Op_Release lease_ops_keep(1) [OF memory_inv_D(1) [OF mem]])
qed (simp_all add: inv objects_inv_resume objects_inv_inner [OF inv mem] objects_inv_removal [OF inv mem] objects_inv_closing [OF inv mem])

end
