(* ===== verification/Manager_Coverage.thy ===== *)
theory Manager_Coverage
  imports Manager_Invariants
begin

text \<open>
  No assigned expert is forgotten: it has a reported state or a running load. Three kinds of events can break
  this, each excluded by \<open>undisturbed\<close>: a placement applied while the load of a target that is not ready is between its
  result and \<open>_load_ended\<close>, a cancellation delivered before a load task's first step or at the lock of
  \<open>_load_ended\<close>, and a loader exception other than \<open>WeightLoadFailed\<close>.
\<close>

section \<open>Load tasks and their table\<close>

definition settled :: "'v load_phase \<Rightarrow> bool" where
  "settled p \<longleftrightarrow> p \<in> {Finished False, Ending False}"

definition tasks_ok :: "'v weight_manager \<Rightarrow> bool" where
  "tasks_ok m \<longleftrightarrow> (\<forall>k i. map_of (wm_load_tasks m) k = Some i \<longrightarrow>
     i < length (wm_tasks m) \<and> lt_key (wm_tasks m ! i) = k \<and> lt_phase (wm_tasks m ! i) \<noteq> Task_Done \<and>
     (settled (lt_phase (wm_tasks m ! i)) \<longrightarrow> map_of (wm_targets m) k \<noteq> None \<longrightarrow>
        map_of (wm_states m) k \<noteq> None \<or> wm_fatal_error m \<noteq> None \<or> wm_closed m))"

definition covered :: "'v weight_manager \<Rightarrow> bool" where
  "covered m \<longleftrightarrow> (\<forall>k. map_of (wm_targets m) k \<noteq> None \<longrightarrow> map_of (wm_states m) k \<noteq> None \<or> map_of (wm_load_tasks m) k \<noteq> None \<or>
     wm_shutting_down m \<or> wm_closed m \<or> wm_fatal_error m \<noteq> None)"

definition undisturbed :: "'v wm_op \<Rightarrow> 'v weight_manager \<Rightarrow> bool" where
  "undisturbed op m =
     (case op of
        Op_Apply g targets \<Rightarrow>
          \<not> (\<exists>k\<in>set (map tx_key targets). case map_of (wm_load_tasks m) k of
               Some i \<Rightarrow> settled (lt_phase (wm_tasks m ! i)) \<and> k \<notin> set (wm_ready_keys m) | None \<Rightarrow> False)
      | Op_Resume i event \<Rightarrow>
          \<not> (i < length (wm_tasks m) \<and>
             (if lt_cancel (wm_tasks m ! i)
              then (case lt_phase (wm_tasks m ! i) of Created \<Rightarrow> True | Ending _ \<Rightarrow> True | _ \<Rightarrow> False)
              else lt_phase (wm_tasks m ! i) = Loading \<and> event = Load_Raised))
      | _ \<Rightarrow> True)"

fun undisturbed_run :: "'v wm_op list \<Rightarrow> 'v weight_manager \<Rightarrow> bool" where
  "undisturbed_run [] m = True"
| "undisturbed_run (op # ops) m = (undisturbed op m \<and> undisturbed_run ops (wm_apply op m))"

lemma tasks_ok_D:
  assumes "tasks_ok m" and "map_of (wm_load_tasks m) k = Some i"
  shows "i < length (wm_tasks m)" and "lt_key (wm_tasks m ! i) = k" and "lt_phase (wm_tasks m ! i) \<noteq> Task_Done"
    and "settled (lt_phase (wm_tasks m ! i)) \<Longrightarrow> map_of (wm_targets m) k \<noteq> None \<Longrightarrow> map_of (wm_states m) k \<noteq> None \<or> wm_fatal_error m \<noteq> None \<or> wm_closed m"
  using assms unfolding tasks_ok_def by blast+

lemma tasks_okI:
  assumes "\<And>k i. map_of (wm_load_tasks m) k = Some i \<Longrightarrow> i < length (wm_tasks m) \<and> lt_key (wm_tasks m ! i) = k \<and>
      lt_phase (wm_tasks m ! i) \<noteq> Task_Done \<and> (settled (lt_phase (wm_tasks m ! i)) \<longrightarrow> map_of (wm_targets m) k \<noteq> None \<longrightarrow>
        map_of (wm_states m) k \<noteq> None \<or> wm_fatal_error m \<noteq> None \<or> wm_closed m)"
  shows "tasks_ok m"
  using assms unfolding tasks_ok_def by blast

lemma covered_D:
  assumes "covered m" and "map_of (wm_targets m) k \<noteq> None"
  shows "map_of (wm_states m) k \<noteq> None \<or> map_of (wm_load_tasks m) k \<noteq> None \<or> wm_shutting_down m \<or> wm_closed m \<or> wm_fatal_error m \<noteq> None"
  using assms unfolding covered_def by blast

text \<open>Steps that only add states, set flags, or change parts the two predicates do not read.\<close>

definition only_adds :: "'v weight_manager \<Rightarrow> 'v weight_manager \<Rightarrow> bool" where
  "only_adds m m' \<longleftrightarrow> wm_load_tasks m' = wm_load_tasks m \<and> wm_targets m' = wm_targets m \<and>
     length (wm_tasks m') = length (wm_tasks m) \<and>
     (\<forall>i. lt_key (wm_tasks m' ! i) = lt_key (wm_tasks m ! i) \<and> lt_phase (wm_tasks m' ! i) = lt_phase (wm_tasks m ! i)) \<and>
     (\<forall>k. map_of (wm_states m) k \<noteq> None \<longrightarrow> map_of (wm_states m') k \<noteq> None) \<and>
     (wm_fatal_error m \<noteq> None \<longrightarrow> wm_fatal_error m' \<noteq> None) \<and>
     (wm_shutting_down m \<longrightarrow> wm_shutting_down m') \<and> (wm_closed m \<longrightarrow> wm_closed m')"

lemma only_adds_refl [simp]: "only_adds m m"
  by (simp add: only_adds_def)

lemma only_adds_trans: "only_adds m m' \<Longrightarrow> only_adds m' m'' \<Longrightarrow> only_adds m m''"
  unfolding only_adds_def by (simp del: split_paired_All)

lemma only_adds_keeps:
  assumes a: "only_adds m m'" and t: "tasks_ok m" and c: "covered m"
  shows "tasks_ok m'" and "covered m'"
proof -
  note A = a [unfolded only_adds_def]
  show "tasks_ok m'"
  proof (rule tasks_okI)
    fix k i assume "map_of (wm_load_tasks m') k = Some i"
    then have m: "map_of (wm_load_tasks m) k = Some i" using A by simp
    show "i < length (wm_tasks m') \<and> lt_key (wm_tasks m' ! i) = k \<and> lt_phase (wm_tasks m' ! i) \<noteq> Task_Done \<and>
        (settled (lt_phase (wm_tasks m' ! i)) \<longrightarrow> map_of (wm_targets m') k \<noteq> None \<longrightarrow> map_of (wm_states m') k \<noteq> None \<or> wm_fatal_error m' \<noteq> None \<or> wm_closed m')"
      using tasks_ok_D [OF t m] A by metis
  qed
  show "covered m'"
    unfolding covered_def
  proof (intro allI impI)
    fix k assume "map_of (wm_targets m') k \<noteq> None"
    then have "map_of (wm_targets m) k \<noteq> None" using A by simp
    from covered_D [OF c this] A show "map_of (wm_states m') k \<noteq> None \<or> map_of (wm_load_tasks m') k \<noteq> None \<or> wm_shutting_down m' \<or> wm_closed m' \<or> wm_fatal_error m' \<noteq> None"
      by metis
  qed
qed

lemma only_adds_cancel: "only_adds m (cancel_task i m)"
  by (simp add: only_adds_def cancel_task_def nth_list_update)

lemma only_adds_cancels: "only_adds m (fold cancel_task is m)"
  by (induction "is" arbitrary: m) (auto intro: only_adds_trans only_adds_cancel)

lemma only_adds_states:
  assumes "map_of st = (map_of (wm_states m))(k \<mapsto> s)"
  shows "only_adds m (m\<lparr>wm_states := st\<rparr>)"
  using assms by (simp add: only_adds_def)
section \<open>Steps of a load task\<close>

lemma covered_set_phase [simp]: "covered (set_phase i p m) = covered m" "covered (clear_cancel i m) = covered m"
  by (simp_all add: covered_def set_phase_def clear_cancel_def)

lemma tasks_ok_phase:
  assumes t: "tasks_ok m" and i: "i < length (wm_tasks m)" and p: "p \<noteq> Task_Done"
    and s: "settled p \<Longrightarrow> map_of (wm_load_tasks m) (lt_key (wm_tasks m ! i)) = Some i \<Longrightarrow>
      map_of (wm_targets m) (lt_key (wm_tasks m ! i)) \<noteq> None \<Longrightarrow>
      map_of (wm_states m) (lt_key (wm_tasks m ! i)) \<noteq> None \<or> wm_fatal_error m \<noteq> None \<or> wm_closed m"
  shows "tasks_ok (set_phase i p m)"
proof (rule tasks_okI)
  fix k j assume "map_of (wm_load_tasks (set_phase i p m)) k = Some j"
  then have kj: "map_of (wm_load_tasks m) k = Some j" by (simp add: set_phase_def)
  note J = tasks_ok_D [OF t kj]
  have eq: "wm_targets (set_phase i p m) = wm_targets m" "wm_states (set_phase i p m) = wm_states m"
    "wm_fatal_error (set_phase i p m) = wm_fatal_error m" "wm_closed (set_phase i p m) = wm_closed m"
    "wm_tasks (set_phase i p m) = (wm_tasks m)[i := (wm_tasks m ! i)\<lparr>lt_phase := p\<rparr>]" by (simp_all add: set_phase_def)
  show "j < length (wm_tasks (set_phase i p m)) \<and> lt_key (wm_tasks (set_phase i p m) ! j) = k \<and>
      lt_phase (wm_tasks (set_phase i p m) ! j) \<noteq> Task_Done \<and> (settled (lt_phase (wm_tasks (set_phase i p m) ! j)) \<longrightarrow>
        map_of (wm_targets (set_phase i p m)) k \<noteq> None \<longrightarrow> map_of (wm_states (set_phase i p m)) k \<noteq> None \<or>
        wm_fatal_error (set_phase i p m) \<noteq> None \<or> wm_closed (set_phase i p m))"
  proof (cases "j = i")
    case True
    then have "lt_key (wm_tasks m ! i) = k" "map_of (wm_load_tasks m) k = Some i" using J(2) kj by simp_all
    then show ?thesis unfolding eq True using i p s by simp
  next
    case False
    then show ?thesis unfolding eq using J by (simp del: not_None_eq)
  qed
qed

lemma only_adds_helpers [simp]:
  "only_adds m (emit cs m) = True" "only_adds m (emit_device_bytes n m) = True" "only_adds m (release_ready_weight v m) = True"
  "only_adds m (set_fatal k reason d m) = True" "only_adds m (m\<lparr>wm_made := vs\<rparr>) = True" "only_adds m (m\<lparr>wm_released := vs\<rparr>) = True"
  "only_adds m (m\<lparr>wm_ready := r\<rparr>) = True" "only_adds m (m\<lparr>wm_removal := q\<rparr>) = True" "only_adds m (m\<lparr>wm_started := b\<rparr>) = True"
  "only_adds m (m\<lparr>wm_close := c\<rparr>) = True" "only_adds m (m\<lparr>wm_shutting_down := True\<rparr>) = True" "only_adds m (m\<lparr>wm_closed := True\<rparr>) = True"
  by (simp_all add: only_adds_def emit_def emit_device_bytes_def release_ready_weight_def set_fatal_def)

lemma only_adds_finish_failure: "only_adds m (finish_failure k f m)"
proof -
  obtain c st where "set_state_locked k (failed_state k f) m = (c, m\<lparr>wm_states := st\<rparr>)" "map_of st = (map_of (wm_states m))(k \<mapsto> failed_state k f)"
    using set_state_locked_touches by blast
  then show ?thesis using only_adds_trans [OF only_adds_states [of st m k] iffD2 [OF only_adds_helpers(1) TrueI]] by (simp add: finish_failure_def)
qed

lemma ready_has_state:
  assumes "states_inv m" and "k \<in> set (wm_ready_keys m)" and "\<not> wm_closed m"
  shows "map_of (wm_states m) k \<noteq> None"
proof -
  have "says_ready (map_of (wm_states m) k)" using states_inv_D(2) [OF assms(1,3), of k] assms(2) by simp
  then show ?thesis by (auto simp: says_ready_def split: option.splits)
qed

lemma finish_failure_state:
  assumes "states_inv m" and "map_of (wm_targets m) k \<noteq> None"
  shows "map_of (wm_states (finish_failure k f m)) k \<noteq> None \<or> wm_closed (finish_failure k f m)"
proof -
  obtain c st where "set_state_locked k (failed_state k f) m = (c, m\<lparr>wm_states := st\<rparr>)" "map_of st = (map_of (wm_states m))(k \<mapsto> failed_state k f)"
    using set_state_locked_touches by blast
  then show ?thesis using assms(2) ready_has_state [OF assms(1), of k] by (auto simp: finish_failure_def emit_def)
qed

lemma settled_simps [simp]:
  "settled (Finished c) = (\<not> c)" "settled (Ending c) = (\<not> c)" "\<not> settled Created" "\<not> settled Waiting"
  "\<not> settled Loading" "\<not> settled (Converting src c)" "\<not> settled (Failing f)" "\<not> settled (Setting_Fatal r d)" "\<not> settled (Finishing v c)"
  by (simp_all add: settled_def)

lemma load_ended_ok:
  assumes t: "tasks_ok m" and c: "covered m" and st: "states_inv m" and i: "i < length (wm_tasks m)"
    and p: "lt_phase (wm_tasks m ! i) = Ending b" and k: "lt_key (wm_tasks m ! i) = k"
  shows "tasks_ok (set_phase i Task_Done (load_ended i k b m)) \<and> covered (set_phase i Task_Done (load_ended i k b m))"
proof -
  define restart where "restart \<longleftrightarrow> b \<and> \<not> wm_closed m \<and> \<not> wm_shutting_down m \<and> map_of (wm_targets m) k \<noteq> None \<and> k \<notin> set (wm_ready_keys m)"
  define m' where "m' = load_ended i k b m"
  have f: "wm_targets m' = wm_targets m" "wm_closed m' = wm_closed m" "wm_shutting_down m' = wm_shutting_down m" "wm_fatal_error m' = wm_fatal_error m"
    "map_of (wm_states m') = (if restart then (map_of (wm_states m))(k := None) else map_of (wm_states m))"
    "wm_tasks m' = wm_tasks m @ (if restart then [\<lparr>lt_key = k, lt_phase = Created, lt_cancel = False\<rparr>] else [])"
    by (simp_all add: m'_def load_ended_def Let_def restart_def start_load_locked_def del: not_None_eq)
  have l: "map_of (wm_load_tasks m') x = (if x = k then if restart then Some (length (wm_tasks m))
        else if map_of (wm_load_tasks m) k = Some i then None else map_of (wm_load_tasks m) k else map_of (wm_load_tasks m) x)" for x
    by (simp add: m'_def load_ended_def Let_def restart_def start_load_locked_def del: not_None_eq)
  have cov: "covered m'"
    unfolding covered_def
  proof (intro allI impI)
    fix x assume "map_of (wm_targets m') x \<noteq> None"
    then have tx: "map_of (wm_targets m) x \<noteq> None" by (simp add: f)
    show "map_of (wm_states m') x \<noteq> None \<or> map_of (wm_load_tasks m') x \<noteq> None \<or> wm_shutting_down m' \<or> wm_closed m' \<or> wm_fatal_error m' \<noteq> None"
    proof (cases "x = k \<and> \<not> restart \<and> map_of (wm_load_tasks m) k = Some i")
      case True
      then have ki: "map_of (wm_load_tasks m) k = Some i" and x: "x = k" and nr: "\<not> restart" by simp_all
      show ?thesis
      proof (cases b)
        case False
        then show ?thesis using tasks_ok_D(4) [OF t ki] tx x p nr by (simp add: f del: not_None_eq) blast
      next
        case True
        then show ?thesis using nr ready_has_state [OF st, of k] tx x by (auto simp: restart_def f)
      qed
    next
      case False
      then show ?thesis using covered_D [OF c tx] l [of x] by (simp add: f del: not_None_eq split: if_splits) 
    qed
  qed
  have tok: "tasks_ok (set_phase i Task_Done m')"
  proof (rule tasks_okI)
    fix x j assume "map_of (wm_load_tasks (set_phase i Task_Done m')) x = Some j"
    then have xj: "map_of (wm_load_tasks m') x = Some j" by (simp add: set_phase_def)
    have ts: "wm_tasks (set_phase i Task_Done m') = (wm_tasks m')[i := (wm_tasks m' ! i)\<lparr>lt_phase := Task_Done\<rparr>]"
      and same: "wm_targets (set_phase i Task_Done m') = wm_targets m" "wm_closed (set_phase i Task_Done m') = wm_closed m"
        "wm_fatal_error (set_phase i Task_Done m') = wm_fatal_error m" "wm_states (set_phase i Task_Done m') = wm_states m'"
      by (simp_all add: set_phase_def f)
    show "j < length (wm_tasks (set_phase i Task_Done m')) \<and> lt_key (wm_tasks (set_phase i Task_Done m') ! j) = x \<and>
        lt_phase (wm_tasks (set_phase i Task_Done m') ! j) \<noteq> Task_Done \<and> (settled (lt_phase (wm_tasks (set_phase i Task_Done m') ! j)) \<longrightarrow>
          map_of (wm_targets (set_phase i Task_Done m')) x \<noteq> None \<longrightarrow> map_of (wm_states (set_phase i Task_Done m')) x \<noteq> None \<or>
          wm_fatal_error (set_phase i Task_Done m') \<noteq> None \<or> wm_closed (set_phase i Task_Done m'))"
    proof (cases "x = k \<and> restart")
      case True
      then have "j = length (wm_tasks m)" using xj l [of x] by simp
      then show ?thesis using True i by (simp add: ts f nth_append)
    next
      case False
      then have old: "map_of (wm_load_tasks m) x = Some j" and ji: "j \<noteq> i"
        using xj l [of x] tasks_ok_D(2) [OF t, of x i] k by (auto split: if_splits)
      note J = tasks_ok_D [OF t old]
      have "wm_tasks (set_phase i Task_Done m') ! j = wm_tasks m ! j" using ji J(1) by (simp add: ts f nth_append)
      moreover have "map_of (wm_states m') x = map_of (wm_states m) x" using False by (simp add: f)
      ultimately show ?thesis using J by (simp add: ts same f del: not_None_eq)
    qed
  qed
  show ?thesis using cov tok by (simp add: m'_def)
qed
text \<open>The three facts a step needs and the two it keeps.\<close>

definition live_inv :: "'v weight_manager \<Rightarrow> bool" where
  "live_inv m \<longleftrightarrow> tasks_ok m \<and> covered m"

lemma live_inv_phase:
  assumes live: "live_inv m" and add: "only_adds m m'" and i: "i < length (wm_tasks m)" and p: "p \<noteq> Task_Done"
    and s: "settled p \<Longrightarrow> map_of (wm_load_tasks m) (lt_key (wm_tasks m ! i)) = Some i \<Longrightarrow> map_of (wm_targets m) (lt_key (wm_tasks m ! i)) \<noteq> None \<Longrightarrow>
      map_of (wm_states m') (lt_key (wm_tasks m ! i)) \<noteq> None \<or> wm_fatal_error m' \<noteq> None \<or> wm_closed m'"
  shows "live_inv (set_phase i p m')"
proof -
  have k: "lt_key (wm_tasks m' ! i) = lt_key (wm_tasks m ! i)" "wm_load_tasks m' = wm_load_tasks m" "wm_targets m' = wm_targets m"
    "i < length (wm_tasks m')" using add i by (simp_all add: only_adds_def)
  note K = only_adds_keeps [OF add] live [unfolded live_inv_def]
  have "tasks_ok (set_phase i p m')"
    by (rule tasks_ok_phase) (use K k p s in \<open>simp_all del: not_None_eq\<close>)
  then show ?thesis using K by (simp add: live_inv_def)
qed

lemma live_inv_load_step:
  assumes live: "live_inv m" and st: "states_inv m" and i: "i < length (wm_tasks m)"
    and p: "lt_phase (wm_tasks m ! i) = p" and k: "lt_key (wm_tasks m ! i) = k" and calm: "\<not> (p = Loading \<and> event = Load_Raised)"
  shows "live_inv (load_step i k p event m)"
proof -
  have task: "map_of (wm_states m) k \<noteq> None \<or> wm_fatal_error m \<noteq> None \<or> wm_closed m"
    if "settled p" "map_of (wm_load_tasks m) k = Some i" "map_of (wm_targets m) k \<noteq> None"
    using tasks_ok_D(4) [of m k i] live that p by (simp add: live_inv_def del: not_None_eq)
  have free: "live_inv (set_phase i p' m')" if "only_adds m m'" "p' \<noteq> Task_Done" "\<not> settled p'" for p' m'
    by (rule live_inv_phase [OF live that(1) i that(2)]) (use that(3) in blast)
  show ?thesis
  proof (cases p)
    case Waiting
    have "live_inv (set_phase i (Ending False) m)" if "map_of (wm_targets m) k = None"
      by (rule live_inv_phase [OF live _ i]) (use that k in simp_all)
    then show ?thesis using live free [of m Loading] by (simp add: load_step_def Waiting)
  next
    case Loading
    then show ?thesis using live calm by (auto simp: load_step_def split: load_event.splits intro!: free)
  next
    case (Converting src c)
    have made: "only_adds m (m\<lparr>wm_made := vs\<rparr>)" "only_adds m (release_ready_weight v (m\<lparr>wm_made := vs\<rparr>))" for v vs
      by (simp_all add: only_adds_def release_ready_weight_def)
    show ?thesis using live made by (auto simp: load_step_def Converting Let_def split: load_event.splits intro!: free)
  next
    case (Failing f)
    have "live_inv (set_phase i p' (finish_failure k f m))" if "p' \<noteq> Task_Done" for p'
      by (rule live_inv_phase [OF live only_adds_finish_failure i that]) (use finish_failure_state [OF st, of k f] k in blast)
    then show ?thesis using live by (simp add: load_step_def Failing)
  next
    case (Setting_Fatal r d)
    have "live_inv (set_phase i (Ending False) (set_fatal k r d m))"
      by (rule live_inv_phase [OF live iffD2 [OF only_adds_helpers(4) TrueI] i]) (simp_all add: set_fatal_def)
    then show ?thesis using live by (simp add: load_step_def Setting_Fatal)
  next
    case (Finished c)
    have "live_inv (set_phase i (Ending c) m)"
      by (rule live_inv_phase [OF live _ i]) (use task Finished k in \<open>simp_all del: not_None_eq\<close>)
    then show ?thesis by (simp add: load_step_def Finished)
  next
    case (Ending c)
    then show ?thesis
      using load_ended_ok [OF _ _ st i _ k, of c] live p by (simp add: load_step_def live_inv_def)
  qed (use live free [of m Waiting] in \<open>simp_all add: load_step_def\<close>)
qed

lemma live_inv_resume:
  assumes live: "live_inv m" and st: "states_inv m" and calm: "undisturbed (Op_Resume i event) m"
  shows "live_inv (load_resume i event m)"
proof (cases "i < length (wm_tasks m)")
  case True
  show ?thesis
  proof (cases "lt_cancel (wm_tasks m ! i)")
    case cancel: True
    have add: "only_adds m (clear_cancel i m)" using True by (simp add: only_adds_def clear_cancel_def nth_list_update)
    have "live_inv (set_phase i (cancelled_phase (lt_phase (wm_tasks m ! i))) (clear_cancel i m))"
    proof (cases "lt_phase (wm_tasks m ! i) = Task_Done")
      case False
      show ?thesis
      proof (rule live_inv_phase [OF live add True])
        show "cancelled_phase (lt_phase (wm_tasks m ! i)) \<noteq> Task_Done"
          using calm True cancel False by (simp add: undisturbed_def cancelled_phase_def split: load_phase.splits)
        assume "settled (cancelled_phase (lt_phase (wm_tasks m ! i)))"
        then show "map_of (wm_states (clear_cancel i m)) (lt_key (wm_tasks m ! i)) \<noteq> None \<or> wm_fatal_error (clear_cancel i m) \<noteq> None \<or> wm_closed (clear_cancel i m)"
          using calm True cancel False by (simp add: undisturbed_def cancelled_phase_def split: load_phase.splits if_splits)
      qed
    next
      case True
      have "only_adds m (set_phase i Task_Done (clear_cancel i m))"
        using True \<open>i < length (wm_tasks m)\<close> by (simp add: only_adds_def clear_cancel_def set_phase_def nth_list_update)
      then have "live_inv (set_phase i Task_Done (clear_cancel i m))" using only_adds_keeps live unfolding live_inv_def by blast
      then show ?thesis using True by (simp add: cancelled_phase_def)
    qed
    then show ?thesis using True cancel by (simp add: load_resume_def Let_def)
  next
    case False
    then show ?thesis
      using live_inv_load_step [OF live st True refl refl] calm True by (simp add: load_resume_def Let_def undisturbed_def)
  qed
qed (simp add: load_resume_def live)

lemma live_inv_inner:
  assumes live: "live_inv m" and st: "states_inv m" and mem: "memory_inv m"
  shows "live_inv (inner_finish i m)"
proof -
  have "live_inv (set_phase i (Finished c) m')"
    if i: "i < length (wm_tasks m)" and fin: "finish_ready (lt_key (wm_tasks m ! i)) v m = Some m'" for v c m'
  proof -
    let ?k = "lt_key (wm_tasks m ! i)"
    have "only_adds m m' \<and> (map_of (wm_targets m) ?k \<noteq> None \<longrightarrow> map_of (wm_states m') ?k \<noteq> None \<or> wm_closed m')"
      using mem
    proof (cases rule: finish_ready_cases [of m ?k v])
      case dropped
      have "m' = release_ready_weight v m" using dropped(1) fin by simp
      moreover have "map_of (wm_targets m) ?k = None \<or> map_of (wm_states m) ?k \<noteq> None \<or> wm_closed m"
        using dropped(2) ready_has_state [OF st, of ?k] by blast
      ultimately show ?thesis by (auto simp: release_ready_weight_def only_adds_def)
    next
      case (full d s f)
      then have "m' = emit d (release_ready_weight v (m\<lparr>wm_states := s\<rparr>))" using fin by simp
      then show ?thesis using full(2) by (simp add: only_adds_def emit_def release_ready_weight_def)
    next
      case (published d s n b)
      have "wm_load_tasks m' = wm_load_tasks m" "wm_targets m' = wm_targets m" "wm_tasks m' = wm_tasks m" "wm_states m' = s"
        "wm_fatal_error m' = wm_fatal_error m" "wm_shutting_down m' = wm_shutting_down m" "wm_closed m' = wm_closed m"
        using published(1) fin by (auto simp del: ready_apply.simps)
      then show ?thesis using published(2) by (simp add: only_adds_def)
    qed
    then show ?thesis by (intro live_inv_phase [OF live _ i]) auto
  qed
  then show ?thesis using live by (auto simp: inner_finish_def split: load_phase.splits option.splits)
qed
section \<open>Placement\<close>

text \<open>The first loop only cancels and marks as removed; the second keeps the table of loads and extends it.\<close>

lemma drop_targets_adds: "only_adds (snd cm) (snd (fold drop_target ks cm))"
proof (induction ks arbitrary: cm)
  case (Cons k ks)
  obtain c m where cm: "cm = (c, m)" by (rule prod.exhaust)
  let ?m1 = "case map_of (wm_load_tasks m) k of Some i \<Rightarrow> cancel_task i m | None \<Rightarrow> m"
  have 1: "only_adds m ?m1" by (simp add: only_adds_cancel split: option.splits)
  obtain d st where "set_state_locked k (removed_state k) ?m1 = (d, ?m1\<lparr>wm_states := st\<rparr>)"
    and "map_of st = (map_of (wm_states ?m1))(k \<mapsto> removed_state k)" using set_state_locked_touches by blast
  then have "only_adds m (snd (drop_target k cm))"
    using 1 only_adds_trans [OF 1 only_adds_states] by (simp add: cm drop_target_def Let_def)
  then show ?case using Cons [of "drop_target k cm"] only_adds_trans by (simp add: cm) blast
qed simp

definition extends_loads :: "'v weight_manager \<Rightarrow> 'v weight_manager \<Rightarrow> bool" where
  "extends_loads m m' \<longleftrightarrow> (\<exists>ts. wm_tasks m' = wm_tasks m @ ts) \<and>
     (\<forall>k i. map_of (wm_load_tasks m) k = Some i \<longrightarrow> map_of (wm_load_tasks m') k = Some i) \<and>
     (\<forall>k i. map_of (wm_load_tasks m') k = Some i \<longrightarrow> map_of (wm_load_tasks m) k = Some i \<or>
        length (wm_tasks m) \<le> i \<and> i < length (wm_tasks m') \<and> lt_key (wm_tasks m' ! i) = k \<and> lt_phase (wm_tasks m' ! i) = Created)"

lemma extends_loads_refl: "extends_loads m m"
  by (simp add: extends_loads_def)

lemma extends_loads_D:
  assumes "extends_loads m m'"
  shows "length (wm_tasks m) \<le> length (wm_tasks m')" and "\<And>i. i < length (wm_tasks m) \<Longrightarrow> wm_tasks m' ! i = wm_tasks m ! i"
    and "\<And>k i. map_of (wm_load_tasks m) k = Some i \<Longrightarrow> map_of (wm_load_tasks m') k = Some i"
    and "\<And>k i. map_of (wm_load_tasks m') k = Some i \<Longrightarrow> map_of (wm_load_tasks m) k = Some i \<or>
        length (wm_tasks m) \<le> i \<and> i < length (wm_tasks m') \<and> lt_key (wm_tasks m' ! i) = k \<and> lt_phase (wm_tasks m' ! i) = Created"
proof -
  obtain ts where "wm_tasks m' = wm_tasks m @ ts" using assms unfolding extends_loads_def by blast
  then show "length (wm_tasks m) \<le> length (wm_tasks m')" "\<And>i. i < length (wm_tasks m) \<Longrightarrow> wm_tasks m' ! i = wm_tasks m ! i"
    by (simp_all add: nth_append)
qed (use assms in \<open>unfold extends_loads_def, blast\<close>)+

lemma extends_loads_trans:
  assumes 1: "extends_loads m m'" and 2: "extends_loads m' m''"
  shows "extends_loads m m''"
proof -
  note D = extends_loads_D [OF 1] and E = extends_loads_D [OF 2]
  have "map_of (wm_load_tasks m) k = Some i \<or> length (wm_tasks m) \<le> i \<and> i < length (wm_tasks m'') \<and>
      lt_key (wm_tasks m'' ! i) = k \<and> lt_phase (wm_tasks m'' ! i) = Created" if "map_of (wm_load_tasks m'') k = Some i" for k i
    using E(4) [OF that] D(1) E(1) D(4) [of k i] E(2) [of i] by fastforce
  moreover have "\<exists>ts. wm_tasks m'' = wm_tasks m @ ts" using 1 2 unfolding extends_loads_def by auto
  ultimately show ?thesis using D(3) E(3) unfolding extends_loads_def by blast
qed

lemma keep_target_extends:
  "extends_loads m (keep_target k m)"
  "k \<in> set (wm_ready_keys m) \<or> wm_shutting_down m \<or> map_of (wm_load_tasks (keep_target k m)) k \<noteq> None"
  by (auto simp: keep_target_def start_load_locked_def extends_loads_def Let_def split: if_splits)

lemma keep_targets_extend:
  "extends_loads m (fold keep_target ks m) \<and>
   (\<forall>k\<in>set ks. k \<in> set (wm_ready_keys m) \<or> wm_shutting_down m \<or> map_of (wm_load_tasks (fold keep_target ks m)) k \<noteq> None)"
proof (induction ks arbitrary: m)
  case Nil
  show ?case by (simp add: extends_loads_refl)
next
  case (Cons k ks)
  let ?m = "keep_target k m"
  have same: "wm_ready_keys ?m = wm_ready_keys m" "wm_shutting_down ?m = wm_shutting_down m"
    using keep_target_touches [of k m] by auto
  have ext: "extends_loads ?m (fold keep_target ks ?m)" using Cons by blast
  have "x \<in> set (wm_ready_keys m) \<or> wm_shutting_down m \<or> map_of (wm_load_tasks (fold keep_target ks ?m)) x \<noteq> None" if "x \<in> set (k # ks)" for x
  proof (cases "x \<in> set ks")
    case True
    then show ?thesis using Cons [of ?m] same by metis
  next
    case False
    with that have "x = k" by simp
    then show ?thesis using keep_target_extends(2) [of k m] extends_loads_D(3) [OF ext, of k] by blast
  qed
  then show ?case using extends_loads_trans [OF keep_target_extends(1) ext] by simp
qed

lemma resolved_key_given:
  assumes "validate_targets m ts = Inr resolved" and "map_of resolved k \<noteq> None"
  shows "k \<in> set (map tx_key ts)"
proof -
  have v: "validate_targets_from m [] ts = Inr resolved" using assms(1) by (auto simp: validate_targets_def split: if_splits)
  obtain t where "map_of resolved k = Some t" using assms(2) by blast
  with validate_targets_from_Inr [OF v, where P = "\<lambda>t. t \<in> set ts"] have "tx_key t = k" "t \<in> set ts"
    by (auto simp del: split_paired_All)
  then show ?thesis by auto
qed

lemma live_inv_apply:
  assumes live: "live_inv m" and st: "states_inv m" and calm: "undisturbed (Op_Apply g ts) m"
  shows "live_inv (snd (apply_targets g ts m))"
proof (cases rule: apply_targets_cases [of g ts m])
  case (applied resolved c m2)
  let ?m1 = "m\<lparr>wm_placement_generation := g, wm_targets := resolved\<rparr>"
  let ?m3 = "fold keep_target (map fst resolved) m2"
  define m' where "m' = emit c (reset_progress g resolved ?m3)"
  have add: "only_adds ?m1 m2"
    using drop_targets_adds [of "([], ?m1)" "filter (\<lambda>k. map_of resolved k = None) (map fst (wm_targets m))"] applied(7) by simp
  note A = add [unfolded only_adds_def]
  note E = extends_loads_D [OF conjunct1 [OF keep_targets_extend [of m2 "map fst resolved"]]]
  have m3: "wm_load_tasks m' = wm_load_tasks ?m3" "wm_tasks m' = wm_tasks ?m3"
    by (simp_all add: m'_def emit_def reset_progress_def Let_def)
  obtain states where m': "wm_targets m' = resolved" "wm_closed m' = wm_closed m" "wm_shutting_down m' = wm_shutting_down m"
    "wm_fatal_error m' = wm_fatal_error m" "\<And>k. k \<in> set (wm_ready_keys m) \<Longrightarrow> map_of (wm_states m') k = map_of (wm_states m) k"
    using applied(7)
  proof (cases rule: applied_touches)
    case (1 ts' lt st' n b)
    show ?thesis by (rule that) (use 1(2) in \<open>simp_all add: m'_def 1(1)\<close>)
  qed
  have ready: "map_of (wm_states m') k \<noteq> None" if "k \<in> set (wm_ready_keys m)" for k
    using ready_has_state [OF st that applied(2)] m'(5) [OF that] by simp
  have rk: "wm_ready_keys m2 = wm_ready_keys m" "wm_shutting_down m2 = wm_shutting_down m"
    using drop_targets_touch [of "filter (\<lambda>k. map_of resolved k = None) (map fst (wm_targets m))" "[]" ?m1] applied(7) by auto
  have "tasks_ok m'"
  proof (rule tasks_okI)
    fix k i assume "map_of (wm_load_tasks m') k = Some i"
    then have "map_of (wm_load_tasks ?m3) k = Some i" by (simp add: m3)
    from E(4) [OF this] show "i < length (wm_tasks m') \<and> lt_key (wm_tasks m' ! i) = k \<and> lt_phase (wm_tasks m' ! i) \<noteq> Task_Done \<and>
        (settled (lt_phase (wm_tasks m' ! i)) \<longrightarrow> map_of (wm_targets m') k \<noteq> None \<longrightarrow>
          map_of (wm_states m') k \<noteq> None \<or> wm_fatal_error m' \<noteq> None \<or> wm_closed m')"
    proof (elim disjE conjE)
      assume "map_of (wm_load_tasks m2) k = Some i"
      then have old: "map_of (wm_load_tasks m) k = Some i" using A by simp
      note J = tasks_ok_D [OF live [unfolded live_inv_def, THEN conjunct1] old]
      have i2: "i < length (wm_tasks m2)" using J(1) A by simp
      have t: "lt_key (wm_tasks m' ! i) = lt_key (wm_tasks m ! i)" "lt_phase (wm_tasks m' ! i) = lt_phase (wm_tasks m ! i)"
        using E(2) [OF i2] A by (simp_all add: m3)
      have "\<not> settled (lt_phase (wm_tasks m ! i)) \<or> map_of (wm_states m') k \<noteq> None" if "map_of resolved k \<noteq> None"
        using calm resolved_key_given [OF applied(1) that] old ready [of k] by (auto simp: undisturbed_def simp del: set_map not_None_eq)
      then show ?thesis using J(2,3) t i2 E(1) m'(1) by (auto simp: m3)
    qed (simp add: m3)
  qed
  moreover have "covered m'"
    unfolding covered_def
  proof (intro allI impI)
    fix k assume "map_of (wm_targets m') k \<noteq> None"
    then have "k \<in> set (map fst resolved)" by (simp add: m'(1) map_of_eq_None_iff del: not_None_eq)
    then have "k \<in> set (wm_ready_keys m2) \<or> wm_shutting_down m2 \<or> map_of (wm_load_tasks ?m3) k \<noteq> None"
      using keep_targets_extend [of m2 "map fst resolved"] by blast
    then show "map_of (wm_states m') k \<noteq> None \<or> map_of (wm_load_tasks m') k \<noteq> None \<or> wm_shutting_down m' \<or> wm_closed m' \<or> wm_fatal_error m' \<noteq> None"
      using ready [of k] by (auto simp: m3 rk m'(3) simp del: not_None_eq)
  qed
  ultimately show ?thesis unfolding applied(8) snd_conv m'_def [symmetric] live_inv_def by blast
qed (use live in simp)

lemma live_inv_adds: "live_inv m \<Longrightarrow> only_adds m m' \<Longrightarrow> live_inv m'"
  using only_adds_keeps unfolding live_inv_def by blast

lemma only_adds_removal:
  "only_adds m (snd (remove_join g ks w m))" "only_adds m (remove_leave m)" "only_adds m (remove_finish m)" "only_adds m (remove_end m)"
proof -
  show "only_adds m (snd (remove_join g ks w m))" by (simp add: remove_join_def split: sum.splits option.splits)
  show "only_adds m (remove_leave m)" by (simp add: remove_leave_def split: option.splits removal_status.splits)
  show "only_adds m (remove_finish m)"
    by (simp add: remove_finish_def only_adds_def release_ready_weight_def split: option.splits prod.splits removal_status.splits list.splits sum.splits)
  obtain c st where st: "fold mark_removed ks ([], m) = (c ks, m\<lparr>wm_states := st ks\<rparr>)"
    "map_of (st ks) k = (if k \<in> set ks then Some (removed_state k) else map_of (wm_states m) k)" for ks k
    using mark_removed_touches [of _ "[]" m] by metis
  show "only_adds m (remove_end m)"
    using st by (simp add: remove_end_def emit_def emit_device_bytes_def only_adds_def split: option.splits prod.splits removal_status.splits list.splits)
qed

lemma only_adds_closing:
  assumes "memory_inv m"
  shows "only_adds m (close_begin m)" and "only_adds m (close_gathered m)" and "only_adds m (close_step m)"
proof -
  show "only_adds m (close_begin m)"
    using only_adds_trans [OF _ only_adds_cancels, of m "m\<lparr>wm_closed := True, wm_close := Close_Gathering (map snd (wm_load_tasks m))\<rparr>"]
    by (simp add: close_begin_def only_adds_def)
  show "only_adds m (close_gathered m)" by (simp add: close_gathered_def split: close_phase.splits)
  show "only_adds m (close_step m)" using assms by (cases rule: close_step_cases) (simp_all add: only_adds_def)
qed

lemma live_inv_step:
  assumes live: "live_inv m" and st: "states_inv m" and mem: "memory_inv m" and calm: "undisturbed op m"
  shows "live_inv (wm_apply op m)"
proof (cases op)
  case Op_Start
  then show ?thesis by (intro live_inv_adds [OF live]) (simp add: wm_start_def)
next
  case (Op_Apply g ts)
  then show ?thesis using live live_inv_apply [OF live st] calm by simp
next
  case Op_Shutdown
  have "only_adds m (fold cancel_task is (m\<lparr>wm_shutting_down := True\<rparr>))" for "is"
    by (rule only_adds_trans [OF _ only_adds_cancels]) simp
  then show ?thesis by (intro live_inv_adds [OF live]) (simp add: Op_Shutdown begin_shutdown_def)
next
  case (Op_Resume i event)
  then show ?thesis using live_inv_resume [OF live st] calm by simp
next
  case (Op_Inner i)
  then show ?thesis using live_inv_inner [OF live st mem] by simp
next
  case Op_Remove_Start
  have "only_adds m (remove_start m)" using mem by (cases rule: remove_start_cases) (simp_all add: only_adds_def)
  then show ?thesis by (intro live_inv_adds [OF live]) (simp add: Op_Remove_Start)
qed (intro live_inv_adds [OF live], simp del: ready_apply.simps add: only_adds_removal only_adds_closing [OF mem])+
section \<open>Every sequence of operations\<close>

definition wm_inv :: "'v weight_manager \<Rightarrow> bool" where
  "wm_inv m \<longleftrightarrow> memory_inv m \<and> states_inv m \<and> objects_inv m"

lemma wm_inv_start:
  assumes "WeightManager n e d cap loads bytes = Inr m"
  shows "wm_inv m" and "live_inv m"
proof -
  have f: "wm_targets m = []" "wm_ready_keys m = []" "wm_states m = []" "wm_tasks m = []" "wm_load_tasks m = []" "wm_removal m = None"
    "wm_made m = []" "wm_released m = []" "wm_close m = Not_Closing" using assms by (auto simp: WeightManager_def)
  have mem: "memory_inv m" by (rule memory_inv_start [OF assms])
  have "dom (ready_vals (wm_ready m)) = {}"
    using memory_inv_D(2) [OF mem] by (auto simp: dom_def f live_of_def simp del: ready_vals_None split_paired_All)
  then have "objects_inv m" by (simp add: objects_inv_def table_objects_def in_flight_def f)
  moreover have "states_inv m" by (rule states_invI) (simp_all add: f)
  ultimately show "wm_inv m" using mem by (simp add: wm_inv_def)
  show "live_inv m" by (simp add: live_inv_def tasks_ok_def covered_def f)
qed

interpretation placement: invariant_system
  "\<lambda>m :: 'v weight_manager. \<exists>n e d cap loads bytes. WeightManager n e d cap loads bytes = Inr m"
  "\<lambda>m m' :: 'v weight_manager. \<exists>op. m' = wm_apply op m" wm_inv
proof unfold_locales
  fix m :: "'v weight_manager"
  assume "\<exists>n e d cap loads bytes. WeightManager n e d cap loads bytes = Inr m"
  then show "wm_inv m" using wm_inv_start(1) by blast
next
  fix m m' :: "'v weight_manager"
  assume "wm_inv m" and "\<exists>op. m' = wm_apply op m"
  then show "wm_inv m'" using memory_inv_step states_inv_step objects_inv_step unfolding wm_inv_def by blast
qed

lemma wm_run_reachable:
  assumes "WeightManager n e d cap loads bytes = Inr m0"
  shows "reachable (\<lambda>m. \<exists>n e d cap loads bytes. WeightManager n e d cap loads bytes = Inr m) (\<lambda>m m'. \<exists>op. m' = wm_apply op m) (wm_run ops m0)"
proof (induction ops rule: rev_induct)
  case Nil
  have "\<exists>n e d cap loads bytes. WeightManager n e d cap loads bytes = Inr m0" using assms by blast
  then show ?case unfolding wm_run_def fold_simps(1) by (rule reach_init)
next
  case (snoc op ops)
  have "wm_run (ops @ [op]) m0 = wm_apply op (wm_run ops m0)" by (simp add: wm_run_def)
  then have "\<exists>x. wm_run (ops @ [op]) m0 = wm_apply x (wm_run ops m0)" by blast
  with snoc show ?case by (rule reach_step)
qed

lemma wm_run_inv: "WeightManager n e d cap loads bytes = Inr m0 \<Longrightarrow> wm_inv (wm_run ops m0)"
  using placement.reachable_inv [OF wm_run_reachable] .

lemma wm_run_live:
  assumes "wm_inv m" and "live_inv m" and "undisturbed_run ops m"
  shows "live_inv (wm_run ops m)"
  using assms
proof (induction ops arbitrary: m)
  case (Cons op ops)
  have "wm_inv (wm_apply op m)" using placement.inv_step [OF Cons.prems(1)] by blast
  moreover have "live_inv (wm_apply op m)" using live_inv_step [of m op] Cons.prems unfolding wm_inv_def by simp
  ultimately show ?case using Cons by (simp add: wm_run_def)
qed (simp add: wm_run_def)

definition ex_wm :: "string weight_manager" where
  "ex_wm = \<lparr>wm_num_layers = 1, wm_experts_per_layer = 2, wm_device = ''cpu'', wm_device_weight_capacity_bytes = 25,
     wm_ready_weight_bytes = 10, wm_max_experts = 2,
     wm_ready = ready_start \<lparr>rt_num_layers = 1, rt_experts_per_layer = 2, rt_entries = [[None, None]], rt_store = []\<rparr>,
     wm_placement_generation = 0, wm_targets = [], wm_states = [], wm_load_tasks = [], wm_tasks = [], wm_removal = None, wm_ready_keys = [],
     wm_loaded_device_bytes = 0, wm_logged_placement_generation = 0, wm_load_progress_step = 1, wm_next_load_progress_count = 1,
     wm_load_completion_logged = False, wm_fatal_error = None, wm_close = Not_Closing, wm_started = False, wm_shutting_down = False,
     wm_closed = False, wm_emitted = [], wm_emitted_bytes = [], wm_made = [], wm_released = []\<rparr>"

lemma ex_wm_made: "WeightManager 1 2 ''cpu'' 25 1 10 = Inr ex_wm"
  by (simp add: WeightManager_def ReadyWeightTable_def ex_wm_def numeral_2_eq_2)

definition ex_target :: "int \<Rightarrow> target_expert" where
  "ex_target e = \<lparr>tx_layer_id = 0, tx_expert_id = e, tx_target_device = ''cpu'', tx_peer_endpoints = []\<rparr>"

text \<open>Load task \<open>i\<close> runs until its object is published, and to its end.\<close>

definition ex_load :: "nat \<Rightarrow> string \<Rightarrow> string wm_op list" where
  "ex_load i v = [Op_Resume i Go, Op_Resume i Go, Op_Resume i (Loaded DISK), Op_Resume i (Converted v),
     Op_Inner i, Op_Resume i Go, Op_Resume i Go]"

definition ex_wm_ops :: "string wm_op list" where
  "ex_wm_ops = [Op_Start, Op_Apply 1 [ex_target 0]] @ ex_load 0 ''w0''"

definition ex_removed_ops :: "string wm_op list" where
  "ex_removed_ops = ex_wm_ops @ [Op_Apply 2 [], Op_Remove_Join 2 [(0, 0)] False, Op_Remove_Start, Op_Remove_Finish, Op_Remove_End]"

section \<open>Properties\<close>

text \<open>
  C23. Device memory stays within its budget: after any interleaving of placements, loads, removals and
  shutdown the loaded bytes are the number of ready experts times the size of one, and never exceed the
  capacity, and until the manager is closed the ready experts are exactly the occupied table positions.
\<close>

theorem manager_memory_bound:
  assumes "WeightManager n e d cap loads bytes = Inr m0" and "m = wm_run ops m0"
  shows "wm_loaded_device_bytes m = wm_ready_weight_bytes m * int (length (wm_ready_keys m)) \<and>
     wm_loaded_device_bytes m \<le> wm_device_weight_capacity_bytes m \<and> distinct (wm_ready_keys m) \<and>
     (\<not> wm_closed m \<longrightarrow> set (wm_ready_keys m) = {k. rt_at (rs_table (wm_ready m)) k \<noteq> None})"
proof -
  have mem: "memory_inv m" using wm_run_inv [OF assms(1), of ops] assms(2) by (simp add: wm_inv_def)
  note D = memory_inv_D [OF mem]
  have "set (wm_ready_keys m) = {k. rt_at (rs_table (wm_ready m)) k \<noteq> None}" if "\<not> wm_closed m"
  proof (rule set_eqI)
    fix k show "(k \<in> set (wm_ready_keys m)) = (k \<in> {k. rt_at (rs_table (wm_ready m)) k \<noteq> None})"
      using D(2) [of k] live_keys_open [OF that mem] by simp
  qed
  with D(4) show ?thesis unfolding bytes_ok_def by blast
qed

theorem manager_memory_bound_witness:
  "wm_loaded_device_bytes (wm_run ex_wm_ops ex_wm) = wm_ready_weight_bytes (wm_run ex_wm_ops ex_wm) * int (length (wm_ready_keys (wm_run ex_wm_ops ex_wm))) \<and>
   wm_ready_keys (wm_run ex_wm_ops ex_wm) = [(0, 0)]"
proof -
  have "wm_ready_keys (wm_run ex_wm_ops ex_wm) = [(0, 0)]" by code_simp
  with manager_memory_bound [OF ex_wm_made refl, of ex_wm_ops] show ?thesis by blast
qed

text \<open>
  C24. No ready object leaks and none is released early: at every moment each object the adapter made is in
  the ready table, held by one load about to publish it, or was released, exactly once. When closing has
  ended and no load task is left, everything made has been released.
\<close>

theorem ready_objects_owned_once:
  assumes "WeightManager n e d cap loads bytes = Inr m0" and "m = wm_run ops m0"
  shows "mset (wm_made m) = table_objects (ready_vals (wm_ready m)) + in_flight (wm_tasks m) + mset (wm_released m) \<and>
     (wm_close m = Close_Ended \<longrightarrow> (\<forall>t\<in>set (wm_tasks m). lt_phase t = Task_Done) \<longrightarrow> mset (wm_released m) = mset (wm_made m))"
proof -
  have inv: "memory_inv m" "objects_inv m" using wm_run_inv [OF assms(1), of ops] assms(2) by (simp_all add: wm_inv_def)
  have "table_objects (ready_vals (wm_ready m)) = {#}" if "wm_close m = Close_Ended"
  proof -
    have "dom (ready_vals (wm_ready m)) = {}"
      using memory_inv_D(2) [OF inv(1)] that by (auto simp: dom_def live_of_def simp del: ready_vals_None split_paired_All)
    then show ?thesis by (simp add: table_objects_def)
  qed
  moreover have "in_flight ts = {#}" if "\<forall>t\<in>set ts. lt_phase t = Task_Done" for ts :: "'a load_task list"
    using that by (induction ts) (simp_all add: in_flight_def held_by_def)
  ultimately show ?thesis using inv(2) by (simp add: objects_inv_def)
qed

theorem ready_objects_owned_once_witness:
  "wm_released (wm_run ex_removed_ops ex_wm) = [''w0''] \<and>
   mset (wm_made (wm_run ex_removed_ops ex_wm)) = table_objects (ready_vals (wm_ready (wm_run ex_removed_ops ex_wm))) +
     in_flight (wm_tasks (wm_run ex_removed_ops ex_wm)) + mset (wm_released (wm_run ex_removed_ops ex_wm))"
proof -
  have "wm_released (wm_run ex_removed_ops ex_wm) = [''w0'']" by code_simp
  with ready_objects_owned_once [OF ex_wm_made refl, of ex_removed_ops] show ?thesis by blast
qed

text \<open>
  C25. No assigned expert is forgotten: if no placement names an expert that is not ready while its load is between its
  result and its end, no cancellation hits a load before its first step or at the lock it takes at its end, and the loader
  raises nothing but \<open>WeightLoadFailed\<close>, then at every moment each assigned expert has a reported state or a
  load task that has not finished, unless the manager shuts down, is closed or reported a fatal error.
\<close>

theorem assigned_experts_not_forgotten:
  assumes "WeightManager n e d cap loads bytes = Inr m0" and "undisturbed_run ops m0" and "m = wm_run ops m0"
    and "map_of (wm_targets m) k \<noteq> None"
    and "\<not> wm_shutting_down m" and "\<not> wm_closed m" and "wm_fatal_error m = None"
  shows "map_of (wm_states m) k \<noteq> None \<or>
     (\<exists>i<length (wm_tasks m). map_of (wm_load_tasks m) k = Some i \<and> lt_key (wm_tasks m ! i) = k \<and> lt_phase (wm_tasks m ! i) \<noteq> Task_Done)"
proof -
  have live: "tasks_ok m" "covered m"
    using wm_run_live [OF wm_inv_start [OF assms(1)] assms(2)] assms(3) by (simp_all add: live_inv_def)
  from covered_D [OF live(2) assms(4)] assms(5-7) have "map_of (wm_states m) k \<noteq> None \<or> map_of (wm_load_tasks m) k \<noteq> None" by blast
  then show ?thesis using tasks_ok_D(1-3) [OF live(1), of k] by blast
qed

theorem assigned_experts_not_forgotten_witness:
  "\<exists>i<length (wm_tasks (wm_run (take 5 ex_wm_ops) ex_wm)). map_of (wm_load_tasks (wm_run (take 5 ex_wm_ops) ex_wm)) (0, 0) = Some i \<and>
     lt_key (wm_tasks (wm_run (take 5 ex_wm_ops) ex_wm) ! i) = (0, 0) \<and> lt_phase (wm_tasks (wm_run (take 5 ex_wm_ops) ex_wm) ! i) \<noteq> Task_Done"
proof -
  have "map_of (wm_states (wm_run (take 5 ex_wm_ops) ex_wm)) (0, 0) = None" by code_simp
  moreover have "undisturbed_run (take 5 ex_wm_ops) ex_wm" by code_simp
  moreover have "map_of (wm_targets (wm_run (take 5 ex_wm_ops) ex_wm)) (0, 0) \<noteq> None" by code_simp
  moreover have "\<not> wm_shutting_down (wm_run (take 5 ex_wm_ops) ex_wm)" by code_simp
  moreover have "\<not> wm_closed (wm_run (take 5 ex_wm_ops) ex_wm)" by code_simp
  moreover have "wm_fatal_error (wm_run (take 5 ex_wm_ops) ex_wm) = None" by code_simp
  ultimately show ?thesis
    using assigned_experts_not_forgotten [OF ex_wm_made _ refl, of "take 5 ex_wm_ops" "(0, 0)"] by blast
qed

text \<open>
  C26. The snapshot sent to the Controller tells the truth: between operations of an open manager the experts
  reported \<open>READY\<close> are exactly the occupied positions of the ready table, and every reported state carries
  failure details exactly when it is \<open>FAILED\<close>.
\<close>

theorem snapshot_reports_ready:
  assumes "WeightManager n e d cap loads bytes = Inr m0" and "m = wm_run ops m0" and "lock_free m" and "\<not> wm_closed m"
  shows "es_key ` {s \<in> set (snd (wm_snapshot m)). es_state s = READY} = {k. rt_at (rs_table (wm_ready m)) k \<noteq> None} \<and>
     (\<forall>s\<in>set (snd (wm_snapshot m)). (es_failure s \<noteq> None) = (es_state s = FAILED))"
proof -
  have inv: "memory_inv m" "states_inv m" using wm_run_inv [OF assms(1), of ops] assms(2) by (simp_all add: wm_inv_def)
  have mem: "s \<in> set (snd (wm_snapshot m)) \<longleftrightarrow> (\<exists>k. map_of (wm_states m) k = Some s)" for s
  proof
    assume "s \<in> set (snd (wm_snapshot m))"
    then obtain k where "k \<in> fst ` set (wm_states m)" "s = the (map_of (wm_states m) k)" by (auto simp: wm_snapshot_def)
    then have "map_of (wm_states m) k = Some s" by (metis map_of_eq_None_iff option.exhaust_sel)
    then show "\<exists>k. map_of (wm_states m) k = Some s" by blast
  next
    assume "\<exists>k. map_of (wm_states m) k = Some s"
    then obtain k where k: "map_of (wm_states m) k = Some s" by blast
    then have "k \<in> set (sort (map fst (wm_states m)))" using map_of_SomeD [OF k] by force
    from imageI [OF this, of "\<lambda>k. the (map_of (wm_states m) k)"] k show "s \<in> set (snd (wm_snapshot m))" by (simp add: wm_snapshot_def)
  qed
  have ok: "es_key s = k \<and> expert_state_post_init s = None" if "map_of (wm_states m) k = Some s" for k s
    using states_inv_D(1) [OF inv(2), of k] that by (simp add: state_ok_def)
  have "k \<in> es_key ` {s \<in> set (snd (wm_snapshot m)). es_state s = READY} \<longleftrightarrow> rt_at (rs_table (wm_ready m)) k \<noteq> None" for k
  proof -
    have "k \<in> es_key ` {s \<in> set (snd (wm_snapshot m)). es_state s = READY} \<longleftrightarrow> says_ready (map_of (wm_states m) k)"
    proof
      assume "k \<in> es_key ` {s \<in> set (snd (wm_snapshot m)). es_state s = READY}"
      then obtain s x where "map_of (wm_states m) x = Some s" "es_state s = READY" "k = es_key s" using mem by blast
      then show "says_ready (map_of (wm_states m) k)" using ok [of x s] by (simp add: says_ready_def)
    next
      assume "says_ready (map_of (wm_states m) k)"
      then obtain s where s: "map_of (wm_states m) k = Some s" "es_state s = READY" by (auto simp: says_ready_def split: option.splits)
      then have "s \<in> set (snd (wm_snapshot m))" using mem by blast
      with s have "s \<in> {s \<in> set (snd (wm_snapshot m)). es_state s = READY}" by simp
      moreover have "k = es_key s" using ok [OF s(1)] by simp
      ultimately show "k \<in> es_key ` {s \<in> set (snd (wm_snapshot m)). es_state s = READY}" by (simp only: imageI)
    qed
    also have "\<dots> \<longleftrightarrow> k \<in> set (wm_ready_keys m)"
      using states_inv_D(2) [OF inv(2) assms(4), of k] held_done_free [OF assms(3)] by simp
    finally show ?thesis using memory_inv_D(2) [OF inv(1), of k] live_keys_open [OF assms(4) inv(1)] by simp
  qed
  moreover have "(es_failure s \<noteq> None) = (es_state s = FAILED)" if s: "s \<in> set (snd (wm_snapshot m))" for s
  proof -
    obtain k where "map_of (wm_states m) k = Some s" using s [unfolded mem] by blast
    from ok [OF this] show ?thesis by (auto simp: expert_state_post_init_def)
  qed
  ultimately show ?thesis by blast
qed

theorem snapshot_reports_ready_witness:
  "es_key ` {s \<in> set (snd (wm_snapshot (wm_run ex_wm_ops ex_wm))). es_state s = READY} = {k. rt_at (rs_table (wm_ready (wm_run ex_wm_ops ex_wm))) k \<noteq> None} \<and>
   snd (wm_snapshot (wm_run ex_wm_ops ex_wm)) = [\<lparr>es_key = (0, 0), es_state = READY, es_failure = None\<rparr>]"
proof -
  have l: "lock_free (wm_run ex_wm_ops ex_wm)" by code_simp
  have c: "\<not> wm_closed (wm_run ex_wm_ops ex_wm)" by code_simp
  have "snd (wm_snapshot (wm_run ex_wm_ops ex_wm)) = [\<lparr>es_key = (0, 0), es_state = READY, es_failure = None\<rparr>]" by code_simp
  with snapshot_reports_ready [OF ex_wm_made refl l c] show ?thesis by blast
qed

text \<open>
  C27. Publishing a loaded expert always returns: the progress loop under the lock ends in every reachable
  state, because the step it advances by is at least one.
\<close>

theorem finish_ready_returns:
  assumes "WeightManager n e d cap loads bytes = Inr m0"
  shows "\<exists>m'. finish_ready k v (wm_run ops m0) = Some m'"
proof -
  have "memory_inv (wm_run ops m0)" using wm_run_inv [OF assms, of ops] by (simp add: wm_inv_def)
  then show ?thesis by (cases rule: finish_ready_cases [of _ k v]) auto
qed

theorem finish_ready_returns_witness: "\<exists>m'. finish_ready (0, 1) ''w1'' (wm_run ex_wm_ops ex_wm) = Some m'"
  by (rule finish_ready_returns [OF ex_wm_made])

end
