(* ===== verification/Multipart.thy ===== *)
theory Multipart
  imports Errors
begin

text \<open>
  Messages sent in numbered parts. Three components assemble such messages: target lists and drain
  authorizations in the Worker, topology messages in the Frontend. What they promise is the locale
  \<open>part_assembler\<close>: parts may come in any order, nothing is returned before the last missing part, and
  then the whole message is. The dictionary of received parts they share is \<open>received\<close>.
\<close>

section \<open>The contract\<close>

text \<open>Delivering the parts numbered \<open>is\<close>: the results and the state after them.\<close>

primrec deliver :: "('p \<Rightarrow> 's \<Rightarrow> 'r \<times> 's) \<Rightarrow> 'p list \<Rightarrow> nat list \<Rightarrow> 's \<Rightarrow> 'r list \<times> 's" where
  "deliver add ps [] s = ([], s)"
| "deliver add ps (i # is) s = (case add (ps ! i) s of (r, s') \<Rightarrow> (case deliver add ps is s' of (rs, s'') \<Rightarrow> (r # rs, s'')))"

lemma deliver_append:
  "deliver add ps (is @ js) s =
     (case deliver add ps is s of (rs, s') \<Rightarrow> (case deliver add ps js s' of (rs', s'') \<Rightarrow> (rs @ rs', s'')))"
  by (induction "is" arbitrary: s) (simp_all split: prod.splits)

locale part_assembler =
  fixes add :: "'p \<Rightarrow> 's \<Rightarrow> (exn + 'o option) \<times> 's"
    and holds :: "'p list \<Rightarrow> nat set \<Rightarrow> 's \<Rightarrow> bool"
    and accepts :: "nat \<Rightarrow> nat set \<Rightarrow> bool"
    and whole :: "'p list \<Rightarrow> 's \<Rightarrow> 'o"
    and finished :: "'p list \<Rightarrow> 's \<Rightarrow> bool"
  assumes more: "holds ps D s \<Longrightarrow> i < length ps \<Longrightarrow> accepts i D \<Longrightarrow> insert i D \<noteq> {..<length ps} \<Longrightarrow>
      \<exists>s'. add (ps ! i) s = (Inr None, s') \<and> holds ps (insert i D) s' \<and> whole ps s' = whole ps s"
    and last: "holds ps D s \<Longrightarrow> i < length ps \<Longrightarrow> accepts i D \<Longrightarrow> insert i D = {..<length ps} \<Longrightarrow>
      \<exists>s'. add (ps ! i) s = (Inr (Some (whole ps s)), s') \<and> finished ps s'"
begin

primrec acceptable :: "nat list \<Rightarrow> nat set \<Rightarrow> bool" where
  "acceptable [] D \<longleftrightarrow> True"
| "acceptable (i # is) D \<longleftrightarrow> accepts i D \<and> acceptable is (insert i D)"

lemma incomplete:
  assumes "holds ps D s" and "set is \<subseteq> {..<length ps}" and "acceptable is D" and "set is \<union> D \<subset> {..<length ps}"
  shows "\<exists>s'. deliver add ps is s = (replicate (length is) (Inr None), s') \<and> holds ps (set is \<union> D) s' \<and> whole ps s' = whole ps s"
  using assms
proof (induction "is" arbitrary: D s)
  case (Cons i "is")
  have "insert i D \<noteq> {..<length ps}" using Cons.prems(4) by auto
  then obtain s1 where 1: "add (ps ! i) s = (Inr None, s1)" "holds ps (insert i D) s1" "whole ps s1 = whole ps s"
    using more [of ps D s i] Cons.prems by auto
  have "set is \<union> insert i D \<subset> {..<length ps}" using Cons.prems(4) by auto
  from Cons.IH [OF 1(2) _ _ this] Cons.prems(2,3) obtain s2 where
    2: "deliver add ps is s1 = (replicate (length is) (Inr None), s2)" "holds ps (set is \<union> insert i D) s2" "whole ps s2 = whole ps s1" by auto
  then show ?case using 1 by simp
qed simp

lemma any_order:
  assumes "holds ps {} s" and "set is \<subset> {..<length ps}" and "i < length ps" and "set (i # is) = {..<length ps}"
    and "acceptable (is @ [i]) {}"
  shows "\<exists>s'. deliver add ps (is @ [i]) s = (replicate (length is) (Inr None) @ [Inr (Some (whole ps s))], s') \<and> finished ps s'"
proof -
  have split: "acceptable (xs @ [i]) D \<longleftrightarrow> acceptable xs D \<and> accepts i (set xs \<union> D)" for xs D
    by (induction xs arbitrary: D) auto
  from incomplete [OF assms(1), of "is"] assms(2,5) obtain s' where
    s': "deliver add ps is s = (replicate (length is) (Inr None), s')" "holds ps (set is) s'" "whole ps s' = whole ps s"
    by (auto simp: split)
  moreover obtain s'' where "add (ps ! i) s' = (Inr (Some (whole ps s')), s'')" "finished ps s''"
    using last [OF s'(2) assms(3)] assms(4,5) by (auto simp: split)
  ultimately show ?thesis by (simp add: deliver_append)
qed

end

section \<open>The dictionary of received parts\<close>

definition received :: "'p list \<Rightarrow> nat set \<Rightarrow> (int, 'p) dict \<Rightarrow> bool" where
  "received ps D d \<longleftrightarrow> dict_ok d \<and> D \<subseteq> {..<length ps} \<and>
     (\<forall>k. map_of d k = (if k \<in> int ` D then Some (ps ! nat k) else None))"

lemma received_empty: "received ps {} []"
  by (simp add: received_def)

lemma received_get: "received ps D d \<Longrightarrow> map_of d (int i) = (if i \<in> D then Some (ps ! i) else None)"
  by (auto simp: received_def)

lemma received_add:
  assumes "received ps D d" and "i < length ps"
  shows "received ps (insert i D) (AList.update (int i) (ps ! i) d)"
  using assms by (auto simp: received_def)

lemma received_length: "received ps D d \<Longrightarrow> length d = card D"
proof -
  assume r: "received ps D d"
  have "fst ` set d = int ` D"
    using r unfolding received_def by (metis (no_types, lifting) domI dom_map_of_conv_image_fst map_le_def option.discI option.simps(3)
        set_eqI domIff)
  moreover have "length d = card (fst ` set d)"
    using r by (metis dict_ok_def distinct_card length_map received_def list.set_map)
  ultimately show ?thesis by (simp add: card_image)
qed

lemma received_complete: "received ps D d \<Longrightarrow> length d = length ps \<longleftrightarrow> D = {..<length ps}"
proof -
  assume r: "received ps D d"
  then have "D \<subseteq> {..<length ps}" "finite D" by (auto simp: received_def intro: finite_subset)
  then show ?thesis
    unfolding received_length [OF r] by (metis card_lessThan card_subset_eq finite_lessThan)
qed

text \<open>\<open>[parts[index] for index in range(part_count)]\<close>, \<open>KeyError\<close> when one is missing.\<close>

definition ordered_parts :: "int \<Rightarrow> (int, 'p) dict \<Rightarrow> exn + 'p list" where
  "ordered_parts part_count d =
     rmap (\<lambda>i. case map_of d (int i) of Some p \<Rightarrow> Inr p | None \<Rightarrow> Inl KeyError) [0..<nat part_count]"

lemma ordered_parts_complete:
  assumes "received ps {..<length ps} d"
  shows "ordered_parts (int (length ps)) d = Inr ps"
  unfolding ordered_parts_def rmap_eq_Inr_iff using received_get [OF assms] by simp

end
