(* ===== verification/Control_Parts.thy ===== *)
theory Control_Parts
  imports Multipart Weight_Manager
begin

text \<open>
  \<open>ek-worker/src/expertkit_worker/control/parts.py\<close>: multipart target lists and drain authorizations from
  the Controller. The protobuf messages are records of their fields; \<open>serialize\<close> and \<open>from_string\<close> stand for
  the generated encoder and decoder, of which the assemblers use that decoding inverts encoding.
  The same bookkeeping of parts occurs in both assemblers and is \<open>store_part\<close> here.
\<close>

type_synonym wire = "nat list"

definition MAX_EXPERTS_PER_CONTROL_PART :: nat where
  "MAX_EXPERTS_PER_CONTROL_PART = 64"

definition MAX_CONTROL_PART_BYTES :: int where
  "MAX_CONTROL_PART_BYTES = 1024 * 1024"

definition MAX_PENDING_DRAINS :: nat where
  "MAX_PENDING_DRAINS = 64"

record wire_target =
  wt_layer_id :: int
  wt_expert_id :: int
  wt_target_device :: string
  wt_peer_weight_endpoints :: "string list"

record target_part =
  tp_placement_generation :: int
  tp_part_index :: int
  tp_part_count :: int
  tp_experts :: "wire_target list"

record drain_part =
  dp_drain_id :: int
  dp_placement_generation :: int
  dp_min_topology_version :: int
  dp_stop_all :: bool
  dp_part_index :: int
  dp_part_count :: int
  dp_experts :: "(int \<times> int) list"

record placement_targets =
  pt_placement_generation :: int
  pt_experts :: "target_expert list"

record drain_authorization =
  da_drain_id :: int
  da_placement_generation :: int
  da_min_topology_version :: int
  da_stop_accepting_all_computation :: bool
  da_experts :: "weight_key list"

record 'p part_store =
  ps_part_count :: int
  ps_encoded :: "(int, wire) dict"
  ps_parts :: "(int, 'p) dict"

record drain_parts =
  dq_placement_generation :: int
  dq_min_topology_version :: int
  dq_stop_all :: bool
  dq_store :: "drain_part part_store"

definition validate_positive_uint64 :: "string \<Rightarrow> int \<Rightarrow> (bool \<times> exn) list" where
  "validate_positive_uint64 name value = [(\<not> (0 < value \<and> value \<le> uint64_max), ValueError (name @ '' must be a positive uint64''))]"

definition validate_part :: "wire \<Rightarrow> int \<Rightarrow> int \<Rightarrow> nat \<Rightarrow> int \<Rightarrow> exn option" where
  "validate_part encoded part_index part_count expert_count maximum_parts = raise_first
     [(part_count \<le> 0 \<or> part_count > maximum_parts, ValueError ''control part_count is outside the configured expert bound''),
      (part_index < 0 \<or> part_index \<ge> part_count, ValueError ''control part_index must be smaller than part_count''),
      (expert_count > MAX_EXPERTS_PER_CONTROL_PART, ValueError ''one control part contains more than 64 experts''),
      (int (length encoded) > MAX_CONTROL_PART_BYTES, ValueError ''one control part exceeds the implementation byte limit'')]"

definition new_store :: "int \<Rightarrow> 'p part_store" where
  "new_store part_count = \<lparr>ps_part_count = part_count, ps_encoded = [], ps_parts = []\<rparr>"

definition store_part :: "(wire \<Rightarrow> 'p) \<Rightarrow> string \<Rightarrow> int \<Rightarrow> wire \<Rightarrow> 'p part_store \<Rightarrow> exn + 'p part_store" where
  "store_part from_string message part_index encoded st =
     (case map_of (ps_encoded st) part_index of
        Some previous \<Rightarrow> if previous \<noteq> encoded then Inl (ValueError message) else Inr st
      | None \<Rightarrow> Inr (st\<lparr>ps_encoded := AList.update part_index encoded (ps_encoded st),
                        ps_parts := AList.update part_index (from_string encoded) (ps_parts st)\<rparr>))"

text \<open>The loop over all experts of all parts: constructing each entry may raise, and so does a repeated key.\<close>

fun collect_experts :: "('w \<Rightarrow> exn + 'e) \<Rightarrow> ('e \<Rightarrow> weight_key) \<Rightarrow> string \<Rightarrow> 'e list \<Rightarrow> 'w list \<Rightarrow> exn + 'e list" where
  "collect_experts construct key message experts [] = Inr experts"
| "collect_experts construct key message experts (w # ws) =
     rbind (construct w) (\<lambda>e.
       if key e \<in> key ` set experts then Inl (ValueError message)
       else collect_experts construct key message (experts @ [e]) ws)"

section \<open>Target lists\<close>

record target_assembler =
  ta_max_experts :: int
  ta_generation :: int
  ta_current :: "target_part part_store option"

definition TargetListAssembler :: "int \<Rightarrow> exn + target_assembler" where
  "TargetListAssembler max_experts =
     (if max_experts \<le> 0 then Inl (ValueError ''max_experts must be a positive integer'')
      else Inr \<lparr>ta_max_experts = max_experts, ta_generation = 0, ta_current = None\<rparr>)"

definition make_target :: "wire_target \<Rightarrow> exn + target_expert" where
  "make_target w =
     (let t = \<lparr>tx_layer_id = wt_layer_id w, tx_expert_id = wt_expert_id w, tx_target_device = wt_target_device w,
               tx_peer_endpoints = wt_peer_weight_endpoints w\<rparr>
      in after (target_expert_post_init t) (Inr t))"

definition finish_targets :: "target_assembler \<Rightarrow> int \<Rightarrow> target_part part_store \<Rightarrow> exn + placement_targets option" where
  "finish_targets a generation current =
     (if int (length (ps_parts current)) \<noteq> ps_part_count current then Inr None
      else rbind (ordered_parts (ps_part_count current) (ps_parts current)) (\<lambda>parts.
        rbind (collect_experts make_target tx_key ''complete target list contains a duplicate expert'' [] (concat (map tp_experts parts))) (\<lambda>experts.
          if int (length experts) > ta_max_experts a then Inl (ValueError ''complete target list exceeds max_experts'')
          else Inr (Some \<lparr>pt_placement_generation = generation, pt_experts = experts\<rparr>))))"

definition target_add ::
  "(target_part \<Rightarrow> wire) \<Rightarrow> (wire \<Rightarrow> target_part) \<Rightarrow> target_part \<Rightarrow> target_assembler \<Rightarrow> (exn + placement_targets option) \<times> target_assembler" where
  "target_add serialize from_string part a =
     (case raise_first (validate_positive_uint64 ''placement_generation'' (tp_placement_generation part)) of
        Some e \<Rightarrow> (Inl e, a)
      | None \<Rightarrow>
        let generation = tp_placement_generation part in
        if generation < ta_generation a then (Inr None, a)
        else
          let encoded = serialize part in
          (case validate_part encoded (tp_part_index part) (tp_part_count part) (length (tp_experts part)) (ta_max_experts a) of
             Some e \<Rightarrow> (Inl e, a)
           | None \<Rightarrow>
             let a1 = (if generation > ta_generation a
                       then a\<lparr>ta_generation := generation, ta_current := Some (new_store (tp_part_count part))\<rparr> else a);
                 current = (case ta_current a1 of Some c \<Rightarrow> c | None \<Rightarrow> new_store (tp_part_count part));
                 a2 = a1\<lparr>ta_current := Some current\<rparr>
             in if ps_part_count current \<noteq> tp_part_count part
                then (Inl (ValueError ''target parts disagree about part_count''), a2)
                else (case store_part from_string ''target stream repeated one part with different content'' (tp_part_index part) encoded current of
                        Inl e \<Rightarrow> (Inl e, a2)
                      | Inr current' \<Rightarrow>
                          (finish_targets a2 generation current', a2\<lparr>ta_current := Some current'\<rparr>))))"

section \<open>Drain authorizations\<close>

record drain_assembler =
  dz_max_experts :: int
  dz_pending :: "(int, drain_parts) dict"

definition DrainAuthorizationAssembler :: "int \<Rightarrow> exn + drain_assembler" where
  "DrainAuthorizationAssembler max_experts =
     (if max_experts \<le> 0 then Inl (ValueError ''max_experts must be a positive integer'')
      else Inr \<lparr>dz_max_experts = max_experts, dz_pending = []\<rparr>)"

definition drain_metadata :: "drain_part \<Rightarrow> int \<times> int \<times> bool \<times> int" where
  "drain_metadata part = (dp_placement_generation part, dp_min_topology_version part, dp_stop_all part, dp_part_count part)"

definition new_drain_parts :: "drain_part \<Rightarrow> drain_parts" where
  "new_drain_parts part =
     \<lparr>dq_placement_generation = dp_placement_generation part, dq_min_topology_version = dp_min_topology_version part,
      dq_stop_all = dp_stop_all part, dq_store = new_store (dp_part_count part)\<rparr>"

definition finish_drain :: "int \<Rightarrow> drain_assembler \<Rightarrow> drain_parts \<Rightarrow> (exn + drain_authorization option) \<times> drain_assembler" where
  "finish_drain drain_id z current =
     (if int (length (ps_parts (dq_store current))) \<noteq> ps_part_count (dq_store current) then (Inr None, z)
      else
        (case rbind (ordered_parts (ps_part_count (dq_store current)) (ps_parts (dq_store current))) (\<lambda>parts.
                rbind (collect_experts (\<lambda>(l, e). WeightKey l e) (\<lambda>k. k) ''complete drain authorization contains a duplicate expert'' []
                         (concat (map dp_experts parts))) (\<lambda>experts.
                  if int (length experts) > dz_max_experts z then Inl (ValueError ''complete drain authorization exceeds max_experts'')
                  else if experts = [] \<and> \<not> dq_stop_all current
                  then Inl (ValueError ''expert drain authorization must name at least one expert'')
                  else Inr experts)) of
           Inl e \<Rightarrow> (Inl e, z)
         | Inr experts \<Rightarrow>
             (Inr (Some \<lparr>da_drain_id = drain_id, da_placement_generation = dq_placement_generation current,
                da_min_topology_version = dq_min_topology_version current, da_stop_accepting_all_computation = dq_stop_all current,
                da_experts = experts\<rparr>),
              z\<lparr>dz_pending := AList.delete drain_id (dz_pending z)\<rparr>)))"

definition drain_add ::
  "(drain_part \<Rightarrow> wire) \<Rightarrow> (wire \<Rightarrow> drain_part) \<Rightarrow> drain_part \<Rightarrow> drain_assembler \<Rightarrow> (exn + drain_authorization option) \<times> drain_assembler" where
  "drain_add serialize from_string part z =
     (case raise_first (validate_positive_uint64 ''drain_id'' (dp_drain_id part) @
             validate_positive_uint64 ''placement_generation'' (dp_placement_generation part) @
             validate_positive_uint64 ''min_topology_version'' (dp_min_topology_version part)) of
        Some e \<Rightarrow> (Inl e, z)
      | None \<Rightarrow>
        let encoded = serialize part in
        (case validate_part encoded (dp_part_index part) (dp_part_count part) (length (dp_experts part)) (dz_max_experts z) of
           Some e \<Rightarrow> (Inl e, z)
         | None \<Rightarrow>
           if map_of (dz_pending z) (dp_drain_id part) = None \<and> length (dz_pending z) \<ge> MAX_PENDING_DRAINS
           then (Inl (ValueError ''too many incomplete drain authorizations''), z)
           else
             let current = (case map_of (dz_pending z) (dp_drain_id part) of Some c \<Rightarrow> c | None \<Rightarrow> new_drain_parts part);
                 z1 = z\<lparr>dz_pending := AList.update (dp_drain_id part) current (dz_pending z)\<rparr>
             in if drain_metadata part \<noteq> (dq_placement_generation current, dq_min_topology_version current, dq_stop_all current,
                     ps_part_count (dq_store current))
                then (Inl (ValueError ''drain parts disagree about authorization metadata''), z1)
                else (case store_part from_string ''drain stream repeated one part with different content'' (dp_part_index part) encoded (dq_store current) of
                        Inl e \<Rightarrow> (Inl e, z1)
                      | Inr store \<Rightarrow>
                          let current' = current\<lparr>dq_store := store\<rparr>
                          in finish_drain (dp_drain_id part) (z1\<lparr>dz_pending := AList.update (dp_drain_id part) current' (dz_pending z1)\<rparr>) current')))"
section \<open>What the two assemblers keep of the received parts\<close>

definition store_holds :: "('p \<Rightarrow> wire) \<Rightarrow> 'p list \<Rightarrow> nat set \<Rightarrow> 'p part_store \<Rightarrow> bool" where
  "store_holds serialize ps D st \<longleftrightarrow> ps_part_count st = int (length ps) \<and>
     received (map serialize ps) D (ps_encoded st) \<and> received ps D (ps_parts st)"

lemma new_store_holds: "store_holds serialize ps {} (new_store (int (length ps)))"
  by (simp add: store_holds_def new_store_def received_empty)

lemma store_part_holds:
  assumes "store_holds serialize ps D st" and "i < length ps" and "from_string (serialize (ps ! i)) = ps ! i"
  obtains st' where "store_part from_string message (int i) (serialize (ps ! i)) st = Inr st'"
    and "store_holds serialize ps (insert i D) st'"
proof (cases "i \<in> D")
  case True
  with assms have "map_of (ps_encoded st) (int i) = Some (serialize (ps ! i))"
    using received_get [of "map serialize ps" D "ps_encoded st" i] by (simp add: store_holds_def)
  then show ?thesis using that [of st] assms(1) True by (simp add: store_part_def insert_absorb)
next
  case False
  with assms have none: "map_of (ps_encoded st) (int i) = None"
    using received_get [of "map serialize ps" D "ps_encoded st" i] by (simp add: store_holds_def)
  have "store_holds serialize ps (insert i D)
     (st\<lparr>ps_encoded := AList.update (int i) (serialize (ps ! i)) (ps_encoded st), ps_parts := AList.update (int i) (ps ! i) (ps_parts st)\<rparr>)"
    using assms received_add [of "map serialize ps" D "ps_encoded st" i] by (simp add: store_holds_def received_add)
  then show ?thesis using that none assms(3) by (simp add: store_part_def)
qed

lemma store_holds_count: "store_holds serialize ps D st \<Longrightarrow> int (length (ps_parts st)) = ps_part_count st \<longleftrightarrow> D = {..<length ps}"
  by (simp add: store_holds_def received_complete)

lemma store_holds_parts:
  "store_holds serialize ps {..<length ps} st \<Longrightarrow> ordered_parts (ps_part_count st) (ps_parts st) = Inr ps"
  by (simp add: store_holds_def ordered_parts_complete)

lemma collect_experts_distinct:
  assumes "\<And>w. w \<in> set ws \<Longrightarrow> construct w = Inr (f w)" and "distinct (map key (experts @ map f ws))"
  shows "collect_experts construct key message experts ws = Inr (experts @ map f ws)"
  using assms
proof (induction ws arbitrary: experts)
  case (Cons w ws)
  have "key (f w) \<notin> key ` set experts" using Cons.prems(2) by auto
  then show ?case using Cons.IH [of "experts @ [f w]"] Cons.prems by simp
qed simp

section \<open>Assembling a target list\<close>

definition wire_expert :: "wire_target \<Rightarrow> target_expert" where
  "wire_expert w = \<lparr>tx_layer_id = wt_layer_id w, tx_expert_id = wt_expert_id w, tx_target_device = wt_target_device w,
     tx_peer_endpoints = wt_peer_weight_endpoints w\<rparr>"

lemma make_target_ok: "target_expert_post_init (wire_expert w) = None \<Longrightarrow> make_target w = Inr (wire_expert w)"
  by (simp add: make_target_def wire_expert_def)

text \<open>The parts \<open>ps\<close> of one target list as the Controller sends it: numbered, within the limits, without repeated experts.\<close>

definition target_message :: "(target_part \<Rightarrow> wire) \<Rightarrow> (wire \<Rightarrow> target_part) \<Rightarrow> int \<Rightarrow> int \<Rightarrow> target_part list \<Rightarrow> bool" where
  "target_message serialize from_string max_experts generation ps \<longleftrightarrow>
     0 < generation \<and> generation \<le> uint64_max \<and> int (length ps) \<le> max_experts \<and>
     (\<forall>i<length ps. tp_placement_generation (ps ! i) = generation \<and> tp_part_index (ps ! i) = int i \<and>
        tp_part_count (ps ! i) = int (length ps) \<and> length (tp_experts (ps ! i)) \<le> MAX_EXPERTS_PER_CONTROL_PART \<and>
        int (length (serialize (ps ! i))) \<le> MAX_CONTROL_PART_BYTES \<and> from_string (serialize (ps ! i)) = ps ! i) \<and>
     (let ws = concat (map tp_experts ps)
      in (\<forall>w\<in>set ws. target_expert_post_init (wire_expert w) = None) \<and> distinct (map (tx_key \<circ> wire_expert) ws) \<and>
         int (length ws) \<le> max_experts)"

definition target_holds ::
  "(target_part \<Rightarrow> wire) \<Rightarrow> (wire \<Rightarrow> target_part) \<Rightarrow> target_part list \<Rightarrow> nat set \<Rightarrow> target_assembler \<Rightarrow> bool" where
  "target_holds serialize from_string ps D a \<longleftrightarrow>
     (let generation = tp_placement_generation (ps ! 0)
      in target_message serialize from_string (ta_max_experts a) generation ps \<and>
         (if D = {} then ta_generation a < generation
          else ta_generation a = generation \<and> (\<exists>st. ta_current a = Some st \<and> store_holds serialize ps D st)))"

definition whole_targets :: "target_part list \<Rightarrow> placement_targets" where
  "whole_targets ps = \<lparr>pt_placement_generation = tp_placement_generation (ps ! 0), pt_experts = map wire_expert (concat (map tp_experts ps))\<rparr>"

lemma finish_targets_holds:
  assumes "target_message serialize from_string (ta_max_experts a) (tp_placement_generation (ps ! 0)) ps"
    and "store_holds serialize ps D st"
  shows "finish_targets a (tp_placement_generation (ps ! 0)) st = Inr (if D = {..<length ps} then Some (whole_targets ps) else None)"
proof (cases "D = {..<length ps}")
  case True
  define ws where "ws = concat (map tp_experts ps)"
  have ws: "\<forall>w\<in>set ws. target_expert_post_init (wire_expert w) = None" "distinct (map (tx_key \<circ> wire_expert) ws)"
    using assms(1) unfolding target_message_def Let_def ws_def by blast+
  have "collect_experts make_target tx_key m [] ws = Inr (map wire_expert ws)" for m
    using collect_experts_distinct [of ws make_target wire_expert tx_key "[]" m] ws make_target_ok by simp
  then have "collect_experts make_target tx_key m [] (concat (map tp_experts ps)) = Inr (map wire_expert (concat (map tp_experts ps)))" for m
    by (simp only: ws_def)
  then show ?thesis
    using True assms store_holds_count [OF assms(2)] store_holds_parts [of serialize ps st]
    by (simp add: finish_targets_def whole_targets_def target_message_def Let_def del: map_concat)
qed (use store_holds_count [OF assms(2)] in \<open>simp add: finish_targets_def\<close>)

lemma target_message_D:
  assumes "target_message serialize from_string n g ps" and "i < length ps"
  shows "tp_placement_generation (ps ! i) = g" and "tp_part_index (ps ! i) = int i" and "tp_part_count (ps ! i) = int (length ps)"
    and "from_string (serialize (ps ! i)) = ps ! i" and "0 < g" and "g \<le> uint64_max"
    and "validate_part (serialize (ps ! i)) (int i) (int (length ps)) (length (tp_experts (ps ! i))) n = None"
proof -
  have "0 < g \<and> g \<le> uint64_max \<and> int (length ps) \<le> n" using assms(1) unfolding target_message_def by blast
  moreover have "tp_placement_generation (ps ! i) = g \<and> tp_part_index (ps ! i) = int i \<and> tp_part_count (ps ! i) = int (length ps) \<and>
      length (tp_experts (ps ! i)) \<le> MAX_EXPERTS_PER_CONTROL_PART \<and> int (length (serialize (ps ! i))) \<le> MAX_CONTROL_PART_BYTES \<and>
      from_string (serialize (ps ! i)) = ps ! i" using assms unfolding target_message_def by blast
  moreover have "0 < int (length ps)" using assms(2) by linarith
  ultimately show "tp_placement_generation (ps ! i) = g" and "tp_part_index (ps ! i) = int i" and "tp_part_count (ps ! i) = int (length ps)"
    and "from_string (serialize (ps ! i)) = ps ! i" and "0 < g" and "g \<le> uint64_max"
    and "validate_part (serialize (ps ! i)) (int i) (int (length ps)) (length (tp_experts (ps ! i))) n = None"
    using assms(2) by (auto simp: validate_part_def)
qed

lemma target_add_holds:
  assumes "target_holds serialize from_string ps D a" and "i < length ps"
  obtains a' where "target_add serialize from_string (ps ! i) a = (Inr (if insert i D = {..<length ps} then Some (whole_targets ps) else None), a')"
    and "target_holds serialize from_string ps (insert i D) a'"
proof -
  let ?g = "tp_placement_generation (ps ! 0)"
  have msg: "target_message serialize from_string (ta_max_experts a) ?g ps" using assms(1) by (simp add: target_holds_def Let_def)
  have part: "tp_placement_generation (ps ! i) = ?g" "tp_part_index (ps ! i) = int i" "tp_part_count (ps ! i) = int (length ps)"
    "from_string (serialize (ps ! i)) = ps ! i" and g: "0 < ?g" "?g \<le> uint64_max"
    and valid: "validate_part (serialize (ps ! i)) (int i) (int (length ps)) (length (tp_experts (ps ! i))) (ta_max_experts a) = None"
    using target_message_D [OF msg assms(2)] by simp_all
  define st where "st = (if D = {} then new_store (int (length ps)) else the (ta_current a))"
  define b where "b = a\<lparr>ta_generation := ?g, ta_current := Some st\<rparr>"
  have st: "store_holds serialize ps D st"
    using assms(1) new_store_holds by (auto simp: target_holds_def st_def Let_def split: if_splits)
  obtain st' where st': "store_part from_string ''target stream repeated one part with different content'' (int i) (serialize (ps ! i)) st = Inr st'"
    "store_holds serialize ps (insert i D) st'"
    by (rule store_part_holds [where from_string = from_string and serialize = serialize, OF st assms(2) part(4)])
  have b: "a\<lparr>ta_generation := ?g, ta_current := Some st\<rparr> = b" "ta_max_experts b = ta_max_experts a" by (simp_all add: b_def)
  have pos: "raise_first (validate_positive_uint64 ''placement_generation'' ?g) = None" using g by (simp add: validate_positive_uint64_def)
  have count: "ps_part_count st = int (length ps)" using st by (simp add: store_holds_def)
  have "target_add serialize from_string (ps ! i) a = (finish_targets b ?g st', b\<lparr>ta_current := Some st'\<rparr>)"
  proof (cases "D = {}")
    case True
    then have "ta_generation a < ?g" "st = new_store (int (length ps))" using assms(1) by (simp_all add: target_holds_def Let_def st_def)
    then show ?thesis using part pos valid st'(1) count by (simp add: target_add_def Let_def b_def)
  next
    case False
    then have "ta_generation a = ?g" "ta_current a = Some st" using assms(1) by (auto simp: target_holds_def Let_def st_def)
    moreover from this(1) have "b = a\<lparr>ta_current := Some st\<rparr>" unfolding b_def by (cases a) simp
    ultimately show ?thesis using part pos valid st'(1) count by (simp add: target_add_def Let_def)
  qed
  moreover have "finish_targets b ?g st' = Inr (if insert i D = {..<length ps} then Some (whole_targets ps) else None)"
    by (rule finish_targets_holds) (use msg b st'(2) in simp_all)
  moreover have "target_holds serialize from_string ps (insert i D) (b\<lparr>ta_current := Some st'\<rparr>)"
    using msg st'(2) b by (simp add: target_holds_def Let_def b_def)
  ultimately show ?thesis using that by simp
qed

interpretation targets: part_assembler "target_add serialize from_string" "target_holds serialize from_string" "\<lambda>_ _. True" "\<lambda>ps _. whole_targets ps"
    "\<lambda>ps a. ta_generation a = tp_placement_generation (ps ! 0)"
  for serialize from_string
proof
  fix ps D a i
  assume holds: "target_holds serialize from_string ps D a" and i: "i < length ps"
  obtain a' where a': "target_add serialize from_string (ps ! i) a = (Inr (if insert i D = {..<length ps} then Some (whole_targets ps) else None), a')"
    "target_holds serialize from_string ps (insert i D) a'"
    using target_add_holds [OF holds i] .
  show "\<exists>s'. target_add serialize from_string (ps ! i) a = (Inr None, s') \<and> target_holds serialize from_string ps (insert i D) s' \<and>
      whole_targets ps = whole_targets ps" if "insert i D \<noteq> {..<length ps}"
    using a' that by simp
  show "\<exists>s'. target_add serialize from_string (ps ! i) a = (Inr (Some (whole_targets ps)), s') \<and>
      ta_generation s' = tp_placement_generation (ps ! 0)" if "insert i D = {..<length ps}"
    using a' that i by (auto simp: target_holds_def Let_def split: if_splits)
qed

section \<open>Assembling a drain authorization\<close>

text \<open>
  The parts of one drain authorization, with the metadata its parts share. The assembler has room
  for it: fewer than 64 other authorizations are incomplete.
\<close>

definition drain_message :: "(drain_part \<Rightarrow> wire) \<Rightarrow> (wire \<Rightarrow> drain_part) \<Rightarrow> int \<Rightarrow> drain_part list \<Rightarrow> bool" where
  "drain_message serialize from_string max_experts ps \<longleftrightarrow>
     int (length ps) \<le> max_experts \<and>
     (\<forall>i<length ps. dp_drain_id (ps ! i) = dp_drain_id (ps ! 0) \<and> drain_metadata (ps ! i) = drain_metadata (ps ! 0) \<and>
        0 < dp_drain_id (ps ! i) \<and> dp_drain_id (ps ! i) \<le> uint64_max \<and>
        0 < dp_placement_generation (ps ! i) \<and> dp_placement_generation (ps ! i) \<le> uint64_max \<and>
        0 < dp_min_topology_version (ps ! i) \<and> dp_min_topology_version (ps ! i) \<le> uint64_max \<and>
        dp_part_index (ps ! i) = int i \<and> dp_part_count (ps ! i) = int (length ps) \<and>
        length (dp_experts (ps ! i)) \<le> MAX_EXPERTS_PER_CONTROL_PART \<and>
        int (length (serialize (ps ! i))) \<le> MAX_CONTROL_PART_BYTES \<and> from_string (serialize (ps ! i)) = ps ! i) \<and>
     (let ks = concat (map dp_experts ps)
      in (\<forall>k\<in>set ks. 0 \<le> fst k \<and> 0 \<le> snd k) \<and> distinct ks \<and> int (length ks) \<le> max_experts \<and> (ks = [] \<longrightarrow> dp_stop_all (ps ! 0)))"

definition drain_holds ::
  "(drain_part \<Rightarrow> wire) \<Rightarrow> (wire \<Rightarrow> drain_part) \<Rightarrow> drain_part list \<Rightarrow> nat set \<Rightarrow> drain_assembler \<Rightarrow> bool" where
  "drain_holds serialize from_string ps D z \<longleftrightarrow>
     drain_message serialize from_string (dz_max_experts z) ps \<and>
     (if D = {} then map_of (dz_pending z) (dp_drain_id (ps ! 0)) = None \<and> length (dz_pending z) < MAX_PENDING_DRAINS
      else \<exists>q. map_of (dz_pending z) (dp_drain_id (ps ! 0)) = Some q \<and> store_holds serialize ps D (dq_store q) \<and>
        drain_metadata (ps ! 0) = (dq_placement_generation q, dq_min_topology_version q, dq_stop_all q, ps_part_count (dq_store q)))"

definition whole_drain :: "drain_part list \<Rightarrow> drain_authorization" where
  "whole_drain ps = \<lparr>da_drain_id = dp_drain_id (ps ! 0), da_placement_generation = dp_placement_generation (ps ! 0),
     da_min_topology_version = dp_min_topology_version (ps ! 0), da_stop_accepting_all_computation = dp_stop_all (ps ! 0),
     da_experts = concat (map dp_experts ps)\<rparr>"

lemma drain_message_D:
  assumes "drain_message serialize from_string n ps" and "i < length ps"
  shows "dp_drain_id (ps ! i) = dp_drain_id (ps ! 0)" and "drain_metadata (ps ! i) = drain_metadata (ps ! 0)"
    and "dp_part_index (ps ! i) = int i" and "dp_part_count (ps ! i) = int (length ps)" and "from_string (serialize (ps ! i)) = ps ! i"
    and "raise_first (validate_positive_uint64 ''drain_id'' (dp_drain_id (ps ! i)) @
           validate_positive_uint64 ''placement_generation'' (dp_placement_generation (ps ! i)) @
           validate_positive_uint64 ''min_topology_version'' (dp_min_topology_version (ps ! i))) = None"
    and "validate_part (serialize (ps ! i)) (int i) (int (length ps)) (length (dp_experts (ps ! i))) n = None"
proof -
  have "int (length ps) \<le> n" and "0 < int (length ps)" using assms unfolding drain_message_def by (blast, linarith)
  moreover have "dp_drain_id (ps ! i) = dp_drain_id (ps ! 0) \<and> drain_metadata (ps ! i) = drain_metadata (ps ! 0) \<and>
        0 < dp_drain_id (ps ! i) \<and> dp_drain_id (ps ! i) \<le> uint64_max \<and>
        0 < dp_placement_generation (ps ! i) \<and> dp_placement_generation (ps ! i) \<le> uint64_max \<and>
        0 < dp_min_topology_version (ps ! i) \<and> dp_min_topology_version (ps ! i) \<le> uint64_max \<and>
        dp_part_index (ps ! i) = int i \<and> dp_part_count (ps ! i) = int (length ps) \<and>
        length (dp_experts (ps ! i)) \<le> MAX_EXPERTS_PER_CONTROL_PART \<and>
        int (length (serialize (ps ! i))) \<le> MAX_CONTROL_PART_BYTES \<and> from_string (serialize (ps ! i)) = ps ! i"
    using assms unfolding drain_message_def by blast
  ultimately show "dp_drain_id (ps ! i) = dp_drain_id (ps ! 0)" and "drain_metadata (ps ! i) = drain_metadata (ps ! 0)"
    and "dp_part_index (ps ! i) = int i" and "dp_part_count (ps ! i) = int (length ps)" and "from_string (serialize (ps ! i)) = ps ! i"
    and "raise_first (validate_positive_uint64 ''drain_id'' (dp_drain_id (ps ! i)) @
           validate_positive_uint64 ''placement_generation'' (dp_placement_generation (ps ! i)) @
           validate_positive_uint64 ''min_topology_version'' (dp_min_topology_version (ps ! i))) = None"
    and "validate_part (serialize (ps ! i)) (int i) (int (length ps)) (length (dp_experts (ps ! i))) n = None"
    using assms(2) by (auto simp: validate_part_def validate_positive_uint64_def)
qed

text \<open>The last two steps on the record that is pending for the authorization.\<close>

lemma finish_drain_holds:
  assumes "drain_message serialize from_string (dz_max_experts z) ps" and "store_holds serialize ps D (dq_store q)"
    and "drain_metadata (ps ! 0) = (dq_placement_generation q, dq_min_topology_version q, dq_stop_all q, ps_part_count (dq_store q))"
  shows "finish_drain (dp_drain_id (ps ! 0)) z q =
    (if D = {..<length ps} then (Inr (Some (whole_drain ps)), z\<lparr>dz_pending := AList.delete (dp_drain_id (ps ! 0)) (dz_pending z)\<rparr>)
     else (Inr None, z))"
proof (cases "D = {..<length ps}")
  case True
  define ks where "ks = concat (map dp_experts ps)"
  have ks: "\<forall>k\<in>set ks. 0 \<le> fst k \<and> 0 \<le> snd k" "distinct ks" "int (length ks) \<le> dz_max_experts z" "ks = [] \<longrightarrow> dp_stop_all (ps ! 0)"
    using assms(1) unfolding drain_message_def Let_def ks_def by blast+
  have wk: "(\<lambda>(l, e). WeightKey l e) k = Inr k" if "k \<in> set ks" for k
    using bspec [OF ks(1) that] by (cases k) (simp add: WeightKey_def)
  have collect: "collect_experts (\<lambda>(l, e). WeightKey l e) (\<lambda>k. k) m [] ks = Inr ks" for m
    using collect_experts_distinct [of ks "\<lambda>(l, e). WeightKey l e" "\<lambda>k. k" "\<lambda>k. k" "[]" m] ks(2) wk by simp
  have parts: "ordered_parts (ps_part_count (dq_store q)) (ps_parts (dq_store q)) = Inr ps"
    using store_holds_parts [of serialize ps "dq_store q"] assms(2) True by simp
  have count: "int (length (ps_parts (dq_store q))) = ps_part_count (dq_store q)" using store_holds_count [OF assms(2)] True by simp
  have whole: "whole_drain ps = \<lparr>da_drain_id = dp_drain_id (ps ! 0), da_placement_generation = dq_placement_generation q,
     da_min_topology_version = dq_min_topology_version q, da_stop_accepting_all_computation = dq_stop_all q, da_experts = ks\<rparr>"
    using assms(3) by (simp add: whole_drain_def drain_metadata_def ks_def)
  have "\<not> dz_max_experts z < int (length ks)" "\<not> (ks = [] \<and> \<not> dq_stop_all q)"
    using ks assms(3) by (auto simp: drain_metadata_def)
  then show ?thesis
    using collect unfolding finish_drain_def whole parts count ks_def [symmetric] by (simp add: True ks_def [symmetric])
qed (use store_holds_count [OF assms(2)] in \<open>simp add: finish_drain_def\<close>)

lemma drain_add_holds:
  assumes "drain_holds serialize from_string ps D z" and "i < length ps"
  obtains z' where "drain_add serialize from_string (ps ! i) z = (Inr (if insert i D = {..<length ps} then Some (whole_drain ps) else None), z')"
    and "insert i D \<noteq> {..<length ps} \<longrightarrow> drain_holds serialize from_string ps (insert i D) z'"
    and "insert i D = {..<length ps} \<longrightarrow> map_of (dz_pending z') (dp_drain_id (ps ! 0)) = None"
proof -
  let ?id = "dp_drain_id (ps ! 0)"
  have msg: "drain_message serialize from_string (dz_max_experts z) ps" using assms(1) by (simp add: drain_holds_def)
  note part = drain_message_D [OF msg assms(2)]
  define q where "q = (case map_of (dz_pending z) ?id of Some c \<Rightarrow> c | None \<Rightarrow> new_drain_parts (ps ! i))"
  define z1 where "z1 = z\<lparr>dz_pending := AList.update ?id q (dz_pending z)\<rparr>"
  have q: "store_holds serialize ps D (dq_store q)"
    "drain_metadata (ps ! 0) = (dq_placement_generation q, dq_min_topology_version q, dq_stop_all q, ps_part_count (dq_store q))"
    using assms(1) new_store_holds [of serialize ps] part(2,4)
    by (auto simp: drain_holds_def q_def new_drain_parts_def drain_metadata_def new_store_def split: if_splits)
  obtain st where st: "store_part from_string ''drain stream repeated one part with different content'' (int i) (serialize (ps ! i)) (dq_store q) = Inr st"
    "store_holds serialize ps (insert i D) st"
    by (rule store_part_holds [where from_string = from_string and serialize = serialize, OF q(1) assms(2) part(5)])
  define q' where "q' = q\<lparr>dq_store := st\<rparr>"
  define z2 where "z2 = z1\<lparr>dz_pending := AList.update ?id q' (dz_pending z1)\<rparr>"
  have room: "\<not> (map_of (dz_pending z) ?id = None \<and> MAX_PENDING_DRAINS \<le> length (dz_pending z))"
    using assms(1) by (auto simp: drain_holds_def split: if_splits)
  have q': "drain_metadata (ps ! 0) = (dq_placement_generation q', dq_min_topology_version q', dq_stop_all q', ps_part_count (dq_store q'))"
    "store_holds serialize ps (insert i D) (dq_store q')"
    using q st(2) by (auto simp: q'_def store_holds_def)
  have "drain_add serialize from_string (ps ! i) z = finish_drain ?id z2 q'"
    using room q(2) unfolding drain_add_def part(1-5) part(6) [unfolded part(1)] part(7) Let_def q_def [symmetric] st(1) z1_def [symmetric]
    by (auto simp: q'_def [symmetric] z2_def [symmetric])
  also have "\<dots> = (if insert i D = {..<length ps} then (Inr (Some (whole_drain ps)), z2\<lparr>dz_pending := AList.delete ?id (dz_pending z2)\<rparr>)
     else (Inr None, z2))"
    by (rule finish_drain_holds) (use msg q' in \<open>simp_all add: z2_def z1_def\<close>)
  finally have "drain_add serialize from_string (ps ! i) z = \<dots>" .
  moreover have "drain_holds serialize from_string ps (insert i D) z2"
    using msg q' by (simp add: drain_holds_def z2_def z1_def)
  ultimately show ?thesis using that by (cases "insert i D = {..<length ps}") auto
qed

interpretation drains: part_assembler "drain_add serialize from_string" "drain_holds serialize from_string" "\<lambda>_ _. True" "\<lambda>ps _. whole_drain ps"
    "\<lambda>ps z. map_of (dz_pending z) (dp_drain_id (ps ! 0)) = None"
  for serialize from_string
proof
  fix ps D z i
  assume "drain_holds serialize from_string ps D z" and "i < length ps"
  then obtain z' where z': "drain_add serialize from_string (ps ! i) z = (Inr (if insert i D = {..<length ps} then Some (whole_drain ps) else None), z')"
    "insert i D \<noteq> {..<length ps} \<longrightarrow> drain_holds serialize from_string ps (insert i D) z'"
    "insert i D = {..<length ps} \<longrightarrow> map_of (dz_pending z') (dp_drain_id (ps ! 0)) = None"
    by (rule drain_add_holds)
  show "\<exists>s'. drain_add serialize from_string (ps ! i) z = (Inr None, s') \<and> drain_holds serialize from_string ps (insert i D) s' \<and>
      whole_drain ps = whole_drain ps" if "insert i D \<noteq> {..<length ps}"
    using z' that by simp
  show "\<exists>s'. drain_add serialize from_string (ps ! i) z = (Inr (Some (whole_drain ps)), s') \<and>
      map_of (dz_pending s') (dp_drain_id (ps ! 0)) = None" if "insert i D = {..<length ps}"
    using z' that by simp
qed

text \<open>
  C28. A target list survives any delivery of its parts. When the parts of a well-formed message of a
  newer placement generation arrive in any order, repeated or not, the assembler returns nothing until
  every part is there, whatever incomplete or finished message of an older generation it held before;
  the part that completes the message returns all its experts in the order of the parts.
\<close>

theorem target_list_assembly:
  assumes "target_message serialize from_string (ta_max_experts a) (tp_placement_generation (ps ! 0)) ps"
    and "ta_generation a < tp_placement_generation (ps ! 0)"
    and "i < length ps" and "i \<notin> set is" and "set (i # is) = {..<length ps}"
  shows "fst (deliver (target_add serialize from_string) ps (is @ [i]) a) = replicate (length is) (Inr None) @
     [Inr (Some \<lparr>pt_placement_generation = tp_placement_generation (ps ! 0), pt_experts = map wire_expert (concat (map tp_experts ps))\<rparr>)]"
proof -
  have any: "targets.acceptable xs D" for xs D by (induction xs arbitrary: D) simp_all
  have "set is \<subset> {..<length ps}" using assms(4,5) by auto
  moreover have "target_holds serialize from_string ps {} a" using assms(1,2) by (simp add: target_holds_def Let_def)
  ultimately obtain a' where "deliver (target_add serialize from_string) ps (is @ [i]) a = (replicate (length is) (Inr None) @ [Inr (Some (whole_targets ps))], a')"
    using targets.any_order [OF _ _ assms(3,5) any] by blast
  then show ?thesis by (simp add: whole_targets_def del: map_concat)
qed
definition ex_target_parts :: "target_part list" where
  "ex_target_parts =
     [\<lparr>tp_placement_generation = 7, tp_part_index = 0, tp_part_count = 2, tp_experts =
         [\<lparr>wt_layer_id = 0, wt_expert_id = 3, wt_target_device = ''cuda'', wt_peer_weight_endpoints = [''http://peer'']\<rparr>,
          \<lparr>wt_layer_id = 1, wt_expert_id = 3, wt_target_device = ''cuda'', wt_peer_weight_endpoints = []\<rparr>]\<rparr>,
      \<lparr>tp_placement_generation = 7, tp_part_index = 1, tp_part_count = 2, tp_experts =
         [\<lparr>wt_layer_id = 0, wt_expert_id = 1, wt_target_device = ''cuda'', wt_peer_weight_endpoints = []\<rparr>]\<rparr>]"

definition ex_serialize :: "target_part \<Rightarrow> wire" where
  "ex_serialize part = [nat (tp_placement_generation part), nat (tp_part_index part), nat (tp_part_count part), length (tp_experts part)]"

definition ex_from_string :: "wire \<Rightarrow> target_part" where
  "ex_from_string bytes = ex_target_parts ! (bytes ! 1)"

definition ex_assembler :: target_assembler where
  "ex_assembler = \<lparr>ta_max_experts = 8, ta_generation = 6, ta_current = Some (new_store 3)\<rparr>"

theorem target_list_assembly_witness:
  "fst (deliver (target_add ex_serialize ex_from_string) ex_target_parts [1, 1, 0] ex_assembler) =
     [Inr None, Inr None, Inr (Some \<lparr>pt_placement_generation = 7, pt_experts = map wire_expert (concat (map tp_experts ex_target_parts))\<rparr>)]"
proof -
  have "target_message ex_serialize ex_from_string (ta_max_experts ex_assembler) (tp_placement_generation (ex_target_parts ! 0)) ex_target_parts"
    by code_simp
  moreover have "ta_generation ex_assembler < tp_placement_generation (ex_target_parts ! 0)" "set [0, 1, 1] = {..<length ex_target_parts}"
    "tp_placement_generation (ex_target_parts ! 0) = 7" "length ex_target_parts = 2"
    by (simp_all add: ex_assembler_def ex_target_parts_def lessThan_Suc insert_commute)
  ultimately show ?thesis using target_list_assembly [of ex_serialize ex_from_string ex_assembler ex_target_parts 0 "[1, 1]"] by (simp add: numeral_2_eq_2 del: map_concat)
qed

end
