(* ===== verification/Topology_Messages.thy ===== *)
theory Topology_Messages
  imports Multipart Routing_Topology
begin

text \<open>
  \<open>ek-transport/src/expertkit_transport/controller/messages.py\<close>: the Frontend's validation and assembly
  of multipart topology snapshots and updates. The protobuf messages are records of their fields;
  \<open>ExpertRoute\<close> and \<open>RouteChange\<close> have the same fields and are one record here. Of a retained part only
  its routes are read later, so the dictionary of parts keeps those. The division
  \<open>math.ceil(max_routes / 64)\<close> is exact in Python for fewer than \<open>2 ^ 53\<close> routes and is written with
  integers.
\<close>

definition MAX_ROUTES_PER_PART :: int where
  "MAX_ROUTES_PER_PART = 64"

definition WORKER_TRANSPORT_GRPC :: int where "WORKER_TRANSPORT_GRPC = 1"
definition WORKER_TRANSPORT_SHM :: int where "WORKER_TRANSPORT_SHM = 2"

record worker_route =
  wr_identity :: worker_identity
  wr_endpoint :: string
  wr_device :: string
  wr_max_active_batches :: int
  wr_max_pending_batches :: int
  wr_max_batch_tokens :: int
  wr_transport_type :: int

definition wr_max_in_flight :: "worker_route \<Rightarrow> int" where
  "wr_max_in_flight r = wr_max_active_batches r + wr_max_pending_batches r"

type_synonym route_descriptions = "(route_key, worker_route list) dict"

record wire_replica =
  rep_worker_id :: string
  rep_start_id :: string
  rep_computation_endpoint :: string
  rep_device :: string
  rep_max_active_batches :: int
  rep_max_pending_batches :: int
  rep_max_batch_tokens :: int
  rep_transport_type :: int

record wire_route =
  wire_layer_id :: int
  wire_expert_id :: int
  wire_replicas :: "wire_replica list"

record topology_part =
  part_instance_id :: int
  part_topology_version :: int
  part_index :: int
  part_count :: int
  part_entries :: "wire_route list"

text \<open>\<open>WhichOneof\<close>; an update part also has a \<open>previous_version\<close>.\<close>

datatype topology_message = Snapshot_Message topology_part | Update_Message int topology_part | Empty_Message

datatype message_kind = Kind_Snapshot | Kind_Update

record multipart_message =
  mm_kind :: message_kind
  mm_version :: int
  mm_previous_version :: "int option"
  mm_part_count :: int
  mm_parts :: "(int, wire_route list) dict"

record message_assembler =
  ma_instance_id :: int
  ma_num_layers :: int
  ma_experts_per_layer :: int
  ma_pending :: "multipart_message option"

definition TopologyMessageAssembler :: "int \<Rightarrow> int \<Rightarrow> int \<Rightarrow> message_assembler" where
  "TopologyMessageAssembler instance_id num_layers experts_per_layer =
     \<lparr>ma_instance_id = instance_id, ma_num_layers = num_layers, ma_experts_per_layer = experts_per_layer, ma_pending = None\<rparr>"

definition discard_incomplete :: "message_assembler \<Rightarrow> message_assembler" where
  "discard_incomplete a = a\<lparr>ma_pending := None\<rparr>"

definition validate_positive :: "string \<Rightarrow> int \<Rightarrow> (bool \<times> exn) list" where
  "validate_positive name value = [(value \<le> 0, TopologyProtocolError (name @ '' must be positive''))]"

section \<open>Decoding routes\<close>

definition check_replica :: "wire_replica \<Rightarrow> exn option" where
  "check_replica r = raise_first
     ([(rep_worker_id r = [] \<or> rep_start_id r = [] \<or> rep_computation_endpoint r = [] \<or> rep_device r = [],
         TopologyProtocolError ''topology Worker identity, endpoint, and device are required'')] @
      validate_positive ''max_active_batches'' (rep_max_active_batches r) @
      validate_positive ''max_pending_batches'' (rep_max_pending_batches r) @
      validate_positive ''max_batch_tokens'' (rep_max_batch_tokens r) @
      [(rep_transport_type r \<notin> {WORKER_TRANSPORT_GRPC, WORKER_TRANSPORT_SHM},
         TopologyProtocolError ''topology Worker Transport type is invalid'')])"

definition describe :: "wire_replica \<Rightarrow> worker_route" where
  "describe r = \<lparr>wr_identity = WorkerIdentity (rep_worker_id r) (rep_start_id r), wr_endpoint = rep_computation_endpoint r,
     wr_device = rep_device r, wr_max_active_batches = rep_max_active_batches r, wr_max_pending_batches = rep_max_pending_batches r,
     wr_max_batch_tokens = rep_max_batch_tokens r, wr_transport_type = rep_transport_type r\<rparr>"

text \<open>The loop over the replicas of one route; \<open>replicas\<close> also tells which identities were seen.\<close>

fun decode_replicas ::
  "wire_replica list \<Rightarrow> (worker_identity, worker_route) dict \<Rightarrow> worker_route list \<Rightarrow> exn + worker_route list \<times> (worker_identity, worker_route) dict" where
  "decode_replicas [] metadata replicas = Inr (replicas, metadata)"
| "decode_replicas (r # rs) metadata replicas =
     after (check_replica r)
      (let identity = WorkerIdentity (rep_worker_id r) (rep_start_id r);
           description = describe r
       in after (worker_identity_post_init identity)
          (after (raise_first [(identity \<in> wr_identity ` set replicas, TopologyProtocolError ''topology route repeats one Worker process'')])
           (let metadata' = dict_setdefault identity description metadata;
                existing = the (map_of metadata' identity)
            in if existing \<noteq> description
               then Inl (TopologyProtocolError ''one Worker process has inconsistent topology metadata'')
               else decode_replicas rs metadata' (replicas @ [description]))))"

definition wire_key :: "wire_route \<Rightarrow> route_key" where
  "wire_key r = (wire_layer_id r, wire_expert_id r)"

fun decode_routes ::
  "int \<Rightarrow> int \<Rightarrow> bool \<Rightarrow> wire_route list \<Rightarrow> (worker_identity, worker_route) dict \<Rightarrow> route_descriptions \<Rightarrow> exn + route_descriptions" where
  "decode_routes num_layers experts_per_layer allow_empty [] metadata decoded = Inr decoded"
| "decode_routes num_layers experts_per_layer allow_empty (route # routes) metadata decoded =
     after (raise_first
       [(wire_layer_id route \<ge> num_layers \<or> wire_expert_id route \<ge> experts_per_layer,
          TopologyProtocolError ''topology route is outside the model bounds''),
        (map_of decoded (wire_key route) \<noteq> None, TopologyProtocolError ''topology repeats one expert route'')])
      (rbind (decode_replicas (wire_replicas route) metadata []) (\<lambda>(replicas, metadata').
         if replicas = [] \<and> \<not> allow_empty
         then Inl (TopologyProtocolError ''snapshot route has no ready Worker replica'')
         else decode_routes num_layers experts_per_layer allow_empty routes metadata'
                (AList.update (wire_key route) replicas decoded)))"

section \<open>Completing a message\<close>

fun apply_changes ::
  "route_descriptions \<Rightarrow> wire_route list \<Rightarrow> route_key list \<Rightarrow> route_descriptions \<Rightarrow> exn + route_descriptions" where
  "apply_changes decoded [] seen descriptions = Inr descriptions"
| "apply_changes decoded (change # changes) seen descriptions =
     (let key = wire_key change
      in if key \<in> set seen then Inl (TopologyProtocolError ''topology update repeats one expert route'')
         else
           let replicas = (case map_of decoded key of Some rs \<Rightarrow> rs | None \<Rightarrow> [])
           in apply_changes decoded changes (key # seen)
                (if replicas \<noteq> [] then AList.update key replicas descriptions else AList.delete key descriptions))"

definition complete_snapshot ::
  "message_assembler \<Rightarrow> int \<Rightarrow> wire_route list \<Rightarrow> int \<Rightarrow> route_descriptions \<Rightarrow> exn + int \<times> route_descriptions" where
  "complete_snapshot a version routes installed_version installed_routes =
     rbind (decode_routes (ma_num_layers a) (ma_experts_per_layer a) False routes [] []) (\<lambda>descriptions.
       after (raise_first
         [(version < installed_version, TopologyProtocolError ''topology snapshot version moved backwards''),
          (descriptions \<noteq> [] \<and> version = 0, TopologyProtocolError ''a nonempty topology must have a positive version''),
          (version = installed_version \<and> \<not> dict_eq descriptions installed_routes,
            TopologyProtocolError ''one topology version has conflicting snapshots'')])
        (Inr (version, descriptions)))"

definition complete_update ::
  "message_assembler \<Rightarrow> int option \<Rightarrow> int \<Rightarrow> wire_route list \<Rightarrow> int \<Rightarrow> route_descriptions \<Rightarrow> exn + int \<times> route_descriptions" where
  "complete_update a previous_version version changes installed_version installed_routes =
     after (raise_first
       [(previous_version \<noteq> Some installed_version \<or> version \<le> the previous_version,
          TopologyProtocolError ''topology update does not join the installed version''),
        (changes = [], TopologyProtocolError ''topology update must contain at least one change'')])
      (rbind (decode_routes (ma_num_layers a) (ma_experts_per_layer a) True changes [] []) (\<lambda>decoded.
         rbind (apply_changes decoded changes [] installed_routes) (\<lambda>descriptions. Inr (version, descriptions))))"

section \<open>Consuming one part\<close>

definition max_parts :: "message_assembler \<Rightarrow> int" where
  "max_parts a = max 1 ((ma_num_layers a * ma_experts_per_layer a + MAX_ROUTES_PER_PART - 1) div MAX_ROUTES_PER_PART)"

definition check_part :: "topology_part \<Rightarrow> message_assembler \<Rightarrow> exn option" where
  "check_part part a = raise_first
     [(part_count part \<le> 0 \<or> part_index part \<ge> part_count part, TopologyProtocolError ''topology part index or count is invalid''),
      (int (length (part_entries part)) > MAX_ROUTES_PER_PART, TopologyProtocolError ''topology part contains more than 64 routes''),
      (part_count part > max_parts a, TopologyProtocolError ''topology part count exceeds the model route bound'')]"

definition consume_part ::
  "message_kind \<Rightarrow> int option \<Rightarrow> topology_part \<Rightarrow> int \<Rightarrow> route_descriptions \<Rightarrow> message_assembler \<Rightarrow> (exn + (int \<times> route_descriptions) option) \<times> message_assembler" where
  "consume_part kind previous_version part installed_version installed_routes a =
     (case check_part part a of
        Some e \<Rightarrow> (Inl e, a)
      | None \<Rightarrow>
        let version = part_topology_version part;
            pending = (case ma_pending a of
                Some p \<Rightarrow> p
              | None \<Rightarrow> \<lparr>mm_kind = kind, mm_version = version, mm_previous_version = previous_version,
                         mm_part_count = part_count part, mm_parts = []\<rparr>);
            a1 = a\<lparr>ma_pending := Some pending\<rparr>
        in if (mm_kind pending, mm_version pending, mm_previous_version pending, mm_part_count pending) \<noteq>
              (kind, version, previous_version, part_count part)
           then (Inl (TopologyProtocolError ''topology multipart messages were interleaved''), a1)
           else if map_of (mm_parts pending) (part_index part) \<noteq> None
           then (Inl (TopologyProtocolError ''topology part index was repeated''), a1)
           else
             let pending' = pending\<lparr>mm_parts := AList.update (part_index part) (part_entries part) (mm_parts pending)\<rparr>
             in if int (length (mm_parts pending')) \<noteq> part_count part then (Inr None, a\<lparr>ma_pending := Some pending'\<rparr>)
                else
                  (rbind (ordered_parts (part_count part) (mm_parts pending')) (\<lambda>ordered.
                     rbind (case kind of
                         Kind_Snapshot \<Rightarrow> complete_snapshot a version (concat ordered) installed_version installed_routes
                       | Kind_Update \<Rightarrow> complete_update a previous_version version (concat ordered) installed_version installed_routes)
                       (\<lambda>completed. Inr (Some completed))),
                   a\<lparr>ma_pending := None\<rparr>))"

definition consume ::
  "topology_message \<Rightarrow> int \<Rightarrow> route_descriptions \<Rightarrow> message_assembler \<Rightarrow> (exn + (int \<times> route_descriptions) option) \<times> message_assembler" where
  "consume message installed_version installed_routes a =
     (case message of
        Snapshot_Message part \<Rightarrow>
          if part_instance_id part \<noteq> ma_instance_id a
          then (Inl (TopologyProtocolError ''snapshot instance_id does not match the request''), a)
          else consume_part Kind_Snapshot None part installed_version installed_routes a
      | Update_Message previous_version part \<Rightarrow>
          if part_instance_id part \<noteq> ma_instance_id a
          then (Inl (TopologyProtocolError ''update instance_id does not match the request''), a)
          else consume_part Kind_Update (Some previous_version) part installed_version installed_routes a
      | Empty_Message \<Rightarrow> (Inl (TopologyProtocolError ''topology message has no snapshot or update''), a))"
section \<open>What decoding accepts\<close>

definition consistent_routes :: "worker_route list \<Rightarrow> bool" where
  "consistent_routes rs \<longleftrightarrow> (\<forall>x\<in>set rs. \<forall>y\<in>set rs. wr_identity x = wr_identity y \<longrightarrow> x = y)"

definition decode_route :: "wire_route \<Rightarrow> route_key \<times> worker_route list" where
  "decode_route r = (wire_key r, map describe (wire_replicas r))"

definition route_accepted :: "int \<Rightarrow> int \<Rightarrow> bool \<Rightarrow> wire_route \<Rightarrow> bool" where
  "route_accepted num_layers experts_per_layer allow_empty r \<longleftrightarrow>
     wire_layer_id r < num_layers \<and> wire_expert_id r < experts_per_layer \<and>
     (\<forall>p\<in>set (wire_replicas r). check_replica p = None) \<and> distinct (map wr_identity (map describe (wire_replicas r))) \<and>
     (wire_replicas r = [] \<longrightarrow> allow_empty)"

definition decodable :: "int \<Rightarrow> int \<Rightarrow> bool \<Rightarrow> wire_route list \<Rightarrow> bool" where
  "decodable num_layers experts_per_layer allow_empty routes \<longleftrightarrow>
     (\<forall>r\<in>set routes. route_accepted num_layers experts_per_layer allow_empty r) \<and> distinct (map wire_key routes) \<and>
     consistent_routes (concat (map (snd \<circ> decode_route) routes))"

lemma wr_identity_describe [simp]: "wr_identity (describe r) = WorkerIdentity (rep_worker_id r) (rep_start_id r)"
  by (simp add: describe_def)

lemma check_replica_identity: "check_replica r = None \<Longrightarrow> worker_identity_post_init (WorkerIdentity (rep_worker_id r) (rep_start_id r)) = None"
  by (simp add: check_replica_def worker_identity_post_init_def)

lemma decode_replicas_Cons:
  "decode_replicas (r # rs) metadata replicas = Inr x \<longleftrightarrow>
     check_replica r = None \<and> wr_identity (describe r) \<notin> wr_identity ` set replicas \<and>
     (case map_of metadata (wr_identity (describe r)) of None \<Rightarrow> True | Some d \<Rightarrow> d = describe r) \<and>
     decode_replicas rs (dict_setdefault (wr_identity (describe r)) (describe r) metadata) (replicas @ [describe r]) = Inr x"
  using check_replica_identity [of r] by (auto simp: Let_def split: option.splits)

text \<open>The metadata table only grows, and holds every description that was accepted.\<close>

lemma decode_replicas_sound:
  assumes "decode_replicas rs metadata replicas = Inr (out, metadata')" and "distinct (map wr_identity replicas)"
  shows "out = replicas @ map describe rs \<and> (\<forall>r\<in>set rs. check_replica r = None) \<and> distinct (map wr_identity out) \<and>
     map_of metadata \<subseteq>\<^sub>m map_of metadata' \<and> (\<forall>r\<in>set rs. map_of metadata' (wr_identity (describe r)) = Some (describe r))"
  using assms
proof (induction rs arbitrary: metadata replicas)
  case (Cons r rs)
  let ?m = "dict_setdefault (wr_identity (describe r)) (describe r) metadata"
  from Cons.prems(1) have c: "check_replica r = None" "wr_identity (describe r) \<notin> wr_identity ` set replicas"
    "decode_replicas rs ?m (replicas @ [describe r]) = Inr (out, metadata')"
    and m: "map_of metadata (wr_identity (describe r)) = None \<or> map_of metadata (wr_identity (describe r)) = Some (describe r)"
    by (auto simp only: decode_replicas_Cons split: option.splits)
  have "distinct (map wr_identity (replicas @ [describe r]))" using c(2) Cons.prems(2) by auto
  note IH = Cons.IH [OF c(3) this]
  have "map_of metadata \<subseteq>\<^sub>m map_of ?m" "map_of ?m (wr_identity (describe r)) = Some (describe r)"
    using m by (auto simp: map_le_def)
  with IH have "map_of metadata \<subseteq>\<^sub>m map_of metadata'" "map_of metadata' (wr_identity (describe r)) = Some (describe r)"
    by (blast intro: map_le_trans, metis domI map_le_def)
  then show ?case using IH c(1) by (elim conjE) simp
qed simp

lemma decode_replicas_complete:
  assumes "\<forall>r\<in>set rs. check_replica r = None" and "distinct (map wr_identity (replicas @ map describe rs))"
    and "map_of metadata \<subseteq>\<^sub>m F" and "\<forall>r\<in>set rs. F (wr_identity (describe r)) = Some (describe r)"
  shows "\<exists>metadata'. decode_replicas rs metadata replicas = Inr (replicas @ map describe rs, metadata') \<and> map_of metadata' \<subseteq>\<^sub>m F"
  using assms
proof (induction rs arbitrary: metadata replicas)
  case (Cons r rs)
  let ?m = "dict_setdefault (wr_identity (describe r)) (describe r) metadata"
  have F: "F (wr_identity (describe r)) = Some (describe r)" using Cons.prems(4) by simp
  have old: "case map_of metadata (wr_identity (describe r)) of None \<Rightarrow> True | Some d \<Rightarrow> d = describe r"
    using F Cons.prems(3) by (auto simp: map_le_def dom_def split: option.splits dest!: spec)
  have "map_of ?m \<subseteq>\<^sub>m F" using F Cons.prems(3) by (auto simp: map_le_def split: option.splits)
  with Cons.IH [of "replicas @ [describe r]" ?m] Cons.prems(1,2,4) obtain metadata' where
    "decode_replicas rs ?m (replicas @ [describe r]) = Inr (replicas @ map describe (r # rs), metadata')" "map_of metadata' \<subseteq>\<^sub>m F"
    by auto
  then show ?case using old Cons.prems(1,2) unfolding decode_replicas_Cons by auto
qed simp

lemma decode_routes_sound:
  assumes "decode_routes n e allow routes metadata decoded = Inr out"
  shows "out = decoded @ map decode_route routes \<and> (\<forall>r\<in>set routes. route_accepted n e allow r) \<and>
     distinct (map wire_key routes) \<and> wire_key ` set routes \<inter> fst ` set decoded = {} \<and>
     (\<exists>F. map_of metadata \<subseteq>\<^sub>m F \<and> (\<forall>x\<in>set (concat (map (snd \<circ> decode_route) routes)). F (wr_identity x) = Some x))"
  using assms
proof (induction routes arbitrary: metadata decoded)
  case (Cons r routes)
  from Cons.prems obtain replicas metadata' where
    c: "wire_layer_id r < n" "wire_expert_id r < e" "map_of decoded (wire_key r) = None" "replicas = [] \<longrightarrow> allow"
    and d: "decode_replicas (wire_replicas r) metadata [] = Inr (replicas, metadata')"
    and rest: "decode_routes n e allow routes metadata' (AList.update (wire_key r) replicas decoded) = Inr out"
    by (auto split: prod.splits if_splits)
  have s: "replicas = map describe (wire_replicas r)" "\<forall>p\<in>set (wire_replicas r). check_replica p = None" "distinct (map wr_identity replicas)"
    "map_of metadata \<subseteq>\<^sub>m map_of metadata'" "\<forall>p\<in>set (wire_replicas r). map_of metadata' (wr_identity (describe p)) = Some (describe p)"
    using decode_replicas_sound [OF d, unfolded append_Nil list.map distinct.simps(1), OF TrueI] by blast+
  from Cons.IH [OF rest] obtain F where F: "map_of metadata' \<subseteq>\<^sub>m F"
    "\<forall>x\<in>set (concat (map (snd \<circ> decode_route) routes)). F (wr_identity x) = Some x" by blast
  have new: "AList.update (wire_key r) replicas decoded = decoded @ [decode_route r]"
    using c(3) s(1) by (simp add: dict_update_new decode_route_def)
  have "\<forall>x\<in>set (snd (decode_route r)). F (wr_identity x) = Some x"
    using s(5) F(1) by (auto simp: decode_route_def map_le_def dom_def)
  moreover have "map_of metadata \<subseteq>\<^sub>m F" using s(4) F(1) by (rule map_le_trans)
  moreover have "route_accepted n e allow r" using c s(2,3) unfolding s(1) by (auto simp: route_accepted_def)
  moreover have "wire_key r \<notin> fst ` set decoded" using c(3) by (simp add: map_of_eq_None_iff)
  moreover have "fst (decode_route r) = wire_key r" by (simp add: decode_route_def)
  ultimately show ?case using Cons.IH [OF rest] F(2) unfolding new by auto
next
  case Nil
  have "\<exists>F. map_of metadata \<subseteq>\<^sub>m F" using map_le_refl by blast
  with Nil show ?case by simp
qed

lemma decode_routes_complete:
  assumes "\<forall>r\<in>set routes. route_accepted n e allow r" and "distinct (map wire_key routes)"
    and "wire_key ` set routes \<inter> fst ` set decoded = {}" and "map_of metadata \<subseteq>\<^sub>m F"
    and "\<forall>x\<in>set (concat (map (snd \<circ> decode_route) routes)). F (wr_identity x) = Some x"
  shows "decode_routes n e allow routes metadata decoded = Inr (decoded @ map decode_route routes)"
  using assms
proof (induction routes arbitrary: metadata decoded)
  case (Cons r routes)
  have acc: "route_accepted n e allow r" using Cons.prems(1) by simp
  have "\<forall>p\<in>set (wire_replicas r). F (wr_identity (describe p)) = Some (describe p)"
    using Cons.prems(5) by (auto simp: decode_route_def simp del: wr_identity_describe)
  then obtain metadata' where d: "decode_replicas (wire_replicas r) metadata [] = Inr (map describe (wire_replicas r), metadata')"
    and F: "map_of metadata' \<subseteq>\<^sub>m F"
    using decode_replicas_complete [of "wire_replicas r" "[]" metadata F] acc Cons.prems(4) by (auto simp: route_accepted_def)
  have none: "map_of decoded (wire_key r) = None" using Cons.prems(3) by (simp add: map_of_eq_None_iff)
  then have new: "AList.update (wire_key r) (map describe (wire_replicas r)) decoded = decoded @ [decode_route r]"
    by (simp add: dict_update_new decode_route_def)
  have "fst (decode_route r) = wire_key r" by (simp add: decode_route_def)
  then have "decode_routes n e allow routes metadata' (decoded @ [decode_route r]) = Inr ((decoded @ [decode_route r]) @ map decode_route routes)"
    using Cons.prems by (intro Cons.IH [OF _ _ _ F]) auto
  then show ?case using acc none by (simp add: d new) (auto simp: route_accepted_def)
qed simp

lemma consistent_routes_table:
  assumes "consistent_routes rs"
  shows "\<forall>x\<in>set rs. map_of (map (\<lambda>x. (wr_identity x, x)) rs) (wr_identity x) = Some x"
  using assms
proof (induction rs)
  case (Cons y rs)
  then have "\<forall>x\<in>set rs. wr_identity x = wr_identity y \<longrightarrow> x = y" "consistent_routes rs" by (auto simp: consistent_routes_def)
  with Cons.IH show ?case by auto
qed simp

text \<open>Decoding succeeds exactly on acceptable routes, and then keeps them all in order.\<close>

lemma decode_routes_iff:
  "decode_routes n e allow routes [] [] = Inr out \<longleftrightarrow> decodable n e allow routes \<and> out = map decode_route routes"
proof
  assume "decode_routes n e allow routes [] [] = Inr out"
  from decode_routes_sound [OF this] obtain F where
    F: "\<forall>x\<in>set (concat (map (snd \<circ> decode_route) routes)). F (wr_identity x) = Some x"
    and rest: "out = map decode_route routes" "\<forall>r\<in>set routes. route_accepted n e allow r" "distinct (map wire_key routes)"
    unfolding append_Nil by blast
  have "consistent_routes (concat (map (snd \<circ> decode_route) routes))"
    unfolding consistent_routes_def using F by (metis option.inject)
  then show "decodable n e allow routes \<and> out = map decode_route routes" using rest by (simp add: decodable_def)
next
  assume d: "decodable n e allow routes \<and> out = map decode_route routes"
  let ?rs = "concat (map (snd \<circ> decode_route) routes)"
  have "decode_routes n e allow routes [] [] = Inr ([] @ map decode_route routes)"
    by (rule decode_routes_complete [where F = "map_of (map (\<lambda>x. (wr_identity x, x)) ?rs)"])
      (use d consistent_routes_table [of ?rs] in \<open>simp_all add: decodable_def\<close>)
  then show "decode_routes n e allow routes [] [] = Inr out" using d by simp
qed

lemma apply_changes_effect:
  assumes "distinct (map wire_key changes)" and "wire_key ` set changes \<inter> set seen = {}" and "dict_ok descriptions"
  shows "\<exists>d. apply_changes decoded changes seen descriptions = Inr d \<and> dict_ok d \<and>
     (\<forall>k. map_of d k = (if k \<in> wire_key ` set changes
        then (case map_of decoded k of Some rs \<Rightarrow> if rs = [] then None else Some rs | None \<Rightarrow> None) else map_of descriptions k))"
  using assms
proof (induction changes arbitrary: seen descriptions)
  case (Cons c cs)
  define rs where "rs = (case map_of decoded (wire_key c) of Some rs \<Rightarrow> rs | None \<Rightarrow> [])"
  define d where "d = (if rs \<noteq> [] then AList.update (wire_key c) rs descriptions else AList.delete (wire_key c) descriptions)"
  have "wire_key c \<notin> set seen" using Cons.prems(2) by auto
  then have step: "apply_changes decoded (c # cs) seen descriptions = apply_changes decoded cs (wire_key c # seen) d"
    unfolding d_def rs_def by (simp add: Let_def)
  have "distinct (map wire_key cs)" "wire_key ` set cs \<inter> set (wire_key c # seen) = {}" "dict_ok d"
    using Cons.prems by (auto simp: d_def)
  from Cons.IH [OF this] obtain d' where d': "apply_changes decoded cs (wire_key c # seen) d = Inr d'" "dict_ok d'"
    "\<And>k. map_of d' k = (if k \<in> wire_key ` set cs
        then (case map_of decoded k of Some rs \<Rightarrow> if rs = [] then None else Some rs | None \<Rightarrow> None) else map_of d k)" by blast
  have "map_of d (wire_key c) = (case map_of decoded (wire_key c) of Some rs \<Rightarrow> if rs = [] then None else Some rs | None \<Rightarrow> None)"
    "\<And>k. k \<noteq> wire_key c \<Longrightarrow> map_of d k = map_of descriptions k"
    unfolding d_def rs_def by (simp_all split: option.splits)
  then have "map_of d' k = (if k \<in> wire_key ` set (c # cs)
        then (case map_of decoded k of Some rs \<Rightarrow> if rs = [] then None else Some rs | None \<Rightarrow> None) else map_of descriptions k)" for k
    using d'(3) [of k] by (cases "k = wire_key c") auto
  then show ?case unfolding step using d'(1,2) by blast
qed simp

section \<open>Assembling an update\<close>

text \<open>
  The parts of one topology update that continues \<open>installed_version\<close>, as the Controller sends it.
\<close>

definition update_message :: "message_assembler \<Rightarrow> int \<Rightarrow> int \<Rightarrow> topology_part list \<Rightarrow> bool" where
  "update_message a installed_version version ps \<longleftrightarrow>
     installed_version < version \<and> int (length ps) \<le> max_parts a \<and>
     (\<forall>i<length ps. part_instance_id (ps ! i) = ma_instance_id a \<and> part_topology_version (ps ! i) = version \<and>
        part_index (ps ! i) = int i \<and> part_count (ps ! i) = int (length ps) \<and> int (length (part_entries (ps ! i))) \<le> MAX_ROUTES_PER_PART) \<and>
     concat (map part_entries ps) \<noteq> [] \<and>
     decodable (ma_num_layers a) (ma_experts_per_layer a) True (concat (map part_entries ps))"

definition update_holds :: "int \<Rightarrow> topology_part list \<Rightarrow> nat set \<Rightarrow> message_assembler \<Rightarrow> bool" where
  "update_holds installed_version ps D a \<longleftrightarrow>
     (let version = part_topology_version (ps ! 0)
      in update_message a installed_version version ps \<and>
         (if D = {} then ma_pending a = None
          else \<exists>d. received (map part_entries ps) D d \<and> ma_pending a = Some
            \<lparr>mm_kind = Kind_Update, mm_version = version, mm_previous_version = Some installed_version,
             mm_part_count = int (length ps), mm_parts = d\<rparr>))"

definition updated_routes :: "route_descriptions \<Rightarrow> wire_route list \<Rightarrow> route_descriptions" where
  "updated_routes installed_routes changes =
     (case apply_changes (map decode_route changes) changes [] installed_routes of Inr d \<Rightarrow> d | Inl _ \<Rightarrow> [])"

lemma updated_routes_effect:
  assumes "distinct (map wire_key changes)" and "dict_ok installed_routes"
  shows "apply_changes (map decode_route changes) changes [] installed_routes = Inr (updated_routes installed_routes changes)"
    and "dict_ok (updated_routes installed_routes changes)"
    and "c \<in> set changes \<Longrightarrow> map_of (updated_routes installed_routes changes) (wire_key c) =
        (if wire_replicas c = [] then None else Some (map describe (wire_replicas c)))"
    and "k \<notin> wire_key ` set changes \<Longrightarrow> map_of (updated_routes installed_routes changes) k = map_of installed_routes k"
proof -
  obtain d where d: "apply_changes (map decode_route changes) changes [] installed_routes = Inr d" "dict_ok d"
    "\<And>k. map_of d k = (if k \<in> wire_key ` set changes
        then (case map_of (map decode_route changes) k of Some rs \<Rightarrow> if rs = [] then None else Some rs | None \<Rightarrow> None) else map_of installed_routes k)"
    using apply_changes_effect [OF assms(1) _ assms(2), of "[]" "map decode_route changes"] by auto
  have u: "updated_routes installed_routes changes = d" by (simp add: updated_routes_def d(1))
  show "apply_changes (map decode_route changes) changes [] installed_routes = Inr (updated_routes installed_routes changes)"
    "dict_ok (updated_routes installed_routes changes)" unfolding u by (rule d)+
  show "map_of (updated_routes installed_routes changes) k = map_of installed_routes k" if "k \<notin> wire_key ` set changes"
    unfolding u using d(3) that by simp
  have "map fst (map decode_route changes) = map wire_key changes" by (simp add: decode_route_def)
  then have "map_of (map decode_route changes) (wire_key c) = Some (map describe (wire_replicas c))" if "c \<in> set changes"
    using assms(1) that by (metis decode_route_def image_eqI list.set_map map_of_is_SomeI)
  then show "map_of (updated_routes installed_routes changes) (wire_key c) =
      (if wire_replicas c = [] then None else Some (map describe (wire_replicas c)))" if "c \<in> set changes"
    unfolding u using d(3) that by simp
qed

lemma complete_update_message:
  assumes "update_message a installed_version version ps" and "dict_ok installed_routes"
  shows "complete_update a (Some installed_version) version (concat (map part_entries ps)) installed_version installed_routes =
    Inr (version, updated_routes installed_routes (concat (map part_entries ps)))"
proof -
  let ?cs = "concat (map part_entries ps)"
  have m: "installed_version < version" "?cs \<noteq> []" "decodable (ma_num_layers a) (ma_experts_per_layer a) True ?cs"
    using assms(1) unfolding update_message_def by blast+
  have "distinct (map wire_key ?cs)" using m(3) by (simp add: decodable_def)
  moreover have "decode_routes (ma_num_layers a) (ma_experts_per_layer a) True ?cs [] [] = Inr (map decode_route ?cs)"
    using m(3) decode_routes_iff by blast
  ultimately show ?thesis using m(1,2) updated_routes_effect(1) [OF _ assms(2)]
    unfolding complete_update_def after_def by (simp add: raise_first.simps)
qed

abbreviation consume_update :: "int \<Rightarrow> route_descriptions \<Rightarrow> topology_part \<Rightarrow> message_assembler \<Rightarrow> (exn + (int \<times> route_descriptions) option) \<times> message_assembler" where
  "consume_update installed_version installed_routes part \<equiv> consume (Update_Message installed_version part) installed_version installed_routes"

lemma consume_update_holds:
  assumes holds: "update_holds iv ps D a" and i: "i < length ps" "i \<notin> D" and ok: "dict_ok ir"
  defines "version \<equiv> part_topology_version (ps ! 0)"
  shows "\<exists>a'. consume_update iv ir (ps ! i) a =
       (Inr (if insert i D = {..<length ps} then Some (version, updated_routes ir (concat (map part_entries ps))) else None), a') \<and>
     (if insert i D = {..<length ps} then ma_pending a' = None else update_holds iv ps (insert i D) a')"
proof -
  have msg: "update_message a iv version ps" using holds by (simp add: update_holds_def Let_def version_def)
  then have part: "part_instance_id (ps ! i) = ma_instance_id a" "part_topology_version (ps ! i) = version" "part_index (ps ! i) = int i"
    "part_count (ps ! i) = int (length ps)" "int (length (part_entries (ps ! i))) \<le> MAX_ROUTES_PER_PART" "int (length ps) \<le> max_parts a"
    using i(1) unfolding update_message_def by blast+
  then have check: "check_part (ps ! i) a = None" using i(1) by (auto simp: check_part_def)
  define d where "d = (if D = {} then [] else mm_parts (the (ma_pending a)))"
  define mm where "mm = \<lparr>mm_kind = Kind_Update, mm_version = version, mm_previous_version = Some iv, mm_part_count = int (length ps), mm_parts = d\<rparr>"
  have rec: "received (map part_entries ps) D d" and pending: "ma_pending a = None \<and> d = [] \<or> ma_pending a = Some mm"
    using holds received_empty [of "map part_entries ps"]
    by (auto simp: update_holds_def Let_def d_def mm_def version_def split: if_splits)
  have free: "map_of d (int i) = None" using received_get [OF rec] i(2) by simp
  let ?d = "AList.update (int i) (part_entries (ps ! i)) d"
  have rec': "received (map part_entries ps) (insert i D) ?d" using received_add [OF rec, of i] i(1) by simp
  note count = received_complete [OF rec', unfolded length_map]
  have eq: "consume_update iv ir (ps ! i) a =
    (if length ?d \<noteq> length ps then (Inr None, a\<lparr>ma_pending := Some (mm\<lparr>mm_parts := ?d\<rparr>)\<rparr>)
     else (rbind (ordered_parts (int (length ps)) ?d) (\<lambda>ordered.
             rbind (complete_update a (Some iv) version (concat ordered) iv ir) (\<lambda>c. Inr (Some c))), a\<lparr>ma_pending := None\<rparr>))"
    using pending
  proof
    assume "ma_pending a = None \<and> d = []"
    then show ?thesis using part(1-4) check by (simp add: consume_def consume_part_def mm_def)
  next
    assume "ma_pending a = Some mm"
    then show ?thesis using part(1-4) check free by (simp add: consume_def consume_part_def mm_def)
  qed
  show ?thesis
  proof (cases "insert i D = {..<length ps}")
    case True
    then have "ordered_parts (int (length ps)) ?d = Inr (map part_entries ps)"
      using ordered_parts_complete [of "map part_entries ps" ?d] rec' by simp
    then show ?thesis using True count complete_update_message [OF msg ok] eq by simp
  next
    case False
    have "update_holds iv ps (insert i D) (a\<lparr>ma_pending := Some (mm\<lparr>mm_parts := ?d\<rparr>)\<rparr>)"
      using msg rec' by (auto simp: update_holds_def Let_def update_message_def max_parts_def version_def mm_def)
    then show ?thesis using False count eq by simp
  qed
qed

interpretation updates: part_assembler "consume_update iv ir" "\<lambda>ps D a. dict_ok ir \<and> update_holds iv ps D a" "\<lambda>i D. i \<notin> D"
    "\<lambda>ps a. (part_topology_version (ps ! 0), updated_routes ir (concat (map part_entries ps)))" "\<lambda>ps a. ma_pending a = None"
  for iv ir
proof
  fix ps D a i
  assume "dict_ok ir \<and> update_holds iv ps D a" and "i < length ps" and "i \<notin> D"
  then obtain a' where a': "consume_update iv ir (ps ! i) a =
       (Inr (if insert i D = {..<length ps} then Some (part_topology_version (ps ! 0), updated_routes ir (concat (map part_entries ps))) else None), a')"
     "if insert i D = {..<length ps} then ma_pending a' = None else update_holds iv ps (insert i D) a'" and ok: "dict_ok ir"
    using consume_update_holds by blast
  show "\<exists>s'. consume_update iv ir (ps ! i) a = (Inr None, s') \<and> (dict_ok ir \<and> update_holds iv ps (insert i D) s') \<and>
     (part_topology_version (ps ! 0), updated_routes ir (concat (map part_entries ps))) =
     (part_topology_version (ps ! 0), updated_routes ir (concat (map part_entries ps)))" if "insert i D \<noteq> {..<length ps}"
    using a' ok that by simp
  show "\<exists>s'. consume_update iv ir (ps ! i) a =
      (Inr (Some (part_topology_version (ps ! 0), updated_routes ir (concat (map part_entries ps)))), s') \<and> ma_pending s' = None"
    if "insert i D = {..<length ps}"
    using a' that by simp
qed

text \<open>
  C29. A topology update is assembled from its parts in any order and applied exactly. Its parts, each
  delivered once while the version it continues is installed, give nothing until the last one and then
  the new version with the new routes: every changed expert has the replicas the update names, or no
  route when it names none, every other expert keeps its route, and the assembler is free again.
\<close>

theorem topology_update_assembly:
  assumes "update_message a installed_version version ps" and "ma_pending a = None" and "dict_ok installed_routes"
    and "distinct order" and "set order = {..<length ps}"
  shows "\<exists>a' routes. deliver (consume_update installed_version installed_routes) ps order a =
       (replicate (length ps - 1) (Inr None) @ [Inr (Some (version, routes))], a') \<and>
     ma_pending a' = None \<and> dict_ok routes \<and>
     (\<forall>c\<in>set (concat (map part_entries ps)). map_of routes (wire_key c) =
        (if wire_replicas c = [] then None else Some (map describe (wire_replicas c)))) \<and>
     (\<forall>k. k \<notin> wire_key ` set (concat (map part_entries ps)) \<longrightarrow> map_of routes k = map_of installed_routes k)"
proof -
  let ?cs = "concat (map part_entries ps)"
  have ne: "ps \<noteq> []" and "distinct (map wire_key ?cs)" using assms(1) by (auto simp: update_message_def decodable_def)
  note routes = updated_routes_effect [OF this(2) assms(3)]
  have len: "length order = length ps" using assms(4,5) by (metis card_lessThan distinct_card)
  with ne obtain xs i where order: "order = xs @ [i]" by (metis length_0_conv rev_exhaust)
  have accept: "updates.acceptable ys D \<longleftrightarrow> distinct ys \<and> set ys \<inter> D = {}" for ys D by (induction ys arbitrary: D) auto
  have v: "part_topology_version (ps ! 0) = version" using assms(1) ne by (auto simp: update_message_def)
  have "\<exists>a'. deliver (consume_update installed_version installed_routes) ps (xs @ [i]) a = (replicate (length xs) (Inr None) @
       [Inr (Some (part_topology_version (ps ! 0), updated_routes installed_routes ?cs))], a') \<and> ma_pending a' = None"
    by (rule updates.any_order) (use assms order in \<open>auto simp: accept update_holds_def Let_def v\<close>)
  moreover have "length xs = length ps - 1" using len order by simp
  ultimately show ?thesis using routes order v by (metis (lifting))
qed
definition ex_replica :: "string \<Rightarrow> wire_replica" where
  "ex_replica name = \<lparr>rep_worker_id = name, rep_start_id = ''s1'', rep_computation_endpoint = ''host:1'', rep_device = ''cuda'',
     rep_max_active_batches = 2, rep_max_pending_batches = 4, rep_max_batch_tokens = 16, rep_transport_type = WORKER_TRANSPORT_GRPC\<rparr>"

definition ex_update_parts :: "topology_part list" where
  "ex_update_parts =
     [\<lparr>part_instance_id = 5, part_topology_version = 9, part_index = 0, part_count = 2,
        part_entries = [\<lparr>wire_layer_id = 0, wire_expert_id = 1, wire_replicas = []\<rparr>]\<rparr>,
      \<lparr>part_instance_id = 5, part_topology_version = 9, part_index = 1, part_count = 2,
        part_entries = [\<lparr>wire_layer_id = 0, wire_expert_id = 0, wire_replicas = [ex_replica ''w2'', ex_replica ''w1'']\<rparr>]\<rparr>]"

definition ex_installed :: route_descriptions where
  "ex_installed = [((0, 0), [describe (ex_replica ''w1'')]), ((0, 1), [describe (ex_replica ''w1'')]), ((1, 0), [describe (ex_replica ''w3'')])]"

theorem topology_update_assembly_witness:
  "\<exists>a' routes. deliver (consume_update 8 ex_installed) ex_update_parts [1, 0] (TopologyMessageAssembler 5 2 64) =
       ([Inr None, Inr (Some (9, routes))], a') \<and> ma_pending a' = None \<and>
     map_of routes (0, 0) = Some [describe (ex_replica ''w2''), describe (ex_replica ''w1'')] \<and> map_of routes (0, 1) = None \<and>
     map_of routes (1, 0) = Some [describe (ex_replica ''w3'')]"
proof -
  let ?a = "TopologyMessageAssembler 5 2 64" and ?cs = "concat (map part_entries ex_update_parts)"
  have m: "update_message ?a 8 9 ex_update_parts" by code_simp
  have cs: "?cs = [\<lparr>wire_layer_id = 0, wire_expert_id = 1, wire_replicas = []\<rparr>,
      \<lparr>wire_layer_id = 0, wire_expert_id = 0, wire_replicas = [ex_replica ''w2'', ex_replica ''w1'']\<rparr>]" and len: "length ex_update_parts = 2"
    by (simp_all add: ex_update_parts_def)
  have "ma_pending ?a = None" "dict_ok ex_installed" "distinct [1, 0::nat]" "set [1, 0] = {..<length ex_update_parts}"
    by (simp_all add: TopologyMessageAssembler_def dict_ok_def ex_installed_def len numeral_2_eq_2 lessThan_Suc)
  from topology_update_assembly [OF m this] obtain a' routes where
    r: "deliver (consume_update 8 ex_installed) ex_update_parts [1, 0] ?a =
       (replicate (length ex_update_parts - 1) (Inr None) @ [Inr (Some (9, routes))], a')" "ma_pending a' = None"
    "\<forall>c\<in>set ?cs. map_of routes (wire_key c) = (if wire_replicas c = [] then None else Some (map describe (wire_replicas c)))"
    "\<forall>k. k \<notin> wire_key ` set ?cs \<longrightarrow> map_of routes k = map_of ex_installed k" by blast
  have "map_of routes (0, 0) = Some [describe (ex_replica ''w2''), describe (ex_replica ''w1'')]" "map_of routes (0, 1) = None"
    using r(3) unfolding cs by (simp_all add: wire_key_def)
  moreover have "map_of routes (1, 0) = Some [describe (ex_replica ''w3'')]"
    using r(4) [rule_format, of "(1, 0)"] unfolding cs by (simp add: wire_key_def ex_installed_def)
  ultimately show ?thesis using r(1,2) by (auto simp: len)
qed
section \<open>What a completed message promises\<close>

text \<open>
  Wire ranges of the route keys come from the types of the protobuf fields; everything else in
  \<open>descriptions_ok\<close> is established by decoding.
\<close>

definition route_positive :: "worker_route \<Rightarrow> bool" where
  "route_positive r \<longleftrightarrow> 0 < wr_max_batch_tokens r \<and> 0 < wr_max_active_batches r \<and> 0 < wr_max_pending_batches r"

definition key_in_range :: "route_key \<Rightarrow> bool" where
  "key_in_range k \<longleftrightarrow> 0 \<le> fst k \<and> fst k \<le> uint32_max \<and> 0 \<le> snd k \<and> snd k \<le> uint32_max"

definition replicas_ok :: "worker_route list \<Rightarrow> bool" where
  "replicas_ok rs \<longleftrightarrow> rs \<noteq> [] \<and> distinct (map wr_identity rs) \<and> (\<forall>r\<in>set rs. route_positive r)"

definition descriptions_ok :: "route_descriptions \<Rightarrow> bool" where
  "descriptions_ok d \<longleftrightarrow> dict_ok d \<and> (\<forall>k rs. map_of d k = Some rs \<longrightarrow> key_in_range k \<and> replicas_ok rs)"

definition entries_in_range :: "wire_route list \<Rightarrow> bool" where
  "entries_in_range rs \<longleftrightarrow> (\<forall>r\<in>set rs. key_in_range (wire_key r))"

definition pending_in_range :: "message_assembler \<Rightarrow> bool" where
  "pending_in_range a \<longleftrightarrow> (case ma_pending a of None \<Rightarrow> True | Some m \<Rightarrow> \<forall>i rs. map_of (mm_parts m) i = Some rs \<longrightarrow> entries_in_range rs)"

lemma check_replica_positive: "check_replica r = None \<Longrightarrow> route_positive (describe r)"
  by (simp add: check_replica_def validate_positive_def route_positive_def describe_def)

lemma accepted_replicas_ok:
  "route_accepted n e allow r \<Longrightarrow> wire_replicas r \<noteq> [] \<Longrightarrow> replicas_ok (map describe (wire_replicas r))"
  by (auto simp: route_accepted_def replicas_ok_def intro: check_replica_positive)

lemma complete_snapshot_ok:
  assumes "complete_snapshot a version routes iv ir = Inr (v, d)" and "entries_in_range routes"
  shows "v = version \<and> iv \<le> v \<and> descriptions_ok d"
proof -
  from assms(1) have dec: "decode_routes (ma_num_layers a) (ma_experts_per_layer a) False routes [] [] = Inr d" and v: "v = version" "iv \<le> v"
    by (auto simp: complete_snapshot_def)
  then have d: "decodable (ma_num_layers a) (ma_experts_per_layer a) False routes" "d = map decode_route routes"
    using decode_routes_iff by blast+
  have "dict_ok d" using d by (simp add: dict_ok_def decodable_def decode_route_def comp_def)
  moreover have "key_in_range k \<and> replicas_ok rs" if "map_of d k = Some rs" for k rs
  proof -
    from map_of_SomeD [OF that] d(2) obtain r where r: "r \<in> set routes" "k = wire_key r" "rs = map describe (wire_replicas r)"
      by (auto simp: decode_route_def)
    then have acc: "route_accepted (ma_num_layers a) (ma_experts_per_layer a) False r" using d(1) by (simp add: decodable_def)
    then have "wire_replicas r \<noteq> []" by (auto simp: route_accepted_def)
    then show ?thesis using accepted_replicas_ok [OF acc] r assms(2) by (simp add: entries_in_range_def)
  qed
  ultimately show ?thesis using v by (simp add: descriptions_ok_def)
qed

lemma complete_update_ok:
  assumes "complete_update a previous version changes iv ir = Inr (v, d)" and "entries_in_range changes" and "descriptions_ok ir"
  shows "v = version \<and> iv < v \<and> descriptions_ok d"
proof -
  from assms(1) obtain decoded where dec: "decode_routes (ma_num_layers a) (ma_experts_per_layer a) True changes [] [] = Inr decoded"
    and ap: "apply_changes decoded changes [] ir = Inr d" and v: "v = version" "iv < v"
    by (auto simp: complete_update_def)
  then have dd: "decodable (ma_num_layers a) (ma_experts_per_layer a) True changes" "decoded = map decode_route changes"
    using decode_routes_iff by blast+
  have dist: "distinct (map wire_key changes)" using dd(1) by (simp add: decodable_def)
  have ok: "dict_ok ir" using assms(3) by (simp add: descriptions_ok_def)
  note eff = updated_routes_effect [OF dist ok]
  have d: "d = updated_routes ir changes" using ap eff(1) dd(2) by simp
  have "key_in_range k \<and> replicas_ok rs" if "map_of d k = Some rs" for k rs
  proof (cases "k \<in> wire_key ` set changes")
    case True
    then obtain c where c: "c \<in> set changes" "k = wire_key c" by blast
    then have "wire_replicas c \<noteq> []" "rs = map describe (wire_replicas c)" using eff(3) [of c] that d by (auto split: if_splits)
    moreover have "route_accepted (ma_num_layers a) (ma_experts_per_layer a) True c" using c(1) dd(1) by (simp add: decodable_def)
    ultimately show ?thesis using accepted_replicas_ok c assms(2) by (simp add: entries_in_range_def)
  next
    case False
    then show ?thesis using eff(4) [of k] that d assms(3) by (simp add: descriptions_ok_def del: split_paired_All)
  qed
  then show ?thesis using v d eff(2) by (simp add: descriptions_ok_def)
qed

lemma ordered_parts_range:
  assumes "ordered_parts n d = Inr ordered" and "\<And>i rs. map_of d i = Some rs \<Longrightarrow> entries_in_range rs"
  shows "entries_in_range (concat ordered)"
proof -
  have "entries_in_range (ordered ! i)" if "i < length ordered" for i
    using assms that unfolding ordered_parts_def rmap_eq_Inr_iff by (auto split: option.splits)
  then have "\<forall>rs\<in>set ordered. entries_in_range rs" by (metis in_set_conv_nth)
  then show ?thesis by (auto simp: entries_in_range_def)
qed

lemma consume_part_ok:
  assumes run: "consume_part kind previous part iv ir a = (r, a')"
    and "pending_in_range a" and "entries_in_range (part_entries part)" and "descriptions_ok ir"
  shows "pending_in_range a' \<and> (\<forall>v d. r = Inr (Some (v, d)) \<longrightarrow> v = part_topology_version part \<and> iv \<le> v \<and> descriptions_ok d)"
proof (cases "check_part part a")
  case None
  define m where "m = (case ma_pending a of Some p \<Rightarrow> p
    | None \<Rightarrow> \<lparr>mm_kind = kind, mm_version = part_topology_version part, mm_previous_version = previous, mm_part_count = part_count part, mm_parts = []\<rparr>)"
  define d where "d = AList.update (part_index part) (part_entries part) (mm_parts m)"
  have m: "entries_in_range rs" if "map_of (mm_parts m) i = Some rs" for i rs
    using that assms(2) by (auto simp: m_def pending_in_range_def split: option.splits)
  then have d: "entries_in_range rs" if "map_of d i = Some rs" for i rs
    using that assms(3) by (auto simp: d_def split: if_splits)
  have pend: "pending_in_range (a\<lparr>ma_pending := Some m\<rparr>)" "pending_in_range (a\<lparr>ma_pending := Some (m\<lparr>mm_parts := d\<rparr>)\<rparr>)"
    "pending_in_range (a\<lparr>ma_pending := None\<rparr>)"
    using m d by (auto simp: pending_in_range_def)
  have dd: "mm_parts (m\<lparr>mm_parts := d\<rparr>) = d" by simp
  have run': "(if (mm_kind m, mm_version m, mm_previous_version m, mm_part_count m) \<noteq> (kind, part_topology_version part, previous, part_count part)
      then (Inl (TopologyProtocolError ''topology multipart messages were interleaved''), a\<lparr>ma_pending := Some m\<rparr>)
      else if map_of (mm_parts m) (part_index part) \<noteq> None
      then (Inl (TopologyProtocolError ''topology part index was repeated''), a\<lparr>ma_pending := Some m\<rparr>)
      else if int (length d) \<noteq> part_count part then (Inr None, a\<lparr>ma_pending := Some (m\<lparr>mm_parts := d\<rparr>)\<rparr>)
      else (rbind (ordered_parts (part_count part) d) (\<lambda>ordered.
              rbind (case kind of
                  Kind_Snapshot \<Rightarrow> complete_snapshot a (part_topology_version part) (concat ordered) iv ir
                | Kind_Update \<Rightarrow> complete_update a previous (part_topology_version part) (concat ordered) iv ir)
                (\<lambda>completed. Inr (Some completed))), a\<lparr>ma_pending := None\<rparr>)) = (r, a')"
    using run unfolding consume_part_def None option.case Let_def m_def [symmetric] d_def [symmetric] dd .
  have complete: "v = part_topology_version part \<and> iv \<le> v \<and> descriptions_ok e"
    if "rbind (ordered_parts (part_count part) d) (\<lambda>ordered. rbind (case kind of
           Kind_Snapshot \<Rightarrow> complete_snapshot a (part_topology_version part) (concat ordered) iv ir
         | Kind_Update \<Rightarrow> complete_update a previous (part_topology_version part) (concat ordered) iv ir)
         (\<lambda>completed. Inr (Some completed))) = Inr (Some (v, e))" for v e
  proof -
    from that obtain ordered where o': "ordered_parts (part_count part) d = Inr ordered"
      and c: "(case kind of Kind_Snapshot \<Rightarrow> complete_snapshot a (part_topology_version part) (concat ordered) iv ir
         | Kind_Update \<Rightarrow> complete_update a previous (part_topology_version part) (concat ordered) iv ir) = Inr (v, e)"
      by auto
    have range: "entries_in_range (concat ordered)" using ordered_parts_range [OF o'] d by blast
    show ?thesis
      using c complete_snapshot_ok [OF _ range, of a] complete_update_ok [OF _ range assms(4), of a] by (cases kind) fastforce+
  qed
  show ?thesis using run' pend complete by (auto split: if_splits)
qed (use run assms(2) in \<open>auto simp: consume_part_def\<close>)

end
