(* ===== verification/Topology_Watcher.thy ===== *)
theory Topology_Watcher
  imports Topology_Messages Output_Pool
begin

text \<open>
  \<open>ek-transport/src/expertkit_transport/controller/topology.py\<close>: the Frontend's watcher of the topology
  stream, which owns one connection and one output pool per routed Worker process. The event loop runs
  one stretch of code at a time: handling one message, one retirement, one step of closing are the
  operations below. Nothing but the watch task itself and the end of \<open>close\<close> changes the connections, so
  that waiting inside the installation for new connections is part of that operation. What \<open>grpc\<close> and
  the Transport constructors do is the argument \<open>creation\<close> of an installation. Every constructed
  Transport has a number, which also names its pool and its resource object; the record \<open>world\<close> holds
  the Transports and pools that were constructed and on which \<open>close\<close> has not been called.
\<close>

record world =
  w_next :: nat
  w_open_transports :: "nat list"
  w_open_pools :: "nat list"

record worker_resources =
  res_id :: nat
  res_route :: worker_route
  res_target :: worker_connection
  res_pool :: nat

record creation =
  cr_transport :: "exn option"
  cr_pool :: "exn option"
  cr_start :: "exn option"

record watcher =
  tw_instance_id :: int
  tw_hidden_dim :: int
  tw_dtype :: dtype
  tw_device :: string
  tw_accelerator :: bool
  tw_snapshot :: topology_snapshot
  tw_route_descriptions :: route_descriptions
  tw_resources :: "(worker_identity, worker_resources) dict"
  tw_pools :: "(worker_identity, nat) dict"
  tw_messages :: message_assembler
  tw_watching :: bool
  tw_started :: bool
  tw_cleanup_tasks :: "worker_resources list"
  tw_first_install :: bool
  tw_failure :: "exn option"
  tw_closing :: bool
  tw_closed :: bool
  tw_world :: world

definition positive_args :: "(string \<times> int) list \<Rightarrow> (bool \<times> exn) list" where
  "positive_args args = map (\<lambda>(name, value). (value \<le> 0, ValueError (name @ '' must be a positive integer''))) args"

definition ControllerTopologyWatcher ::
  "string \<Rightarrow> int \<Rightarrow> int \<Rightarrow> int \<Rightarrow> int \<Rightarrow> int \<Rightarrow> dtype \<Rightarrow> string \<Rightarrow> bool \<Rightarrow> int \<Rightarrow> exn + watcher" where
  "ControllerTopologyWatcher controller_endpoint instance_id num_layers experts_per_layer hidden_dim top_k dt device accelerator reconnect_delay =
     after (raise_first
       ([(controller_endpoint = [], ValueError ''controller_endpoint must not be empty'')] @
        positive_args [(''instance_id'', instance_id), (''num_layers'', num_layers), (''experts_per_layer'', experts_per_layer),
          (''hidden_dim'', hidden_dim), (''top_k'', top_k)] @
        [(top_k > experts_per_layer, ValueError ''top_k must not exceed experts_per_layer''),
         (dt \<notin> {Float16, BFloat16, Float32}, ValueError ''dtype must be FP16, BF16, or FP32''),
         (reconnect_delay \<le> 0, ValueError ''reconnect_delay_seconds must be finite and positive'')]))
      (rbind (make_topology_snapshot instance_id 0 []) (\<lambda>snapshot.
         Inr \<lparr>tw_instance_id = instance_id, tw_hidden_dim = hidden_dim, tw_dtype = dt, tw_device = device, tw_accelerator = accelerator,
              tw_snapshot = snapshot, tw_route_descriptions = [], tw_resources = [], tw_pools = [],
              tw_messages = TopologyMessageAssembler instance_id num_layers experts_per_layer,
              tw_watching = False, tw_started = False, tw_cleanup_tasks = [], tw_first_install = False, tw_failure = None,
              tw_closing = False, tw_closed = False,
              tw_world = \<lparr>w_next = 0, w_open_transports = [], w_open_pools = []\<rparr>\<rparr>))"

section \<open>Connections\<close>

definition close_transport :: "nat \<Rightarrow> world \<Rightarrow> world" where
  "close_transport n w = w\<lparr>w_open_transports := removeAll n (w_open_transports w)\<rparr>"

definition close_pool :: "nat \<Rightarrow> world \<Rightarrow> world" where
  "close_pool n w = w\<lparr>w_open_pools := removeAll n (w_open_pools w)\<rparr>"

text \<open>\<open>_close_worker_resources\<close>: the pool is closed whether or not closing the Transport raises.\<close>

definition close_worker_resources :: "worker_resources \<Rightarrow> world \<Rightarrow> world" where
  "close_worker_resources r w = close_pool (res_pool r) (close_transport (wc_transport (res_target r)) w)"

definition create_worker_resources :: "watcher \<Rightarrow> creation \<Rightarrow> worker_route \<Rightarrow> world \<Rightarrow> (exn + worker_resources) \<times> world" where
  "create_worker_resources tw c route w =
     (case cr_transport c of
        Some e \<Rightarrow> (Inl e, w)
      | None \<Rightarrow>
        let n = w_next w;
            w1 = w\<lparr>w_next := n + 1, w_open_transports := n # w_open_transports w\<rparr>
        in (case rbind (OutputPool (wr_max_batch_tokens route) (tw_hidden_dim tw) (tw_dtype tw) (tw_device tw) (tw_accelerator tw) (wr_max_in_flight route))
                   (\<lambda>pool. after (cr_pool c) (Inr pool)) of
              Inl e \<Rightarrow> (Inl e, close_transport n w1)
            | Inr _ \<Rightarrow>
              let w2 = w1\<lparr>w_open_pools := n # w_open_pools w1\<rparr>
              in (case cr_start c of
                    Some e \<Rightarrow> (Inl e, close_transport n (close_pool n w2))
                  | None \<Rightarrow>
                    let target = \<lparr>wc_identity = wr_identity route, wc_transport = n, wc_max_batch_tokens = wr_max_batch_tokens route,
                                  wc_max_active_batches = wr_max_active_batches route, wc_max_pending_batches = wr_max_pending_batches route\<rparr>
                    in (case worker_connection_post_init target of
                          Some e \<Rightarrow> (Inl e, w2)
                        | None \<Rightarrow> (Inr \<lparr>res_id = n, res_route = route, res_target = target, res_pool = n\<rparr>, w2)))))"

section \<open>Installing a topology\<close>

text \<open>The Worker processes the new routes need.\<close>

fun require_routes :: "worker_route list \<Rightarrow> (worker_identity, worker_route) dict \<Rightarrow> exn + (worker_identity, worker_route) dict" where
  "require_routes [] required = Inr required"
| "require_routes (route # routes) required =
     (let required' = dict_setdefault (wr_identity route) route required
      in if map_of required' (wr_identity route) \<noteq> Some route
         then Inl (TopologyProtocolError ''one Worker process has inconsistent topology metadata'')
         else require_routes routes required')"

text \<open>The loop that creates missing connections: the exception that ended it, and the connections it created.\<close>

fun create_missing ::
  "watcher \<Rightarrow> (worker_identity \<Rightarrow> creation) \<Rightarrow> (worker_identity \<times> worker_route) list \<Rightarrow> (worker_identity, worker_resources) dict \<Rightarrow> world \<Rightarrow>
   exn option \<times> (worker_identity, worker_resources) dict \<times> world" where
  "create_missing tw env [] created w = (None, created, w)"
| "create_missing tw env ((identity, route) # required) created w =
     (if (case map_of (tw_resources tw) identity of Some current \<Rightarrow> res_route current = route | None \<Rightarrow> False)
      then create_missing tw env required created w
      else (case create_worker_resources tw (env identity) route w of
              (Inl e, w') \<Rightarrow> (Some e, created, w')
            | (Inr r, w') \<Rightarrow> create_missing tw env required (AList.update identity r created) w'))"

definition dict_item :: "('k, 'v) dict \<Rightarrow> 'k \<Rightarrow> exn + 'v" where
  "dict_item d k = (case map_of d k of Some v \<Rightarrow> Inr v | None \<Rightarrow> Inl KeyError)"

definition select_resources ::
  "(worker_identity, worker_route) dict \<Rightarrow> (worker_identity, worker_resources) dict \<Rightarrow> (worker_identity, worker_resources) dict \<Rightarrow>
   exn + (worker_identity, worker_resources) dict" where
  "select_resources required created old =
     rmap (\<lambda>(identity, _). rbind (case map_of created identity of Some r \<Rightarrow> Inr r | None \<Rightarrow> dict_item old identity) (\<lambda>r. Inr (identity, r))) required"

definition route_targets :: "(worker_identity, worker_resources) dict \<Rightarrow> route_descriptions \<Rightarrow> exn + route_table" where
  "route_targets resources descriptions =
     rmap (\<lambda>(key, replicas). rbind (rmap (\<lambda>route. rbind (dict_item resources (wr_identity route)) (\<lambda>r. Inr (res_target r))) replicas)
       (\<lambda>targets. Inr (key, targets))) descriptions"

definition retired_resources ::
  "(worker_identity, worker_resources) dict \<Rightarrow> (worker_identity, worker_resources) dict \<Rightarrow> worker_resources list" where
  "retired_resources old new =
     map snd (filter (\<lambda>(identity, r). (case map_of new identity of Some r' \<Rightarrow> res_id r' \<noteq> res_id r | None \<Rightarrow> True)) old)"

definition install_pools :: "(worker_identity, worker_resources) dict \<Rightarrow> (worker_identity, nat) dict \<Rightarrow> (worker_identity, nat) dict" where
  "install_pools new pools = fold (\<lambda>(identity, r). AList.update identity (res_pool r)) new pools"

definition install :: "(worker_identity \<Rightarrow> creation) \<Rightarrow> int \<Rightarrow> route_descriptions \<Rightarrow> watcher \<Rightarrow> exn option \<times> watcher" where
  "install env version descriptions tw =
     (case require_routes (concat (map snd descriptions)) [] of
        Inl e \<Rightarrow> (Some e, tw)
      | Inr required \<Rightarrow>
        (case create_missing tw env required [] (tw_world tw) of
           (Some e, created, w) \<Rightarrow> (Some e, tw\<lparr>tw_world := fold close_worker_resources (map snd created) w\<rparr>)
         | (None, created, w) \<Rightarrow>
           (case rbind (select_resources required created (tw_resources tw)) (\<lambda>new.
                   rbind (route_targets new descriptions) (\<lambda>targets.
                     rbind (make_topology_snapshot (tw_instance_id tw) version targets) (\<lambda>snapshot. Inr (new, snapshot)))) of
              Inl e \<Rightarrow> (Some e, tw\<lparr>tw_world := w\<rparr>)
            | Inr (new, snapshot) \<Rightarrow>
              (None, tw\<lparr>tw_world := w, tw_resources := new, tw_pools := install_pools new (tw_pools tw),
                        tw_route_descriptions := descriptions, tw_snapshot := snapshot, tw_first_install := True,
                        tw_cleanup_tasks := tw_cleanup_tasks tw @ retired_resources (tw_resources tw) new\<rparr>))))"

definition consume_message :: "(worker_identity \<Rightarrow> creation) \<Rightarrow> topology_message \<Rightarrow> watcher \<Rightarrow> exn option \<times> watcher" where
  "consume_message env message tw =
     (case consume message (ts_version (tw_snapshot tw)) (tw_route_descriptions tw) (tw_messages tw) of
        (Inl e, messages) \<Rightarrow> (Some e, tw\<lparr>tw_messages := messages\<rparr>)
      | (Inr None, messages) \<Rightarrow> (None, tw\<lparr>tw_messages := messages\<rparr>)
      | (Inr (Some (version, descriptions)), messages) \<Rightarrow> install env version descriptions (tw\<lparr>tw_messages := messages\<rparr>))"
section \<open>The watch task\<close>

text \<open>A stream that closes or breaks loses the incomplete message.\<close>

definition watch_stream_ended :: "watcher \<Rightarrow> watcher" where
  "watch_stream_ended tw =
     (if tw_closing tw then tw\<lparr>tw_watching := False\<rparr> else tw\<lparr>tw_messages := discard_incomplete (tw_messages tw)\<rparr>)"

text \<open>
  One message of the stream: an exception ends the task and becomes the failure of the watcher, except
  that a cancellation only ends it and an error of a call, also of one made to create a connection,
  counts as a broken stream.
\<close>

definition watch_message :: "(worker_identity \<Rightarrow> creation) \<Rightarrow> topology_message \<Rightarrow> watcher \<Rightarrow> watcher" where
  "watch_message env message tw =
     (case consume_message env message tw of
        (None, tw') \<Rightarrow> tw'
      | (Some e, tw') \<Rightarrow>
          if e = CancelledError then tw'\<lparr>tw_watching := False\<rparr>
          else if e = AioRpcError then watch_stream_ended tw'
          else tw'\<lparr>tw_failure := Some e, tw_first_install := True, tw_watching := False\<rparr>)"

definition retire_worker_resources :: "worker_resources \<Rightarrow> bool \<Rightarrow> watcher \<Rightarrow> watcher" where
  "retire_worker_resources r close_raises tw =
     (let identity = wr_identity (res_route r);
          tw1 = tw\<lparr>tw_world := close_worker_resources r (tw_world tw), tw_cleanup_tasks := remove1 r (tw_cleanup_tasks tw)\<rparr>
      in if close_raises then tw1
         else if (case map_of (tw_resources tw) identity of Some r' \<Rightarrow> res_id r' \<noteq> res_id r | None \<Rightarrow> True) \<and>
                 map_of (tw_pools tw) identity = Some (res_pool r)
         then tw1\<lparr>tw_pools := AList.delete identity (tw_pools tw)\<rparr>
         else tw1)"

section \<open>The provider interface\<close>

definition stream_failed :: exn where
  "stream_failed = Raised_TransportError (TransportError PROTOCOL False ''the topology stream failed'')"

text \<open>\<open>start\<close> up to waiting for the first snapshot, and what it does when that wait ends.\<close>

definition watcher_start :: "int \<Rightarrow> int \<Rightarrow> watcher \<Rightarrow> exn option \<times> watcher" where
  "watcher_start monotonic_deadline now tw =
     (if tw_closing tw then (Some (RuntimeError ''topology provider is closing''), tw)
      else if tw_started tw then (if tw_failure tw \<noteq> None then Some stream_failed else None, tw)
      else if monotonic_deadline - now \<le> 0
      then (Some (Raised_TransportError (TransportError DEADLINE_EXCEEDED False ''the topology startup deadline already expired'')), tw)
      else (None, tw\<lparr>tw_started := True, tw_watching := True\<rparr>))"

definition watcher_close :: "watcher \<Rightarrow> watcher" where
  "watcher_close tw = tw\<lparr>tw_closing := True\<rparr>"

definition start_wait_ended :: "bool \<Rightarrow> watcher \<Rightarrow> exn option \<times> watcher" where
  "start_wait_ended timed_out tw =
     (if timed_out
      then (Some (Raised_TransportError
             (TransportError DEADLINE_EXCEEDED False ''the initial topology snapshot did not arrive before the deadline'')), watcher_close tw)
      else if tw_failure tw \<noteq> None then (Some stream_failed, watcher_close tw)
      else (None, tw))"

definition current :: "watcher \<Rightarrow> int \<Rightarrow> exn + topology_snapshot" where
  "current tw instance_id =
     (if instance_id \<noteq> tw_instance_id tw then Inl (ValueError ''requested instance does not match this topology provider'')
      else if tw_failure tw \<noteq> None then Inl stream_failed
      else if \<not> tw_first_install tw
      then Inl (Raised_TransportError (TransportError UNAVAILABLE True ''the initial topology snapshot is not installed''))
      else Inr (tw_snapshot tw))"

text \<open>\<open>refresh\<close>: the state \<open>tw\<close> is the one after its \<open>sleep(0)\<close>.\<close>

definition refresh :: "watcher \<Rightarrow> int \<Rightarrow> int \<Rightarrow> int \<Rightarrow> int \<Rightarrow> exn + topology_snapshot" where
  "refresh tw instance_id observed_version monotonic_deadline now =
     (if monotonic_deadline - now \<le> 0
      then Inl (Raised_TransportError (TransportError DEADLINE_EXCEEDED False ''the topology refresh deadline expired''))
      else rbind (current tw instance_id) (\<lambda>snapshot.
        if ts_version snapshot < observed_version
        then Inl (Raised_TransportError (TransportError PROTOCOL False ''the installed topology version moved backwards''))
        else Inr snapshot))"

text \<open>The rest of \<open>_close\<close>: the cancelled watch task ends, and after the retirements everything left is closed.\<close>

definition close_watch_ended :: "watcher \<Rightarrow> watcher" where
  "close_watch_ended tw = tw\<lparr>tw_watching := False\<rparr>"

definition close_finished :: "watcher \<Rightarrow> watcher" where
  "close_finished tw = tw\<lparr>tw_resources := [], tw_pools := [], tw_closed := True,
     tw_world := fold close_worker_resources (map snd (tw_resources tw)) (tw_world tw)\<rparr>"

section \<open>Executions\<close>

text \<open>What the types of the protobuf fields guarantee.\<close>

definition wire_part :: "topology_part \<Rightarrow> bool" where
  "wire_part part \<longleftrightarrow> 0 \<le> part_topology_version part \<and> part_topology_version part \<le> uint64_max \<and> 0 \<le> part_index part \<and>
     (\<forall>r\<in>set (part_entries part). 0 \<le> wire_layer_id r \<and> wire_layer_id r \<le> uint32_max \<and> 0 \<le> wire_expert_id r \<and> wire_expert_id r \<le> uint32_max)"

fun wire_message :: "topology_message \<Rightarrow> bool" where
  "wire_message (Snapshot_Message part) = wire_part part"
| "wire_message (Update_Message previous_version part) = wire_part part"
| "wire_message Empty_Message = True"

inductive watcher_step :: "watcher \<Rightarrow> watcher \<Rightarrow> bool" where
  watcher_step_start: "watcher_step tw (snd (watcher_start deadline now tw))"
| watcher_step_message: "tw_watching tw \<Longrightarrow> wire_message message \<Longrightarrow> watcher_step tw (watch_message env message tw)"
| watcher_step_stream: "tw_watching tw \<Longrightarrow> watcher_step tw (watch_stream_ended tw)"
| watcher_step_retire: "r \<in> set (tw_cleanup_tasks tw) \<Longrightarrow> watcher_step tw (retire_worker_resources r close_raises tw)"
| watcher_step_start_wait: "tw_started tw \<Longrightarrow> watcher_step tw (snd (start_wait_ended timed_out tw))"
| watcher_step_close: "watcher_step tw (watcher_close tw)"
| watcher_step_cancelled: "tw_closing tw \<Longrightarrow> watcher_step tw (close_watch_ended tw)"
| watcher_step_finish: "tw_closing tw \<Longrightarrow> \<not> tw_watching tw \<Longrightarrow> tw_cleanup_tasks tw = [] \<Longrightarrow> watcher_step tw (close_finished tw)"

definition watcher_init :: "watcher \<Rightarrow> bool" where
  "watcher_init tw \<longleftrightarrow> (\<exists>endpoint i n e h k dt device accelerator delay.
     ControllerTopologyWatcher endpoint i n e h k dt device accelerator delay = Inr tw)"
section \<open>Connections that are open\<close>

text \<open>Exactly the Transports and pools numbered \<open>ids\<close> are open.\<close>

definition world_ok :: "nat list \<Rightarrow> world \<Rightarrow> bool" where
  "world_ok ids w \<longleftrightarrow> distinct ids \<and> set (w_open_transports w) = set ids \<and> set (w_open_pools w) = set ids \<and> (\<forall>i\<in>set ids. i < w_next w)"

definition res_ok :: "worker_resources \<Rightarrow> bool" where
  "res_ok r \<longleftrightarrow> wc_transport (res_target r) = res_id r \<and> res_pool r = res_id r \<and> wc_identity (res_target r) = wr_identity (res_route r)"

abbreviation res_ids :: "(worker_identity, worker_resources) dict \<Rightarrow> nat list" where
  "res_ids d \<equiv> map (\<lambda>p. res_id (snd p)) d"

lemma world_ok_cong: "world_ok ids w \<Longrightarrow> distinct ids' \<Longrightarrow> set ids' = set ids \<Longrightarrow> world_ok ids' w"
  by (simp add: world_ok_def)

lemma world_ok_perm: "world_ok ids w \<Longrightarrow> mset ids' = mset ids \<Longrightarrow> world_ok ids' w"
  using world_ok_cong by (metis mset_eq_imp_distinct_iff mset_eq_setD world_ok_def)

lemma create_worker_resources_ok:
  assumes "world_ok ids w" and "route_positive route" and "create_worker_resources tw c route w = (r, w')"
  shows "(case r of Inl e \<Rightarrow> world_ok ids w'
     | Inr q \<Rightarrow> res_ok q \<and> res_route q = route \<and> res_id q \<notin> set ids \<and> world_ok (res_id q # ids) w')"
proof -
  have fresh: "w_next w \<notin> set ids" using assms(1) by (auto simp: world_ok_def)
  have post: "worker_connection_post_init \<lparr>wc_identity = wr_identity route, wc_transport = w_next w, wc_max_batch_tokens = wr_max_batch_tokens route,
      wc_max_active_batches = wr_max_active_batches route, wc_max_pending_batches = wr_max_pending_batches route\<rparr> = None"
    using assms(2) by (simp add: worker_connection_post_init_def route_positive_def)
  define n where "n = w_next w"
  define w1 where "w1 = w\<lparr>w_next := n + 1, w_open_transports := n # w_open_transports w\<rparr>"
  define w2 where "w2 = w1\<lparr>w_open_pools := n # w_open_pools w1\<rparr>"
  have ws: "world_ok ids (close_transport n w1)" "world_ok ids (close_transport n (close_pool n w2))" "world_ok (n # ids) w2"
    using assms(1) fresh by (auto simp: world_ok_def close_transport_def close_pool_def w1_def w2_def n_def)
  consider (raised) e where "r = Inl e" "w' \<in> {w, close_transport n w1, close_transport n (close_pool n w2)}"
    | (made) "r = Inr \<lparr>res_id = n, res_route = route, res_target = \<lparr>wc_identity = wr_identity route, wc_transport = n, wc_max_batch_tokens = wr_max_batch_tokens route,
      wc_max_active_batches = wr_max_active_batches route, wc_max_pending_batches = wr_max_pending_batches route\<rparr>, res_pool = n\<rparr>" "w' = w2"
    using assms(3) post unfolding create_worker_resources_def Let_def n_def [symmetric] w1_def [symmetric] w2_def [symmetric]
    by (auto split: option.splits sum.splits)
  then show ?thesis
  proof cases
    case raised
    then show ?thesis using ws assms(1) by auto
  next
    case made
    then show ?thesis using ws(3) fresh by (simp add: res_ok_def n_def)
  qed
qed

lemma close_worker_resources_ok:
  "world_ok ids w \<Longrightarrow> res_ok r \<Longrightarrow> world_ok (removeAll (res_id r) ids) (close_worker_resources r w)"
  by (auto simp: world_ok_def res_ok_def close_worker_resources_def close_transport_def close_pool_def distinct_removeAll)

lemma close_all_ok:
  "world_ok ids w \<Longrightarrow> \<forall>r\<in>set rs. res_ok r \<Longrightarrow> world_ok (filter (\<lambda>i. i \<notin> res_id ` set rs) ids) (fold close_worker_resources rs w)"
proof (induction rs arbitrary: ids w)
  case (Cons r rs)
  have "world_ok (filter (\<lambda>i. i \<notin> res_id ` set rs) (removeAll (res_id r) ids)) (fold close_worker_resources rs (close_worker_resources r w))"
    using Cons.IH [OF close_worker_resources_ok] Cons.prems by simp
  moreover have "filter (\<lambda>i. i \<notin> res_id ` set rs) (removeAll (res_id r) ids) = filter (\<lambda>i. i \<notin> res_id ` set (r # rs)) ids"
    by (auto simp: removeAll_filter_not_eq intro: filter_cong)
  ultimately show ?case by simp
qed simp

section \<open>Installing a topology keeps the connections right\<close>

lemma require_routes_ok:
  assumes "require_routes routes required = Inr out" and "dict_ok required"
    and "\<forall>k v. map_of required k = Some v \<longrightarrow> wr_identity v = k \<and> v \<in> R" and "set routes \<subseteq> R"
  shows "dict_ok out \<and> map_of required \<subseteq>\<^sub>m map_of out \<and> (\<forall>r\<in>set routes. map_of out (wr_identity r) = Some r) \<and>
     (\<forall>k v. map_of out k = Some v \<longrightarrow> wr_identity v = k \<and> v \<in> R)"
  using assms
proof (induction routes arbitrary: required)
  case (Cons r routes)
  let ?q = "dict_setdefault (wr_identity r) r required"
  from Cons.prems(1) have q: "map_of ?q (wr_identity r) = Some r" "require_routes routes ?q = Inr out"
    unfolding require_routes.simps Let_def by (metis sum.distinct(1))+
  have get: "map_of ?q k = Some v \<Longrightarrow> map_of required k = Some v \<or> k = wr_identity r \<and> v = r" for k v
    by (cases "map_of required (wr_identity r)") (auto split: if_splits)
  have "dict_ok ?q" using Cons.prems(2) by simp
  moreover have "\<forall>k v. map_of ?q k = Some v \<longrightarrow> wr_identity v = k \<and> v \<in> R" using get Cons.prems(3,4) by (metis list.set_intros(1) subsetD)
  moreover have "set routes \<subseteq> R" using Cons.prems(4) by simp
  moreover have "map_of required \<subseteq>\<^sub>m map_of ?q" by (cases "map_of required (wr_identity r)") (auto simp: map_le_def)
  ultimately have IH: "dict_ok out" "map_of ?q \<subseteq>\<^sub>m map_of out" "\<forall>r\<in>set routes. map_of out (wr_identity r) = Some r"
    "\<forall>k v. map_of out k = Some v \<longrightarrow> wr_identity v = k \<and> v \<in> R" "map_of required \<subseteq>\<^sub>m map_of ?q"
    using Cons.IH [OF q(2)] by blast+
  have "map_of out (wr_identity r) = Some r" using q(1) IH(2) by (metis domI map_le_def)
  then have "\<forall>q\<in>set (r # routes). map_of out (wr_identity q) = Some q" using IH(3) by simp
  then show ?case using IH(1,4) map_le_trans [OF IH(5) IH(2)] by blast
next
  case Nil
  then show ?case unfolding require_routes.simps using map_le_refl by auto
qed

definition needs_creation :: "watcher \<Rightarrow> worker_identity \<times> worker_route \<Rightarrow> bool" where
  "needs_creation tw q \<longleftrightarrow> (case map_of (tw_resources tw) (fst q) of Some c \<Rightarrow> res_route c \<noteq> snd q | None \<Rightarrow> True)"

definition created_ok :: "(worker_identity, worker_resources) dict \<Rightarrow> bool" where
  "created_ok d \<longleftrightarrow> dict_ok d \<and> (\<forall>k r. map_of d k = Some r \<longrightarrow> res_ok r \<and> wr_identity (res_route r) = k)"

lemma created_okD: "created_ok d \<Longrightarrow> map_of d k = Some r \<Longrightarrow> res_ok r \<and> wr_identity (res_route r) = k"
  unfolding created_ok_def by blast

lemma created_ok_all: "created_ok d \<Longrightarrow> p \<in> set d \<Longrightarrow> res_ok (snd p) \<and> wr_identity (res_route (snd p)) = fst p"
  by (metis created_ok_def dict_ok_map_of prod.collapse)

lemma create_missing_ok:
  assumes "create_missing tw env required created w = (out, created', w')"
    and "world_ok (res_ids created @ ids) w" and "created_ok created"
    and "distinct (map fst required)" and "fst ` set required \<inter> fst ` set created = {}"
    and "\<forall>q\<in>set required. route_positive (snd q) \<and> wr_identity (snd q) = fst q"
  shows "world_ok (res_ids created' @ ids) w' \<and> created_ok created' \<and>
     (out = None \<longrightarrow> map (\<lambda>(i, r). (i, res_route r)) created' = map (\<lambda>(i, r). (i, res_route r)) created @ filter (needs_creation tw) required)"
  using assms
proof (induction required arbitrary: created w)
  case (Cons q required)
  obtain i route where q: "q = (i, route)" by (cases q)
  show ?case
  proof (cases "needs_creation tw q")
    case False
    then have "create_missing tw env required created w = (out, created', w')"
      using Cons.prems(1) by (auto simp: q needs_creation_def split: option.splits)
    from Cons.IH [OF this Cons.prems(2,3)] Cons.prems(4-6) False show ?thesis by simp
  next
    case True
    obtain r w1 where c: "create_worker_resources tw (env i) route w = (r, w1)" by (cases "create_worker_resources tw (env i) route w")
    have run: "(case r of Inl e \<Rightarrow> (Some e, created, w1) | Inr p \<Rightarrow> create_missing tw env required (AList.update i p created) w1) = (out, created', w')"
      using Cons.prems(1) True by (auto simp: q needs_creation_def c split: option.splits sum.splits)
    have "route_positive route" using Cons.prems(6) q by simp
    note ok = create_worker_resources_ok [OF Cons.prems(2) this c]
    show ?thesis
    proof (cases r)
      case (Inl e)
      then show ?thesis using run ok Cons.prems(3) by (auto simp: comp_def)
    next
      case (Inr p)
      then have p: "res_ok p" "res_route p = route" "res_id p \<notin> set (res_ids created @ ids)" "world_ok (res_id p # res_ids created @ ids) w1"
        using ok by simp_all
      have new: "AList.update i p created = created @ [(i, p)]"
        using Cons.prems(5) q by (intro dict_update_new) (simp add: map_of_eq_None_iff)
      have "world_ok (res_ids (created @ [(i, p)]) @ ids) w1" by (rule world_ok_cong [OF p(4)]) (use p(3,4) in \<open>auto simp: world_ok_def\<close>)
      moreover have "created_ok (created @ [(i, p)])"
        using Cons.prems(3,5,6) p(1,2) new [symmetric] q by (auto simp: created_ok_def)
      moreover have "create_missing tw env required (created @ [(i, p)]) w1 = (out, created', w')" using run Inr new by simp
      moreover have "fst ` set required \<inter> fst ` set (created @ [(i, p)]) = {}" using Cons.prems(4,5) q by auto
      ultimately show ?thesis using Cons.IH [of "created @ [(i, p)]" w1] Cons.prems(4,6) True p(2) q by simp
    qed
  qed
qed auto
definition pick_resource :: "(worker_identity, worker_resources) dict \<Rightarrow> (worker_identity, worker_resources) dict \<Rightarrow> worker_identity \<Rightarrow> worker_resources" where
  "pick_resource created old i = (case map_of created i of Some r \<Rightarrow> r | None \<Rightarrow> the (map_of old i))"

definition picked :: "(worker_identity, worker_route) dict \<Rightarrow> (worker_identity, worker_resources) dict \<Rightarrow> (worker_identity, worker_resources) dict \<Rightarrow>
    (worker_identity, worker_resources) dict" where
  "picked required created old = map (\<lambda>q. (fst q, pick_resource created old (fst q))) required"

lemma picked_keys [simp]: "map fst (picked required created old) = map fst required"
  by (simp add: picked_def)

lemma map_of_picked: "map_of (picked required created old) i = (if i \<in> fst ` set required then Some (pick_resource created old i) else None)"
  unfolding picked_def by (induction required) auto

lemma pick_resource_cases:
  assumes "dict_ok required" and "created_ok created" and "created_ok (tw_resources tw)" and "q \<in> set required"
    and made: "map (\<lambda>(i, r). (i, res_route r)) created = filter (needs_creation tw) required"
  obtains r where "pick_resource created (tw_resources tw) (fst q) = r" and "res_route r = snd q" and "map_of created (fst q) = Some r"
  | r where "pick_resource created (tw_resources tw) (fst q) = r" and "res_route r = snd q" and "map_of created (fst q) = None"
      and "map_of (tw_resources tw) (fst q) = Some r"
proof (cases "needs_creation tw q")
  case True
  then have "q \<in> set (map (\<lambda>(i, r). (i, res_route r)) created)" unfolding made using assms(4) by simp
  then obtain r where "(fst q, r) \<in> set created" "res_route r = snd q" by auto
  moreover from this(1) have "map_of created (fst q) = Some r" using assms(2) by (simp add: created_ok_def dict_ok_map_of)
  ultimately show ?thesis using that(1) by (simp add: pick_resource_def)
next
  case False
  have "map fst created = map fst (filter (needs_creation tw) required)" unfolding made [symmetric] by (simp add: comp_def case_prod_unfold)
  then have keys: "fst ` set created = fst ` set (filter (needs_creation tw) required)" by (metis list.set_map)
  have "fst q \<notin> fst ` set (filter (needs_creation tw) required)"
    using False assms(1,4) by (auto simp: dict_ok_def) (metis eq_key_imp_eq_value prod.collapse)
  then have none: "map_of created (fst q) = None" unfolding map_of_eq_None_iff keys .
  obtain c where "map_of (tw_resources tw) (fst q) = Some c" "res_route c = snd q"
    using False by (auto simp: needs_creation_def split: option.splits)
  then show ?thesis using that(2) none by (simp add: pick_resource_def)
qed

lemma select_resources_picked:
  assumes "dict_ok required" and "created_ok created" and "created_ok (tw_resources tw)"
    and "map (\<lambda>(i, r). (i, res_route r)) created = filter (needs_creation tw) required"
    and "\<forall>q\<in>set required. wr_identity (snd q) = fst q"
  shows "select_resources required created (tw_resources tw) = Inr (picked required created (tw_resources tw))"
    and "created_ok (picked required created (tw_resources tw))"
    and "\<forall>q\<in>set required. res_route (pick_resource created (tw_resources tw) (fst q)) = snd q"
proof -
  note cases = pick_resource_cases [OF assms(1-3) _ assms(4)]
  have "rbind (case map_of created (fst q) of Some r \<Rightarrow> Inr r | None \<Rightarrow> dict_item (tw_resources tw) (fst q)) (\<lambda>r. Inr (fst q, r)) =
     Inr (fst q, pick_resource created (tw_resources tw) (fst q))" if "q \<in> set required" for q
    by (rule cases [OF that]) (simp_all add: dict_item_def)
  then show "select_resources required created (tw_resources tw) = Inr (picked required created (tw_resources tw))"
    unfolding select_resources_def picked_def case_prod_unfold by (rule rmap_Inr)
  show route: "\<forall>q\<in>set required. res_route (pick_resource created (tw_resources tw) (fst q)) = snd q"
  proof
    fix q assume "q \<in> set required"
    then show "res_route (pick_resource created (tw_resources tw) (fst q)) = snd q" by (rule cases) simp_all
  qed
  have "res_ok (pick_resource created (tw_resources tw) (fst q))" if "q \<in> set required" for q
    by (rule cases [OF that]) (use assms(2,3) in \<open>auto simp: created_ok_def\<close>)
  moreover have "wr_identity (res_route (pick_resource created (tw_resources tw) (fst q))) = fst q" if "q \<in> set required" for q
    using route assms(5) that by simp
  moreover have "dict_ok (picked required created (tw_resources tw))" using assms(1) by (simp add: dict_ok_def)
  ultimately show "created_ok (picked required created (tw_resources tw))"
    unfolding created_ok_def map_of_picked by (auto split: if_splits)
qed

text \<open>The installed and retired connections are exactly the created and the previous ones.\<close>

lemma installed_world_ok:
  assumes "dict_ok required" and "created_ok created" and "created_ok (tw_resources tw)"
    and made: "map (\<lambda>(i, r). (i, res_route r)) created = filter (needs_creation tw) required"
    and w: "world_ok (res_ids created @ res_ids (tw_resources tw) @ rest) w"
  defines "new \<equiv> picked required created (tw_resources tw)"
  shows "world_ok (res_ids new @ map res_id (retired_resources (tw_resources tw) new) @ rest) w"
proof (rule world_ok_cong [OF w])
  let ?old = "tw_resources tw"
  have dist: "distinct (res_ids created)" "distinct (res_ids ?old)" "distinct rest" "set (res_ids created) \<inter> set (res_ids ?old) = {}"
    "(set (res_ids created) \<union> set (res_ids ?old)) \<inter> set rest = {}"
    using w by (auto simp: world_ok_def)
  have inj: "p = q" if "p \<in> set d" "q \<in> set d" "res_id (snd p) = res_id (snd q)" "distinct (res_ids d)" for p q and d :: "(worker_identity, worker_resources) dict"
    using that(1-3) inj_onD [OF conjunct2 [OF iffD1 [OF distinct_map that(4)]]] by blast
  note cases = pick_resource_cases [OF assms(1-3) _ made]
  have from_new: "p \<in> set created \<or> p \<in> set ?old \<and> map_of created (fst p) = None" if "p \<in> set new" for p
  proof -
    from that obtain q where q: "q \<in> set required" "p = (fst q, pick_resource created ?old (fst q))" by (auto simp: new_def picked_def)
    show ?thesis by (rule cases [OF q(1)]) (simp_all add: q(2) map_of_SomeD)
  qed
  have dnew: "dict_ok new" using assms(1) by (simp add: new_def dict_ok_def)
  have disj: "res_id (snd p) \<noteq> res_id (snd q)" if "p \<in> set created" "q \<in> set ?old" for p q
    using that dist(4) by force
  have "inj_on (\<lambda>p. res_id (snd p)) (set new)"
  proof (rule inj_onI)
    fix p q
    assume pq: "p \<in> set new" "q \<in> set new" "res_id (snd p) = res_id (snd q)"
    show "p = q"
      using from_new [OF pq(1)] from_new [OF pq(2)] disj [of p q] disj [of q p] inj [of p created q, OF _ _ pq(3) dist(1)] inj [of p ?old q, OF _ _ pq(3) dist(2)] pq(3)
      by auto
  qed
  then have 1: "distinct (res_ids new)" using dnew by (simp add: distinct_map dict_ok_def)
  define gone where "gone = filter (\<lambda>(i, r). (case map_of new i of Some r' \<Rightarrow> res_id r' \<noteq> res_id r | None \<Rightarrow> True)) ?old"
  have ret: "map res_id (retired_resources ?old new) = res_ids gone" by (simp add: retired_resources_def gone_def)
  have 2: "distinct (res_ids gone)" using dist(2) by (simp add: gone_def distinct_map_filter)
  have kept: "map_of new (fst p) = Some (snd p)" if "p \<in> set new" for p using that dnew by (simp add: dict_ok_map_of [symmetric])
  have 3: "set (res_ids new) \<inter> set (res_ids gone) = {}"
  proof -
    have "res_id (snd p) \<noteq> res_id (snd q)" if "p \<in> set new" "q \<in> set gone" for p q
    proof
      assume eq: "res_id (snd p) = res_id (snd q)"
      have q: "q \<in> set ?old" using that(2) by (simp add: gone_def)
      then have "p \<in> set ?old" using from_new [OF that(1)] disj eq by metis
      then have "p = q" using inj q eq dist(2) by blast
      then show False using kept [OF that(1)] that(2) by (auto simp: gone_def)
    qed
    then show ?thesis by auto
  qed
  have "set gone \<subseteq> set ?old" "set new \<subseteq> set created \<union> set ?old" using from_new by (auto simp: gone_def)
  then have sub: "set (res_ids new) \<union> set (res_ids gone) \<subseteq> set (res_ids created) \<union> set (res_ids ?old)"
    unfolding set_map by blast
  have back1: "p \<in> set new" if "p \<in> set created" for p
  proof -
    from that have "(fst p, res_route (snd p)) \<in> set (map (\<lambda>(i, r). (i, res_route r)) created)" by force
    then have "fst p \<in> fst ` set required" unfolding made by force
    moreover have "map_of created (fst p) = Some (snd p)" using that assms(2) by (simp add: created_ok_def dict_ok_map_of [symmetric])
    ultimately have "map_of new (fst p) = Some (snd p)" by (simp add: new_def map_of_picked pick_resource_def)
    then show ?thesis using map_of_SomeD [of new "fst p" "snd p"] by simp
  qed
  have back2: "res_id (snd p) \<in> set (res_ids new) \<union> set (res_ids gone)" if p: "p \<in> set ?old" for p
  proof (cases "p \<in> set gone")
    case False
    then obtain r' where "map_of new (fst p) = Some r'" "res_id r' = res_id (snd p)" using p by (auto simp: gone_def split: option.splits)
    then have "(fst p, r') \<in> set new" "res_id (snd p) = (\<lambda>p. res_id (snd p)) (fst p, r')" using map_of_SomeD [of new "fst p" r'] by simp_all
    then show ?thesis unfolding set_map by blast
  qed auto
  have all: "set (res_ids new) \<union> set (res_ids gone) = set (res_ids created) \<union> set (res_ids ?old)"
  proof
    have "set (res_ids created) \<subseteq> set (res_ids new)" unfolding set_map using back1 by blast
    moreover have "x \<in> set (res_ids new) \<union> set (res_ids gone)" if "x \<in> set (res_ids ?old)" for x
    proof -
      from that obtain p where "p \<in> set ?old" "x = res_id (snd p)" by auto
      then show ?thesis using back2 by blast
    qed
    ultimately show "set (res_ids created) \<union> set (res_ids ?old) \<subseteq> set (res_ids new) \<union> set (res_ids gone)" by blast
  qed (rule sub)
  show "distinct (res_ids new @ map res_id (retired_resources ?old new) @ rest)"
    unfolding ret distinct_append set_append using 1 2 3 dist(3) dist(5) [folded all] by blast
  show "set (res_ids new @ map res_id (retired_resources ?old new) @ rest) = set (res_ids created @ res_ids ?old @ rest)"
    unfolding ret set_append Un_assoc [symmetric] all ..
qed
section \<open>The invariant\<close>

definition routed :: "(worker_identity, worker_resources) dict \<Rightarrow> route_descriptions \<Rightarrow> bool" where
  "routed resources d \<longleftrightarrow> (\<forall>p\<in>set d. \<forall>route\<in>set (snd p). \<exists>r. map_of resources (wr_identity route) = Some r \<and> res_route r = route)"

definition targets_for :: "(worker_identity, worker_resources) dict \<Rightarrow> route_descriptions \<Rightarrow> route_table" where
  "targets_for resources d = map (\<lambda>p. (fst p, map (\<lambda>route. res_target (the (map_of resources (wr_identity route)))) (snd p))) d"

definition watcher_inv :: "watcher \<Rightarrow> bool" where
  "watcher_inv tw \<longleftrightarrow> created_ok (tw_resources tw) \<and>
     (\<forall>i r. map_of (tw_resources tw) i = Some r \<longrightarrow> map_of (tw_pools tw) i = Some (res_pool r)) \<and>
     (\<forall>r\<in>set (tw_cleanup_tasks tw). res_ok r) \<and>
     world_ok (res_ids (tw_resources tw) @ map res_id (tw_cleanup_tasks tw)) (tw_world tw) \<and>
     descriptions_ok (tw_route_descriptions tw) \<and> pending_in_range (tw_messages tw) \<and>
     snapshot_ok (tw_snapshot tw) \<and> 0 \<le> tw_instance_id tw \<and> tw_instance_id tw \<le> uint64_max \<and>
     (\<not> tw_closed tw \<longrightarrow> routed (tw_resources tw) (tw_route_descriptions tw) \<and>
        ts_routes (tw_snapshot tw) = targets_for (tw_resources tw) (tw_route_descriptions tw)) \<and>
     (tw_closed tw \<longrightarrow> tw_closing tw \<and> \<not> tw_watching tw \<and> tw_resources tw = [] \<and> tw_cleanup_tasks tw = [])"

lemma watcher_invD:
  assumes "watcher_inv tw"
  shows "created_ok (tw_resources tw)" and "map_of (tw_resources tw) i = Some r \<Longrightarrow> map_of (tw_pools tw) i = Some (res_pool r)"
    and "\<forall>r\<in>set (tw_cleanup_tasks tw). res_ok r"
    and "world_ok (res_ids (tw_resources tw) @ map res_id (tw_cleanup_tasks tw)) (tw_world tw)"
    and "descriptions_ok (tw_route_descriptions tw)" and "pending_in_range (tw_messages tw)"
    and "snapshot_ok (tw_snapshot tw)" and "0 \<le> tw_instance_id tw" and "tw_instance_id tw \<le> uint64_max"
    and "\<not> tw_closed tw \<Longrightarrow> routed (tw_resources tw) (tw_route_descriptions tw)"
    and "\<not> tw_closed tw \<Longrightarrow> ts_routes (tw_snapshot tw) = targets_for (tw_resources tw) (tw_route_descriptions tw)"
    and "tw_closed tw \<Longrightarrow> tw_closing tw \<and> \<not> tw_watching tw \<and> tw_resources tw = [] \<and> tw_cleanup_tasks tw = []"
  using assms unfolding watcher_inv_def by blast+

lemma route_targets_routed:
  assumes "routed resources d"
  shows "route_targets resources d = Inr (targets_for resources d)"
proof -
  have one: "rbind (dict_item resources (wr_identity route)) (\<lambda>r. Inr (res_target r)) = Inr (res_target (the (map_of resources (wr_identity route))))"
    if "p \<in> set d" "route \<in> set (snd p)" for p route
    using assms that by (force simp: routed_def dict_item_def)
  show ?thesis
    unfolding route_targets_def targets_for_def case_prod_unfold
    by (rule rmap_Inr) (simp add: rmap_Inr [OF one])
qed

lemma snapshot_of_targets:
  assumes "descriptions_ok d" and "routed resources d" and "created_ok resources" and "0 \<le> i" and "i \<le> uint64_max" and "0 \<le> v" and "v \<le> uint64_max"
  obtains s where "make_topology_snapshot i v (targets_for resources d) = Inr s" and "snapshot_ok s" and "ts_routes s = targets_for resources d" and "ts_version s = v"
proof -
  let ?ts = "targets_for resources d"
  have dict: "dict_ok ?ts" using assms(1) by (simp add: dict_ok_def descriptions_ok_def targets_for_def comp_def)
  have target: "wc_identity (res_target (the (map_of resources (wr_identity route)))) = wr_identity route"
    if p: "p \<in> set d" "route \<in> set (snd p)" for p route
  proof -
    obtain r where r: "map_of resources (wr_identity route) = Some r" using assms(2) p unfolding routed_def by blast
    then have "wc_identity (res_target r) = wr_identity route" using created_okD [OF assms(3) r] by (simp add: res_ok_def)
    then show ?thesis by (simp add: r)
  qed
  have "route_ok r" if "r \<in> set ?ts" for r
  proof -
    from that obtain p where p: "p \<in> set d" and r: "r = (fst p, map (\<lambda>route. res_target (the (map_of resources (wr_identity route)))) (snd p))"
      by (auto simp: targets_for_def)
    have "map_of d (fst p) = Some (snd p)" using p assms(1) by (simp add: descriptions_ok_def dict_ok_map_of [symmetric])
    then have "key_in_range (fst p)" "replicas_ok (snd p)" using assms(1) unfolding descriptions_ok_def by blast+
    moreover have ids: "map wc_identity (snd r) = map wr_identity (snd p)" using target [OF p] by (simp add: r)
    ultimately have "key_in_range (fst r)" "snd r \<noteq> []" "distinct (map wc_identity (snd r))"
      unfolding ids using r by (simp_all add: replicas_ok_def)
    then show ?thesis by (simp add: route_ok_def key_in_range_def)
  qed
  moreover have "consistent_targets ?ts"
  proof -
    have "t = res_target (the (map_of resources (wc_identity t)))" if "t \<in> set (targets_of ?ts)" for t
      using that target by (auto simp: targets_of_def targets_for_def)
    then show ?thesis unfolding consistent_targets_def by metis
  qed
  ultimately obtain s where "make_topology_snapshot i v ?ts = Inr s" using make_topology_snapshot_accepts [OF dict] assms(4-7) by blast
  then show ?thesis using that make_topology_snapshot_Inr [OF _ dict] by blast
qed

lemma map_of_install_pools:
  "dict_ok new \<Longrightarrow> map_of (install_pools new pools) i = (case map_of new i of Some r \<Rightarrow> Some (res_pool r) | None \<Rightarrow> map_of pools i)"
proof (induction new arbitrary: pools)
  case (Cons p new)
  then have "map_of new (fst p) = None" "dict_ok new" by (auto simp: dict_ok_def map_of_eq_None_iff)
  then show ?case using Cons.IH [of "AList.update (fst p) (res_pool (snd p)) pools"]
    by (auto simp: install_pools_def case_prod_unfold split: option.splits)
qed (simp add: install_pools_def)

lemma require_routes_descriptions:
  assumes "require_routes (concat (map snd d)) [] = Inr required" and "descriptions_ok d"
  shows "dict_ok required" and "\<forall>q\<in>set required. route_positive (snd q) \<and> wr_identity (snd q) = fst q"
    and "\<And>p route. p \<in> set d \<Longrightarrow> route \<in> set (snd p) \<Longrightarrow> (wr_identity route, route) \<in> set required"
proof -
  note ok = require_routes_ok [OF assms(1), of "set (concat (map snd d))", simplified]
  then show dict: "dict_ok required" by simp
  show "(wr_identity route, route) \<in> set required" if "p \<in> set d" "route \<in> set (snd p)" for p route
    using ok that by (auto simp: dict_ok_map_of [OF dict])
  have pos: "route_positive route" if "p \<in> set d" "route \<in> set (snd p)" for p route
  proof -
    have "map_of d (fst p) = Some (snd p)" using that(1) assms(2) by (simp add: descriptions_ok_def dict_ok_map_of [symmetric])
    then show ?thesis using assms(2) that(2) unfolding descriptions_ok_def replicas_ok_def by blast
  qed
  show "\<forall>q\<in>set required. route_positive (snd q) \<and> wr_identity (snd q) = fst q"
  proof
    fix q assume "q \<in> set required"
    then have "map_of required (fst q) = Some (snd q)" using dict by (simp add: dict_ok_map_of [symmetric])
    then have "wr_identity (snd q) = fst q" "\<exists>p\<in>set d. snd q \<in> set (snd p)" using ok by auto
    then show "route_positive (snd q) \<and> wr_identity (snd q) = fst q" using pos by blast
  qed
qed

lemma install_failed_inv:
  assumes "watcher_inv tw" and "world_ok (res_ids created @ res_ids (tw_resources tw) @ map res_id (tw_cleanup_tasks tw)) w" and "created_ok created"
  shows "watcher_inv (tw\<lparr>tw_world := fold close_worker_resources (map snd created) w\<rparr>)"
proof -
  let ?ids = "res_ids (tw_resources tw) @ map res_id (tw_cleanup_tasks tw)"
  have "world_ok (filter (\<lambda>i. i \<notin> res_id ` set (map snd created)) (res_ids created @ ?ids)) (fold close_worker_resources (map snd created) w)"
    by (rule close_all_ok) (use assms(2) created_ok_all [OF assms(3)] in auto)
  moreover have "set (res_ids created) \<inter> set ?ids = {}" "res_id ` set (map snd created) = set (res_ids created)"
    using assms(2) by (simp_all only: world_ok_def distinct_append) (auto simp: image_image)
  then have "filter (\<lambda>i. i \<notin> res_id ` set (map snd created)) (res_ids created) = []" "filter (\<lambda>i. i \<notin> res_id ` set (map snd created)) ?ids = ?ids"
    by (intro filter_False filter_True; blast)+
  then have "filter (\<lambda>i. i \<notin> res_id ` set (map snd created)) (res_ids created @ ?ids) = ?ids" by (simp only: filter_append append_Nil)
  ultimately show ?thesis using assms(1) by (simp add: watcher_inv_def)
qed

lemma install_done_inv:
  assumes inv: "watcher_inv tw" and "\<not> tw_closed tw" and d: "descriptions_ok d"
    and req: "require_routes (concat (map snd d)) [] = Inr required"
    and w: "world_ok (res_ids created @ res_ids (tw_resources tw) @ map res_id (tw_cleanup_tasks tw)) w"
    and created: "created_ok created" and made: "map (\<lambda>(i, r). (i, res_route r)) created = filter (needs_creation tw) required"
    and s: "snapshot_ok s" "ts_routes s = targets_for (picked required created (tw_resources tw)) d"
    and routed: "routed (picked required created (tw_resources tw)) d"
  defines "new \<equiv> picked required created (tw_resources tw)"
  shows "watcher_inv (tw\<lparr>tw_world := w, tw_resources := new, tw_pools := install_pools new (tw_pools tw),
     tw_route_descriptions := d, tw_snapshot := s, tw_first_install := True,
     tw_cleanup_tasks := tw_cleanup_tasks tw @ retired_resources (tw_resources tw) new\<rparr>)"
proof -
  note R = require_routes_descriptions [OF req d]
  note I = watcher_invD [OF inv]
  have new: "created_ok new"
    unfolding new_def using select_resources_picked(2) [OF R(1) created I(1) made] R(2) by blast
  have pools: "map_of (install_pools new (tw_pools tw)) i = Some (res_pool r)" if "map_of new i = Some r" for i r
    using map_of_install_pools [of new "tw_pools tw" i] that new by (simp add: created_ok_def)
  have "world_ok (res_ids new @ map res_id (retired_resources (tw_resources tw) new) @ map res_id (tw_cleanup_tasks tw)) w"
    unfolding new_def by (rule installed_world_ok [OF R(1) created I(1) made w])
  then have world: "world_ok (res_ids new @ map res_id (tw_cleanup_tasks tw @ retired_resources (tw_resources tw) new)) w"
    by (rule world_ok_perm) simp
  have "\<forall>r\<in>set (tw_cleanup_tasks tw @ retired_resources (tw_resources tw) new). res_ok r"
    using I(3) created_ok_all [OF I(1)] by (auto simp: retired_resources_def)
  then show ?thesis
    using new pools world s(1,2) routed I(6,8,9) assms(2) d unfolding watcher_inv_def new_def by simp
qed

lemma install_inv:
  assumes inv: "watcher_inv tw" and open': "\<not> tw_closed tw" and d: "descriptions_ok d" and v: "0 \<le> v" "v \<le> uint64_max"
    and run: "install env v d tw = (e, tw')"
  shows "watcher_inv tw' \<and> tw_closed tw' = tw_closed tw \<and> (ts_version (tw_snapshot tw') = ts_version (tw_snapshot tw) \<or> ts_version (tw_snapshot tw') = v)"
proof (cases "require_routes (concat (map snd d)) []")
  case (Inr required)
  note R = require_routes_descriptions [OF Inr d]
  note I = watcher_invD [OF inv]
  obtain out created w where c: "create_missing tw env required [] (tw_world tw) = (out, created, w)" by (metis prod_cases3)
  have "world_ok (res_ids created @ res_ids (tw_resources tw) @ map res_id (tw_cleanup_tasks tw)) w \<and> created_ok created \<and>
     (out = None \<longrightarrow> map (\<lambda>(i, r). (i, res_route r)) created = filter (needs_creation tw) required)"
    using create_missing_ok [OF c, of "res_ids (tw_resources tw) @ map res_id (tw_cleanup_tasks tw)"] I(4) R(1,2)
    by (simp add: created_ok_def dict_ok_def)
  then have w: "world_ok (res_ids created @ res_ids (tw_resources tw) @ map res_id (tw_cleanup_tasks tw)) w" and created: "created_ok created"
    and made: "out = None \<Longrightarrow> map (\<lambda>(i, r). (i, res_route r)) created = filter (needs_creation tw) required" by blast+
  show ?thesis
  proof (cases out)
    case None
    let ?new = "picked required created (tw_resources tw)"
    note made = made [OF None]
    have R2: "\<forall>q\<in>set required. wr_identity (snd q) = fst q" using R(2) by blast
    note sel = select_resources_picked [OF R(1) created I(1) made R2]
    have routed: "routed ?new d"
      unfolding routed_def map_of_picked using R(3) sel(3) by (fastforce intro: rev_image_eqI)
    obtain s where s: "make_topology_snapshot (tw_instance_id tw) v (targets_for ?new d) = Inr s" "snapshot_ok s"
      "ts_routes s = targets_for ?new d" "ts_version s = v"
      by (rule snapshot_of_targets [OF d routed sel(2) I(8,9) v])
    have "tw' = tw\<lparr>tw_world := w, tw_resources := ?new, tw_pools := install_pools ?new (tw_pools tw),
       tw_route_descriptions := d, tw_snapshot := s, tw_first_install := True,
       tw_cleanup_tasks := tw_cleanup_tasks tw @ retired_resources (tw_resources tw) ?new\<rparr>"
      using run by (simp add: install_def Inr c None sel(1) route_targets_routed [OF routed] s(1))
    then show ?thesis using install_done_inv [OF inv open' d Inr w created made s(2,3) routed] s(4) by simp
  next
    case (Some e')
    then have "tw' = tw\<lparr>tw_world := fold close_worker_resources (map snd created) w\<rparr>" using run by (simp add: install_def Inr c)
    then show ?thesis using install_failed_inv [OF inv w created] by simp
  qed
qed (use run inv in \<open>auto simp: install_def\<close>)
section \<open>Every step keeps the invariant and the version\<close>

lemma consume_ok:
  assumes "consume message iv ir a = (r, a')" and "wire_message message" and "pending_in_range a" and "descriptions_ok ir"
  shows "pending_in_range a'" and "r = Inr (Some (v, d)) \<Longrightarrow> 0 \<le> v \<and> v \<le> uint64_max \<and> iv \<le> v \<and> descriptions_ok d"
proof -
  have range: "entries_in_range (part_entries part)" if "wire_part part" for part
    using that by (auto simp: wire_part_def entries_in_range_def key_in_range_def wire_key_def)
  have part: "pending_in_range b' \<and> (q = Inr (Some (v, d)) \<longrightarrow> 0 \<le> v \<and> v \<le> uint64_max \<and> iv \<le> v \<and> descriptions_ok d)"
    if "consume_part kind previous part iv ir a = (q, b')" "wire_part part" for kind previous part q b'
    using consume_part_ok [OF that(1) assms(3) range [OF that(2)] assms(4)] that(2) by (auto simp: wire_part_def)
  have "pending_in_range a' \<and> (r = Inr (Some (v, d)) \<longrightarrow> 0 \<le> v \<and> v \<le> uint64_max \<and> iv \<le> v \<and> descriptions_ok d)"
    using assms(1-3) part by (cases message) (auto simp: consume_def split: if_splits)
  then show "pending_in_range a'" "r = Inr (Some (v, d)) \<Longrightarrow> 0 \<le> v \<and> v \<le> uint64_max \<and> iv \<le> v \<and> descriptions_ok d" by blast+
qed

lemma watcher_inv_flags:
  assumes "watcher_inv tw" and "\<not> tw_closed tw"
  shows "watcher_inv (tw\<lparr>tw_watching := b\<rparr>)" and "watcher_inv (tw\<lparr>tw_failure := f, tw_first_install := True, tw_watching := b\<rparr>)"
    and "pending_in_range messages \<Longrightarrow> watcher_inv (tw\<lparr>tw_messages := messages\<rparr>)" and "watcher_inv (tw\<lparr>tw_started := c, tw_watching := b\<rparr>)"
  using assms by (simp_all add: watcher_inv_def)

lemma stream_ended_inv:
  assumes "watcher_inv tw" and "\<not> tw_closed tw"
  shows "watcher_inv (watch_stream_ended tw) \<and> tw_snapshot (watch_stream_ended tw) = tw_snapshot tw"
  using watcher_inv_flags [OF assms] by (simp add: watch_stream_ended_def discard_incomplete_def pending_in_range_def)

lemma consume_message_inv:
  assumes inv: "watcher_inv tw" and open': "\<not> tw_closed tw" and m: "wire_message message" and run: "consume_message env message tw = (e, tw')"
  shows "watcher_inv tw' \<and> tw_closed tw' = tw_closed tw \<and> ts_version (tw_snapshot tw) \<le> ts_version (tw_snapshot tw')"
proof -
  note I = watcher_invD [OF inv]
  obtain r a' where c: "consume message (ts_version (tw_snapshot tw)) (tw_route_descriptions tw) (tw_messages tw) = (r, a')" by fastforce
  note ok = consume_ok [OF c m I(6,5)]
  let ?tw = "tw\<lparr>tw_messages := a'\<rparr>"
  have inv': "watcher_inv ?tw" using watcher_inv_flags(3) [OF inv open' ok(1)] .
  show ?thesis
  proof (cases "\<exists>v d. r = Inr (Some (v, d))")
    case True
    then obtain v d where r: "r = Inr (Some (v, d))" by blast
    then have i: "install env v d ?tw = (e, tw')" using run by (simp add: consume_message_def c)
    show ?thesis using install_inv [OF inv' _ _ _ _ i] ok(2) [OF r] open' by auto
  next
    case False
    then have "tw' = ?tw" using run by (auto simp: consume_message_def c split: sum.splits option.splits)
    then show ?thesis using inv' by simp
  qed
qed

lemma watch_message_inv:
  assumes "watcher_inv tw" and "\<not> tw_closed tw" and "wire_message message"
  shows "watcher_inv (watch_message env message tw) \<and> ts_version (tw_snapshot tw) \<le> ts_version (tw_snapshot (watch_message env message tw))"
proof -
  obtain e tw' where run: "consume_message env message tw = (e, tw')" by fastforce
  note c = consume_message_inv [OF assms run]
  then have "\<not> tw_closed tw'" using assms(2) by simp
  note flags = watcher_inv_flags [OF conjunct1 [OF c] this] stream_ended_inv [OF conjunct1 [OF c] this]
  show ?thesis using c flags by (cases e) (auto simp: watch_message_def run)
qed

lemma retire_inv:
  assumes inv: "watcher_inv tw" and r: "r \<in> set (tw_cleanup_tasks tw)"
  shows "watcher_inv (retire_worker_resources r close_raises tw)"
proof -
  note I = watcher_invD [OF inv]
  let ?w = "close_worker_resources r (tw_world tw)" and ?c = "remove1 r (tw_cleanup_tasks tw)"
  have dist: "distinct (map res_id (tw_cleanup_tasks tw))" "set (res_ids (tw_resources tw)) \<inter> set (map res_id (tw_cleanup_tasks tw)) = {}"
    using I(4) by (simp_all only: world_ok_def distinct_append)
  have rok: "res_ok r" using I(3) r by blast
  have old: "res_id q \<noteq> res_id r" if "map_of (tw_resources tw) i = Some q" for i q
    using map_of_SomeD [OF that] dist(2) r by force
  have "removeAll (res_id r) (res_ids (tw_resources tw) @ map res_id (tw_cleanup_tasks tw)) = res_ids (tw_resources tw) @ map res_id ?c"
  proof -
    have "removeAll (res_id r) (res_ids (tw_resources tw)) = res_ids (tw_resources tw)" using dist(2) r by (intro removeAll_id) force
    moreover have "removeAll (res_id r) (map res_id xs) = map res_id (remove1 r xs)" if "distinct (map res_id xs)" "r \<in> set xs" for xs
      using that by (induction xs) (auto simp: removeAll_id image_iff)
    ultimately show ?thesis using dist(1) r by simp
  qed
  then have world: "world_ok (res_ids (tw_resources tw) @ map res_id ?c) ?w" using close_worker_resources_ok [OF I(4) rok] by simp
  have base: "watcher_inv (tw\<lparr>tw_world := ?w, tw_cleanup_tasks := ?c\<rparr>)"
    using inv world I(3) r by (auto simp: watcher_inv_def dest: notin_set_remove1)
  have "watcher_inv (tw\<lparr>tw_world := ?w, tw_cleanup_tasks := ?c, tw_pools := AList.delete (wr_identity (res_route r)) (tw_pools tw)\<rparr>)"
    if p: "map_of (tw_pools tw) (wr_identity (res_route r)) = Some (res_pool r)"
  proof -
    have "i \<noteq> wr_identity (res_route r)" if "map_of (tw_resources tw) i = Some q" for i q
      using I(2) [OF that] p old [OF that] rok created_okD [OF I(1) that] by (auto simp: res_ok_def)
    then show ?thesis using base I(2) unfolding watcher_inv_def by auto
  qed
  then show ?thesis using base by (auto simp: retire_worker_resources_def Let_def)
qed

lemma close_finished_inv:
  assumes inv: "watcher_inv tw" and "tw_closing tw" and "\<not> tw_watching tw" and "tw_cleanup_tasks tw = []"
  shows "watcher_inv (close_finished tw)"
proof -
  note I = watcher_invD [OF inv]
  have "world_ok (filter (\<lambda>i. i \<notin> res_id ` set (map snd (tw_resources tw))) (res_ids (tw_resources tw)))
     (fold close_worker_resources (map snd (tw_resources tw)) (tw_world tw))"
    by (rule close_all_ok) (use I(4) assms(4) created_ok_all [OF I(1)] in auto)
  moreover have "filter (\<lambda>i. i \<notin> res_id ` set (map snd (tw_resources tw))) (res_ids (tw_resources tw)) = []"
    by (intro filter_False) auto
  ultimately have "world_ok [] (fold close_worker_resources (map snd (tw_resources tw)) (tw_world tw))" by simp
  then show ?thesis using assms I(5-9) by (simp add: watcher_inv_def close_finished_def created_ok_def dict_ok_def)
qed

lemma watcher_step_inv:
  assumes "watcher_step tw tw'" and inv: "watcher_inv tw"
  shows "watcher_inv tw' \<and> ts_version (tw_snapshot tw) \<le> ts_version (tw_snapshot tw')"
  using assms(1)
proof cases
  case (watcher_step_start deadline now)
  then show ?thesis using inv watcher_inv_flags(4) [OF inv, of True True] watcher_invD(12) [OF inv]
    by (auto simp: watcher_start_def)
next
  case (watcher_step_message message env)
  then show ?thesis using watch_message_inv [OF inv] watcher_invD(12) [OF inv] by auto
next
  case watcher_step_stream
  then have "\<not> tw_closed tw" using watcher_invD(12) [OF inv] by blast
  then show ?thesis using stream_ended_inv [OF inv] watcher_step_stream(1) by simp
next
  case (watcher_step_retire r close_raises)
  then show ?thesis using retire_inv [OF inv] by (auto simp: retire_worker_resources_def Let_def)
next
  case (watcher_step_start_wait timed_out)
  then show ?thesis using inv by (auto simp: start_wait_ended_def watcher_close_def watcher_inv_def)
next
  case watcher_step_close
  then show ?thesis using inv by (auto simp: watcher_close_def watcher_inv_def)
next
  case watcher_step_cancelled
  then show ?thesis using inv by (auto simp: close_watch_ended_def watcher_inv_def)
next
  case watcher_step_finish
  then show ?thesis using close_finished_inv [OF inv] by (simp add: close_finished_def)
qed

lemma watcher_init_inv: "watcher_init tw \<Longrightarrow> watcher_inv tw"
proof -
  assume "watcher_init tw"
  then obtain s where s: "make_topology_snapshot (tw_instance_id tw) 0 [] = Inr s" "tw_snapshot tw = s" "tw_route_descriptions tw = []" "tw_resources tw = []"
    "tw_pools tw = []" "ma_pending (tw_messages tw) = None" "tw_cleanup_tasks tw = []" "\<not> tw_closed tw" "tw_world tw = \<lparr>w_next = 0, w_open_transports = [], w_open_pools = []\<rparr>"
    by (auto simp: watcher_init_def ControllerTopologyWatcher_def TopologyMessageAssembler_def)
  have "snapshot_ok s" "ts_routes s = []" "ts_instance_id s = tw_instance_id tw" using make_topology_snapshot_Inr [OF s(1)] by simp_all
  then show ?thesis using s(2-) by (auto simp: watcher_inv_def created_ok_def dict_ok_def world_ok_def descriptions_ok_def
        pending_in_range_def routed_def targets_for_def snapshot_ok_def)
qed

interpretation watcher: invariant_system watcher_init watcher_step watcher_inv
  by unfold_locales (auto intro: watcher_init_inv dest: watcher_step_inv)
lemma watcher_path_inv:
  assumes "watcher_step\<^sup>*\<^sup>* tw tw'" and "watcher_inv tw"
  shows "watcher_inv tw' \<and> ts_version (tw_snapshot tw) \<le> ts_version (tw_snapshot tw')"
  using assms
proof (induction rule: rtranclp_induct)
  case (step tw1 tw2)
  then show ?case using watcher_step_inv [OF step(2)] by force
qed simp

lemma routed_target_open:
  assumes inv: "watcher_inv tw" and "\<not> tw_closed tw" and "map_of (ts_routes (tw_snapshot tw)) key = Some targets" and "t \<in> set targets"
  shows "\<exists>r. map_of (tw_resources tw) (wc_identity t) = Some r \<and> t = res_target r \<and> wc_transport t = res_id r \<and>
     map_of (tw_pools tw) (wc_identity t) = Some (res_id r)"
proof -
  note I = watcher_invD [OF inv]
  from map_of_SomeD [OF assms(3)] I(11) [OF assms(2)] obtain p where p: "p \<in> set (tw_route_descriptions tw)"
    and ts: "targets = map (\<lambda>route. res_target (the (map_of (tw_resources tw) (wr_identity route)))) (snd p)"
    by (auto simp: targets_for_def)
  with assms(4) obtain route where route: "route \<in> set (snd p)" "t = res_target (the (map_of (tw_resources tw) (wr_identity route)))" by auto
  obtain r where r: "map_of (tw_resources tw) (wr_identity route) = Some r" "res_route r = route"
    using I(10) [OF assms(2)] p route(1) unfolding routed_def by blast
  then have "res_ok r" using created_okD [OF I(1) r(1)] by blast
  moreover have "t = res_target r" using route(2) r(1) by simp
  ultimately show ?thesis using r I(2) [OF r(1)] by (auto simp: res_ok_def)
qed

text \<open>
  C30. The watcher never routes to a connection that is closed or being retired, and leaks none. In every
  reachable state the snapshot it hands out is well-formed; until it is closed, each Worker of a route
  has an open Transport that is not among those being retired and an open pool in the live mapping.
  The open Transports and pools are exactly those of the installed and the retiring connections,
  whatever creation failed, disconnected or was cancelled, and none after closing. The installed
  version never decreases.
\<close>

theorem watcher_connections:
  assumes "reachable watcher_init watcher_step tw" and "watcher_step\<^sup>*\<^sup>* tw tw'"
  shows "ts_version (tw_snapshot tw) \<le> ts_version (tw_snapshot tw') \<and> snapshot_ok (tw_snapshot tw') \<and>
     set (w_open_transports (tw_world tw')) = res_id ` (set (map snd (tw_resources tw')) \<union> set (tw_cleanup_tasks tw')) \<and>
     set (w_open_pools (tw_world tw')) = res_id ` (set (map snd (tw_resources tw')) \<union> set (tw_cleanup_tasks tw')) \<and>
     (\<forall>key targets t. \<not> tw_closed tw' \<longrightarrow> map_of (ts_routes (tw_snapshot tw')) key = Some targets \<longrightarrow> t \<in> set targets \<longrightarrow>
        wc_transport t \<in> set (w_open_transports (tw_world tw')) - res_id ` set (tw_cleanup_tasks tw') \<and>
        (\<exists>p\<in>set (w_open_pools (tw_world tw')). map_of (tw_pools tw') (wc_identity t) = Some p)) \<and>
     (tw_closed tw' \<longrightarrow> w_open_transports (tw_world tw') = [] \<and> w_open_pools (tw_world tw') = [])"
proof -
  have inv: "watcher_inv tw'" and version: "ts_version (tw_snapshot tw) \<le> ts_version (tw_snapshot tw')"
    using watcher_path_inv [OF assms(2) watcher.reachable_inv [OF assms(1)]] by blast+
  note I = watcher_invD [OF inv]
  let ?ids = "set (res_ids (tw_resources tw') @ map res_id (tw_cleanup_tasks tw'))"
  have ids: "?ids = res_id ` (set (map snd (tw_resources tw')) \<union> set (tw_cleanup_tasks tw'))" by (auto simp: image_Un image_image)
  have world: "set (w_open_transports (tw_world tw')) = ?ids" "set (w_open_pools (tw_world tw')) = ?ids"
    "set (res_ids (tw_resources tw')) \<inter> set (map res_id (tw_cleanup_tasks tw')) = {}"
    using I(4) by (simp_all add: world_ok_def)
  have "wc_transport t \<in> ?ids - res_id ` set (tw_cleanup_tasks tw') \<and> (\<exists>p\<in>?ids. map_of (tw_pools tw') (wc_identity t) = Some p)"
    if t: "\<not> tw_closed tw'" "map_of (ts_routes (tw_snapshot tw')) key = Some targets" "t \<in> set targets" for key targets t
  proof -
    obtain r where r: "map_of (tw_resources tw') (wc_identity t) = Some r" "wc_transport t = res_id r" "map_of (tw_pools tw') (wc_identity t) = Some (res_id r)"
      using routed_target_open [OF inv t] by blast
    have "res_id r \<in> set (res_ids (tw_resources tw'))" using map_of_SomeD [OF r(1)] by force
    then show ?thesis using r(2,3) world(3) by auto
  qed
  moreover have "w_open_transports (tw_world tw') = [] \<and> w_open_pools (tw_world tw') = []" if "tw_closed tw'"
    using world(1,2) I(12) [OF that] by simp
  ultimately show ?thesis using version I(7) world(1,2) unfolding ids by blast
qed

definition ex_creation :: creation where
  "ex_creation = \<lparr>cr_transport = None, cr_pool = None, cr_start = None\<rparr>"

definition ex_watcher :: watcher where
  "ex_watcher = \<lparr>tw_instance_id = 5, tw_hidden_dim = 8, tw_dtype = BFloat16, tw_device = ''cpu'', tw_accelerator = False,
     tw_snapshot = \<lparr>ts_instance_id = 5, ts_version = 0, ts_routes = [], ts_routes_by_layer = []\<rparr>, tw_route_descriptions = [],
     tw_resources = [], tw_pools = [], tw_messages = TopologyMessageAssembler 5 2 64, tw_watching = False, tw_started = False,
     tw_cleanup_tasks = [], tw_first_install = False, tw_failure = None, tw_closing = False, tw_closed = False,
     tw_world = \<lparr>w_next = 0, w_open_transports = [], w_open_pools = []\<rparr>\<rparr>"

definition ex_snapshot_message :: "int \<Rightarrow> string list \<Rightarrow> topology_message" where
  "ex_snapshot_message version names = Snapshot_Message \<lparr>part_instance_id = 5, part_topology_version = version, part_index = 0, part_count = 1,
     part_entries = [\<lparr>wire_layer_id = 0, wire_expert_id = 1, wire_replicas = map ex_replica names\<rparr>]\<rparr>"

definition ex_started :: watcher where "ex_started = snd (watcher_start 10 3 ex_watcher)"
definition ex_first :: watcher where "ex_first = watch_message (\<lambda>_. ex_creation) (ex_snapshot_message 4 [''w1'', ''w2'']) ex_started"
definition ex_second :: watcher where "ex_second = watch_message (\<lambda>_. ex_creation) (ex_snapshot_message 6 [''w2'', ''w3'']) ex_first"

theorem watcher_connections_witness:
  "ts_version (tw_snapshot ex_first) \<le> ts_version (tw_snapshot ex_second) \<and> tw_failure ex_second = None \<and>
   map res_id (tw_cleanup_tasks ex_second) = [0] \<and> set (w_open_transports (tw_world ex_second)) = {0, 1, 2} \<and>
   (\<exists>t p. map_of (ts_routes (tw_snapshot ex_second)) (0, 1) = Some [t, p] \<and>
      wc_transport t \<in> set (w_open_transports (tw_world ex_second)) - {0} \<and> map_of (tw_pools ex_second) (wc_identity t) = Some 1)"
proof -
  have "ControllerTopologyWatcher ''host:1'' 5 2 64 8 2 BFloat16 ''cpu'' False 1 = Inr ex_watcher" by code_simp
  then have "reachable watcher_init watcher_step ex_watcher" by (intro reach_init) (unfold watcher_init_def, blast)
  then have "reachable watcher_init watcher_step ex_started" unfolding ex_started_def by (rule reach_step) (rule watcher_step_start)
  moreover have "watcher_step ex_started ex_first" unfolding ex_first_def by (rule watcher_step_message) code_simp+
  ultimately have r: "reachable watcher_init watcher_step ex_first" by (rule reach_step)
  have "watcher_step ex_first ex_second" unfolding ex_second_def by (rule watcher_step_message) code_simp+
  note conn = watcher_connections [OF r r_into_rtranclp [of watcher_step, OF this]]
  have state: "tw_failure ex_second = None \<and> map res_id (tw_cleanup_tasks ex_second) = [0] \<and> res_ids (tw_resources ex_second) = [1, 2] \<and> \<not> tw_closed ex_second" by code_simp
  have routes: "(case map_of (ts_routes (tw_snapshot ex_second)) (0, 1) of Some [t, p] \<Rightarrow> map_of (tw_pools ex_second) (wc_identity t) = Some 1 | _ \<Rightarrow> False)" by code_simp
  then obtain t p where tp: "map_of (ts_routes (tw_snapshot ex_second)) (0, 1) = Some [t, p]" "map_of (tw_pools ex_second) (wc_identity t) = Some 1"
    by (auto split: option.splits list.splits)
  have c: "res_id ` set (tw_cleanup_tasks ex_second) = {0}" "res_id ` set (map snd (tw_resources ex_second)) = {1, 2}"
    using state by (simp_all flip: set_map add: comp_def)
  have "wc_transport t \<in> set (w_open_transports (tw_world ex_second)) - {0}" using conn tp(1) state c(1) by fastforce
  moreover have "set (w_open_transports (tw_world ex_second)) = {0, 1, 2}" using conn c unfolding image_Un by auto
  ultimately show ?thesis using conn state tp by blast
qed

end
