(* ===== verification/Worker_Limits.thy ===== *)
theory Worker_Limits
  imports Batches
begin

text \<open>
  Startup limits of a Worker: \<open>ek-worker/src/expertkit_worker/config/resources.py\<close> (the device memory
  plan), the dataclasses of \<open>ek-worker/src/expertkit_worker/backends/base.py\<close> (backend batch, declared
  capabilities, resource estimate) and the endpoint and buffer configurations of
  \<open>ek-transport/src/expertkit_transport/transports/base.py\<close>. A dataclass is a record with its
  \<open>__post_init__\<close>; \<open>is_contiguous()\<close> of a Tensor is a field of the batch record.
\<close>

section \<open>Backend contract\<close>

definition require_positive_integer :: "string \<Rightarrow> int \<Rightarrow> (bool \<times> exn) list" where
  "require_positive_integer name value = [(value \<le> 0, ValueError (name @ '' must be a positive integer''))]"

definition require_optional_positive_integer :: "string \<Rightarrow> int option \<Rightarrow> (bool \<times> exn) list" where
  "require_optional_positive_integer name value =
     (case value of None \<Rightarrow> [] | Some v \<Rightarrow> require_positive_integer name v)"

record 'f backend_batch =
  bb_layer_id :: int
  bb_hidden_states :: "'f matrix tensor"
  bb_expert_ids :: "int matrix tensor"
  bb_routing_weights :: "'f matrix tensor"
  bb_distinct_expert_ids :: "int list"
  bb_hidden_contiguous :: bool
  bb_ids_contiguous :: bool
  bb_weights_contiguous :: bool

definition bb_token_count :: "'f backend_batch \<Rightarrow> nat" where
  "bb_token_count b = dim0 (bb_hidden_states b)"

definition backend_batch_post_init :: "'f backend_batch \<Rightarrow> exn option" where
  "backend_batch_post_init b =
     (let hidden = bb_hidden_states b; ids = bb_expert_ids b; weights = bb_routing_weights b
      in case raise_first
        [(\<not> (0 \<le> bb_layer_id b \<and> bb_layer_id b \<le> uint32_max), ValueError ''layer_id must be an integer in range''),
         (ndim hidden \<noteq> 2 \<or> dim0 hidden = 0 \<or> dim1 hidden = 0,
            ValueError ''hidden_states must have positive shape [token_count, hidden_dim]''),
         (t_dtype hidden \<notin> set ACTIVATION_DTYPES, ValueError ''hidden_states must use FP16, BF16, or FP32''),
         (\<not> bb_hidden_contiguous b, ValueError ''hidden_states must be contiguous''),
         (ndim ids \<noteq> 2 \<or> dim0 ids \<noteq> bb_token_count b, ValueError ''expert_ids must have shape [token_count, top_k]''),
         (dim1 ids = 0, ValueError ''top_k must be positive''),
         (t_dtype ids \<noteq> Int32, ValueError ''expert_ids must use int32''),
         (t_device ids \<noteq> t_device hidden, ValueError ''expert_ids and hidden_states must be on the same device''),
         (\<not> bb_ids_contiguous b, ValueError ''expert_ids must be contiguous''),
         (t_shape weights \<noteq> t_shape ids, ValueError ''routing_weights must have the same shape as expert_ids''),
         (t_dtype weights \<noteq> Float32, ValueError ''routing_weights must use FP32''),
         (t_device weights \<noteq> t_device hidden, ValueError ''routing_weights and hidden_states must be on the same device''),
         (\<not> bb_weights_contiguous b, ValueError ''routing_weights must be contiguous'')]
      of Some e \<Rightarrow> Some e
       | None \<Rightarrow> validate_distinct_expert_ids (- 1) (bb_distinct_expert_ids b))"

record backend_capabilities =
  bc_supports_dynamic_tokens :: bool
  bc_supports_concurrent_batches :: bool
  bc_required_assignment_alignment :: int
  bc_max_batch_tokens :: "int option"
  bc_max_assignments_per_batch :: "int option"
  bc_supported_token_profiles :: "int list"

fun check_profiles :: "int \<Rightarrow> int list \<Rightarrow> exn option" where
  "check_profiles previous [] = None"
| "check_profiles previous (profile # rest) =
     (case raise_first (require_positive_integer ''supported token profile'' profile @
        [(profile \<le> previous, ValueError ''supported_token_profiles must be sorted with no duplicates'')])
      of Some e \<Rightarrow> Some e | None \<Rightarrow> check_profiles profile rest)"

definition backend_capabilities_post_init :: "backend_capabilities \<Rightarrow> exn option" where
  "backend_capabilities_post_init c =
     (case raise_first
        (require_positive_integer ''required_assignment_alignment'' (bc_required_assignment_alignment c) @
         require_optional_positive_integer ''max_batch_tokens'' (bc_max_batch_tokens c) @
         require_optional_positive_integer ''max_assignments_per_batch'' (bc_max_assignments_per_batch c))
      of Some e \<Rightarrow> Some e
       | None \<Rightarrow>
          (case check_profiles 0 (bc_supported_token_profiles c) of
             Some e \<Rightarrow> Some e
           | None \<Rightarrow>
              if \<not> bc_supports_dynamic_tokens c \<and> bc_supported_token_profiles c = []
              then Some (ValueError ''a fixed-token Backend must declare supported_token_profiles'') else None))"

definition validate_runtime :: "backend_capabilities \<Rightarrow> int \<Rightarrow> int \<Rightarrow> exn option" where
  "validate_runtime c max_batch_tokens active_batches =
     raise_first
       (require_positive_integer ''max_batch_tokens'' max_batch_tokens @
        require_positive_integer ''active_batches'' active_batches @
        [(case bc_max_batch_tokens c of None \<Rightarrow> False | Some m \<Rightarrow> max_batch_tokens > m,
            ValueError ''worker.max_batch_tokens exceeds the Backend capability''),
         (active_batches > 1 \<and> \<not> bc_supports_concurrent_batches c,
            ValueError ''the Backend does not support concurrent active batches''),
         (\<not> bc_supports_dynamic_tokens c \<and> max_batch_tokens > last (bc_supported_token_profiles c),
            ValueError ''worker.max_batch_tokens exceeds the largest Backend token profile'')])"

record backend_resource_estimate =
  be_temporary_bytes_per_active_batch :: int
  be_shared_temporary_bytes :: int

definition backend_resource_estimate_post_init :: "backend_resource_estimate \<Rightarrow> exn option" where
  "backend_resource_estimate_post_init e =
     raise_first
       [(be_temporary_bytes_per_active_batch e < 0, ValueError ''temporary_bytes_per_active_batch must be a nonnegative integer''),
        (be_shared_temporary_bytes e < 0, ValueError ''shared_temporary_bytes must be a nonnegative integer'')]"

definition total_bytes :: "backend_resource_estimate \<Rightarrow> int \<Rightarrow> exn + int" where
  "total_bytes e active_batches =
     after (raise_first (require_positive_integer ''active_batches'' active_batches))
       (Inr (be_shared_temporary_bytes e + be_temporary_bytes_per_active_batch e * active_batches))"

section \<open>The device memory plan\<close>

definition MINIMUM_ALLOCATOR_HEADROOM_BYTES :: int where
  "MINIMUM_ALLOCATOR_HEADROOM_BYTES = 512 * 1024 * 1024"

definition require_nonnegative_integer :: "string \<Rightarrow> int \<Rightarrow> (bool \<times> exn) list" where
  "require_nonnegative_integer name value = [(value < 0, ValueError (name @ '' must be a nonnegative integer''))]"

record device_resource_plan =
  dp_device_memory_limit_bytes :: int
  dp_fixed_slot_bytes :: int
  dp_backend_temporary_bytes :: int
  dp_conversion_temporary_bytes :: int
  dp_allocator_headroom_bytes :: int
  dp_weight_capacity_bytes :: int

definition runtime_reserve_bytes :: "device_resource_plan \<Rightarrow> int" where
  "runtime_reserve_bytes p =
     dp_fixed_slot_bytes p + dp_backend_temporary_bytes p + dp_conversion_temporary_bytes p + dp_allocator_headroom_bytes p"

definition bytes_to_allocate_after_fixed_slots :: "device_resource_plan \<Rightarrow> int" where
  "bytes_to_allocate_after_fixed_slots p = dp_device_memory_limit_bytes p - dp_fixed_slot_bytes p"

definition plan_device_resources ::
  "int \<Rightarrow> int \<Rightarrow> backend_resource_estimate \<Rightarrow> int \<Rightarrow> int \<Rightarrow> exn + device_resource_plan" where
  "plan_device_resources device_memory_limit_bytes fixed_slot_bytes backend_estimate active_batches conversion_temporary_bytes =
     after (raise_first
       (require_positive_integer ''device_memory_limit_bytes'' device_memory_limit_bytes @
        require_nonnegative_integer ''fixed_slot_bytes'' fixed_slot_bytes @
        require_positive_integer ''active_batches'' active_batches @
        require_nonnegative_integer ''conversion_temporary_bytes'' conversion_temporary_bytes))
      (rbind (total_bytes backend_estimate active_batches) (\<lambda>backend_temporary_bytes.
        let allocator_headroom_bytes = max (device_memory_limit_bytes div 10) MINIMUM_ALLOCATOR_HEADROOM_BYTES;
            reserve = fixed_slot_bytes + backend_temporary_bytes + conversion_temporary_bytes + allocator_headroom_bytes;
            weight_capacity_bytes = device_memory_limit_bytes - reserve
        in if weight_capacity_bytes \<le> 0
           then Inl (ValueError ''device_memory_limit cannot fit runtime reserve and expert weights'')
           else Inr \<lparr>dp_device_memory_limit_bytes = device_memory_limit_bytes, dp_fixed_slot_bytes = fixed_slot_bytes,
                     dp_backend_temporary_bytes = backend_temporary_bytes,
                     dp_conversion_temporary_bytes = conversion_temporary_bytes,
                     dp_allocator_headroom_bytes = allocator_headroom_bytes,
                     dp_weight_capacity_bytes = weight_capacity_bytes\<rparr>))"

definition validate_available_device_memory :: "device_resource_plan \<Rightarrow> int \<Rightarrow> exn option" where
  "validate_available_device_memory plan available_bytes_after_fixed_slots =
     raise_first
       (require_nonnegative_integer ''available_bytes_after_fixed_slots'' available_bytes_after_fixed_slots @
        [(available_bytes_after_fixed_slots < bytes_to_allocate_after_fixed_slots plan,
            ValueError ''available device memory is smaller than the configured post-allocation plan'')])"

section \<open>Endpoint and slot configuration\<close>

definition require_positive_unsigned :: "string \<Rightarrow> int \<Rightarrow> int \<Rightarrow> (bool \<times> exn) list" where
  "require_positive_unsigned name value maximum =
     [(\<not> (0 < value \<and> value \<le> maximum), ValueError (name @ '' must be a positive integer no larger than its maximum''))]"

record worker_endpoint_config =
  we_instance_id :: int
  we_num_layers :: int
  we_experts_per_layer :: int
  we_max_batch_tokens :: int
  we_hidden_dim :: int
  we_top_k :: int
  we_dtype :: dtype

definition worker_endpoint_config_post_init :: "worker_endpoint_config \<Rightarrow> exn option" where
  "worker_endpoint_config_post_init c =
     raise_first
       (require_positive_unsigned ''instance_id'' (we_instance_id c) uint64_max @
        require_positive_unsigned ''num_layers'' (we_num_layers c) uint32_max @
        require_positive_unsigned ''experts_per_layer'' (we_experts_per_layer c) uint32_max @
        require_positive_unsigned ''max_batch_tokens'' (we_max_batch_tokens c) uint32_max @
        require_positive_unsigned ''hidden_dim'' (we_hidden_dim c) uint32_max @
        require_positive_unsigned ''top_k'' (we_top_k c) uint32_max @
        [(we_top_k c > we_experts_per_layer c, ValueError ''top_k must not exceed experts_per_layer''),
         (we_dtype c \<notin> {Float16, BFloat16, Float32}, ValueError ''dtype must be FP16, BF16, or FP32'')])"

fun element_size :: "dtype \<Rightarrow> int" where
  "element_size Float16 = 2"
| "element_size BFloat16 = 2"
| "element_size Float32 = 4"
| "element_size Float64 = 8"
| "element_size Int8 = 1"
| "element_size Int16 = 2"
| "element_size Int32 = 4"
| "element_size Int64 = 8"
| "element_size UInt8 = 1"
| "element_size UInt16 = 2"
| "element_size UInt32 = 4"
| "element_size UInt64 = 8"
| "element_size BoolD = 1"

definition activation_element_bytes :: "worker_endpoint_config \<Rightarrow> int" where
  "activation_element_bytes c = element_size (we_dtype c)"

record batch_buffer_config =
  bf_max_batch_tokens :: int
  bf_hidden_dim :: int
  bf_top_k :: int
  bf_dtype :: dtype
  bf_device_type :: string

definition batch_buffer_config_post_init :: "batch_buffer_config \<Rightarrow> exn option" where
  "batch_buffer_config_post_init c =
     raise_first
       (require_positive_integer ''max_batch_tokens'' (bf_max_batch_tokens c) @
        require_positive_integer ''hidden_dim'' (bf_hidden_dim c) @
        require_positive_integer ''top_k'' (bf_top_k c) @
        [(bf_dtype c \<notin> {Float16, BFloat16, Float32}, ValueError ''dtype must be FP16, BF16, or FP32''),
         (bf_device_type c \<notin> {''cpu'', ''cuda'', ''npu''}, ValueError ''batch buffer device must be CPU, CUDA, or NPU'')])"

lemmas limit_checks = require_positive_integer_def require_nonnegative_integer_def require_positive_unsigned_def
  require_optional_positive_integer_def

section \<open>Properties\<close>

lemma plan_device_resources_Inr:
  assumes "plan_device_resources limit fixed est active conv = Inr p"
  shows "0 < limit \<and> 0 \<le> fixed \<and> 0 < active \<and> 0 \<le> conv \<and> dp_device_memory_limit_bytes p = limit \<and>
     dp_fixed_slot_bytes p = fixed \<and> dp_conversion_temporary_bytes p = conv \<and>
     total_bytes est active = Inr (dp_backend_temporary_bytes p) \<and>
     dp_allocator_headroom_bytes p = max (limit div 10) MINIMUM_ALLOCATOR_HEADROOM_BYTES \<and>
     0 < dp_weight_capacity_bytes p \<and> dp_weight_capacity_bytes p + runtime_reserve_bytes p = limit"
  using assms by (auto simp: plan_device_resources_def limit_checks Let_def runtime_reserve_bytes_def total_bytes_def split: if_splits)

text \<open>
  C22. The memory plan is safe: when startup accepts a plan and the available memory check passes,
  every expert that fits the derived weight capacity, the worst-case temporary memory of all active
  batches, one weight conversion and an allocator headroom of at least a tenth of the limit and 512 MiB
  fit together into the memory available after the fixed slots, and with the slots into the limit.
\<close>

theorem device_plan_fits:
  assumes "plan_device_resources limit fixed est active conv = Inr p"
    and "validate_available_device_memory p available = None" and "0 < ready_bytes"
  shows "dp_weight_capacity_bytes p div ready_bytes * ready_bytes +
       (be_shared_temporary_bytes est + be_temporary_bytes_per_active_batch est * active) + conv +
       max (limit div 10) (512 * 1024 * 1024) \<le> available \<and>
     0 < dp_weight_capacity_bytes p \<and> dp_weight_capacity_bytes p + runtime_reserve_bytes p = limit"
proof -
  note I = plan_device_resources_Inr [OF assms(1)]
  have avail: "limit - fixed \<le> available"
    using assms(2) I by (simp add: validate_available_device_memory_def bytes_to_allocate_after_fixed_slots_def limit_checks)
  have tot: "dp_backend_temporary_bytes p = be_shared_temporary_bytes est + be_temporary_bytes_per_active_batch est * active"
    using I by (simp add: total_bytes_def)
  have "dp_weight_capacity_bytes p div ready_bytes * ready_bytes \<le> dp_weight_capacity_bytes p"
    by (rule int_div_mult_le [OF assms(3)])
  with I avail tot show ?thesis
    unfolding runtime_reserve_bytes_def MINIMUM_ALLOCATOR_HEADROOM_BYTES_def by linarith
qed

definition ex_estimate :: backend_resource_estimate where
  "ex_estimate = \<lparr>be_temporary_bytes_per_active_batch = 1000, be_shared_temporary_bytes = 24\<rparr>"

definition ex_plan :: device_resource_plan where
  "ex_plan = \<lparr>dp_device_memory_limit_bytes = 1073741824, dp_fixed_slot_bytes = 4096, dp_backend_temporary_bytes = 2024,
     dp_conversion_temporary_bytes = 500, dp_allocator_headroom_bytes = 536870912, dp_weight_capacity_bytes = 536864292\<rparr>"

theorem device_plan_fits_witness:
  "plan_device_resources 1073741824 4096 ex_estimate 2 500 = Inr ex_plan \<and>
   dp_weight_capacity_bytes ex_plan div 1000 * 1000 + (24 + 1000 * 2) + 500 + max (1073741824 div 10) (512 * 1024 * 1024) \<le> 1073737728"
proof -
  have p: "plan_device_resources 1073741824 4096 ex_estimate 2 500 = Inr ex_plan"
    by (simp add: plan_device_resources_def limit_checks total_bytes_def ex_estimate_def ex_plan_def Let_def
        MINIMUM_ALLOCATOR_HEADROOM_BYTES_def)
  have a: "validate_available_device_memory ex_plan 1073737728 = None"
    by (simp add: validate_available_device_memory_def limit_checks bytes_to_allocate_after_fixed_slots_def ex_plan_def)
  show ?thesis using p device_plan_fits [OF p a, of 1000] by (simp add: ex_estimate_def)
qed

end
