(* ===== verification/Shm_Layout.thy ===== *)
theory Shm_Layout
  imports Worker_Limits
begin

text \<open>
  \<open>ek-transport/src/expertkit_transport/transports/shm/memory.py\<close>: the layout of a shared-memory segment,
  the checks before a segment is opened, and the life of a mapped region. The page size of the
  operating system is the parameter \<open>page\<close>; the result of \<open>fstat\<close> is a record; whether an operating
  system call raises is an argument. A Tensor view made by \<open>torch.frombuffer\<close> is its byte range.
\<close>

definition CACHE_LINE_BYTES :: int where "CACHE_LINE_BYTES = 64"

definition MAX_SEGMENT_BYTES :: int where "MAX_SEGMENT_BYTES = 8 * 1024 ^ 3"

definition align :: "int \<Rightarrow> int \<Rightarrow> int" where
  "align value alignment = ((value + alignment - 1) div alignment) * alignment"

definition shm_positive :: "string \<Rightarrow> int \<Rightarrow> (bool \<times> exn) list" where
  "shm_positive name value = [(value \<le> 0, ValueError (name @ '' must be a positive integer''))]"

text \<open>\<open>fullmatch\<close> of the two name patterns.\<close>

definition lower_hex :: "string \<Rightarrow> bool" where
  "lower_hex s \<longleftrightarrow> list_all (\<lambda>c. c \<in> set ''0123456789abcdef'') s"

definition session_id_ok :: "string \<Rightarrow> bool" where
  "session_id_ok s \<longleftrightarrow> length s = 32 \<and> lower_hex s"

definition segment_name_ok :: "string \<Rightarrow> bool" where
  "segment_name_ok s \<longleftrightarrow> take 10 s = ''expertkit-'' \<and> length s = 42 \<and> lower_hex (drop 10 s)"

definition validate_session_id :: "string \<Rightarrow> exn + string" where
  "validate_session_id value =
     (if \<not> session_id_ok value then Inl (ValueError ''shared-memory session_id must contain 32 lowercase hex digits'') else Inr value)"

section \<open>The layout of one segment\<close>

record shm_layout =
  sl_slot_count :: int
  sl_max_batch_tokens :: int
  sl_hidden_dim :: int
  sl_top_k :: int
  sl_dtype :: dtype

definition shm_activation_element_bytes :: "shm_layout \<Rightarrow> int" where
  "shm_activation_element_bytes l = element_size (sl_dtype l)"

definition hidden_bytes :: "shm_layout \<Rightarrow> int" where
  "hidden_bytes l = sl_max_batch_tokens l * sl_hidden_dim l * shm_activation_element_bytes l"

definition routing_bytes :: "shm_layout \<Rightarrow> int" where
  "routing_bytes l = sl_max_batch_tokens l * sl_top_k l * 4"

definition hidden_offset :: "shm_layout \<Rightarrow> int" where "hidden_offset l = 0"

definition expert_ids_offset :: "shm_layout \<Rightarrow> int" where
  "expert_ids_offset l = align (hidden_bytes l) CACHE_LINE_BYTES"

definition routing_weights_offset :: "shm_layout \<Rightarrow> int" where
  "routing_weights_offset l = align (expert_ids_offset l + routing_bytes l) CACHE_LINE_BYTES"

definition output_offset :: "shm_layout \<Rightarrow> int" where
  "output_offset l = align (routing_weights_offset l + routing_bytes l) CACHE_LINE_BYTES"

definition slot_stride :: "int \<Rightarrow> shm_layout \<Rightarrow> int" where
  "slot_stride page l = align (output_offset l + hidden_bytes l) page"

definition segment_size :: "int \<Rightarrow> shm_layout \<Rightarrow> int" where
  "segment_size page l = sl_slot_count l * slot_stride page l"

definition shm_layout_post_init :: "int \<Rightarrow> shm_layout \<Rightarrow> exn option" where
  "shm_layout_post_init page l = raise_first
     (shm_positive ''slot_count'' (sl_slot_count l) @ shm_positive ''max_batch_tokens'' (sl_max_batch_tokens l) @
      shm_positive ''hidden_dim'' (sl_hidden_dim l) @ shm_positive ''top_k'' (sl_top_k l) @
      [(sl_dtype l \<notin> {Float16, BFloat16, Float32}, ValueError ''shared-memory dtype must be FP16, BF16, or FP32''),
       (segment_size page l > MAX_SEGMENT_BYTES, ValueError ''shared-memory segment exceeds the 8 GiB safety bound'')])"

definition slot_offset :: "int \<Rightarrow> shm_layout \<Rightarrow> int \<Rightarrow> exn + int" where
  "slot_offset page l slot_index =
     (if \<not> (0 \<le> slot_index \<and> slot_index < sl_slot_count l) then Inl (ValueError ''shared-memory slot index is outside the layout'')
      else Inr (slot_index * slot_stride page l))"

section \<open>Regions\<close>

datatype shm_field = Hidden_States | Expert_Ids | Routing_Weights | Partial_Output

text \<open>A view: its first byte in the segment, its element type and its shape.\<close>

record shm_view =
  sv_offset :: int
  sv_dtype :: dtype
  sv_rows :: int
  sv_columns :: int

definition sv_bytes :: "shm_view \<Rightarrow> int" where
  "sv_bytes v = sv_rows v * sv_columns v * element_size (sv_dtype v)"

record file_metadata =
  fm_regular :: bool
  fm_uid :: int
  fm_mode :: int
  fm_size :: int

record shm_region =
  sr_layout :: shm_layout
  sr_owner :: bool
  sr_registered :: bool
  sr_mapped :: bool
  sr_descriptor_open :: bool
  sr_linked :: bool
  sr_closed :: bool

text \<open>
  \<open>SharedMemoryRegion.open\<close>: \<open>descriptor\<close> is what opening the name gives. A check or a later step that
  raises closes what was acquired, so that only the exception remains. The low six bits of the mode
  are those of group and others.
\<close>

definition check_segment :: "int \<Rightarrow> shm_layout \<Rightarrow> int \<Rightarrow> file_metadata \<Rightarrow> exn option" where
  "check_segment page l euid m = raise_first
     [(\<not> fm_regular m, ValueError ''shared-memory segment must be a regular tmpfs file''),
      (fm_uid m \<noteq> euid, ValueError ''shared-memory segment must be owned by the Worker user''),
      (fm_mode m mod 64 \<noteq> 0, ValueError ''shared-memory segment permissions must not allow group access''),
      (fm_size m \<noteq> segment_size page l, ValueError ''shared-memory segment has an inconsistent size'')]"

definition region_of :: "shm_layout \<Rightarrow> bool \<Rightarrow> bool \<Rightarrow> shm_region" where
  "region_of l owner cuda = \<lparr>sr_layout = l, sr_owner = owner, sr_registered = cuda, sr_mapped = True, sr_descriptor_open = True,
     sr_linked = True, sr_closed = False\<rparr>"

definition region_open ::
  "int \<Rightarrow> string \<Rightarrow> shm_layout \<Rightarrow> bool \<Rightarrow> int \<Rightarrow> exn + file_metadata \<Rightarrow> exn option \<Rightarrow> exn + shm_region" where
  "region_open page name l cuda euid descriptor map_raises =
     (if \<not> segment_name_ok name then Inl (ValueError ''shared-memory segment_name is invalid'')
      else rbind descriptor (\<lambda>metadata.
        after (check_segment page l euid metadata) (after map_raises (Inr (region_of l False cuda)))))"

text \<open>\<open>create\<close>: on an exception the mapping and the descriptor are closed and the name is removed.\<close>

definition region_create :: "shm_layout \<Rightarrow> bool \<Rightarrow> exn option \<Rightarrow> exn option \<Rightarrow> exn + shm_region" where
  "region_create l cuda open_raises map_raises = after open_raises (after map_raises (Inr (region_of l True cuda)))"

definition require_mapping :: "shm_region \<Rightarrow> exn option" where
  "require_mapping r = (if \<not> sr_mapped r then Some (RuntimeError ''shared-memory region is closed'') else None)"

definition region_slot :: "int \<Rightarrow> shm_region \<Rightarrow> int \<Rightarrow> exn + (shm_field \<Rightarrow> shm_view)" where
  "region_slot page r slot_index =
     after (require_mapping r) (rbind (slot_offset page (sr_layout r) slot_index) (\<lambda>base.
       let l = sr_layout r in
       Inr (\<lambda>f. case f of
           Hidden_States \<Rightarrow> \<lparr>sv_offset = base + hidden_offset l, sv_dtype = sl_dtype l, sv_rows = sl_max_batch_tokens l, sv_columns = sl_hidden_dim l\<rparr>
         | Expert_Ids \<Rightarrow> \<lparr>sv_offset = base + expert_ids_offset l, sv_dtype = Int32, sv_rows = sl_max_batch_tokens l, sv_columns = sl_top_k l\<rparr>
         | Routing_Weights \<Rightarrow> \<lparr>sv_offset = base + routing_weights_offset l, sv_dtype = Float32, sv_rows = sl_max_batch_tokens l, sv_columns = sl_top_k l\<rparr>
         | Partial_Output \<Rightarrow> \<lparr>sv_offset = base + output_offset l, sv_dtype = sl_dtype l, sv_rows = sl_max_batch_tokens l, sv_columns = sl_hidden_dim l\<rparr>)))"

definition region_unlink :: "shm_region \<Rightarrow> shm_region" where
  "region_unlink r = r\<lparr>sr_linked := False\<rparr>"

text \<open>\<open>close\<close>: every step is attempted, the first exception is raised at the end.\<close>

definition first_error :: "exn option list \<Rightarrow> exn option" where
  "first_error es = (case filter (\<lambda>e. e \<noteq> None) es of [] \<Rightarrow> None | e # _ \<Rightarrow> e)"

definition region_close :: "exn option \<Rightarrow> exn option \<Rightarrow> exn option \<Rightarrow> exn option \<Rightarrow> shm_region \<Rightarrow> exn option \<times> shm_region" where
  "region_close unregister unmap close_descriptor unlink r =
     (if sr_closed r then (None, r)
      else (first_error [if sr_registered r then unregister else None, if sr_mapped r then unmap else None, close_descriptor,
                         if sr_owner r then unlink else None],
            r\<lparr>sr_closed := True, sr_registered := False, sr_mapped := False, sr_descriptor_open := False,
              sr_linked := sr_linked r \<and> \<not> (sr_owner r \<and> unlink = None)\<rparr>))"
section \<open>Views never overlap\<close>

lemma align_bounds:
  assumes "0 < a"
  shows "v \<le> align v a" and "a dvd align v a"
proof -
  have "(v + a - 1) mod a \<le> a - 1" using pos_mod_bound [OF assms, of "v + a - 1"] by linarith
  moreover have "align v a = v + a - 1 - (v + a - 1) mod a" by (simp add: align_def minus_mod_eq_div_mult)
  ultimately show "v \<le> align v a" by linarith
  show "a dvd align v a" by (simp add: align_def)
qed

definition field_offset :: "shm_layout \<Rightarrow> shm_field \<Rightarrow> int" where
  "field_offset l f = (case f of Hidden_States \<Rightarrow> hidden_offset l | Expert_Ids \<Rightarrow> expert_ids_offset l
     | Routing_Weights \<Rightarrow> routing_weights_offset l | Partial_Output \<Rightarrow> output_offset l)"

definition field_bytes :: "shm_layout \<Rightarrow> shm_field \<Rightarrow> int" where
  "field_bytes l f = (case f of Hidden_States \<Rightarrow> hidden_bytes l | Expert_Ids \<Rightarrow> routing_bytes l
     | Routing_Weights \<Rightarrow> routing_bytes l | Partial_Output \<Rightarrow> hidden_bytes l)"

lemma layout_bytes_pos:
  assumes "shm_layout_post_init page l = None"
  shows "0 < hidden_bytes l" and "0 < routing_bytes l"
proof -
  have "0 < sl_max_batch_tokens l" "0 < sl_hidden_dim l" "0 < sl_top_k l" "sl_dtype l \<in> {Float16, BFloat16, Float32}"
    using assms by (auto simp: shm_layout_post_init_def shm_positive_def)
  moreover from this(4) have "0 < element_size (sl_dtype l)" by auto
  ultimately show "0 < hidden_bytes l" "0 < routing_bytes l" by (simp_all add: hidden_bytes_def routing_bytes_def shm_activation_element_bytes_def)
qed

lemma offsets_ordered:
  "hidden_offset l + hidden_bytes l \<le> expert_ids_offset l" "expert_ids_offset l + routing_bytes l \<le> routing_weights_offset l"
  "routing_weights_offset l + routing_bytes l \<le> output_offset l" "0 < page \<Longrightarrow> output_offset l + hidden_bytes l \<le> slot_stride page l"
  using align_bounds(1) by (simp_all add: hidden_offset_def expert_ids_offset_def routing_weights_offset_def output_offset_def
      slot_stride_def CACHE_LINE_BYTES_def)

lemma field_in_slot:
  assumes "shm_layout_post_init page l = None" and "0 < page"
  shows "0 \<le> field_offset l f" and "0 < field_bytes l f" and "field_offset l f + field_bytes l f \<le> slot_stride page l"
    and "CACHE_LINE_BYTES dvd field_offset l f"
proof -
  note b = layout_bytes_pos [OF assms(1)] and o' = offsets_ordered(1-3) [of l] offsets_ordered(4) [of page l, OF assms(2)]
  have h: "hidden_offset l = 0" by (simp add: hidden_offset_def)
  show "0 < field_bytes l f" using b by (cases f) (simp_all add: field_bytes_def)
  show "0 \<le> field_offset l f" using b o'(1-3) h by (cases f) (simp_all add: field_offset_def)
  show "field_offset l f + field_bytes l f \<le> slot_stride page l"
    using b o' h by (cases f) (simp_all add: field_offset_def field_bytes_def)
  show "CACHE_LINE_BYTES dvd field_offset l f"
    by (cases f) (simp_all add: field_offset_def hidden_offset_def expert_ids_offset_def routing_weights_offset_def output_offset_def
        align_bounds(2) CACHE_LINE_BYTES_def)
qed

lemma fields_apart:
  assumes "shm_layout_post_init page l = None" and "f \<noteq> g"
  shows "field_offset l f + field_bytes l f \<le> field_offset l g \<or> field_offset l g + field_bytes l g \<le> field_offset l f"
  using layout_bytes_pos [OF assms(1)] offsets_ordered(1-3) [of l] assms(2)
  by (cases f; cases g; simp add: field_offset_def field_bytes_def; linarith)

lemma region_slot_view:
  assumes "region_slot page r i = Inr v"
  shows "sv_offset (v f) = i * slot_stride page (sr_layout r) + field_offset (sr_layout r) f \<and> sv_bytes (v f) = field_bytes (sr_layout r) f \<and>
     0 \<le> i \<and> i < sl_slot_count (sr_layout r)"
  using assms by (cases f) (auto simp: region_slot_def slot_offset_def Let_def field_offset_def field_bytes_def sv_bytes_def hidden_bytes_def
      routing_bytes_def shm_activation_element_bytes_def split: if_splits)

definition view_range :: "shm_view \<Rightarrow> int set" where
  "view_range v = {sv_offset v ..< sv_offset v + sv_bytes v}"

lemma slots_apart:
  assumes "shm_layout_post_init page l = None" and "0 < page" and "i < j"
  shows "i * slot_stride page l + field_offset l f + field_bytes l f \<le> j * slot_stride page l + field_offset l g"
proof -
  have "0 \<le> slot_stride page l" using field_in_slot [OF assms(1,2), of Hidden_States] by linarith
  then have "(i + 1) * slot_stride page l \<le> j * slot_stride page l" using assms(3) by (intro mult_right_mono) linarith+
  then show ?thesis using field_in_slot(3) [OF assms(1,2), of f] field_in_slot(1) [OF assms(1,2), of g] by (simp add: algebra_simps)
qed

text \<open>
  C31. The Tensor views of a shared-memory segment are placed safely. For every layout the constructor
  accepts and a page size that is a multiple of the cache line, every view of every slot lies inside a
  segment of at most 8 GiB and starts on a cache line, slots start on pages, and the views of two
  different slots, or of two different fields of one slot, share no byte.
\<close>

theorem shm_views_disjoint:
  assumes "0 < page" and "CACHE_LINE_BYTES dvd page" and "shm_layout_post_init page (sr_layout r) = None"
    and "region_slot page r i = Inr v" and "region_slot page r j = Inr w"
  shows "segment_size page (sr_layout r) \<le> 8 * 1024 ^ 3 \<and>
     0 \<le> sv_offset (v f) \<and> sv_offset (v f) + sv_bytes (v f) \<le> segment_size page (sr_layout r) \<and>
     CACHE_LINE_BYTES dvd sv_offset (v f) \<and> page dvd sv_offset (v Hidden_States) \<and>
     ((i, f) \<noteq> (j, g) \<longrightarrow> view_range (v f) \<inter> view_range (w g) = {})"
proof -
  let ?l = "sr_layout r" and ?s = "slot_stride page (sr_layout r)"
  note v = region_slot_view [OF assms(4)] and w = region_slot_view [OF assms(5)] and slot = field_in_slot [OF assms(3,1)]
  have stride: "page dvd ?s" unfolding slot_stride_def by (rule align_bounds(2) [OF assms(1)])
  have size: "segment_size page ?l \<le> 8 * 1024 ^ 3" using assms(3) by (simp add: shm_layout_post_init_def MAX_SEGMENT_BYTES_def)
  have s0: "0 \<le> ?s" using slot(1-3) [of Hidden_States] by linarith
  have off: "0 \<le> i * ?s" using v [of f] s0 by simp
  have "(i + 1) * ?s \<le> sl_slot_count ?l * ?s" using v [of f] s0 by (intro mult_right_mono) linarith+
  then have bound: "i * ?s + field_offset ?l f + field_bytes ?l f \<le> segment_size page ?l"
    using slot(3) [of f] by (simp add: segment_size_def algebra_simps)
  have line: "CACHE_LINE_BYTES dvd i * ?s + field_offset ?l f"
    using slot(4) [of f] dvd_trans [OF assms(2) stride] by (simp add: dvd_add dvd_mult)
  have first: "page dvd i * ?s + field_offset ?l Hidden_States" using stride by (simp add: field_offset_def hidden_offset_def dvd_mult)
  have "view_range (v f) \<inter> view_range (w g) = {}" if ne: "(i, f) \<noteq> (j, g)"
  proof -
    consider "i < j" | "j < i" | "i = j" "f \<noteq> g" using ne by fastforce
    then have "i * ?s + field_offset ?l f + field_bytes ?l f \<le> j * ?s + field_offset ?l g \<or>
        j * ?s + field_offset ?l g + field_bytes ?l g \<le> i * ?s + field_offset ?l f"
      by cases (use slots_apart [OF assms(3,1)] fields_apart [OF assms(3)] in auto)
    then show ?thesis using v [of f] w [of g] by (auto simp: view_range_def)
  qed
  then show ?thesis using v [of f] v [of Hidden_States] size off slot(1) [of f] bound line first by simp
qed

definition ex_region :: shm_region where
  "ex_region = region_of \<lparr>sl_slot_count = 3, sl_max_batch_tokens = 5, sl_hidden_dim = 7, sl_top_k = 2, sl_dtype = BFloat16\<rparr> True False"

theorem shm_views_disjoint_witness:
  "\<exists>v w. region_slot 4096 ex_region 0 = Inr v \<and> region_slot 4096 ex_region 2 = Inr w \<and> sv_offset (v Expert_Ids) = 128 \<and> sv_bytes (v Expert_Ids) = 40 \<and>
     sv_offset (w Expert_Ids) = 8320 \<and> view_range (v Expert_Ids) \<inter> view_range (w Expert_Ids) = {}"
proof -
  obtain v w where v: "region_slot 4096 ex_region 0 = Inr v" and w: "region_slot 4096 ex_region 2 = Inr w"
    by (simp add: region_slot_def ex_region_def region_of_def require_mapping_def slot_offset_def Let_def)
  have ok: "shm_layout_post_init 4096 (sr_layout ex_region) = None" by code_simp
  have nums: "field_offset (sr_layout ex_region) Expert_Ids = 128" "field_bytes (sr_layout ex_region) Expert_Ids = 40" "slot_stride 4096 (sr_layout ex_region) = 4096"
    by code_simp+
  show ?thesis
    using shm_views_disjoint [of 4096 ex_region 0 v 2 w Expert_Ids Expert_Ids] v w ok nums
      region_slot_view [OF v, of Expert_Ids] region_slot_view [OF w, of Expert_Ids] by (auto simp: CACHE_LINE_BYTES_def)
qed

end
