(* ===== verification/Wire_Codec.thy ===== *)
theory Wire_Codec
  imports Routing_Validation Worker_Limits "HOL-Library.Countable"
begin

text \<open>
  The messages of the computation service: the shared protobuf fields of
  \<open>ek-transport/src/expertkit_transport/transports/protobuf.py\<close>, the finite message limits of
  \<open>transports/grpc/spec.py\<close>, the gRPC codec of \<open>transports/grpc/codec.py\<close> and the sender's check of
  \<open>transports/validation.py\<close>. A protobuf message is the record of its fields. The generated encoder and
  decoder, the byte representation of floating-point elements and UTF-8 are the record \<open>codec\<close>; a
  contiguous Tensor's bytes are those of its elements in order, four little-endian bytes for an
  \<open>int32\<close>.
\<close>

section \<open>Shared fields\<close>

definition MAX_DIAGNOSTIC_BYTES :: nat where "MAX_DIAGNOSTIC_BYTES = 1024"

definition activation_dtype_to_protobuf :: "dtype \<Rightarrow> exn + int" where
  "activation_dtype_to_protobuf d =
     (if d = Float16 then Inr 1 else if d = BFloat16 then Inr 2 else if d = Float32 then Inr 3
      else Inl (ValueError ''dtype must be FP16, BF16, or FP32''))"

definition activation_dtype_from_protobuf :: "int \<Rightarrow> dtype option" where
  "activation_dtype_from_protobuf value =
     (if value = 1 then Some Float16 else if value = 2 then Some BFloat16 else if value = 3 then Some Float32 else None)"

record compute_error =
  ce_code :: int
  ce_retryable :: bool
  ce_observed_topology_version :: "int option"
  ce_min_topology_version :: "int option"
  ce_unavailable_expert_ids :: "int list"
  ce_diagnostic :: string

record execute_request =
  er_instance_id :: int
  er_layer_id :: int
  er_topology_version :: int
  er_token_count :: int
  er_hidden_dim :: int
  er_top_k :: int
  er_dtype :: int
  er_hidden_states :: "nat list"
  er_expert_ids :: "nat list"
  er_routing_weights :: "nat list"

datatype execute_response = Response_Partial_Output "nat list" | Response_Error compute_error | Response_Empty

record 'f codec =
  pc_little_endian :: bool
  pc_serialize_request :: "execute_request \<Rightarrow> nat list"
  pc_parse_request :: "nat list \<Rightarrow> execute_request option"
  pc_serialize_response :: "execute_response \<Rightarrow> nat list"
  pc_parse_response :: "nat list \<Rightarrow> execute_response option"
  pc_float_bytes :: "dtype \<Rightarrow> 'f \<Rightarrow> nat list"
  pc_float_of_bytes :: "dtype \<Rightarrow> nat list \<Rightarrow> 'f"
  pc_utf8 :: "string \<Rightarrow> nat list"
  pc_utf8_decode_ignore :: "nat list \<Rightarrow> string"

fun transport_to_proto_error :: "transport_error_code \<Rightarrow> int option" where
  "transport_to_proto_error BUSY = Some 1"
| "transport_to_proto_error DRAINING = Some 2"
| "transport_to_proto_error STALE_TOPOLOGY = Some 3"
| "transport_to_proto_error EXPERT_NOT_READY = Some 4"
| "transport_to_proto_error INVALID_REQUEST = Some 5"
| "transport_to_proto_error UNSUPPORTED = Some 6"
| "transport_to_proto_error _ = None"

definition proto_to_transport_error :: "int \<Rightarrow> transport_error_code option" where
  "proto_to_transport_error wire =
     List.find (\<lambda>code. transport_to_proto_error code = Some wire) [BUSY, DRAINING, STALE_TOPOLOGY, EXPERT_NOT_READY, INVALID_REQUEST, UNSUPPORTED]"

definition bounded_diagnostic :: "'f codec \<Rightarrow> string \<Rightarrow> string" where
  "bounded_diagnostic P value =
     (let encoded = pc_utf8 P value
      in if length encoded \<le> MAX_DIAGNOSTIC_BYTES then value else pc_utf8_decode_ignore P (take MAX_DIAGNOSTIC_BYTES encoded))"

definition encode_compute_error :: "'f codec \<Rightarrow> transport_error \<Rightarrow> worker_endpoint_config \<Rightarrow> exn + compute_error" where
  "encode_compute_error P e config =
     (case transport_to_proto_error (te_code e) of
        None \<Rightarrow> Inl (ValueError ''this Transport error must use native RPC status'')
      | Some code \<Rightarrow>
        after (raise_first
          [(int (length (te_unavailable_expert_ids e)) > we_max_batch_tokens config * we_top_k config,
             ValueError ''too many unavailable expert IDs for one Worker batch''),
           (\<exists>x\<in>set (te_unavailable_expert_ids e). x < 0 \<or> x \<ge> we_experts_per_layer config,
             ValueError ''unavailable expert ID exceeds the configured expert range'')])
         (Inr \<lparr>ce_code = code, ce_retryable = te_retryable e, ce_observed_topology_version = te_observed_topology_version e,
               ce_min_topology_version = te_min_topology_version e, ce_unavailable_expert_ids = te_unavailable_expert_ids e,
               ce_diagnostic = bounded_diagnostic P (te_diagnostic e)\<rparr>))"

definition decode_compute_error :: "'f codec \<Rightarrow> compute_error \<Rightarrow> worker_endpoint_config \<Rightarrow> exn + transport_error" where
  "decode_compute_error P wire config =
     (case proto_to_transport_error (ce_code wire) of
        None \<Rightarrow> Inl (TransportProtocolError ''response contains an unknown computation error code'')
      | Some code \<Rightarrow>
        after (raise_first
          [(length (pc_utf8 P (ce_diagnostic wire)) > MAX_DIAGNOSTIC_BYTES,
             TransportProtocolError ''response diagnostic exceeds its configured bound''),
           (int (length (ce_unavailable_expert_ids wire)) > we_max_batch_tokens config * we_top_k config,
             TransportProtocolError ''response contains too many unavailable expert IDs''),
           (\<exists>x\<in>set (ce_unavailable_expert_ids wire). x \<ge> we_experts_per_layer config,
             TransportProtocolError ''response unavailable expert ID exceeds the configured range'')])
         (Inr \<lparr>te_code = code, te_retryable = ce_retryable wire, te_observed_topology_version = ce_observed_topology_version wire,
               te_min_topology_version = ce_min_topology_version wire, te_unavailable_expert_ids = ce_unavailable_expert_ids wire,
               te_diagnostic = ce_diagnostic wire\<rparr>))"

section \<open>Message limits\<close>

definition GRPC_MAX_MESSAGE_BYTES :: int where "GRPC_MAX_MESSAGE_BYTES = 2 ^ 31 - 1"

definition PROTOBUF_SAFETY_MARGIN_BYTES :: int where "PROTOBUF_SAFETY_MARGIN_BYTES = 256"

definition checked_add :: "int list \<Rightarrow> exn + int" where
  "checked_add values =
     (let total = sum_list values
      in if total > GRPC_MAX_MESSAGE_BYTES then Inl (ValueError ''configured gRPC message size exceeds the signed 32-bit limit'') else Inr total)"

fun checked_multiply_from :: "int \<Rightarrow> int list \<Rightarrow> exn + int" where
  "checked_multiply_from result [] = Inr result"
| "checked_multiply_from result (value # values) =
     (if result * value > GRPC_MAX_MESSAGE_BYTES then Inl (ValueError ''configured gRPC tensor size exceeds the signed 32-bit limit'')
      else checked_multiply_from (result * value) values)"

definition checked_multiply :: "int list \<Rightarrow> exn + int" where
  "checked_multiply values = checked_multiply_from 1 values"

text \<open>\<open>int.bit_length\<close> of a nonnegative number.\<close>

fun bit_length :: "nat \<Rightarrow> nat" where
  "bit_length n = (if n = 0 then 0 else Suc (bit_length (n div 2)))"

declare bit_length.simps [simp del]

definition varint_size :: "int \<Rightarrow> exn + int" where
  "varint_size value =
     (if value < 0 then Inl (ValueError ''varint values must be nonnegative'')
      else Inr (max 1 ((int (bit_length (nat value)) + 6) div 7)))"

text \<open>Field numbers are below sixteen, where \<open>(field << 3) | wire_type\<close> is a sum.\<close>

definition tag_size :: "int \<Rightarrow> int \<Rightarrow> exn + int" where
  "tag_size field_number wire_type = varint_size (field_number * 8 + wire_type)"

definition bytes_field_size :: "int \<Rightarrow> int \<Rightarrow> exn + int" where
  "bytes_field_size field_number payload_bytes =
     rbind (tag_size field_number 2) (\<lambda>t. rbind (varint_size payload_bytes) (\<lambda>v. checked_add [t, v, payload_bytes]))"

record grpc_message_limits =
  gl_request_bytes :: int
  gl_response_bytes :: int
  gl_retained_request_tensor_bytes :: int

definition scalar_field :: "int \<Rightarrow> exn + int \<Rightarrow> exn + int" where
  "scalar_field field_number width = rbind (tag_size field_number 0) (\<lambda>t. rbind width (\<lambda>v. Inr (t + v)))"

definition scalar_fields :: "worker_endpoint_config \<Rightarrow> exn + int list" where
  "scalar_fields spec = rmap (\<lambda>(field_number, width). scalar_field field_number width)
     [(1, Inr 10), (2, Inr 5), (3, Inr 10), (4, varint_size (we_max_batch_tokens spec)), (5, varint_size (we_hidden_dim spec)),
      (6, varint_size (we_top_k spec)), (7, rbind (activation_dtype_to_protobuf (we_dtype spec)) varint_size)]"

definition request_limit :: "worker_endpoint_config \<Rightarrow> int \<Rightarrow> int \<Rightarrow> exn + int" where
  "request_limit spec hidden routing =
     rbind (scalar_fields spec) (\<lambda>scalars. rbind (bytes_field_size 8 hidden) (\<lambda>h. rbind (bytes_field_size 9 routing) (\<lambda>e.
       rbind (bytes_field_size 10 routing) (\<lambda>w. checked_add (scalars @ [h, e, w, PROTOBUF_SAFETY_MARGIN_BYTES])))))"

definition error_payload_limit :: "worker_endpoint_config \<Rightarrow> exn + int" where
  "error_payload_limit spec =
     rbind (checked_multiply [we_max_batch_tokens spec, we_top_k spec]) (\<lambda>unavailable_count.
       rbind (checked_multiply [unavailable_count, 5]) (\<lambda>packed.
         rbind (rmap (\<lambda>(field_number, width). scalar_field field_number (Inr width)) [(1, 1), (2, 1), (3, 10), (4, 10)]) (\<lambda>scalars.
           rbind (bytes_field_size 5 packed) (\<lambda>u. rbind (bytes_field_size 6 (int MAX_DIAGNOSTIC_BYTES)) (\<lambda>d.
             checked_add (scalars @ [u, d]))))))"

definition calculate_message_limits :: "worker_endpoint_config \<Rightarrow> exn + grpc_message_limits" where
  "calculate_message_limits spec =
     rbind (checked_multiply [we_max_batch_tokens spec, we_hidden_dim spec, activation_element_bytes spec]) (\<lambda>hidden.
       rbind (checked_multiply [we_max_batch_tokens spec, we_top_k spec, 4]) (\<lambda>routing.
         rbind (checked_add [hidden, routing, routing]) (\<lambda>retained.
           rbind (request_limit spec hidden routing) (\<lambda>request_bytes.
             rbind (bytes_field_size 1 hidden) (\<lambda>success_bytes.
               rbind (error_payload_limit spec) (\<lambda>error_payload_bytes.
                 rbind (bytes_field_size 2 error_payload_bytes) (\<lambda>error_bytes.
                   rbind (checked_add [max success_bytes error_bytes, PROTOBUF_SAFETY_MARGIN_BYTES]) (\<lambda>response_bytes.
                     Inr \<lparr>gl_request_bytes = request_bytes, gl_response_bytes = response_bytes, gl_retained_request_tensor_bytes = retained\<rparr>))))))))"

section \<open>Tensor bytes\<close>

definition int32_bytes :: "int \<Rightarrow> nat list" where
  "int32_bytes x = map (\<lambda>k. nat (x div 256 ^ k mod 256)) [0, 1, 2, 3]"

definition int32_of_bytes :: "nat list \<Rightarrow> int" where
  "int32_of_bytes bs = signed_take_bit 31 (\<Sum>k<4. int (bs ! k) * 256 ^ k)"

text \<open>The Tensors of the model are contiguous, so the contiguity check of \<open>_raw_bytes\<close> cannot fail here.\<close>

definition raw_bytes :: "('v \<Rightarrow> nat list) \<Rightarrow> 'v matrix tensor \<Rightarrow> exn + nat list" where
  "raw_bytes element t =
     (if t_device t \<noteq> ''cpu'' then Inl (ValueError ''gRPC serialization requires a CPU Tensor'')
      else Inr (concat (map element (concat (t_data t)))))"

fun chunks :: "nat \<Rightarrow> 'v list \<Rightarrow> 'v list list" where
  "chunks n xs = (if n = 0 \<or> xs = [] then [] else take n xs # chunks n (drop n xs))"

declare chunks.simps [simp del]

definition tensor_from_bytes :: "(nat list \<Rightarrow> 'v) \<Rightarrow> nat \<Rightarrow> nat list \<Rightarrow> dtype \<Rightarrow> nat \<Rightarrow> nat \<Rightarrow> 'v matrix tensor" where
  "tensor_from_bytes element element_bytes raw dt rows columns =
     \<lparr>t_shape = [rows, columns], t_dtype = dt, t_device = ''cpu'', t_data = chunks columns (map element (chunks element_bytes raw))\<rparr>"

section \<open>Requests\<close>

definition validate_worker_batch :: "'f worker_batch \<Rightarrow> worker_endpoint_config \<Rightarrow> exn option" where
  "validate_worker_batch b config = raise_first
     [(wb_instance_id b \<noteq> we_instance_id config, TransportProtocolError ''Worker batch instance ID does not match the endpoint''),
      (wb_layer_id b \<ge> we_num_layers config, TransportProtocolError ''Worker batch layer ID exceeds the configured layer range''),
      (int (wb_token_count b) > we_max_batch_tokens config, TransportProtocolError ''Worker batch exceeds max_batch_tokens''),
      (int (wb_hidden_dim b) \<noteq> we_hidden_dim config, TransportProtocolError ''Worker batch hidden dimension does not match the endpoint''),
      (int (wb_top_k b) \<noteq> we_top_k config, TransportProtocolError ''Worker batch top-k does not match the endpoint''),
      (t_dtype (wb_hidden_states b) \<noteq> we_dtype config, TransportProtocolError ''Worker batch activation dtype does not match the endpoint'')]"

definition require_little_endian :: "'f codec \<Rightarrow> exn option" where
  "require_little_endian P =
     (if \<not> pc_little_endian P then Some (RuntimeError ''the gRPC tensor codec requires a little-endian Host'') else None)"

definition to_cpu :: "'d tensor \<Rightarrow> 'd tensor" where
  "to_cpu t = t\<lparr>t_device := ''cpu''\<rparr>"

definition serialize_host_request ::
  "'f codec \<Rightarrow> 'f worker_batch \<Rightarrow> worker_endpoint_config \<Rightarrow> 'f matrix tensor \<Rightarrow> int matrix tensor \<Rightarrow> 'f matrix tensor \<Rightarrow> exn + nat list" where
  "serialize_host_request P b spec host_hidden_states host_expert_ids host_routing_weights =
     rbind (activation_dtype_to_protobuf (we_dtype spec)) (\<lambda>dt.
       rbind (raw_bytes (pc_float_bytes P (t_dtype host_hidden_states)) host_hidden_states) (\<lambda>h.
         rbind (raw_bytes int32_bytes host_expert_ids) (\<lambda>e.
           rbind (raw_bytes (pc_float_bytes P (t_dtype host_routing_weights)) host_routing_weights) (\<lambda>w.
             let payload = pc_serialize_request P \<lparr>er_instance_id = wb_instance_id b, er_layer_id = wb_layer_id b,
                   er_topology_version = wb_topology_version b, er_token_count = int (wb_token_count b), er_hidden_dim = int (wb_hidden_dim b),
                   er_top_k = int (wb_top_k b), er_dtype = dt, er_hidden_states = h, er_expert_ids = e, er_routing_weights = w\<rparr>
             in rbind (calculate_message_limits spec) (\<lambda>limits.
                  if int (length payload) > gl_request_bytes limits then Inl (RuntimeError ''encoded request exceeds its calculated gRPC limit'')
                  else Inr payload)))))"

text \<open>\<open>torch.index_select\<close> along the rows; an index outside the Tensor raises.\<close>

definition select_rows :: "nat list \<Rightarrow> 'v matrix tensor \<Rightarrow> exn + 'v matrix tensor" where
  "select_rows indices t =
     (if \<exists>i\<in>set indices. i \<ge> dim0 t then Inl (TransportProtocolError ''Worker batch token indices are invalid'')
      else Inr (t\<lparr>t_shape := [length indices, dim1 t], t_data := map (\<lambda>i. t_data t ! i) indices\<rparr>))"

definition encode_request :: "'f codec \<Rightarrow> 'f worker_batch \<Rightarrow> worker_endpoint_config \<Rightarrow> exn + nat list" where
  "encode_request P b spec =
     after (require_little_endian P) (after (validate_worker_batch b spec)
       (rbind (case wb_token_indices b of None \<Rightarrow> Inr (wb_hidden_states b) | Some ti \<Rightarrow> select_rows (t_data ti) (wb_hidden_states b)) (\<lambda>hidden.
          serialize_host_request P b spec (to_cpu hidden) (to_cpu (wb_expert_ids b)) (to_cpu (wb_routing_weights b)))))"

record 'f decoded_request =
  dr_batch :: "'f worker_batch"
  dr_retained_tensor_bytes :: int

definition decode_request_with_size ::
  "'f codec \<Rightarrow> ('f, 'z) torch_ops_scheme \<Rightarrow> nat list \<Rightarrow> worker_endpoint_config \<Rightarrow> exn + 'f decoded_request" where
  "decode_request_with_size P T payload spec =
     after (require_little_endian P) (rbind (calculate_message_limits spec) (\<lambda>limits.
       if int (length payload) > gl_request_bytes limits then Inl (TransportProtocolError ''request exceeds the configured gRPC message limit'')
       else (case pc_parse_request P payload of
         None \<Rightarrow> Inl (TransportProtocolError ''request is not valid protobuf'')
       | Some request \<Rightarrow>
         let token_count = er_token_count request;
             hidden = token_count * we_hidden_dim spec * activation_element_bytes spec;
             routing = token_count * we_top_k spec * 4
         in after (raise_first
             [(er_instance_id request \<noteq> we_instance_id spec, TransportProtocolError ''unknown model instance''),
              (er_layer_id request \<ge> we_num_layers spec, TransportProtocolError ''layer ID exceeds the configured layer range''),
              (\<not> (0 < token_count \<and> token_count \<le> we_max_batch_tokens spec),
                TransportProtocolError ''token_count must be positive and within max_batch_tokens''),
              (er_hidden_dim request \<noteq> we_hidden_dim spec, TransportProtocolError ''hidden_dim does not match the configured model''),
              (er_top_k request \<noteq> we_top_k spec, TransportProtocolError ''top_k does not match the configured model''),
              (activation_dtype_from_protobuf (er_dtype request) \<noteq> Some (we_dtype spec),
                TransportProtocolError ''dtype is unknown or does not match the configured model''),
              (int (length (er_hidden_states request)) \<noteq> hidden, TransportProtocolError ''hidden_states has an inconsistent encoded length''),
              (int (length (er_expert_ids request)) \<noteq> routing, TransportProtocolError ''expert_ids has an inconsistent encoded length''),
              (int (length (er_routing_weights request)) \<noteq> routing, TransportProtocolError ''routing_weights has an inconsistent encoded length'')])
            (let rows = nat token_count;
                 hidden_states = tensor_from_bytes (pc_float_of_bytes P (we_dtype spec)) (nat (activation_element_bytes spec)) (er_hidden_states request)
                   (we_dtype spec) rows (nat (we_hidden_dim spec));
                 expert_ids = tensor_from_bytes int32_of_bytes 4 (er_expert_ids request) Int32 rows (nat (we_top_k spec));
                 routing_weights = tensor_from_bytes (pc_float_of_bytes P Float32) 4 (er_routing_weights request) Float32 rows (nat (we_top_k spec))
             in rbind (validate_received_routing T expert_ids routing_weights (we_experts_per_layer spec)) (\<lambda>experts.
                  let batch = \<lparr>wb_instance_id = er_instance_id request, wb_layer_id = er_layer_id request,
                        wb_topology_version = er_topology_version request, wb_hidden_states = hidden_states, wb_token_indices = None,
                        wb_expert_ids = expert_ids, wb_routing_weights = routing_weights, wb_distinct_expert_ids = experts\<rparr>
                  in after (worker_batch_post_init batch)
                       (Inr \<lparr>dr_batch = batch, dr_retained_tensor_bytes = hidden + routing + routing\<rparr>))))))"

definition decode_request :: "'f codec \<Rightarrow> ('f, 'z) torch_ops_scheme \<Rightarrow> nat list \<Rightarrow> worker_endpoint_config \<Rightarrow> exn + 'f worker_batch" where
  "decode_request P T payload spec = rbind (decode_request_with_size P T payload spec) (\<lambda>d. Inr (dr_batch d))"

section \<open>Responses\<close>

definition encode_error_response :: "'f codec \<Rightarrow> transport_error \<Rightarrow> worker_endpoint_config \<Rightarrow> exn + nat list" where
  "encode_error_response P e spec =
     rbind (encode_compute_error P e spec) (\<lambda>wire.
       let payload = pc_serialize_response P (Response_Error wire)
       in rbind (calculate_message_limits spec) (\<lambda>limits.
            if int (length payload) > gl_response_bytes limits then Inl (RuntimeError ''encoded error exceeds its calculated gRPC limit'')
            else Inr payload))"

definition encode_success_response :: "'f codec \<Rightarrow> 'f matrix tensor \<Rightarrow> worker_endpoint_config \<Rightarrow> exn + nat list" where
  "encode_success_response P t spec =
     after (require_little_endian P) (after (raise_first
       [(ndim t \<noteq> 2 \<or> int (dim1 t) \<noteq> we_hidden_dim spec, ValueError ''partial output must have shape [token_count, hidden_dim]''),
        (\<not> (0 < dim0 t \<and> int (dim0 t) \<le> we_max_batch_tokens spec), ValueError ''partial output token count exceeds the configured limit''),
        (t_dtype t \<noteq> we_dtype spec, ValueError ''partial output dtype does not match the configured model'')])
      (rbind (raw_bytes (pc_float_bytes P (t_dtype t)) t) (\<lambda>raw.
         let payload = pc_serialize_response P (Response_Partial_Output raw)
         in rbind (calculate_message_limits spec) (\<lambda>limits.
              if int (length payload) > gl_response_bytes limits then Inl (RuntimeError ''encoded response exceeds its calculated gRPC limit'')
              else Inr payload))))"

definition decode_response :: "'f codec \<Rightarrow> nat list \<Rightarrow> int \<Rightarrow> worker_endpoint_config \<Rightarrow> exn + 'f matrix tensor" where
  "decode_response P payload token_count spec =
     after (require_little_endian P) (after (raise_first
       [(\<not> (0 < token_count \<and> token_count \<le> we_max_batch_tokens spec), ValueError ''token_count must be positive and within max_batch_tokens'')])
      (rbind (calculate_message_limits spec) (\<lambda>limits.
         if int (length payload) > gl_response_bytes limits then Inl (TransportProtocolError ''response exceeds the configured gRPC message limit'')
         else (case pc_parse_response P payload of
           None \<Rightarrow> Inl (TransportProtocolError ''response is not valid protobuf'')
         | Some (Response_Error wire) \<Rightarrow> rbind (decode_compute_error P wire spec) (\<lambda>e. Inl (Raised_TransportError e))
         | Some Response_Empty \<Rightarrow> Inl (TransportProtocolError ''response does not contain a result'')
         | Some (Response_Partial_Output raw) \<Rightarrow>
             if int (length raw) \<noteq> token_count * we_hidden_dim spec * activation_element_bytes spec
             then Inl (TransportProtocolError ''partial_output has an inconsistent encoded length'')
             else Inr (tensor_from_bytes (pc_float_of_bytes P (we_dtype spec)) (nat (activation_element_bytes spec)) raw (we_dtype spec)
                    (nat token_count) (nat (we_hidden_dim spec)))))))"
section \<open>Sizes\<close>

lemma bit_length_le: "bit_length n \<le> k \<longleftrightarrow> n < 2 ^ k"
proof (induction k arbitrary: n)
  case 0
  show ?case by (simp add: bit_length.simps [of n])
next
  case (Suc k)
  show ?case using Suc.IH [of "n div 2"] by (subst bit_length.simps) (auto simp: less_mult_imp_div_less mult.commute)
qed

lemma bit_length_mono: "m \<le> n \<Longrightarrow> bit_length m \<le> bit_length n"
  using bit_length_le [of m "bit_length n"] bit_length_le [of n "bit_length n"] by simp

definition vsize :: "int \<Rightarrow> int" where
  "vsize v = max 1 ((int (bit_length (nat v)) + 6) div 7)"

lemma varint_size_vsize: "0 \<le> v \<Longrightarrow> varint_size v = Inr (vsize v)"
  by (simp add: varint_size_def vsize_def)

lemma vsize_mono: "v \<le> w \<Longrightarrow> vsize v \<le> vsize w"
  using bit_length_mono [of "nat v" "nat w"] by (simp add: vsize_def) linarith

lemma vsize_bits:
  assumes "v < 2 ^ k"
  shows "vsize v \<le> max 1 ((int k + 6) div 7)"
proof -
  have "nat v < 2 ^ k" using assms by (simp add: nat_less_iff)
  then have "int (bit_length (nat v)) \<le> int k" by (simp add: bit_length_le)
  then show ?thesis by (auto simp: vsize_def intro: zdiv_mono1)
qed

lemma vsize_pos: "1 \<le> vsize v" by (simp add: vsize_def)

lemma tag_size_one: "0 \<le> f \<Longrightarrow> f \<le> 15 \<Longrightarrow> 0 \<le> t \<Longrightarrow> t \<le> 7 \<Longrightarrow> tag_size f t = Inr 1"
proof -
  assume "0 \<le> f" "f \<le> 15" "0 \<le> t" "t \<le> 7"
  then have "0 \<le> f * 8 + t" "f * 8 + t < 2 ^ 7" by simp_all
  then show ?thesis using vsize_bits [of "f * 8 + t" 7] vsize_pos [of "f * 8 + t"] by (simp add: tag_size_def varint_size_vsize)
qed

text \<open>
  The documented size of an encoded request: a scalar field that is not zero takes its tag and a
  variable-length integer, a nonempty bytes field its tag, its length and its bytes.
\<close>

definition scalar_wire_size :: "int \<Rightarrow> int" where
  "scalar_wire_size v = (if v = 0 then 0 else 1 + vsize v)"

definition bytes_wire_size :: "nat list \<Rightarrow> int" where
  "bytes_wire_size bs = (if bs = [] then 0 else 1 + vsize (int (length bs)) + int (length bs))"

definition request_wire_size :: "execute_request \<Rightarrow> int" where
  "request_wire_size m = scalar_wire_size (er_instance_id m) + scalar_wire_size (er_layer_id m) + scalar_wire_size (er_topology_version m) +
     scalar_wire_size (er_token_count m) + scalar_wire_size (er_hidden_dim m) + scalar_wire_size (er_top_k m) + scalar_wire_size (er_dtype m) +
     bytes_wire_size (er_hidden_states m) + bytes_wire_size (er_expert_ids m) + bytes_wire_size (er_routing_weights m)"

text \<open>The values the types of the fields allow.\<close>

definition request_in_range :: "execute_request \<Rightarrow> bool" where
  "request_in_range m \<longleftrightarrow> 0 \<le> er_instance_id m \<and> er_instance_id m \<le> uint64_max \<and> 0 \<le> er_layer_id m \<and> er_layer_id m \<le> uint32_max \<and>
     0 \<le> er_topology_version m \<and> er_topology_version m \<le> uint64_max \<and> 0 \<le> er_token_count m \<and> er_token_count m \<le> uint32_max \<and>
     0 \<le> er_hidden_dim m \<and> er_hidden_dim m \<le> uint32_max \<and> 0 \<le> er_top_k m \<and> er_top_k m \<le> uint32_max \<and> 0 \<le> er_dtype m \<and> er_dtype m \<le> 3"

definition request_codec_doc :: "'f codec \<Rightarrow> bool" where
  "request_codec_doc P \<longleftrightarrow> pc_little_endian P \<and>
     (\<forall>m. request_in_range m \<longrightarrow> pc_parse_request P (pc_serialize_request P m) = Some m \<and> int (length (pc_serialize_request P m)) \<le> request_wire_size m)"

lemma scalar_wire_size_le: "0 \<le> v \<Longrightarrow> v \<le> w \<Longrightarrow> scalar_wire_size v \<le> 1 + vsize w"
  using vsize_mono [of v w] vsize_pos [of w] by (simp add: scalar_wire_size_def)

lemma scalar_wire_size_bits: "0 \<le> v \<Longrightarrow> v < 2 ^ k \<Longrightarrow> scalar_wire_size v \<le> 1 + max 1 ((int k + 6) div 7)"
  using vsize_bits [of v k] by (simp add: scalar_wire_size_def)

lemma bytes_wire_size_le: "int (length bs) \<le> n \<Longrightarrow> bytes_wire_size bs \<le> 1 + vsize n + n"
  using vsize_mono [of "int (length bs)" n] vsize_pos [of n] by (simp add: bytes_wire_size_def)

lemma bytes_field_size_Inr: "0 \<le> f \<Longrightarrow> f \<le> 15 \<Longrightarrow> 0 \<le> n \<Longrightarrow> bytes_field_size f n = Inr s \<Longrightarrow> s = 1 + vsize n + n"
  by (auto simp: bytes_field_size_def tag_size_one varint_size_vsize checked_add_def Let_def split: if_splits)

lemma checked_add_Inr: "checked_add xs = Inr s \<Longrightarrow> s = sum_list xs"
  by (auto simp: checked_add_def Let_def split: if_splits)

lemma checked_multiply_from_Inr: "checked_multiply_from r xs = Inr s \<Longrightarrow> s = r * prod_list xs"
proof (induction xs arbitrary: r)
  case (Cons x xs)
  then have "checked_multiply_from (r * x) xs = Inr s" by (auto split: if_splits)
  from Cons.IH [OF this] show ?case by (simp add: mult.assoc)
qed simp

lemma checked_multiply_Inr: "checked_multiply xs = Inr s \<Longrightarrow> s = prod_list xs"
  using checked_multiply_from_Inr [of 1 xs s] by (simp add: checked_multiply_def)

lemma endpoint_config_range:
  assumes "worker_endpoint_config_post_init spec = None"
  shows "0 < we_max_batch_tokens spec" and "0 < we_hidden_dim spec" and "0 < we_top_k spec" and "0 < we_instance_id spec" and "we_instance_id spec \<le> uint64_max"
    and "we_num_layers spec \<le> uint32_max" and "we_experts_per_layer spec \<le> uint32_max" and "we_dtype spec \<in> {Float16, BFloat16, Float32}"
    and "\<exists>dt. activation_dtype_to_protobuf (we_dtype spec) = Inr dt \<and> 0 \<le> dt \<and> dt \<le> 3" and "0 < activation_element_bytes spec"
    and "we_max_batch_tokens spec \<le> uint32_max" and "we_hidden_dim spec \<le> uint32_max" and "we_top_k spec \<le> uint32_max"
  using assms by (auto simp: worker_endpoint_config_post_init_def limit_checks activation_dtype_to_protobuf_def activation_element_bytes_def)

lemma message_limits_values:
  assumes "worker_endpoint_config_post_init spec = None" and "calculate_message_limits spec = Inr limits"
    and "activation_dtype_to_protobuf (we_dtype spec) = Inr dt"
  defines "hidden \<equiv> we_max_batch_tokens spec * we_hidden_dim spec * activation_element_bytes spec"
    and "routing \<equiv> we_max_batch_tokens spec * we_top_k spec * 4"
  shows "gl_request_bytes limits = 11 + 6 + 11 + (1 + vsize (we_max_batch_tokens spec)) + (1 + vsize (we_hidden_dim spec)) +
       (1 + vsize (we_top_k spec)) + (1 + vsize dt) + (1 + vsize hidden + hidden) + 2 * (1 + vsize routing + routing) + 256"
    and "gl_retained_request_tensor_bytes limits = hidden + routing + routing"
proof -
  note R = endpoint_config_range [OF assms(1)]
  have pos: "0 \<le> hidden" "0 \<le> routing" "0 \<le> dt" using R(1-3,9,10) assms(3) by (auto simp: hidden_def routing_def)
  from assms(2) obtain retained req where lim: "checked_add [hidden, routing, routing] = Inr retained" "request_limit spec hidden routing = Inr req"
    "gl_request_bytes limits = req" "gl_retained_request_tensor_bytes limits = retained"
    unfolding calculate_message_limits_def hidden_def routing_def
    by (auto dest!: checked_multiply_Inr simp: mult.assoc)
  have scalars: "scalar_fields spec = Inr [11, 6, 11, 1 + vsize (we_max_batch_tokens spec), 1 + vsize (we_hidden_dim spec), 1 + vsize (we_top_k spec), 1 + vsize dt]"
    using R(1-3) pos(3) by (simp add: scalar_fields_def scalar_field_def tag_size_one varint_size_vsize assms(3))
  show "gl_retained_request_tensor_bytes limits = hidden + routing + routing" using checked_add_Inr [OF lim(1)] lim(4) by simp
  from lim(2) scalars obtain h e w where f: "bytes_field_size 8 hidden = Inr h" "bytes_field_size 9 routing = Inr e" "bytes_field_size 10 routing = Inr w"
    "checked_add ([11, 6, 11, 1 + vsize (we_max_batch_tokens spec), 1 + vsize (we_hidden_dim spec), 1 + vsize (we_top_k spec), 1 + vsize dt] @
       [h, e, w, PROTOBUF_SAFETY_MARGIN_BYTES]) = Inr req"
    by (auto simp: request_limit_def)
  have "h = 1 + vsize hidden + hidden" "e = 1 + vsize routing + routing" "w = 1 + vsize routing + routing"
    using bytes_field_size_Inr [OF _ _ pos(1) f(1)] bytes_field_size_Inr [OF _ _ pos(2) f(2)] bytes_field_size_Inr [OF _ _ pos(2) f(3)] by simp_all
  then show "gl_request_bytes limits = 11 + 6 + 11 + (1 + vsize (we_max_batch_tokens spec)) + (1 + vsize (we_hidden_dim spec)) +
       (1 + vsize (we_top_k spec)) + (1 + vsize dt) + (1 + vsize hidden + hidden) + 2 * (1 + vsize routing + routing) + 256"
    using checked_add_Inr [OF f(4)] lim(3) by (simp add: PROTOBUF_SAFETY_MARGIN_BYTES_def)
qed

lemma request_within_limit:
  assumes spec: "worker_endpoint_config_post_init spec = None" and limits: "calculate_message_limits spec = Inr limits"
    and dt: "activation_dtype_to_protobuf (we_dtype spec) = Inr (er_dtype m)"
    and "0 \<le> er_instance_id m" "er_instance_id m \<le> uint64_max" "0 \<le> er_layer_id m" "er_layer_id m \<le> uint32_max"
      "0 \<le> er_topology_version m" "er_topology_version m \<le> uint64_max"
    and tokens: "0 \<le> er_token_count m" "er_token_count m \<le> we_max_batch_tokens spec"
    and dims: "er_hidden_dim m = we_hidden_dim spec" "er_top_k m = we_top_k spec"
    and lens: "int (length (er_hidden_states m)) = er_token_count m * we_hidden_dim spec * activation_element_bytes spec"
      "int (length (er_expert_ids m)) = er_token_count m * we_top_k spec * 4" "int (length (er_routing_weights m)) = er_token_count m * we_top_k spec * 4"
  shows "request_wire_size m \<le> gl_request_bytes limits"
proof -
  note R = endpoint_config_range [OF spec]
  let ?h = "we_max_batch_tokens spec * we_hidden_dim spec * activation_element_bytes spec" and ?r = "we_max_batch_tokens spec * we_top_k spec * 4"
  have "int (length (er_hidden_states m)) \<le> ?h" unfolding lens using tokens R by (intro mult_right_mono) auto
  moreover have "int (length (er_expert_ids m)) \<le> ?r" "int (length (er_routing_weights m)) \<le> ?r"
    unfolding lens using tokens R by (auto intro!: mult_right_mono)
  moreover have "0 \<le> er_dtype m" using R(9) dt by auto
  ultimately have "bytes_wire_size (er_hidden_states m) \<le> 1 + vsize ?h + ?h" "bytes_wire_size (er_expert_ids m) \<le> 1 + vsize ?r + ?r"
    "bytes_wire_size (er_routing_weights m) \<le> 1 + vsize ?r + ?r" "scalar_wire_size (er_dtype m) \<le> 1 + vsize (er_dtype m)"
    by (simp_all add: bytes_wire_size_le scalar_wire_size_le)
  moreover have "scalar_wire_size (er_instance_id m) \<le> 11" "scalar_wire_size (er_layer_id m) \<le> 6" "scalar_wire_size (er_topology_version m) \<le> 11"
    using scalar_wire_size_bits [of "er_instance_id m" 64] scalar_wire_size_bits [of "er_layer_id m" 32]
      scalar_wire_size_bits [of "er_topology_version m" 64] assms(4-9) by simp_all
  moreover have "scalar_wire_size (er_token_count m) \<le> 1 + vsize (we_max_batch_tokens spec)" "scalar_wire_size (er_hidden_dim m) \<le> 1 + vsize (we_hidden_dim spec)"
    "scalar_wire_size (er_top_k m) \<le> 1 + vsize (we_top_k spec)"
    using tokens dims R by (simp_all add: scalar_wire_size_le)
  ultimately show ?thesis
    unfolding request_wire_size_def message_limits_values(1) [OF spec limits dt] by (simp add: algebra_simps)
qed
section \<open>Tensor bytes invert\<close>

lemma chunks_concat:
  assumes "0 < n" and "\<And>x. x \<in> set xs \<Longrightarrow> length x = n"
  shows "chunks n (concat xs) = xs"
  using assms(2)
proof (induction xs)
  case (Cons x xs)
  then have "x \<noteq> []" "length x = n" using assms(1) by auto
  then show ?case using Cons by (subst chunks.simps) (simp add: assms(1))
qed (simp add: chunks.simps)

lemma length_encoded: "(\<And>x. x \<in> set xs \<Longrightarrow> length (enc x) = n) \<Longrightarrow> length (concat (map enc xs)) = length xs * n"
  by (induction xs) simp_all

lemma tensor_bytes_roundtrip:
  assumes "matrix_ok t" and "0 < dim1 t" and "0 < n" and exact: "\<And>x. x \<in> set (flatten t) \<Longrightarrow> dec (enc x) = x \<and> length (enc x) = n"
  shows "tensor_from_bytes dec n (concat (map enc (concat (t_data t)))) dt (dim0 t) (dim1 t) = mk_matrix dt ''cpu'' (dim1 t) (t_data t)"
    and "length (concat (map enc (concat (t_data t)))) = dim0 t * dim1 t * n"
proof -
  have rows: "\<And>r. r \<in> set (t_data t) \<Longrightarrow> length r = dim1 t" "length (t_data t) = dim0 t" using assms(1) by (auto simp: matrix_ok_def)
  have "chunks n (concat (map enc (concat (t_data t)))) = map enc (concat (t_data t))"
    using assms(3) exact by (intro chunks_concat) (auto simp: flatten_def)
  moreover have "map dec (map enc (concat (t_data t))) = concat (t_data t)"
    using exact by (intro map_idI [THEN trans [OF map_map]]) (auto simp: flatten_def)
  moreover have "chunks (dim1 t) (concat (t_data t)) = t_data t" using assms(2) rows(1) by (rule chunks_concat)
  ultimately show "tensor_from_bytes dec n (concat (map enc (concat (t_data t)))) dt (dim0 t) (dim1 t) = mk_matrix dt ''cpu'' (dim1 t) (t_data t)"
    by (simp add: tensor_from_bytes_def mk_matrix_def rows(2))
  have "length (concat (map enc (concat (t_data t)))) = length (concat (t_data t)) * n"
    using exact by (intro length_encoded) (simp add: flatten_def)
  also have "length (concat (t_data t)) = dim0 t * dim1 t" using length_flatten [OF assms(1)] by (simp add: flatten_def)
  finally show "length (concat (map enc (concat (t_data t)))) = dim0 t * dim1 t * n" .
qed

lemma int32_bytes_roundtrip:
  assumes "- (2 ^ 31) \<le> x" and "x < 2 ^ 31"
  shows "int32_of_bytes (int32_bytes x) = x"
proof -
  have "(\<Sum>k<4. int (int32_bytes x ! k) * 256 ^ k) =
      x mod 256 + (x div 256 mod 256) * 256 + (x div 65536 mod 256) * 65536 + (x div 16777216 mod 256) * 16777216"
  proof -
    have four: "{..<4::nat} = {0, 1, 2, 3}" by auto
    show ?thesis unfolding four by (simp add: int32_bytes_def)
  qed
  also have "\<dots> = x mod 2 ^ 32"
  proof -
    have step: "x mod (b * 256) = b * (x div b mod 256) + x mod b" for b by (rule zmod_zmult2_eq) simp
    have e: "(16777216::int) * 256 = 2 ^ 32" "(65536::int) * 256 = 16777216" "(256::int) * 256 = 65536" by simp_all
    have "x mod 2 ^ 32 = 16777216 * (x div 16777216 mod 256) + x mod 16777216" using step [of 16777216] unfolding e .
    also have "x mod 16777216 = 65536 * (x div 65536 mod 256) + x mod 65536" using step [of 65536] unfolding e .
    also have "x mod 65536 = 256 * (x div 256 mod 256) + x mod 256" using step [of 256] unfolding e .
    finally show ?thesis by linarith
  qed
  finally have "int32_of_bytes (int32_bytes x) = signed_take_bit 31 (take_bit (Suc 31) x)"
    by (simp add: int32_of_bytes_def take_bit_eq_mod)
  also have "\<dots> = signed_take_bit 31 x" by (simp add: signed_take_bit_take_bit)
  also have "\<dots> = x" using assms by (intro signed_take_bit_int_eq_self) simp_all
  finally show ?thesis .
qed

lemma length_int32_bytes [simp]: "length (int32_bytes x) = 4"
  by (simp add: int32_bytes_def)

definition float_exact :: "'f codec \<Rightarrow> dtype \<Rightarrow> 'f list \<Rightarrow> bool" where
  "float_exact P d xs \<longleftrightarrow>
     (\<forall>x\<in>set xs. pc_float_of_bytes P d (pc_float_bytes P d x) = x \<and> int (length (pc_float_bytes P d x)) = element_size d)"

section \<open>The request round trip\<close>

text \<open>The rows a batch sends: those its token indices name, or all.\<close>

definition sent_rows :: "'f worker_batch \<Rightarrow> 'f matrix" where
  "sent_rows b = (case wb_token_indices b of None \<Rightarrow> t_data (wb_hidden_states b) | Some ti \<Rightarrow> map (\<lambda>i. t_data (wb_hidden_states b) ! i) (t_data ti))"

definition tensors_ok :: "'f worker_batch \<Rightarrow> bool" where
  "tensors_ok b \<longleftrightarrow> matrix_ok (wb_hidden_states b) \<and> matrix_ok (wb_expert_ids b) \<and> matrix_ok (wb_routing_weights b) \<and>
     (case wb_token_indices b of None \<Rightarrow> True | Some ti \<Rightarrow> vector_ok ti \<and> (\<forall>i\<in>set (t_data ti). i < dim0 (wb_hidden_states b)))"

definition received_batch :: "worker_endpoint_config \<Rightarrow> 'f worker_batch \<Rightarrow> 'f worker_batch" where
  "received_batch spec b = b\<lparr>wb_hidden_states := mk_matrix (we_dtype spec) ''cpu'' (wb_hidden_dim b) (sent_rows b), wb_token_indices := None,
     wb_expert_ids := mk_matrix Int32 ''cpu'' (wb_top_k b) (t_data (wb_expert_ids b)),
     wb_routing_weights := mk_matrix Float32 ''cpu'' (wb_top_k b) (t_data (wb_routing_weights b)),
     wb_distinct_expert_ids := experts_in (flatten (wb_expert_ids b))\<rparr>"

lemma sent_rows_ok:
  assumes "tensors_ok b"
  shows "length (sent_rows b) = wb_token_count b" and "r \<in> set (sent_rows b) \<Longrightarrow> length r = wb_hidden_dim b"
proof -
  show "length (sent_rows b) = wb_token_count b"
    using assms by (auto simp: tensors_ok_def sent_rows_def wb_token_count_def matrix_ok_def vector_ok_def split: option.splits)
  show "length r = wb_hidden_dim b" if "r \<in> set (sent_rows b)"
    using assms that by (auto simp: tensors_ok_def sent_rows_def wb_hidden_dim_def matrix_ok_def split: option.splits)
qed

lemma sent_tensor:
  assumes "tensors_ok b"
  shows "\<exists>t. (case wb_token_indices b of None \<Rightarrow> Inr (wb_hidden_states b) | Some ti \<Rightarrow> select_rows (t_data ti) (wb_hidden_states b)) = Inr t \<and>
     t_data t = sent_rows b \<and> t_dtype t = t_dtype (wb_hidden_states b)"
  using assms by (auto simp: tensors_ok_def sent_rows_def select_rows_def not_le split: option.splits)

lemma received_batch_accepted:
  assumes "worker_batch_post_init b = None" and "tensors_ok b" and "we_dtype spec \<in> {Float16, BFloat16, Float32}"
    and "\<forall>e\<in>set (flatten (wb_expert_ids b)). e \<le> uint32_max"
  shows "worker_batch_post_init (received_batch spec b) = None"
proof -
  have B: "routing_meta_ok (wb_token_count b) (wb_hidden_states b) (wb_expert_ids b) (wb_routing_weights b)"
    "0 \<le> wb_instance_id b" "wb_instance_id b \<le> uint64_max" "0 \<le> wb_layer_id b" "wb_layer_id b \<le> uint32_max"
    "0 \<le> wb_topology_version b" "wb_topology_version b \<le> uint64_max" "0 < wb_token_count b"
    using assms(1) unfolding worker_batch_post_init_iff
    by (auto simp: wb_token_count_def routing_meta_ok_def split: option.splits)
  have dims: "dim0 (wb_expert_ids b) = wb_token_count b" "0 < wb_top_k b" "0 < wb_hidden_dim b" "length (t_data (wb_routing_weights b)) = wb_token_count b"
    "length (t_data (wb_expert_ids b)) = wb_token_count b"
    using B(1) assms(2) by (auto simp: routing_meta_ok_def wb_top_k_def wb_hidden_dim_def tensors_ok_def matrix_ok_def)
  have "distinct_ids_ok (experts_in (flatten (wb_expert_ids b)))"
    using assms(4) experts_in_props [of "flatten (wb_expert_ids b)"] by (auto simp: distinct_ids_ok_def)
  then show ?thesis
    unfolding worker_batch_post_init_iff using B dims assms(3) sent_rows_ok(1) [OF assms(2)]
    by (auto simp: received_batch_def routing_meta_ok_def wb_token_count_def ACTIVATION_DTYPES_def)
qed
lemma sent_bytes:
  assumes "matrix_ok t" and "0 < dim1 t" and "float_exact P d (flatten t)" and "d \<in> {Float16, BFloat16, Float32}"
  shows "tensor_from_bytes (pc_float_of_bytes P d) (nat (element_size d)) (concat (map (pc_float_bytes P d) (concat (t_data t)))) d (dim0 t) (dim1 t) =
      mk_matrix d ''cpu'' (dim1 t) (t_data t)"
    and "int (length (concat (map (pc_float_bytes P d) (concat (t_data t))))) = int (dim0 t) * int (dim1 t) * element_size d"
proof -
  have n: "0 < nat (element_size d)" and d: "0 \<le> element_size d" using assms(4) by auto
  have exact: "pc_float_of_bytes P d (pc_float_bytes P d x) = x \<and> length (pc_float_bytes P d x) = nat (element_size d)" if "x \<in> set (flatten t)" for x
    using assms(3) that by (auto simp: float_exact_def)
  note r = tensor_bytes_roundtrip [OF assms(1,2) n exact]
  show "tensor_from_bytes (pc_float_of_bytes P d) (nat (element_size d)) (concat (map (pc_float_bytes P d) (concat (t_data t)))) d (dim0 t) (dim1 t) =
      mk_matrix d ''cpu'' (dim1 t) (t_data t)" by (rule r(1))
  show "int (length (concat (map (pc_float_bytes P d) (concat (t_data t))))) = int (dim0 t) * int (dim1 t) * element_size d"
    using arg_cong [OF r(2), of int] by (simp add: d)
qed

definition sent_request :: "'f codec \<Rightarrow> 'f worker_batch \<Rightarrow> worker_endpoint_config \<Rightarrow> int \<Rightarrow> execute_request" where
  "sent_request P b spec dt = \<lparr>er_instance_id = wb_instance_id b, er_layer_id = wb_layer_id b, er_topology_version = wb_topology_version b,
     er_token_count = int (wb_token_count b), er_hidden_dim = int (wb_hidden_dim b), er_top_k = int (wb_top_k b), er_dtype = dt,
     er_hidden_states = concat (map (pc_float_bytes P (we_dtype spec)) (concat (sent_rows b))),
     er_expert_ids = concat (map int32_bytes (flatten (wb_expert_ids b))),
     er_routing_weights = concat (map (pc_float_bytes P Float32) (flatten (wb_routing_weights b)))\<rparr>"

text \<open>What the proofs below use of a valid batch for an endpoint.\<close>

definition batch_sendable :: "'f codec \<Rightarrow> ('f, 'z) torch_ops_scheme \<Rightarrow> 'f worker_batch \<Rightarrow> worker_endpoint_config \<Rightarrow> bool" where
  "batch_sendable P T b spec \<longleftrightarrow> worker_batch_post_init b = None \<and> validate_worker_batch b spec = None \<and> tensors_ok b \<and>
     representable Int32 (flatten (wb_expert_ids b)) \<and>
     routing_values_ok T (we_experts_per_layer spec) (flatten (wb_expert_ids b)) (flatten (wb_routing_weights b)) \<and>
     float_exact P (we_dtype spec) (concat (sent_rows b)) \<and> float_exact P Float32 (flatten (wb_routing_weights b))"

lemma sendable_facts:
  assumes "batch_sendable P T b spec"
  shows "worker_batch_post_init b = None" "validate_worker_batch b spec = None" "tensors_ok b"
    and "wb_instance_id b = we_instance_id spec" "wb_layer_id b < we_num_layers spec" "int (wb_token_count b) \<le> we_max_batch_tokens spec"
    and "int (wb_hidden_dim b) = we_hidden_dim spec" "int (wb_top_k b) = we_top_k spec" "t_dtype (wb_hidden_states b) = we_dtype spec"
    and "t_dtype (wb_routing_weights b) = Float32" "0 < wb_token_count b" "0 < wb_hidden_dim b" "0 < wb_top_k b"
    and "dim0 (wb_expert_ids b) = wb_token_count b" "dim0 (wb_routing_weights b) = wb_token_count b" "dim1 (wb_routing_weights b) = wb_top_k b"
    and "0 \<le> wb_instance_id b" "wb_instance_id b \<le> uint64_max" "0 \<le> wb_layer_id b" "wb_layer_id b \<le> uint32_max"
    and "0 \<le> wb_topology_version b" "wb_topology_version b \<le> uint64_max"
proof -
  show v: "worker_batch_post_init b = None" "validate_worker_batch b spec = None" "tensors_ok b" using assms by (auto simp: batch_sendable_def)
  show "wb_instance_id b = we_instance_id spec" "wb_layer_id b < we_num_layers spec" "int (wb_token_count b) \<le> we_max_batch_tokens spec"
    "int (wb_hidden_dim b) = we_hidden_dim spec" "int (wb_top_k b) = we_top_k spec" "t_dtype (wb_hidden_states b) = we_dtype spec"
    using v(2) by (simp_all add: validate_worker_batch_def)
  show "t_dtype (wb_routing_weights b) = Float32" "0 < wb_token_count b" "0 < wb_hidden_dim b" "0 < wb_top_k b"
    "dim0 (wb_expert_ids b) = wb_token_count b" "dim0 (wb_routing_weights b) = wb_token_count b" "dim1 (wb_routing_weights b) = wb_top_k b"
    using v(1) unfolding worker_batch_post_init_iff
    by (auto simp: routing_meta_ok_def wb_token_count_def wb_hidden_dim_def wb_top_k_def split: option.splits)
  show "0 \<le> wb_instance_id b" "wb_instance_id b \<le> uint64_max" "0 \<le> wb_layer_id b" "wb_layer_id b \<le> uint32_max"
    "0 \<le> wb_topology_version b" "wb_topology_version b \<le> uint64_max"
    using v(1) unfolding worker_batch_post_init_iff by blast+
qed

lemma sendable_tensors:
  assumes b: "batch_sendable P T b spec" and spec: "worker_endpoint_config_post_init spec = None"
    and dt: "activation_dtype_to_protobuf (we_dtype spec) = Inr dt"
  defines "m \<equiv> sent_request P b spec dt"
  shows "tensor_from_bytes (pc_float_of_bytes P (we_dtype spec)) (nat (activation_element_bytes spec)) (er_hidden_states m) (we_dtype spec)
      (wb_token_count b) (wb_hidden_dim b) = wb_hidden_states (received_batch spec b)"
    and "tensor_from_bytes int32_of_bytes 4 (er_expert_ids m) Int32 (wb_token_count b) (wb_top_k b) = wb_expert_ids (received_batch spec b)"
    and "tensor_from_bytes (pc_float_of_bytes P Float32) 4 (er_routing_weights m) Float32 (wb_token_count b) (wb_top_k b) = wb_routing_weights (received_batch spec b)"
    and "int (length (er_hidden_states m)) = int (wb_token_count b) * we_hidden_dim spec * activation_element_bytes spec"
    and "int (length (er_expert_ids m)) = int (wb_token_count b) * we_top_k spec * 4"
    and "int (length (er_routing_weights m)) = int (wb_token_count b) * we_top_k spec * 4"
proof -
  note F = sendable_facts [OF b] and R = endpoint_config_range [OF spec]
  let ?h = "mk_matrix (we_dtype spec) ''cpu'' (wb_hidden_dim b) (sent_rows b)"
  have h: "matrix_ok ?h" "dim0 ?h = wb_token_count b" "dim1 ?h = wb_hidden_dim b" "float_exact P (we_dtype spec) (flatten ?h)"
    using sent_rows_ok [OF F(3)] b by (auto simp: batch_sendable_def flatten_def)
  note H = sent_bytes [OF h(1) _ h(4) R(8), unfolded h(2,3), OF F(12)]
  show "tensor_from_bytes (pc_float_of_bytes P (we_dtype spec)) (nat (activation_element_bytes spec)) (er_hidden_states m) (we_dtype spec)
      (wb_token_count b) (wb_hidden_dim b) = wb_hidden_states (received_batch spec b)"
    using H(1) by (simp add: m_def sent_request_def activation_element_bytes_def received_batch_def)
  show "int (length (er_hidden_states m)) = int (wb_token_count b) * we_hidden_dim spec * activation_element_bytes spec"
    using H(2) F(7) by (simp add: m_def sent_request_def activation_element_bytes_def)
  let ?i = "wb_expert_ids b" and ?w = "wb_routing_weights b"
  have i: "matrix_ok ?i" "dim1 ?i = wb_top_k b" "matrix_ok ?w" using F(3) by (auto simp: tensors_ok_def wb_top_k_def)
  have exact: "int32_of_bytes (int32_bytes x) = x \<and> length (int32_bytes x) = 4" if "x \<in> set (flatten ?i)" for x
    using b that int32_bytes_roundtrip [of x] by (auto simp: batch_sendable_def representable_def)
  note I = tensor_bytes_roundtrip [OF i(1) _ _ exact, unfolded i(2) F(14), OF F(13)]
  show "tensor_from_bytes int32_of_bytes 4 (er_expert_ids m) Int32 (wb_token_count b) (wb_top_k b) = wb_expert_ids (received_batch spec b)"
    using I(1) by (simp add: m_def sent_request_def received_batch_def flatten_def del: map_concat)
  show "int (length (er_expert_ids m)) = int (wb_token_count b) * we_top_k spec * 4"
    using I(2) F(8) by (simp add: m_def sent_request_def flatten_def del: map_concat)
  have "float_exact P Float32 (flatten ?w)" using b by (simp add: batch_sendable_def)
  note W = sent_bytes [OF i(3) _ this, unfolded F(15,16), OF F(13), simplified]
  show "tensor_from_bytes (pc_float_of_bytes P Float32) 4 (er_routing_weights m) Float32 (wb_token_count b) (wb_top_k b) = wb_routing_weights (received_batch spec b)"
    using W(1) by (simp add: m_def sent_request_def received_batch_def flatten_def del: map_concat)
  show "int (length (er_routing_weights m)) = int (wb_token_count b) * we_top_k spec * 4"
    using W(2) F(8) by (simp add: m_def sent_request_def flatten_def del: map_concat)
qed

text \<open>
  C32. What the Frontend encodes is what the Worker decodes. For an endpoint with computable message
  limits, every batch that satisfies the sender's checks and the routing rules is encoded without
  an error, the message is never longer than the limit computed from the configuration, and the
  receiver accepts it and rebuilds exactly the sent batch: the selected rows, the expert numbers and
  weights, and the increasing list of the experts used; the retained bytes stay within the computed
  bound.
\<close>

theorem grpc_request_roundtrip:
  assumes "request_codec_doc P" and "worker_endpoint_config_post_init spec = None" and "calculate_message_limits spec = Inr limits"
    and "batch_sendable P T b spec"
  shows "\<exists>payload retained. encode_request P b spec = Inr payload \<and> int (length payload) \<le> gl_request_bytes limits \<and>
     decode_request_with_size P T payload spec = Inr \<lparr>dr_batch = received_batch spec b, dr_retained_tensor_bytes = retained\<rparr> \<and>
     retained \<le> gl_retained_request_tensor_bytes limits"
proof -
  note F = sendable_facts [OF assms(4)] and R = endpoint_config_range [OF assms(2)]
  from R(9) obtain dt where dt: "activation_dtype_to_protobuf (we_dtype spec) = Inr dt" by blast
  define m where "m = sent_request P b spec dt"
  note S = sendable_tensors [OF assms(4,2) dt, folded m_def]
  let ?payload = "pc_serialize_request P m"
  have m: "er_instance_id m = we_instance_id spec" "er_layer_id m = wb_layer_id b" "er_topology_version m = wb_topology_version b"
    "er_token_count m = int (wb_token_count b)" "er_hidden_dim m = we_hidden_dim spec" "er_top_k m = we_top_k spec" "er_dtype m = dt"
    using F(4,7,8) by (simp_all add: m_def sent_request_def)
  have "request_in_range m" using m F(4,6,17-22) R(1-3,9,11-13) dt by (auto simp: request_in_range_def)
  then have P: "pc_little_endian P" "pc_parse_request P ?payload = Some m" "int (length ?payload) \<le> request_wire_size m"
    using assms(1) by (auto simp: request_codec_doc_def)
  have "request_wire_size m \<le> gl_request_bytes limits"
    by (rule request_within_limit [OF assms(2,3)]) (use m dt F(4,6,17-22) S(4-6) in simp_all)
  then have len: "int (length ?payload) \<le> gl_request_bytes limits" using P(3) by linarith
  have dtype_back: "activation_dtype_from_protobuf dt = Some (we_dtype spec)"
    using dt by (auto simp: activation_dtype_to_protobuf_def activation_dtype_from_protobuf_def split: if_splits)
  obtain t where t: "(case wb_token_indices b of None \<Rightarrow> Inr (wb_hidden_states b) | Some ti \<Rightarrow> select_rows (t_data ti) (wb_hidden_states b)) = Inr t"
    "t_data t = sent_rows b" "t_dtype t = we_dtype spec" using sent_tensor [OF F(3)] F(9) by auto
  have enc: "encode_request P b spec = Inr ?payload"
    using len unfolding encode_request_def t(1) m_def sent_request_def
    by (simp add: require_little_endian_def P(1) F(2) serialize_host_request_def dt raw_bytes_def to_cpu_def t(2,3) F(10) assms(3) flatten_def Let_def del: map_concat)
  have vals: "flatten (wb_expert_ids b) \<noteq> []" "routing_values_ok T (we_experts_per_layer spec) (flatten (wb_expert_ids b)) (flatten (wb_routing_weights b))"
    using assms(4) F(3,11,13,14) length_flatten [of "wb_expert_ids b"] by (auto simp: batch_sendable_def tensors_ok_def wb_top_k_def)
  have flat: "flatten (wb_expert_ids (received_batch spec b)) = flatten (wb_expert_ids b)" "flatten (wb_routing_weights (received_batch spec b)) = flatten (wb_routing_weights b)"
    by (simp_all add: received_batch_def flatten_def)
  have routing: "validate_received_routing T (wb_expert_ids (received_batch spec b)) (wb_routing_weights (received_batch spec b)) (we_experts_per_layer spec) =
      Inr (experts_in (flatten (wb_expert_ids b)))"
    unfolding validate_received_routing_Inr flat using vals by blast
  have "\<forall>e\<in>set (flatten (wb_expert_ids b)). e \<le> uint32_max" using vals(2) R(7) by (auto simp: routing_values_ok_def)
  note acc = received_batch_accepted [OF F(1,3) R(8) this]
  have batch: "\<lparr>wb_instance_id = we_instance_id spec, wb_layer_id = wb_layer_id b, wb_topology_version = wb_topology_version b,
      wb_hidden_states = wb_hidden_states (received_batch spec b), wb_token_indices = None, wb_expert_ids = wb_expert_ids (received_batch spec b),
      wb_routing_weights = wb_routing_weights (received_batch spec b), wb_distinct_expert_ids = experts_in (flatten (wb_expert_ids b))\<rparr> = received_batch spec b"
    by (simp add: received_batch_def F(4))
  let ?retained = "int (wb_token_count b) * we_hidden_dim spec * activation_element_bytes spec + int (wb_token_count b) * we_top_k spec * 4 + int (wb_token_count b) * we_top_k spec * 4"
  have nats: "nat (we_hidden_dim spec) = wb_hidden_dim b" "nat (we_top_k spec) = wb_top_k b" using F(7,8) by (metis nat_int)+
  have "decode_request_with_size P T ?payload spec = Inr \<lparr>dr_batch = received_batch spec b, dr_retained_tensor_bytes = ?retained\<rparr>"
    using len F(5,6,11) dtype_back
    by (simp add: decode_request_with_size_def require_little_endian_def P(1,2) assms(3) m Let_def S nats routing acc batch)
  moreover have "?retained \<le> gl_retained_request_tensor_bytes limits"
    unfolding message_limits_values(2) [OF assms(2,3) dt] using F(6) R(1-3,10) by (intro add_mono mult_right_mono) simp_all
  ultimately show ?thesis using enc len by blast
qed

text \<open>A codec that packs a message into one number, with integers as elements.\<close>

definition ex_zero_request :: execute_request where
  "ex_zero_request = \<lparr>er_instance_id = 0, er_layer_id = 0, er_topology_version = 0, er_token_count = 0, er_hidden_dim = 0, er_top_k = 0, er_dtype = 0,
     er_hidden_states = [], er_expert_ids = [], er_routing_weights = []\<rparr>"

definition ex_pack :: "execute_request \<Rightarrow> nat" where
  "ex_pack m = list_encode [int_encode (er_instance_id m), int_encode (er_layer_id m), int_encode (er_topology_version m), int_encode (er_token_count m),
     int_encode (er_hidden_dim m), int_encode (er_top_k m), int_encode (er_dtype m), list_encode (er_hidden_states m), list_encode (er_expert_ids m),
     list_encode (er_routing_weights m)]"

definition ex_unpack :: "nat \<Rightarrow> execute_request" where
  "ex_unpack n = (let xs = list_decode n in \<lparr>er_instance_id = int_decode (xs ! 0), er_layer_id = int_decode (xs ! 1), er_topology_version = int_decode (xs ! 2),
     er_token_count = int_decode (xs ! 3), er_hidden_dim = int_decode (xs ! 4), er_top_k = int_decode (xs ! 5), er_dtype = int_decode (xs ! 6),
     er_hidden_states = list_decode (xs ! 7), er_expert_ids = list_decode (xs ! 8), er_routing_weights = list_decode (xs ! 9)\<rparr>)"

definition ex_codec :: "int codec" where
  "ex_codec = \<lparr>pc_little_endian = True, pc_serialize_request = (\<lambda>m. if m = ex_zero_request then [] else [ex_pack m]),
     pc_parse_request = (\<lambda>bs. Some (if bs = [] then ex_zero_request else ex_unpack (hd bs))),
     pc_serialize_response = (\<lambda>_. []), pc_parse_response = (\<lambda>_. Some Response_Empty),
     pc_float_bytes = (\<lambda>d x. int_encode x # replicate (nat (element_size d) - 1) 0), pc_float_of_bytes = (\<lambda>d bs. int_decode (hd bs)),
     pc_utf8 = map of_char, pc_utf8_decode_ignore = map char_of\<rparr>"

definition ex_endpoint :: worker_endpoint_config where
  "ex_endpoint = \<lparr>we_instance_id = 5, we_num_layers = 2, we_experts_per_layer = 4, we_max_batch_tokens = 8, we_hidden_dim = 2, we_top_k = 2, we_dtype = BFloat16\<rparr>"

definition ex_sent_batch :: "int worker_batch" where
  "ex_sent_batch = \<lparr>wb_instance_id = 5, wb_layer_id = 1, wb_topology_version = 3, wb_hidden_states = mk_matrix BFloat16 ''cuda'' 2 [[10, 11], [20, 21], [30, 31]],
     wb_token_indices = Some (mk_vector Int64 ''cuda'' [2, 0]), wb_expert_ids = mk_matrix Int32 ''cuda'' 2 [[3, -1], [0, 3]],
     wb_routing_weights = mk_matrix Float32 ''cuda'' 2 [[5, 0], [6, 7]], wb_distinct_expert_ids = [0, 3]\<rparr>"

lemma ex_codec_doc: "request_codec_doc ex_codec"
proof -
  have unpack: "ex_unpack (ex_pack m) = m" for m by (simp add: ex_pack_def ex_unpack_def Let_def)
  have "1 \<le> request_wire_size m" if "m \<noteq> ex_zero_request" for m
  proof -
    have pos: "0 \<le> scalar_wire_size v" "0 \<le> bytes_wire_size bs" for v bs
      using vsize_pos [of v] vsize_pos [of "int (length bs)"] by (simp_all add: scalar_wire_size_def bytes_wire_size_def)
    have zero: "scalar_wire_size v \<le> 0 \<Longrightarrow> v = 0" "bytes_wire_size bs \<le> 0 \<Longrightarrow> bs = []" for v bs
      using vsize_pos [of v] vsize_pos [of "int (length bs)"] by (auto simp: scalar_wire_size_def bytes_wire_size_def split: if_splits)
    have "m = ex_zero_request" if "request_wire_size m \<le> 0"
    proof -
      note p = pos(1) [of "er_instance_id m"] pos(1) [of "er_layer_id m"] pos(1) [of "er_topology_version m"] pos(1) [of "er_token_count m"]
        pos(1) [of "er_hidden_dim m"] pos(1) [of "er_top_k m"] pos(1) [of "er_dtype m"] pos(2) [of "er_hidden_states m"] pos(2) [of "er_expert_ids m"]
        pos(2) [of "er_routing_weights m"] that [unfolded request_wire_size_def]
      have "scalar_wire_size (er_instance_id m) \<le> 0" "scalar_wire_size (er_layer_id m) \<le> 0" "scalar_wire_size (er_topology_version m) \<le> 0"
        "scalar_wire_size (er_token_count m) \<le> 0" "scalar_wire_size (er_hidden_dim m) \<le> 0" "scalar_wire_size (er_top_k m) \<le> 0" "scalar_wire_size (er_dtype m) \<le> 0"
        "bytes_wire_size (er_hidden_states m) \<le> 0" "bytes_wire_size (er_expert_ids m) \<le> 0" "bytes_wire_size (er_routing_weights m) \<le> 0"
        using p by linarith+
      then show ?thesis by (cases m) (simp add: ex_zero_request_def zero)
    qed
    then show ?thesis using that by linarith
  qed
  moreover have "request_wire_size ex_zero_request = 0" by (simp add: request_wire_size_def ex_zero_request_def scalar_wire_size_def bytes_wire_size_def)
  ultimately show ?thesis by (simp add: request_codec_doc_def ex_codec_def unpack)
qed

theorem grpc_request_roundtrip_witness:
  "\<exists>payload retained. encode_request ex_codec ex_sent_batch ex_endpoint = Inr payload \<and> retained \<le> 160 \<and>
     decode_request_with_size ex_codec torch_ref payload ex_endpoint = Inr \<lparr>dr_batch =
       \<lparr>wb_instance_id = 5, wb_layer_id = 1, wb_topology_version = 3, wb_hidden_states = mk_matrix BFloat16 ''cpu'' 2 [[30, 31], [10, 11]],
        wb_token_indices = None, wb_expert_ids = mk_matrix Int32 ''cpu'' 2 [[3, -1], [0, 3]], wb_routing_weights = mk_matrix Float32 ''cpu'' 2 [[5, 0], [6, 7]],
        wb_distinct_expert_ids = [0, 3]\<rparr>, dr_retained_tensor_bytes = retained\<rparr>"
proof -
  have spec: "worker_endpoint_config_post_init ex_endpoint = None" by code_simp
  have "(case calculate_message_limits ex_endpoint of Inr limits \<Rightarrow> gl_retained_request_tensor_bytes limits = 160 | Inl _ \<Rightarrow> False)" by code_simp
  then obtain limits where limits: "calculate_message_limits ex_endpoint = Inr limits" "gl_retained_request_tensor_bytes limits = 160"
    by (auto split: sum.splits)
  have "batch_sendable ex_codec torch_ref ex_sent_batch ex_endpoint" by code_simp
  from grpc_request_roundtrip [OF ex_codec_doc spec limits(1) this] obtain payload retained where
    r: "encode_request ex_codec ex_sent_batch ex_endpoint = Inr payload" "retained \<le> 160"
    "decode_request_with_size ex_codec torch_ref payload ex_endpoint = Inr \<lparr>dr_batch = received_batch ex_endpoint ex_sent_batch, dr_retained_tensor_bytes = retained\<rparr>"
    using limits(2) by auto
  moreover have "received_batch ex_endpoint ex_sent_batch =
       \<lparr>wb_instance_id = 5, wb_layer_id = 1, wb_topology_version = 3, wb_hidden_states = mk_matrix BFloat16 ''cpu'' 2 [[30, 31], [10, 11]],
        wb_token_indices = None, wb_expert_ids = mk_matrix Int32 ''cpu'' 2 [[3, -1], [0, 3]], wb_routing_weights = mk_matrix Float32 ''cpu'' 2 [[5, 0], [6, 7]],
        wb_distinct_expert_ids = [0, 3]\<rparr>" by code_simp
  ultimately show ?thesis by metis
qed

end
