(* ===== verification/Shm_Session.thy ===== *)
theory Shm_Session
  imports Shm_Layout Wire_Codec
begin

text \<open>
  Shared-memory control messages and the Worker's side of a session:
  \<open>ek-transport/src/expertkit_transport/transports/shm/codec.py\<close> and \<open>transports/shm/session.py\<close>. The
  generated protobuf encoder and decoder are the arguments \<open>serialize\<close> and \<open>parse\<close>. What a slot of the
  segment contains is written by the other process, so the contents at the time of a claim are an
  argument; a slice of a view is the first rows of those contents.
\<close>

section \<open>Control messages\<close>

definition SHM_CONTROL_MESSAGE_BYTES :: nat where "SHM_CONTROL_MESSAGE_BYTES = 4096"

record open_session =
  os_session_id :: string
  os_segment_name :: string
  os_layout :: shm_layout

record execute_slot =
  xs_session_id :: string
  xs_slot_index :: int
  xs_generation :: int
  xs_layer_id :: int
  xs_topology_version :: int
  xs_token_count :: int
  xs_timeout_micros :: int

record open_message =
  om_instance_id :: int
  om_session_id :: string
  om_segment_name :: string
  om_segment_size :: int
  om_slot_count :: int
  om_max_batch_tokens :: int
  om_hidden_dim :: int
  om_top_k :: int
  om_dtype :: int

datatype shm_response = Completed_Generation int | Shm_Error compute_error | Shm_No_Result

definition shm_parse :: "(nat list \<Rightarrow> 'm option) \<Rightarrow> nat list \<Rightarrow> exn + 'm" where
  "shm_parse parse payload =
     (if length payload > SHM_CONTROL_MESSAGE_BYTES then Inl (TransportProtocolError ''shared-memory control message exceeds 4096 bytes'')
      else (case parse payload of None \<Rightarrow> Inl (TransportProtocolError ''shared-memory control message is not valid protobuf'') | Some m \<Rightarrow> Inr m))"

text \<open>\<open>except ValueError as error: raise TransportProtocolError(str(error))\<close>.\<close>

fun as_protocol_error :: "exn + 'a \<Rightarrow> exn + 'a" where
  "as_protocol_error (Inl (ValueError m)) = Inl (TransportProtocolError m)"
| "as_protocol_error r = r"

definition encode_open_request ::
  "(open_message \<Rightarrow> nat list) \<Rightarrow> int \<Rightarrow> string \<Rightarrow> string \<Rightarrow> shm_layout \<Rightarrow> worker_endpoint_config \<Rightarrow> exn + nat list" where
  "encode_open_request serialize page session_id segment_name layout spec =
     rbind (validate_session_id session_id) (\<lambda>_. rbind (activation_dtype_to_protobuf (we_dtype spec)) (\<lambda>dt.
       Inr (serialize \<lparr>om_instance_id = we_instance_id spec, om_session_id = session_id, om_segment_name = segment_name,
         om_segment_size = segment_size page layout, om_slot_count = sl_slot_count layout, om_max_batch_tokens = sl_max_batch_tokens layout,
         om_hidden_dim = sl_hidden_dim layout, om_top_k = sl_top_k layout, om_dtype = dt\<rparr>)))"

definition decode_open_request ::
  "(nat list \<Rightarrow> open_message option) \<Rightarrow> int \<Rightarrow> nat list \<Rightarrow> worker_endpoint_config \<Rightarrow> int \<Rightarrow> exn + open_session" where
  "decode_open_request parse page payload spec expected_slot_count =
     rbind (shm_parse parse payload) (\<lambda>request.
       let layout = \<lparr>sl_slot_count = om_slot_count request, sl_max_batch_tokens = om_max_batch_tokens request, sl_hidden_dim = om_hidden_dim request,
             sl_top_k = om_top_k request, sl_dtype = we_dtype spec\<rparr>
       in rbind (as_protocol_error (rbind (validate_session_id (om_session_id request)) (\<lambda>session_id.
              after (shm_layout_post_init page layout) (Inr session_id)))) (\<lambda>session_id.
          after (raise_first
            [(om_instance_id request \<noteq> we_instance_id spec, TransportProtocolError ''shared-memory model instance does not match the Worker''),
             (om_slot_count request \<noteq> expected_slot_count, TransportProtocolError ''shared-memory slot count does not match Worker admission''),
             (om_max_batch_tokens request \<noteq> we_max_batch_tokens spec \<or> om_hidden_dim request \<noteq> we_hidden_dim spec \<or> om_top_k request \<noteq> we_top_k spec \<or>
                activation_dtype_from_protobuf (om_dtype request) \<noteq> Some (we_dtype spec),
               TransportProtocolError ''shared-memory Tensor layout does not match the Worker''),
             (om_segment_size request \<noteq> segment_size page layout, TransportProtocolError ''shared-memory segment size does not match its layout'')])
           (Inr \<lparr>os_session_id = session_id, os_segment_name = om_segment_name request, os_layout = layout\<rparr>)))"

definition encode_execute_request :: "(execute_slot \<Rightarrow> nat list) \<Rightarrow> execute_slot \<Rightarrow> exn + nat list" where
  "encode_execute_request serialize request = rbind (validate_session_id (xs_session_id request)) (\<lambda>_. Inr (serialize request))"

definition decode_execute_request ::
  "(nat list \<Rightarrow> execute_slot option) \<Rightarrow> nat list \<Rightarrow> worker_endpoint_config \<Rightarrow> exn + execute_slot" where
  "decode_execute_request parse payload spec =
     rbind (shm_parse parse payload) (\<lambda>request.
       rbind (as_protocol_error (validate_session_id (xs_session_id request))) (\<lambda>session_id.
         after (raise_first
           [(xs_generation request = 0, TransportProtocolError ''shared-memory generation must be positive''),
            (xs_layer_id request \<ge> we_num_layers spec, TransportProtocolError ''shared-memory layer ID exceeds the configured range''),
            (\<not> (0 < xs_token_count request \<and> xs_token_count request \<le> we_max_batch_tokens spec),
              TransportProtocolError ''shared-memory token_count must be positive and within max_batch_tokens''),
            (xs_timeout_micros request = 0, TransportProtocolError ''shared-memory timeout_micros must be positive'')])
          (Inr request)))"

definition encode_execute_success :: "(shm_response \<Rightarrow> nat list) \<Rightarrow> int \<Rightarrow> exn + nat list" where
  "encode_execute_success serialize generation =
     (if generation \<le> 0 then Inl (ValueError ''shared-memory generation must be positive'') else Inr (serialize (Completed_Generation generation)))"

definition encode_execute_error ::
  "'f codec \<Rightarrow> (shm_response \<Rightarrow> nat list) \<Rightarrow> transport_error \<Rightarrow> worker_endpoint_config \<Rightarrow> exn + nat list" where
  "encode_execute_error P serialize e spec = rbind (encode_compute_error P e spec) (\<lambda>wire. Inr (serialize (Shm_Error wire)))"

definition decode_execute_response ::
  "'f codec \<Rightarrow> (nat list \<Rightarrow> shm_response option) \<Rightarrow> nat list \<Rightarrow> int \<Rightarrow> worker_endpoint_config \<Rightarrow> exn option" where
  "decode_execute_response P parse payload expected_generation spec =
     (case shm_parse parse payload of
        Inl e \<Rightarrow> Some e
      | Inr (Shm_Error wire) \<Rightarrow> Some (case decode_compute_error P wire spec of Inl e \<Rightarrow> e | Inr e \<Rightarrow> Raised_TransportError e)
      | Inr Shm_No_Result \<Rightarrow> Some (TransportProtocolError ''shared-memory response does not contain a result'')
      | Inr (Completed_Generation generation) \<Rightarrow>
          if generation \<noteq> expected_generation
          then Some (TransportProtocolError ''shared-memory response generation does not match the request'') else None)"

definition encode_close_request :: "(string \<Rightarrow> nat list) \<Rightarrow> string \<Rightarrow> exn + nat list" where
  "encode_close_request serialize session_id = rbind (validate_session_id session_id) (\<lambda>s. Inr (serialize s))"

definition decode_close_request :: "(nat list \<Rightarrow> string option) \<Rightarrow> nat list \<Rightarrow> exn + string" where
  "decode_close_request parse payload = rbind (shm_parse parse payload) (\<lambda>session_id. as_protocol_error (validate_session_id session_id))"

section \<open>The session of a Worker\<close>

text \<open>The contents of one slot as the four views show them; the output is only written by the Worker.\<close>

record 'f slot_contents =
  sc_hidden_states :: "'f matrix"
  sc_expert_ids :: "int matrix"
  sc_routing_weights :: "'f matrix"

record shm_session =
  ss_session_id :: string
  ss_spec :: worker_endpoint_config
  ss_region :: shm_region
  ss_slot_count :: nat
  ss_active_generations :: "int option list"
  ss_last_generations :: "int list"
  ss_closed :: bool

record 'f claimed_batch =
  cb_batch :: "'f worker_batch"
  cb_output_rows :: nat
  cb_slot_index :: int
  cb_generation :: int

text \<open>
  The constructor: opening the region, removing its name and making the views of every slot; an
  exception after opening closes the region.
\<close>

definition WorkerSharedMemorySession ::
  "int \<Rightarrow> open_session \<Rightarrow> worker_endpoint_config \<Rightarrow> bool \<Rightarrow> int \<Rightarrow> exn + file_metadata \<Rightarrow> exn option \<Rightarrow> exn option \<Rightarrow> exn + shm_session" where
  "WorkerSharedMemorySession page description spec cuda euid descriptor map_raises unlink_raises =
     rbind (region_open page (os_segment_name description) (os_layout description) cuda euid descriptor map_raises) (\<lambda>region.
       after unlink_raises
        (let linked = region_unlink region;
             indices = map int [0 ..< nat (sl_slot_count (os_layout description))]
         in rbind (rmap (region_slot page linked) indices) (\<lambda>slots.
              Inr \<lparr>ss_session_id = os_session_id description, ss_spec = spec, ss_region = linked, ss_slot_count = length slots,
                   ss_active_generations = replicate (length slots) None, ss_last_generations = replicate (length slots) 0, ss_closed = False\<rparr>)))"

definition active_count :: "shm_session \<Rightarrow> nat" where
  "active_count s = length (filter (\<lambda>g. g \<noteq> None) (ss_active_generations s))"

definition require_open :: "shm_session \<Rightarrow> exn option" where
  "require_open s = (if ss_closed s then Some (RuntimeError ''shared-memory session is closed'') else None)"

definition shm_release :: "int \<Rightarrow> int \<Rightarrow> shm_session \<Rightarrow> exn option \<times> shm_session" where
  "shm_release slot_index generation s =
     (case require_open s of
        Some e \<Rightarrow> (Some e, s)
      | None \<Rightarrow>
        if \<not> (0 \<le> slot_index \<and> slot_index < int (ss_slot_count s)) then (Some (RuntimeError ''shared-memory release names an unknown slot''), s)
        else if ss_active_generations s ! nat slot_index \<noteq> Some generation
        then (Some (RuntimeError ''shared-memory release does not own the active generation''), s)
        else (None, s\<lparr>ss_active_generations := (ss_active_generations s)[nat slot_index := None]\<rparr>))"

text \<open>The batch read from the slot, with the checks that may raise.\<close>

definition claimed_worker_batch ::
  "('f, 'z) torch_ops_scheme \<Rightarrow> worker_endpoint_config \<Rightarrow> execute_slot \<Rightarrow> 'f slot_contents \<Rightarrow> exn + 'f worker_batch" where
  "claimed_worker_batch T spec request contents =
     (let n = nat (xs_token_count request);
          hidden_states = mk_matrix (we_dtype spec) ''cpu'' (nat (we_hidden_dim spec)) (take n (sc_hidden_states contents));
          expert_ids = mk_matrix Int32 ''cpu'' (nat (we_top_k spec)) (take n (sc_expert_ids contents));
          routing_weights = mk_matrix Float32 ''cpu'' (nat (we_top_k spec)) (take n (sc_routing_weights contents))
      in rbind (validate_received_routing T expert_ids routing_weights (we_experts_per_layer spec)) (\<lambda>experts.
           let batch = \<lparr>wb_instance_id = we_instance_id spec, wb_layer_id = xs_layer_id request, wb_topology_version = xs_topology_version request,
                 wb_hidden_states = hidden_states, wb_token_indices = None, wb_expert_ids = expert_ids, wb_routing_weights = routing_weights,
                 wb_distinct_expert_ids = experts\<rparr>
           in after (worker_batch_post_init batch) (Inr batch)))"

definition shm_claim ::
  "('f, 'z) torch_ops_scheme \<Rightarrow> 'f slot_contents \<Rightarrow> execute_slot \<Rightarrow> shm_session \<Rightarrow> (exn + 'f claimed_batch) \<times> shm_session" where
  "shm_claim T contents request s =
     (let i = xs_slot_index request;
          generation = xs_generation request
      in case require_open s of
           Some e \<Rightarrow> (Inl e, s)
         | None \<Rightarrow>
           if xs_session_id request \<noteq> ss_session_id s then (Inl (TransportProtocolError ''shared-memory request names the wrong session''), s)
           else if \<not> (0 \<le> i \<and> i < int (ss_slot_count s)) then (Inl (TransportProtocolError ''shared-memory slot index is outside the session''), s)
           else if ss_active_generations s ! nat i \<noteq> None then (Inl (SharedMemorySlotBusy ''shared-memory slot is still active''), s)
           else if generation \<le> ss_last_generations s ! nat i then (Inl (TransportProtocolError ''shared-memory slot generation is stale''), s)
           else
             let s1 = s\<lparr>ss_active_generations := (ss_active_generations s)[nat i := Some generation],
                        ss_last_generations := (ss_last_generations s)[nat i := generation]\<rparr>
             in (case claimed_worker_batch T (ss_spec s) request contents of
                   Inl e \<Rightarrow> (case shm_release i generation s1 of (Some e', s2) \<Rightarrow> (Inl e', s2) | (None, s2) \<Rightarrow> (Inl e, s2))
                 | Inr batch \<Rightarrow>
                     (Inr \<lparr>cb_batch = batch, cb_output_rows = nat (min (xs_token_count request) (sl_max_batch_tokens (sr_layout (ss_region s)))),
                           cb_slot_index = i, cb_generation = generation\<rparr>, s1)))"

definition session_close :: "exn option \<Rightarrow> exn option \<Rightarrow> exn option \<Rightarrow> shm_session \<Rightarrow> exn option \<times> shm_session" where
  "session_close unregister unmap close_descriptor s =
     (if ss_closed s then (None, s)
      else if active_count s \<noteq> 0 then (Some (RuntimeError ''cannot close a shared-memory session with active slots''), s)
      else (case region_close unregister unmap close_descriptor None (ss_region s) of
              (e, region) \<Rightarrow> (e, s\<lparr>ss_closed := True, ss_slot_count := 0, ss_region := region\<rparr>)))"

section \<open>Claims and releases in any order\<close>

text \<open>
  A session with the claims that were granted, in order, and those not yet released. Requests, slot
  contents and releases are arbitrary.
\<close>

record shm_system =
  sy_session :: shm_session
  sy_held :: "(int \<times> int) list"
  sy_claimed :: "(int \<times> int) list"

definition do_claim :: "('f, 'z) torch_ops_scheme \<Rightarrow> 'f slot_contents \<Rightarrow> execute_slot \<Rightarrow> shm_system \<Rightarrow> shm_system" where
  "do_claim T contents request y =
     (case shm_claim T contents request (sy_session y) of
        (Inl _, s) \<Rightarrow> y\<lparr>sy_session := s\<rparr>
      | (Inr c, s) \<Rightarrow> \<lparr>sy_session = s, sy_held = (cb_slot_index c, cb_generation c) # sy_held y, sy_claimed = sy_claimed y @ [(cb_slot_index c, cb_generation c)]\<rparr>)"

definition do_release :: "int \<Rightarrow> int \<Rightarrow> shm_system \<Rightarrow> shm_system" where
  "do_release i g y =
     (case shm_release i g (sy_session y) of
        (Some _, s) \<Rightarrow> y\<lparr>sy_session := s\<rparr>
      | (None, s) \<Rightarrow> y\<lparr>sy_session := s, sy_held := removeAll (i, g) (sy_held y)\<rparr>)"

definition do_session_close :: "exn option \<Rightarrow> exn option \<Rightarrow> exn option \<Rightarrow> shm_system \<Rightarrow> shm_system" where
  "do_session_close a b c y = y\<lparr>sy_session := snd (session_close a b c (sy_session y))\<rparr>"

inductive session_step :: "('f, 'z) torch_ops_scheme \<Rightarrow> shm_system \<Rightarrow> shm_system \<Rightarrow> bool" for T where
  session_step_claim: "session_step T y (do_claim T contents request y)"
| session_step_release: "session_step T y (do_release i g y)"
| session_step_close: "session_step T y (do_session_close a b c y)"

definition session_init :: "shm_system \<Rightarrow> bool" where
  "session_init y \<longleftrightarrow> sy_held y = [] \<and> sy_claimed y = [] \<and>
     (\<exists>page description spec cuda euid descriptor map_raises unlink_raises.
        WorkerSharedMemorySession page description spec cuda euid descriptor map_raises unlink_raises = Inr (sy_session y))"

definition session_inv :: "shm_system \<Rightarrow> bool" where
  "session_inv y \<longleftrightarrow> (let s = sy_session y; n = length (ss_active_generations s) in
     length (ss_last_generations s) = n \<and> (\<not> ss_closed s \<longrightarrow> ss_slot_count s = n) \<and> (ss_closed s \<longrightarrow> sy_held y = []) \<and>
     distinct (sy_held y) \<and>
     (\<forall>i g. (i, g) \<in> set (sy_held y) \<longleftrightarrow> 0 \<le> i \<and> i < int n \<and> ss_active_generations s ! nat i = Some g) \<and>
     sorted_wrt (\<lambda>p q. fst p = fst q \<longrightarrow> snd p < snd q) (sy_claimed y) \<and> set (sy_held y) \<subseteq> set (sy_claimed y) \<and>
     (\<forall>i g. (i, g) \<in> set (sy_claimed y) \<longrightarrow> 0 \<le> i \<and> i < int n \<and> g \<le> ss_last_generations s ! nat i))"

lemma session_init_inv: "session_init y \<Longrightarrow> session_inv y"
proof -
  assume init: "session_init y"
  then obtain n where "ss_active_generations (sy_session y) = replicate n None" "ss_last_generations (sy_session y) = replicate n 0"
    "ss_slot_count (sy_session y) = n" "\<not> ss_closed (sy_session y)"
    by (cases "sy_session y") (auto simp: session_init_def WorkerSharedMemorySession_def Let_def)
  then show ?thesis using init by (auto simp: session_inv_def session_init_def Let_def)
qed

text \<open>A claim either leaves the active slots alone, possibly advancing the last generation, or takes a free slot.\<close>

lemma shm_claim_cases:
  assumes "shm_claim T contents request s = (r, s')" and "\<not> ss_closed s \<longrightarrow> ss_slot_count s = length (ss_active_generations s)"
  obtains e where "r = Inl e" and "s' = s"
  | e i g where "r = Inl e" and "0 \<le> i" and "i < int (length (ss_active_generations s))" and "ss_active_generations s ! nat i = None"
      and "ss_last_generations s ! nat i < g" and "s' = s\<lparr>ss_last_generations := (ss_last_generations s)[nat i := g]\<rparr>"
  | c where "r = Inr c" and "\<not> ss_closed s" and "0 \<le> cb_slot_index c" and "cb_slot_index c < int (length (ss_active_generations s))"
      and "ss_active_generations s ! nat (cb_slot_index c) = None" and "ss_last_generations s ! nat (cb_slot_index c) < cb_generation c"
      and "s' = s\<lparr>ss_active_generations := (ss_active_generations s)[nat (cb_slot_index c) := Some (cb_generation c)],
                  ss_last_generations := (ss_last_generations s)[nat (cb_slot_index c) := cb_generation c]\<rparr>"
proof (cases "ss_closed s \<or> xs_session_id request \<noteq> ss_session_id s \<or> \<not> (0 \<le> xs_slot_index request \<and> xs_slot_index request < int (ss_slot_count s)) \<or>
    ss_active_generations s ! nat (xs_slot_index request) \<noteq> None \<or> xs_generation request \<le> ss_last_generations s ! nat (xs_slot_index request)")
  case True
  then have "\<exists>e. r = Inl e \<and> s' = s" using assms(1) by (auto simp: shm_claim_def require_open_def Let_def split: if_splits)
  then show ?thesis using that(1) by blast
next
  case False
  let ?i = "xs_slot_index request" and ?g = "xs_generation request"
  have i: "0 \<le> ?i" "?i < int (length (ss_active_generations s))" "ss_active_generations s ! nat ?i = None" "ss_last_generations s ! nat ?i < ?g"
    using False assms(2) by auto
  define s1 where "s1 = s\<lparr>ss_active_generations := (ss_active_generations s)[nat ?i := Some ?g], ss_last_generations := (ss_last_generations s)[nat ?i := ?g]\<rparr>"
  have "nat ?i < length (ss_active_generations s)" using i(1,2) by linarith
  then have "(ss_active_generations s)[nat ?i := None] = ss_active_generations s" using i(3) by (metis list_update_id)
  then have rel: "shm_release ?i ?g s1 = (None, s\<lparr>ss_last_generations := (ss_last_generations s)[nat ?i := ?g]\<rparr>)"
    using False \<open>nat ?i < length (ss_active_generations s)\<close> by (simp add: shm_release_def require_open_def s1_def)
  show ?thesis
  proof (cases "claimed_worker_batch T (ss_spec s) request contents")
    case (Inl e)
    then have "r = Inl e" "s' = s\<lparr>ss_last_generations := (ss_last_generations s)[nat ?i := ?g]\<rparr>"
      using assms(1) False rel by (simp_all add: shm_claim_def require_open_def Let_def s1_def)
    then show ?thesis using that(2) i by blast
  next
    case (Inr batch)
    then show ?thesis using assms(1) False i that(3)
      by (fastforce simp: shm_claim_def require_open_def Let_def)
  qed
qed

lemma session_invD:
  assumes "session_inv y"
  defines "s \<equiv> sy_session y" and "n \<equiv> length (ss_active_generations (sy_session y))"
  shows "length (ss_last_generations s) = n" and "\<not> ss_closed s \<longrightarrow> ss_slot_count s = n" and "ss_closed s \<Longrightarrow> sy_held y = []" and "distinct (sy_held y)"
    and "(i, g) \<in> set (sy_held y) \<longleftrightarrow> 0 \<le> i \<and> i < int n \<and> ss_active_generations s ! nat i = Some g"
    and "sorted_wrt (\<lambda>p q. fst p = fst q \<longrightarrow> snd p < snd q) (sy_claimed y)" and "set (sy_held y) \<subseteq> set (sy_claimed y)"
    and "(i, g) \<in> set (sy_claimed y) \<Longrightarrow> 0 \<le> i \<and> i < int n \<and> g \<le> ss_last_generations s ! nat i"
  using assms unfolding session_inv_def Let_def by blast+

lemma nth_update_int: "0 \<le> i \<Longrightarrow> 0 \<le> j \<Longrightarrow> i < int (length xs) \<Longrightarrow> xs[nat i := v] ! nat j = (if j = i then v else xs ! nat j)"
  by (auto simp: nth_list_update nat_eq_iff)

lemma do_claim_inv:
  assumes inv: "session_inv y"
  shows "session_inv (do_claim T contents request y)"
proof -
  note I = session_invD [OF inv]
  let ?s = "sy_session y" and ?n = "length (ss_active_generations (sy_session y))"
  obtain r s' where run: "shm_claim T contents request ?s = (r, s')" by fastforce
  from run I(2) show ?thesis
  proof (cases rule: shm_claim_cases)
    case (1 e)
    then show ?thesis using inv by (simp add: do_claim_def run)
  next
    case (2 e i g)
    have "k \<le> (ss_last_generations ?s)[nat i := g] ! nat j" if "(j, k) \<in> set (sy_claimed y)" for j k
      using I(8) [OF that] 2(2-5) I(1) nth_update_int [of i j "ss_last_generations ?s" g] by auto
    then show ?thesis using inv 2(1,6) unfolding session_inv_def Let_def do_claim_def run by (simp add: split_beta)
  next
    case (3 c)
    let ?i = "cb_slot_index c" and ?g = "cb_generation c"
    let ?a = "(ss_active_generations ?s)[nat ?i := Some ?g]" and ?l = "(ss_last_generations ?s)[nat ?i := ?g]"
    have y': "do_claim T contents request y = \<lparr>sy_session = s', sy_held = (?i, ?g) # sy_held y, sy_claimed = sy_claimed y @ [(?i, ?g)]\<rparr>"
      by (simp add: do_claim_def run 3(1))
    have new: "(?i, k) \<notin> set (sy_held y)" for k using I(5) 3(5) by simp
    have act: "?a ! nat j = (if j = ?i then Some ?g else ss_active_generations ?s ! nat j)" if "0 \<le> j" for j
      using nth_update_int [of ?i j] 3(3,4) that by simp
    have held: "(j, k) \<in> set ((?i, ?g) # sy_held y) \<longleftrightarrow> 0 \<le> j \<and> j < int ?n \<and> ?a ! nat j = Some k" for j k
      using I(5) [of j k] act [of j] 3(3,4) new [of k] by (cases "j = ?i") auto
    have last: "0 \<le> j \<and> j < int ?n \<and> k \<le> ?l ! nat j" if "(j, k) \<in> set (sy_claimed y @ [(?i, ?g)])" for j k
    proof (cases "(j, k) \<in> set (sy_claimed y)")
      case True
      then show ?thesis using I(8) [OF True] nth_update_int [of ?i j "ss_last_generations ?s" ?g] 3(3,4,6) I(1) by auto
    next
      case False
      then show ?thesis using that 3(3,4) I(1) nth_update_int [of ?i ?i "ss_last_generations ?s" ?g] by auto
    qed
    have sorted: "sorted_wrt (\<lambda>p q. fst p = fst q \<longrightarrow> snd p < snd q) (sy_claimed y @ [(?i, ?g)])"
      using I(6) I(8) 3(6) by (fastforce simp: sorted_wrt_append)
    show ?thesis
      unfolding session_inv_def Let_def y' using held last sorted I(1,2,4,7) new 3(2,7) by (simp add: subset_insertI2)
  qed
qed

lemma do_release_inv:
  assumes inv: "session_inv y"
  shows "session_inv (do_release i g y)"
proof (cases "fst (shm_release i g (sy_session y))")
  case None
  note I = session_invD [OF inv]
  let ?s = "sy_session y" and ?a = "(ss_active_generations (sy_session y))[nat i := None]"
  have c: "\<not> ss_closed ?s" "0 \<le> i" "i < int (length (ss_active_generations ?s))" "ss_active_generations ?s ! nat i = Some g"
    and s': "snd (shm_release i g ?s) = ?s\<lparr>ss_active_generations := ?a\<rparr>"
    using None I(2) by (auto simp: shm_release_def require_open_def split: if_splits)
  have y': "do_release i g y = y\<lparr>sy_session := ?s\<lparr>ss_active_generations := ?a\<rparr>, sy_held := removeAll (i, g) (sy_held y)\<rparr>"
    using None s' by (cases "shm_release i g ?s") (simp add: do_release_def)
  have "(j, k) \<in> set (removeAll (i, g) (sy_held y)) \<longleftrightarrow> 0 \<le> j \<and> j < int (length ?a) \<and> ?a ! nat j = Some k" for j k
    using I(5) [of j k] nth_update_int [of i j "ss_active_generations ?s" None] c(2-4) by (cases "j = i") auto
  then show ?thesis
    unfolding session_inv_def Let_def y' using I(1,2,4,6-8) c(1) by (auto simp: distinct_removeAll)
next
  case (Some e)
  then have "snd (shm_release i g (sy_session y)) = sy_session y" by (auto simp: shm_release_def split: option.splits if_splits)
  then show ?thesis using Some inv by (cases "shm_release i g (sy_session y)") (simp add: do_release_def)
qed

lemma do_close_inv:
  assumes inv: "session_inv y"
  shows "session_inv (do_session_close a b c y)"
proof (cases "ss_closed (sy_session y) \<or> active_count (sy_session y) \<noteq> 0")
  case True
  then have "do_session_close a b c y = y" by (auto simp: do_session_close_def session_close_def)
  then show ?thesis using inv by simp
next
  case False
  note I = session_invD [OF inv]
  have none: "g = None" if "g \<in> set (ss_active_generations (sy_session y))" for g
    using False that by (auto simp: active_count_def filter_empty_conv)
  have "sy_held y = []"
  proof (rule ccontr)
    assume "sy_held y \<noteq> []"
    then obtain i g where "(i, g) \<in> set (sy_held y)" by (metis list.set_intros(1) neq_Nil_conv surj_pair)
    then have "0 \<le> i" "i < int (length (ss_active_generations (sy_session y)))" "ss_active_generations (sy_session y) ! nat i = Some g" using I(5) by blast+
    moreover from this have "nat i < length (ss_active_generations (sy_session y))" by linarith
    ultimately show False using none [OF nth_mem] by simp
  qed
  moreover have "\<exists>r. snd (session_close a b c (sy_session y)) = (sy_session y)\<lparr>ss_closed := True, ss_slot_count := 0, ss_region := r\<rparr>"
    using False by (auto simp: session_close_def split: prod.splits)
  ultimately show ?thesis using inv by (auto simp: do_session_close_def session_inv_def Let_def)
qed

interpretation session: invariant_system session_init "session_step T" session_inv for T :: "('f, 'z) torch_ops_scheme"
  by unfold_locales (auto intro: session_init_inv elim!: session_step.cases dest: do_claim_inv do_release_inv do_close_inv)

text \<open>
  C33. Slots of a shared-memory session are used by one request at a time and no request twice.
  Whatever requests, slot contents and releases arrive in any order, the granted claims that are not yet
  released hold different slots and are exactly the active generations of the session; of each slot
  the granted generations strictly increase, so that a replayed or stale request is never granted;
  and a session is closed only when it holds no claim.
\<close>

theorem shm_slots_exclusive:
  fixes T :: "('f, 'z) torch_ops_scheme"
  assumes "reachable session_init (session_step T) y"
  shows "distinct (map fst (sy_held y)) \<and>
     (\<forall>i g. (i, g) \<in> set (sy_held y) \<longleftrightarrow>
        0 \<le> i \<and> i < int (length (ss_active_generations (sy_session y))) \<and> ss_active_generations (sy_session y) ! nat i = Some g) \<and>
     sorted_wrt (\<lambda>p q. fst p = fst q \<longrightarrow> snd p < snd q) (sy_claimed y) \<and> set (sy_held y) \<subseteq> set (sy_claimed y) \<and>
     (ss_closed (sy_session y) \<longrightarrow> sy_held y = [])"
proof -
  note I = session_invD [OF session.reachable_inv [OF assms]]
  have "inj_on fst (set (sy_held y))" by (auto simp: inj_on_def I(5))
  then show ?thesis using I(4-7) I(3) by (auto simp: distinct_map simp del: split_paired_All)
qed

definition ex_session_id :: string where "ex_session_id = ''0123456789abcdef0123456789abcdef''"

definition ex_shm_layout :: shm_layout where
  "ex_shm_layout = \<lparr>sl_slot_count = 2, sl_max_batch_tokens = 8, sl_hidden_dim = 2, sl_top_k = 2, sl_dtype = BFloat16\<rparr>"

definition ex_session :: shm_session where
  "ex_session = \<lparr>ss_session_id = ex_session_id, ss_spec = ex_endpoint, ss_region = region_unlink (region_of ex_shm_layout False False), ss_slot_count = 2,
     ss_active_generations = [None, None], ss_last_generations = [0, 0], ss_closed = False\<rparr>"

definition ex_slot_request :: "int \<Rightarrow> int \<Rightarrow> execute_slot" where
  "ex_slot_request i g = \<lparr>xs_session_id = ex_session_id, xs_slot_index = i, xs_generation = g, xs_layer_id = 1, xs_topology_version = 3,
     xs_token_count = 2, xs_timeout_micros = 100\<rparr>"

definition ex_contents :: "int slot_contents" where
  "ex_contents = \<lparr>sc_hidden_states = replicate 8 [1, 2], sc_expert_ids = [[3, -1], [0, 3]] @ replicate 6 [0, 0], sc_routing_weights = [[5, 0], [6, 7]] @ replicate 6 [0, 0]\<rparr>"

definition ex_system :: shm_system where
  "ex_system = do_claim torch_ref ex_contents (ex_slot_request 0 5) (do_claim torch_ref ex_contents (ex_slot_request 1 2)
     (do_release 0 4 (do_claim torch_ref ex_contents (ex_slot_request 0 4) \<lparr>sy_session = ex_session, sy_held = [], sy_claimed = []\<rparr>)))"

theorem shm_slots_exclusive_witness:
  "distinct (map fst (sy_held ex_system)) \<and> set (sy_held ex_system) = {(0, 5), (1, 2)} \<and>
   set (sy_held ex_system) \<subseteq> set (sy_claimed ex_system) \<and> sy_claimed ex_system = [(0, 4), (1, 2), (0, 5)]"
proof -
  have "WorkerSharedMemorySession 4096 \<lparr>os_session_id = ex_session_id, os_segment_name = ''expertkit-'' @ ex_session_id, os_layout = ex_shm_layout\<rparr> ex_endpoint
      False 7 (Inr \<lparr>fm_regular = True, fm_uid = 7, fm_mode = 384, fm_size = 8192\<rparr>) None None = Inr ex_session" by code_simp
  then have "session_init \<lparr>sy_session = ex_session, sy_held = [], sy_claimed = []\<rparr>" unfolding session_init_def by (simp del: append_Cons) blast
  then have r: "reachable session_init (session_step torch_ref) ex_system"
    unfolding ex_system_def
    by (intro reach_step [where step = "session_step torch_ref", OF _ session_step_claim]
        reach_step [where step = "session_step torch_ref", OF _ session_step_release] reach_init)
  have held: "sy_held ex_system = [(0, 5), (1, 2)]" "sy_claimed ex_system = [(0, 4), (1, 2), (0, 5)]" by code_simp+
  then show ?thesis using shm_slots_exclusive [OF r] held by simp
qed

end
