(* ===== verification/State_Reporter.thy ===== *)
theory State_Reporter
  imports Control_Parts
begin

text \<open>
  \<open>ek-worker/src/expertkit_worker/control/state_reporter.py\<close>: coalescing and encoding of expert state
  reports. An \<open>asyncio.Event\<close> is a flag; a coroutine that waits is split at its await, so that
  \<open>flush_pass\<close> and \<open>take_updates_pass\<close> are one turn of their loops. Times are integers in
  milliseconds and every clock reading is an argument. The protobuf enumerations are datatypes and the
  lookup tables functions; the characters of a diagnostic are the code points below 256.
\<close>

datatype expert_state_proto = EXPERT_READY | EXPERT_FAILED | EXPERT_REMOVED

datatype load_stage_proto =
    WEIGHT_LOAD_FETCH | WEIGHT_LOAD_READ | WEIGHT_LOAD_PARSE | WEIGHT_LOAD_VALIDATE | WEIGHT_LOAD_CONVERT | WEIGHT_LOAD_PLACE

datatype load_code_proto =
    WEIGHT_LOAD_ERROR_NOT_FOUND | WEIGHT_LOAD_ERROR_IO | WEIGHT_LOAD_ERROR_NETWORK | WEIGHT_LOAD_ERROR_INVALID_FORMAT
  | WEIGHT_LOAD_ERROR_UNEXPECTED_METADATA | WEIGHT_LOAD_ERROR_UNSUPPORTED | WEIGHT_LOAD_ERROR_INTERNAL

definition MAX_WEIGHT_DIAGNOSTIC_BYTES :: nat where
  "MAX_WEIGHT_DIAGNOSTIC_BYTES = 1024"

fun state_kind_to_proto :: "expert_state_kind \<Rightarrow> expert_state_proto" where
  "state_kind_to_proto READY = EXPERT_READY"
| "state_kind_to_proto FAILED = EXPERT_FAILED"
| "state_kind_to_proto REMOVED = EXPERT_REMOVED"

fun load_stage_to_proto :: "weight_load_stage \<Rightarrow> load_stage_proto" where
  "load_stage_to_proto FETCH = WEIGHT_LOAD_FETCH"
| "load_stage_to_proto READ = WEIGHT_LOAD_READ"
| "load_stage_to_proto PARSE = WEIGHT_LOAD_PARSE"
| "load_stage_to_proto VALIDATE = WEIGHT_LOAD_VALIDATE"
| "load_stage_to_proto CONVERT = WEIGHT_LOAD_CONVERT"
| "load_stage_to_proto PLACE = WEIGHT_LOAD_PLACE"

fun load_code_to_proto :: "weight_load_error_code \<Rightarrow> load_code_proto" where
  "load_code_to_proto WL_NOT_FOUND = WEIGHT_LOAD_ERROR_NOT_FOUND"
| "load_code_to_proto WL_IO = WEIGHT_LOAD_ERROR_IO"
| "load_code_to_proto WL_NETWORK = WEIGHT_LOAD_ERROR_NETWORK"
| "load_code_to_proto WL_INVALID_FORMAT = WEIGHT_LOAD_ERROR_INVALID_FORMAT"
| "load_code_to_proto WL_UNEXPECTED_METADATA = WEIGHT_LOAD_ERROR_UNEXPECTED_METADATA"
| "load_code_to_proto WL_UNSUPPORTED = WEIGHT_LOAD_ERROR_UNSUPPORTED"
| "load_code_to_proto WL_INTERNAL = WEIGHT_LOAD_ERROR_INTERNAL"

section \<open>Diagnostics\<close>

text \<open>
  \<open>str.encode("utf-8")\<close> of the code points below 256, and \<open>bytes.decode("utf-8", errors="ignore")\<close> of
  a prefix of such an encoding: a lead byte without its continuation byte is dropped.
\<close>

definition utf8_char :: "char \<Rightarrow> nat list" where
  "utf8_char c = (let n = of_char c :: nat in if n < 128 then [n] else [192 + n div 64, 128 + n mod 64])"

definition utf8_encode :: "string \<Rightarrow> nat list" where
  "utf8_encode s = concat (map utf8_char s)"

fun utf8_decode_ignore :: "nat list \<Rightarrow> string" where
  "utf8_decode_ignore [] = []"
| "utf8_decode_ignore [b] = (if b < 128 then [char_of b] else [])"
| "utf8_decode_ignore (b # c # bs) =
     (if b < 128 then char_of b # utf8_decode_ignore (c # bs)
      else if 192 \<le> b \<and> 128 \<le> c \<and> c < 192 then char_of ((b - 192) * 64 + (c - 128)) # utf8_decode_ignore bs
      else utf8_decode_ignore (c # bs))"

definition bounded_weight_diagnostic :: "string \<Rightarrow> string" where
  "bounded_weight_diagnostic val =
     (let encoded = utf8_encode val
      in if length encoded \<le> MAX_WEIGHT_DIAGNOSTIC_BYTES then val
         else utf8_decode_ignore (take MAX_WEIGHT_DIAGNOSTIC_BYTES encoded))"

section \<open>Messages\<close>

record wire_load_failure =
  wl_stage :: load_stage_proto
  wl_code :: load_code_proto
  wl_retryable :: bool
  wl_diagnostic :: string

record wire_expert_state =
  we_layer_id :: int
  we_expert_id :: int
  we_state :: expert_state_proto
  we_failure :: "wire_load_failure option"

record full_state_part =
  fs_placement_generation :: int
  fs_report_sequence :: int
  fs_part_index :: nat
  fs_part_count :: nat
  fs_experts :: "wire_expert_state list"

record state_updates =
  su_placement_generation :: int
  su_report_sequence :: int
  su_experts :: "wire_expert_state list"

datatype worker_weight_message =
    Open_Stream string string
  | Full_State full_state_part
  | State_Updates state_updates
  | Drain_Complete int

definition encode_state :: "expert_state \<Rightarrow> wire_expert_state" where
  "encode_state state =
     \<lparr>we_layer_id = fst (es_key state), we_expert_id = snd (es_key state), we_state = state_kind_to_proto (es_state state),
      we_failure = map_option (\<lambda>failure.
        \<lparr>wl_stage = load_stage_to_proto (lf_stage failure), wl_code = load_code_to_proto (lf_code failure),
         wl_retryable = lf_retryable failure, wl_diagnostic = bounded_weight_diagnostic (lf_diagnostic failure)\<rparr>) (es_failure state)\<rparr>"

section \<open>The reporter\<close>

record pending_state =
  pn_change_index :: int
  pn_recorded_at :: int
  pn_change :: expert_state_change

record state_reporter =
  sr_num_layers :: int
  sr_experts_per_layer :: int
  sr_max_updates :: int
  sr_max_delay :: int
  sr_pending :: "(weight_key, pending_state) dict"
  sr_changed :: bool
  sr_flush_complete :: bool
  sr_flush_requested :: bool
  sr_change_index :: int
  sr_last_report_sequence :: int
  sr_last_acknowledged_sequence :: int

definition ExpertStateReporter :: "int \<Rightarrow> int \<Rightarrow> int \<Rightarrow> int \<Rightarrow> exn + state_reporter" where
  "ExpertStateReporter num_layers experts_per_layer max_updates max_delay_ms =
     after (raise_first
       [(num_layers \<le> 0, ValueError ''num_layers must be a positive integer''),
        (experts_per_layer \<le> 0, ValueError ''experts_per_layer must be a positive integer''),
        (max_updates \<le> 0, ValueError ''max_updates must be a positive integer''),
        (max_delay_ms \<le> 0, ValueError ''max_delay_ms must be a positive integer''),
        (max_updates > int MAX_EXPERTS_PER_CONTROL_PART, ValueError ''max_updates cannot exceed 64'')])
     (Inr \<lparr>sr_num_layers = num_layers, sr_experts_per_layer = experts_per_layer, sr_max_updates = max_updates,
           sr_max_delay = max_delay_ms, sr_pending = [], sr_changed = False, sr_flush_complete = True,
           sr_flush_requested = False, sr_change_index = 0, sr_last_report_sequence = 0, sr_last_acknowledged_sequence = 0\<rparr>)"

definition mark_changes :: "state_reporter \<Rightarrow> int" where
  "mark_changes r = sr_change_index r"

definition sr_validate_key :: "state_reporter \<Rightarrow> weight_key \<Rightarrow> (bool \<times> exn) list" where
  "sr_validate_key r key =
     [(fst key \<ge> sr_num_layers r \<or> snd key \<ge> sr_experts_per_layer r, ValueError ''expert state exceeds the configured model shape'')]"

abbreviation change_key :: "expert_state_change \<Rightarrow> weight_key" where
  "change_key c \<equiv> es_key (ec_expert c)"

definition sr_record :: "int \<Rightarrow> expert_state_change \<Rightarrow> state_reporter \<Rightarrow> exn option \<times> state_reporter" where
  "sr_record now change r =
     (case raise_first (validate_positive_uint64 ''placement_generation'' (ec_placement_generation change) @
             sr_validate_key r (change_key change)) of
        Some e \<Rightarrow> (Some e, r)
      | None \<Rightarrow>
        let index = sr_change_index r + 1;
            recorded_at = (case map_of (sr_pending r) (change_key change) of None \<Rightarrow> now | Some previous \<Rightarrow> pn_recorded_at previous)
        in (None, r\<lparr>sr_change_index := index,
             sr_pending := AList.update (change_key change)
               \<lparr>pn_change_index = index, pn_recorded_at = recorded_at, pn_change = change\<rparr> (sr_pending r),
             sr_flush_complete := False, sr_changed := True\<rparr>))"

text \<open>One turn of \<open>flush\<close>: the sequence it returns, or waiting for \<open>sr_flush_complete\<close>.\<close>

definition flush_pass :: "state_reporter \<Rightarrow> int option \<times> state_reporter" where
  "flush_pass r =
     (if sr_pending r = [] then (Some (sr_last_report_sequence r), r)
      else (None, r\<lparr>sr_flush_requested := True, sr_changed := True, sr_flush_complete := False\<rparr>))"

definition next_sequence :: "state_reporter \<Rightarrow> int \<times> state_reporter" where
  "next_sequence r = (sr_last_report_sequence r + 1, r\<lparr>sr_last_report_sequence := sr_last_report_sequence r + 1\<rparr>)"

definition refresh_changed_event :: "state_reporter \<Rightarrow> state_reporter" where
  "refresh_changed_event r =
     (if sr_pending r \<noteq> [] then r\<lparr>sr_changed := True\<rparr>
      else r\<lparr>sr_flush_requested := False, sr_flush_complete := True, sr_changed := False\<rparr>)"

fun check_full_states :: "state_reporter \<Rightarrow> weight_key list \<Rightarrow> expert_state list \<Rightarrow> exn option" where
  "check_full_states r seen [] = None"
| "check_full_states r seen (s # rest) =
     (case raise_first (sr_validate_key r (es_key s) @
             [(es_key s \<in> set seen, ValueError ''full state contains a duplicate expert'')]) of
        Some e \<Rightarrow> Some e
      | None \<Rightarrow> check_full_states r (es_key s # seen) rest)"

definition full_state_messages :: "int \<Rightarrow> int \<Rightarrow> expert_state list \<Rightarrow> worker_weight_message list" where
  "full_state_messages placement_generation sequence resolved =
     (let part_count = max 1 ((length resolved + MAX_EXPERTS_PER_CONTROL_PART - 1) div MAX_EXPERTS_PER_CONTROL_PART)
      in map (\<lambda>part_index.
           let start = part_index * MAX_EXPERTS_PER_CONTROL_PART in
           Full_State \<lparr>fs_placement_generation = placement_generation, fs_report_sequence = sequence,
             fs_part_index = part_index, fs_part_count = part_count,
             fs_experts = map encode_state (slice start (start + MAX_EXPERTS_PER_CONTROL_PART) resolved)\<rparr>) [0 ..< part_count])"

definition full_state_parts ::
  "int \<Rightarrow> expert_state list \<Rightarrow> int \<Rightarrow> state_reporter \<Rightarrow> (exn + worker_weight_message list) \<times> state_reporter" where
  "full_state_parts placement_generation states discard_pending_through r =
     (case raise_first (validate_positive_uint64 ''placement_generation'' placement_generation @
             [(\<not> (0 \<le> discard_pending_through \<and> discard_pending_through \<le> sr_change_index r),
               ValueError ''snapshot pending boundary is invalid'')]) of
        Some e \<Rightarrow> (Inl e, r)
      | None \<Rightarrow>
        (case check_full_states r [] states of
           Some e \<Rightarrow> (Inl e, r)
         | None \<Rightarrow>
           let r1 = refresh_changed_event
                 (r\<lparr>sr_pending := filter (\<lambda>entry. \<not> pn_change_index (snd entry) \<le> discard_pending_through) (sr_pending r)\<rparr>);
               (sequence, r2) = next_sequence r1
           in (Inr (full_state_messages placement_generation sequence states), r2)))"

definition select_pending :: "state_reporter \<Rightarrow> pending_state list" where
  "select_pending r =
     (if sr_pending r = [] then []
      else
        let ordered = sort_key pn_change_index (map snd (sr_pending r));
            generation = ec_placement_generation (pn_change (hd ordered))
        in take (nat (sr_max_updates r)) (filter (\<lambda>p. ec_placement_generation (pn_change p) = generation) ordered))"

text \<open>The object identity \<open>current is pending\<close> is equality: change indices never repeat.\<close>

definition pop_selected :: "pending_state \<Rightarrow> (weight_key, pending_state) dict \<Rightarrow> (weight_key, pending_state) dict" where
  "pop_selected p d =
     (if map_of d (change_key (pn_change p)) = Some p then AList.delete (change_key (pn_change p)) d else d)"

definition take_selected :: "pending_state list \<Rightarrow> state_reporter \<Rightarrow> worker_weight_message \<times> state_reporter" where
  "take_selected selected r =
     (let r1 = refresh_changed_event (r\<lparr>sr_pending := fold pop_selected selected (sr_pending r)\<rparr>);
          (sequence, r2) = next_sequence r1
      in (State_Updates \<lparr>su_placement_generation = ec_placement_generation (pn_change (hd selected)),
            su_report_sequence = sequence, su_experts = map (encode_state \<circ> ec_expert \<circ> pn_change) selected\<rparr>, r2))"

text \<open>One turn of \<open>take_updates\<close>: a message, \<open>None\<close>, or waiting for \<open>sr_changed\<close> with an optional timeout.\<close>

datatype take_outcome = Took worker_weight_message | Took_Nothing | Take_Waits "int option"

definition take_updates_pass :: "bool \<Rightarrow> int \<Rightarrow> int \<Rightarrow> state_reporter \<Rightarrow> take_outcome \<times> state_reporter" where
  "take_updates_pass force now now' r =
     (let selected = select_pending r in
      if selected \<noteq> [] then
        let oldest = pn_recorded_at (hd selected);
            ready = (force \<or> sr_flush_requested r \<or> int (length selected) \<ge> sr_max_updates r \<or> now - oldest \<ge> sr_max_delay r)
        in if ready then (let (message, r') = take_selected selected r in (Took message, r'))
           else (Take_Waits (Some (max 0 (sr_max_delay r - (now' - oldest)))), r\<lparr>sr_changed := False\<rparr>)
      else if force then (Took_Nothing, r)
      else (Take_Waits None, r\<lparr>sr_changed := False\<rparr>))"

definition sr_acknowledge :: "int \<Rightarrow> state_reporter \<Rightarrow> (exn + bool) \<times> state_reporter" where
  "sr_acknowledge report_sequence r =
     (if report_sequence \<le> 0 \<or> report_sequence > sr_last_report_sequence r
      then (Inl (ValueError ''acknowledgement references an unsent report sequence''), r)
      else if report_sequence < sr_last_acknowledged_sequence r
      then (Inl (ValueError ''acknowledgement sequence moved backwards''), r)
      else if report_sequence = sr_last_acknowledged_sequence r then (Inr False, r)
      else (Inr True, r\<lparr>sr_last_acknowledged_sequence := report_sequence\<rparr>))"

section \<open>Runs of the reporter\<close>

text \<open>\<open>_report_sequence\<close> of \<open>weight_stream.py\<close>.\<close>

fun report_sequence :: "worker_weight_message \<Rightarrow> int option" where
  "report_sequence (Full_State p) = Some (fs_report_sequence p)"
| "report_sequence (State_Updates u) = Some (su_report_sequence u)"
| "report_sequence (Open_Stream w s) = None"
| "report_sequence (Drain_Complete d) = None"

datatype reporter_op =
    Op_Record int expert_state_change
  | Op_Flush
  | Op_Full int "expert_state list" int
  | Op_Take bool int int
  | Op_Ack int

text \<open>A report with the pending states it took and, for a snapshot, the boundary through which it discarded.\<close>

record report =
  rp_messages :: "worker_weight_message list"
  rp_taken :: "pending_state list"
  rp_boundary :: int

record reporter_run =
  rr_reporter :: state_reporter
  rr_history :: "expert_state_change list"
  rr_reports :: "report list"

fun reporter_apply :: "reporter_op \<Rightarrow> reporter_run \<Rightarrow> reporter_run" where
  "reporter_apply (Op_Record now change) x =
     (case sr_record now change (rr_reporter x) of
        (Some e, r) \<Rightarrow> x\<lparr>rr_reporter := r\<rparr>
      | (None, r) \<Rightarrow> x\<lparr>rr_reporter := r, rr_history := rr_history x @ [change]\<rparr>)"
| "reporter_apply Op_Flush x = x\<lparr>rr_reporter := snd (flush_pass (rr_reporter x))\<rparr>"
| "reporter_apply (Op_Full generation states boundary) x =
     (case full_state_parts generation states boundary (rr_reporter x) of
        (Inl e, r) \<Rightarrow> x\<lparr>rr_reporter := r\<rparr>
      | (Inr ms, r) \<Rightarrow> x\<lparr>rr_reporter := r,
          rr_reports := rr_reports x @ [\<lparr>rp_messages = ms, rp_taken = [], rp_boundary = boundary\<rparr>]\<rparr>)"
| "reporter_apply (Op_Take force now now') x =
     (case take_updates_pass force now now' (rr_reporter x) of
        (Took m, r) \<Rightarrow> x\<lparr>rr_reporter := r,
          rr_reports := rr_reports x @ [\<lparr>rp_messages = [m], rp_taken = select_pending (rr_reporter x), rp_boundary = 0\<rparr>]\<rparr>
      | (_, r) \<Rightarrow> x\<lparr>rr_reporter := r\<rparr>)"
| "reporter_apply (Op_Ack s) x = x\<lparr>rr_reporter := snd (sr_acknowledge s (rr_reporter x))\<rparr>"

definition run_reporter :: "reporter_op list \<Rightarrow> state_reporter \<Rightarrow> reporter_run" where
  "run_reporter ops r = fold reporter_apply ops \<lparr>rr_reporter = r, rr_history = [], rr_reports = []\<rparr>"

text \<open>The experts named by the update messages, in the order in which the Controller receives them.\<close>

fun updated_experts :: "worker_weight_message \<Rightarrow> wire_expert_state list" where
  "updated_experts (State_Updates u) = su_experts u"
| "updated_experts _ = []"

definition state_wire_key :: "wire_expert_state \<Rightarrow> weight_key" where
  "state_wire_key s = (we_layer_id s, we_expert_id s)"

definition updates_of :: "weight_key \<Rightarrow> report list \<Rightarrow> wire_expert_state list" where
  "updates_of key reports = filter (\<lambda>s. state_wire_key s = key) (concat (map updated_experts (concat (map rp_messages reports))))"

section \<open>Selection\<close>

abbreviation pending_key :: "pending_state \<Rightarrow> weight_key" where
  "pending_key p \<equiv> change_key (pn_change p)"

definition keyed :: "(weight_key, pending_state) dict \<Rightarrow> bool" where
  "keyed d \<longleftrightarrow> dict_ok d \<and> (\<forall>p\<in>set d. fst p = pending_key (snd p))"

text \<open>A diagnostic cut to the byte limit is a prefix of the original that fits.\<close>

lemma utf8_decode_ascii: "b < 128 \<Longrightarrow> utf8_decode_ignore (b # bs) = char_of b # utf8_decode_ignore bs"
  by (cases bs) auto

lemma utf8_cut:
  "\<exists>k. utf8_decode_ignore (take n (utf8_encode s)) = take k s \<and> length (utf8_encode (take k s)) \<le> n"
proof (induction s arbitrary: n)
  case Nil
  then show ?case by (simp add: utf8_encode_def)
next
  case (Cons c s)
  have enc: "utf8_encode (c # s) = utf8_char c @ utf8_encode s" by (simp add: utf8_encode_def)
  let ?n = "of_char c :: nat"
  have small: "?n < 256" by simp
  show ?case
  proof (cases "length (utf8_char c) \<le> n")
    case True
    obtain k where k: "utf8_decode_ignore (take (n - length (utf8_char c)) (utf8_encode s)) = take k s"
      "length (utf8_encode (take k s)) \<le> n - length (utf8_char c)" using Cons by blast
    have "utf8_decode_ignore (utf8_char c @ bs) = c # utf8_decode_ignore bs" for bs
    proof (cases "?n < 128")
      case True
      then show ?thesis by (simp add: utf8_char_def utf8_decode_ascii)
    next
      case False
      have "char_of (?n div 64 * 64 + ?n mod 64) = c" by (simp only: div_mult_mod_eq char_of_char)
      then show ?thesis using False by (simp add: utf8_char_def Let_def)
    qed
    then have "utf8_decode_ignore (take n (utf8_encode (c # s))) = take (Suc k) (c # s)"
      using True k(1) by (simp add: enc)
    moreover have "length (utf8_encode (take (Suc k) (c # s))) \<le> n"
      using True k(2) by (simp add: utf8_encode_def)
    ultimately show ?thesis by blast
  next
    case False
    then have "n = 0 \<or> n = 1 \<and> \<not> ?n < 128" by (auto simp: utf8_char_def Let_def split: if_splits)
    then have "utf8_decode_ignore (take n (utf8_encode (c # s))) = []"
      by (auto simp: enc utf8_char_def Let_def)
    then show ?thesis by (intro exI [of _ 0]) (simp add: utf8_encode_def)
  qed
qed

lemma bounded_weight_diagnostic_fits:
  "length (utf8_encode (bounded_weight_diagnostic d)) \<le> 1024 \<and> (\<exists>k. bounded_weight_diagnostic d = take k d)"
proof (cases "length (utf8_encode d) \<le> MAX_WEIGHT_DIAGNOSTIC_BYTES")
  case True
  then show ?thesis by (auto simp: bounded_weight_diagnostic_def MAX_WEIGHT_DIAGNOSTIC_BYTES_def intro: exI [of _ "length d"])
next
  case False
  then show ?thesis using utf8_cut [of MAX_WEIGHT_DIAGNOSTIC_BYTES d]
    by (auto simp: bounded_weight_diagnostic_def MAX_WEIGHT_DIAGNOSTIC_BYTES_def)
qed

lemma state_wire_key_encode [simp]: "state_wire_key (encode_state s) = es_key s"
  by (simp add: state_wire_key_def encode_state_def)

lemma keyedD:
  assumes d: "keyed d"
  shows "map_of d k = Some p \<longleftrightarrow> p \<in> snd ` set d \<and> k = pending_key p"
proof
  assume "map_of d k = Some p"
  then have "(k, p) \<in> set d" using d by (simp add: keyed_def dict_ok_map_of)
  with d show "p \<in> snd ` set d \<and> k = pending_key p" unfolding keyed_def by force
next
  assume p: "p \<in> snd ` set d \<and> k = pending_key p"
  then obtain e where "e \<in> set d" "snd e = p" by auto
  with d p have "(k, p) \<in> set d" by (metis keyed_def prod.collapse)
  with d show "map_of d k = Some p" by (simp add: keyed_def dict_ok_map_of)
qed

lemma keyed_filter: "keyed d \<Longrightarrow> keyed (filter P d)"
  unfolding keyed_def dict_ok_def by (auto intro: distinct_map_filter)

lemma pop_selected_filter:
  assumes "keyed d"
  shows "pop_selected p d = filter (\<lambda>e. snd e \<noteq> p) d"
proof (cases "map_of d (pending_key p) = Some p")
  case True
  have "(pending_key p \<noteq> fst e) = (snd e \<noteq> p)" if "e \<in> set d" for e
    using that True assms by (metis dict_ok_map_of keyed_def option.inject prod.collapse)
  then have "filter (\<lambda>(k, _). pending_key p \<noteq> k) d = filter (\<lambda>e. snd e \<noteq> p) d"
    by (intro filter_cong) (simp_all add: case_prod_beta)
  with True show ?thesis by (simp add: pop_selected_def AList.delete_eq)
next
  case False
  then have "p \<notin> snd ` set d" using assms by (simp add: keyedD)
  then have "filter (\<lambda>e. snd e \<noteq> p) d = d" by (auto simp: filter_id_conv)
  with False show ?thesis by (simp add: pop_selected_def)
qed

lemma fold_pop_selected:
  "keyed d \<Longrightarrow> fold pop_selected ps d = filter (\<lambda>e. snd e \<notin> set ps) d"
proof (induction ps arbitrary: d)
  case (Cons p ps)
  then show ?case
    by (simp add: pop_selected_filter keyed_filter conj_commute)
qed simp

lemma select_pending_facts:
  assumes "keyed (sr_pending r)" and "inj_on pn_change_index (snd ` set (sr_pending r))" and "0 < sr_max_updates r"
  shows "set (select_pending r) \<subseteq> snd ` set (sr_pending r)"
    and "int (length (select_pending r)) \<le> sr_max_updates r"
    and "sorted_wrt (\<lambda>p q. pn_change_index p < pn_change_index q) (select_pending r)"
    and "\<forall>p\<in>set (select_pending r). ec_placement_generation (pn_change p) = ec_placement_generation (pn_change (hd (select_pending r)))"
    and "sr_pending r \<noteq> [] \<Longrightarrow> select_pending r \<noteq> []"
proof -
  let ?ordered = "sort_key pn_change_index (map snd (sr_pending r))"
  let ?same = "\<lambda>p. ec_placement_generation (pn_change p) = ec_placement_generation (pn_change (hd ?ordered))"
  show sub: "set (select_pending r) \<subseteq> snd ` set (sr_pending r)"
    by (auto simp: select_pending_def Let_def dest!: in_set_takeD)
  show "int (length (select_pending r)) \<le> sr_max_updates r"
    using assms(3) by (auto simp: select_pending_def Let_def min_def)
  have dist: "distinct (map pn_change_index (map snd (sr_pending r)))"
  proof -
    have "distinct (map snd (sr_pending r))"
    proof -
      have "map (pending_key \<circ> snd) (sr_pending r) = map fst (sr_pending r)"
        using assms(1) by (intro map_cong) (simp_all add: keyed_def)
      then have "distinct (map pending_key (map snd (sr_pending r)))"
        using assms(1) unfolding keyed_def dict_ok_def map_map by metis
      then show ?thesis by (simp only: distinct_map)
    qed
    moreover have "inj_on pn_change_index (set (map snd (sr_pending r)))" using assms(2) by simp
    ultimately show ?thesis by (simp only: distinct_map)
  qed
  have "mset (map pn_change_index ?ordered) = mset (map pn_change_index (map snd (sr_pending r)))"
    by (metis mset_map mset_sort)
  then have "distinct (map pn_change_index ?ordered)"
    using dist by (metis mset_eq_imp_distinct_iff)
  then have "sorted_wrt (<) (map pn_change_index ?ordered)"
    by (simp add: strict_sorted_iff)
  then have "sorted_wrt (\<lambda>p q. pn_change_index p < pn_change_index q) ?ordered"
    by (simp add: sorted_wrt_map)
  then show "sorted_wrt (\<lambda>p q. pn_change_index p < pn_change_index q) (select_pending r)"
    by (auto simp: select_pending_def Let_def intro: sorted_wrt_take sorted_wrt_filter)
  have head: "select_pending r \<noteq> [] \<and> hd (select_pending r) = hd ?ordered" if "sr_pending r \<noteq> []"
  proof -
    have "?ordered \<noteq> []" using that by (metis length_0_conv length_map length_sort)
    then obtain p ps where ps: "?ordered = p # ps" by (cases ?ordered) auto
    obtain m where m: "nat (sr_max_updates r) = Suc m" using assms(3) by (metis gr0_implies_Suc zero_less_nat_eq)
    show ?thesis using that by (simp add: select_pending_def ps m)
  qed
  then show "sr_pending r \<noteq> [] \<Longrightarrow> select_pending r \<noteq> []" by blast
  show "\<forall>p\<in>set (select_pending r). ec_placement_generation (pn_change p) = ec_placement_generation (pn_change (hd (select_pending r)))"
  proof (cases "sr_pending r = []")
    case True
    then show ?thesis by (simp add: select_pending_def)
  next
    case False
    have "set (select_pending r) \<subseteq> set (filter ?same ?ordered)"
      using False by (auto simp: select_pending_def Let_def dest!: in_set_takeD)
    then show ?thesis using head [OF False] by auto
  qed
qed

section \<open>The invariant of a run\<close>

definition latest_change :: "expert_state_change list \<Rightarrow> weight_key \<Rightarrow> nat \<Rightarrow> bool" where
  "latest_change h k i \<longleftrightarrow> i < length h \<and> change_key (h ! i) = k \<and> (\<forall>j<length h. i < j \<longrightarrow> change_key (h ! j) \<noteq> k)"

definition from_history :: "expert_state_change list \<Rightarrow> pending_state \<Rightarrow> bool" where
  "from_history h p \<longleftrightarrow> (\<exists>i<length h. pn_change_index p = int i + 1 \<and> pn_change p = h ! i)"

definition pending_inv :: "expert_state_change list \<Rightarrow> state_reporter \<Rightarrow> bool" where
  "pending_inv h r \<longleftrightarrow> keyed (sr_pending r) \<and> sr_change_index r = int (length h) \<and>
     0 < sr_max_updates r \<and> sr_max_updates r \<le> int MAX_EXPERTS_PER_CONTROL_PART \<and>
     (sr_flush_complete r \<longleftrightarrow> sr_pending r = []) \<and>
     (\<forall>p\<in>snd ` set (sr_pending r). from_history h p \<and> latest_change h (pending_key p) (nat (pn_change_index p - 1)))"

definition update_report :: "int \<Rightarrow> pending_state list \<Rightarrow> worker_weight_message" where
  "update_report sequence ps = State_Updates \<lparr>su_placement_generation = ec_placement_generation (pn_change (hd ps)),
     su_report_sequence = sequence, su_experts = map (encode_state \<circ> ec_expert \<circ> pn_change) ps\<rparr>"

definition report_ok :: "int \<Rightarrow> nat \<Rightarrow> report \<Rightarrow> bool" where
  "report_ok max_updates i rep \<longleftrightarrow>
     rp_taken rep = [] \<and> (\<exists>g ss. distinct (map es_key ss) \<and> rp_messages rep = full_state_messages g (int i + 1) ss) \<or>
     rp_taken rep \<noteq> [] \<and> int (length (rp_taken rep)) \<le> max_updates \<and>
     (\<forall>p\<in>set (rp_taken rep). ec_placement_generation (pn_change p) = ec_placement_generation (pn_change (hd (rp_taken rep)))) \<and>
     rp_messages rep = [update_report (int i + 1) (rp_taken rep)]"

abbreviation all_taken :: "report list \<Rightarrow> pending_state list" where
  "all_taken reports \<equiv> concat (map rp_taken reports)"

definition indices_increase :: "pending_state list \<Rightarrow> bool" where
  "indices_increase ps \<longleftrightarrow>
     (\<forall>k. sorted_wrt (\<lambda>p q. pn_change_index p < pn_change_index q) (filter (\<lambda>p. pending_key p = k) ps))"

definition order_inv :: "expert_state_change list \<Rightarrow> report list \<Rightarrow> state_reporter \<Rightarrow> bool" where
  "order_inv h reports r \<longleftrightarrow> indices_increase (all_taken reports) \<and> (\<forall>p\<in>set (all_taken reports). from_history h p) \<and>
     (\<forall>p\<in>set (all_taken reports). \<forall>q\<in>snd ` set (sr_pending r). pending_key p = pending_key q \<longrightarrow> pn_change_index p < pn_change_index q)"

definition change_covered :: "report list \<Rightarrow> state_reporter \<Rightarrow> nat \<Rightarrow> bool" where
  "change_covered reports r i \<longleftrightarrow>
     (\<exists>p\<in>snd ` set (sr_pending r). pn_change_index p = int i + 1) \<or>
     (\<exists>p\<in>set (all_taken reports). pn_change_index p = int i + 1) \<or>
     (\<exists>rep\<in>set reports. int i < rp_boundary rep)"

definition run_inv :: "reporter_run \<Rightarrow> bool" where
  "run_inv x \<longleftrightarrow>
     (let h = rr_history x; r = rr_reporter x; L = rr_reports x in
      pending_inv h r \<and> sr_last_report_sequence r = int (length L) \<and>
      (\<forall>i<length L. report_ok (sr_max_updates r) i (L ! i)) \<and> order_inv h L r \<and>
      (\<forall>k i. latest_change h k i \<longrightarrow> change_covered L r i))"

lemma run_invI:
  assumes "pending_inv h r" and "sr_last_report_sequence r = int (length L)"
    and "\<And>i. i < length L \<Longrightarrow> report_ok (sr_max_updates r) i (L ! i)" and "order_inv h L r"
    and "\<And>k i. latest_change h k i \<Longrightarrow> change_covered L r i"
    and "rr_history x = h" and "rr_reporter x = r" and "rr_reports x = L"
  shows "run_inv x"
  using assms by (simp add: run_inv_def)

lemma run_invD:
  assumes "run_inv x"
  shows "pending_inv (rr_history x) (rr_reporter x)"
    and "sr_last_report_sequence (rr_reporter x) = int (length (rr_reports x))"
    and "i < length (rr_reports x) \<Longrightarrow> report_ok (sr_max_updates (rr_reporter x)) i (rr_reports x ! i)"
    and "order_inv (rr_history x) (rr_reports x) (rr_reporter x)"
    and "latest_change (rr_history x) k i \<Longrightarrow> change_covered (rr_reports x) (rr_reporter x) i"
  using assms by (simp_all add: run_inv_def Let_def del: split_paired_All)

lemma from_history_mono: "from_history h p \<Longrightarrow> from_history (h @ [c]) p"
  unfolding from_history_def by (metis length_append_singleton less_Suc_eq nth_append_left)

lemma latest_change_append:
  "latest_change (h @ [c]) k i \<longleftrightarrow>
     (if i < length h then latest_change h k i \<and> change_key c \<noteq> k else i = length h \<and> change_key c = k)"
  unfolding latest_change_def by (auto simp: nth_append less_Suc_eq)

lemma pending_from_history:
  assumes "pending_inv h r" and "p \<in> snd ` set (sr_pending r)"
  shows "from_history h p" and "latest_change h (pending_key p) (nat (pn_change_index p - 1))"
  using assms unfolding pending_inv_def by blast+

lemma pending_index_inj:
  assumes "pending_inv h r"
  shows "inj_on pn_change_index (snd ` set (sr_pending r))"
proof (rule inj_onI)
  fix p q
  assume in_dict: "p \<in> snd ` set (sr_pending r)" "q \<in> snd ` set (sr_pending r)" and "pn_change_index p = pn_change_index q"
  then have "pn_change p = pn_change q"
    using assms unfolding pending_inv_def from_history_def by (metis add_right_cancel of_nat_eq_iff)
  then have "map_of (sr_pending r) (pending_key p) = Some p" "map_of (sr_pending r) (pending_key p) = Some q"
    using assms in_dict by (simp_all add: pending_inv_def keyedD)
  then show "p = q" by simp
qed

lemma pending_unique:
  assumes "pending_inv h r" and "p \<in> snd ` set (sr_pending r)" and "q \<in> snd ` set (sr_pending r)"
    and "pending_key p = pending_key q"
  shows "p = q"
  using assms keyedD [of "sr_pending r" "pending_key p"] by (simp add: pending_inv_def) (metis option.inject)

lemma full_state_messages_facts:
  shows "m \<in> set (full_state_messages g s ss) \<Longrightarrow> report_sequence m = Some s"
    and "full_state_messages g s ss \<noteq> []"
    and "concat (map updated_experts (full_state_messages g s ss)) = []"
  by (auto simp: full_state_messages_def Let_def)

text \<open>The pending states after a step that only drops entries.\<close>

lemma change_covered_report:
  assumes "change_covered L r i"
    and "\<And>p. p \<in> snd ` set (sr_pending r) \<Longrightarrow> pn_change_index p = int i + 1 \<Longrightarrow>
      p \<in> snd ` set (sr_pending r') \<or> p \<in> set (rp_taken rep) \<or> int i < rp_boundary rep"
  shows "change_covered (L @ [rep]) r' i"
proof -
  have old: "set (all_taken L) \<subseteq> set (all_taken (L @ [rep]))" "set (rp_taken rep) \<subseteq> set (all_taken (L @ [rep]))"
    "set L \<subseteq> set (L @ [rep])" "rep \<in> set (L @ [rep])" by auto
  then show ?thesis using assms unfolding change_covered_def by (meson subsetD)
qed

lemma pending_inv_drop:
  assumes "pending_inv h r" and "sr_pending r' = filter P (sr_pending r)" and "sr_change_index r' = sr_change_index r"
    and "sr_max_updates r' = sr_max_updates r" and "sr_flush_complete r' \<longleftrightarrow> sr_pending r' = []"
  shows "pending_inv h r'"
  using assms by (auto simp: pending_inv_def keyed_filter)

lemma order_inv_drop:
  assumes "order_inv h L r" and "snd ` set (sr_pending r') \<subseteq> snd ` set (sr_pending r)"
  shows "order_inv h L r'"
  using assms unfolding order_inv_def by blast

lemma refresh_fields [simp]:
  "sr_pending (refresh_changed_event r) = sr_pending r"
  "sr_change_index (refresh_changed_event r) = sr_change_index r"
  "sr_max_updates (refresh_changed_event r) = sr_max_updates r"
  "sr_last_report_sequence (refresh_changed_event r) = sr_last_report_sequence r"
  "sr_flush_complete (refresh_changed_event r) \<longleftrightarrow> sr_pending r = [] \<or> sr_flush_complete r"
  by (auto simp: refresh_changed_event_def)

lemma report_ok_append:
  assumes "\<And>i. i < length L \<Longrightarrow> report_ok mu i (L ! i)" and "report_ok mu (length L) rep"
    and "i < length (L @ [rep])"
  shows "report_ok mu i ((L @ [rep]) ! i)"
  using assms by (auto simp: nth_append less_Suc_eq)

lemma flush_complete_drop:
  assumes "pending_inv h r"
  shows "sr_flush_complete (refresh_changed_event (r\<lparr>sr_pending := filter P (sr_pending r)\<rparr>)) \<longleftrightarrow> filter P (sr_pending r) = []"
  using assms by (auto simp: pending_inv_def)

section \<open>Every operation keeps the invariant\<close>

lemma run_inv_flags:
  assumes "run_inv x"
    and "sr_pending r' = sr_pending (rr_reporter x)" "sr_change_index r' = sr_change_index (rr_reporter x)"
    "sr_max_updates r' = sr_max_updates (rr_reporter x)" "sr_flush_complete r' = sr_flush_complete (rr_reporter x)"
    "sr_last_report_sequence r' = sr_last_report_sequence (rr_reporter x)"
  shows "run_inv (x\<lparr>rr_reporter := r'\<rparr>)"
  using assms by (simp add: run_inv_def Let_def pending_inv_def order_inv_def change_covered_def)

lemma check_full_states_distinct:
  "check_full_states r seen ss = None \<Longrightarrow> distinct (map es_key ss) \<and> set (map es_key ss) \<inter> set seen = {}"
proof (induction ss arbitrary: seen)
  case (Cons s ss)
  then have "es_key s \<notin> set seen" and "check_full_states r (es_key s # seen) ss = None"
    by (auto split: option.splits)
  with Cons.IH [of "es_key s # seen"] show ?case by auto
qed simp

lemma run_inv_full:
  assumes "run_inv x"
  shows "run_inv (reporter_apply (Op_Full g ss b) x)"
proof (cases "full_state_parts g ss b (rr_reporter x)")
  case (Pair res r')
  show ?thesis
  proof (cases res)
    case (Inl e)
    then have "r' = rr_reporter x" using Pair
      by (auto simp: full_state_parts_def Let_def next_sequence_def split: option.splits)
    then show ?thesis using assms Pair Inl by simp
  next
    case (Inr ms)
    let ?r = "rr_reporter x" and ?L = "rr_reports x" and ?h = "rr_history x"
    let ?P = "\<lambda>e. \<not> pn_change_index (snd e) \<le> b"
    have eq: "ms = full_state_messages g (sr_last_report_sequence ?r + 1) ss" "distinct (map es_key ss)"
      "r' = snd (next_sequence (refresh_changed_event (?r\<lparr>sr_pending := filter ?P (sr_pending ?r)\<rparr>)))"
      using Pair Inr check_full_states_distinct [of ?r "[]" ss]
      by (auto simp: full_state_parts_def Let_def next_sequence_def case_prod_beta split: option.splits)
    note inv = run_invD [OF assms]
    have pend: "sr_pending r' = filter ?P (sr_pending ?r)" by (simp add: eq next_sequence_def)
    let ?rep = "\<lparr>rp_messages = ms, rp_taken = [], rp_boundary = b\<rparr>"
    have "run_inv (x\<lparr>rr_reporter := r', rr_reports := ?L @ [?rep]\<rparr>)"
    proof (rule run_invI [where h = ?h and r = r' and L = "?L @ [?rep]"])
      show "pending_inv ?h r'"
        using inv(1) flush_complete_drop [OF inv(1), of ?P]
        by (intro pending_inv_drop [OF inv(1) pend]) (simp_all add: eq next_sequence_def)
      show "sr_last_report_sequence r' = int (length (?L @ [?rep]))"
        by (simp add: eq next_sequence_def inv(2))
      have "report_ok (sr_max_updates ?r) (length ?L) ?rep"
        using eq(1,2) by (auto simp: report_ok_def inv(2))
      then show "report_ok (sr_max_updates r') i ((?L @ [?rep]) ! i)" if "i < length (?L @ [?rep])" for i
        using that report_ok_append inv(3) by (simp add: eq next_sequence_def)
      have "order_inv ?h ?L r'" by (rule order_inv_drop [OF inv(4)]) (auto simp: pend)
      then show "order_inv ?h (?L @ [?rep]) r'" by (simp add: order_inv_def)
      show "change_covered (?L @ [?rep]) r' i" if "latest_change ?h k i" for k i
        using inv(5) [OF that] by (rule change_covered_report) (auto simp: pend)
    qed simp_all
    then show ?thesis using Pair Inr by simp
  qed
qed

lemma run_inv_record:
  assumes "run_inv x"
  shows "run_inv (reporter_apply (Op_Record now c) x)"
proof (cases "sr_record now c (rr_reporter x)")
  case (Pair res r')
  let ?r = "rr_reporter x" and ?L = "rr_reports x" and ?h = "rr_history x"
  note inv = run_invD [OF assms]
  show ?thesis
  proof (cases res)
    case (Some e)
    then have "r' = ?r" using Pair by (auto simp: sr_record_def Let_def split: option.splits)
    then show ?thesis using assms Pair Some by simp
  next
    case None
    obtain t where r': "r' = ?r\<lparr>sr_change_index := sr_change_index ?r + 1,
        sr_pending := AList.update (change_key c)
          \<lparr>pn_change_index = sr_change_index ?r + 1, pn_recorded_at = t, pn_change = c\<rparr> (sr_pending ?r),
        sr_flush_complete := False, sr_changed := True\<rparr>"
      using Pair None by (auto simp: sr_record_def Let_def split: option.splits)
    let ?new = "\<lparr>pn_change_index = sr_change_index ?r + 1, pn_recorded_at = t, pn_change = c\<rparr>"
    have index: "sr_change_index ?r = int (length ?h)" and keyed: "keyed (sr_pending ?r)"
      using inv(1) by (simp_all add: pending_inv_def)
    have entries: "e = (change_key c, ?new) \<or> e \<in> set (sr_pending ?r) \<and> fst e \<noteq> change_key c"
      if "e \<in> set (sr_pending r')" for e
    proof -
      have "dict_ok (sr_pending r')" using keyed by (simp add: r' keyed_def)
      then have "map_of (sr_pending r') (fst e) = Some (snd e)"
        using that by (metis dict_ok_map_of prod.collapse)
      then show ?thesis using keyed
        by (cases e) (auto simp: r' keyed_def dict_ok_map_of split: if_splits)
    qed
    have vals: "p = ?new \<or> p \<in> snd ` set (sr_pending ?r) \<and> pending_key p \<noteq> change_key c"
      if "p \<in> snd ` set (sr_pending r')" for p
      using that entries keyed unfolding keyed_def by force
    have keyed': "keyed (sr_pending r')"
      using keyed entries by (fastforce simp: keyed_def r')
    have new_in: "?new \<in> snd ` set (sr_pending r')"
      using keyedD [OF keyed', of "change_key c" ?new] by (simp add: r')
    have kept: "p \<in> snd ` set (sr_pending r')" if "p \<in> snd ` set (sr_pending ?r)" "pending_key p \<noteq> change_key c" for p
      using keyedD [OF keyed', of "pending_key p" p] keyedD [OF keyed, of "pending_key p" p] that by (simp add: r')
    have latest_new: "latest_change (?h @ [c]) (change_key c) (length ?h)"
      by (simp add: latest_change_append)
    have "run_inv (x\<lparr>rr_reporter := r', rr_history := ?h @ [c]\<rparr>)"
    proof (rule run_invI [where h = "?h @ [c]" and r = r' and L = ?L])
      have "from_history (?h @ [c]) p \<and> latest_change (?h @ [c]) (pending_key p) (nat (pn_change_index p - 1))"
        if "p \<in> snd ` set (sr_pending r')" for p
        using vals [OF that]
      proof
        assume "p = ?new"
        then show ?thesis using latest_new by (auto simp: from_history_def index)
      next
        assume old: "p \<in> snd ` set (sr_pending ?r) \<and> pending_key p \<noteq> change_key c"
        then have "from_history ?h p" and "latest_change ?h (pending_key p) (nat (pn_change_index p - 1))"
          using pending_from_history [OF inv(1)] by blast+
        then show ?thesis using old by (simp add: from_history_mono latest_change_append) (simp add: latest_change_def eq_commute)
      qed
      then show "pending_inv (?h @ [c]) r'"
        using inv(1) keyed' new_in by (auto simp: pending_inv_def r')
      have "pn_change_index p < pn_change_index q"
        if "p \<in> set (all_taken ?L)" "q \<in> snd ` set (sr_pending r')" "pending_key p = pending_key q" for p q
      proof -
        have "from_history ?h p" using inv(4) that(1) unfolding order_inv_def by blast
        then have "pn_change_index p \<le> int (length ?h)" by (auto simp: from_history_def)
        moreover have "pn_change_index p < pn_change_index q" if "q \<in> snd ` set (sr_pending ?r)"
          using inv(4) that \<open>p \<in> set (all_taken ?L)\<close> \<open>pending_key p = pending_key q\<close> unfolding order_inv_def by blast
        ultimately show ?thesis using vals [OF that(2)] by (auto simp: index)
      qed
      then show "order_inv (?h @ [c]) ?L r'"
        using inv(4) by (simp add: order_inv_def from_history_mono)
      show "change_covered ?L r' i" if "latest_change (?h @ [c]) k i" for k i
      proof (cases "i < length ?h")
        case False
        then show ?thesis using that new_in unfolding change_covered_def latest_change_append
          by (intro disjI1 bexI [of _ ?new]) (simp_all add: index)
      next
        case True
        then have at: "latest_change ?h k i" "change_key c \<noteq> k" using that by (simp_all add: latest_change_append)
        from inv(5) [OF at(1)] consider p where "p \<in> snd ` set (sr_pending ?r)" "pn_change_index p = int i + 1"
          | "\<exists>p\<in>set (all_taken ?L). pn_change_index p = int i + 1" | "\<exists>rep\<in>set ?L. int i < rp_boundary rep"
          unfolding change_covered_def by blast
        then show ?thesis
        proof cases
          case 1
          have "from_history ?h p" by (rule pending_from_history(1) [OF inv(1) 1(1)])
          then have "pending_key p = k" using at(1) 1(2) by (auto simp: from_history_def latest_change_def)
          then show ?thesis using kept [OF 1(1)] at(2) 1(2) by (auto simp: change_covered_def)
        qed (auto simp: change_covered_def)
      qed
    qed (use inv(2,3) r' in simp_all)
    then show ?thesis using Pair None by simp
  qed
qed

lemma indices_increase_append:
  assumes "indices_increase ps" and "sorted_wrt (\<lambda>p q. pn_change_index p < pn_change_index q) qs"
    and "\<And>p q. p \<in> set ps \<Longrightarrow> q \<in> set qs \<Longrightarrow> pending_key p = pending_key q \<Longrightarrow> pn_change_index p < pn_change_index q"
  shows "indices_increase (ps @ qs)"
  using assms by (auto simp: indices_increase_def sorted_wrt_append intro: sorted_wrt_filter)

lemma run_inv_take:
  assumes "run_inv x"
  shows "run_inv (reporter_apply (Op_Take force now now') x)"
proof (cases "take_updates_pass force now now' (rr_reporter x)")
  case (Pair res r')
  let ?r = "rr_reporter x" and ?L = "rr_reports x" and ?h = "rr_history x"
  let ?sel = "select_pending (rr_reporter x)"
  note inv = run_invD [OF assms]
  have keyed: "keyed (sr_pending ?r)" and mu: "0 < sr_max_updates ?r" using inv(1) by (simp_all add: pending_inv_def)
  note sel = select_pending_facts [OF keyed pending_index_inj [OF inv(1)] mu]
  show ?thesis
  proof (cases "\<exists>m. res = Took m")
    case False
    then have "r' = ?r \<or> r' = ?r\<lparr>sr_changed := False\<rparr>"
      using Pair by (auto simp: take_updates_pass_def Let_def split: if_splits prod.splits)
    then show ?thesis using False Pair run_inv_flags [OF assms, of r'] assms by (cases res) auto
  next
    case True
    then have ne: "?sel \<noteq> []" and took: "res = Took (fst (take_selected ?sel ?r))" "r' = snd (take_selected ?sel ?r)"
      using Pair by (auto simp: take_updates_pass_def Let_def split: if_splits prod.splits)
    let ?rep = "\<lparr>rp_messages = [fst (take_selected ?sel ?r)], rp_taken = ?sel, rp_boundary = 0\<rparr>"
    let ?P = "\<lambda>e. snd e \<notin> set ?sel"
    have r': "r' = snd (next_sequence (refresh_changed_event (?r\<lparr>sr_pending := filter ?P (sr_pending ?r)\<rparr>)))"
      using took(2) by (simp add: take_selected_def Let_def case_prod_beta fold_pop_selected [OF keyed])
    have pend: "sr_pending r' = filter ?P (sr_pending ?r)" by (simp add: r' next_sequence_def)
    have "run_inv (x\<lparr>rr_reporter := r', rr_reports := ?L @ [?rep]\<rparr>)"
    proof (rule run_invI [where h = ?h and r = r' and L = "?L @ [?rep]"])
      show "pending_inv ?h r'"
        using flush_complete_drop [OF inv(1), of ?P]
        by (intro pending_inv_drop [OF inv(1) pend]) (simp_all add: r' next_sequence_def)
      show "sr_last_report_sequence r' = int (length (?L @ [?rep]))" by (simp add: r' next_sequence_def inv(2))
      have "rp_messages ?rep = [update_report (int (length ?L) + 1) ?sel]"
        by (simp add: update_report_def take_selected_def Let_def case_prod_beta next_sequence_def inv(2))
      then have "report_ok (sr_max_updates ?r) (length ?L) ?rep"
        using ne sel(2,4) unfolding report_ok_def report.simps by blast
      then show "report_ok (sr_max_updates r') i ((?L @ [?rep]) ! i)" if "i < length (?L @ [?rep])" for i
        using that report_ok_append inv(3) by (simp add: r' next_sequence_def)
      have less: "pn_change_index p < pn_change_index q"
        if "p \<in> set (all_taken ?L)" "q \<in> snd ` set (sr_pending ?r)" "pending_key p = pending_key q" for p q
        using inv(4) that unfolding order_inv_def by blast
      have "indices_increase (all_taken ?L @ ?sel)"
      proof (rule indices_increase_append [OF _ sel(3)])
        show "indices_increase (all_taken ?L)" using inv(4) by (simp add: order_inv_def)
        show "pn_change_index p < pn_change_index q" if "p \<in> set (all_taken ?L)" "q \<in> set ?sel" "pending_key p = pending_key q" for p q
          using less that sel(1) by blast
      qed
      moreover have "from_history ?h p" if "p \<in> set ?sel" for p
        using that sel(1) by (intro pending_from_history(1) [OF inv(1)]) blast
      moreover have "pn_change_index p < pn_change_index q"
        if "p \<in> set (all_taken ?L @ ?sel)" "q \<in> snd ` set (sr_pending r')" "pending_key p = pending_key q" for p q
      proof (cases "p \<in> set ?sel")
        case True
        then have "p = q" using that(2,3) sel(1) pend by (intro pending_unique [OF inv(1)]) auto
        then show ?thesis using True that(2) pend by auto
      next
        case False
        then show ?thesis using that pend by (intro less) auto
      qed
      moreover have "all_taken (?L @ [?rep]) = all_taken ?L @ ?sel" by simp
      moreover have "\<forall>p\<in>set (all_taken ?L). from_history ?h p" using inv(4) by (simp add: order_inv_def)
      ultimately show "order_inv ?h (?L @ [?rep]) r'"
        unfolding order_inv_def by (metis Un_iff set_append)
      show "change_covered (?L @ [?rep]) r' i" if "latest_change ?h k i" for k i
        using inv(5) [OF that] by (rule change_covered_report) (auto simp: pend)
    qed simp_all
    then show ?thesis using Pair took by simp
  qed
qed

lemma run_inv_apply: "run_inv x \<Longrightarrow> run_inv (reporter_apply op x)"
proof (cases op)
  case Op_Flush
  assume "run_inv x"
  then show ?thesis
    using Op_Flush run_inv_flags [of x "snd (flush_pass (rr_reporter x))"] run_invD(1) [of x]
    by (auto simp: flush_pass_def pending_inv_def)
next
  case (Op_Ack s)
  assume "run_inv x"
  then show ?thesis
    using Op_Ack run_inv_flags [of x "snd (sr_acknowledge s (rr_reporter x))"] by (auto simp: sr_acknowledge_def)
qed (auto intro: run_inv_record run_inv_full run_inv_take simp del: reporter_apply.simps)

lemma run_inv_start:
  assumes "ExpertStateReporter nl el mu md = Inr r"
  shows "run_inv \<lparr>rr_reporter = r, rr_history = [], rr_reports = []\<rparr>"
  using assms
  by (auto simp: ExpertStateReporter_def run_inv_def pending_inv_def keyed_def order_inv_def indices_increase_def latest_change_def)

lemma run_inv_run: "ExpertStateReporter nl el mu md = Inr r \<Longrightarrow> run_inv (run_reporter ops r)"
  unfolding run_reporter_def
proof (induction ops rule: rev_induct)
  case Nil
  then show ?case by (simp add: run_inv_start)
qed (simp add: run_inv_apply)

section \<open>What the Controller has seen\<close>

lemma report_ok_cases:
  assumes "report_ok mu i rep"
  obtains g ss where "rp_taken rep = []" "distinct (map es_key ss)" "rp_messages rep = full_state_messages g (int i + 1) ss"
  | "rp_taken rep \<noteq> []" "int (length (rp_taken rep)) \<le> mu" "rp_messages rep = [update_report (int i + 1) (rp_taken rep)]"
    "\<And>p. p \<in> set (rp_taken rep) \<Longrightarrow>
       ec_placement_generation (pn_change p) = ec_placement_generation (pn_change (hd (rp_taken rep)))"
  using assms unfolding report_ok_def by blast

lemma updates_of_taken:
  assumes "\<And>i. i < length L \<Longrightarrow> report_ok mu i (L ! i)"
  shows "updates_of k L = map (encode_state \<circ> ec_expert \<circ> pn_change) (filter (\<lambda>p. pending_key p = k) (all_taken L))"
proof -
  have one: "concat (map updated_experts (rp_messages rep)) = map (encode_state \<circ> ec_expert \<circ> pn_change) (rp_taken rep)"
    if "rep \<in> set L" for rep
  proof -
    obtain i where "i < length L" "L ! i = rep" using \<open>rep \<in> set L\<close> by (meson in_set_conv_nth)
    then have "report_ok mu i rep" using assms by blast
    then show ?thesis
    proof (cases rule: report_ok_cases)
      case 1
      then show ?thesis by (simp add: full_state_messages_facts(3))
    next
      case 2
      then have "rp_messages rep = [update_report (int i + 1) (rp_taken rep)]" by blast
      then show ?thesis by (simp add: update_report_def)
    qed
  qed
  have "concat (map updated_experts (concat (map rp_messages M))) = map (encode_state \<circ> ec_expert \<circ> pn_change) (all_taken M)"
    if "set M \<subseteq> set L" for M
    using that by (induction M) (simp_all add: one)
  then show ?thesis by (simp add: updates_of_def filter_map comp_def)
qed

lemma last_taken:
  assumes "sorted_wrt (\<lambda>p q. pn_change_index p < pn_change_index q) ps" and "p \<in> set ps"
    and "\<And>q. q \<in> set ps \<Longrightarrow> pn_change_index q \<le> pn_change_index p"
  shows "last ps = p"
proof (rule ccontr)
  assume other: "last ps \<noteq> p"
  obtain qs q where ps: "ps = qs @ [q]" using assms(2) by (cases ps rule: rev_cases) auto
  with other assms(2) have "p \<in> set qs" by auto
  then have "pn_change_index p < pn_change_index q" using assms(1) ps by (simp add: sorted_wrt_append)
  then show False using assms(3) [of q] ps by auto
qed

lemma taken_latest:
  assumes "order_inv h L r" and "latest_change h k i" and "p \<in> set (all_taken L)" and "pn_change_index p = int i + 1"
  shows "filter (\<lambda>p. pending_key p = k) (all_taken L) \<noteq> []"
    and "pn_change (last (filter (\<lambda>p. pending_key p = k) (all_taken L))) = h ! i"
proof -
  let ?ps = "filter (\<lambda>p. pending_key p = k) (all_taken L)"
  have hist: "from_history h q" if "q \<in> set ?ps" for q using assms(1) that by (auto simp: order_inv_def)
  have change: "pn_change p = h ! i"
    using assms(1,3,4) by (fastforce simp: order_inv_def from_history_def)
  then have mem: "p \<in> set ?ps" using assms(2,3) by (simp add: latest_change_def)
  then show "?ps \<noteq> []" by (metis empty_iff list.set(1))
  have "pn_change_index q \<le> pn_change_index p" if q: "q \<in> set ?ps" for q
  proof -
    obtain j where j: "j < length h" "pn_change_index q = int j + 1" "pn_change q = h ! j"
      using hist [OF q] by (auto simp: from_history_def)
    have "change_key (h ! j) = k" using q j(3) by auto
    then have "\<not> i < j" using assms(2) j(1) by (auto simp: latest_change_def)
    then show ?thesis using j(2) assms(4) by simp
  qed
  moreover have "sorted_wrt (\<lambda>p q. pn_change_index p < pn_change_index q) ?ps"
    using assms(1) unfolding order_inv_def indices_increase_def by blast
  ultimately have "last ?ps = p" using mem last_taken by blast
  then show "pn_change (last ?ps) = h ! i" by (simp add: change)
qed

lemma run_report_ok:
  assumes "run_inv x" and "rep \<in> set (rr_reports x)"
  obtains i where "i < length (rr_reports x)" and "rep = rr_reports x ! i" and "report_ok (sr_max_updates (rr_reporter x)) i rep"
  using assms run_invD(3) by (metis in_set_conv_nth)

lemma report_sequences:
  assumes "run_inv x" and "i < length (rr_reports x)" and "m \<in> set (rp_messages (rr_reports x ! i))"
  shows "report_sequence m = Some (int i + 1)"
  using run_invD(3) [OF assms(1,2)]
proof (cases rule: report_ok_cases)
  case 1
  then show ?thesis using assms(3) full_state_messages_facts(1) by metis
next
  case 2
  then have "m = update_report (int i + 1) (rp_taken (rr_reports x ! i))" using assms(3) by simp
  then show ?thesis by (simp add: update_report_def)
qed

lemma update_contents:
  assumes "run_inv x" and "rep \<in> set (rr_reports x)" and "State_Updates u \<in> set (rp_messages rep)"
  shows "su_experts u \<noteq> []" and "length (su_experts u) \<le> MAX_EXPERTS_PER_CONTROL_PART"
    and "s \<in> set (su_experts u) \<Longrightarrow> \<exists>c\<in>set (rr_history x). s = encode_state (ec_expert c) \<and> ec_placement_generation c = su_placement_generation u"
proof -
  obtain i where "i < length (rr_reports x)" and ok: "report_ok (sr_max_updates (rr_reporter x)) i rep"
    using run_report_ok [OF assms(1,2)] by blast
  have mu: "sr_max_updates (rr_reporter x) \<le> int MAX_EXPERTS_PER_CONTROL_PART"
    using run_invD(1) [OF assms(1)] by (simp add: pending_inv_def)
  have hist: "from_history (rr_history x) p" if "p \<in> set (rp_taken rep)" for p
    using run_invD(4) [OF assms(1)] assms(2) that by (auto simp: order_inv_def)
  from ok have "su_experts u \<noteq> [] \<and> length (su_experts u) \<le> MAX_EXPERTS_PER_CONTROL_PART \<and>
    (s \<in> set (su_experts u) \<longrightarrow> (\<exists>c\<in>set (rr_history x). s = encode_state (ec_expert c) \<and> ec_placement_generation c = su_placement_generation u))"
  proof (cases rule: report_ok_cases)
    case 1
    then show ?thesis using assms(3) by (auto simp: full_state_messages_def Let_def)
  next
    case 2
    have u: "su_experts u = map (encode_state \<circ> ec_expert \<circ> pn_change) (rp_taken rep)"
      "su_placement_generation u = ec_placement_generation (pn_change (hd (rp_taken rep)))"
      using assms(3) 2(3) by (auto simp: update_report_def)
    have "\<exists>c\<in>set (rr_history x). encode_state (ec_expert (pn_change p)) = encode_state (ec_expert c) \<and>
        ec_placement_generation c = su_placement_generation u" if "p \<in> set (rp_taken rep)" for p
      using hist [OF that] 2(4) [OF that] u(2) by (metis from_history_def nth_mem)
    then show ?thesis using 2(1,2) mu u(1) by auto
  qed
  then show "su_experts u \<noteq> []" and "length (su_experts u) \<le> MAX_EXPERTS_PER_CONTROL_PART"
    and "s \<in> set (su_experts u) \<Longrightarrow> \<exists>c\<in>set (rr_history x). s = encode_state (ec_expert c) \<and> ec_placement_generation c = su_placement_generation u"
    by blast+
qed

lemma latest_reported:
  assumes "run_inv x" and "latest_change (rr_history x) k i"
  shows "(\<exists>p. map_of (sr_pending (rr_reporter x)) k = Some p \<and> pn_change p = rr_history x ! i) \<or>
    (updates_of k (rr_reports x) \<noteq> [] \<and> last (updates_of k (rr_reports x)) = encode_state (ec_expert (rr_history x ! i))) \<or>
    (\<exists>rep\<in>set (rr_reports x). int i < rp_boundary rep)"
proof -
  note inv = run_invD [OF assms(1)]
  from inv(5) [OF assms(2)] consider p where "p \<in> snd ` set (sr_pending (rr_reporter x))" "pn_change_index p = int i + 1"
    | p where "p \<in> set (all_taken (rr_reports x))" "pn_change_index p = int i + 1"
    | "\<exists>rep\<in>set (rr_reports x). int i < rp_boundary rep"
    unfolding change_covered_def by blast
  then show ?thesis
  proof cases
    case 1
    then have "pn_change p = rr_history x ! i"
      using pending_from_history(1) [OF inv(1) 1(1)] by (auto simp: from_history_def)
    moreover have "map_of (sr_pending (rr_reporter x)) (pending_key p) = Some p"
      using inv(1) 1(1) by (simp add: pending_inv_def keyedD)
    ultimately show ?thesis using assms(2) by (auto simp: latest_change_def)
  next
    case 2
    note t = taken_latest [OF inv(4) assms(2) 2]
    have eq: "updates_of k (rr_reports x) = map (encode_state \<circ> ec_expert \<circ> pn_change)
        (filter (\<lambda>p. pending_key p = k) (all_taken (rr_reports x)))"
      using inv(3) by (rule updates_of_taken)
    show ?thesis using t unfolding eq by (intro disjI2 disjI1) (simp add: last_map)
  qed blast
qed

section \<open>Flushing\<close>

lemma take_requested:
  assumes "run_inv x" and "sr_flush_requested (rr_reporter x)" and "sr_pending (rr_reporter x) \<noteq> []"
    and y_def: "y = reporter_apply (Op_Take False now now') x"
  shows "length (sr_pending (rr_reporter y)) < length (sr_pending (rr_reporter x))"
    and "sr_pending (rr_reporter y) \<noteq> [] \<Longrightarrow> sr_flush_requested (rr_reporter y)"
proof -
  let ?r = "rr_reporter x" and ?sel = "select_pending (rr_reporter x)"
  note inv = run_invD [OF assms(1)]
  have keyed: "keyed (sr_pending ?r)" and mu: "0 < sr_max_updates ?r" using inv(1) by (simp_all add: pending_inv_def)
  note sel = select_pending_facts [OF keyed pending_index_inj [OF inv(1)] mu]
  have y: "rr_reporter y = snd (next_sequence (refresh_changed_event
      (?r\<lparr>sr_pending := filter (\<lambda>e. snd e \<notin> set ?sel) (sr_pending ?r)\<rparr>)))"
    using sel(5) [OF assms(3)] assms(2)
    by (simp add: y_def take_updates_pass_def Let_def take_selected_def case_prod_beta fold_pop_selected [OF keyed])
  have "hd ?sel \<in> snd ` set (sr_pending ?r)" using sel(1) sel(5) [OF assms(3)] by auto
  then obtain e where e: "e \<in> set (sr_pending ?r)" "snd e = hd ?sel" by (auto simp del: split_paired_All)
  then have "snd e \<in> set ?sel" using sel(5) [OF assms(3)] by simp
  then show "length (sr_pending (rr_reporter y)) < length (sr_pending ?r)"
    using e(1) by (auto simp: y next_sequence_def intro!: length_filter_less)
  show "sr_flush_requested (rr_reporter y)" if "sr_pending (rr_reporter y) \<noteq> []"
  proof -
    have "filter (\<lambda>e. snd e \<notin> set ?sel) (sr_pending ?r) \<noteq> []" using that by (simp add: y next_sequence_def)
    then show ?thesis using assms(2) by (simp add: y next_sequence_def refresh_changed_event_def)
  qed
qed

lemma take_when_empty:
  "sr_pending (rr_reporter x) = [] \<Longrightarrow> sr_pending (rr_reporter (reporter_apply (Op_Take False now now') x)) = []"
  by (simp add: take_updates_pass_def select_pending_def)

lemma takes_drain:
  assumes "run_inv x" and "sr_pending (rr_reporter x) \<noteq> [] \<Longrightarrow> sr_flush_requested (rr_reporter x)"
    and "length (sr_pending (rr_reporter x)) \<le> length clocks"
  shows "sr_pending (rr_reporter (fold reporter_apply (map (\<lambda>c. Op_Take False (fst c) (snd c)) clocks) x)) = []"
  using assms
proof (induction clocks arbitrary: x)
  case (Cons c clocks)
  let ?y = "reporter_apply (Op_Take False (fst c) (snd c)) x"
  have "sr_pending (rr_reporter (fold reporter_apply (map (\<lambda>c. Op_Take False (fst c) (snd c)) clocks) ?y)) = []"
  proof (rule Cons.IH)
    show "run_inv ?y" using Cons.prems(1) by (rule run_inv_apply)
    show "sr_pending (rr_reporter ?y) \<noteq> [] \<Longrightarrow> sr_flush_requested (rr_reporter ?y)"
      using Cons.prems take_requested(2) take_when_empty by metis
    show "length (sr_pending (rr_reporter ?y)) \<le> length clocks"
    proof (cases "sr_pending (rr_reporter x) = []")
      case False
      then have "length (sr_pending (rr_reporter ?y)) < length (sr_pending (rr_reporter x))"
        using Cons.prems(1,2) by (intro take_requested(1)) simp_all
      then show ?thesis using Cons.prems(3) by simp
    qed (simp only: take_when_empty list.size le0)
  qed
  then show ?case by (simp del: reporter_apply.simps)
qed simp

definition ex_reporter :: state_reporter where
  "ex_reporter = \<lparr>sr_num_layers = 2, sr_experts_per_layer = 4, sr_max_updates = 2, sr_max_delay = 10, sr_pending = [],
     sr_changed = False, sr_flush_complete = True, sr_flush_requested = False, sr_change_index = 0,
     sr_last_report_sequence = 0, sr_last_acknowledged_sequence = 0\<rparr>"

definition ex_change :: "int \<Rightarrow> expert_state \<Rightarrow> expert_state_change" where
  "ex_change generation state = \<lparr>ec_placement_generation = generation, ec_expert = state\<rparr>"

definition ex_report_ops :: "reporter_op list" where
  "ex_report_ops = [Op_Record 0 (ex_change 7 (ready_state (0, 1))), Op_Record 1 (ex_change 7 (ready_state (1, 3))),
     Op_Take False 2 2, Op_Record 3 (ex_change 8 (removed_state (0, 1))), Op_Take False 4 4, Op_Take False 20 20]"

lemma ex_reporter_made: "ExpertStateReporter 2 4 2 10 = Inr ex_reporter"
  by (simp add: ExpertStateReporter_def ex_reporter_def MAX_EXPERTS_PER_CONTROL_PART_def)

section \<open>Properties\<close>

text \<open>
  C34. Nothing a Worker reports is lost or overtaken. In every run of the reporter the reports are numbered
  1, 2, 3, ... without gaps; an update message is never empty, carries at most 64 experts and only states
  recorded under the placement generation it names; and the newest state change of every expert is still
  pending, or it is the last word of the update messages about that expert, or a full snapshot whose
  boundary lies after it was sent.
\<close>

theorem expert_states_reported:
  assumes "ExpertStateReporter num_layers experts_per_layer max_updates max_delay_ms = Inr r" and "x = run_reporter ops r"
  shows "(\<forall>i<length (rr_reports x). \<forall>m\<in>set (rp_messages (rr_reports x ! i)). report_sequence m = Some (int i + 1)) \<and>
    (\<forall>rep\<in>set (rr_reports x). \<forall>u. State_Updates u \<in> set (rp_messages rep) \<longrightarrow>
       su_experts u \<noteq> [] \<and> length (su_experts u) \<le> 64 \<and>
       (\<forall>s\<in>set (su_experts u). \<exists>c\<in>set (rr_history x). s = encode_state (ec_expert c) \<and> ec_placement_generation c = su_placement_generation u)) \<and>
    (\<forall>k i. latest_change (rr_history x) k i \<longrightarrow>
       (\<exists>p. map_of (sr_pending (rr_reporter x)) k = Some p \<and> pn_change p = rr_history x ! i) \<or>
       (updates_of k (rr_reports x) \<noteq> [] \<and> last (updates_of k (rr_reports x)) = encode_state (ec_expert (rr_history x ! i))) \<or>
       (\<exists>rep\<in>set (rr_reports x). int i < rp_boundary rep))"
proof (intro conjI allI impI ballI)
  have inv: "run_inv x" using run_inv_run [OF assms(1)] assms(2) by simp
  show "report_sequence m = Some (int i + 1)" if "i < length (rr_reports x)" "m \<in> set (rp_messages (rr_reports x ! i))" for i m
    using report_sequences [OF inv that] .
  fix rep u
  assume rep: "rep \<in> set (rr_reports x)" and u: "State_Updates u \<in> set (rp_messages rep)"
  show "su_experts u \<noteq> []" by (rule update_contents(1) [OF inv rep u])
  show "length (su_experts u) \<le> 64"
    using update_contents(2) [OF inv rep u] by (simp add: MAX_EXPERTS_PER_CONTROL_PART_def)
  show "\<exists>c\<in>set (rr_history x). s = encode_state (ec_expert c) \<and> ec_placement_generation c = su_placement_generation u"
    if "s \<in> set (su_experts u)" for s
    by (rule update_contents(3) [OF inv rep u that])
next
  fix k i
  assume "latest_change (rr_history x) k i"
  moreover have "run_inv x" using run_inv_run [OF assms(1)] assms(2) by simp
  ultimately show "(\<exists>p. map_of (sr_pending (rr_reporter x)) k = Some p \<and> pn_change p = rr_history x ! i) \<or>
       (updates_of k (rr_reports x) \<noteq> [] \<and> last (updates_of k (rr_reports x)) = encode_state (ec_expert (rr_history x ! i))) \<or>
       (\<exists>rep\<in>set (rr_reports x). int i < rp_boundary rep)"
    by (intro latest_reported)
qed

theorem expert_states_reported_witness:
  "ExpertStateReporter 2 4 2 10 = Inr ex_reporter \<and>
   length (rr_reports (run_reporter ex_report_ops ex_reporter)) = 2 \<and>
   report_sequence (hd (rp_messages (rr_reports (run_reporter ex_report_ops ex_reporter) ! 1))) = Some 2 \<and>
   last (updates_of (0, 1) (rr_reports (run_reporter ex_report_ops ex_reporter))) = encode_state (removed_state (0, 1))"
proof -
  let ?x = "run_reporter ex_report_ops ex_reporter"
  have "length (rr_reports ?x) = 2" by code_simp
  moreover have "rp_messages (rr_reports ?x ! 1) \<noteq> []" by code_simp
  moreover have "latest_change (rr_history ?x) (0, 1) 2" by code_simp
  moreover have "rr_history ?x ! 2 = ex_change 8 (removed_state (0, 1))" by code_simp
  moreover have "sr_pending (rr_reporter ?x) = []" by code_simp
  moreover have "\<not> (\<exists>rep\<in>set (rr_reports ?x). int 2 < rp_boundary rep)" by code_simp
  ultimately show ?thesis
    using expert_states_reported [OF ex_reporter_made refl, of ex_report_ops] ex_reporter_made
    by (metis (no_types, lifting) ex_change_def expert_state_change.select_convs(2) hd_in_set map_of.simps(1)
        of_nat_1 one_add_one one_less_numeral_iff option.distinct(1) semiring_norm(76))
qed

text \<open>
  C35. A flush ends: once it has been requested, as many turns of \<open>take_updates\<close> as there are pending
  experts take every change, whatever the clock shows, and the waiting \<open>flush\<close> then returns the number
  of the last report.
\<close>

theorem flush_returns:
  assumes "ExpertStateReporter num_layers experts_per_layer max_updates max_delay_ms = Inr r"
    and "length (sr_pending (rr_reporter (run_reporter ops r))) \<le> length clocks"
    and "y = run_reporter (ops @ [Op_Flush] @ map (\<lambda>c. Op_Take False (fst c) (snd c)) clocks) r"
  shows "sr_flush_complete (rr_reporter y) \<and> sr_pending (rr_reporter y) = [] \<and>
    flush_pass (rr_reporter y) = (Some (int (length (rr_reports y))), rr_reporter y)"
proof -
  let ?x = "run_reporter (ops @ [Op_Flush]) r"
  have inv: "run_inv ?x" by (rule run_inv_run [OF assms(1)])
  have flushed: "rr_reporter ?x = snd (flush_pass (rr_reporter (run_reporter ops r)))" by (simp add: run_reporter_def)
  have y: "y = fold reporter_apply (map (\<lambda>c. Op_Take False (fst c) (snd c)) clocks) ?x"
    by (simp add: assms(3) run_reporter_def)
  have pend: "sr_pending (rr_reporter y) = []"
    unfolding y by (rule takes_drain [OF inv]) (use assms(2) flushed in \<open>auto simp: flush_pass_def\<close>)
  have "run_inv y" unfolding assms(3) by (rule run_inv_run [OF assms(1)])
  then show ?thesis
    using pend run_invD(1,2) [of y] by (simp add: flush_pass_def pending_inv_def)
qed

theorem flush_returns_witness:
  "flush_pass (rr_reporter (run_reporter (take 2 ex_report_ops @ [Op_Flush] @ map (\<lambda>c. Op_Take False (fst c) (snd c)) [(0, 0), (0, 0)]) ex_reporter)) =
     (Some 1, rr_reporter (run_reporter (take 2 ex_report_ops @ [Op_Flush] @ map (\<lambda>c. Op_Take False (fst c) (snd c)) [(0, 0), (0, 0)]) ex_reporter))"
proof -
  let ?y = "run_reporter (take 2 ex_report_ops @ [Op_Flush] @ map (\<lambda>c. Op_Take False (fst c) (snd c)) [(0, 0), (0, 0)]) ex_reporter"
  have "length (sr_pending (rr_reporter (run_reporter (take 2 ex_report_ops) ex_reporter))) \<le> length [(0::int, 0::int), (0, 0)]" by code_simp
  from flush_returns [OF ex_reporter_made this refl]
  have "flush_pass (rr_reporter ?y) = (Some (int (length (rr_reports ?y))), rr_reporter ?y)" by blast
  moreover have "length (rr_reports ?y) = 1" by code_simp
  ultimately show ?thesis by simp
qed

end
