(* ===== verification/Weight_Stream.thy ===== *)
theory Weight_Stream
  imports State_Reporter Receiver_Queue Manager_Coverage
begin

text \<open>
  \<open>ek-worker/src/expertkit_worker/control/weight_stream.py\<close>: the weight-control session that applies
  placements, reports expert states and runs authorized drains, on top of the models of the Weight
  Manager, the state reporter and the receiver's queue, to which both receivers delegate
  \<open>begin_drain\<close>, \<open>clear_drains\<close> and \<open>wait_idle\<close>.

  A coroutine is cut at its awaits: \<open>ws_response\<close> is where the response reader stands, \<open>sn_update\<close> and
  \<open>sn_completions\<close> where the two senders of the current stream stand, and a drain task is a number into
  \<open>ws_tasks\<close> with its phase and whether a \<open>cancel()\<close> is still to be delivered. \<open>ws_lock\<close> is the holder of
  \<open>_drain_transition\<close>. A step whose await is not satisfied leaves the state unchanged. The Manager, its
  load tasks and the receiver make steps of their own in between; the changes the Manager emits are
  recorded by the reporter at once. That the reader waits for superseded drain tasks to end only delays its
  next step and is left out. \<open>ws_raised\<close> collects the exceptions that ended stream attempts, and
  \<open>sn_put\<close> the messages put on the outgoing queue.
\<close>

definition OUTBOUND_GROUPS :: nat where
  "OUTBOUND_GROUPS = 4"

definition COMPLETED_DRAIN_HISTORY :: nat where
  "COMPLETED_DRAIN_HISTORY = 64"

datatype drain_phase =
    Drain_Created
  | Drain_Locking
  | Drain_Waiting "int option"
  | Drain_Idle
  | Drain_Removing removal_request
  | Drain_Flushing
  | Drain_Awaiting int
  | Drain_Ended

record drain_task =
  dt_authorization :: drain_authorization
  dt_phase :: drain_phase
  dt_cancel :: bool

datatype lock_holder = Apply_Holds | Drain_Holds nat

datatype response_phase =
    Reading
  | Want_Transition placement_targets
  | In_Apply placement_targets
  | In_Snapshot placement_targets int
  | In_Clear int "expert_state list" int "weight_key list"
  | In_Report int "expert_state list" int
  | In_Put "worker_weight_message list"

datatype completion_phase =
    Pump_Select
  | Pump_Flush "int list"
  | Pump_Await "int list" int
  | Pump_Put "int list"

record stream_run =
  sn_outbound :: "worker_weight_message list list"
  sn_snapshot_ready :: bool
  sn_sent :: "int list"
  sn_update :: "worker_weight_message option"
  sn_completions :: completion_phase
  sn_put :: "worker_weight_message list"
  sn_yielded :: "worker_weight_message list"

record 'v weight_session =
  ws_worker_id :: string
  ws_start_id :: string
  ws_grace :: int
  ws_targets :: target_assembler
  ws_drains :: drain_assembler
  ws_generation :: int
  ws_target_keys :: "weight_key list"
  ws_lock :: "lock_holder option"
  ws_last_enqueued :: int
  ws_active :: "(int, nat) dict"
  ws_tasks :: "drain_task list"
  ws_completed :: "(int, drain_authorization) dict"
  ws_superseded :: "(int, drain_authorization) dict"
  ws_drain_error :: "exn option"
  ws_shutdown_drained :: bool
  ws_shutdown_completion_sent :: bool
  ws_shutdown_deadline :: "int option"
  ws_closed :: bool
  ws_response :: response_phase
  ws_run :: "stream_run option"
  ws_manager :: "'v weight_manager"
  ws_reporter :: state_reporter
  ws_queue :: receiver_queue
  ws_raised :: "exn list"

text \<open>\<open>str.strip\<close> leaves something: a character that is no white space.\<close>

definition blank :: "string \<Rightarrow> bool" where
  "blank s \<longleftrightarrow> (\<forall>c\<in>set s. of_char c \<in> {9::nat, 10, 11, 12, 13, 28, 29, 30, 31, 32, 133, 160})"

definition WeightControlSession ::
  "string \<Rightarrow> string \<Rightarrow> int \<Rightarrow> int \<Rightarrow> 'v weight_manager \<Rightarrow> state_reporter \<Rightarrow> receiver_queue \<Rightarrow> exn + 'v weight_session" where
  "WeightControlSession worker_id start_id max_experts grace manager reporter queue =
     after (raise_first
       [(blank worker_id, ValueError ''worker_id must not be empty''),
        (blank start_id, ValueError ''start_id must not be empty''),
        (max_experts \<le> 0, ValueError ''max_experts must be a positive integer''),
        (grace \<le> 0, ValueError ''shutdown_grace_secs must be positive'')])
      (rbind (TargetListAssembler max_experts) (\<lambda>targets. rbind (DrainAuthorizationAssembler max_experts) (\<lambda>drains.
        Inr \<lparr>ws_worker_id = worker_id, ws_start_id = start_id, ws_grace = grace, ws_targets = targets, ws_drains = drains,
             ws_generation = 0, ws_target_keys = [], ws_lock = None, ws_last_enqueued = 0, ws_active = [], ws_tasks = [],
             ws_completed = [], ws_superseded = [], ws_drain_error = None, ws_shutdown_drained = False,
             ws_shutdown_completion_sent = False, ws_shutdown_deadline = None, ws_closed = False, ws_response = Reading,
             ws_run = None, ws_manager = manager, ws_reporter = reporter, ws_queue = queue, ws_raised = []\<rparr>)))"

section \<open>The Manager's changes\<close>

definition record_all :: "int \<Rightarrow> expert_state_change list \<Rightarrow> state_reporter \<Rightarrow> state_reporter" where
  "record_all now changes r = fold (\<lambda>c r. snd (sr_record now c r)) changes r"

definition with_manager :: "int \<Rightarrow> 'v weight_manager \<Rightarrow> 'v weight_session \<Rightarrow> 'v weight_session" where
  "with_manager now m s =
     s\<lparr>ws_manager := m,
       ws_reporter := record_all now (drop (length (wm_emitted (ws_manager s))) (wm_emitted m)) (ws_reporter s)\<rparr>"

section \<open>Stream attempts\<close>

definition release_lock :: "lock_holder \<Rightarrow> 'v weight_session \<Rightarrow> 'v weight_session" where
  "release_lock holder s = (if ws_lock s = Some holder then s\<lparr>ws_lock := None\<rparr> else s)"

definition new_run :: stream_run where
  "new_run = \<lparr>sn_outbound = [], sn_snapshot_ready = False, sn_sent = [], sn_update = None, sn_completions = Pump_Select,
     sn_put = [], sn_yielded = []\<rparr>"

definition run_once_start :: "'v weight_session \<Rightarrow> (exn + unit) \<times> 'v weight_session" where
  "run_once_start s =
     (if ws_closed s then (Inl (RuntimeError ''Weight control session is closed''), s)
      else if ws_run s \<noteq> None then (Inr (), s)
      else (Inr (), s\<lparr>ws_run := Some (new_run\<lparr>sn_yielded := [Open_Stream (ws_worker_id s) (ws_start_id s)]\<rparr>), ws_response := Reading\<rparr>))"

text \<open>The \<open>finally\<close> of \<open>run_once\<close>: every task of the attempt is cancelled.\<close>

definition run_once_end :: "'v weight_session \<Rightarrow> 'v weight_session" where
  "run_once_end s = release_lock Apply_Holds (s\<lparr>ws_run := None, ws_response := Reading\<rparr>)"

definition run_fails :: "exn \<Rightarrow> 'v weight_session \<Rightarrow> 'v weight_session" where
  "run_fails e s = (let s' = run_once_end s in s'\<lparr>ws_raised := ws_raised s' @ [e]\<rparr>)"

definition drain_failure_seen :: "'v weight_session \<Rightarrow> 'v weight_session" where
  "drain_failure_seen s =
     (if ws_run s \<noteq> None \<and> ws_drain_error s \<noteq> None then run_fails (WeightControlDrainError ''authorized drain failed'') s else s)"

definition session_begin_shutdown :: "int \<Rightarrow> 'v weight_session \<Rightarrow> 'v weight_session" where
  "session_begin_shutdown now s =
     (let s1 = (if ws_shutdown_deadline s = None then s\<lparr>ws_shutdown_deadline := Some (now + ws_grace s)\<rparr> else s)
      in if lock_free (ws_manager s1) then with_manager now (snd (begin_shutdown (ws_manager s1))) s1 else s1)"

definition cancel_drain :: "nat \<Rightarrow> 'v weight_session \<Rightarrow> 'v weight_session" where
  "cancel_drain i s =
     (if i < length (ws_tasks s) \<and> dt_phase (ws_tasks s ! i) \<noteq> Drain_Ended
      then s\<lparr>ws_tasks := (ws_tasks s)[i := (ws_tasks s ! i)\<lparr>dt_cancel := True\<rparr>]\<rparr> else s)"

definition control_close :: "'v weight_session \<Rightarrow> 'v weight_session" where
  "control_close s =
     (if ws_closed s then s else fold cancel_drain (map snd (ws_active s)) (s\<lparr>ws_closed := True\<rparr>))"

section \<open>Drain bookkeeping\<close>

definition remember_superseded :: "drain_authorization \<Rightarrow> 'v weight_session \<Rightarrow> exn option \<times> 'v weight_session" where
  "remember_superseded a s =
     (case map_of (ws_superseded s) (da_drain_id a) of
        Some previous \<Rightarrow>
          if previous \<noteq> a then (Some (ValueError ''superseded drain ID was repeated with different content''), s)
          else (None, s\<lparr>ws_superseded := AList.update (da_drain_id a) a (ws_superseded s)\<rparr>)
      | None \<Rightarrow>
          let history = (if length (ws_superseded s) \<ge> COMPLETED_DRAIN_HISTORY then tl (ws_superseded s) else ws_superseded s)
          in (None, s\<lparr>ws_superseded := AList.update (da_drain_id a) a history\<rparr>))"

definition remember_completed :: "drain_authorization \<Rightarrow> 'v weight_session \<Rightarrow> 'v weight_session" where
  "remember_completed a s =
     (let history = (if length (ws_completed s) \<ge> COMPLETED_DRAIN_HISTORY then tl (ws_completed s) else ws_completed s)
      in s\<lparr>ws_completed := AList.update (da_drain_id a) a history\<rparr>)"

definition is_superseded :: "drain_authorization \<Rightarrow> 'v weight_session \<Rightarrow> bool" where
  "is_superseded a s \<longleftrightarrow> \<not> da_stop_accepting_all_computation a \<and> da_placement_generation a < ws_generation s"

definition start_drain :: "drain_authorization \<Rightarrow> 'v weight_session \<Rightarrow> exn option \<times> 'v weight_session" where
  "start_drain a s =
     (case map_of (ws_superseded s) (da_drain_id a) of
        Some superseded \<Rightarrow>
          (if superseded \<noteq> a then Some (ValueError ''superseded drain ID was repeated with different content'') else None, s)
      | None \<Rightarrow>
        (case map_of (ws_completed s) (da_drain_id a) of
           Some completed \<Rightarrow>
             (if completed \<noteq> a then Some (ValueError ''completed drain ID was repeated with different content'') else None, s)
         | None \<Rightarrow>
           (case map_of (ws_active s) (da_drain_id a) of
              Some i \<Rightarrow>
                (if dt_authorization (ws_tasks s ! i) \<noteq> a
                 then Some (ValueError ''active drain ID was repeated with different content'') else None, s)
            | None \<Rightarrow>
                if is_superseded a s then remember_superseded a s
                else (None, s\<lparr>ws_tasks := ws_tasks s @ [\<lparr>dt_authorization = a, dt_phase = Drain_Created, dt_cancel = False\<rparr>],
                              ws_active := AList.update (da_drain_id a) (length (ws_tasks s)) (ws_active s)\<rparr>))))"

section \<open>The response reader\<close>

definition fill_targets :: "placement_targets \<Rightarrow> weight_key list" where
  "fill_targets p = map tx_key (pt_experts p)"

definition receive_targets ::
  "(target_part \<Rightarrow> wire) \<Rightarrow> (wire \<Rightarrow> target_part) \<Rightarrow> target_part \<Rightarrow> 'v weight_session \<Rightarrow> 'v weight_session" where
  "receive_targets serialize from_string part s =
     (if ws_run s = None \<or> ws_response s \<noteq> Reading then s
      else case target_add serialize from_string part (ws_targets s) of
             (Inl e, a) \<Rightarrow> run_fails e (s\<lparr>ws_targets := a\<rparr>)
           | (Inr None, a) \<Rightarrow> s\<lparr>ws_targets := a\<rparr>
           | (Inr (Some p), a) \<Rightarrow> s\<lparr>ws_targets := a, ws_response := Want_Transition p\<rparr>)"

definition receive_ack :: "int \<Rightarrow> 'v weight_session \<Rightarrow> 'v weight_session" where
  "receive_ack sequence s =
     (if ws_run s = None \<or> ws_response s \<noteq> Reading then s
      else case sr_acknowledge sequence (ws_reporter s) of
             (Inl e, r) \<Rightarrow> run_fails e (s\<lparr>ws_reporter := r\<rparr>)
           | (Inr _, r) \<Rightarrow> s\<lparr>ws_reporter := r\<rparr>)"

definition receive_drain ::
  "(drain_part \<Rightarrow> wire) \<Rightarrow> (wire \<Rightarrow> drain_part) \<Rightarrow> drain_part \<Rightarrow> 'v weight_session \<Rightarrow> 'v weight_session" where
  "receive_drain serialize from_string part s =
     (if ws_run s = None \<or> ws_response s \<noteq> Reading then s
      else case drain_add serialize from_string part (ws_drains s) of
             (Inl e, z) \<Rightarrow> run_fails e (s\<lparr>ws_drains := z\<rparr>)
           | (Inr None, z) \<Rightarrow> s\<lparr>ws_drains := z\<rparr>
           | (Inr (Some a), z) \<Rightarrow>
               (case start_drain a (s\<lparr>ws_drains := z\<rparr>) of (Some e, s') \<Rightarrow> run_fails e s' | (None, s') \<Rightarrow> s'))"

definition receive_unknown :: "'v weight_session \<Rightarrow> 'v weight_session" where
  "receive_unknown s =
     (if ws_run s = None \<or> ws_response s \<noteq> Reading then s
      else run_fails (ValueError ''Controller weight message has no supported payload'') s)"

text \<open>\<open>_apply_targets\<close>: superseding the older drains under the lock, the Manager, its snapshot, the gates, the report.\<close>

fun supersede_older :: "int \<Rightarrow> nat list \<Rightarrow> 'v weight_session \<Rightarrow> exn option \<times> 'v weight_session" where
  "supersede_older generation [] s = (None, s)"
| "supersede_older generation (i # is') s =
     (let a = dt_authorization (ws_tasks s ! i) in
      if \<not> da_stop_accepting_all_computation a \<and> da_placement_generation a < generation
      then (case remember_superseded a s of
              (Some e, s') \<Rightarrow> (Some e, s')
            | (None, s') \<Rightarrow> supersede_older generation is' (cancel_drain i s'))
      else supersede_older generation is' s)"

definition apply_begin :: "'v weight_session \<Rightarrow> 'v weight_session" where
  "apply_begin s =
     (case ws_response s of
        Want_Transition p \<Rightarrow>
          if ws_lock s \<noteq> None then s
          else
            (case (if pt_placement_generation p > ws_generation s
                   then supersede_older (pt_placement_generation p) (map snd (ws_active s)) s else (None, s)) of
               (Some e, s') \<Rightarrow> run_fails e s'
             | (None, s') \<Rightarrow> s'\<lparr>ws_lock := Some Apply_Holds, ws_response := In_Apply p\<rparr>)
      | _ \<Rightarrow> s)"

definition snapshot_ready :: "'v weight_session \<Rightarrow> bool" where
  "snapshot_ready s = (case ws_run s of None \<Rightarrow> False | Some run \<Rightarrow> sn_snapshot_ready run)"

definition apply_manager :: "int \<Rightarrow> 'v weight_session \<Rightarrow> 'v weight_session" where
  "apply_manager now s =
     (case ws_response s of
        In_Apply p \<Rightarrow>
          if \<not> lock_free (ws_manager s) then s
          else
            (case apply_targets (pt_placement_generation p) (pt_experts p) (ws_manager s) of
               (Inl e, m) \<Rightarrow> run_fails e (with_manager now m s)
             | (Inr applied, m) \<Rightarrow>
                 let s1 = (with_manager now m s)\<lparr>ws_generation := pt_placement_generation p, ws_target_keys := fill_targets p\<rparr>
                 in if \<not> applied \<and> snapshot_ready s1
                    then release_lock Apply_Holds (s1\<lparr>ws_response := Reading\<rparr>)
                    else s1\<lparr>ws_response := In_Snapshot p (mark_changes (ws_reporter s1))\<rparr>)
      | _ \<Rightarrow> s)"

definition apply_snapshot :: "'v weight_session \<Rightarrow> 'v weight_session" where
  "apply_snapshot s =
     (case ws_response s of
        In_Snapshot p boundary \<Rightarrow>
          if \<not> lock_free (ws_manager s) then s
          else
            (case wm_snapshot (ws_manager s) of
               (observed, states) \<Rightarrow>
                 if observed \<noteq> pt_placement_generation p
                 then run_fails (RuntimeError ''Weight Manager snapshot generation does not match targets'') s
                 else s\<lparr>ws_response := In_Clear observed states boundary
                        (map es_key (filter (\<lambda>st. es_state st = READY \<and> es_key st \<in> set (ws_target_keys s)) states))\<rparr>)
      | _ \<Rightarrow> s)"

definition apply_clear :: "'v weight_session \<Rightarrow> 'v weight_session" where
  "apply_clear s =
     (case ws_response s of
        In_Clear generation states boundary ready_targets \<Rightarrow>
          (case (if ready_targets = [] then (Inr (), ws_queue s) else queue_clear_expert_drains ready_targets (ws_queue s)) of
             (Inl e, q) \<Rightarrow> run_fails e (s\<lparr>ws_queue := q\<rparr>)
           | (Inr _, q) \<Rightarrow> release_lock Apply_Holds (s\<lparr>ws_queue := q, ws_response := In_Report generation states boundary\<rparr>))
      | _ \<Rightarrow> s)"

definition apply_report :: "'v weight_session \<Rightarrow> 'v weight_session" where
  "apply_report s =
     (case ws_response s of
        In_Report generation states boundary \<Rightarrow>
          if snapshot_ready s then s\<lparr>ws_response := Reading\<rparr>
          else
            (case full_state_parts generation states boundary (ws_reporter s) of
               (Inl e, r) \<Rightarrow> run_fails e (s\<lparr>ws_reporter := r\<rparr>)
             | (Inr msgs, r) \<Rightarrow> s\<lparr>ws_reporter := r, ws_response := In_Put msgs\<rparr>)
      | _ \<Rightarrow> s)"

section \<open>The senders\<close>

definition enqueue :: "worker_weight_message list \<Rightarrow> stream_run \<Rightarrow> stream_run" where
  "enqueue msgs run = run\<lparr>sn_outbound := sn_outbound run @ [msgs], sn_put := sn_put run @ msgs\<rparr>"

text \<open>The part of \<open>_enqueue_reports\<close> after the put.\<close>

definition note_enqueued :: "worker_weight_message list \<Rightarrow> 'v weight_session \<Rightarrow> 'v weight_session" where
  "note_enqueued msgs s =
     (let report_sequence = fold max (map the (filter (\<lambda>x. x \<noteq> None) (map report_sequence msgs))) 0
      in if report_sequence \<noteq> 0 then s\<lparr>ws_last_enqueued := max (ws_last_enqueued s) report_sequence\<rparr> else s)"

definition put_snapshot :: "'v weight_session \<Rightarrow> 'v weight_session" where
  "put_snapshot s =
     (case (ws_response s, ws_run s) of
        (In_Put msgs, Some run) \<Rightarrow>
          if length (sn_outbound run) \<ge> OUTBOUND_GROUPS then s
          else (note_enqueued msgs s)\<lparr>ws_run := Some ((enqueue msgs run)\<lparr>sn_snapshot_ready := True\<rparr>), ws_response := Reading\<rparr>
      | _ \<Rightarrow> s)"

definition pump_updates :: "int \<Rightarrow> int \<Rightarrow> 'v weight_session \<Rightarrow> 'v weight_session" where
  "pump_updates now now' s =
     (case ws_run s of
        None \<Rightarrow> s
      | Some run \<Rightarrow>
          if \<not> sn_snapshot_ready run then s
          else
            (case sn_update run of
               None \<Rightarrow>
                 (case take_updates_pass False now now' (ws_reporter s) of
                    (Took m, r) \<Rightarrow> s\<lparr>ws_reporter := r, ws_run := Some (run\<lparr>sn_update := Some m\<rparr>)\<rparr>
                  | (_, r) \<Rightarrow> s\<lparr>ws_reporter := r\<rparr>)
             | Some m \<Rightarrow>
                 if length (sn_outbound run) \<ge> OUTBOUND_GROUPS then s
                 else (note_enqueued [m] s)\<lparr>ws_run := Some ((enqueue [m] run)\<lparr>sn_update := None\<rparr>)\<rparr>))"

definition pump_completions :: "'v weight_session \<Rightarrow> 'v weight_session" where
  "pump_completions s =
     (case ws_run s of
        None \<Rightarrow> s
      | Some run \<Rightarrow>
          if \<not> sn_snapshot_ready run then s
          else
            (case sn_completions run of
               Pump_Select \<Rightarrow>
                 (let pending_ids = filter (\<lambda>d. d \<notin> set (sn_sent run)) (map fst (ws_completed s))
                  in if pending_ids \<noteq> [] then s\<lparr>ws_run := Some (run\<lparr>sn_completions := Pump_Flush pending_ids\<rparr>)\<rparr> else s)
             | Pump_Flush ids \<Rightarrow>
                 (case flush_pass (ws_reporter s) of
                    (None, r) \<Rightarrow> s\<lparr>ws_reporter := r\<rparr>
                  | (Some sequence, r) \<Rightarrow> s\<lparr>ws_reporter := r, ws_run := Some (run\<lparr>sn_completions := Pump_Await ids sequence\<rparr>)\<rparr>)
             | Pump_Await ids sequence \<Rightarrow>
                 if ws_last_enqueued s < sequence then s
                 else s\<lparr>ws_run := Some (run\<lparr>sn_completions := Pump_Put ids\<rparr>)\<rparr>
             | Pump_Put ids \<Rightarrow>
                 if length (sn_outbound run) \<ge> OUTBOUND_GROUPS then s
                 else s\<lparr>ws_run := Some ((enqueue (map Drain_Complete ids) run)
                          \<lparr>sn_sent := sn_sent run @ ids, sn_completions := Pump_Select\<rparr>)\<rparr>))"

text \<open>\<open>_requests\<close>: one group leaves the queue, opens the gates of the experts it reports ready, and is yielded.\<close>

fun reported_states :: "worker_weight_message \<Rightarrow> wire_expert_state list" where
  "reported_states (Full_State p) = fs_experts p"
| "reported_states (State_Updates u) = su_experts u"
| "reported_states _ = []"

definition reported_ready :: "weight_key list \<Rightarrow> worker_weight_message list \<Rightarrow> weight_key list" where
  "reported_ready target_keys msgs =
     sort (remdups (map state_wire_key (filter (\<lambda>st. we_state st = EXPERT_READY \<and> state_wire_key st \<in> set target_keys)
       (concat (map reported_states msgs)))))"

definition completes_shutdown :: "(int, drain_authorization) dict \<Rightarrow> worker_weight_message \<Rightarrow> bool" where
  "completes_shutdown completed message =
     (case message of
        Drain_Complete d \<Rightarrow> (case map_of completed d of None \<Rightarrow> False | Some a \<Rightarrow> da_stop_accepting_all_computation a)
      | _ \<Rightarrow> False)"

definition yield_group :: "'v weight_session \<Rightarrow> 'v weight_session" where
  "yield_group s =
     (case ws_run s of
        None \<Rightarrow> s
      | Some run \<Rightarrow>
          (case sn_outbound run of
             [] \<Rightarrow> s
           | msgs # rest \<Rightarrow>
               let ready = reported_ready (ws_target_keys s) msgs in
               (case (if ready = [] then (Inr (), ws_queue s) else queue_clear_expert_drains ready (ws_queue s)) of
                  (Inl e, q) \<Rightarrow> run_fails e (s\<lparr>ws_queue := q\<rparr>)
                | (Inr _, q) \<Rightarrow>
                    s\<lparr>ws_queue := q,
                      ws_shutdown_completion_sent :=
                        (ws_shutdown_completion_sent s \<or> (\<exists>m\<in>set msgs. completes_shutdown (ws_completed s) m)),
                      ws_run := Some (run\<lparr>sn_outbound := rest, sn_yielded := sn_yielded run @ msgs\<rparr>)\<rparr>)))"

section \<open>Drain tasks\<close>

definition set_drain :: "nat \<Rightarrow> drain_phase \<Rightarrow> 'v weight_session \<Rightarrow> 'v weight_session" where
  "set_drain i phase s = s\<lparr>ws_tasks := (ws_tasks s)[i := (ws_tasks s ! i)\<lparr>dt_phase := phase\<rparr>]\<rparr>"

text \<open>The end of \<open>_run_drain\<close> with its \<open>finally\<close>.\<close>

definition drain_end :: "nat \<Rightarrow> 'v weight_session \<Rightarrow> 'v weight_session" where
  "drain_end i s =
     (let d = da_drain_id (dt_authorization (ws_tasks s ! i));
          s1 = set_drain i Drain_Ended s
      in if map_of (ws_active s1) d = Some i then s1\<lparr>ws_active := AList.delete d (ws_active s1)\<rparr> else s1)"

definition drain_failed :: "nat \<Rightarrow> exn \<Rightarrow> 'v weight_session \<Rightarrow> 'v weight_session" where
  "drain_failed i e s = drain_end i (if ws_drain_error s = None then s\<lparr>ws_drain_error := Some e\<rparr> else s)"

definition drain_superseded :: "nat \<Rightarrow> 'v weight_session \<Rightarrow> 'v weight_session" where
  "drain_superseded i s =
     (case remember_superseded (dt_authorization (ws_tasks s ! i)) s of
        (Some e, s') \<Rightarrow> drain_failed i e s'
      | (None, s') \<Rightarrow> drain_end i s')"

definition removal_of :: "'v weight_manager \<Rightarrow> drain_authorization \<Rightarrow> exn + removal_request" where
  "removal_of m a =
     rbind (validate_placement_generation (da_placement_generation a)) (\<lambda>g.
       rbind (validate_weight_keys m (da_experts a)) (\<lambda>ks.
         Inr \<lparr>rq_placement_generation = g, rq_keys = ks, rq_whole_worker_shutdown = da_stop_accepting_all_computation a\<rparr>))"

definition join_removal :: "drain_authorization \<Rightarrow> 'v weight_manager \<Rightarrow> 'v weight_manager" where
  "join_removal a m = snd (remove_join (da_placement_generation a) (da_experts a) (da_stop_accepting_all_computation a) m)"

definition drain_begin :: "nat \<Rightarrow> int \<Rightarrow> drain_authorization \<Rightarrow> 'v weight_session \<Rightarrow> 'v weight_session" where
  "drain_begin i now a s =
     (if ws_lock s \<noteq> None then s
      else if is_superseded a s then drain_superseded i s
      else
        (case queue_begin_drain (da_experts a) (da_min_topology_version a) (da_stop_accepting_all_computation a) (ws_queue s) of
           (Inl e, q) \<Rightarrow> drain_failed i e (s\<lparr>ws_queue := q\<rparr>)
         | (Inr _, q) \<Rightarrow>
             let s1 = s\<lparr>ws_queue := q\<rparr> in
             if da_stop_accepting_all_computation a
             then (let deadline = (case ws_shutdown_deadline s1 of Some d \<Rightarrow> d | None \<Rightarrow> now + ws_grace s1)
                   in set_drain i (Drain_Waiting (Some deadline)) (s1\<lparr>ws_shutdown_deadline := Some deadline\<rparr>))
             else set_drain i (Drain_Waiting None) s1))"

definition drain_wait :: "nat \<Rightarrow> int \<Rightarrow> drain_authorization \<Rightarrow> int option \<Rightarrow> 'v weight_session \<Rightarrow> 'v weight_session" where
  "drain_wait i now a deadline s =
     (case (if da_stop_accepting_all_computation a then wait_all_idle deadline now (ws_queue s)
            else wait_experts_idle (da_experts a) None now (ws_queue s)) of
        Inl e \<Rightarrow> drain_failed i e s
      | Inr idle \<Rightarrow> if idle then set_drain i Drain_Idle s else s)"

definition drain_remove :: "nat \<Rightarrow> drain_authorization \<Rightarrow> 'v weight_session \<Rightarrow> 'v weight_session" where
  "drain_remove i a s =
     (if ws_lock s \<noteq> None then s
      else if is_superseded a s then drain_superseded i s
      else
        (case removal_of (ws_manager s) a of
           Inl e \<Rightarrow> drain_failed i e s
         | Inr request \<Rightarrow>
             set_drain i (Drain_Removing request)
               (s\<lparr>ws_manager := join_removal a (ws_manager s), ws_lock := Some (Drain_Holds i)\<rparr>)))"

definition drain_removed :: "nat \<Rightarrow> drain_authorization \<Rightarrow> removal_request \<Rightarrow> 'v weight_session \<Rightarrow> 'v weight_session" where
  "drain_removed i a request s =
     (case wm_removal (ws_manager s) of
        Some (active, Removal_Done r) \<Rightarrow>
          let s1 = s\<lparr>ws_manager := remove_leave (ws_manager s)\<rparr> in
          if active \<noteq> request \<and> (\<exists>b. r = Inr b) then s1\<lparr>ws_manager := join_removal a (ws_manager s1)\<rparr>
          else
            (let s2 = release_lock (Drain_Holds i) s1 in
             case r of
               Inl e \<Rightarrow> drain_failed i e s2
             | Inr True \<Rightarrow> set_drain i Drain_Flushing s2
             | Inr False \<Rightarrow>
                 if is_superseded a s2 then drain_superseded i s2
                 else drain_failed i (RuntimeError ''Controller drain uses an obsolete placement generation'') s2)
      | _ \<Rightarrow> s)"

definition drain_finish :: "nat \<Rightarrow> drain_authorization \<Rightarrow> int \<Rightarrow> 'v weight_session \<Rightarrow> 'v weight_session" where
  "drain_finish i a sequence s =
     (if ws_last_enqueued s < sequence then s
      else
        (let s1 = remember_completed a s;
             s2 = (if da_stop_accepting_all_computation a then s1\<lparr>ws_shutdown_drained := True\<rparr> else s1)
         in drain_end i s2))"

text \<open>
  A delivered \<open>CancelledError\<close> ends the task: before its first step the body does not run at all, later its
  \<open>finally\<close> runs, the lock is released and a removal that is already done is taken off the Manager.
\<close>

definition drain_cancelled :: "nat \<Rightarrow> 'v weight_session \<Rightarrow> 'v weight_session" where
  "drain_cancelled i s =
     (case dt_phase (ws_tasks s ! i) of
        Drain_Created \<Rightarrow> set_drain i Drain_Ended s
      | Drain_Removing request \<Rightarrow>
          drain_end i (release_lock (Drain_Holds i) (s\<lparr>ws_manager := remove_leave (ws_manager s)\<rparr>))
      | _ \<Rightarrow> drain_end i s)"

definition drain_step :: "nat \<Rightarrow> int \<Rightarrow> 'v weight_session \<Rightarrow> 'v weight_session" where
  "drain_step i now s =
     (if i \<ge> length (ws_tasks s) then s
      else
        let t = ws_tasks s ! i; a = dt_authorization t in
        if dt_phase t = Drain_Ended then s
        else if dt_cancel t then drain_cancelled i s
        else
          (case dt_phase t of
             Drain_Created \<Rightarrow> set_drain i Drain_Locking s
           | Drain_Locking \<Rightarrow> drain_begin i now a s
           | Drain_Waiting deadline \<Rightarrow> drain_wait i now a deadline s
           | Drain_Idle \<Rightarrow> drain_remove i a s
           | Drain_Removing request \<Rightarrow> drain_removed i a request s
           | Drain_Flushing \<Rightarrow>
               (case flush_pass (ws_reporter s) of
                  (None, r) \<Rightarrow> s\<lparr>ws_reporter := r\<rparr>
                | (Some sequence, r) \<Rightarrow> set_drain i (Drain_Awaiting sequence) (s\<lparr>ws_reporter := r\<rparr>))
           | Drain_Awaiting sequence \<Rightarrow> drain_finish i a sequence s
           | Drain_Ended \<Rightarrow> s))"

end
