(* ===== verification/Drain_Safety.thy ===== *)
theory Drain_Safety
  imports Weight_Stream
begin

text \<open>
  The weight-control session as a transition system together with the Manager, the reporter and the
  receiver's queue, and its main safety property: the Manager withdraws drained experts only while the
  receiver neither holds nor admits a batch that uses them.
\<close>

declare split_paired_All [simp del] split_paired_Ex [simp del]

section \<open>Steps\<close>

text \<open>The generated encoders and decoders of the two multipart messages.\<close>

record control_wire =
  cw_serialize_targets :: "target_part \<Rightarrow> wire"
  cw_parse_targets :: "wire \<Rightarrow> target_part"
  cw_serialize_drain :: "drain_part \<Rightarrow> wire"
  cw_parse_drain :: "wire \<Rightarrow> drain_part"

datatype 'v ws_op =
    W_Receiver queue_op
  | W_Manager int "'v wm_op"
  | W_Run_Start
  | W_Run_End
  | W_Drain_Failure
  | W_Shutdown int
  | W_Close
  | W_Targets target_part
  | W_Ack int
  | W_Drain_Part drain_part
  | W_Unknown
  | W_Apply_Begin
  | W_Apply_Manager int
  | W_Apply_Snapshot
  | W_Apply_Clear
  | W_Apply_Report
  | W_Put_Snapshot
  | W_Pump_Updates int int
  | W_Pump_Completions
  | W_Yield
  | W_Drain nat int

text \<open>Drain gates, placements and removals are operated by the session only.\<close>

definition receiver_own :: "queue_op \<Rightarrow> bool" where
  "receiver_own op = (case op of Begin_Drain _ _ _ \<Rightarrow> False | Clear_Drains _ \<Rightarrow> False | _ \<Rightarrow> True)"

definition manager_own :: "'v wm_op \<Rightarrow> bool" where
  "manager_own op = (case op of Op_Apply _ _ \<Rightarrow> False | Op_Shutdown \<Rightarrow> False | Op_Remove_Join _ _ _ \<Rightarrow> False
     | Op_Remove_Leave \<Rightarrow> False | _ \<Rightarrow> True)"

fun ws_apply :: "control_wire \<Rightarrow> 'v ws_op \<Rightarrow> 'v weight_session \<Rightarrow> 'v weight_session" where
  "ws_apply cw (W_Receiver op) s = (if receiver_own op then s\<lparr>ws_queue := queue_apply op (ws_queue s)\<rparr> else s)"
| "ws_apply cw (W_Manager now op) s = (if manager_own op then with_manager now (wm_apply op (ws_manager s)) s else s)"
| "ws_apply cw W_Run_Start s = snd (run_once_start s)"
| "ws_apply cw W_Run_End s = run_once_end s"
| "ws_apply cw W_Drain_Failure s = drain_failure_seen s"
| "ws_apply cw (W_Shutdown now) s = session_begin_shutdown now s"
| "ws_apply cw W_Close s = control_close s"
| "ws_apply cw (W_Targets part) s = receive_targets (cw_serialize_targets cw) (cw_parse_targets cw) part s"
| "ws_apply cw (W_Ack sequence) s = receive_ack sequence s"
| "ws_apply cw (W_Drain_Part part) s = receive_drain (cw_serialize_drain cw) (cw_parse_drain cw) part s"
| "ws_apply cw W_Unknown s = receive_unknown s"
| "ws_apply cw W_Apply_Begin s = apply_begin s"
| "ws_apply cw (W_Apply_Manager now) s = apply_manager now s"
| "ws_apply cw W_Apply_Snapshot s = apply_snapshot s"
| "ws_apply cw W_Apply_Clear s = apply_clear s"
| "ws_apply cw W_Apply_Report s = apply_report s"
| "ws_apply cw W_Put_Snapshot s = put_snapshot s"
| "ws_apply cw (W_Pump_Updates now now') s = pump_updates now now' s"
| "ws_apply cw W_Pump_Completions s = pump_completions s"
| "ws_apply cw W_Yield s = yield_group s"
| "ws_apply cw (W_Drain i now) s = drain_step i now s"

text \<open>
  The Controller authorizes the drain of single experts only after the placement generation that no longer
  assigns them was sent on the same ordered stream.
\<close>

definition drain_in_order :: "control_wire \<Rightarrow> 'v ws_op \<Rightarrow> 'v weight_session \<Rightarrow> bool" where
  "drain_in_order cw op s =
     (case op of
        W_Drain_Part part \<Rightarrow>
          (case fst (drain_add (cw_serialize_drain cw) (cw_parse_drain cw) part (ws_drains s)) of
             Inr (Some a) \<Rightarrow> da_stop_accepting_all_computation a \<or> da_placement_generation a \<le> ws_generation s
           | _ \<Rightarrow> True)
      | _ \<Rightarrow> True)"

inductive control_step :: "control_wire \<Rightarrow> 'v weight_session \<Rightarrow> 'v weight_session \<Rightarrow> bool" for cw where
  "drain_in_order cw op s \<Longrightarrow> control_step cw s (ws_apply cw op s)"

definition session_start :: "'v weight_session \<Rightarrow> bool" where
  "session_start s \<longleftrightarrow>
     (\<exists>w i x g m r q nl el dev cap loads bytes mu md mp mb.
        WeightManager nl el dev cap loads bytes = Inr m \<and> ExpertStateReporter nl el mu md = Inr r \<and>
        ReceiverQueue mp mb = Inr q \<and> WeightControlSession w i x g m r q = Inr s)"

section \<open>Gates and idle experts\<close>

definition idle_key :: "receiver_queue \<Rightarrow> weight_key \<Rightarrow> bool" where
  "idle_key q k \<longleftrightarrow> queue_gated q k \<and> rq_admitted_experts q k = 0"

lemma idle_key_apply:
  assumes "queue_inv q" and "idle_key q k" and "\<not> clears_gate op k"
  shows "idle_key (queue_apply op q) k"
  using assms gate.gate_kept gate.no_new_use gate.use_nonneg [OF gate.inv_kept [OF assms(1)], of op k]
  unfolding idle_key_def by (metis order_antisym)

lemma stop_all_apply: "rq_stop_all q \<noteq> None \<Longrightarrow> rq_stop_all (queue_apply op q) \<noteq> None"
  by (cases op) (auto simp: queue_admit_def queue_take_def queue_cancel_waiting_def queue_finish_def queue_begin_drain_def
      queue_clear_expert_drains_def queue_begin_close_def Let_def split: option.splits list.splits if_splits)

lemma stopped_idle_apply:
  assumes "queue_inv q" and "rq_stop_all q \<noteq> None" and "rq_admitted_experts q k = 0"
  shows "rq_admitted_experts (queue_apply op q) k = 0"
proof -
  have "queue_gated q k" using assms(2) by (simp add: queue_gated_def)
  then show ?thesis
    using assms(1,3) gate.no_new_use gate.use_nonneg [OF gate.inv_kept [OF assms(1)], of op k] by (metis order_antisym)
qed

lemma begin_drain_gates:
  assumes "queue_begin_drain es v stop q = (Inr (), q')"
  shows "stop \<Longrightarrow> rq_stop_all q' \<noteq> None" and "k \<in> set es \<Longrightarrow> queue_gated q' k"
proof -
  show "stop \<Longrightarrow> rq_stop_all q' \<noteq> None"
    using assms by (auto simp: queue_begin_drain_def split: option.splits)
  have "d k \<noteq> None \<or> k \<in> set es \<Longrightarrow>
      fold (\<lambda>key d. d(key \<mapsto> max (case d key of None \<Rightarrow> 0 | Some x \<Rightarrow> x) v)) es d k \<noteq> None" for d
  proof (induction es arbitrary: d)
    case (Cons x es)
    then show ?case unfolding fold_Cons comp_def by (intro Cons.IH) (auto split: option.splits)
  qed simp
  then show "k \<in> set es \<Longrightarrow> queue_gated q' k"
    using assms by (auto simp: queue_begin_drain_def queue_gated_def split: option.splits)
qed

lemma all_idle_unused:
  assumes "queue_inv q" and "wait_all_idle deadline now q = Inr True"
  shows "rq_admitted_experts q k = 0"
proof -
  have none: "rq_waiting q = []" "rq_active_count q = 0"
    using assms(2) by (auto simp: wait_all_idle_def queue_wait_def split: if_splits option.splits)
  have "rq_waiting q = waiting_of (live q)" "rq_active_count q = int (length (active_of (live q)))"
    using assms(1) unfolding queue_inv_def by blast+
  then have "waiting_of (live q) = []" "active_of (live q) = []"
    using none by (metis length_0_conv of_nat_eq_0_iff)+
  then have "e \<notin> set (live q)" for e
    unfolding filter_empty_conv by (cases "qe_state e") blast+
  then have "live q = []" by (metis list.set_intros(1) neq_Nil_conv)
  then show ?thesis using assms(1) by (simp add: queue_inv_def)
qed

section \<open>The Manager's placement\<close>

definition same_placement :: "'v weight_manager \<Rightarrow> 'v weight_manager \<Rightarrow> bool" where
  "same_placement m m' \<longleftrightarrow> wm_placement_generation m' = wm_placement_generation m \<and> wm_targets m' = wm_targets m"

lemma set_phase_frame [simp]:
  "wm_placement_generation (set_phase i p m) = wm_placement_generation m" "wm_targets (set_phase i p m) = wm_targets m"
  "wm_removal (set_phase i p m) = wm_removal m"
  by (simp_all add: set_phase_def)

lemma set_state_frame [simp]:
  "wm_placement_generation (snd (set_state_locked k st m)) = wm_placement_generation m"
  "wm_targets (snd (set_state_locked k st m)) = wm_targets m" "wm_removal (snd (set_state_locked k st m)) = wm_removal m"
  by (simp_all add: set_state_locked_def)

lemma load_helpers_frame [simp]:
  "wm_placement_generation (finish_failure k f m) = wm_placement_generation m" "wm_targets (finish_failure k f m) = wm_targets m"
  "wm_removal (finish_failure k f m) = wm_removal m"
  "wm_placement_generation (load_ended i k c m) = wm_placement_generation m" "wm_targets (load_ended i k c m) = wm_targets m"
  "wm_removal (load_ended i k c m) = wm_removal m"
  "wm_placement_generation (set_fatal k r d m) = wm_placement_generation m" "wm_targets (set_fatal k r d m) = wm_targets m"
  "wm_removal (set_fatal k r d m) = wm_removal m"
  by (simp_all add: finish_failure_def load_ended_def set_fatal_def start_load_locked_def emit_def case_prod_beta Let_def)

lemma load_resume_frame:
  "same_placement m (load_resume i e m)" "wm_removal (load_resume i e m) = wm_removal m"
  by (simp_all add: load_resume_def load_step_def same_placement_def Let_def clear_cancel_def release_ready_weight_def
      split: load_phase.splits load_event.splits)

lemma log_progress_frame:
  "log_progress m = Some m' \<Longrightarrow> same_placement m m' \<and> wm_removal m' = wm_removal m"
  by (auto simp: log_progress_def same_placement_def Let_def split: if_splits option.splits)

lemma finish_ready_frame:
  assumes "finish_ready k v m = Some m'"
  shows "same_placement m m' \<and> wm_removal m' = wm_removal m"
proof -
  have step: "same_placement m x \<and> wm_removal x = wm_removal m" if "log_progress y = Some x"
    "wm_placement_generation y = wm_placement_generation m" "wm_targets y = wm_targets m" "wm_removal y = wm_removal m" for x y
    using log_progress_frame [OF that(1)] that(2-4) by (simp add: same_placement_def)
  show ?thesis
    using assms unfolding finish_ready_def
    by (auto simp: Let_def case_prod_beta release_ready_weight_def emit_def emit_device_bytes_def same_placement_def
        split: if_splits option.splits sum.splits dest!: step)
qed

lemma cancel_tasks_frame [simp]:
  "wm_placement_generation (fold cancel_task is m) = wm_placement_generation m" "wm_targets (fold cancel_task is m) = wm_targets m"
  "wm_removal (fold cancel_task is m) = wm_removal m"
  using cancel_tasks_touch [of "is" m] by auto

lemma manager_own_placement:
  assumes "manager_own op"
  shows "same_placement m (wm_apply op m)"
proof (cases op)
  case (Op_Resume i e)
  then show ?thesis by (simp add: load_resume_frame)
next
  case (Op_Inner i)
  then show ?thesis
    using finish_ready_frame by (fastforce simp: inner_finish_def same_placement_def split: load_phase.splits option.splits)
next
  case Op_Remove_End
  have "same_placement m (snd (fold mark_removed ks (c, m)))" for ks c
    using mark_removed_touches [of ks c m] by (auto simp: same_placement_def)
  then show ?thesis
    using Op_Remove_End by (auto simp: remove_end_def emit_def emit_device_bytes_def same_placement_def case_prod_beta
        split: option.splits removal_status.splits list.splits)
qed (use assms in \<open>auto simp: manager_own_def same_placement_def wm_start_def remove_start_def remove_finish_def
    close_begin_def close_gathered_def close_step_def release_ready_weight_def emit_device_bytes_def Let_def
    split: option.splits removal_status.splits list.splits close_phase.splits bool.splits sum.splits prod.splits\<close>)

text \<open>A removal is only created by joining; once it holds the lock its keys left the placement.\<close>

lemma manager_own_removal:
  assumes "manager_own op"
  obtains "wm_removal (wm_apply op m) = wm_removal m"
  | req r where "wm_removal (wm_apply op m) = Some (req, Removal_Done r)"
  | req ws ks ws' ks' where "wm_removal m = Some (req, Removal_Holding ws ks)" and "wm_removal (wm_apply op m) = Some (req, Removal_Holding ws' ks')"
  | req ks where "wm_removal m = Some (req, Removal_Created)" and "wm_removal (wm_apply op m) = Some (req, Removal_Holding [] ks)"
      and "rq_placement_generation req = wm_placement_generation m"
      and "rq_whole_worker_shutdown req \<or> (\<forall>k\<in>set (rq_keys req). map_of (wm_targets m) k = None)"
proof (cases op)
  case (Op_Resume i e)
  then show ?thesis using that(1) by (simp add: load_resume_frame)
next
  case (Op_Inner i)
  then have "wm_removal (wm_apply op m) = wm_removal m"
    using finish_ready_frame by (fastforce simp: inner_finish_def split: load_phase.splits option.splits)
  then show ?thesis using that(1) by blast
next
  case Op_Remove_Start
  have "wm_removal (wm_apply op m) = wm_removal m \<or> (\<exists>req r. wm_removal (wm_apply op m) = Some (req, Removal_Done r)) \<or>
    (\<exists>req ks. wm_removal m = Some (req, Removal_Created) \<and> wm_removal (wm_apply op m) = Some (req, Removal_Holding [] ks) \<and>
       rq_placement_generation req = wm_placement_generation m \<and>
       (rq_whole_worker_shutdown req \<or> (\<forall>k\<in>set (rq_keys req). map_of (wm_targets m) k = None)))"
    using Op_Remove_Start
    by (auto simp: remove_start_def Let_def filter_empty_conv simp del: split_paired_All split: option.splits removal_status.splits prod.splits)
  then show ?thesis using that(1,2,4) by blast
next
  case Op_Remove_Finish
  have "wm_removal (wm_apply op m) = wm_removal m \<or> (\<exists>req r. wm_removal (wm_apply op m) = Some (req, Removal_Done r)) \<or>
    (\<exists>req ws ks ws' ks'. wm_removal m = Some (req, Removal_Holding ws ks) \<and> wm_removal (wm_apply op m) = Some (req, Removal_Holding ws' ks'))"
    using Op_Remove_Finish
    by (auto simp: remove_finish_def split: option.splits removal_status.splits list.splits sum.splits prod.splits)
  then show ?thesis using that(1,2,3) by blast
next
  case Op_Remove_End
  have "wm_removal (wm_apply op m) = wm_removal m \<or> (\<exists>req r. wm_removal (wm_apply op m) = Some (req, Removal_Done r))"
    using Op_Remove_End
    by (auto simp: remove_end_def emit_def emit_device_bytes_def split: option.splits removal_status.splits list.splits prod.splits)
  then show ?thesis using that(1,2) by blast
qed (use assms that(1) in \<open>auto simp: manager_own_def wm_start_def close_begin_def close_gathered_def close_step_def
    release_ready_weight_def emit_device_bytes_def Let_def
    split: close_phase.splits list.splits bool.splits sum.splits prod.splits option.splits\<close>)

lemma validate_targets_keys:
  assumes "validate_targets m ts = Inr resolved"
  shows "fst ` set resolved = tx_key ` set ts" and "dict_ok resolved"
proof -
  have v: "validate_targets_from m [] ts = Inr resolved" using assms by (auto simp: validate_targets_def split: if_splits)
  have "validate_targets_from m d ts = Inr resolved \<Longrightarrow> fst ` set resolved = fst ` set d \<union> tx_key ` set ts" for d
  proof (induction ts arbitrary: d)
    case (Cons t ts)
    then obtain d' where "validate_targets_from m d' ts = Inr resolved" "fst ` set d' = insert (tx_key t) (fst ` set d)"
      by (auto simp: Let_def tx_key_def dom_update split: option.splits if_splits)
    with Cons.IH show ?case by auto
  qed simp
  then show "fst ` set resolved = tx_key ` set ts" using v by simp
  show "dict_ok resolved" using validate_targets_from_Inr [OF v, where P = "\<lambda>_. True"] by simp
qed

lemma apply_targets_placement:
  assumes "apply_targets g ts m = (Inr applied, m')" and "wm_placement_generation m \<le> g" and "dict_ok (wm_targets m)"
  shows "wm_placement_generation m' = g" and "fst ` set (wm_targets m') = tx_key ` set ts" and "dict_ok (wm_targets m')"
    and "wm_removal m' = wm_removal m" and "wm_placement_generation m = g \<Longrightarrow> m' = m"
proof -
  have *: "wm_placement_generation m' = g \<and> fst ` set (wm_targets m') = tx_key ` set ts \<and> dict_ok (wm_targets m') \<and>
    wm_removal m' = wm_removal m \<and> (wm_placement_generation m = g \<longrightarrow> m' = m)"
  proof (cases rule: apply_targets_cases [of g ts m])
    case kept
    then have m': "m' = m" "applied = False" using assms(1) by auto
    obtain resolved where r: "validate_targets m ts = Inr resolved" "dict_eq resolved (wm_targets m)" "g = wm_placement_generation m"
      using assms(1,2) m'(2)
      by (auto simp: apply_targets_def Let_def case_prod_beta split: if_splits sum.splits)
    have "map_of resolved = map_of (wm_targets m)"
      using dict_eq_map_of [OF validate_targets_keys(2) [OF r(1)] assms(3)] r(2) by simp
    then have "fst ` set resolved = fst ` set (wm_targets m)" by (metis dom_map_of_conv_image_fst)
    then show ?thesis using validate_targets_keys(1) [OF r(1)] m' r(3) assms(3) by simp
  next
    case (applied resolved c m2)
    have m': "m' = emit c (reset_progress g resolved (fold keep_target (map fst resolved) m2))"
      using applied(8) assms(1) by simp
    have "wm_placement_generation m' = g \<and> wm_targets m' = resolved \<and> wm_removal m' = wm_removal m"
      unfolding m' by (rule applied_touches [OF applied(7)]) simp
    then show ?thesis using applied(1,4) validate_targets_keys [OF applied(1)] by simp
  qed
  then show "wm_placement_generation m' = g" and "fst ` set (wm_targets m') = tx_key ` set ts" and "dict_ok (wm_targets m')"
    and "wm_removal m' = wm_removal m" and "wm_placement_generation m = g \<Longrightarrow> m' = m" by auto
qed

section \<open>The invariant\<close>

abbreviation stop_all :: "drain_authorization \<Rightarrow> bool" where
  "stop_all a \<equiv> da_stop_accepting_all_computation a"

definition held_closed :: "'v weight_session \<Rightarrow> drain_authorization \<Rightarrow> weight_key \<Rightarrow> bool" where
  "held_closed s a k \<longleftrightarrow>
     (if stop_all a then rq_stop_all (ws_queue s) \<noteq> None else k \<in> set (ws_target_keys s) \<or> queue_gated (ws_queue s) k)"

definition held_idle :: "'v weight_session \<Rightarrow> drain_authorization \<Rightarrow> weight_key \<Rightarrow> bool" where
  "held_idle s a k \<longleftrightarrow>
     (if stop_all a then rq_stop_all (ws_queue s) \<noteq> None \<and> rq_admitted_experts (ws_queue s) k = 0
      else k \<in> set (ws_target_keys s) \<or> idle_key (ws_queue s) k)"

definition task_ok :: "'v weight_session \<Rightarrow> drain_task \<Rightarrow> bool" where
  "task_ok s t \<longleftrightarrow>
     (let a = dt_authorization t in
      (stop_all a \<or> da_placement_generation a \<le> ws_generation s) \<and>
      (\<not> is_superseded a s \<longrightarrow>
         (case dt_phase t of
            Drain_Waiting _ \<Rightarrow> \<forall>k\<in>set (da_experts a). held_closed s a k
          | Drain_Idle \<Rightarrow> \<forall>k\<in>set (da_experts a). held_idle s a k
          | Drain_Removing _ \<Rightarrow> \<forall>k\<in>set (da_experts a). held_idle s a k
          | _ \<Rightarrow> True)))"

definition removal_key_ok :: "'v weight_session \<Rightarrow> removal_request \<Rightarrow> weight_key \<Rightarrow> bool" where
  "removal_key_ok s req k \<longleftrightarrow>
     (if rq_whole_worker_shutdown req then rq_stop_all (ws_queue s) \<noteq> None \<and> rq_admitted_experts (ws_queue s) k = 0
      else rq_placement_generation req \<le> ws_generation s \<and>
        (rq_placement_generation req < ws_generation s \<or> k \<in> set (ws_target_keys s) \<or> idle_key (ws_queue s) k))"

definition removal_guarded :: "'v weight_session \<Rightarrow> bool" where
  "removal_guarded s \<longleftrightarrow>
     (case wm_removal (ws_manager s) of
        Some (req, Removal_Created) \<Rightarrow> \<forall>k\<in>set (rq_keys req). removal_key_ok s req k
      | Some (req, Removal_Holding _ _) \<Rightarrow>
          \<forall>k\<in>set (rq_keys req). idle_key (ws_queue s) k \<and>
            (if rq_whole_worker_shutdown req then rq_stop_all (ws_queue s) \<noteq> None else k \<notin> set (ws_target_keys s))
      | _ \<Rightarrow> True)"

definition placement_inv :: "'v weight_session \<Rightarrow> bool" where
  "placement_inv s \<longleftrightarrow> wm_placement_generation (ws_manager s) = ws_generation s \<and>
     fst ` set (wm_targets (ws_manager s)) = set (ws_target_keys s) \<and> dict_ok (wm_targets (ws_manager s)) \<and>
     ws_generation s \<le> ta_generation (ws_targets s)"

definition response_ok :: "'v weight_session \<Rightarrow> bool" where
  "response_ok s \<longleftrightarrow>
     (case ws_response s of
        Want_Transition p \<Rightarrow> ws_generation s \<le> pt_placement_generation p \<and> pt_placement_generation p \<le> ta_generation (ws_targets s)
      | In_Apply p \<Rightarrow> ws_generation s \<le> pt_placement_generation p \<and> pt_placement_generation p \<le> ta_generation (ws_targets s)
      | In_Clear _ _ _ ks \<Rightarrow> set ks \<subseteq> set (ws_target_keys s)
      | _ \<Rightarrow> True)"

definition ws_inv :: "'v weight_session \<Rightarrow> bool" where
  "ws_inv s \<longleftrightarrow> queue_inv (ws_queue s) \<and> placement_inv s \<and> response_ok s \<and> (\<forall>t\<in>set (ws_tasks s). task_ok s t) \<and> removal_guarded s"

lemma ws_invD:
  assumes "ws_inv s"
  shows "queue_inv (ws_queue s)" and "placement_inv s" and "response_ok s" and "t \<in> set (ws_tasks s) \<Longrightarrow> task_ok s t" and "removal_guarded s"
  using assms by (simp_all add: ws_inv_def)

text \<open>The invariant reads only these fields.\<close>

definition same_core :: "'v weight_session \<Rightarrow> 'v weight_session \<Rightarrow> bool" where
  "same_core s s' \<longleftrightarrow> ws_queue s' = ws_queue s \<and> ws_manager s' = ws_manager s \<and> ws_generation s' = ws_generation s \<and>
     ws_target_keys s' = ws_target_keys s \<and> ws_targets s' = ws_targets s"

lemma predicates_cong:
  assumes "ws_queue s' = ws_queue s" and "ws_generation s' = ws_generation s" and "ws_target_keys s' = ws_target_keys s"
  shows "task_ok s' = task_ok s" and "removal_key_ok s' = removal_key_ok s" and "held_idle s' = held_idle s"
    and "held_closed s' = held_closed s" and "is_superseded a s' = is_superseded a s"
proof -
  show *: "held_idle s' = held_idle s" "held_closed s' = held_closed s" "is_superseded a s' = is_superseded a s"
    "removal_key_ok s' = removal_key_ok s" for a
    using assms by (auto simp: held_idle_def held_closed_def is_superseded_def removal_key_ok_def fun_eq_iff)
  show "task_ok s' = task_ok s"
    by (intro ext) (simp only: task_ok_def * assms(2))
qed

lemma removal_guarded_cong:
  assumes "ws_queue s' = ws_queue s" and "ws_generation s' = ws_generation s" and "ws_target_keys s' = ws_target_keys s"
    and "wm_removal (ws_manager s') = wm_removal (ws_manager s)"
  shows "removal_guarded s' = removal_guarded s"
  unfolding removal_guarded_def predicates_cong(2) [OF assms(1-3)] assms by (rule refl)

lemma response_ok_frame:
  assumes "same_core s s'" and "response_ok s" and "ws_response s' = ws_response s \<or> ws_response s' = Reading"
  shows "response_ok s'"
  using assms by (auto simp: response_ok_def same_core_def split: response_phase.splits)

lemma ws_inv_tasks:
  assumes "ws_inv s" and core: "same_core s s'" and "response_ok s'" and "\<And>t. t \<in> set (ws_tasks s') \<Longrightarrow> task_ok s t"
  shows "ws_inv s'"
proof -
  have "task_ok s' = task_ok s" by (rule predicates_cong) (use core in \<open>simp_all add: same_core_def\<close>)
  moreover have "placement_inv s'" using assms(1) core by (simp add: ws_inv_def placement_inv_def same_core_def)
  ultimately show ?thesis
    using assms removal_guarded_cong [of s' s] by (simp add: ws_inv_def same_core_def)
qed

lemma ws_inv_frame:
  assumes "ws_inv s" and "same_core s s'" and "ws_response s' = ws_response s \<or> ws_response s' = Reading" and "ws_tasks s' = ws_tasks s"
  shows "ws_inv s'"
  using response_ok_frame [OF assms(2) ws_invD(3) [OF assms(1)] assms(3)] assms ws_invD(4)
  by (intro ws_inv_tasks [OF assms(1,2)]) simp_all

lemma ws_inv_response:
  assumes "ws_inv s" and "response_ok (s\<lparr>ws_response := r\<rparr>)"
  shows "ws_inv (s\<lparr>ws_response := r\<rparr>)"
  using assms ws_invD(4) by (intro ws_inv_tasks [OF assms(1)]) (simp_all add: same_core_def)

text \<open>A step of the receiver's queue that clears at most gates of assigned experts.\<close>

lemma ws_inv_queue:
  assumes "ws_inv s" and clears: "\<And>k. clears_gate op k \<Longrightarrow> k \<in> set (ws_target_keys s)"
  shows "ws_inv (s\<lparr>ws_queue := queue_apply op (ws_queue s)\<rparr>)"
proof -
  let ?s = "s\<lparr>ws_queue := queue_apply op (ws_queue s)\<rparr>"
  note inv = ws_invD [OF assms(1)]
  have uncleared: "\<not> clears_gate op k" if "k \<notin> set (ws_target_keys s)" for k using clears that by blast
  have gated: "queue_gated (ws_queue ?s) k" if "queue_gated (ws_queue s) k" "k \<notin> set (ws_target_keys s)" for k
    using gate.gate_kept [OF inv(1) that(1) uncleared [OF that(2)]] by simp
  have idle: "idle_key (ws_queue ?s) k" if "idle_key (ws_queue s) k" "k \<notin> set (ws_target_keys s)" for k
    using idle_key_apply [OF inv(1) that(1) uncleared [OF that(2)]] by simp
  have stopped: "rq_stop_all (ws_queue ?s) \<noteq> None" if "rq_stop_all (ws_queue s) \<noteq> None"
    using stop_all_apply [OF that] by simp
  have unused: "rq_admitted_experts (ws_queue ?s) k = 0"
    if "rq_stop_all (ws_queue s) \<noteq> None" "rq_admitted_experts (ws_queue s) k = 0" for k
    using stopped_idle_apply [OF inv(1) that] by simp
  have stopped_key: "idle_key (ws_queue ?s) k" if "rq_stop_all (ws_queue s) \<noteq> None" "idle_key (ws_queue s) k" for k
    using stopped that unused by (simp add: idle_key_def queue_gated_def)
  have ws_keys: "ws_target_keys ?s = ws_target_keys s" "ws_generation ?s = ws_generation s" by simp_all
  have closed: "held_closed ?s a k" if "held_closed s a k" for a k
    using that gated stopped unfolding held_closed_def ws_keys by metis
  have held: "held_idle ?s a k" if "held_idle s a k" for a k
    using that idle stopped unused unfolding held_idle_def ws_keys by metis
  have removal: "removal_key_ok ?s req k" if "removal_key_ok s req k" for req k
    using that idle stopped unused unfolding removal_key_ok_def ws_keys by metis
  have sup: "is_superseded a ?s = is_superseded a s" for a by (simp add: is_superseded_def)
  have "task_ok ?s t" if "task_ok s t" for t
    using that closed held sup unfolding task_ok_def Let_def by (auto split: drain_phase.splits)
  moreover have "removal_guarded ?s"
  proof (cases "\<exists>req ws ks. wm_removal (ws_manager s) = Some (req, Removal_Holding ws ks)")
    case True
    then obtain req ws ks where r: "wm_removal (ws_manager s) = Some (req, Removal_Holding ws ks)" by blast
    have "idle_key (ws_queue ?s) k \<and> (if rq_whole_worker_shutdown req then rq_stop_all (ws_queue ?s) \<noteq> None else k \<notin> set (ws_target_keys s))"
      if "k \<in> set (rq_keys req)" for k
    proof (cases "rq_whole_worker_shutdown req")
      case True
      then show ?thesis using inv(5) r that stopped stopped_key by (auto simp: removal_guarded_def)
    next
      case False
      then show ?thesis using inv(5) r that idle by (auto simp: removal_guarded_def)
    qed
    then have "\<forall>k\<in>set (rq_keys req). idle_key (ws_queue ?s) k \<and>
        (if rq_whole_worker_shutdown req then rq_stop_all (ws_queue ?s) \<noteq> None else k \<notin> set (ws_target_keys ?s))"
      using ws_keys(1) by metis
    moreover have "wm_removal (ws_manager ?s) = Some (req, Removal_Holding ws ks)" using r by simp
    ultimately show ?thesis unfolding removal_guarded_def by (simp only: option.case prod.case removal_status.case)
  next
    case False
    then show ?thesis using inv(5) removal by (auto simp: removal_guarded_def split: option.splits removal_status.splits)
  qed
  moreover have "response_ok ?s" using inv(3) by (simp add: response_ok_def split: response_phase.splits)
  ultimately show ?thesis
    using inv gate.inv_kept [OF inv(1), of op] by (simp add: ws_inv_def placement_inv_def)
qed

section \<open>Every step keeps the invariant\<close>

lemma with_manager_fields [simp]:
  "ws_queue (with_manager now m s) = ws_queue s" "ws_manager (with_manager now m s) = m"
  "ws_generation (with_manager now m s) = ws_generation s" "ws_target_keys (with_manager now m s) = ws_target_keys s"
  "ws_targets (with_manager now m s) = ws_targets s" "ws_tasks (with_manager now m s) = ws_tasks s"
  "ws_response (with_manager now m s) = ws_response s" "ws_lock (with_manager now m s) = ws_lock s"
  by (simp_all add: with_manager_def)

lemma release_lock_fields [simp]:
  "ws_queue (release_lock h s) = ws_queue s" "ws_manager (release_lock h s) = ws_manager s"
  "ws_generation (release_lock h s) = ws_generation s" "ws_target_keys (release_lock h s) = ws_target_keys s"
  "ws_targets (release_lock h s) = ws_targets s" "ws_tasks (release_lock h s) = ws_tasks s"
  "ws_response (release_lock h s) = ws_response s"
  by (simp_all add: release_lock_def)

lemma run_once_end_fields [simp]:
  "ws_queue (run_once_end s) = ws_queue s" "ws_manager (run_once_end s) = ws_manager s"
  "ws_generation (run_once_end s) = ws_generation s" "ws_target_keys (run_once_end s) = ws_target_keys s"
  "ws_targets (run_once_end s) = ws_targets s" "ws_tasks (run_once_end s) = ws_tasks s"
  "ws_response (run_once_end s) = Reading"
  by (simp_all add: run_once_end_def)

lemma run_fails_fields [simp]:
  "ws_queue (run_fails e s) = ws_queue s" "ws_manager (run_fails e s) = ws_manager s"
  "ws_generation (run_fails e s) = ws_generation s" "ws_target_keys (run_fails e s) = ws_target_keys s"
  "ws_targets (run_fails e s) = ws_targets s" "ws_tasks (run_fails e s) = ws_tasks s"
  "ws_response (run_fails e s) = Reading"
  by (simp_all add: run_fails_def Let_def)

lemma ws_inv_run_fails: "ws_inv s \<Longrightarrow> ws_inv (run_fails e s)"
  by (rule ws_inv_frame [of s]) (simp_all add: same_core_def)

lemma ws_inv_run_end: "ws_inv s \<Longrightarrow> ws_inv (run_once_end s)"
  by (rule ws_inv_frame) (simp_all add: same_core_def)

text \<open>Changes of the Manager that keep the placement.\<close>

lemma ws_inv_manager:
  assumes "ws_inv s" and same: "same_placement (ws_manager s) m" and core: "ws_queue s' = ws_queue s" "ws_manager s' = m"
    "ws_generation s' = ws_generation s" "ws_target_keys s' = ws_target_keys s" "ws_targets s' = ws_targets s"
    "ws_tasks s' = ws_tasks s" "ws_response s' = ws_response s"
    and removal: "removal_guarded s'"
  shows "ws_inv s'"
proof -
  have "task_ok s' = task_ok s" by (rule predicates_cong) (simp_all add: core)
  moreover have "response_ok s'" using ws_invD(3) [OF assms(1)] by (simp add: response_ok_def core split: response_phase.splits)
  ultimately show ?thesis
    using assms(1) removal same by (simp add: ws_inv_def placement_inv_def same_placement_def core)
qed

lemma ws_inv_manager_own:
  assumes "ws_inv s" and "manager_own op"
  shows "ws_inv (with_manager now (wm_apply op (ws_manager s)) s)"
proof -
  let ?m = "wm_apply op (ws_manager s)" and ?s = "with_manager now (wm_apply op (ws_manager s)) s"
  note inv = ws_invD [OF assms(1)]
  have key_ok: "removal_key_ok ?s = removal_key_ok s" by (rule predicates_cong) simp_all
  have "removal_guarded ?s"
  proof (cases rule: manager_own_removal [OF assms(2), of "ws_manager s"])
    case 1
    then show ?thesis using inv(5) removal_guarded_cong [of ?s s] by simp
  next
    case (2 req r)
    then show ?thesis by (simp add: removal_guarded_def)
  next
    case (3 req ws ks ws' ks')
    then show ?thesis using inv(5) by (simp add: removal_guarded_def)
  next
    case (4 req ks)
    have place: "wm_placement_generation (ws_manager s) = ws_generation s" "fst ` set (wm_targets (ws_manager s)) = set (ws_target_keys s)"
      using inv(2) by (simp_all add: placement_inv_def)
    have out: "k \<notin> set (ws_target_keys s)" if "k \<in> set (rq_keys req)" "\<not> rq_whole_worker_shutdown req" for k
      using that 4(4) place(2) by (auto simp: map_of_eq_None_iff)
    have "idle_key (ws_queue s) k \<and> (if rq_whole_worker_shutdown req then rq_stop_all (ws_queue s) \<noteq> None else k \<notin> set (ws_target_keys s))"
      if "k \<in> set (rq_keys req)" for k
    proof -
      have "removal_key_ok s req k" using inv(5) 4(1) that by (simp add: removal_guarded_def)
      then show ?thesis using 4(3) out [OF that] place(1)
        by (cases "rq_whole_worker_shutdown req") (simp_all add: removal_key_ok_def idle_key_def queue_gated_def)
    qed
    then have "\<forall>k\<in>set (rq_keys req). idle_key (ws_queue ?s) k \<and>
        (if rq_whole_worker_shutdown req then rq_stop_all (ws_queue ?s) \<noteq> None else k \<notin> set (ws_target_keys ?s))"
      unfolding with_manager_fields by metis
    moreover have "wm_removal (ws_manager ?s) = Some (req, Removal_Holding [] ks)" using 4(2) by simp
    ultimately show ?thesis unfolding removal_guarded_def by (simp only: option.case prod.case removal_status.case)
  qed
  then show ?thesis
    by (intro ws_inv_manager [OF assms(1) manager_own_placement [OF assms(2)]]) simp_all
qed

lemma ws_inv_run_start: "ws_inv s \<Longrightarrow> ws_inv (snd (run_once_start s))"
  by (rule ws_inv_frame [of s]) (simp_all add: same_core_def run_once_start_def)

lemma ws_inv_shutdown:
  assumes "ws_inv s"
  shows "ws_inv (session_begin_shutdown now s)"
proof -
  let ?s1 = "if ws_shutdown_deadline s = None then s\<lparr>ws_shutdown_deadline := Some (now + ws_grace s)\<rparr> else s"
  have s1: "ws_inv ?s1" by (rule ws_inv_frame [OF assms]) (simp_all add: same_core_def)
  have frame: "same_placement (ws_manager ?s1) (snd (begin_shutdown (ws_manager ?s1)))"
    "wm_removal (snd (begin_shutdown (ws_manager ?s1))) = wm_removal (ws_manager ?s1)"
    by (simp_all add: begin_shutdown_def same_placement_def)
  have "removal_guarded (with_manager now (snd (begin_shutdown (ws_manager ?s1))) ?s1) = removal_guarded ?s1"
    by (rule removal_guarded_cong) (simp_all add: frame(2))
  then have "removal_guarded (with_manager now (snd (begin_shutdown (ws_manager ?s1))) ?s1)" using ws_invD(5) [OF s1] by blast
  then have "ws_inv (with_manager now (snd (begin_shutdown (ws_manager ?s1))) ?s1)"
    by (intro ws_inv_manager [OF s1 frame(1)]) simp_all
  then show ?thesis using s1 unfolding session_begin_shutdown_def Let_def by (simp only: split: if_split) blast
qed

lemma cancel_drain_fields [simp]:
  "ws_queue (cancel_drain i s) = ws_queue s" "ws_manager (cancel_drain i s) = ws_manager s"
  "ws_generation (cancel_drain i s) = ws_generation s" "ws_target_keys (cancel_drain i s) = ws_target_keys s"
  "ws_targets (cancel_drain i s) = ws_targets s" "ws_response (cancel_drain i s) = ws_response s"
  by (simp_all add: cancel_drain_def)

lemma task_ok_cancel [simp]: "task_ok s (t\<lparr>dt_cancel := c\<rparr>) = task_ok s t"
  by (simp add: task_ok_def)

lemma ws_inv_set_task:
  assumes "ws_inv s" and "task_ok s t"
  shows "ws_inv (s\<lparr>ws_tasks := (ws_tasks s)[i := t]\<rparr>)"
proof (rule ws_inv_tasks [OF assms(1)])
  show "response_ok (s\<lparr>ws_tasks := (ws_tasks s)[i := t]\<rparr>)"
    by (rule response_ok_frame [OF _ ws_invD(3) [OF assms(1)]]) (simp_all add: same_core_def)
  show "task_ok s x" if "x \<in> set (ws_tasks (s\<lparr>ws_tasks := (ws_tasks s)[i := t]\<rparr>))" for x
    using that set_update_subset_insert [of "ws_tasks s" i t] assms(2) ws_invD(4) [OF assms(1)] by auto
qed (simp add: same_core_def)

lemma ws_inv_cancel: "ws_inv s \<Longrightarrow> ws_inv (cancel_drain i s)"
  unfolding cancel_drain_def by (simp add: ws_inv_set_task ws_invD(4))

lemma ws_inv_close: "ws_inv s \<Longrightarrow> ws_inv (control_close s)"
proof -
  have fold_ok: "ws_inv (fold cancel_drain is' x)" if "ws_inv x" for is' and x :: "'a weight_session"
    using that by (induction is' arbitrary: x) (simp_all add: ws_inv_cancel)
  assume "ws_inv s"
  then have "ws_inv (s\<lparr>ws_closed := True\<rparr>)" by (rule ws_inv_frame) (simp_all add: same_core_def)
  then show ?thesis using \<open>ws_inv s\<close> fold_ok unfolding control_close_def by simp
qed

text \<open>Messages from the Controller.\<close>

lemma target_add_generation:
  assumes "target_add ser par part a = (res, a')"
  shows "ta_generation a \<le> ta_generation a'"
    and "res = Inr (Some p) \<Longrightarrow> pt_placement_generation p = ta_generation a'"
  using assms
  by (auto simp: target_add_def Let_def finish_targets_def split: option.splits if_splits sum.splits)

lemma ws_inv_assembler:
  assumes "ws_inv s" and "ta_generation (ws_targets s) \<le> ta_generation a"
  shows "ws_inv (s\<lparr>ws_targets := a\<rparr>)"
proof -
  note inv = ws_invD [OF assms(1)]
  let ?s = "s\<lparr>ws_targets := a\<rparr>"
  have "task_ok ?s = task_ok s" by (rule predicates_cong) simp_all
  moreover have "removal_guarded ?s = removal_guarded s" by (rule removal_guarded_cong) simp_all
  moreover have "response_ok ?s" using inv(3) assms(2) by (auto simp: response_ok_def split: response_phase.splits)
  ultimately show ?thesis using inv assms(2) by (simp add: ws_inv_def placement_inv_def)
qed

lemma ws_inv_receive_targets:
  assumes "ws_inv s"
  shows "ws_inv (receive_targets ser par part s)"
proof (cases "target_add ser par part (ws_targets s)")
  case (Pair res a)
  note gen = target_add_generation [OF Pair]
  have s1: "ws_inv (s\<lparr>ws_targets := a\<rparr>)" by (rule ws_inv_assembler [OF assms gen(1)])
  have "ws_inv (s\<lparr>ws_targets := a, ws_response := Want_Transition p\<rparr>)" if "res = Inr (Some p)" for p
  proof -
    have "response_ok ((s\<lparr>ws_targets := a\<rparr>)\<lparr>ws_response := Want_Transition p\<rparr>)"
      using gen(2) [OF that] ws_invD(2) [OF s1] by (simp add: response_ok_def placement_inv_def)
    then show ?thesis using ws_inv_response [OF s1] by simp
  qed
  then show ?thesis
    using assms s1 ws_inv_run_fails [OF s1]
    by (auto simp: receive_targets_def Pair split: sum.splits option.splits)
qed

lemma ws_inv_receive_ack: "ws_inv s \<Longrightarrow> ws_inv (receive_ack n s)"
proof -
  assume inv: "ws_inv s"
  have "ws_inv (s\<lparr>ws_reporter := r\<rparr>)" for r by (rule ws_inv_frame [OF inv]) (simp_all add: same_core_def)
  then show ?thesis using inv by (auto simp: receive_ack_def intro: ws_inv_run_fails split: sum.splits prod.splits)
qed

lemma ws_inv_receive_unknown: "ws_inv s \<Longrightarrow> ws_inv (receive_unknown s)"
  by (simp add: receive_unknown_def ws_inv_run_fails)

lemma remember_superseded_fields:
  assumes "remember_superseded a s = (e, s')"
  shows "same_core s s'" and "ws_response s' = ws_response s" and "ws_tasks s' = ws_tasks s"
  using assms by (auto simp: remember_superseded_def same_core_def Let_def split: option.splits if_splits)

lemma ws_inv_remember: "ws_inv s \<Longrightarrow> remember_superseded a s = (e, s') \<Longrightarrow> ws_inv s'"
  using remember_superseded_fields ws_inv_frame by metis

lemma ws_inv_start_drain:
  assumes "ws_inv s" and "stop_all a \<or> da_placement_generation a \<le> ws_generation s" and "start_drain a s = (e, s')"
  shows "ws_inv s'"
proof -
  let ?t = "\<lparr>dt_authorization = a, dt_phase = Drain_Created, dt_cancel = False\<rparr>"
  have "task_ok s ?t" using assms(2) by (simp add: task_ok_def)
  then have "ws_inv (s\<lparr>ws_tasks := ws_tasks s @ [?t], ws_active := d\<rparr>)" for d
    using assms(1) ws_invD(4) [OF assms(1)] response_ok_frame [OF _ ws_invD(3) [OF assms(1)]]
    by (intro ws_inv_tasks [OF assms(1)]) (auto simp: same_core_def)
  then show ?thesis
    using assms(1,3) ws_inv_remember [OF assms(1)]
    by (auto simp: start_drain_def split: option.splits if_splits)
qed

lemma ws_inv_receive_drain:
  assumes "ws_inv s" and "drain_in_order cw (W_Drain_Part part) s"
  shows "ws_inv (receive_drain (cw_serialize_drain cw) (cw_parse_drain cw) part s)"
proof (cases "drain_add (cw_serialize_drain cw) (cw_parse_drain cw) part (ws_drains s)")
  case (Pair res z)
  have s1: "ws_inv (s\<lparr>ws_drains := z\<rparr>)" by (rule ws_inv_frame [OF assms(1)]) (simp_all add: same_core_def)
  have started: "ws_inv (snd (start_drain a (s\<lparr>ws_drains := z\<rparr>)))" if "res = Inr (Some a)" for a
    using that assms(2) Pair
    by (intro ws_inv_start_drain [OF s1 _ prod.collapse [symmetric]]) (simp add: drain_in_order_def)
  show ?thesis
  proof (cases "\<exists>a. res = Inr (Some a)")
    case True
    then obtain a where a: "res = Inr (Some a)" by blast
    show ?thesis using assms(1) started [OF a] ws_inv_run_fails [OF started [OF a]]
      by (auto simp: receive_drain_def Pair a split: prod.splits option.splits)
  next
    case False
    then show ?thesis using assms(1) s1 ws_inv_run_fails [OF s1]
      by (auto simp: receive_drain_def Pair split: sum.splits option.splits)
  qed
qed

text \<open>Applying a placement.\<close>

lemma supersede_older_inv:
  assumes "ws_inv s" and "supersede_older g is' s = (e, s')"
  shows "ws_inv s'" and "same_core s s'" and "ws_response s' = ws_response s"
proof -
  have "ws_inv s' \<and> same_core s s' \<and> ws_response s' = ws_response s"
    using assms
  proof (induction g is' s rule: supersede_older.induct)
    case (1 g s)
    then show ?case by (simp add: same_core_def)
  next
    case (2 g i is' s)
    let ?a = "dt_authorization (ws_tasks s ! i)"
    show ?case
    proof (cases "\<not> stop_all ?a \<and> da_placement_generation ?a < g")
      case False
      then have "supersede_older g is' s = (e, s')" using 2(4) unfolding supersede_older.simps Let_def by (simp only: if_False)
      then show ?thesis by (rule 2(2) [OF refl False 2(3)])
    next
      case True
      obtain e1 s1 where r: "remember_superseded ?a s = (e1, s1)" by (rule prod.exhaust)
      note f = remember_superseded_fields [OF r]
      have inv1: "ws_inv s1" by (rule ws_inv_remember [OF 2(3) r])
      show ?thesis
      proof (cases e1)
        case (Some x)
        then show ?thesis using 2(4) True r f inv1 by (simp add: Let_def)
      next
        case None
        have "ws_inv s' \<and> same_core (cancel_drain i s1) s' \<and> ws_response s' = ws_response (cancel_drain i s1)"
          using 2(1) [OF refl True r [symmetric] None ws_inv_cancel [OF inv1]] 2(4) True r None by (simp add: Let_def)
        then show ?thesis using f by (simp add: same_core_def)
      qed
    qed
  qed
  then show "ws_inv s'" and "same_core s s'" and "ws_response s' = ws_response s" by blast+
qed

lemma ws_inv_apply_begin:
  assumes "ws_inv s"
  shows "ws_inv (apply_begin s)"
proof (cases "\<exists>p. ws_response s = Want_Transition p \<and> ws_lock s = None")
  case False
  then show ?thesis using assms by (auto simp: apply_begin_def split: response_phase.splits)
next
  case True
  then obtain p where p: "ws_response s = Want_Transition p" "ws_lock s = None" by blast
  obtain e s' where r: "(if pt_placement_generation p > ws_generation s
      then supersede_older (pt_placement_generation p) (map snd (ws_active s)) s else (None, s)) = (e, s')" by (rule prod.exhaust)
  have s': "ws_inv s'" "same_core s s'" "ws_response s' = ws_response s"
    using r assms supersede_older_inv [OF assms] by (auto simp: same_core_def split: if_splits)
  have "response_ok s'" by (rule ws_invD(3) [OF s'(1)])
  then have "response_ok (s'\<lparr>ws_lock := Some Apply_Holds, ws_response := In_Apply p\<rparr>)"
    using s'(3) p(1) by (simp add: response_ok_def)
  then have "ws_inv (s'\<lparr>ws_lock := Some Apply_Holds, ws_response := In_Apply p\<rparr>)"
    using ws_invD(4) [OF s'(1)] by (intro ws_inv_tasks [OF s'(1)]) (simp_all add: same_core_def)
  then show ?thesis
    using ws_inv_run_fails [OF s'(1)] p r by (auto simp: apply_begin_def split: option.splits)
qed

text \<open>
  The new placement: an older drain becomes superseded, an unchanged generation keeps the assigned experts,
  and a removal that holds the Manager's lock keeps the placement from changing.
\<close>

lemma placed_inv:
  assumes "ws_inv s" and p: "ws_response s = In_Apply p" and free: "lock_free (ws_manager s)"
    and app: "apply_targets (pt_placement_generation p) (pt_experts p) (ws_manager s) = (Inr applied, m)"
    and s': "ws_queue s' = ws_queue s" "ws_manager s' = m" "ws_generation s' = pt_placement_generation p"
      "ws_target_keys s' = fill_targets p" "ws_targets s' = ws_targets s" "ws_tasks s' = ws_tasks s" "response_ok s'"
  shows "ws_inv s'"
proof -
  note inv = ws_invD [OF assms(1)]
  have gen: "wm_placement_generation (ws_manager s) = ws_generation s" "ws_generation s \<le> pt_placement_generation p"
    "pt_placement_generation p \<le> ta_generation (ws_targets s)" and ok: "dict_ok (wm_targets (ws_manager s))"
    and keys: "fst ` set (wm_targets (ws_manager s)) = set (ws_target_keys s)"
    using inv(2,3) p by (simp_all add: placement_inv_def response_ok_def)
  have le: "wm_placement_generation (ws_manager s) \<le> pt_placement_generation p" using gen(1,2) by simp
  note placed = apply_targets_placement [OF app le ok]
  have set_keys: "set (fill_targets p) = fst ` set (wm_targets m)" using placed(2) by (auto simp: fill_targets_def)
  have place: "placement_inv s'"
    using placed(1,3) gen(3) set_keys by (simp add: placement_inv_def s')
  have same: "set (ws_target_keys s') = set (ws_target_keys s)" if "ws_generation s = pt_placement_generation p"
  proof -
    have "m = ws_manager s" using placed(5) that gen(1) by simp
    then show ?thesis using set_keys keys by (simp add: s'(4))
  qed
  have task: "task_ok s' t" if "task_ok s t" for t
  proof (cases "ws_generation s = pt_placement_generation p")
    case True
    have "held_closed s' = held_closed s" "held_idle s' = held_idle s" "is_superseded (dt_authorization t) s' = is_superseded (dt_authorization t) s"
      using same [OF True] True by (auto simp: held_closed_def held_idle_def is_superseded_def fun_eq_iff s')
    then have "task_ok s' t = task_ok s t" using True s'(3) unfolding task_ok_def Let_def by presburger
    then show ?thesis using that by simp
  next
    case False
    then have less: "ws_generation s < ws_generation s'" using gen(2) s'(3) by simp
    let ?a = "dt_authorization t"
    show ?thesis
    proof (cases "stop_all ?a")
      case True
      have "held_closed s' ?a = held_closed s ?a" "held_idle s' ?a = held_idle s ?a"
        using True by (auto simp: held_closed_def held_idle_def fun_eq_iff s')
      then show ?thesis using that True by (simp add: task_ok_def Let_def is_superseded_def split: drain_phase.splits)
    next
      case False
      then have "is_superseded ?a s'" using that less by (auto simp: task_ok_def Let_def is_superseded_def)
      then show ?thesis using that less False by (auto simp: task_ok_def Let_def)
    qed
  qed
  have "removal_guarded s'"
  proof (cases "wm_removal (ws_manager s)")
    case None
    then show ?thesis using placed(4) by (simp add: removal_guarded_def s')
  next
    case (Some rs)
    obtain req st where rs: "rs = (req, st)" by (rule prod.exhaust)
    show ?thesis
    proof (cases st)
      case Removal_Created
      have "removal_key_ok s' req k" if "k \<in> set (rq_keys req)" for k
      proof -
        have old: "removal_key_ok s req k" using inv(5) Some rs Removal_Created that by (simp add: removal_guarded_def)
        show ?thesis
        proof (cases "ws_generation s = pt_placement_generation p")
          case True
          then show ?thesis using old same [OF True]
            by (cases "rq_whole_worker_shutdown req") (simp_all add: removal_key_ok_def s'(1,3))
        next
          case False
          then show ?thesis using old gen(2) by (auto simp: removal_key_ok_def s'(1,3))
        qed
      qed
      then show ?thesis using Some rs Removal_Created placed(4) by (simp add: removal_guarded_def s'(2))
    next
      case (Removal_Holding ws ks)
      then show ?thesis using free Some rs by (simp add: lock_free_def)
    next
      case (Removal_Done r)
      then show ?thesis using Some rs placed(4) by (simp add: removal_guarded_def s'(2))
    qed
  qed
  then show ?thesis using inv place task s' by (simp add: ws_inv_def)
qed

lemma ws_inv_apply_manager:
  assumes "ws_inv s"
  shows "ws_inv (apply_manager now s)"
proof (cases "\<exists>p. ws_response s = In_Apply p \<and> lock_free (ws_manager s)")
  case False
  then show ?thesis using assms by (auto simp: apply_manager_def split: response_phase.splits)
next
  case True
  then obtain p where p: "ws_response s = In_Apply p" and free: "lock_free (ws_manager s)" by blast
  obtain res m where app: "apply_targets (pt_placement_generation p) (pt_experts p) (ws_manager s) = (res, m)" by (rule prod.exhaust)
  show ?thesis
  proof (cases res)
    case (Inl e)
    then have m: "m = ws_manager s"
      using apply_targets_cases [of "pt_placement_generation p" "pt_experts p" "ws_manager s"] app by auto
    have "ws_inv (with_manager now (ws_manager s) s)"
      by (rule ws_inv_frame [OF assms]) (simp_all add: same_core_def)
    then show ?thesis using p free app Inl m ws_inv_run_fails by (simp add: apply_manager_def)
  next
    case (Inr applied)
    have placed: "ws_inv s'" if "ws_queue s' = ws_queue s" "ws_manager s' = m" "ws_generation s' = pt_placement_generation p"
      "ws_target_keys s' = fill_targets p" "ws_targets s' = ws_targets s" "ws_tasks s' = ws_tasks s" "response_ok s'" for s'
      using app unfolding Inr by (rule placed_inv [OF assms p free _ that])
    show ?thesis
      using p free app Inr
      by (auto simp: apply_manager_def Let_def response_ok_def intro!: placed)
  qed
qed

lemma ws_inv_apply_snapshot: "ws_inv s \<Longrightarrow> ws_inv (apply_snapshot s)"
  by (auto simp: apply_snapshot_def response_ok_def intro!: ws_inv_run_fails ws_inv_response split: response_phase.splits prod.splits)

text \<open>Opening the gates of assigned experts.\<close>

lemma ws_inv_clear:
  assumes "ws_inv s" and "set ks \<subseteq> set (ws_target_keys s)"
    and "(if ks = [] then (Inr (), ws_queue s) else queue_clear_expert_drains ks (ws_queue s)) = (res, q)"
  shows "ws_inv (s\<lparr>ws_queue := q\<rparr>)"
proof (cases "ks = []")
  case True
  then show ?thesis using assms(1,3) by auto
next
  case False
  then have q: "q = queue_apply (Clear_Drains ks) (ws_queue s)" using assms(3) by simp
  show ?thesis unfolding q by (rule ws_inv_queue [OF assms(1)]) (use assms(2) in \<open>auto simp: clears_gate_def\<close>)
qed

lemma ws_inv_apply_clear:
  assumes "ws_inv s"
  shows "ws_inv (apply_clear s)"
proof (cases "\<exists>g states b ks. ws_response s = In_Clear g states b ks")
  case False
  then have "apply_clear s = s" by (cases "ws_response s") (auto simp: apply_clear_def)
  then show ?thesis using assms by simp
next
  case True
  then obtain g states b ks where r: "ws_response s = In_Clear g states b ks" by blast
  obtain res q where c: "(if ks = [] then (Inr (), ws_queue s) else queue_clear_expert_drains ks (ws_queue s)) = (res, q)"
    by (rule prod.exhaust)
  have sub: "set ks \<subseteq> set (ws_target_keys s)" using ws_invD(3) [OF assms] r by (simp add: response_ok_def)
  have s1: "ws_inv (s\<lparr>ws_queue := q\<rparr>)" by (rule ws_inv_clear [OF assms sub c])
  have "ws_inv ((s\<lparr>ws_queue := q\<rparr>)\<lparr>ws_response := In_Report g states b\<rparr>)"
    by (rule ws_inv_response [OF s1]) (simp add: response_ok_def)
  then have "ws_inv (release_lock Apply_Holds (s\<lparr>ws_queue := q, ws_response := In_Report g states b\<rparr>))"
    by (rule ws_inv_frame) (simp_all add: same_core_def)
  then show ?thesis using ws_inv_run_fails [OF s1]
    unfolding apply_clear_def r response_phase.case c prod.case by (cases res) simp_all
qed

lemma ws_inv_apply_report:
  assumes "ws_inv s"
  shows "ws_inv (apply_report s)"
proof -
  have other: "ws_inv (s\<lparr>ws_reporter := r\<rparr>)" for r by (rule ws_inv_frame [OF assms]) (simp_all add: same_core_def)
  have "ws_inv (s\<lparr>ws_reporter := r, ws_response := In_Put g\<rparr>)" for r g
    using ws_inv_response [OF other [of r], of "In_Put g"] by (simp add: response_ok_def)
  moreover have "ws_inv (s\<lparr>ws_response := Reading\<rparr>)" by (rule ws_inv_response [OF assms]) (simp add: response_ok_def)
  ultimately show ?thesis using assms ws_inv_run_fails [OF other]
    by (auto simp: apply_report_def split: response_phase.splits sum.splits prod.splits)
qed

text \<open>The senders.\<close>

lemma note_enqueued_fields [simp]:
  "ws_queue (note_enqueued g s) = ws_queue s" "ws_manager (note_enqueued g s) = ws_manager s"
  "ws_generation (note_enqueued g s) = ws_generation s" "ws_target_keys (note_enqueued g s) = ws_target_keys s"
  "ws_targets (note_enqueued g s) = ws_targets s" "ws_tasks (note_enqueued g s) = ws_tasks s"
  "ws_response (note_enqueued g s) = ws_response s" "ws_completed (note_enqueued g s) = ws_completed s"
  by (simp_all add: note_enqueued_def Let_def)

lemma ws_inv_put_snapshot: "ws_inv s \<Longrightarrow> ws_inv (put_snapshot s)"
  by (rule ws_inv_frame [of s]) (simp_all add: put_snapshot_def same_core_def split: response_phase.splits option.splits)

lemma pump_updates_fields [simp]:
  "ws_queue (pump_updates now now' s) = ws_queue s" "ws_manager (pump_updates now now' s) = ws_manager s"
  "ws_generation (pump_updates now now' s) = ws_generation s" "ws_target_keys (pump_updates now now' s) = ws_target_keys s"
  "ws_targets (pump_updates now now' s) = ws_targets s" "ws_tasks (pump_updates now now' s) = ws_tasks s"
  "ws_response (pump_updates now now' s) = ws_response s"
  by (cases "take_updates_pass False now now' (ws_reporter s)";
      simp add: pump_updates_def split: option.split take_outcome.split)+

lemma ws_inv_pump_updates: "ws_inv s \<Longrightarrow> ws_inv (pump_updates now now' s)"
  by (rule ws_inv_frame [of s]) (simp_all add: same_core_def)

lemma pump_completions_fields [simp]:
  "ws_queue (pump_completions s) = ws_queue s" "ws_manager (pump_completions s) = ws_manager s"
  "ws_generation (pump_completions s) = ws_generation s" "ws_target_keys (pump_completions s) = ws_target_keys s"
  "ws_targets (pump_completions s) = ws_targets s" "ws_tasks (pump_completions s) = ws_tasks s"
  "ws_response (pump_completions s) = ws_response s"
  by (cases "flush_pass (ws_reporter s)";
      simp add: pump_completions_def Let_def split: option.split completion_phase.split)+

lemma ws_inv_pump_completions: "ws_inv s \<Longrightarrow> ws_inv (pump_completions s)"
  by (rule ws_inv_frame [of s]) (simp_all add: same_core_def)

lemma ws_inv_yield:
  assumes "ws_inv s"
  shows "ws_inv (yield_group s)"
proof (cases "\<exists>run g rest. ws_run s = Some run \<and> sn_outbound run = g # rest")
  case False
  then show ?thesis using assms by (auto simp: yield_group_def split: option.splits list.splits)
next
  case True
  then obtain run g rest where run: "ws_run s = Some run" "sn_outbound run = g # rest" by blast
  let ?ks = "reported_ready (ws_target_keys s) g"
  obtain res q where c: "(if ?ks = [] then (Inr (), ws_queue s) else queue_clear_expert_drains ?ks (ws_queue s)) = (res, q)"
    by (rule prod.exhaust)
  have sub: "set ?ks \<subseteq> set (ws_target_keys s)" by (auto simp: reported_ready_def)
  have s1: "ws_inv (s\<lparr>ws_queue := q\<rparr>)" by (rule ws_inv_clear [OF assms sub c])
  have "ws_inv (s\<lparr>ws_queue := q, ws_shutdown_completion_sent := b, ws_run := r\<rparr>)" for b r
    by (rule ws_inv_frame [OF s1]) (simp_all add: same_core_def)
  then show ?thesis using ws_inv_run_fails [OF s1]
    unfolding yield_group_def run option.case list.case Let_def c prod.case by (cases res) simp_all
qed

text \<open>Drain tasks.\<close>

lemma set_drain_inv:
  assumes "ws_inv s" and "task_ok s ((ws_tasks s ! i)\<lparr>dt_phase := ph\<rparr>)"
  shows "ws_inv (set_drain i ph s)"
  unfolding set_drain_def by (rule ws_inv_set_task [OF assms])

lemma task_ok_quiet:
  assumes "task_ok s t" and "ph \<in> {Drain_Created, Drain_Locking, Drain_Flushing, Drain_Ended} \<union> range Drain_Awaiting"
  shows "task_ok s (t\<lparr>dt_phase := ph\<rparr>)"
  using assms by (auto simp: task_ok_def Let_def)

lemma drain_end_inv:
  assumes "ws_inv s" and "i < length (ws_tasks s)"
  shows "ws_inv (drain_end i s)"
proof -
  have "ws_inv (set_drain i Drain_Ended s)"
    by (rule set_drain_inv [OF assms(1) task_ok_quiet]) (use ws_invD(4) [OF assms(1)] assms(2) in simp_all)
  then have "ws_inv ((set_drain i Drain_Ended s)\<lparr>ws_active := d\<rparr>)" for d
    by (rule ws_inv_frame) (simp_all add: same_core_def)
  then show ?thesis using \<open>ws_inv (set_drain i Drain_Ended s)\<close> by (simp add: drain_end_def Let_def)
qed

lemma drain_failed_inv:
  assumes "ws_inv s" and "i < length (ws_tasks s)"
  shows "ws_inv (drain_failed i e s)"
proof -
  have "ws_inv (s\<lparr>ws_drain_error := x\<rparr>)" for x by (rule ws_inv_frame [OF assms(1)]) (simp_all add: same_core_def)
  then have "ws_inv (if ws_drain_error s = None then s\<lparr>ws_drain_error := Some e\<rparr> else s)" using assms(1) by simp
  then show ?thesis unfolding drain_failed_def by (rule drain_end_inv) (simp add: assms(2))
qed

lemma drain_superseded_inv:
  assumes "ws_inv s" and "i < length (ws_tasks s)"
  shows "ws_inv (drain_superseded i s)"
proof -
  obtain e s' where r: "remember_superseded (dt_authorization (ws_tasks s ! i)) s = (e, s')" by (rule prod.exhaust)
  have "ws_inv s'" "i < length (ws_tasks s')"
    using ws_inv_remember [OF assms(1) r] remember_superseded_fields(3) [OF r] assms(2) by simp_all
  then show ?thesis using drain_end_inv drain_failed_inv by (auto simp: drain_superseded_def r split: option.splits)
qed

lemma release_lock_inv: "ws_inv s \<Longrightarrow> ws_inv (release_lock h s)"
  by (rule ws_inv_frame [of s]) (simp_all add: same_core_def)

text \<open>The Manager when a removal is joined or left: the placement does not change.\<close>

lemma leave_inv:
  assumes "ws_inv s"
  shows "ws_inv (s\<lparr>ws_manager := remove_leave (ws_manager s)\<rparr>)"
proof -
  have "removal_guarded (s\<lparr>ws_manager := remove_leave (ws_manager s)\<rparr>)"
  proof (cases "wm_removal (remove_leave (ws_manager s)) = wm_removal (ws_manager s)")
    case True
    then have "removal_guarded (s\<lparr>ws_manager := remove_leave (ws_manager s)\<rparr>) = removal_guarded s"
      by (intro removal_guarded_cong) simp_all
    then show ?thesis using ws_invD(5) [OF assms] by simp
  next
    case False
    then have "wm_removal (remove_leave (ws_manager s)) = None"
      by (auto simp: remove_leave_def split: option.splits removal_status.splits)
    then show ?thesis by (simp add: removal_guarded_def)
  qed
  then show ?thesis
    by (intro ws_inv_manager [OF assms, where m = "remove_leave (ws_manager s)"])
      (simp_all add: same_placement_def remove_leave_def split: option.splits removal_status.splits prod.splits)
qed

lemma join_inv:
  assumes "ws_inv s" and "stop_all a \<or> da_placement_generation a \<le> ws_generation s"
    and held: "\<not> is_superseded a s \<Longrightarrow> \<forall>k\<in>set (da_experts a). held_idle s a k"
  shows "ws_inv (s\<lparr>ws_manager := join_removal a (ws_manager s)\<rparr>)"
proof -
  let ?m = "join_removal a (ws_manager s)" and ?s = "s\<lparr>ws_manager := join_removal a (ws_manager s)\<rparr>"
  have cases: "?m = ws_manager s \<or> (\<exists>req. ?m = (ws_manager s)\<lparr>wm_removal := Some (req, Removal_Created)\<rparr> \<and>
      rq_placement_generation req = da_placement_generation a \<and> set (rq_keys req) = set (da_experts a) \<and>
      rq_whole_worker_shutdown req = stop_all a)"
    by (auto simp: join_removal_def remove_join_def rbind_def validate_placement_generation_def validate_weight_keys_def
        split: sum.splits option.splits if_splits)
  show ?thesis
  proof (cases "?m = ws_manager s")
    case True
    then show ?thesis using assms(1) by simp
  next
    case False
    then obtain req where m: "?m = (ws_manager s)\<lparr>wm_removal := Some (req, Removal_Created)\<rparr>"
      and req: "rq_placement_generation req = da_placement_generation a" "set (rq_keys req) = set (da_experts a)"
        "rq_whole_worker_shutdown req = stop_all a" using cases by blast
    have "removal_key_ok ?s req k" if "k \<in> set (da_experts a)" for k
    proof (cases "is_superseded a s")
      case True
      then show ?thesis using req by (simp add: removal_key_ok_def is_superseded_def)
    next
      case False
      then have "held_idle s a k" using held that by blast
      then show ?thesis using req assms(2) by (auto simp: removal_key_ok_def held_idle_def split: if_splits)
    qed
    then have "removal_guarded ?s" using m req(2) by (simp add: removal_guarded_def)
    then show ?thesis by (rule ws_inv_manager [OF assms(1), where m = ?m, rotated -1]) (simp_all add: same_placement_def m)
  qed
qed

lemma queue_begin_drain_apply: "queue_begin_drain es v stop q = (res, q') \<Longrightarrow> q' = queue_apply (Begin_Drain es v stop) q"
  by simp

lemma drain_begin_inv:
  assumes "ws_inv s" and i: "i < length (ws_tasks s)" and a: "a = dt_authorization (ws_tasks s ! i)"
  shows "ws_inv (drain_begin i now a s)"
proof -
  obtain res q where b: "queue_begin_drain (da_experts a) (da_min_topology_version a) (stop_all a) (ws_queue s) = (res, q)"
    by (rule prod.exhaust)
  let ?s1 = "s\<lparr>ws_queue := q\<rparr>"
  have s1: "ws_inv ?s1"
    unfolding queue_begin_drain_apply [OF b] by (rule ws_inv_queue [OF assms(1)]) (simp add: clears_gate_def)
  have wait: "ws_inv (set_drain i (Drain_Waiting dl) (?s1\<lparr>ws_shutdown_deadline := x\<rparr>))" if "res = Inr ()" for dl x
  proof (rule set_drain_inv)
    let ?s2 = "?s1\<lparr>ws_shutdown_deadline := x\<rparr>"
    show "ws_inv ?s2" by (rule ws_inv_frame [OF s1]) (simp_all add: same_core_def)
    have "task_ok ?s2 (ws_tasks ?s2 ! i)" using ws_invD(4) [OF \<open>ws_inv ?s2\<close>] i by simp
    moreover have "held_closed ?s2 a k" if "k \<in> set (da_experts a)" for k
      using begin_drain_gates [OF b [unfolded \<open>res = Inr ()\<close>]] that by (auto simp: held_closed_def)
    ultimately show "task_ok ?s2 ((ws_tasks ?s2 ! i)\<lparr>dt_phase := Drain_Waiting dl\<rparr>)"
      using a by (simp add: task_ok_def Let_def)
  qed
  have same: "?s1 = ?s1\<lparr>ws_shutdown_deadline := ws_shutdown_deadline ?s1\<rparr>" by simp
  have wait': "ws_inv (set_drain i (Drain_Waiting dl) ?s1)" if "res = Inr ()" for dl
    using wait [OF that, of dl "ws_shutdown_deadline ?s1"] same by simp
  show ?thesis
  proof (cases res)
    case (Inl e)
    have "ws_inv (drain_failed i e ?s1)" by (rule drain_failed_inv [OF s1]) (simp add: i)
    then show ?thesis using assms(1) drain_superseded_inv [OF assms(1) i] Inl b by (simp add: drain_begin_def)
  next
    case (Inr u)
    then have "res = Inr ()" by simp
    then show ?thesis
      using assms(1) drain_superseded_inv [OF assms(1) i] b wait wait' by (simp add: drain_begin_def Let_def)
  qed
qed

lemma drain_wait_inv:
  assumes "ws_inv s" and i: "i < length (ws_tasks s)" and a: "a = dt_authorization (ws_tasks s ! i)"
    and ph: "dt_phase (ws_tasks s ! i) = Drain_Waiting deadline"
  shows "ws_inv (drain_wait i now a deadline s)"
proof -
  note inv = ws_invD [OF assms(1)]
  have t: "task_ok s (ws_tasks s ! i)" using inv(4) i by simp
  have "ws_inv (set_drain i Drain_Idle s)"
    if idle: "(if stop_all a then wait_all_idle deadline now (ws_queue s)
        else wait_experts_idle (da_experts a) None now (ws_queue s)) = Inr True"
  proof (rule set_drain_inv [OF assms(1)])
    have "held_idle s a k" if closed: "held_closed s a k" and k: "k \<in> set (da_experts a)" for k
    proof (cases "stop_all a")
      case True
      then show ?thesis using closed idle all_idle_unused [OF inv(1)] by (simp add: held_closed_def held_idle_def)
    next
      case False
      then have "rq_admitted_experts (ws_queue s) k = 0"
        using idle k by (auto simp: wait_experts_idle_def queue_wait_def split: if_splits)
      then show ?thesis using False closed by (auto simp: held_closed_def held_idle_def idle_key_def)
    qed
    then show "task_ok s ((ws_tasks s ! i)\<lparr>dt_phase := Drain_Idle\<rparr>)"
      using t ph a by (simp add: task_ok_def Let_def)
  qed
  then show ?thesis using assms(1) drain_failed_inv [OF assms(1) i] by (auto simp: drain_wait_def split: sum.splits)
qed

lemma drain_remove_inv:
  assumes "ws_inv s" and i: "i < length (ws_tasks s)" and a: "a = dt_authorization (ws_tasks s ! i)"
    and ph: "dt_phase (ws_tasks s ! i) = Drain_Idle"
  shows "ws_inv (drain_remove i a s)"
proof -
  have t: "task_ok s (ws_tasks s ! i)" using ws_invD(4) [OF assms(1)] i by simp
  then have gen: "stop_all a \<or> da_placement_generation a \<le> ws_generation s"
    and held: "\<not> is_superseded a s \<Longrightarrow> \<forall>k\<in>set (da_experts a). held_idle s a k"
    using ph a by (simp_all add: task_ok_def Let_def)
  let ?s1 = "s\<lparr>ws_manager := join_removal a (ws_manager s)\<rparr>"
  have s1: "ws_inv ?s1" by (rule join_inv [OF assms(1) gen held])
  have "ws_inv (set_drain i (Drain_Removing req) (?s1\<lparr>ws_lock := l\<rparr>))" for req l
  proof (rule set_drain_inv)
    show inv2: "ws_inv (?s1\<lparr>ws_lock := l\<rparr>)" by (rule ws_inv_frame [OF s1]) (simp_all add: same_core_def)
    have "task_ok (?s1\<lparr>ws_lock := l\<rparr>) (ws_tasks s ! i)" using ws_invD(4) [OF inv2] i by simp
    then show "task_ok (?s1\<lparr>ws_lock := l\<rparr>) ((ws_tasks (?s1\<lparr>ws_lock := l\<rparr>) ! i)\<lparr>dt_phase := Drain_Removing req\<rparr>)"
      using ph by (simp add: task_ok_def Let_def)
  qed
  then show ?thesis
    using assms(1) drain_superseded_inv [OF assms(1) i] drain_failed_inv [OF assms(1) i]
    by (auto simp: drain_remove_def split: sum.splits)
qed

lemma drain_removed_inv:
  assumes "ws_inv s" and i: "i < length (ws_tasks s)" and a: "a = dt_authorization (ws_tasks s ! i)"
    and ph: "dt_phase (ws_tasks s ! i) = Drain_Removing req"
  shows "ws_inv (drain_removed i a req s)"
proof -
  let ?s1 = "s\<lparr>ws_manager := remove_leave (ws_manager s)\<rparr>"
  have s1: "ws_inv ?s1" by (rule leave_inv [OF assms(1)])
  have t: "task_ok ?s1 (ws_tasks s ! i)" using ws_invD(4) [OF s1] i by simp
  then have gen: "stop_all a \<or> da_placement_generation a \<le> ws_generation ?s1"
    and held: "\<not> is_superseded a ?s1 \<Longrightarrow> \<forall>k\<in>set (da_experts a). held_idle ?s1 a k"
    using ph a by (simp_all add: task_ok_def Let_def)
  have again: "ws_inv (?s1\<lparr>ws_manager := join_removal a (ws_manager ?s1)\<rparr>)" by (rule join_inv [OF s1 gen held])
  let ?s2 = "release_lock (Drain_Holds i) ?s1"
  have s2: "ws_inv ?s2" by (rule release_lock_inv [OF s1])
  have i2: "i < length (ws_tasks ?s2)" using i by simp
  have flush: "ws_inv (set_drain i Drain_Flushing ?s2)"
    by (rule set_drain_inv [OF s2 task_ok_quiet]) (use ws_invD(4) [OF s2] i2 in simp_all)
  show ?thesis
    using assms(1) again drain_failed_inv [OF s2 i2] drain_superseded_inv [OF s2 i2] flush
    unfolding drain_removed_def Let_def by (simp split: option.split prod.split removal_status.split sum.split bool.split)
qed

lemma drain_finish_inv:
  assumes "ws_inv s" and i: "i < length (ws_tasks s)"
  shows "ws_inv (drain_finish i a n s)"
proof -
  let ?s1 = "remember_completed a s"
  let ?s2 = "if stop_all a then ?s1\<lparr>ws_shutdown_drained := True\<rparr> else ?s1"
  have "ws_inv ?s2" by (rule ws_inv_frame [OF assms(1)]) (simp_all add: same_core_def remember_completed_def Let_def)
  moreover have "i < length (ws_tasks ?s2)" using i by (simp add: remember_completed_def Let_def)
  ultimately have "ws_inv (drain_end i ?s2)" by (rule drain_end_inv)
  then show ?thesis using assms(1) unfolding drain_finish_def Let_def by simp
qed

lemma drain_cancelled_inv:
  assumes "ws_inv s" and i: "i < length (ws_tasks s)"
  shows "ws_inv (drain_cancelled i s)"
proof -
  have quiet: "ws_inv (set_drain i Drain_Ended s)"
    by (rule set_drain_inv [OF assms(1) task_ok_quiet]) (use ws_invD(4) [OF assms(1)] i in simp_all)
  have "ws_inv (release_lock (Drain_Holds i) (s\<lparr>ws_manager := remove_leave (ws_manager s)\<rparr>))"
    by (intro release_lock_inv leave_inv assms(1))
  then have "ws_inv (drain_end i (release_lock (Drain_Holds i) (s\<lparr>ws_manager := remove_leave (ws_manager s)\<rparr>)))"
    by (rule drain_end_inv) (simp add: i)
  then show ?thesis
    using quiet drain_end_inv [OF assms] unfolding drain_cancelled_def by (simp split: drain_phase.split)
qed

lemma drain_step_inv:
  assumes "ws_inv s"
  shows "ws_inv (drain_step i now s)"
proof (cases "i < length (ws_tasks s)")
  case False
  then show ?thesis using assms by (simp add: drain_step_def)
next
  case i: True
  let ?t = "ws_tasks s ! i"
  have frame: "ws_inv (s\<lparr>ws_reporter := r\<rparr>)" for r by (rule ws_inv_frame [OF assms]) (simp_all add: same_core_def)
  have quiet: "ws_inv (set_drain i ph x)"
    if "ws_inv x" "i < length (ws_tasks x)" "ph \<in> {Drain_Created, Drain_Locking, Drain_Flushing, Drain_Ended} \<union> range Drain_Awaiting" for x ph
    by (rule set_drain_inv [OF that(1) task_ok_quiet [OF _ that(3)]]) (use ws_invD(4) [OF that(1)] that(2) in simp)
  have waits: "ws_inv (case flush_pass (ws_reporter s) of (None, r) \<Rightarrow> s\<lparr>ws_reporter := r\<rparr>
      | (Some n, r) \<Rightarrow> set_drain i (Drain_Awaiting n) (s\<lparr>ws_reporter := r\<rparr>))"
    using frame quiet [OF frame] i by (simp split: prod.split option.split)
  show ?thesis
  proof (cases "dt_phase ?t = Drain_Ended \<or> dt_cancel ?t")
    case True
    then show ?thesis using assms drain_cancelled_inv [OF assms i] i by (auto simp: drain_step_def Let_def)
  next
    case False
    have step: "drain_step i now s = (case dt_phase ?t of
        Drain_Created \<Rightarrow> set_drain i Drain_Locking s
      | Drain_Locking \<Rightarrow> drain_begin i now (dt_authorization ?t) s
      | Drain_Waiting deadline \<Rightarrow> drain_wait i now (dt_authorization ?t) deadline s
      | Drain_Idle \<Rightarrow> drain_remove i (dt_authorization ?t) s
      | Drain_Removing request \<Rightarrow> drain_removed i (dt_authorization ?t) request s
      | Drain_Flushing \<Rightarrow> (case flush_pass (ws_reporter s) of (None, r) \<Rightarrow> s\<lparr>ws_reporter := r\<rparr>
          | (Some n, r) \<Rightarrow> set_drain i (Drain_Awaiting n) (s\<lparr>ws_reporter := r\<rparr>))
      | Drain_Awaiting n \<Rightarrow> drain_finish i (dt_authorization ?t) n s
      | Drain_Ended \<Rightarrow> s)"
      using False i unfolding drain_step_def Let_def by simp
    show ?thesis
      unfolding step
      by (cases "dt_phase ?t")
        (simp_all add: assms i waits quiet drain_begin_inv drain_wait_inv drain_remove_inv drain_removed_inv drain_finish_inv)
  qed
qed

section \<open>Reachable states\<close>

lemma ws_apply_inv:
  assumes "ws_inv s" and "drain_in_order cw op s"
  shows "ws_inv (ws_apply cw op s)"
proof (cases op)
  case (W_Receiver q)
  have "ws_inv (s\<lparr>ws_queue := queue_apply q (ws_queue s)\<rparr>)" if "receiver_own q"
    by (rule ws_inv_queue [OF assms(1)]) (use that in \<open>auto simp: receiver_own_def clears_gate_def split: queue_op.splits\<close>)
  then show ?thesis using W_Receiver assms(1) by simp
next
  case (W_Drain_Part part)
  then show ?thesis using ws_inv_receive_drain [OF assms(1)] assms(2) by simp
qed (simp_all add: assms(1) ws_inv_manager_own ws_inv_run_start ws_inv_run_end ws_inv_shutdown ws_inv_close ws_inv_receive_targets
    ws_inv_receive_ack ws_inv_receive_unknown ws_inv_apply_begin ws_inv_apply_manager ws_inv_apply_snapshot ws_inv_apply_clear
    ws_inv_apply_report ws_inv_put_snapshot ws_inv_pump_updates ws_inv_pump_completions ws_inv_yield drain_step_inv
    drain_failure_seen_def ws_inv_run_fails)

lemma session_start_inv: "session_start s \<Longrightarrow> ws_inv s"
  by (auto simp: session_start_def WeightControlSession_def TargetListAssembler_def DrainAuthorizationAssembler_def
      WeightManager_def ReceiverQueue_inv ws_inv_def placement_inv_def response_ok_def removal_guarded_def split: if_splits)

interpretation control: invariant_system session_start "control_step cw" ws_inv for cw
  by unfold_locales (auto simp: session_start_inv elim!: control_step.cases intro: ws_apply_inv)

fun orderly :: "control_wire \<Rightarrow> 'v ws_op list \<Rightarrow> 'v weight_session \<Rightarrow> bool" where
  "orderly cw [] s = True"
| "orderly cw (op # ops) s = (drain_in_order cw op s \<and> orderly cw ops (ws_apply cw op s))"

lemma orderly_reachable:
  "reachable session_start (control_step cw) s \<Longrightarrow> orderly cw ops s \<Longrightarrow>
   reachable session_start (control_step cw) (fold (ws_apply cw) ops s)"
  by (induction ops arbitrary: s) (auto intro: reach_step control_step.intros)

lemma unused_entries:
  assumes "queue_inv q" and "rq_admitted_experts q k = 0" and "e \<in> set (live q)"
  shows "\<not> (qe_layer_id e = fst k \<and> snd k \<in> set (qe_expert_ids e))"
proof -
  have "usage (live q) k = 0" using assms(1,2) unfolding queue_inv_def by metis
  moreover have "0 \<le> usage es k \<and> (usage es k = 0 \<longrightarrow> (\<forall>x\<in>set es. uses x k = 0))" for es
    by (induction es) (auto simp: uses_nonneg add_nonneg_eq_0_iff)
  ultimately have "uses e k = 0" using assms(3) by blast
  then show ?thesis by (auto simp: uses_def count_list_0_iff split: if_splits)
qed

definition ex_manager :: "nat weight_manager" where
  "ex_manager = (case WeightManager 2 4 ''cpu'' 1000 1 100 of Inr m \<Rightarrow> m | Inl _ \<Rightarrow> undefined)"

definition ex_session :: "nat weight_session" where
  "ex_session = (case WeightControlSession ''w'' ''s'' 8 60 ex_manager ex_reporter ex_queue of Inr s \<Rightarrow> s | Inl _ \<Rightarrow> undefined)"

definition ex_targets :: target_part where
  "ex_targets = \<lparr>tp_placement_generation = 1, tp_part_index = 0, tp_part_count = 1, tp_experts = []\<rparr>"

definition ex_drain :: drain_part where
  "ex_drain = \<lparr>dp_drain_id = 5, dp_placement_generation = 1, dp_min_topology_version = 3, dp_stop_all = False,
     dp_part_index = 0, dp_part_count = 1, dp_experts = [(0, 2)]\<rparr>"

definition ex_wire :: control_wire where
  "ex_wire = \<lparr>cw_serialize_targets = (\<lambda>_. []), cw_parse_targets = (\<lambda>_. ex_targets),
     cw_serialize_drain = (\<lambda>_. []), cw_parse_drain = (\<lambda>_. ex_drain)\<rparr>"

definition ex_control_ops :: "nat ws_op list" where
  "ex_control_ops = [W_Manager 0 Op_Start, W_Run_Start, W_Targets ex_targets, W_Apply_Begin, W_Apply_Manager 1, W_Apply_Snapshot,
     W_Apply_Clear, W_Apply_Report, W_Put_Snapshot, W_Receiver (Admit \<lparr>ri_id = 9, ri_layer = 0, ri_experts = [2]\<rparr> 10),
     W_Drain_Part ex_drain, W_Drain 0 2, W_Drain 0 2, W_Drain 0 2, W_Receiver Take,
     W_Receiver (Finish \<lparr>ri_id = 9, ri_layer = 0, ri_experts = [2]\<rparr>), W_Drain 0 3, W_Drain 0 4, W_Manager 5 Op_Remove_Start]"

lemma ex_session_start: "session_start ex_session"
proof -
  have "WeightManager 2 4 ''cpu'' 1000 1 100 = Inr ex_manager" by code_simp
  moreover have "WeightControlSession ''w'' ''s'' 8 60 ex_manager ex_reporter ex_queue = Inr ex_session"
    by (simp add: ex_session_def WeightControlSession_def TargetListAssembler_def DrainAuthorizationAssembler_def blank_def raise_first.simps)
  ultimately show ?thesis unfolding session_start_def using ex_reporter_made ex_queue_made by blast
qed

section \<open>Properties\<close>

text \<open>
  C3. Draining is safe across the Worker's components. In every interleaving of the Controller's messages,
  the control streams, the drain tasks, the Weight Manager with its load tasks and the receiver, while the
  Manager withdraws the objects of a drain request, every drained expert is gated at the receiver, no
  waiting or active batch uses it, and unless the whole Worker stops it is not assigned in the current
  placement. The Controller is assumed to authorize the drain of an expert only after it sent the placement
  generation of the drain.
\<close>

theorem withdrawn_experts_idle:
  assumes "reachable session_start (control_step cw) s"
    and "wm_removal (ws_manager s) = Some (req, Removal_Holding ws ks)" and "k \<in> set (rq_keys req)"
  shows "queue_gated (ws_queue s) k \<and>
    (\<forall>e\<in>set (live (ws_queue s)). \<not> (qe_layer_id e = fst k \<and> snd k \<in> set (qe_expert_ids e))) \<and>
    (rq_whole_worker_shutdown req \<or> map_of (wm_targets (ws_manager s)) k = None)"
proof -
  have inv: "ws_inv s" by (rule control.reachable_inv [OF assms(1)])
  have k: "idle_key (ws_queue s) k" "rq_whole_worker_shutdown req \<or> k \<notin> set (ws_target_keys s)"
    using ws_invD(5) [OF inv] assms(2,3) by (auto simp: removal_guarded_def split: if_splits)
  have "fst ` set (wm_targets (ws_manager s)) = set (ws_target_keys s)"
    using ws_invD(2) [OF inv] by (simp add: placement_inv_def)
  then have "rq_whole_worker_shutdown req \<or> map_of (wm_targets (ws_manager s)) k = None"
    using k(2) by (metis map_of_eq_None_iff)
  then show ?thesis
    using k(1) unused_entries [OF ws_invD(1) [OF inv]] unfolding idle_key_def by blast
qed

theorem withdrawn_experts_idle_witness:
  "queue_gated (ws_queue (fold (ws_apply ex_wire) ex_control_ops ex_session)) (0, 2) \<and>
   wm_removal (ws_manager (fold (ws_apply ex_wire) ex_control_ops ex_session)) =
     Some (\<lparr>rq_placement_generation = 1, rq_keys = [(0, 2)], rq_whole_worker_shutdown = False\<rparr>, Removal_Holding [] [])"
proof -
  let ?s = "fold (ws_apply ex_wire) ex_control_ops ex_session"
  have "orderly ex_wire ex_control_ops ex_session" by code_simp
  then have r: "reachable session_start (control_step ex_wire) ?s"
    by (rule orderly_reachable [OF reach_init [where init = session_start, OF ex_session_start]])
  have h: "wm_removal (ws_manager ?s) =
      Some (\<lparr>rq_placement_generation = 1, rq_keys = [(0, 2)], rq_whole_worker_shutdown = False\<rparr>, Removal_Holding [] [])" by code_simp
  have "(0, 2) \<in> set (rq_keys \<lparr>rq_placement_generation = 1, rq_keys = [(0, 2)], rq_whole_worker_shutdown = False\<rparr>)" by simp
  from withdrawn_experts_idle [OF r h this] h show ?thesis by blast
qed

end
