(* ===== verification/Execution_Slot.thy ===== *)
theory Execution_Slot
  imports Worker_Limits
begin

text \<open>
  \<open>ek-worker/src/expertkit_worker/execution/slot.py\<close>: the fixed storage of one active computation and its
  execution on the CPU or with an asynchronous device.

  A call of \<open>execute\<close> runs in one thread of the bounded executor; \<open>_claim\<close> keeps a second call out, so a
  call is one step. Its environment is an argument: what the Transport copies, the backend and the device
  runtime answer, and at the \<open>k\<close>-th test of cancellation and deadline what the received batch and the clock
  show. A computation that may raise threads the slot and returns \<open>exn + 'a\<close>; \<open>xbind\<close> is sequencing,
  \<open>on_error\<close> an \<open>except BaseException\<close> that cleans up and raises again, unless the clean-up itself raises.
  \<open>str_of\<close> is \<open>str\<close> of an exception. Completions are numbers; \<open>xs_open\<close> holds those that were not
  closed. Closing one may raise (the Torch and fused backends wait for the device there): what it raises is
  \<open>ev_close\<close> inside \<open>execute\<close> and an argument of \<open>result_release\<close>; both backends mark the completion closed and
  give its weights back before they raise. \<open>release_input\<close> of a batch that is being served and closing the
  Transport's Worker buffers only drop references. Allocation of the fixed storage and of the device's stream
  and events does not fail. Trace spans only observe.
\<close>

section \<open>Sequencing\<close>

type_synonym ('s, 'a) action = "'s \<Rightarrow> (exn + 'a) \<times> 's"

definition xreturn :: "'a \<Rightarrow> ('s, 'a) action" where
  "xreturn x s = (Inr x, s)"

definition xraise :: "exn \<Rightarrow> ('s, 'a) action" where
  "xraise e s = (Inl e, s)"

definition xbind :: "('s, 'a) action \<Rightarrow> ('a \<Rightarrow> ('s, 'b) action) \<Rightarrow> ('s, 'b) action" where
  "xbind m f s = (case m s of (Inl e, s') \<Rightarrow> (Inl e, s') | (Inr x, s') \<Rightarrow> f x s')"

definition attempt :: "exn option \<Rightarrow> ('s, unit) action" where
  "attempt failure = (case failure of Some e \<Rightarrow> xraise e | None \<Rightarrow> xreturn ())"

definition on_error :: "('s, unit) action \<Rightarrow> ('s, 'a) action \<Rightarrow> ('s, 'a) action" where
  "on_error cleanup m s =
     (case m s of
        (Inl e, s') \<Rightarrow> (case cleanup s' of (Inl e', s'') \<Rightarrow> (Inl e', s'') | (Inr _, s'') \<Rightarrow> (Inl e, s''))
      | (Inr x, s') \<Rightarrow> (Inr x, s'))"

definition map_error :: "(exn \<Rightarrow> exn) \<Rightarrow> ('s, 'a) action \<Rightarrow> ('s, 'a) action" where
  "map_error f m s = (case m s of (Inl e, s') \<Rightarrow> (Inl (f e), s') | (Inr x, s') \<Rightarrow> (Inr x, s'))"

section \<open>Slots and results\<close>

record 'f slot_tensors =
  st_hidden_states :: "'f matrix tensor"
  st_expert_ids :: "int matrix tensor"
  st_routing_weights :: "'f matrix tensor"
  st_output :: "'f matrix tensor"

record 'f execution_result =
  xr_output :: "'f matrix tensor option"
  xr_rejection :: "transport_error option"
  xr_completion :: "nat option"
  xr_released :: bool

record 'f execution_slot =
  xs_spec :: batch_buffer_config
  xs_tensors :: "'f slot_tensors option"
  xs_resources :: bool
  xs_result :: "nat option"
  xs_busy :: bool
  xs_closed :: bool
  xs_buffers_closed :: bool
  xs_results :: "'f execution_result list"
  xs_submitted :: nat
  xs_open :: "nat list"
  xs_inputs_released :: nat

record 'f received_batch =
  rv_batch :: "'f worker_batch"
  rv_deadline :: int

record 'f slot_env =
  ev_cancelled :: "nat \<Rightarrow> bool"
  ev_clock :: "nat \<Rightarrow> int"
  ev_copy_input :: "'f worker_batch \<Rightarrow> exn + ('f matrix \<times> int matrix \<times> 'f matrix)"
  ev_submit :: "'f backend_batch \<Rightarrow> exn + 'f matrix"
  ev_wait :: "exn option"
  ev_copy_output :: "'f matrix tensor \<Rightarrow> exn + 'f matrix tensor"
  ev_timing :: bool
  ev_context :: "exn option"
  ev_start_event :: "exn option"
  ev_after_input :: "exn option"
  ev_after_backend :: "exn option"
  ev_after_output :: "exn option"
  ev_end_event :: "exn option"
  ev_synchronize :: "exn option"
  ev_timings :: "exn option"
  ev_close :: "exn option"

text \<open>\<open>torch.empty\<close>: a Tensor of the given shape with unspecified values, which the arguments \<open>f0\<close> and \<open>i0\<close> supply.\<close>

definition torch_empty :: "dtype \<Rightarrow> string \<Rightarrow> (nat \<Rightarrow> nat \<Rightarrow> 'a) \<Rightarrow> nat \<Rightarrow> nat \<Rightarrow> 'a matrix tensor" where
  "torch_empty d dev fill n k = mk_matrix d dev k (map (\<lambda>i. map (fill i) [0 ..< k]) [0 ..< n])"

definition new_slot ::
  "(nat \<Rightarrow> nat \<Rightarrow> 'f) \<Rightarrow> (nat \<Rightarrow> nat \<Rightarrow> int) \<Rightarrow> batch_buffer_config \<Rightarrow> string \<Rightarrow> exn + 'f execution_slot" where
  "new_slot f0 i0 spec runtime_device =
     (if bf_device_type spec \<noteq> runtime_device then Inl (ValueError ''slot buffer device does not match its runtime'')
      else
        let n = nat (bf_max_batch_tokens spec); h = nat (bf_hidden_dim spec); k = nat (bf_top_k spec); dev = bf_device_type spec
        in Inr \<lparr>xs_spec = spec,
             xs_tensors = Some \<lparr>st_hidden_states = torch_empty (bf_dtype spec) dev f0 n h, st_expert_ids = torch_empty Int32 dev i0 n k,
               st_routing_weights = torch_empty Float32 dev f0 n k, st_output = torch_empty (bf_dtype spec) dev f0 n h\<rparr>,
             xs_resources = True, xs_result = None, xs_busy = False, xs_closed = False, xs_buffers_closed = False,
             xs_results = [], xs_submitted = 0, xs_open = [], xs_inputs_released = 0\<rparr>)"

definition first_rows :: "nat \<Rightarrow> 'a matrix tensor \<Rightarrow> 'a matrix tensor" where
  "first_rows n t = t\<lparr>t_shape := (t_shape t)[0 := min n (dim0 t)], t_data := take n (t_data t)\<rparr>"

definition slot_valid_views :: "nat \<Rightarrow> 'f slot_tensors \<Rightarrow> 'f slot_tensors" where
  "slot_valid_views n ts = \<lparr>st_hidden_states = first_rows n (st_hidden_states ts), st_expert_ids = first_rows n (st_expert_ids ts),
     st_routing_weights = first_rows n (st_routing_weights ts), st_output = first_rows n (st_output ts)\<rparr>"

definition tensor_bytes :: "('d, 'z) tensor_scheme \<Rightarrow> int" where
  "tensor_bytes t = int (prod_list (t_shape t)) * element_size (t_dtype t)"

definition slot_device_bytes :: "'f slot_tensors \<Rightarrow> int" where
  "slot_device_bytes ts = tensor_bytes (st_hidden_states ts) + tensor_bytes (st_expert_ids ts) +
     tensor_bytes (st_routing_weights ts) + tensor_bytes (st_output ts)"

definition require_tensors :: "('f execution_slot, 'f slot_tensors) action" where
  "require_tensors s = (case xs_tensors s of None \<Rightarrow> (Inl (RuntimeError ''execution slot is closed''), s) | Some ts \<Rightarrow> (Inr ts, s))"

definition require_async_resources :: "('f execution_slot, unit) action" where
  "require_async_resources s = (if xs_resources s then (Inr (), s) else (Inl (RuntimeError ''execution slot is closed''), s))"

definition request_end_error :: "'f slot_env \<Rightarrow> nat \<Rightarrow> 'f received_batch \<Rightarrow> transport_error option" where
  "request_end_error ev k rv =
     (if ev_cancelled ev k
      then Some (TransportError CANCELLED False ''computation caller cancelled before response completion'')
      else if ev_clock ev k \<ge> rv_deadline rv
      then Some (TransportError DEADLINE_EXCEEDED False ''computation deadline expired before response completion'')
      else None)"

definition release_input :: "'f execution_slot \<Rightarrow> 'f execution_slot" where
  "release_input s = s\<lparr>xs_inputs_released := xs_inputs_released s + 1\<rparr>"

definition close_completion :: "exn option \<Rightarrow> nat \<Rightarrow> ('f execution_slot, unit) action" where
  "close_completion failure c s = attempt failure (s\<lparr>xs_open := removeAll c (xs_open s)\<rparr>)"

definition set_result ::
  "'f matrix tensor option \<Rightarrow> transport_error option \<Rightarrow> nat option \<Rightarrow> ('f execution_slot, nat) action" where
  "set_result output rejection completion s =
     (Inr (length (xs_results s)),
      s\<lparr>xs_results := xs_results s @ [\<lparr>xr_output = output, xr_rejection = rejection, xr_completion = completion, xr_released = False\<rparr>],
        xs_result := Some (length (xs_results s))\<rparr>)"

definition claim :: "('f execution_slot, unit) action" where
  "claim s =
     (if xs_closed s then (Inl (RuntimeError ''active computation slot is closed''), s)
      else if xs_busy s then (Inl (RuntimeError ''active computation slot is already in use''), s)
      else (Inr (), s\<lparr>xs_busy := True\<rparr>))"

definition release_result :: "nat \<Rightarrow> ('f execution_slot, unit) action" where
  "release_result i s =
     (if xs_result s \<noteq> Some i then (Inl (RuntimeError ''slot result does not own this active slot''), s)
      else (Inr (), s\<lparr>xs_result := None, xs_busy := False\<rparr>))"

text \<open>
  \<open>ExecutionResult.release\<close>: the slot is given back in a \<open>finally\<close>, whether or not closing the completion raised;
  \<open>failure\<close> is what closing it raises.
\<close>

definition result_release :: "exn option \<Rightarrow> nat \<Rightarrow> ('f execution_slot, unit) action" where
  "result_release failure i s =
     (let r = xs_results s ! i in
      if xr_released r then (Inr (), s)
      else
        let s1 = s\<lparr>xs_results := (xs_results s)[i := r\<lparr>xr_released := True\<rparr>]\<rparr>;
            (closed, s2) = (case xr_completion r of None \<Rightarrow> (Inr (), s1) | Some c \<Rightarrow> close_completion failure c s1)
        in case release_result i s2 of (Inl e, s3) \<Rightarrow> (Inl e, s3) | (Inr _, s3) \<Rightarrow> (closed, s3))"

definition slot_close :: "('f execution_slot, unit) action" where
  "slot_close s =
     (if xs_closed s then (Inr (), s)
      else if xs_busy s then (Inl (RuntimeError ''cannot close an active computation slot''), s)
      else (Inr (), s\<lparr>xs_closed := True, xs_buffers_closed := True, xs_tensors := None\<rparr>))"

definition async_slot_close :: "('f execution_slot, unit) action" where
  "async_slot_close = xbind slot_close (\<lambda>_ s. (Inr (), s\<lparr>xs_resources := False\<rparr>))"

section \<open>Classes of exceptions\<close>

fun is_request_error :: "exn \<Rightarrow> bool" where
  "is_request_error (BackendRequestError _) = True"
| "is_request_error (InvalidBackendInput _) = True"
| "is_request_error (UnsupportedBackendBatch _) = True"
| "is_request_error (BackendWeightUnavailable _) = True"
| "is_request_error _ = False"

fun is_fatal_error :: "exn \<Rightarrow> bool" where
  "is_fatal_error (BackendFatalError _ _) = True"
| "is_fatal_error _ = False"

fun is_value_error :: "exn \<Rightarrow> bool" where
  "is_value_error (ValueError _) = True"
| "is_value_error (SafeTensorFormatError _) = True"
| "is_value_error (TransportProtocolError _) = True"
| "is_value_error (TopologyProtocolError _) = True"
| "is_value_error _ = False"

text \<open>\<open>CancelledError\<close> is the one exception of the model that is no \<open>Exception\<close>.\<close>

definition is_exception :: "exn \<Rightarrow> bool" where
  "is_exception e \<longleftrightarrow> e \<noteq> CancelledError"

definition device_error :: "(exn \<Rightarrow> string) \<Rightarrow> backend_fatal_reason \<Rightarrow> exn \<Rightarrow> exn" where
  "device_error str_of reason e =
     (case e of
        OutOfMemoryError _ \<Rightarrow> BackendFatalError DEVICE_OOM (str_of e)
      | _ \<Rightarrow> if is_exception e then BackendFatalError reason (str_of e) else e)"

definition backend_call_error :: "(exn \<Rightarrow> string) \<Rightarrow> exn \<Rightarrow> exn" where
  "backend_call_error str_of e =
     (if is_request_error e \<or> is_fatal_error e then e else device_error str_of UNEXPECTED e)"

definition execute_error :: "(exn \<Rightarrow> string) \<Rightarrow> exn \<Rightarrow> exn" where
  "execute_error str_of e =
     (if is_request_error e \<or> is_fatal_error e then e
      else if is_value_error e then InvalidBackendInput (str_of e)
      else device_error str_of UNEXPECTED e)"

section \<open>Execution\<close>

definition valid_views :: "nat \<Rightarrow> ('f execution_slot, 'f slot_tensors) action" where
  "valid_views token_count s =
     (if \<not> (0 < token_count \<and> int token_count \<le> bf_max_batch_tokens (xs_spec s))
      then (Inl (InvalidBackendInput ''batch token count exceeds the active slot''), s)
      else xbind require_tensors (\<lambda>ts. xreturn (slot_valid_views token_count ts)) s)"

definition write_rows :: "'a matrix \<Rightarrow> 'a matrix tensor \<Rightarrow> 'a matrix tensor" where
  "write_rows rows t = t\<lparr>t_data := rows @ drop (length rows) (t_data t)\<rparr>"

text \<open>The rows the Transport and the backend write into the views are rows of the fixed storage.\<close>

definition store_input :: "'f matrix \<times> int matrix \<times> 'f matrix \<Rightarrow> 'f slot_tensors \<Rightarrow> 'f slot_tensors" where
  "store_input rows ts = (case rows of (h, e, w) \<Rightarrow>
     ts\<lparr>st_hidden_states := write_rows h (st_hidden_states ts), st_expert_ids := write_rows e (st_expert_ids ts),
        st_routing_weights := write_rows w (st_routing_weights ts)\<rparr>)"

definition copy_and_build_batch ::
  "'f slot_env \<Rightarrow> 'f received_batch \<Rightarrow> 'f slot_tensors \<Rightarrow> ('f execution_slot, 'f backend_batch) action" where
  "copy_and_build_batch ev rv views s =
     (case ev_copy_input ev (rv_batch rv) of
        Inl e \<Rightarrow> (Inl e, s)
      | Inr rows \<Rightarrow>
          let s1 = release_input (s\<lparr>xs_tensors := map_option (store_input rows) (xs_tensors s)\<rparr>);
              views1 = store_input rows views;
              batch = \<lparr>bb_layer_id = wb_layer_id (rv_batch rv), bb_hidden_states = st_hidden_states views1,
                       bb_expert_ids = st_expert_ids views1, bb_routing_weights = st_routing_weights views1,
                       bb_distinct_expert_ids = wb_distinct_expert_ids (rv_batch rv),
                       bb_hidden_contiguous = True, bb_ids_contiguous = True, bb_weights_contiguous = True\<rparr>
          in (case backend_batch_post_init batch of Some e \<Rightarrow> (Inl e, s1) | None \<Rightarrow> (Inr batch, s1)))"

text \<open>\<open>_submit\<close> returns the number of the new completion; the backend writes the output rows.\<close>

definition submit :: "(exn \<Rightarrow> string) \<Rightarrow> 'f slot_env \<Rightarrow> 'f backend_batch \<Rightarrow> ('f execution_slot, nat) action" where
  "submit str_of ev batch s =
     (case ev_submit ev batch of
        Inl e \<Rightarrow> (Inl (backend_call_error str_of e), s)
      | Inr rows \<Rightarrow>
          (Inr (xs_submitted s),
           s\<lparr>xs_submitted := xs_submitted s + 1, xs_open := xs_open s @ [xs_submitted s],
             xs_tensors := map_option (\<lambda>ts. ts\<lparr>st_output := write_rows rows (st_output ts)\<rparr>) (xs_tensors s)\<rparr>))"

definition wait_completion :: "(exn \<Rightarrow> string) \<Rightarrow> 'f slot_env \<Rightarrow> ('f execution_slot, unit) action" where
  "wait_completion str_of ev = map_error (backend_call_error str_of) (attempt (ev_wait ev))"

definition copy_output :: "'f slot_env \<Rightarrow> nat \<Rightarrow> ('f execution_slot, 'f matrix tensor) action" where
  "copy_output ev n =
     xbind require_tensors (\<lambda>ts s. (ev_copy_output ev (first_rows n (st_output ts)), s))"

definition cpu_execute_impl ::
  "(exn \<Rightarrow> string) \<Rightarrow> 'f slot_env \<Rightarrow> 'f received_batch \<Rightarrow> 'f slot_tensors \<Rightarrow> ('f execution_slot, nat) action" where
  "cpu_execute_impl str_of ev rv views =
     xbind (copy_and_build_batch ev rv views) (\<lambda>batch.
       case request_end_error ev 1 rv of
         Some rejection \<Rightarrow> set_result None (Some rejection) None
       | None \<Rightarrow>
           xbind (submit str_of ev batch) (\<lambda>c.
             on_error (close_completion (ev_close ev) c)
               (xbind (wait_completion str_of ev) (\<lambda>_.
                  case request_end_error ev 2 rv of
                    Some rejection \<Rightarrow> set_result None (Some rejection) (Some c)
                  | None \<Rightarrow> xbind (copy_output ev (wb_token_count (rv_batch rv))) (\<lambda>out. set_result (Some out) None (Some c))))))"

definition timed :: "'f slot_env \<Rightarrow> exn option \<Rightarrow> ('f execution_slot, unit) action" where
  "timed ev failure = (if ev_timing ev then attempt failure else xreturn ())"

text \<open>From the record of the event after the backend to the result; \<open>c\<close> is the completion if the batch was submitted.\<close>

definition async_finish ::
  "(exn \<Rightarrow> string) \<Rightarrow> 'f slot_env \<Rightarrow> 'f received_batch \<Rightarrow> nat option \<Rightarrow> transport_error option \<Rightarrow> ('f execution_slot, nat) action" where
  "async_finish str_of ev rv c rejected =
     xbind (timed ev (ev_after_backend ev)) (\<lambda>_.
     xbind (case c of
              None \<Rightarrow> xreturn (rejected, None)
            | Some _ \<Rightarrow>
                (case request_end_error ev 2 rv of
                   Some rejection \<Rightarrow> xreturn (Some rejection, None)
                 | None \<Rightarrow> xbind (copy_output ev (wb_token_count (rv_batch rv))) (\<lambda>out. xreturn (None, Some out)))) (\<lambda>(rejection, output).
     xbind (timed ev (ev_after_output ev)) (\<lambda>_.
     xbind (attempt (ev_end_event ev)) (\<lambda>_.
     xbind (map_error (device_error str_of ASYNC_EXECUTION) (attempt (ev_synchronize ev))) (\<lambda>_.
     xbind (timed ev (ev_timings ev)) (\<lambda>_.
     xbind (if c = None then xreturn () else wait_completion str_of ev) (\<lambda>_.
       case request_end_error ev 3 rv of
         Some final \<Rightarrow> set_result None (Some final) c
       | None \<Rightarrow> set_result output rejection c)))))))"

definition async_execute_impl ::
  "(exn \<Rightarrow> string) \<Rightarrow> 'f slot_env \<Rightarrow> 'f received_batch \<Rightarrow> 'f slot_tensors \<Rightarrow> ('f execution_slot, nat) action" where
  "async_execute_impl str_of ev rv views =
     xbind require_async_resources (\<lambda>_.
     xbind (attempt (ev_context ev)) (\<lambda>_.
     xbind (timed ev (ev_start_event ev)) (\<lambda>_.
     xbind (copy_and_build_batch ev rv views) (\<lambda>batch.
     xbind (timed ev (ev_after_input ev)) (\<lambda>_.
       case request_end_error ev 1 rv of
         Some rejection \<Rightarrow> async_finish str_of ev rv None (Some rejection)
       | None \<Rightarrow>
           xbind (submit str_of ev batch) (\<lambda>c. on_error (close_completion (ev_close ev) c) (async_finish str_of ev rv (Some c) None)))))))"

definition free_slot :: "('f execution_slot, unit) action" where
  "free_slot s = (Inr (), s\<lparr>xs_busy := False\<rparr>)"

definition execute ::
  "('f slot_env \<Rightarrow> 'f received_batch \<Rightarrow> 'f slot_tensors \<Rightarrow> ('f execution_slot, nat) action) \<Rightarrow> (exn \<Rightarrow> string) \<Rightarrow>
   'f slot_env \<Rightarrow> 'f received_batch \<Rightarrow> ('f execution_slot, nat) action" where
  "execute impl str_of ev rv =
     xbind claim (\<lambda>_. on_error free_slot
       (case request_end_error ev 0 rv of
          Some rejection \<Rightarrow> (\<lambda>s. set_result None (Some rejection) None (release_input s))
        | None \<Rightarrow>
            map_error (execute_error str_of)
              (xbind (valid_views (wb_token_count (rv_batch rv))) (\<lambda>views. impl ev rv views))))"

section \<open>Reasoning about actions\<close>

definition wp :: "('s, 'a) action \<Rightarrow> ('a \<Rightarrow> 's \<Rightarrow> bool) \<Rightarrow> (exn \<Rightarrow> 's \<Rightarrow> bool) \<Rightarrow> 's \<Rightarrow> bool" where
  "wp m Q E s = (case m s of (Inl e, s') \<Rightarrow> E e s' | (Inr x, s') \<Rightarrow> Q x s')"

named_theorems action_rules

lemma wp_basic [action_rules]:
  "wp (xreturn x) Q E s = Q x s"
  "wp (xraise e) Q E s = E e s"
  "wp (xbind m' f) R E s = wp m' (\<lambda>x. wp (f x) R E) E s"
  "wp (on_error g m) Q E s = wp m Q (\<lambda>e. wp g (\<lambda>_. E e) E) s"
  "wp (map_error h m) Q E s = wp m Q (\<lambda>e. E (h e)) s"
  by (auto simp: wp_def xreturn_def xraise_def xbind_def on_error_def map_error_def split: prod.splits sum.splits)

lemma wp_attempt [action_rules]: "wp (attempt failure) Q E s \<longleftrightarrow> (case failure of None \<Rightarrow> Q () s | Some e \<Rightarrow> E e s)"
  by (simp add: attempt_def action_rules split: option.split)

lemma wp_timed [action_rules]: "(\<And>x. Q x s) \<Longrightarrow> (\<And>e. E e s) \<Longrightarrow> wp (timed ev failure) Q E s"
  by (simp add: timed_def action_rules split: option.split)

lemma wp_mono: "wp m Q E s \<Longrightarrow> (\<And>x s'. Q x s' \<Longrightarrow> Q' x s') \<Longrightarrow> (\<And>e s'. E e s' \<Longrightarrow> E' e s') \<Longrightarrow> wp m Q' E' s"
  by (auto simp: wp_def split: prod.splits sum.splits)

section \<open>The state of a slot\<close>

definition slot_tensors_ok :: "batch_buffer_config \<Rightarrow> 'f slot_tensors \<Rightarrow> bool" where
  "slot_tensors_ok spec ts \<longleftrightarrow>
     (let n = nat (bf_max_batch_tokens spec); h = nat (bf_hidden_dim spec); k = nat (bf_top_k spec); dev = bf_device_type spec in
      t_shape (st_hidden_states ts) = [n, h] \<and> t_dtype (st_hidden_states ts) = bf_dtype spec \<and> t_device (st_hidden_states ts) = dev \<and>
      t_shape (st_expert_ids ts) = [n, k] \<and> t_dtype (st_expert_ids ts) = Int32 \<and> t_device (st_expert_ids ts) = dev \<and>
      t_shape (st_routing_weights ts) = [n, k] \<and> t_dtype (st_routing_weights ts) = Float32 \<and> t_device (st_routing_weights ts) = dev \<and>
      t_shape (st_output ts) = [n, h] \<and> t_dtype (st_output ts) = bf_dtype spec \<and> t_device (st_output ts) = dev)"

definition storage_ok :: "'f execution_slot \<Rightarrow> bool" where
  "storage_ok s \<longleftrightarrow>
     (case xs_tensors s of None \<Rightarrow> xs_closed s | Some ts \<Rightarrow> \<not> xs_closed s \<and> xs_resources s \<and> slot_tensors_ok (xs_spec s) ts)"

definition one_answer :: "'f execution_result \<Rightarrow> bool" where
  "one_answer r \<longleftrightarrow> (xr_output r = None) = (xr_rejection r \<noteq> None)"

definition slot_inv :: "'f execution_slot \<Rightarrow> bool" where
  "slot_inv s \<longleftrightarrow> storage_ok s \<and> list_all one_answer (xs_results s) \<and>
     (case xs_result s of
        None \<Rightarrow> \<not> xs_busy s \<and> list_all xr_released (xs_results s) \<and> xs_open s = []
      | Some i \<Rightarrow> xs_busy s \<and> \<not> xs_closed s \<and> Suc i = length (xs_results s) \<and> list_all xr_released (take i (xs_results s)) \<and>
          \<not> xr_released (xs_results s ! i) \<and>
          xs_open s = (case xr_completion (xs_results s ! i) of None \<Rightarrow> [] | Some c \<Rightarrow> [c]))"

text \<open>Inside a call of \<open>execute\<close>: the slot is claimed, no result exists, and the completions \<open>cs\<close> are open.\<close>

definition claimed :: "nat list \<Rightarrow> 'f execution_slot \<Rightarrow> 'f execution_slot \<Rightarrow> bool" where
  "claimed cs s0 s \<longleftrightarrow> storage_ok s \<and> \<not> xs_closed s \<and> xs_busy s \<and> xs_result s = None \<and> xs_open s = cs \<and>
     xs_results s = xs_results s0 \<and> xs_spec s = xs_spec s0 \<and> list_all one_answer (xs_results s) \<and> list_all xr_released (xs_results s)"

text \<open>A result was made: it is the current one and the slot stays claimed.\<close>

definition answered :: "'f execution_slot \<Rightarrow> nat \<Rightarrow> 'f execution_slot \<Rightarrow> bool" where
  "answered s0 i s \<longleftrightarrow> slot_inv s \<and> xs_result s = Some i \<and> i = length (xs_results s0) \<and> xs_spec s = xs_spec s0"

lemma claimedD:
  assumes "claimed cs s0 s"
  obtains ts where "xs_tensors s = Some ts" "slot_tensors_ok (xs_spec s) ts" "xs_resources s"
  using assms by (auto simp: claimed_def storage_ok_def split: option.splits)

lemma slot_tensors_ok_store [simp]:
  "slot_tensors_ok spec (store_input rows ts) = slot_tensors_ok spec ts"
  "slot_tensors_ok spec (ts\<lparr>st_output := write_rows out (st_output ts)\<rparr>) = slot_tensors_ok spec ts"
  by (auto simp: slot_tensors_ok_def store_input_def write_rows_def Let_def split: prod.split)

lemma wp_set_result:
  assumes "claimed (case c of None \<Rightarrow> [] | Some x \<Rightarrow> [x]) s0 s" and "(output = None) = (rejection \<noteq> None)"
  shows "wp (set_result output rejection c) (answered s0) E s"
  using assms by (auto simp: wp_def set_result_def answered_def claimed_def slot_inv_def storage_ok_def one_answer_def split: option.splits)

lemma claimed_release_input [simp]: "claimed cs s0 (release_input s) = claimed cs s0 s"
  by (simp add: claimed_def release_input_def storage_ok_def split: option.split)

lemma claimed_close [simp]:
  assumes "claimed [c] s0 s"
  shows "wp (close_completion failure c) (\<lambda>_. claimed [] s0) (\<lambda>_. claimed [] s0) s"
proof -
  have "claimed [] s0 (s\<lparr>xs_open := removeAll c (xs_open s)\<rparr>)"
    using assms by (auto simp: claimed_def storage_ok_def split: option.splits)
  then show ?thesis by (simp add: wp_def close_completion_def attempt_def xraise_def xreturn_def split: option.split)
qed

lemma claimed_store:
  assumes "claimed cs s0 s"
  shows "claimed cs s0 (s\<lparr>xs_tensors := map_option (store_input rows) (xs_tensors s)\<rparr>)"
  using assms by (auto simp: claimed_def storage_ok_def split: option.splits)

lemma wp_copy_and_build_batch:
  assumes "claimed [] s0 s"
  shows "wp (copy_and_build_batch ev rv views) (\<lambda>_. claimed [] s0) (\<lambda>_. claimed [] s0) s"
  using assms claimed_store [OF assms]
  by (simp add: wp_def copy_and_build_batch_def Let_def split: sum.split option.split)

lemma wp_submit:
  assumes "claimed [] s0 s"
  shows "wp (submit str_of ev batch) (\<lambda>c. claimed [c] s0) (\<lambda>_. claimed [] s0) s"
  using assms by (auto simp: wp_def submit_def claimed_def storage_ok_def split: sum.split option.splits)

lemma wp_wait_completion: "(\<And>x. Q x s) \<Longrightarrow> (\<And>e. E e s) \<Longrightarrow> wp (wait_completion str_of ev) Q E s"
  by (simp add: wait_completion_def action_rules split: option.split)

lemma wp_copy_output:
  assumes "claimed cs s0 s" and "\<And>out. Q out s" and "\<And>e. E e s"
  shows "wp (copy_output ev n) Q E s"
proof -
  obtain ts where "xs_tensors s = Some ts" by (rule claimedD [OF assms(1)])
  then show ?thesis using assms(2,3)
    by (simp add: copy_output_def wp_def xbind_def require_tensors_def split: sum.split)
qed

text \<open>One step of symbolic execution per rule; what remains are the claims about the resulting states.\<close>

lemmas slot_rules = wp_set_result wp_timed wp_wait_completion wp_copy_output

lemma wp_calls:
  assumes "claimed [] s0 s" and "\<And>e s'. claimed [] s0 s' \<Longrightarrow> E e s'"
  shows "(\<And>x s'. claimed [] s0 s' \<Longrightarrow> Q x s') \<Longrightarrow> wp (copy_and_build_batch ev rv views) Q E s"
    and "(\<And>c s'. claimed [c] s0 s' \<Longrightarrow> R c s') \<Longrightarrow> wp (submit str_of ev batch) R E s"
  by (rule wp_mono [OF wp_copy_and_build_batch [OF assms(1)]]; simp add: assms(2))
    (rule wp_mono [OF wp_submit [OF assms(1)]]; simp add: assms(2))

lemma wp_cpu_execute_impl:
  assumes "claimed [] s0 s"
  shows "wp (cpu_execute_impl str_of ev rv views) (answered s0) (\<lambda>_. claimed [] s0) s"
  unfolding cpu_execute_impl_def wp_basic
  apply (rule wp_calls(1) [OF assms], assumption)
  apply (cases "request_end_error ev 1 rv")
   apply (simp add: wp_basic)
   apply (rule wp_calls(2), assumption, assumption)
   apply (auto split: option.split simp: wp_basic intro!: slot_rules)
  done

lemma wp_async_finish:
  assumes "claimed (case c of None \<Rightarrow> [] | Some x \<Rightarrow> [x]) s0 s" and "(rejected = None) = (c \<noteq> None)"
  shows "wp (async_finish str_of ev rv c rejected) (answered s0) (\<lambda>_. claimed (case c of None \<Rightarrow> [] | Some x \<Rightarrow> [x]) s0) s"
  using assms unfolding async_finish_def
  by (cases c) (auto split: option.splits simp: wp_basic wp_attempt intro!: slot_rules)

lemma wp_async_execute_impl:
  assumes "claimed [] s0 s"
  shows "wp (async_execute_impl str_of ev rv views) (answered s0) (\<lambda>_. claimed [] s0) s"
proof -
  have r: "wp require_async_resources (\<lambda>_. claimed [] s0) (\<lambda>_. claimed [] s0) s"
    using assms by (simp add: wp_def require_async_resources_def)
  have finish: "wp (async_finish str_of ev rv c rejected) (answered s0)
      (\<lambda>_. case c of None \<Rightarrow> claimed [] s0 | Some x \<Rightarrow> wp (close_completion (ev_close ev) x) (\<lambda>_. claimed [] s0) (\<lambda>_. claimed [] s0)) s'"
    if "claimed (case c of None \<Rightarrow> [] | Some x \<Rightarrow> [x]) s0 s'" "(rejected = None) = (c \<noteq> None)" for c rejected s'
    by (rule wp_mono [OF wp_async_finish [OF that]]) (auto split: option.splits)
  show ?thesis
    unfolding async_execute_impl_def wp_basic
    apply (rule wp_mono [OF r])
     apply (auto simp: wp_attempt split: option.split intro!: wp_timed)
    apply (rule wp_calls(1), assumption, assumption, rule wp_timed)
     apply (cases "request_end_error ev 1 rv")
      apply (simp add: wp_basic)
      apply (rule wp_calls(2), assumption, assumption)
      apply (use finish [of None] finish [of "Some c" for c] in \<open>auto simp: wp_basic\<close>)
    done
qed

section \<open>Every call of \<open>execute\<close>\<close>

definition served_error :: "exn \<Rightarrow> bool" where
  "served_error e \<longleftrightarrow> is_request_error e \<or> is_fatal_error e \<or> e = CancelledError"

lemma execute_error_served: "served_error (execute_error str_of e)"
  by (cases e) (auto simp: served_error_def execute_error_def device_error_def is_exception_def)

lemma claim_claimed:
  assumes "slot_inv s" and "\<not> xs_closed s" and "\<not> xs_busy s"
  shows "claimed [] s (s\<lparr>xs_busy := True\<rparr>)"
  using assms by (auto simp: slot_inv_def claimed_def storage_ok_def split: option.splits)

lemma free_slot_inv: "claimed [] s0 s \<Longrightarrow> slot_inv (s\<lparr>xs_busy := False\<rparr>)"
  by (auto simp: claimed_def slot_inv_def storage_ok_def split: option.splits)

definition execute_outcome :: "'f execution_slot \<Rightarrow> (exn + nat) \<times> 'f execution_slot \<Rightarrow> bool" where
  "execute_outcome s out = (case out of
     (Inl e, s') \<Rightarrow>
       if xs_closed s then e = RuntimeError ''active computation slot is closed'' \<and> s' = s
       else if xs_busy s then e = RuntimeError ''active computation slot is already in use'' \<and> s' = s
       else served_error e \<and> slot_inv s' \<and> \<not> xs_busy s' \<and> \<not> xs_closed s' \<and> xs_open s' = [] \<and> xs_results s' = xs_results s \<and> xs_spec s' = xs_spec s
   | (Inr i, s') \<Rightarrow> \<not> xs_closed s \<and> \<not> xs_busy s \<and> answered s i s')"

text \<open>The contract of the abstract method \<open>_execute_impl\<close>, which both kinds of slot implement.\<close>

locale slot_implementation =
  fixes impl :: "'f slot_env \<Rightarrow> 'f received_batch \<Rightarrow> 'f slot_tensors \<Rightarrow> ('f execution_slot, nat) action"
  assumes impl_claimed: "claimed [] s0 s \<Longrightarrow> wp (impl ev rv views) (answered s0) (\<lambda>_. claimed [] s0) s"
begin

lemma execute_outcomes:
  assumes "slot_inv s"
  shows "execute_outcome s (execute impl str_of ev rv s)"
proof (cases "xs_closed s \<or> xs_busy s")
  case True
  then show ?thesis by (auto simp: execute_outcome_def execute_def xbind_def claim_def)
next
  case False
  then have c: "claimed [] s (s\<lparr>xs_busy := True\<rparr>)" using claim_claimed [OF assms] by simp
  have views: "wp (valid_views n) (\<lambda>_. claimed [] s) (\<lambda>_. claimed [] s) s'" if "claimed [] s s'" for n s'
    using that by (auto simp: wp_def valid_views_def xbind_def require_tensors_def xreturn_def split: option.split)
  have body: "wp (case request_end_error ev 0 rv of
          Some rejection \<Rightarrow> (\<lambda>s. set_result None (Some rejection) None (release_input s))
        | None \<Rightarrow> map_error (execute_error str_of) (xbind (valid_views (wb_token_count (rv_batch rv))) (\<lambda>views. impl ev rv views)))
      (answered s) (\<lambda>e s'. served_error e \<and> claimed [] s s') (s\<lparr>xs_busy := True\<rparr>)"
  proof (cases "request_end_error ev 0 rv")
    case None
    then show ?thesis
      by (auto simp: wp_basic execute_error_served intro!: wp_mono [OF views [OF c]] intro: wp_mono [OF impl_claimed])
  next
    case (Some rejection)
    have "wp (set_result None (Some rejection) None) (answered s) (\<lambda>e s'. served_error e \<and> claimed [] s s') (release_input (s\<lparr>xs_busy := True\<rparr>))"
      by (rule wp_set_result) (simp_all add: c)
    then show ?thesis using Some by (simp add: wp_def)
  qed
  have "wp (execute impl str_of ev rv) (answered s)
      (\<lambda>e s'. served_error e \<and> slot_inv s' \<and> \<not> xs_busy s' \<and> \<not> xs_closed s' \<and> xs_open s' = [] \<and> xs_results s' = xs_results s \<and> xs_spec s' = xs_spec s) s"
    unfolding execute_def wp_basic
    using False by (auto simp: wp_def [of claim] wp_def [of free_slot] free_slot_def claim_def free_slot_inv intro!: wp_mono [OF body])
      (auto simp: claimed_def)
  then show ?thesis using False by (auto simp: wp_def execute_outcome_def split: prod.splits sum.splits)
qed

end

interpretation cpu: slot_implementation "cpu_execute_impl str_of" for str_of
  by unfold_locales (rule wp_cpu_execute_impl)

interpretation async: slot_implementation "async_execute_impl str_of" for str_of
  by unfold_locales (rule wp_async_execute_impl)

section \<open>Sequences of operations\<close>

datatype slot_kind = Cpu_Slot | Async_Slot

fun execute_impl :: "slot_kind \<Rightarrow> (exn \<Rightarrow> string) \<Rightarrow> 'f slot_env \<Rightarrow> 'f received_batch \<Rightarrow> 'f slot_tensors \<Rightarrow> ('f execution_slot, nat) action" where
  "execute_impl Cpu_Slot = cpu_execute_impl"
| "execute_impl Async_Slot = async_execute_impl"

fun close_impl :: "slot_kind \<Rightarrow> ('f execution_slot, unit) action" where
  "close_impl Cpu_Slot = slot_close"
| "close_impl Async_Slot = async_slot_close"

lemma execute_impl_outcomes: "slot_inv s \<Longrightarrow> execute_outcome s (execute (execute_impl kind str_of) str_of ev rv s)"
  by (cases kind) (simp_all add: cpu.execute_outcomes async.execute_outcomes)

definition slot_start :: "'f execution_slot \<Rightarrow> bool" where
  "slot_start s \<longleftrightarrow> (\<exists>f0 i0 spec dev. batch_buffer_config_post_init spec = None \<and> new_slot f0 i0 spec dev = Inr s)"

inductive slot_step :: "slot_kind \<Rightarrow> (exn \<Rightarrow> string) \<Rightarrow> 'f execution_slot \<Rightarrow> 'f execution_slot \<Rightarrow> bool" for kind str_of where
  "slot_step kind str_of s (snd (execute (execute_impl kind str_of) str_of ev rv s))"
| "i < length (xs_results s) \<Longrightarrow> slot_step kind str_of s (snd (result_release failure i s))"
| "slot_step kind str_of s (snd (close_impl kind s))"

text \<open>What releasing a result raises: only what closing its completion, if it has one, raises.\<close>

definition release_outcome :: "exn option \<Rightarrow> 'f execution_result \<Rightarrow> exn + unit" where
  "release_outcome failure r =
     (if xr_completion r = None then Inr () else case failure of None \<Rightarrow> Inr () | Some e \<Rightarrow> Inl e)"

lemma result_release_current:
  assumes "slot_inv s" and "xs_result s = Some i"
  shows "\<exists>s'. result_release failure i s = (release_outcome failure (xs_results s ! i), s') \<and>
    slot_inv s' \<and> \<not> xs_busy s' \<and> \<not> xs_closed s' \<and> xs_open s' = [] \<and> xs_spec s' = xs_spec s \<and> xs_result s' = None \<and>
    xr_released (xs_results s' ! i) \<and> length (xs_results s') = length (xs_results s)"
proof -
  have i: "Suc i = length (xs_results s)" "\<not> xr_released (xs_results s ! i)" "list_all xr_released (take i (xs_results s))"
    "xs_open s = (case xr_completion (xs_results s ! i) of None \<Rightarrow> [] | Some c \<Rightarrow> [c])" "\<not> xs_closed s"
    using assms by (auto simp: slot_inv_def)
  have rs: "(xs_results s)[i := r] = take i (xs_results s) @ [r]" for r
    using i(1) by (metis drop_all lessI order_refl upd_conv_take_nth_drop)
  have ans: "list_all one_answer (take i (xs_results s))" "one_answer (xs_results s ! i)"
    using assms(1) i(1) by (auto simp: slot_inv_def list_all_iff dest: in_set_takeD)
  let ?r = "(xs_results s ! i)\<lparr>xr_released := True\<rparr>"
  let ?s = "s\<lparr>xs_results := take i (xs_results s) @ [?r], xs_open := [], xs_result := None, xs_busy := False\<rparr>"
  have "result_release failure i s = (release_outcome failure (xs_results s ! i), ?s)"
    using i assms(2) by (simp add: result_release_def Let_def rs release_result_def close_completion_def attempt_def xraise_def xreturn_def
        release_outcome_def split: option.split)
  moreover have "slot_inv ?s"
    using assms(1) i ans by (auto simp: slot_inv_def storage_ok_def one_answer_def split: option.splits)
  moreover have "xr_released (xs_results ?s ! i)" "length (xs_results ?s) = length (xs_results s)"
    using i(1) by (simp_all add: nth_append)
  ultimately show ?thesis using i(5) by (intro exI [where x = ?s]) auto
qed

lemma released_other: "slot_inv s \<Longrightarrow> i < length (xs_results s) \<Longrightarrow> xr_released (xs_results s ! i) \<longleftrightarrow> xs_result s \<noteq> Some i"
proof (cases "xs_result s")
  case (Some j)
  assume s: "slot_inv s" "i < length (xs_results s)"
  then have j: "Suc j = length (xs_results s)" "\<not> xr_released (xs_results s ! j)" "list_all xr_released (take j (xs_results s))"
    using Some by (auto simp: slot_inv_def)
  have "xr_released (xs_results s ! i)" if "i \<noteq> j"
    using that j(1,3) s(2) by (auto simp: list_all_length)
  then show ?thesis using Some j(2) by auto
qed (auto simp: slot_inv_def list_all_length)

lemma release_inv:
  assumes "slot_inv s" and "i < length (xs_results s)"
  shows "slot_inv (snd (result_release failure i s))"
proof (cases "xs_result s = Some i")
  case True
  then show ?thesis using result_release_current [OF assms(1), of i failure] by auto
next
  case False
  then show ?thesis using released_other [OF assms] assms(1) by (simp add: result_release_def Let_def)
qed

lemma close_inv: "slot_inv s \<Longrightarrow> slot_inv (snd (close_impl kind s))"
  by (cases kind) (auto simp: slot_close_def async_slot_close_def xbind_def slot_inv_def storage_ok_def split: option.splits)

lemma start_inv: "slot_start s \<Longrightarrow> slot_inv s"
  by (auto simp: slot_start_def new_slot_def Let_def slot_inv_def storage_ok_def slot_tensors_ok_def torch_empty_def split: if_splits)

lemma execute_inv: "slot_inv s \<Longrightarrow> slot_inv (snd (execute (execute_impl kind str_of) str_of ev rv s))"
  using execute_impl_outcomes [of s kind str_of ev rv]
  by (auto simp: execute_outcome_def answered_def split: prod.splits sum.splits if_splits)

interpretation slot: invariant_system slot_start "slot_step kind str_of" slot_inv for kind str_of
  by unfold_locales (auto simp: start_inv elim!: slot_step.cases intro: execute_inv release_inv close_inv)

lemma spec_valid:
  "reachable slot_start (slot_step kind str_of) s \<Longrightarrow> batch_buffer_config_post_init (xs_spec s) = None"
proof (induction rule: reachable.induct)
  case (reach_init s)
  then show ?case by (auto simp: slot_start_def new_slot_def Let_def split: if_splits)
next
  case (reach_step s t)
  have inv: "slot_inv s" by (rule slot.reachable_inv [OF reach_step.hyps(1)])
  have "xs_spec t = xs_spec s" using reach_step.hyps(2)
  proof cases
    case (1 ev rv)
    then show ?thesis using execute_impl_outcomes [OF inv, of kind str_of ev rv]
      by (auto simp: execute_outcome_def answered_def split: prod.splits sum.splits if_splits)
  next
    case (2 i failure)
    then show ?thesis
      by (simp add: result_release_def release_result_def close_completion_def attempt_def xraise_def xreturn_def Let_def split: option.split)
  next
    case 3
    then show ?thesis by (cases kind) (simp_all add: slot_close_def async_slot_close_def xbind_def)
  qed
  then show ?case using reach_step.IH by simp
qed

section \<open>A computation without failures\<close>

text \<open>The batch the backend is given: views of the fixed storage that hold the rows the Transport copied.\<close>

definition slot_batch ::
  "batch_buffer_config \<Rightarrow> 'f worker_batch \<Rightarrow> 'f matrix \<Rightarrow> int matrix \<Rightarrow> 'f matrix \<Rightarrow> 'f backend_batch" where
  "slot_batch spec b h e w =
     \<lparr>bb_layer_id = wb_layer_id b,
      bb_hidden_states = mk_matrix (bf_dtype spec) (bf_device_type spec) (nat (bf_hidden_dim spec)) h,
      bb_expert_ids = mk_matrix Int32 (bf_device_type spec) (nat (bf_top_k spec)) e,
      bb_routing_weights = mk_matrix Float32 (bf_device_type spec) (nat (bf_top_k spec)) w,
      bb_distinct_expert_ids = wb_distinct_expert_ids b,
      bb_hidden_contiguous = True, bb_ids_contiguous = True, bb_weights_contiguous = True\<rparr>"

definition slot_output :: "batch_buffer_config \<Rightarrow> 'f matrix \<Rightarrow> 'f matrix tensor" where
  "slot_output spec rows = mk_matrix (bf_dtype spec) (bf_device_type spec) (nat (bf_hidden_dim spec)) rows"

definition on_time :: "'f slot_env \<Rightarrow> 'f received_batch \<Rightarrow> bool" where
  "on_time ev rv \<longleftrightarrow> (\<forall>k. \<not> ev_cancelled ev k \<and> ev_clock ev k < rv_deadline rv)"

definition device_healthy :: "'f slot_env \<Rightarrow> bool" where
  "device_healthy ev \<longleftrightarrow> ev_wait ev = None \<and> ev_context ev = None \<and> ev_start_event ev = None \<and> ev_after_input ev = None \<and>
     ev_after_backend ev = None \<and> ev_after_output ev = None \<and> ev_end_event ev = None \<and> ev_synchronize ev = None \<and> ev_timings ev = None"

lemma worker_batch_tokens: "worker_batch_post_init b = None \<Longrightarrow> 0 < wb_token_count b"
  by (auto simp: worker_batch_post_init_iff wb_token_count_def routing_meta_ok_def split: option.splits)

lemma slot_batch_accepted:
  assumes "batch_buffer_config_post_init spec = None" and "worker_batch_post_init b = None"
    and "length h = wb_token_count b" "length e = wb_token_count b" "length w = wb_token_count b"
  shows "backend_batch_post_init (slot_batch spec b h e w) = None"
  using assms worker_batch_tokens [OF assms(2)]
  by (auto simp: backend_batch_post_init_def slot_batch_def bb_token_count_def batch_buffer_config_post_init_def limit_checks
      ACTIVATION_DTYPES_def worker_batch_post_init_iff validate_distinct_expert_ids_iff simp flip: length_0_conv)

lemma written_view:
  assumes "t_shape t = [m, k]" and "length rows = n" and "n \<le> m"
  shows "write_rows rows (first_rows n t) = mk_matrix (t_dtype t) (t_device t) k rows"
    and "first_rows n (write_rows rows t) = mk_matrix (t_dtype t) (t_device t) k rows"
  using assms by (simp_all add: write_rows_def first_rows_def mk_matrix_def)

lemma copy_and_build_batch_ok:
  assumes "slot_tensors_ok spec ts" and "batch_buffer_config_post_init spec = None" and "worker_batch_post_init (rv_batch rv) = None"
    and "int (wb_token_count (rv_batch rv)) \<le> bf_max_batch_tokens spec"
    and "ev_copy_input ev (rv_batch rv) = Inr (h, e, w)"
    and "length h = wb_token_count (rv_batch rv)" "length e = wb_token_count (rv_batch rv)" "length w = wb_token_count (rv_batch rv)"
  shows "copy_and_build_batch ev rv (slot_valid_views (wb_token_count (rv_batch rv)) ts) s =
    (Inr (slot_batch spec (rv_batch rv) h e w),
     release_input (s\<lparr>xs_tensors := map_option (store_input (h, e, w)) (xs_tensors s)\<rparr>))"
proof -
  let ?n = "wb_token_count (rv_batch rv)"
  have "?n \<le> nat (bf_max_batch_tokens spec)" using assms(4) by simp
  then have views: "write_rows h (first_rows ?n (st_hidden_states ts)) = bb_hidden_states (slot_batch spec (rv_batch rv) h e w)"
    "write_rows e (first_rows ?n (st_expert_ids ts)) = bb_expert_ids (slot_batch spec (rv_batch rv) h e w)"
    "write_rows w (first_rows ?n (st_routing_weights ts)) = bb_routing_weights (slot_batch spec (rv_batch rv) h e w)"
    using assms(1,6,7,8) by (auto simp: slot_tensors_ok_def Let_def slot_batch_def intro!: written_view(1) [THEN trans])
  have "slot_batch spec (rv_batch rv) h e w =
      \<lparr>bb_layer_id = wb_layer_id (rv_batch rv), bb_hidden_states = bb_hidden_states (slot_batch spec (rv_batch rv) h e w),
       bb_expert_ids = bb_expert_ids (slot_batch spec (rv_batch rv) h e w), bb_routing_weights = bb_routing_weights (slot_batch spec (rv_batch rv) h e w),
       bb_distinct_expert_ids = wb_distinct_expert_ids (rv_batch rv), bb_hidden_contiguous = True, bb_ids_contiguous = True, bb_weights_contiguous = True\<rparr>"
    by (simp add: slot_batch_def)
  then show ?thesis
    using slot_batch_accepted [OF assms(2,3,6,7,8)] assms(5) views
    by (simp add: copy_and_build_batch_def Let_def store_input_def slot_valid_views_def)
qed

lemma on_time_end [simp]: "on_time ev rv \<Longrightarrow> request_end_error ev k rv = None"
  by (auto simp: on_time_def request_end_error_def not_le)

lemma stored_output:
  assumes "slot_tensors_ok spec ts" and "int n \<le> bf_max_batch_tokens spec" and "length out = n"
  shows "first_rows n (write_rows out (st_output (store_input rows ts))) = slot_output spec out"
  using assms by (cases rows) (auto simp: slot_tensors_ok_def Let_def slot_output_def store_input_def intro!: written_view(2) [THEN trans])

lemma impl_computes:
  assumes "slot_tensors_ok (xs_spec s) ts" and "xs_tensors s = Some ts" and "xs_resources s"
    and "batch_buffer_config_post_init (xs_spec s) = None" and "worker_batch_post_init (rv_batch rv) = None"
    and "int (wb_token_count (rv_batch rv)) \<le> bf_max_batch_tokens (xs_spec s)"
    and "on_time ev rv" and "device_healthy ev"
    and "ev_copy_input ev (rv_batch rv) = Inr (h, e, w)"
    and "length h = wb_token_count (rv_batch rv)" "length e = wb_token_count (rv_batch rv)" "length w = wb_token_count (rv_batch rv)"
    and "ev_submit ev (slot_batch (xs_spec s) (rv_batch rv) h e w) = Inr out" and "length out = wb_token_count (rv_batch rv)"
    and "ev_copy_output ev (slot_output (xs_spec s) out) = Inr t"
  shows "\<exists>s'. execute_impl kind str_of ev rv (slot_valid_views (wb_token_count (rv_batch rv)) ts) s = (Inr (length (xs_results s)), s') \<and>
    xs_results s' = xs_results s @ [\<lparr>xr_output = Some t, xr_rejection = None, xr_completion = Some (xs_submitted s), xr_released = False\<rparr>] \<and>
    xs_inputs_released s' = xs_inputs_released s + 1"
proof -
  note copied = copy_and_build_batch_ok [OF assms(1,4,5,6,9,10,11,12)]
  note written = stored_output [OF assms(1,6,14)]
  have d: "ev_wait ev = None" "ev_context ev = None" "timed ev (ev_start_event ev) = xreturn ()" "timed ev (ev_after_input ev) = xreturn ()"
    "timed ev (ev_after_backend ev) = xreturn ()" "timed ev (ev_after_output ev) = xreturn ()" "timed ev (ev_timings ev) = xreturn ()"
    "ev_end_event ev = None" "ev_synchronize ev = None"
    using assms(8) by (auto simp: device_healthy_def timed_def attempt_def)
  note run = copied written assms(2,3,7,13,15) d xbind_def xreturn_def on_error_def map_error_def attempt_def submit_def wait_completion_def
    copy_output_def require_tensors_def set_result_def release_input_def
  show ?thesis
  proof (cases kind)
    case Cpu_Slot
    then show ?thesis by (simp add: cpu_execute_impl_def run)
  next
    case Async_Slot
    then show ?thesis by (simp add: async_execute_impl_def async_finish_def require_async_resources_def run)
  qed
qed

section \<open>An example\<close>

definition ex_slot_spec :: batch_buffer_config where
  "ex_slot_spec = \<lparr>bf_max_batch_tokens = 2, bf_hidden_dim = 1, bf_top_k = 1, bf_dtype = Float32, bf_device_type = ''cpu''\<rparr>"

definition ex_slot :: "int execution_slot" where
  "ex_slot = (case new_slot (\<lambda>_ _. 7) (\<lambda>_ _. 9) ex_slot_spec ''cpu'' of Inr s \<Rightarrow> s | Inl _ \<Rightarrow> undefined)"

definition ex_received :: "int received_batch" where
  "ex_received = \<lparr>rv_batch = \<lparr>wb_instance_id = 1, wb_layer_id = 0, wb_topology_version = 1, wb_hidden_states = mk_matrix Float32 ''cpu'' 1 [[5]],
     wb_token_indices = None, wb_expert_ids = mk_matrix Int32 ''cpu'' 1 [[3]], wb_routing_weights = mk_matrix Float32 ''cpu'' 1 [[1]],
     wb_distinct_expert_ids = [3]\<rparr>, rv_deadline = 10\<rparr>"

definition ex_slot_env :: "int slot_env" where
  "ex_slot_env = \<lparr>ev_cancelled = (\<lambda>_. False), ev_clock = (\<lambda>_. 0),
     ev_copy_input = (\<lambda>b. Inr (t_data (wb_hidden_states b), t_data (wb_expert_ids b), t_data (wb_routing_weights b))),
     ev_submit = (\<lambda>b. Inr (map (map (\<lambda>x. x + 1)) (t_data (bb_hidden_states b)))), ev_wait = None, ev_copy_output = Inr,
     ev_timing = False, ev_context = None, ev_start_event = None, ev_after_input = None, ev_after_backend = None, ev_after_output = None,
     ev_end_event = None, ev_synchronize = None, ev_timings = None, ev_close = None\<rparr>"

definition ex_str :: "exn \<Rightarrow> string" where
  "ex_str e = ''error''"

definition ex_used :: "int execution_slot" where
  "ex_used = snd (execute (execute_impl Async_Slot ex_str) ex_str ex_slot_env ex_received ex_slot)"

lemma ex_slot_start: "slot_start ex_slot"
proof -
  have "batch_buffer_config_post_init ex_slot_spec = None" by code_simp
  moreover have "new_slot (\<lambda>_ _. 7) (\<lambda>_ _. 9) ex_slot_spec ''cpu'' = Inr ex_slot"
    by (simp add: ex_slot_def new_slot_def Let_def ex_slot_spec_def)
  ultimately show ?thesis by (auto simp: slot_start_def)
qed

lemmas ex_slot_reachable = reach_init [where init = slot_start, OF ex_slot_start]

lemma ex_used_reachable: "reachable slot_start (slot_step Async_Slot ex_str) ex_used"
  unfolding ex_used_def by (rule reach_step [OF ex_slot_reachable [of "slot_step Async_Slot ex_str"] slot_step.intros(1)])

section \<open>Properties\<close>

text \<open>
  C38. The fixed storage of a slot keeps its type. After any operations the Tensors of an open slot have the
  configured shapes, element types and device and so take the same device bytes, a closed slot has no
  Tensors, and every result that was made carries exactly one of an output and a rejection.
\<close>

theorem slot_storage_typed:
  assumes "reachable slot_start (slot_step kind str_of) s"
  shows "(case xs_tensors s of
      None \<Rightarrow> xs_closed s
    | Some ts \<Rightarrow> \<not> xs_closed s \<and> slot_tensors_ok (xs_spec s) ts \<and>
        slot_device_bytes ts = bf_max_batch_tokens (xs_spec s) *
          (2 * bf_hidden_dim (xs_spec s) * element_size (bf_dtype (xs_spec s)) + 8 * bf_top_k (xs_spec s))) \<and>
    (\<forall>r\<in>set (xs_results s). (xr_output r = None) = (xr_rejection r \<noteq> None))"
proof -
  have inv: "slot_inv s" by (rule slot.reachable_inv [OF assms])
  have "0 < bf_max_batch_tokens (xs_spec s)" "0 < bf_hidden_dim (xs_spec s)" "0 < bf_top_k (xs_spec s)"
    using spec_valid [OF assms] by (auto simp: batch_buffer_config_post_init_def limit_checks)
  then have "slot_device_bytes ts = bf_max_batch_tokens (xs_spec s) *
      (2 * bf_hidden_dim (xs_spec s) * element_size (bf_dtype (xs_spec s)) + 8 * bf_top_k (xs_spec s))"
    if "slot_tensors_ok (xs_spec s) ts" for ts :: "'a slot_tensors"
    using that by (simp add: slot_device_bytes_def tensor_bytes_def slot_tensors_ok_def Let_def algebra_simps)
  then show ?thesis
    using inv by (auto simp: slot_inv_def storage_ok_def list_all_iff one_answer_def split: option.splits)
qed

theorem slot_storage_typed_witness:
  "(\<exists>ts. xs_tensors ex_used = Some ts \<and> slot_device_bytes ts = 32) \<and> xs_results ex_used \<noteq> []"
proof -
  have "xs_tensors ex_used \<noteq> None" "xs_spec ex_used = ex_slot_spec" "xs_results ex_used \<noteq> []" by code_simp+
  moreover have "bf_max_batch_tokens ex_slot_spec * (2 * bf_hidden_dim ex_slot_spec * element_size (bf_dtype ex_slot_spec) + 8 * bf_top_k ex_slot_spec) = 32"
    by code_simp
  ultimately show ?thesis using slot_storage_typed [OF ex_used_reachable] by auto
qed

text \<open>
  C36. A slot belongs to one computation at a time. After any operations it is busy exactly while its newest
  result is not released, and only the completion of that result is open. A call on a closed or busy slot
  raises and changes nothing. Any other call either returns the new current result, or raises a request
  error, a fatal backend error or a cancellation and leaves the slot free with every completion closed,
  whatever the Transport, the backend, the device or the closing of the completion raised. Releasing the
  current result frees the slot and closes its completion whether or not that closing raises; it raises exactly
  what the closing raised, and releasing the result again does nothing.
\<close>

theorem slot_ownership:
  assumes "reachable slot_start (slot_step kind str_of) s"
  shows "(xs_busy s \<longleftrightarrow> xs_result s \<noteq> None) \<and>
    (\<forall>i<length (xs_results s). \<not> xr_released (xs_results s ! i) \<longleftrightarrow> xs_result s = Some i) \<and>
    xs_open s = (case xs_result s of None \<Rightarrow> [] | Some i \<Rightarrow> (case xr_completion (xs_results s ! i) of None \<Rightarrow> [] | Some c \<Rightarrow> [c])) \<and>
    (case execute (execute_impl kind str_of) str_of ev rv s of
       (Inl e, s') \<Rightarrow>
         if xs_closed s then e = RuntimeError ''active computation slot is closed'' \<and> s' = s
         else if xs_busy s then e = RuntimeError ''active computation slot is already in use'' \<and> s' = s
         else (is_request_error e \<or> is_fatal_error e \<or> e = CancelledError) \<and> \<not> xs_busy s' \<and> xs_open s' = [] \<and>
           xs_results s' = xs_results s
     | (Inr i, s') \<Rightarrow> \<not> xs_closed s \<and> \<not> xs_busy s \<and> xs_result s' = Some i \<and> i = length (xs_results s)) \<and>
    (\<forall>i failure. xs_result s = Some i \<longrightarrow>
       (\<exists>s'. result_release failure i s =
            (if xr_completion (xs_results s ! i) = None then Inr () else case failure of None \<Rightarrow> Inr () | Some e \<Rightarrow> Inl e, s') \<and>
          \<not> xs_busy s' \<and> xs_result s' = None \<and> xs_open s' = [] \<and>
          (\<forall>failure'. result_release failure' i s' = (Inr (), s'))))"
proof (intro conjI)
  have inv: "slot_inv s" by (rule slot.reachable_inv [OF assms])
  show "xs_busy s \<longleftrightarrow> xs_result s \<noteq> None" using inv by (auto simp: slot_inv_def split: option.splits)
  show "\<forall>i<length (xs_results s). \<not> xr_released (xs_results s ! i) \<longleftrightarrow> xs_result s = Some i"
    using released_other [OF inv] by blast
  show "xs_open s = (case xs_result s of None \<Rightarrow> [] | Some i \<Rightarrow> (case xr_completion (xs_results s ! i) of None \<Rightarrow> [] | Some c \<Rightarrow> [c]))"
    using inv by (auto simp: slot_inv_def split: option.splits)
  show "case execute (execute_impl kind str_of) str_of ev rv s of
       (Inl e, s') \<Rightarrow>
         if xs_closed s then e = RuntimeError ''active computation slot is closed'' \<and> s' = s
         else if xs_busy s then e = RuntimeError ''active computation slot is already in use'' \<and> s' = s
         else (is_request_error e \<or> is_fatal_error e \<or> e = CancelledError) \<and> \<not> xs_busy s' \<and> xs_open s' = [] \<and>
           xs_results s' = xs_results s
     | (Inr i, s') \<Rightarrow> \<not> xs_closed s \<and> \<not> xs_busy s \<and> xs_result s' = Some i \<and> i = length (xs_results s)"
    using execute_impl_outcomes [OF inv, of kind str_of ev rv]
    by (auto simp: execute_outcome_def answered_def served_error_def split: prod.splits sum.splits)
  show "\<forall>i failure. xs_result s = Some i \<longrightarrow>
       (\<exists>s'. result_release failure i s =
            (if xr_completion (xs_results s ! i) = None then Inr () else case failure of None \<Rightarrow> Inr () | Some e \<Rightarrow> Inl e, s') \<and>
          \<not> xs_busy s' \<and> xs_result s' = None \<and> xs_open s' = [] \<and>
          (\<forall>failure'. result_release failure' i s' = (Inr (), s')))"
  proof (intro allI impI)
    fix i failure assume "xs_result s = Some i"
    from result_release_current [OF inv this, of failure] obtain s' where
      s': "result_release failure i s = (release_outcome failure (xs_results s ! i), s')" "\<not> xs_busy s'" "xs_open s' = []"
        "xs_result s' = None" "xr_released (xs_results s' ! i)" by auto
    then show "\<exists>s'. result_release failure i s =
            (if xr_completion (xs_results s ! i) = None then Inr () else case failure of None \<Rightarrow> Inr () | Some e \<Rightarrow> Inl e, s') \<and>
          \<not> xs_busy s' \<and> xs_result s' = None \<and> xs_open s' = [] \<and> (\<forall>failure'. result_release failure' i s' = (Inr (), s'))"
      by (auto simp: result_release_def [of _ i s'] release_outcome_def)
  qed
qed

theorem slot_ownership_witness:
  "xs_busy ex_used \<and> xs_open ex_used = [0] \<and>
   fst (execute (execute_impl Async_Slot ex_str) ex_str ex_slot_env ex_received ex_used) =
     Inl (RuntimeError ''active computation slot is already in use'') \<and>
   (\<exists>s'. result_release (Some (BackendFatalError ASYNC_EXECUTION ''lost'')) 0 ex_used = (Inl (BackendFatalError ASYNC_EXECUTION ''lost''), s') \<and>
      \<not> xs_busy s' \<and> xs_open s' = [])"
proof -
  let ?lost = "Some (BackendFatalError ASYNC_EXECUTION ''lost'')"
  have ex: "xs_result ex_used = Some 0" "xr_completion (xs_results ex_used ! 0) = Some 0" "\<not> xs_closed ex_used" by code_simp+
  note own = slot_ownership [OF ex_used_reachable, of ex_slot_env ex_received]
  have "\<exists>s'. result_release ?lost 0 ex_used =
      (if xr_completion (xs_results ex_used ! 0) = None then Inr () else case ?lost of None \<Rightarrow> Inr () | Some e \<Rightarrow> Inl e, s') \<and>
      \<not> xs_busy s' \<and> xs_result s' = None \<and> xs_open s' = [] \<and> (\<forall>failure'. result_release failure' 0 s' = (Inr (), s'))"
    using own ex(1) by blast
  then show ?thesis using own ex by (auto split: prod.splits sum.splits)
qed

text \<open>
  C37. A computation without failures delivers the backend's output. When a free slot executes a valid batch
  that fits it, in time, the backend is given a batch that passes every check of \<open>BackendBatch\<close> and holds
  exactly the rows the Transport copied, whatever earlier computations left in the storage, and the result
  carries what the Transport makes of exactly the rows the backend wrote; the input is released once.
\<close>

theorem slot_computes:
  assumes "reachable slot_start (slot_step kind str_of) s" and "\<not> xs_closed s" and "\<not> xs_busy s"
    and "worker_batch_post_init (rv_batch rv) = None" and "int (wb_token_count (rv_batch rv)) \<le> bf_max_batch_tokens (xs_spec s)"
    and "on_time ev rv" and "device_healthy ev"
    and "ev_copy_input ev (rv_batch rv) = Inr (h, e, w)"
    and "length h = wb_token_count (rv_batch rv)" "length e = wb_token_count (rv_batch rv)" "length w = wb_token_count (rv_batch rv)"
    and "ev_submit ev (slot_batch (xs_spec s) (rv_batch rv) h e w) = Inr out" and "length out = wb_token_count (rv_batch rv)"
    and "ev_copy_output ev (slot_output (xs_spec s) out) = Inr t"
  shows "backend_batch_post_init (slot_batch (xs_spec s) (rv_batch rv) h e w) = None \<and>
    (\<exists>s'. execute (execute_impl kind str_of) str_of ev rv s = (Inr (length (xs_results s)), s') \<and>
      xr_output (xs_results s' ! length (xs_results s)) = Some t \<and> xr_rejection (xs_results s' ! length (xs_results s)) = None \<and>
      xs_inputs_released s' = xs_inputs_released s + 1)"
proof -
  have inv: "slot_inv s" by (rule slot.reachable_inv [OF assms(1)])
  obtain ts where ts: "xs_tensors s = Some ts" "slot_tensors_ok (xs_spec s) ts" "xs_resources s"
    using inv assms(2) by (auto simp: slot_inv_def storage_ok_def split: option.splits)
  let ?s = "s\<lparr>xs_busy := True\<rparr>"
  have "\<exists>s'. execute_impl kind str_of ev rv (slot_valid_views (wb_token_count (rv_batch rv)) ts) ?s = (Inr (length (xs_results ?s)), s') \<and>
      xs_results s' = xs_results ?s @ [\<lparr>xr_output = Some t, xr_rejection = None, xr_completion = Some (xs_submitted ?s), xr_released = False\<rparr>] \<and>
      xs_inputs_released s' = xs_inputs_released ?s + 1"
    by (rule impl_computes) (use ts assms spec_valid [OF assms(1)] in simp_all)
  moreover have "valid_views (wb_token_count (rv_batch rv)) ?s = (Inr (slot_valid_views (wb_token_count (rv_batch rv)) ts), ?s)"
    using assms(5) worker_batch_tokens [OF assms(4)] ts(1) by (simp add: valid_views_def xbind_def require_tensors_def xreturn_def)
  ultimately have "\<exists>s'. execute (execute_impl kind str_of) str_of ev rv s = (Inr (length (xs_results s)), s') \<and>
      xr_output (xs_results s' ! length (xs_results s)) = Some t \<and> xr_rejection (xs_results s' ! length (xs_results s)) = None \<and>
      xs_inputs_released s' = xs_inputs_released s + 1"
    using assms(2,3,6) by (auto simp: execute_def xbind_def claim_def on_error_def map_error_def)
  then show ?thesis using slot_batch_accepted [OF spec_valid [OF assms(1)] assms(4,9,10,11)] by blast
qed

theorem slot_computes_witness:
  "\<exists>s'. execute (execute_impl Cpu_Slot ex_str) ex_str ex_slot_env ex_received ex_slot = (Inr 0, s') \<and>
     xr_output (xs_results s' ! 0) = Some (slot_output ex_slot_spec [[6]])"
proof -
  have facts: "\<not> xs_closed ex_slot" "\<not> xs_busy ex_slot" "worker_batch_post_init (rv_batch ex_received) = None"
    "int (wb_token_count (rv_batch ex_received)) \<le> bf_max_batch_tokens (xs_spec ex_slot)" "device_healthy ex_slot_env"
    "length [[5::int]] = wb_token_count (rv_batch ex_received)" "length [[3::int]] = wb_token_count (rv_batch ex_received)"
    "length [[1::int]] = wb_token_count (rv_batch ex_received)" "length [[6::int]] = wb_token_count (rv_batch ex_received)"
    by code_simp+
  have "on_time ex_slot_env ex_received" by (simp add: on_time_def ex_slot_env_def ex_received_def)
  moreover have "ev_copy_input ex_slot_env (rv_batch ex_received) = Inr ([[5]], [[3]], [[1]])"
    "ev_submit ex_slot_env (slot_batch (xs_spec ex_slot) (rv_batch ex_received) [[5]] [[3]] [[1]]) = Inr [[6]]"
    "ev_copy_output ex_slot_env (slot_output (xs_spec ex_slot) [[6]]) = Inr (slot_output ex_slot_spec [[6]])"
    "xs_results ex_slot = []" by code_simp+
  ultimately show ?thesis
    using slot_computes [OF ex_slot_reachable [of "slot_step Cpu_Slot ex_str"] facts(1-4) _ facts(5) _ facts(6-8) _ facts(9)] by auto
qed

end
