(* ===== verification/Worker_Executor.thy ===== *)
theory Worker_Executor
  imports Execution_Slot
begin

text \<open>
  \<open>ek-worker/src/expertkit_worker/execution/executor.py\<close>: one loop per execution slot takes batches from the
  Transport, runs them and answers them.

  A loop is cut where it waits: for a batch, for the computation in its thread, for the response and for the
  receiver to close. Loops interleave freely; \<open>wx_loops\<close> is where each stands. Batches are numbered in the
  order they are taken, and \<open>wx_responses\<close> holds the responses handed to the Transport with the number of
  their batch. What the Transport raises when it is given a response is an argument \<open>answer\<close>, what closing a
  backend completion raises when a result is released an argument \<open>closing\<close>, and
  \<open>cancelled\<close> says whether the task is cancelled while it waits. A call of \<open>receiver.close()\<close> that raises may or may
  not have stopped \<open>receive\<close>, which its argument \<open>stopped\<close> says. Metrics, logging and spans only observe.
\<close>

section \<open>One batch\<close>


datatype 'f response = Completed "'f matrix tensor" | Rejected transport_error









section \<open>The executor\<close>

datatype 'f loop_phase =
    Loop_Receiving
  | Loop_Running nat "'f received_batch"
  | Loop_Responding nat nat
  | Loop_Closing
  | Loop_Ended
  | Loop_Failed "nat option" exn

record 'f worker_executor =
  wx_kind :: slot_kind
  wx_instance_id :: int
  wx_slots :: "'f execution_slot list"
  wx_loops :: "'f loop_phase list"
  wx_fatal :: "exn option"
  wx_closed :: bool
  wx_close_failure :: "exn option"
  wx_starting :: bool
  wx_receiver_closed :: bool
  wx_slots_closed :: bool
  wx_failures :: "exn list"
  wx_received :: nat
  wx_responses :: "(nat \<times> 'f response) list"



definition fixed_device_bytes :: "'f worker_executor \<Rightarrow> exn + int" where
  "fixed_device_bytes x =
     rbind (rmap (\<lambda>s. fst (require_tensors s)) (wx_slots x)) (\<lambda>ts. Inr (sum_list (map slot_device_bytes ts)))"



definition loop_ended :: "'f loop_phase \<Rightarrow> bool" where
  "loop_ended p = (case p of Loop_Ended \<Rightarrow> True | Loop_Failed _ _ \<Rightarrow> True | _ \<Rightarrow> False)"

text \<open>
  \<open>wait\<close>, called when the loops were started, is pending (\<open>None\<close>) until the first loop raised or all returned.
\<close>

definition executor_wait :: "'f worker_executor \<Rightarrow> (exn + unit) option" where
  "executor_wait x =
     (if wx_loops x = [] then Some (Inl (RuntimeError ''Worker execution has not been started''))
      else case wx_failures x of
             e # _ \<Rightarrow> Some (Inl e)
           | [] \<Rightarrow> if list_all loop_ended (wx_loops x)
                  then Some (case wx_fatal x of None \<Rightarrow> Inr () | Some e \<Rightarrow> Inl e) else None)"












section \<open>One batch is answered once\<close>


definition slot_free :: "'f execution_slot \<Rightarrow> bool" where
  "slot_free s \<longleftrightarrow> slot_inv s \<and> \<not> xs_busy s"


lemma slot_free_release_input [simp]: "slot_free (release_input s) = slot_free s" "xs_closed (release_input s) = xs_closed s"
  by (auto simp: slot_free_def slot_inv_def release_input_def storage_ok_def split: option.splits)




section \<open>All loops\<close>



definition answers :: "'f worker_executor \<Rightarrow> nat \<Rightarrow> nat" where
  "answers x n = length (filter (\<lambda>p. fst p = n) (wx_responses x))"







lemma answers_cong: "wx_responses x = wx_responses y \<Longrightarrow> answers x = answers y"
  by (auto simp: answers_def)



























section \<open>Interleavings\<close>








section \<open>What a loop has left\<close>






section \<open>An example\<close>





section \<open>Properties\<close>



end
