(* ===== verification/Grpc_Status.thy ===== *)
theory Grpc_Status
  imports Errors
begin

text \<open>
  What both packages use of the gRPC library: the status codes, and the outcome of an awaited call of a
  stub, which returns, raises \<open>AioRpcError\<close> with a status, or raises something else.
\<close>

datatype grpc_status =
    GRPC_OK | GRPC_CANCELLED | GRPC_UNKNOWN | GRPC_INVALID_ARGUMENT | GRPC_DEADLINE_EXCEEDED | GRPC_NOT_FOUND | GRPC_ALREADY_EXISTS
  | GRPC_PERMISSION_DENIED | GRPC_RESOURCE_EXHAUSTED | GRPC_FAILED_PRECONDITION | GRPC_ABORTED | GRPC_OUT_OF_RANGE | GRPC_UNIMPLEMENTED
  | GRPC_INTERNAL | GRPC_UNAVAILABLE | GRPC_DATA_LOSS | GRPC_UNAUTHENTICATED

datatype 'a rpc_outcome = Rpc_Returned 'a | Rpc_Failed grpc_status | Rpc_Raised exn

end
