(* ===== verification/Controller_Link.thy ===== *)
theory Controller_Link
  imports Drain_Safety Wire_Codec Grpc_Status
begin

text \<open>
  The Worker's and the Frontend's connection to the Controller: registration, heartbeats and the Controller
  channel (\<open>ek-worker/src/expertkit_worker/control/lifecycle.py\<close>), the supervisor that registers and reopens
  the control streams (\<open>control/supervisor.py\<close>), and the resolution of the default model instance
  (\<open>ek-transport/src/expertkit_transport/controller/instance.py\<close>).

  Coroutines are cut at their awaits. What the Controller answers and how a stream attempt ends are
  arguments, times are integers, and \<open>hb_sent\<close>, \<open>sp_waits\<close> and \<open>sp_registrations\<close> record the heartbeats
  yielded, the retry delays waited for and the registration attempts.
\<close>

section \<open>Registration\<close>

definition require_text :: "string \<Rightarrow> string \<Rightarrow> (bool \<times> exn) list" where
  "require_text name text_value = [(blank text_value, ValueError (name @ '' must not be empty''))]"

definition require_positive_int :: "string \<Rightarrow> int \<Rightarrow> int \<Rightarrow> (bool \<times> exn) list" where
  "require_positive_int name x maximum =
     [(\<not> (0 < x \<and> x \<le> maximum), ValueError (name @ '' must be a positive integer no larger than '' @ str_nat (nat maximum)))]"

record worker_registration =
  wg_worker_id :: string
  wg_start_id :: string
  wg_instance_id :: int
  wg_computation_endpoint :: string
  wg_peer_weight_endpoint :: string
  wg_backend :: string
  wg_activation_dtype :: dtype
  wg_device :: string
  wg_max_experts :: int
  wg_max_batch_tokens :: int
  wg_max_active_batches :: int
  wg_max_pending_batches :: int
  wg_transport_type :: string

definition worker_registration_post_init :: "worker_registration \<Rightarrow> exn option" where
  "worker_registration_post_init r = raise_first
     (require_text ''worker_id'' (wg_worker_id r) @ require_text ''start_id'' (wg_start_id r) @
      require_text ''computation_endpoint'' (wg_computation_endpoint r) @ require_text ''peer_weight_endpoint'' (wg_peer_weight_endpoint r) @
      require_text ''backend'' (wg_backend r) @ require_text ''device'' (wg_device r) @
      require_positive_int ''instance_id'' (wg_instance_id r) uint64_max @
      require_positive_int ''max_experts'' (wg_max_experts r) uint32_max @
      require_positive_int ''max_batch_tokens'' (wg_max_batch_tokens r) uint32_max @
      require_positive_int ''max_active_batches'' (wg_max_active_batches r) uint32_max @
      require_positive_int ''max_pending_batches'' (wg_max_pending_batches r) uint32_max @
      [(wg_activation_dtype r \<notin> set ACTIVATION_DTYPES, ValueError ''activation_dtype must be FP16, BF16, or FP32''),
       (wg_transport_type r \<notin> {''grpc'', ''shm''}, ValueError ''transport_type must be grpc or shm'')])"

datatype worker_transport = WORKER_TRANSPORT_GRPC | WORKER_TRANSPORT_SHM

definition transport_to_proto :: "string \<Rightarrow> exn + worker_transport" where
  "transport_to_proto s = (if s = ''grpc'' then Inr WORKER_TRANSPORT_GRPC else if s = ''shm'' then Inr WORKER_TRANSPORT_SHM else Inl KeyError)"

record register_request =
  rr_worker_id :: string
  rr_start_id :: string
  rr_instance_id :: int
  rr_computation_endpoint :: string
  rr_peer_weight_endpoint :: string
  rr_backend :: string
  rr_activation_dtype :: int
  rr_device :: string
  rr_max_experts :: int
  rr_max_batch_tokens :: int
  rr_max_active_batches_per_device :: int
  rr_max_pending_batches_per_device :: int
  rr_transport_type :: worker_transport

definition registration_to_protobuf :: "worker_registration \<Rightarrow> exn + register_request" where
  "registration_to_protobuf r =
     rbind (case activation_dtype_to_protobuf (wg_activation_dtype r) of Inl _ \<Rightarrow> Inl KeyError | Inr d \<Rightarrow> Inr d) (\<lambda>d.
     rbind (transport_to_proto (wg_transport_type r)) (\<lambda>tr.
       Inr \<lparr>rr_worker_id = wg_worker_id r, rr_start_id = wg_start_id r, rr_instance_id = wg_instance_id r,
            rr_computation_endpoint = wg_computation_endpoint r, rr_peer_weight_endpoint = wg_peer_weight_endpoint r,
            rr_backend = wg_backend r, rr_activation_dtype = d, rr_device = wg_device r, rr_max_experts = wg_max_experts r,
            rr_max_batch_tokens = wg_max_batch_tokens r, rr_max_active_batches_per_device = wg_max_active_batches r,
            rr_max_pending_batches_per_device = wg_max_pending_batches r, rr_transport_type = tr\<rparr>))"

section \<open>Heartbeats\<close>

datatype worker_state = WORKER_RUNNING | WORKER_SHUTTING_DOWN

text \<open>Where the request iterator of the current stream stands; a yielded request remembers the revision it carried.\<close>

datatype heartbeat_phase = Hb_Idle | Hb_Loop | Hb_Yielded int | Hb_Waiting | Hb_Ended

record heartbeat_sender =
  hb_worker_id :: string
  hb_start_id :: string
  hb_interval :: int
  hb_sequence :: int
  hb_state :: worker_state
  hb_revision :: int
  hb_wake :: bool
  hb_closed :: bool
  hb_phase :: heartbeat_phase
  hb_sent :: "(int \<times> worker_state) list"

definition HeartbeatSender :: "string \<Rightarrow> string \<Rightarrow> int \<Rightarrow> exn + heartbeat_sender" where
  "HeartbeatSender worker_id start_id interval_secs =
     after (raise_first (require_text ''worker_id'' worker_id @ require_text ''start_id'' start_id @
         [(interval_secs \<le> 0, ValueError ''heartbeat interval must be positive'')]))
       (Inr \<lparr>hb_worker_id = worker_id, hb_start_id = start_id, hb_interval = interval_secs, hb_sequence = 0, hb_state = WORKER_RUNNING,
             hb_revision = 0, hb_wake = False, hb_closed = False, hb_phase = Hb_Idle, hb_sent = []\<rparr>)"

definition set_shutting_down :: "heartbeat_sender \<Rightarrow> bool \<times> heartbeat_sender" where
  "set_shutting_down h =
     (if hb_state h = WORKER_SHUTTING_DOWN then (False, h)
      else (True, h\<lparr>hb_state := WORKER_SHUTTING_DOWN, hb_revision := hb_revision h + 1, hb_wake := True\<rparr>))"

definition heartbeat_close :: "heartbeat_sender \<Rightarrow> heartbeat_sender" where
  "heartbeat_close h = h\<lparr>hb_closed := True, hb_wake := True\<rparr>"

text \<open>\<open>run_once\<close>: one stream at a time; it ends with the Controller's summary or is abandoned.\<close>

definition heartbeat_run :: "heartbeat_sender \<Rightarrow> (exn + unit) \<times> heartbeat_sender" where
  "heartbeat_run h =
     (if hb_closed h then (Inl (RuntimeError ''Heartbeat sender is closed''), h)
      else if hb_phase h \<noteq> Hb_Idle then (Inr (), h)
      else (Inr (), h\<lparr>hb_phase := Hb_Loop\<rparr>))"

definition heartbeat_summary :: "int \<Rightarrow> heartbeat_sender \<Rightarrow> (exn + unit) \<times> heartbeat_sender" where
  "heartbeat_summary last_sequence h =
     (let h' = h\<lparr>hb_phase := Hb_Idle\<rparr> in
      if last_sequence \<noteq> hb_sequence h
      then (Inl (RuntimeError ''Controller heartbeat summary did not acknowledge the last sequence''), h') else (Inr (), h'))"

definition heartbeat_abandon :: "heartbeat_sender \<Rightarrow> heartbeat_sender" where
  "heartbeat_abandon h = h\<lparr>hb_phase := Hb_Idle\<rparr>"

text \<open>\<open>_requests\<close>: from the head of the loop to the next yield, from the yield to the wait, and out of the wait.\<close>

definition heartbeat_next :: "heartbeat_sender \<Rightarrow> heartbeat_sender" where
  "heartbeat_next h =
     (if hb_phase h \<noteq> Hb_Loop then h
      else if hb_closed h then h\<lparr>hb_phase := Hb_Ended\<rparr>
      else h\<lparr>hb_sequence := hb_sequence h + 1, hb_sent := hb_sent h @ [(hb_sequence h + 1, hb_state h)],
             hb_phase := Hb_Yielded (hb_revision h)\<rparr>)"

definition heartbeat_resume :: "heartbeat_sender \<Rightarrow> heartbeat_sender" where
  "heartbeat_resume h =
     (case hb_phase h of
        Hb_Yielded sent_revision \<Rightarrow>
          if hb_closed h then h\<lparr>hb_phase := Hb_Ended\<rparr>
          else if hb_revision h \<noteq> sent_revision then h\<lparr>hb_phase := Hb_Loop\<rparr>
          else h\<lparr>hb_wake := False, hb_phase := Hb_Waiting\<rparr>
      | _ \<Rightarrow> h)"

definition heartbeat_wait :: "bool \<Rightarrow> heartbeat_sender \<Rightarrow> heartbeat_sender" where
  "heartbeat_wait timed_out h =
     (if hb_phase h = Hb_Waiting \<and> (hb_wake h \<or> timed_out) then h\<lparr>hb_phase := Hb_Loop\<rparr> else h)"

section \<open>The Controller channel\<close>

datatype channel_state = Channel_None | Channel_Open | Channel_Closed

record controller_connection =
  cc_endpoint :: string
  cc_channel :: channel_state
  cc_closed :: bool

definition ControllerConnection :: "string \<Rightarrow> exn + controller_connection" where
  "ControllerConnection endpoint =
     after (raise_first (require_text ''Controller endpoint'' endpoint))
       (Inr \<lparr>cc_endpoint = endpoint, cc_channel = Channel_None, cc_closed = False\<rparr>)"

definition connection_start :: "controller_connection \<Rightarrow> (exn + unit) \<times> controller_connection" where
  "connection_start c =
     (if cc_closed c then (Inl (RuntimeError ''Controller connection is closed''), c)
      else if cc_channel c = Channel_Open then (Inr (), c)
      else (Inr (), c\<lparr>cc_channel := Channel_Open\<rparr>))"

record registration_result =
  gr_topology_version :: int
  gr_placement_generation :: int

text \<open>\<open>register\<close> up to its RPC: the request it sends.\<close>

definition connection_register :: "worker_registration \<Rightarrow> int \<Rightarrow> controller_connection \<Rightarrow> exn + register_request" where
  "connection_register registration timeout_secs c =
     (if cc_channel c \<noteq> Channel_Open then Inl (RuntimeError ''Controller connection has not been started'')
      else if timeout_secs \<le> 0 then Inl (ValueError ''registration timeout must be positive'')
      else registration_to_protobuf registration)"

definition connection_close :: "controller_connection \<Rightarrow> controller_connection" where
  "connection_close c = c\<lparr>cc_closed := True, cc_channel := (if cc_channel c = Channel_None then Channel_None else Channel_Closed)\<rparr>"

section \<open>The supervisor\<close>

definition retryable_status :: "grpc_status \<Rightarrow> bool" where
  "retryable_status s \<longleftrightarrow> s \<in> {GRPC_CANCELLED, GRPC_DEADLINE_EXCEEDED, GRPC_RESOURCE_EXHAUSTED, GRPC_UNAVAILABLE}"

datatype supervisor_phase =
    Sup_Idle
  | Sup_Registering
  | Sup_Streaming int
  | Sup_Waiting int
  | Sup_Returned
  | Sup_Raised exn

record 'v supervisor =
  sp_connection :: controller_connection
  sp_registration :: worker_registration
  sp_heartbeat :: heartbeat_sender
  sp_weights :: "'v weight_session"
  sp_timeout :: int
  sp_retry_initial :: int
  sp_retry_max :: int
  sp_stable :: int
  sp_retry_now :: bool
  sp_closing :: bool
  sp_delay :: int
  sp_phase :: supervisor_phase
  sp_waits :: "int list"
  sp_registrations :: nat

definition ControllerSupervisor ::
  "controller_connection \<Rightarrow> worker_registration \<Rightarrow> heartbeat_sender \<Rightarrow> 'v weight_session \<Rightarrow> int \<Rightarrow> int \<Rightarrow> int \<Rightarrow> int \<Rightarrow> exn + 'v supervisor" where
  "ControllerSupervisor connection registration heartbeat weights timeout initial maximum steady =
     after (raise_first
       [(timeout \<le> 0, ValueError ''registration_timeout_secs must be positive''), (initial \<le> 0, ValueError ''retry_initial_secs must be positive''),
        (maximum \<le> 0, ValueError ''retry_max_secs must be positive''), (steady \<le> 0, ValueError ''stable_stream_secs must be positive''),
        (maximum < initial, ValueError ''retry_max_secs cannot be smaller than retry_initial_secs'')])
      (Inr \<lparr>sp_connection = connection, sp_registration = registration, sp_heartbeat = heartbeat, sp_weights = weights, sp_timeout = timeout,
            sp_retry_initial = initial, sp_retry_max = maximum, sp_stable = steady, sp_retry_now = False, sp_closing = False, sp_delay = initial,
            sp_phase = Sup_Idle, sp_waits = [], sp_registrations = 0\<rparr>)"

text \<open>The head of the loop, where a registration begins unless the supervisor is closing.\<close>

definition run_loop :: "'v supervisor \<Rightarrow> 'v supervisor" where
  "run_loop sp =
     (if sp_closing sp then sp\<lparr>sp_phase := Sup_Returned\<rparr>
      else case connection_register (sp_registration sp) (sp_timeout sp) (sp_connection sp) of
             Inl e \<Rightarrow> sp\<lparr>sp_phase := Sup_Raised e\<rparr>
           | Inr _ \<Rightarrow> sp\<lparr>sp_phase := Sup_Registering, sp_registrations := sp_registrations sp + 1\<rparr>)"

definition supervisor_run :: "'v supervisor \<Rightarrow> 'v supervisor" where
  "supervisor_run sp =
     (if sp_phase sp \<noteq> Sup_Idle then sp
      else if sp_closing sp then sp\<lparr>sp_phase := Sup_Returned\<rparr>
      else case connection_start (sp_connection sp) of
             (Inl e, c) \<Rightarrow> sp\<lparr>sp_connection := c, sp_phase := Sup_Raised e\<rparr>
           | (Inr _, c) \<Rightarrow> run_loop (sp\<lparr>sp_connection := c, sp_delay := sp_retry_initial sp\<rparr>))"

text \<open>After an attempt that ended or failed with a retryable status: the next delay, and the wait.\<close>

definition attempt_over :: "int \<Rightarrow> int option \<Rightarrow> 'v supervisor \<Rightarrow> 'v supervisor" where
  "attempt_over now started sp =
     (if sp_closing sp then sp\<lparr>sp_phase := Sup_Returned\<rparr>
      else
        (let steady = (case started of None \<Rightarrow> False | Some t \<Rightarrow> now - t \<ge> sp_stable sp);
             delay = (if steady then sp_retry_initial sp else sp_delay sp)
         in sp\<lparr>sp_retry_now := False, sp_delay := delay, sp_phase := Sup_Waiting delay, sp_waits := sp_waits sp @ [delay]\<rparr>))"

definition rpc_failed :: "int \<Rightarrow> int option \<Rightarrow> grpc_status \<Rightarrow> 'v supervisor \<Rightarrow> 'v supervisor" where
  "rpc_failed now started status sp =
     (if sp_closing sp then sp\<lparr>sp_phase := Sup_Returned\<rparr>
      else if \<not> retryable_status status then sp\<lparr>sp_phase := Sup_Raised AioRpcError\<rparr>
      else attempt_over now started sp)"

definition registered :: "int \<Rightarrow> registration_result rpc_outcome \<Rightarrow> 'v supervisor \<Rightarrow> 'v supervisor" where
  "registered now outcome sp =
     (if sp_phase sp \<noteq> Sup_Registering then sp
      else case outcome of
             Rpc_Returned _ \<Rightarrow> sp\<lparr>sp_phase := Sup_Streaming now, sp_heartbeat := snd (heartbeat_run (sp_heartbeat sp)),
               sp_weights := snd (run_once_start (sp_weights sp))\<rparr>
           | Rpc_Failed status \<Rightarrow> rpc_failed now None status sp
           | Rpc_Raised e \<Rightarrow> sp\<lparr>sp_phase := Sup_Raised e\<rparr>)"

text \<open>The end of \<open>_run_streams_once\<close>: the first stream that ended decides, the other one is cancelled.\<close>

definition streams_ended :: "int \<Rightarrow> unit rpc_outcome \<Rightarrow> 'v supervisor \<Rightarrow> 'v supervisor" where
  "streams_ended now outcome sp =
     (case sp_phase sp of
        Sup_Streaming started \<Rightarrow>
          let sp1 = sp\<lparr>sp_heartbeat := heartbeat_abandon (sp_heartbeat sp), sp_weights := run_once_end (sp_weights sp)\<rparr> in
          (case outcome of
             Rpc_Returned _ \<Rightarrow> attempt_over now (Some started) sp1
           | Rpc_Failed status \<Rightarrow> rpc_failed now (Some started) status sp1
           | Rpc_Raised e \<Rightarrow> sp1\<lparr>sp_phase := Sup_Raised e\<rparr>)
      | _ \<Rightarrow> sp)"

definition retry_waited :: "bool \<Rightarrow> 'v supervisor \<Rightarrow> 'v supervisor" where
  "retry_waited timed_out sp =
     (case sp_phase sp of
        Sup_Waiting delay \<Rightarrow>
          if sp_retry_now sp \<or> timed_out
          then run_loop (sp\<lparr>sp_delay := min (sp_retry_max sp) (sp_delay sp * 2)\<rparr>) else sp
      | _ \<Rightarrow> sp)"

definition supervisor_begin_shutdown :: "int \<Rightarrow> 'v supervisor \<Rightarrow> 'v supervisor" where
  "supervisor_begin_shutdown now sp =
     sp\<lparr>sp_heartbeat := snd (set_shutting_down (sp_heartbeat sp)), sp_weights := session_begin_shutdown now (sp_weights sp), sp_retry_now := True\<rparr>"

definition supervisor_close :: "'v supervisor \<Rightarrow> 'v supervisor" where
  "supervisor_close sp =
     (if sp_closing sp then sp
      else sp\<lparr>sp_closing := True, sp_retry_now := True, sp_heartbeat := heartbeat_close (sp_heartbeat sp),
              sp_weights := control_close (sp_weights sp), sp_connection := connection_close (sp_connection sp)\<rparr>)"

section \<open>The default instance\<close>

record resolved_instance =
  ri_instance_id :: int
  ri_model_name :: string
  ri_instance_name :: string

definition resolution_error :: "grpc_status \<Rightarrow> string \<Rightarrow> transport_error" where
  "resolution_error code details =
     (let diagnostic = ''default instance resolution failed: '' @ details in
      if code = GRPC_DEADLINE_EXCEEDED then TransportError DEADLINE_EXCEEDED False diagnostic
      else if code = GRPC_CANCELLED then TransportError CANCELLED False diagnostic
      else if code \<in> {GRPC_INVALID_ARGUMENT, GRPC_NOT_FOUND, GRPC_FAILED_PRECONDITION} then TransportError INVALID_REQUEST False diagnostic
      else TransportError UNAVAILABLE True diagnostic)"

text \<open>
  The RPC is an argument of the requested ID, where 0 stands for none; \<open>details\<close> is the text of its failure.
\<close>

definition resolve_default_instance ::
  "(int \<Rightarrow> resolved_instance rpc_outcome) \<Rightarrow> string \<Rightarrow> string \<Rightarrow> int option \<Rightarrow> int \<Rightarrow> exn + resolved_instance" where
  "resolve_default_instance rpc details controller_endpoint requested timeout_seconds =
     after (raise_first
       [(blank controller_endpoint, ValueError ''controller_endpoint must not be empty''),
        (case requested of None \<Rightarrow> False | Some r \<Rightarrow> \<not> (0 < r \<and> r \<le> uint64_max),
           ValueError ''requested_instance_id must be a positive uint64 or None''),
        (timeout_seconds \<le> 0, ValueError ''timeout_seconds must be finite and positive'')])
     (case rpc (case requested of None \<Rightarrow> 0 | Some r \<Rightarrow> r) of
        Rpc_Failed code \<Rightarrow> Inl (Raised_TransportError (resolution_error code details))
      | Rpc_Raised e \<Rightarrow> Inl e
      | Rpc_Returned response \<Rightarrow>
          after (raise_first
            [(ri_instance_id response \<le> 0 \<or> ri_instance_id response > uint64_max,
               Raised_TransportError (TransportError PROTOCOL False ''Controller returned an invalid default instance ID'')),
             (blank (ri_model_name response) \<or> blank (ri_instance_name response),
               Raised_TransportError (TransportError PROTOCOL False ''Controller returned incomplete default instance metadata'')),
             (requested \<noteq> None \<and> requested \<noteq> Some (ri_instance_id response),
               Raised_TransportError (TransportError PROTOCOL False ''Controller accepted an explicit ID but returned another instance''))])
          (Inr response))"

section \<open>Heartbeats are numbered without gaps\<close>

datatype heartbeat_op = Hb_Shut_Down | Hb_Close | Hb_Run | Hb_Summary int | Hb_Abandon | Hb_Next | Hb_Resume | Hb_Wait bool

fun heartbeat_apply :: "heartbeat_op \<Rightarrow> heartbeat_sender \<Rightarrow> heartbeat_sender" where
  "heartbeat_apply Hb_Shut_Down h = snd (set_shutting_down h)"
| "heartbeat_apply Hb_Close h = heartbeat_close h"
| "heartbeat_apply Hb_Run h = snd (heartbeat_run h)"
| "heartbeat_apply (Hb_Summary n) h = snd (heartbeat_summary n h)"
| "heartbeat_apply Hb_Abandon h = heartbeat_abandon h"
| "heartbeat_apply Hb_Next h = heartbeat_next h"
| "heartbeat_apply Hb_Resume h = heartbeat_resume h"
| "heartbeat_apply (Hb_Wait timed_out) h = heartbeat_wait timed_out h"

definition state_at :: "int \<Rightarrow> worker_state" where
  "state_at r = (if r = 0 then WORKER_RUNNING else WORKER_SHUTTING_DOWN)"

definition sent_order :: "(int \<times> worker_state) list \<Rightarrow> bool" where
  "sent_order xs \<longleftrightarrow> map fst xs = map (\<lambda>k. int k + 1) [0 ..< length xs] \<and>
     sorted_wrt (\<lambda>a b. snd a = WORKER_SHUTTING_DOWN \<longrightarrow> snd b = WORKER_SHUTTING_DOWN) xs"

definition heartbeat_inv :: "heartbeat_sender \<Rightarrow> bool" where
  "heartbeat_inv h \<longleftrightarrow> sent_order (hb_sent h) \<and> hb_sequence h = int (length (hb_sent h)) \<and>
     hb_revision h \<in> {0, 1} \<and> hb_state h = state_at (hb_revision h) \<and>
     (\<forall>p\<in>set (hb_sent h). snd p = WORKER_SHUTTING_DOWN \<longrightarrow> hb_state h = WORKER_SHUTTING_DOWN) \<and>
     (\<forall>r. hb_phase h = Hb_Yielded r \<longrightarrow> hb_sent h \<noteq> [] \<and> snd (last (hb_sent h)) = state_at r) \<and>
     (hb_phase h = Hb_Waiting \<longrightarrow> hb_sent h \<noteq> [] \<and> (hb_wake h \<or> snd (last (hb_sent h)) = hb_state h))"

lemma sent_order_append:
  "sent_order (xs @ [(n, st)]) \<longleftrightarrow> sent_order xs \<and> n = int (length xs) + 1 \<and> (\<forall>p\<in>set xs. snd p = WORKER_SHUTTING_DOWN \<longrightarrow> st = WORKER_SHUTTING_DOWN)"
  by (auto simp: sent_order_def sorted_wrt_append)

lemma heartbeat_apply_inv: "heartbeat_inv h \<Longrightarrow> heartbeat_inv (heartbeat_apply op h)"
  by (cases op) (auto simp: heartbeat_inv_def set_shutting_down_def heartbeat_close_def heartbeat_run_def heartbeat_summary_def Let_def
      heartbeat_abandon_def heartbeat_next_def heartbeat_resume_def heartbeat_wait_def sent_order_append state_at_def split: heartbeat_phase.splits)

lemma heartbeat_run_inv: "heartbeat_inv h \<Longrightarrow> heartbeat_inv (fold heartbeat_apply ops h)"
  by (induction ops arbitrary: h) (simp_all add: heartbeat_apply_inv)

lemma heartbeat_start_inv: "HeartbeatSender worker_id start_id interval_secs = Inr h \<Longrightarrow> heartbeat_inv h"
  by (auto simp: HeartbeatSender_def heartbeat_inv_def sent_order_def state_at_def)

section \<open>The supervisor's delays\<close>

inductive supervisor_step :: "'v supervisor \<Rightarrow> 'v supervisor \<Rightarrow> bool" where
  "supervisor_step sp (supervisor_run sp)"
| "supervisor_step sp (registered now outcome sp)"
| "supervisor_step sp (streams_ended now ended sp)"
| "supervisor_step sp (retry_waited timed_out sp)"
| "supervisor_step sp (supervisor_begin_shutdown now sp)"
| "supervisor_step sp (supervisor_close sp)"
| "supervisor_step sp (sp\<lparr>sp_heartbeat := heartbeat_apply op (sp_heartbeat sp)\<rparr>)"
| "supervisor_step sp (sp\<lparr>sp_weights := w\<rparr>)"

definition supervisor_init :: "'v supervisor \<Rightarrow> bool" where
  "supervisor_init sp \<longleftrightarrow> (\<exists>c r h w timeout initial maximum steady. ControllerSupervisor c r h w timeout initial maximum steady = Inr sp)"

definition next_delay :: "'v supervisor \<Rightarrow> int \<Rightarrow> int" where
  "next_delay sp d = min (sp_retry_max sp) (d * 2)"

text \<open>The delay that the next attempt starts from, after the waits so far.\<close>

definition delay_after :: "'v supervisor \<Rightarrow> int list \<Rightarrow> int" where
  "delay_after sp ws = (if ws = [] then sp_retry_initial sp else next_delay sp (last ws))"

definition supervisor_inv :: "'v supervisor \<Rightarrow> bool" where
  "supervisor_inv sp \<longleftrightarrow> 0 < sp_retry_initial sp \<and> sp_retry_initial sp \<le> sp_retry_max sp \<and>
     (\<forall>d\<in>set (sp_waits sp). sp_retry_initial sp \<le> d \<and> d \<le> sp_retry_max sp) \<and>
     (case sp_phase sp of
        Sup_Idle \<Rightarrow> sp_waits sp = []
      | Sup_Waiting d \<Rightarrow> sp_waits sp \<noteq> [] \<and> d = last (sp_waits sp) \<and> sp_delay sp = d
      | Sup_Registering \<Rightarrow> sp_delay sp = delay_after sp (sp_waits sp)
      | Sup_Streaming _ \<Rightarrow> sp_delay sp = delay_after sp (sp_waits sp)
      | _ \<Rightarrow> True) \<and>
     (sp_closing sp \<longrightarrow> sp_retry_now sp)"

lemma delay_after_cong:
  "sp_retry_initial sp' = sp_retry_initial sp \<Longrightarrow> sp_retry_max sp' = sp_retry_max sp \<Longrightarrow> delay_after sp' ws = delay_after sp ws"
  by (auto simp: delay_after_def next_delay_def)

text \<open>The configured delays never change, so the next delay depends on the waits alone.\<close>

lemma supervisor_invI:
  assumes "supervisor_inv sp" and "sp_retry_initial sp' = sp_retry_initial sp" "sp_retry_max sp' = sp_retry_max sp" "sp_waits sp' = sp_waits sp"
    and "case sp_phase sp' of
        Sup_Idle \<Rightarrow> sp_waits sp = []
      | Sup_Waiting d \<Rightarrow> sp_waits sp \<noteq> [] \<and> d = last (sp_waits sp) \<and> sp_delay sp' = d
      | Sup_Registering \<Rightarrow> sp_delay sp' = delay_after sp (sp_waits sp)
      | Sup_Streaming _ \<Rightarrow> sp_delay sp' = delay_after sp (sp_waits sp)
      | _ \<Rightarrow> True" and "sp_closing sp' \<Longrightarrow> sp_retry_now sp'"
  shows "supervisor_inv sp'"
  using assms delay_after_cong [of sp' sp] unfolding supervisor_inv_def by (simp split: supervisor_phase.splits)

lemma supervisor_invD:
  assumes "supervisor_inv sp"
  shows "sp_closing sp \<Longrightarrow> sp_retry_now sp" and "sp_phase sp = Sup_Idle \<Longrightarrow> sp_waits sp = []"
    and "sp_phase sp = Sup_Registering \<Longrightarrow> sp_delay sp = delay_after sp (sp_waits sp)"
    and "sp_phase sp = Sup_Streaming t \<Longrightarrow> sp_delay sp = delay_after sp (sp_waits sp)"
    and "sp_phase sp = Sup_Waiting d \<Longrightarrow> sp_waits sp \<noteq> [] \<and> d = last (sp_waits sp) \<and> sp_delay sp = d"
  using assms by (auto simp: supervisor_inv_def)

lemma attempt_over_inv:
  assumes "supervisor_inv sp" and "sp_delay sp = delay_after sp (sp_waits sp)"
  shows "supervisor_inv (attempt_over now started sp)"
proof -
  let ?w = "if (case started of None \<Rightarrow> False | Some t \<Rightarrow> now - t \<ge> sp_stable sp) then sp_retry_initial sp else sp_delay sp"
  have last: "sp_waits sp \<noteq> [] \<Longrightarrow> sp_retry_initial sp \<le> last (sp_waits sp)"
    using assms(1) by (auto simp: supervisor_inv_def)
  have range: "0 < sp_retry_initial sp" "sp_retry_initial sp \<le> sp_retry_max sp" using assms(1) by (auto simp: supervisor_inv_def)
  have "sp_retry_initial sp \<le> ?w \<and> ?w \<le> sp_retry_max sp"
    using assms(2) last range by (auto simp: delay_after_def next_delay_def)
  then show ?thesis
    using assms by (auto simp: attempt_over_def supervisor_inv_def Let_def delay_after_def)
qed

lemma run_loop_inv:
  assumes "supervisor_inv sp" and "sp_waits sp' = sp_waits sp" "sp_retry_initial sp' = sp_retry_initial sp" "sp_retry_max sp' = sp_retry_max sp"
    and "sp_delay sp' = delay_after sp (sp_waits sp)" and "sp_closing sp' \<Longrightarrow> sp_retry_now sp'"
  shows "supervisor_inv (run_loop sp')"
  by (rule supervisor_invI [OF assms(1)]) (use assms in \<open>auto simp: run_loop_def split: sum.split\<close>)

lemma rpc_failed_inv:
  assumes "supervisor_inv sp" and "sp_delay sp = delay_after sp (sp_waits sp)"
  shows "supervisor_inv (rpc_failed now started status sp)"
proof -
  have "supervisor_inv (sp\<lparr>sp_phase := Sup_Returned\<rparr>)" "supervisor_inv (sp\<lparr>sp_phase := Sup_Raised e\<rparr>)" for e
    by (rule supervisor_invI [OF assms(1)]; use assms(1) in \<open>simp add: supervisor_inv_def\<close>)+
  then show ?thesis using attempt_over_inv [OF assms] by (simp add: rpc_failed_def)
qed

lemma supervisor_step_inv:
  assumes "supervisor_inv sp" and "supervisor_step sp sp'"
  shows "supervisor_inv sp'"
  using assms(2)
proof cases
  case 1
  obtain r c where start: "connection_start (sp_connection sp) = (r, c)" by fastforce
  have "supervisor_inv (sp\<lparr>sp_phase := Sup_Returned\<rparr>)" "supervisor_inv (sp\<lparr>sp_connection := c, sp_phase := Sup_Raised e\<rparr>)" for e
    by (rule supervisor_invI [OF assms(1)]; use assms(1) in \<open>simp add: supervisor_inv_def\<close>)+
  moreover have "supervisor_inv (run_loop (sp\<lparr>sp_connection := c, sp_delay := sp_retry_initial sp\<rparr>))" if "sp_phase sp = Sup_Idle"
    using assms(1) that by (intro run_loop_inv [OF assms(1)]) (simp_all add: delay_after_def supervisor_inv_def)
  ultimately show ?thesis using 1 start assms(1) by (simp add: supervisor_run_def split: sum.split)
next
  case (2 now outcome)
  show ?thesis
  proof (cases "sp_phase sp = Sup_Registering")
    case True
    then have d: "sp_delay sp = delay_after sp (sp_waits sp)" using assms(1) by (simp add: supervisor_inv_def)
    show ?thesis
    proof (cases outcome)
      case (Rpc_Failed status)
      then show ?thesis using 2 True rpc_failed_inv [OF assms(1) d] by (simp add: registered_def)
    qed (use 2 True d supervisor_invD(1) [OF assms(1)] in \<open>auto simp: registered_def intro!: supervisor_invI [OF assms(1)]\<close>)
  qed (use 2 assms(1) in \<open>simp add: registered_def\<close>)
next
  case (3 now outcome)
  show ?thesis
  proof (cases "sp_phase sp")
    case (Sup_Streaming started)
    let ?sp = "sp\<lparr>sp_heartbeat := heartbeat_abandon (sp_heartbeat sp), sp_weights := run_once_end (sp_weights sp)\<rparr>"
    have d: "sp_delay sp = delay_after sp (sp_waits sp)" using assms(1) Sup_Streaming by (simp add: supervisor_inv_def)
    have i: "supervisor_inv ?sp"
      by (rule supervisor_invI [OF assms(1)]) (use supervisor_invD(1) [OF assms(1)] Sup_Streaming d in auto)
    have d': "sp_delay ?sp = delay_after ?sp (sp_waits ?sp)" using d delay_after_cong [of ?sp sp] by simp
    have "supervisor_inv (?sp\<lparr>sp_phase := Sup_Raised e\<rparr>)" for e
      by (rule supervisor_invI [OF i]) (use supervisor_invD(1) [OF assms(1)] in auto)
    then show ?thesis using 3 Sup_Streaming attempt_over_inv [OF i d'] rpc_failed_inv [OF i d']
      by (simp add: streams_ended_def Let_def split: rpc_outcome.split)
  qed (use 3 assms(1) in \<open>simp_all add: streams_ended_def\<close>)
next
  case (4 timed_out)
  show ?thesis
  proof (cases "sp_phase sp")
    case (Sup_Waiting d)
    then have "supervisor_inv (run_loop (sp\<lparr>sp_delay := min (sp_retry_max sp) (sp_delay sp * 2)\<rparr>))"
      using assms(1) by (intro run_loop_inv [OF assms(1)]) (auto simp: supervisor_inv_def delay_after_def next_delay_def)
    then show ?thesis using 4 Sup_Waiting assms(1) by (simp add: retry_waited_def)
  qed (use 4 assms(1) in \<open>simp_all add: retry_waited_def\<close>)
qed (use supervisor_invD [OF assms(1)] in \<open>auto simp: supervisor_begin_shutdown_def supervisor_close_def assms(1)
      intro!: supervisor_invI [OF assms(1)] split: supervisor_phase.split\<close>)

lemma supervisor_init_inv: "supervisor_init sp \<Longrightarrow> supervisor_inv sp"
  by (auto simp: supervisor_init_def ControllerSupervisor_def supervisor_inv_def)

interpretation reconnect: invariant_system supervisor_init supervisor_step supervisor_inv
  by unfold_locales (auto intro: supervisor_init_inv supervisor_step_inv)

lemma closing_steps:
  assumes "sp_closing sp" and "supervisor_step sp sp'"
  shows "sp_closing sp' \<and> sp_registrations sp' = sp_registrations sp"
  using assms(2,1)
  by cases (auto simp: supervisor_run_def run_loop_def registered_def rpc_failed_def attempt_over_def streams_ended_def retry_waited_def Let_def
      supervisor_begin_shutdown_def supervisor_close_def split: rpc_outcome.split supervisor_phase.split prod.split sum.split)

section \<open>Examples\<close>

definition ex_sender :: heartbeat_sender where
  "ex_sender = (case HeartbeatSender ''w'' ''s'' 5 of Inr h \<Rightarrow> h | Inl _ \<Rightarrow> undefined)"

definition ex_heartbeats :: "heartbeat_op list" where
  "ex_heartbeats = [Hb_Run, Hb_Next, Hb_Resume, Hb_Abandon, Hb_Run, Hb_Next, Hb_Resume, Hb_Shut_Down, Hb_Wait False, Hb_Next, Hb_Resume]"

definition ex_registration :: worker_registration where
  "ex_registration = \<lparr>wg_worker_id = ''w'', wg_start_id = ''s'', wg_instance_id = 1, wg_computation_endpoint = ''h:1'', wg_peer_weight_endpoint = ''h:2'',
     wg_backend = ''torch'', wg_activation_dtype = Float32, wg_device = ''cpu'', wg_max_experts = 8, wg_max_batch_tokens = 2, wg_max_active_batches = 1,
     wg_max_pending_batches = 1, wg_transport_type = ''grpc''\<rparr>"

definition ex_supervisor :: "nat weight_session \<Rightarrow> nat supervisor" where
  "ex_supervisor w = (case ControllerSupervisor \<lparr>cc_endpoint = ''c'', cc_channel = Channel_None, cc_closed = False\<rparr> ex_registration ex_sender w 5 1 3 10
     of Inr sp \<Rightarrow> sp | Inl _ \<Rightarrow> undefined)"

definition ex_retried :: "nat weight_session \<Rightarrow> nat supervisor" where
  "ex_retried w = registered 2 (Rpc_Failed GRPC_UNAVAILABLE) (retry_waited True (registered 1 (Rpc_Failed GRPC_UNAVAILABLE) (supervisor_run (ex_supervisor w))))"

lemma ex_retried_reachable: "reachable supervisor_init supervisor_step (ex_retried w)"
proof -
  have "ControllerSupervisor \<lparr>cc_endpoint = ''c'', cc_channel = Channel_None, cc_closed = False\<rparr> ex_registration ex_sender w 5 1 3 10 = Inr (ex_supervisor w)"
    by (simp add: ex_supervisor_def ControllerSupervisor_def raise_first.simps)
  then have "supervisor_init (ex_supervisor w)" unfolding supervisor_init_def by blast
  then have r: "reachable supervisor_init supervisor_step (ex_supervisor w)" by (rule reach_init)
  note step = reach_step [where init = supervisor_init and step = supervisor_step]
  show ?thesis unfolding ex_retried_def
    by (rule step [OF step [OF step [OF step [OF r supervisor_step.intros(1)] supervisor_step.intros(2)] supervisor_step.intros(4)] supervisor_step.intros(2)])
qed

text \<open>Then the Controller is reached at time 5.\<close>

definition ex_streaming :: "nat weight_session \<Rightarrow> nat supervisor" where
  "ex_streaming w = registered 5 (Rpc_Returned \<lparr>gr_topology_version = 1, gr_placement_generation = 1\<rparr>) (retry_waited True (ex_retried w))"

lemma ex_streaming_reachable: "reachable supervisor_init supervisor_step (ex_streaming w)"
  unfolding ex_streaming_def
  by (rule reach_step [where init = supervisor_init and step = supervisor_step,
        OF reach_step [where init = supervisor_init and step = supervisor_step, OF ex_retried_reachable supervisor_step.intros(4)] supervisor_step.intros(2)])

section \<open>Properties\<close>

text \<open>
  C39. Heartbeats are numbered 1, 2, 3 and so on without gaps over every reconnection of the stream, and once a
  heartbeat reported that the Worker shuts down all later ones do. A change of the state is never slept
  over: a sender that waits and is not woken has already sent the current state.
\<close>

theorem heartbeat_sequence:
  assumes "HeartbeatSender worker_id start_id interval_secs = Inr h"
  shows "let h' = fold heartbeat_apply ops h in
    map fst (hb_sent h') = map (\<lambda>k. int k + 1) [0 ..< length (hb_sent h')] \<and>
    sorted_wrt (\<lambda>a b. snd a = WORKER_SHUTTING_DOWN \<longrightarrow> snd b = WORKER_SHUTTING_DOWN) (hb_sent h') \<and>
    (hb_phase h' = Hb_Waiting \<and> \<not> hb_wake h' \<longrightarrow> hb_sent h' \<noteq> [] \<and> snd (last (hb_sent h')) = hb_state h')"
  using heartbeat_run_inv [OF heartbeat_start_inv [OF assms], of ops] by (auto simp: Let_def heartbeat_inv_def sent_order_def)

theorem heartbeat_sequence_witness:
  "map fst (hb_sent (fold heartbeat_apply ex_heartbeats ex_sender)) = [1, 2, 3] \<and>
   snd (last (hb_sent (fold heartbeat_apply ex_heartbeats ex_sender))) = WORKER_SHUTTING_DOWN"
proof -
  have "HeartbeatSender ''w'' ''s'' 5 = Inr ex_sender" by code_simp
  from heartbeat_sequence [OF this, of ex_heartbeats]
  have "map fst (hb_sent (fold heartbeat_apply ex_heartbeats ex_sender)) =
      map (\<lambda>k. int k + 1) [0 ..< length (hb_sent (fold heartbeat_apply ex_heartbeats ex_sender))]" by (simp add: Let_def)
  moreover have "length (hb_sent (fold heartbeat_apply ex_heartbeats ex_sender)) = 3" by code_simp
  moreover have "snd (last (hb_sent (fold heartbeat_apply ex_heartbeats ex_sender))) = WORKER_SHUTTING_DOWN" by code_simp
  ultimately show ?thesis by (simp add: upt_rec)
qed

text \<open>
  C40. Reconnecting backs off exponentially within its bounds: every delay lies between the configured minimum
  and maximum. After an attempt that failed or a stream that ended, with a retryable status or none, the supervisor waits: for the
  minimum if it is the first wait or the streams lasted at least the configured steady time since the registration, and
  otherwise for twice the previous delay, up to the maximum. The streams begin when the registration returned. After
  closing, no registration is attempted any more, and a supervisor that waits for its next attempt wakes at
  once and returns.
\<close>

theorem supervisor_backoff:
  assumes "reachable supervisor_init supervisor_step sp"
  shows "(\<forall>d\<in>set (sp_waits sp). sp_retry_initial sp \<le> d \<and> d \<le> sp_retry_max sp) \<and>
    (let next_wait = (if sp_waits sp = [] then sp_retry_initial sp else min (sp_retry_max sp) (last (sp_waits sp) * 2)) in
     (sp_phase sp = Sup_Registering \<longrightarrow>
        (\<forall>now r. sp_phase (registered now (Rpc_Returned r) sp) = Sup_Streaming now) \<and>
        (\<forall>now status sp'. \<not> sp_closing sp \<and> retryable_status status \<and> sp' = registered now (Rpc_Failed status) sp \<longrightarrow>
           sp_phase sp' = Sup_Waiting next_wait \<and> sp_waits sp' = sp_waits sp @ [next_wait])) \<and>
     (\<forall>begun now outcome sp'. sp_phase sp = Sup_Streaming begun \<and> \<not> sp_closing sp \<and>
        (outcome = Rpc_Returned () \<or> (\<exists>status. outcome = Rpc_Failed status \<and> retryable_status status)) \<and>
        sp' = streams_ended now outcome sp \<longrightarrow>
          (let wait = (if now - begun \<ge> sp_stable sp then sp_retry_initial sp else next_wait) in
           sp_phase sp' = Sup_Waiting wait \<and> sp_waits sp' = sp_waits sp @ [wait]))) \<and>
    (sp_closing sp \<longrightarrow> (\<forall>sp'. supervisor_step sp sp' \<longrightarrow> sp_closing sp' \<and> sp_registrations sp' = sp_registrations sp) \<and>
       (\<forall>d. sp_phase sp = Sup_Waiting d \<longrightarrow> sp_phase (retry_waited False sp) = Sup_Returned))"
proof -
  have inv: "supervisor_inv sp" by (rule reconnect.reachable_inv [OF assms])
  then have "\<forall>d\<in>set (sp_waits sp). sp_retry_initial sp \<le> d \<and> d \<le> sp_retry_max sp" by (simp add: supervisor_inv_def)
  moreover have "sp_closing sp' \<and> sp_registrations sp' = sp_registrations sp" if "sp_closing sp" "supervisor_step sp sp'" for sp'
    using closing_steps that by auto
  moreover have "sp_phase (retry_waited False sp) = Sup_Returned" if "sp_closing sp" "sp_phase sp = Sup_Waiting d" for d
    using inv that by (simp add: supervisor_inv_def retry_waited_def run_loop_def)
  ultimately show ?thesis
    using supervisor_invD(3,4) [OF inv]
    by (auto simp: Let_def delay_after_def next_delay_def registered_def streams_ended_def rpc_failed_def attempt_over_def)
qed

theorem supervisor_backoff_witness:
  "sp_waits (ex_streaming ex_session) = [1, 2] \<and>
   sp_phase (streams_ended 14 (Rpc_Returned ()) (ex_streaming ex_session)) = Sup_Waiting 3 \<and>
   sp_phase (streams_ended 15 (Rpc_Failed GRPC_UNAVAILABLE) (ex_streaming ex_session)) = Sup_Waiting 1"
proof -
  let ?sp = "ex_streaming ex_session"
  have "(sp_waits (ex_streaming w), sp_phase (ex_streaming w), sp_closing (ex_streaming w), sp_retry_initial (ex_streaming w),
      sp_retry_max (ex_streaming w), sp_stable (ex_streaming w)) = ([1, 2], Sup_Streaming 5, False, 1, 3, 10)" for w by code_simp
  then have sp: "sp_waits ?sp = [1, 2]" "sp_phase ?sp = Sup_Streaming 5" "\<not> sp_closing ?sp" "sp_retry_initial ?sp = 1" "sp_retry_max ?sp = 3"
    "sp_stable ?sp = 10" by (metis prod.inject)+
  note waits = supervisor_backoff [OF ex_streaming_reachable [of ex_session], unfolded Let_def, THEN conjunct2, THEN conjunct1, THEN conjunct2, rule_format]
  have "sp_phase (streams_ended 14 (Rpc_Returned ()) ?sp) = Sup_Waiting 3"
    using waits [of 5 "Rpc_Returned ()" "streams_ended 14 (Rpc_Returned ()) ?sp" 14] sp by simp
  moreover have "sp_phase (streams_ended 15 (Rpc_Failed GRPC_UNAVAILABLE) ?sp) = Sup_Waiting 1"
    using waits [of 5 "Rpc_Failed GRPC_UNAVAILABLE" "streams_ended 15 (Rpc_Failed GRPC_UNAVAILABLE) ?sp" 15] sp
    by (simp add: retryable_status_def)
  ultimately show ?thesis using sp(1) by blast
qed

end
