(* ===== verification/Grpc_Receiver.thy ===== *)
theory Grpc_Receiver
  imports Receiver_Queue Wire_Codec Worker_Limits Grpc_Status
begin

text \<open>
  \<open>ek-transport/src/expertkit_transport/transports/grpc/receiver.py\<close>: the Worker's gRPC endpoint. Every call of
  the handler \<open>_execute\<close> is a record in \<open>gv_calls\<close>, and its index is the identity of its \<open>_GrpcReceivedBatch\<close>
  in the queue. The handler and the coroutines \<open>complete\<close> and \<open>reject\<close> of its batch are cut at their awaits:
  \<open>gc_phase\<close> is where the handler stands, \<open>gc_job\<close> where the completion stands. Decoding and encoding are the
  functions of the codec. The gRPC server delivers calls and cancels handlers at any time; spans, metrics
  and the CPU thread pool only observe or delay.
\<close>

section \<open>Calls\<close>

datatype response_future =
    Pending
  | Payload "nat list"
  | Native grpc_status string
  | Encode_Failed exn

datatype 'f completion_job = Encode_Output "'f matrix tensor" | Encode_Error transport_error | Finishing

datatype call_phase =
    Decoding
  | Awaiting
  | Replied "nat list"
  | Aborted grpc_status string
  | Handler_Cancelled
  | Handler_Raised exn

record 'f grpc_call =
  gc_batch :: "'f worker_batch option"
  gc_token_count :: nat
  gc_deadline :: "int option"
  gc_cancelled :: bool
  gc_response :: response_future
  gc_job :: "'f completion_job option"
  gc_phase :: call_phase

record 'f grpc_receiver =
  gv_spec :: worker_endpoint_config
  gv_queue :: receiver_queue
  gv_calls :: "'f grpc_call list"
  gv_closing :: bool
  gv_port :: "int option"
  gv_device :: "string option"

definition GrpcWorkerBatchReceiver :: "string \<Rightarrow> worker_endpoint_config \<Rightarrow> int \<Rightarrow> int \<Rightarrow> int option \<Rightarrow> exn + 'f grpc_receiver" where
  "GrpcWorkerBatchReceiver listen spec max_active max_pending cpu_workers =
     after (raise_first
       [(listen = [], ValueError ''listen must not be empty''),
        (max_active \<le> 0, ValueError ''max_active_batches must be a positive integer''),
        (max_pending \<le> 0, ValueError ''max_pending_batches must be a positive integer''),
        ((case cpu_workers of None \<Rightarrow> max_active | Some n \<Rightarrow> n) \<le> 0, ValueError ''cpu_workers must be a positive integer'')])
     (rbind (calculate_message_limits spec) (\<lambda>limits.
      rbind (ReceiverQueue max_pending (max_pending * gl_retained_request_tensor_bytes limits)) (\<lambda>q.
        Inr \<lparr>gv_spec = spec, gv_queue = q, gv_calls = [], gv_closing = False, gv_port = None, gv_device = None\<rparr>)))"

definition grpc_bound_port :: "'f grpc_receiver \<Rightarrow> exn + int" where
  "grpc_bound_port g = (case gv_port g of None \<Rightarrow> Inl (RuntimeError ''gRPC receiver has not been started'') | Some p \<Rightarrow> Inr p)"

text \<open>\<open>start\<close>; the port the server binds, 0 for none, is an argument.\<close>

definition grpc_start :: "int \<Rightarrow> 'f grpc_receiver \<Rightarrow> (exn + unit) \<times> 'f grpc_receiver" where
  "grpc_start port g =
     (if gv_closing g then (Inl (RuntimeError ''gRPC receiver is closing''), g)
      else if gv_port g \<noteq> None then (Inr (), g)
      else if port = 0 then (Inl (RuntimeError ''gRPC receiver could not bind its listen address''), g)
      else (Inr (), g\<lparr>gv_port := Some port\<rparr>))"

definition grpc_create_batch_buffers :: "batch_buffer_config \<Rightarrow> 'f grpc_receiver \<Rightarrow> (exn + unit) \<times> 'f grpc_receiver" where
  "grpc_create_batch_buffers buffers g =
     (let spec = gv_spec g in
      if (bf_max_batch_tokens buffers, bf_hidden_dim buffers, bf_top_k buffers, bf_dtype buffers) \<noteq>
         (we_max_batch_tokens spec, we_hidden_dim spec, we_top_k spec, we_dtype spec)
      then (Inl (ValueError ''Worker buffer shape does not match the gRPC endpoint''), g)
      else case gv_device g of
             None \<Rightarrow> (Inr (), g\<lparr>gv_device := Some (bf_device_type buffers)\<rparr>)
           | Some d \<Rightarrow> if d \<noteq> bf_device_type buffers then (Inl (ValueError ''all Worker execution slots must use the same device''), g)
                       else (Inr (), g))"

section \<open>The handler\<close>

definition set_call :: "nat \<Rightarrow> 'f grpc_call \<Rightarrow> 'f grpc_receiver \<Rightarrow> 'f grpc_receiver" where
  "set_call i c g = g\<lparr>gv_calls := (gv_calls g)[i := c]\<rparr>"

abbreviation call_of :: "'f grpc_receiver \<Rightarrow> nat \<Rightarrow> 'f grpc_call" where
  "call_of g i \<equiv> gv_calls g ! i"

definition call_item :: "nat \<Rightarrow> 'f worker_batch \<Rightarrow> received_item" where
  "call_item i b = \<lparr>ri_id = i, ri_layer = wb_layer_id b, ri_experts = wb_distinct_expert_ids b\<rparr>"

text \<open>Operations that only need the identity of a batch.\<close>

definition id_item :: "nat \<Rightarrow> received_item" where
  "id_item i = \<lparr>ri_id = i, ri_layer = 0, ri_experts = []\<rparr>"

definition execute_arrives :: "'f grpc_receiver \<Rightarrow> 'f grpc_receiver" where
  "execute_arrives g =
     g\<lparr>gv_calls := gv_calls g @ [\<lparr>gc_batch = None, gc_token_count = 0, gc_deadline = None, gc_cancelled = False, gc_response = Pending,
         gc_job = None, gc_phase = (if gv_closing g then Aborted GRPC_UNAVAILABLE ''Worker is shutting down'' else Decoding)\<rparr>]\<rparr>"

definition execute_decoded ::
  "'f codec \<Rightarrow> ('f, 'z) torch_ops_scheme \<Rightarrow> nat \<Rightarrow> nat list \<Rightarrow> int option \<Rightarrow> int \<Rightarrow> 'f grpc_receiver \<Rightarrow> 'f grpc_receiver" where
  "execute_decoded P T i payload remaining now g =
     (if gc_phase (call_of g i) \<noteq> Decoding then g
      else case decode_request_with_size P T payload (gv_spec g) of
        Inl (TransportProtocolError d) \<Rightarrow> set_call i ((call_of g i)\<lparr>gc_phase := Aborted GRPC_INVALID_ARGUMENT d\<rparr>) g
      | Inl e \<Rightarrow> set_call i ((call_of g i)\<lparr>gc_phase := Handler_Raised e\<rparr>) g
      | Inr decoded \<Rightarrow>
          let b = dr_batch decoded;
              c = (call_of g i)\<lparr>gc_batch := Some b, gc_token_count := wb_token_count b,
                    gc_deadline := map_option (\<lambda>r. now + max 0 r) remaining\<rparr>
          in (case queue_admit (call_item i b) (dr_retained_tensor_bytes decoded) (gv_queue g) of
                (Inl e, q) \<Rightarrow> set_call i (c\<lparr>gc_phase := Handler_Raised e\<rparr>) (g\<lparr>gv_queue := q\<rparr>)
              | (Inr (Some rejection), q) \<Rightarrow>
                  (case encode_error_response P rejection (gv_spec g) of
                     Inl e \<Rightarrow> set_call i (c\<lparr>gc_phase := Handler_Raised e\<rparr>) (g\<lparr>gv_queue := q\<rparr>)
                   | Inr bytes \<Rightarrow> set_call i (c\<lparr>gc_phase := Replied bytes\<rparr>) (g\<lparr>gv_queue := q\<rparr>))
              | (Inr None, q) \<Rightarrow> set_call i (c\<lparr>gc_phase := Awaiting\<rparr>) (g\<lparr>gv_queue := q\<rparr>)))"

text \<open>\<open>_cancel\<close> and the end of a cancelled handler.\<close>

definition cancel_call :: "nat \<Rightarrow> 'f grpc_receiver \<Rightarrow> 'f grpc_receiver" where
  "cancel_call i g =
     set_call i ((call_of g i)\<lparr>gc_cancelled := True, gc_phase := Handler_Cancelled\<rparr>)
       (g\<lparr>gv_queue := snd (queue_cancel_waiting (id_item i) (gv_queue g))\<rparr>)"

definition handler_cancelled :: "nat \<Rightarrow> 'f grpc_receiver \<Rightarrow> 'f grpc_receiver" where
  "handler_cancelled i g =
     (case gc_phase (call_of g i) of
        Decoding \<Rightarrow> set_call i ((call_of g i)\<lparr>gc_phase := Handler_Cancelled\<rparr>) g
      | Awaiting \<Rightarrow> cancel_call i g
      | _ \<Rightarrow> g)"

definition handler_wakes :: "nat \<Rightarrow> 'f grpc_receiver \<Rightarrow> 'f grpc_receiver" where
  "handler_wakes i g =
     (if gc_phase (call_of g i) \<noteq> Awaiting then g
      else case gc_response (call_of g i) of
             Pending \<Rightarrow> g
           | Payload bytes \<Rightarrow> set_call i ((call_of g i)\<lparr>gc_phase := Replied bytes\<rparr>) g
           | Native status d \<Rightarrow> set_call i ((call_of g i)\<lparr>gc_phase := Aborted status d\<rparr>) g
           | Encode_Failed e \<Rightarrow>
               if e = CancelledError then cancel_call i g
               else set_call i ((call_of g i)\<lparr>gc_phase := Aborted GRPC_INTERNAL ''failed to encode Worker response''\<rparr>) g)"

section \<open>Completion\<close>

definition native_error_status :: "transport_error_code \<Rightarrow> grpc_status option" where
  "native_error_status code =
     (case code of
        DEADLINE_EXCEEDED \<Rightarrow> Some GRPC_DEADLINE_EXCEEDED
      | CANCELLED \<Rightarrow> Some GRPC_CANCELLED
      | UNAVAILABLE \<Rightarrow> Some GRPC_UNAVAILABLE
      | PROTOCOL \<Rightarrow> Some GRPC_INVALID_ARGUMENT
      | _ \<Rightarrow> None)"

definition grpc_receive :: "'f grpc_receiver \<Rightarrow> (exn + received_item option) \<times> 'f grpc_receiver" where
  "grpc_receive g = (case queue_take (gv_queue g) of (r, q) \<Rightarrow> (r, g\<lparr>gv_queue := q\<rparr>))"

definition grpc_release_input :: "nat \<Rightarrow> 'f grpc_receiver \<Rightarrow> (exn + unit) \<times> 'f grpc_receiver" where
  "grpc_release_input i g =
     (case queue_require_active (id_item i) (gv_queue g) of
        Inl e \<Rightarrow> (Inl e, g)
      | Inr _ \<Rightarrow> (Inr (), set_call i ((call_of g i)\<lparr>gc_batch := None\<rparr>) g))"

text \<open>The response is set only while the call is not cancelled and has no response.\<close>

definition set_response :: "response_future \<Rightarrow> 'f grpc_call \<Rightarrow> 'f grpc_call" where
  "set_response r c = (if \<not> gc_cancelled c \<and> gc_response c = Pending then c\<lparr>gc_response := r\<rparr> else c)"

definition complete_success :: "nat \<Rightarrow> 'f matrix tensor \<Rightarrow> 'f grpc_receiver \<Rightarrow> (exn + unit) \<times> 'f grpc_receiver" where
  "complete_success i output g =
     (case queue_require_active (id_item i) (gv_queue g) of
        Inl e \<Rightarrow> (Inl e, g)
      | Inr _ \<Rightarrow>
          let c = call_of g i in
          if gc_cancelled c then (Inr (), set_call i (c\<lparr>gc_job := Some Finishing\<rparr>) g)
          else if ndim output \<noteq> 2 \<or> dim0 output \<noteq> gc_token_count c
          then let e = ValueError ''partial output token count does not match the received batch''
               in (Inl e, set_call i ((set_response (Encode_Failed e) c)\<lparr>gc_job := Some Finishing\<rparr>) g)
          else (Inr (), set_call i (c\<lparr>gc_job := Some (Encode_Output output)\<rparr>) g))"

definition complete_error :: "nat \<Rightarrow> transport_error \<Rightarrow> string \<Rightarrow> 'f grpc_receiver \<Rightarrow> (exn + unit) \<times> 'f grpc_receiver" where
  "complete_error i err code_text g =
     (case queue_require_active (id_item i) (gv_queue g) of
        Inl e \<Rightarrow> (Inl e, g)
      | Inr _ \<Rightarrow>
          let c = call_of g i in
          if gc_cancelled c then (Inr (), set_call i (c\<lparr>gc_job := Some Finishing\<rparr>) g)
          else case native_error_status (te_code err) of
                 Some status \<Rightarrow>
                   let d = (if te_diagnostic err \<noteq> [] then te_diagnostic err else code_text)
                   in (Inr (), set_call i ((if gc_response c = Pending then c\<lparr>gc_response := Native status d\<rparr> else c)\<lparr>gc_job := Some Finishing\<rparr>) g)
               | None \<Rightarrow> (Inr (), set_call i (c\<lparr>gc_job := Some (Encode_Error err)\<rparr>) g))"

text \<open>The end of the encoding, which the cancellation of the completing task interrupts.\<close>

definition encoded_job :: "'f codec \<Rightarrow> worker_endpoint_config \<Rightarrow> 'f completion_job \<Rightarrow> exn + nat list" where
  "encoded_job P spec job = (case job of Encode_Output t \<Rightarrow> encode_success_response P t spec | Encode_Error err \<Rightarrow> encode_error_response P err spec
     | Finishing \<Rightarrow> Inr [])"

definition completion_encoded :: "'f codec \<Rightarrow> bool \<Rightarrow> nat \<Rightarrow> 'f grpc_receiver \<Rightarrow> 'f grpc_receiver" where
  "completion_encoded P interrupted i g =
     (let c = call_of g i in
      case gc_job c of
        None \<Rightarrow> g
      | Some Finishing \<Rightarrow> g
      | Some job \<Rightarrow>
          (let r = (if interrupted then Encode_Failed CancelledError
                    else case encoded_job P (gv_spec g) job of Inl e \<Rightarrow> Encode_Failed e | Inr bytes \<Rightarrow> Payload bytes)
           in set_call i ((set_response r c)\<lparr>gc_job := Some Finishing\<rparr>) g))"

text \<open>\<open>_finish_active\<close>, shielded from cancellation.\<close>

definition finish_active :: "nat \<Rightarrow> 'f grpc_receiver \<Rightarrow> (exn + unit) \<times> 'f grpc_receiver" where
  "finish_active i g =
     (if gc_job (call_of g i) \<noteq> Some Finishing then (Inr (), g)
      else case queue_finish (id_item i) (gv_queue g) of
             (r, q) \<Rightarrow> (r, set_call i ((call_of g i)\<lparr>gc_batch := None, gc_job := None\<rparr>) (g\<lparr>gv_queue := q\<rparr>)))"

section \<open>Closing\<close>

definition grpc_close :: "'f grpc_receiver \<Rightarrow> 'f grpc_receiver" where
  "grpc_close g = g\<lparr>gv_closing := True\<rparr>"

definition cancel_waiting_call :: "nat \<Rightarrow> 'f grpc_receiver \<Rightarrow> 'f grpc_receiver" where
  "cancel_waiting_call i g = set_call i ((call_of g i)\<lparr>gc_cancelled := True\<rparr>) g"

definition grpc_close_queue :: "'f grpc_receiver \<Rightarrow> 'f grpc_receiver" where
  "grpc_close_queue g =
     (if \<not> gv_closing g then g
      else case queue_begin_close (gv_queue g) of
             (items, q) \<Rightarrow> fold (cancel_waiting_call \<circ> ri_id) items (g\<lparr>gv_queue := q\<rparr>))"

definition grpc_closed :: "'f grpc_receiver \<Rightarrow> bool" where
  "grpc_closed g \<longleftrightarrow> gv_closing g \<and> rq_closing (gv_queue g) \<and> wait_active_empty (gv_queue g)"

section \<open>Calls and the queue\<close>

abbreviation entry_of :: "receiver_queue \<Rightarrow> nat \<Rightarrow> queue_entry option" where
  "entry_of q i \<equiv> map_of (rq_entries q) i"

text \<open>How a call and its entry in the queue belong together.\<close>

definition call_ok :: "'f grpc_call \<Rightarrow> queue_entry option \<Rightarrow> bool" where
  "call_ok c entry \<longleftrightarrow> (case entry of
     None \<Rightarrow> gc_job c = None \<and> (gc_phase c = Awaiting \<and> \<not> gc_cancelled c \<longrightarrow> gc_response c \<noteq> Pending)
   | Some e \<Rightarrow> gc_phase c \<noteq> Decoding \<and>
       (case qe_state e of
          WAITING \<Rightarrow> gc_phase c = Awaiting \<and> \<not> gc_cancelled c \<and> gc_response c = Pending \<and> gc_job c = None
        | ACTIVE \<Rightarrow> (gc_response c \<noteq> Pending \<longrightarrow> gc_job c = Some Finishing) \<and> (gc_cancelled c \<longrightarrow> gc_phase c = Handler_Cancelled))) \<and>
   (gc_phase c = Decoding \<longrightarrow> gc_response c = Pending \<and> \<not> gc_cancelled c) \<and>
   (gc_job c = Some Finishing \<longrightarrow> gc_cancelled c \<or> gc_response c \<noteq> Pending)"

definition grpc_inv :: "'f grpc_receiver \<Rightarrow> bool" where
  "grpc_inv g \<longleftrightarrow> queue_inv (gv_queue g) \<and> (\<forall>i. entry_of (gv_queue g) i \<noteq> None \<longrightarrow> i < length (gv_calls g)) \<and>
     (\<forall>i<length (gv_calls g). call_ok (call_of g i) (entry_of (gv_queue g) i))"

lemma grpc_invD:
  assumes "grpc_inv g"
  shows "queue_inv (gv_queue g)" and "entry_of (gv_queue g) i \<noteq> None \<Longrightarrow> i < length (gv_calls g)"
    and "i < length (gv_calls g) \<Longrightarrow> call_ok (call_of g i) (entry_of (gv_queue g) i)"
  using assms by (auto simp: grpc_inv_def)

text \<open>The entries after each operation of the queue.\<close>

lemma admit_entries:
  assumes "queue_inv q" and "queue_admit item n q = (r, q')"
  shows "if r = Inr None
    then entry_of q (ri_id item) = None \<and> (\<exists>e. entry_of q' = (entry_of q)(ri_id item \<mapsto> e) \<and> qe_state e = WAITING)
    else q' = q"
  using assms(2) by (auto simp: queue_admit_def Let_def split: if_splits option.splits)

lemma take_entries:
  assumes "queue_inv q"
  shows "entry_of (snd (queue_take q)) = (case rq_waiting q of [] \<Rightarrow> entry_of q
    | e # _ \<Rightarrow> (entry_of q)(ri_id (qe_item e) \<mapsto> e\<lparr>qe_state := ACTIVE\<rparr>))"
    and "rq_waiting q = e # rest \<Longrightarrow> entry_of q (ri_id (qe_item e)) = Some e \<and> qe_state e = WAITING"
proof -
  have look: "entry_of q (ri_id (qe_item e)) = Some e \<and> qe_state e = WAITING" if "rq_waiting q = e # rest" for e rest
  proof -
    have "rq_waiting q = waiting_of (live q)" using assms unfolding queue_inv_def by blast
    then have "e \<in> set (waiting_of (live q))" using that by (metis list.set_intros(1))
    then have "e \<in> set (live q)" "qe_state e = WAITING" by simp_all
    then show ?thesis using assms by (auto simp: queue_inv_def dict_ok_def)
  qed
  then show "rq_waiting q = e # rest \<Longrightarrow> entry_of q (ri_id (qe_item e)) = Some e \<and> qe_state e = WAITING" by blast
  have d: "dict_ok (rq_entries q)" using assms by (simp add: queue_inv_def)
  show "entry_of (snd (queue_take q)) = (case rq_waiting q of [] \<Rightarrow> entry_of q
    | e # _ \<Rightarrow> (entry_of q)(ri_id (qe_item e) \<mapsto> e\<lparr>qe_state := ACTIVE\<rparr>))"
    using look by (auto simp: queue_take_def map_of_map_entry fun_eq_iff split: list.split)
qed

lemma cancel_entries:
  "entry_of (snd (queue_cancel_waiting item q)) =
     (case entry_of q (ri_id item) of Some e \<Rightarrow> if qe_state e = WAITING then (entry_of q)(ri_id item := None) else entry_of q | None \<Rightarrow> entry_of q)"
  by (simp add: queue_cancel_waiting_def split: option.split)

lemma finish_entries:
  assumes "entry_of q (ri_id item) = Some e" and "qe_state e = ACTIVE"
  shows "fst (queue_finish item q) = Inr ()" and "entry_of (snd (queue_finish item q)) = (entry_of q)(ri_id item := None)"
  using assms by (auto simp: queue_finish_def)

lemma close_entries:
  assumes "queue_inv q"
  shows "entry_of (snd (queue_begin_close q)) = (\<lambda>i. case entry_of q i of Some e \<Rightarrow> if qe_state e = WAITING then None else Some e | None \<Rightarrow> None)"
    and "set (map ri_id (fst (queue_begin_close q))) = (if rq_closing q then {} else {i. \<exists>e. entry_of q i = Some e \<and> qe_state e = WAITING})"
proof -
  have d: "dict_ok (rq_entries q)" and ids: "\<forall>p\<in>set (rq_entries q). ri_id (qe_item (snd p)) = fst p"
    and w: "rq_waiting q = waiting_of (live q)" and cl: "rq_closing q \<Longrightarrow> rq_waiting q = []"
    using assms unfolding queue_inv_def by blast+
  have waiting: "e \<in> set (rq_waiting q) \<longleftrightarrow> entry_of q (ri_id (qe_item e)) = Some e \<and> qe_state e = WAITING" for e
    using w d ids by (auto simp: dict_ok_def image_iff) (metis fst_conv snd_conv)+
  have own: "entry_of q i = Some e \<Longrightarrow> ri_id (qe_item e) = i" for i e
    using ids map_of_SomeD [of "rq_entries q" i e] by fastforce
  show "set (map ri_id (fst (queue_begin_close q))) = (if rq_closing q then {} else {i. \<exists>e. entry_of q i = Some e \<and> qe_state e = WAITING})"
    using waiting own by (auto simp: queue_begin_close_def image_iff) metis
  show "entry_of (snd (queue_begin_close q)) = (\<lambda>i. case entry_of q i of Some e \<Rightarrow> if qe_state e = WAITING then None else Some e | None \<Rightarrow> None)"
  proof (cases "rq_closing q")
    case True
    then show ?thesis using waiting cl own by (fastforce simp: queue_begin_close_def fun_eq_iff split: option.split)
  next
    case False
    have "map_of (filter (\<lambda>p. fst p \<notin> S) ps) i = (if i \<in> S then None else map_of ps i)" for S i and ps :: "(nat \<times> queue_entry) list"
      by (induction ps) auto
    then have at: "entry_of (snd (queue_begin_close q)) i =
        (if i \<in> (\<lambda>e. ri_id (qe_item e)) ` set (rq_waiting q) then None else entry_of q i)" for i
      using False by (simp add: queue_begin_close_def delete_all_eq)
    have "i \<in> (\<lambda>e. ri_id (qe_item e)) ` set (rq_waiting q) \<longleftrightarrow> (\<exists>e. entry_of q i = Some e \<and> qe_state e = WAITING)" for i
      using waiting own by blast
    then show ?thesis unfolding fun_eq_iff at by (auto split: option.split)
  qed
qed

text \<open>Replacing one call.\<close>

lemma set_call_inv:
  assumes "grpc_inv g" and "i < length (gv_calls g)" and "queue_inv q" and "entry_of q = (entry_of (gv_queue g))(i := x)" and "call_ok c x"
  shows "grpc_inv (set_call i c (g\<lparr>gv_queue := q\<rparr>))"
  unfolding grpc_inv_def
proof (intro conjI allI impI)
  show "queue_inv (gv_queue (set_call i c (g\<lparr>gv_queue := q\<rparr>)))" using assms(3) by (simp add: set_call_def)
  show "j < length (gv_calls (set_call i c (g\<lparr>gv_queue := q\<rparr>)))" if "entry_of (gv_queue (set_call i c (g\<lparr>gv_queue := q\<rparr>))) j \<noteq> None" for j
    using that assms(2,4) grpc_invD(2) [OF assms(1), of j] by (cases "j = i") (auto simp: set_call_def)
  show "call_ok (call_of (set_call i c (g\<lparr>gv_queue := q\<rparr>)) j) (entry_of (gv_queue (set_call i c (g\<lparr>gv_queue := q\<rparr>))) j)"
    if "j < length (gv_calls (set_call i c (g\<lparr>gv_queue := q\<rparr>)))" for j
    using that assms(2,4,5) grpc_invD(3) [OF assms(1), of j] by (cases "j = i") (simp_all add: set_call_def)
qed

lemma same_queue_inv:
  assumes "grpc_inv g" and "i < length (gv_calls g)" and "call_ok c (entry_of (gv_queue g) i)"
  shows "grpc_inv (set_call i c g)"
  using set_call_inv [OF assms(1,2) grpc_invD(1) [OF assms(1)], of "entry_of (gv_queue g) i" c] assms(3) by simp

lemma execute_decoded_inv:
  assumes "grpc_inv g" and "i < length (gv_calls g)"
  shows "grpc_inv (execute_decoded P T i payload remaining now g)"
proof (cases "gc_phase (call_of g i) = Decoding")
  case True
  have ok: "call_ok (call_of g i) (entry_of (gv_queue g) i)" by (rule grpc_invD(3) [OF assms])
  then have none: "entry_of (gv_queue g) i = None" and c: "gc_job (call_of g i) = None" "gc_response (call_of g i) = Pending" "\<not> gc_cancelled (call_of g i)"
    using True by (auto simp: call_ok_def split: option.splits)
  show ?thesis
  proof (cases "decode_request_with_size P T payload (gv_spec g)")
    case (Inl e)
    have "grpc_inv (set_call i ((call_of g i)\<lparr>gc_phase := p\<rparr>) g)" if "p \<noteq> Awaiting" "p \<noteq> Decoding" for p
      by (rule same_queue_inv [OF assms]) (use that c none in \<open>simp add: call_ok_def\<close>)
    then show ?thesis using True Inl by (simp add: execute_decoded_def split: exn.split)
  next
    case (Inr d)
    obtain r q where a: "queue_admit (call_item i (dr_batch d)) (dr_retained_tensor_bytes d) (gv_queue g) = (r, q)" by fastforce
    note entries = admit_entries [OF grpc_invD(1) [OF assms(1)] a]
    have q: "queue_inv q" using queue_inv_admit [OF grpc_invD(1) [OF assms(1)]] a by (metis snd_conv)
    have id: "ri_id (call_item i (dr_batch d)) = i" by (simp add: call_item_def)
    define c' where "c' = (call_of g i)\<lparr>gc_batch := Some (dr_batch d), gc_token_count := wb_token_count (dr_batch d),
        gc_deadline := map_option (\<lambda>r. now + max 0 r) remaining\<rparr>"
    have c': "gc_job c' = None" "gc_response c' = Pending" "\<not> gc_cancelled c'" using c by (simp_all add: c'_def)
    have other: "grpc_inv (set_call i (c'\<lparr>gc_phase := p\<rparr>) (g\<lparr>gv_queue := q\<rparr>))" if "r \<noteq> Inr None" "p \<noteq> Awaiting" "p \<noteq> Decoding" for p
      by (rule set_call_inv [OF assms q, of None]) (use that entries none c' id in \<open>auto simp: call_ok_def\<close>)
    have admitted: "grpc_inv (set_call i (c'\<lparr>gc_phase := Awaiting\<rparr>) (g\<lparr>gv_queue := q\<rparr>))" if "r = Inr None"
    proof -
      obtain e where "entry_of q = (entry_of (gv_queue g))(i \<mapsto> e)" "qe_state e = WAITING" using entries \<open>r = Inr None\<close> id by auto
      then show ?thesis by (intro set_call_inv [OF assms q, of "Some e"]) (use c' in \<open>auto simp: call_ok_def\<close>)
    qed
    have "execute_decoded P T i payload remaining now g =
      (case r of Inl e \<Rightarrow> set_call i (c'\<lparr>gc_phase := Handler_Raised e\<rparr>) (g\<lparr>gv_queue := q\<rparr>)
       | Inr (Some rejection) \<Rightarrow>
           (case encode_error_response P rejection (gv_spec g) of
              Inl e \<Rightarrow> set_call i (c'\<lparr>gc_phase := Handler_Raised e\<rparr>) (g\<lparr>gv_queue := q\<rparr>)
            | Inr bytes \<Rightarrow> set_call i (c'\<lparr>gc_phase := Replied bytes\<rparr>) (g\<lparr>gv_queue := q\<rparr>))
       | Inr None \<Rightarrow> set_call i (c'\<lparr>gc_phase := Awaiting\<rparr>) (g\<lparr>gv_queue := q\<rparr>))"
      using True Inr a by (simp add: execute_decoded_def Let_def c'_def split: sum.split option.split)
    then show ?thesis using other admitted by (auto split: sum.split option.split)
  qed
qed (simp add: execute_decoded_def assms(1))

lemma execute_arrives_inv:
  assumes "grpc_inv g"
  shows "grpc_inv (execute_arrives g)"
proof -
  have "entry_of (gv_queue g) (length (gv_calls g)) = None" using grpc_invD(2) [OF assms, of "length (gv_calls g)"] by fastforce
  then show ?thesis
    using assms by (auto simp: grpc_inv_def execute_arrives_def nth_append call_ok_def less_Suc_eq)
qed

lemma cancel_call_inv:
  assumes "grpc_inv g" and "i < length (gv_calls g)"
  shows "grpc_inv (cancel_call i g)"
proof -
  let ?e = "entry_of (gv_queue g) i"
  let ?x = "case ?e of Some e \<Rightarrow> if qe_state e = WAITING then None else ?e | None \<Rightarrow> None"
  have "entry_of (snd (queue_cancel_waiting (id_item i) (gv_queue g))) = (entry_of (gv_queue g))(i := ?x)"
    by (auto simp: cancel_entries id_item_def fun_eq_iff split: option.split)
  moreover have "call_ok ((call_of g i)\<lparr>gc_cancelled := True, gc_phase := Handler_Cancelled\<rparr>) ?x"
    using grpc_invD(3) [OF assms] by (auto simp: call_ok_def split: option.splits entry_state.splits)
  ultimately show ?thesis
    unfolding cancel_call_def by (intro set_call_inv [OF assms queue_inv_cancel [OF grpc_invD(1) [OF assms(1)]]])
qed

lemma handler_steps_inv:
  assumes "grpc_inv g" and "i < length (gv_calls g)"
  shows "grpc_inv (handler_cancelled i g)" and "grpc_inv (handler_wakes i g)"
proof -
  have ok: "call_ok (call_of g i) (entry_of (gv_queue g) i)" by (rule grpc_invD(3) [OF assms])
  have "grpc_inv (set_call i ((call_of g i)\<lparr>gc_phase := Handler_Cancelled\<rparr>) g)" if "gc_phase (call_of g i) = Decoding"
    by (rule same_queue_inv [OF assms]) (use ok that in \<open>auto simp: call_ok_def split: option.splits\<close>)
  then show "grpc_inv (handler_cancelled i g)"
    using assms(1) cancel_call_inv [OF assms] by (simp add: handler_cancelled_def split: call_phase.split)
  have "grpc_inv (set_call i ((call_of g i)\<lparr>gc_phase := p\<rparr>) g)"
    if "gc_phase (call_of g i) = Awaiting" "gc_response (call_of g i) \<noteq> Pending" "p \<noteq> Awaiting" "p \<noteq> Decoding" for p
    by (rule same_queue_inv [OF assms]) (use ok that in \<open>auto simp: call_ok_def split: option.splits entry_state.splits\<close>)
  then show "grpc_inv (handler_wakes i g)"
    using assms(1) cancel_call_inv [OF assms] by (simp add: handler_wakes_def split: response_future.split)
qed

text \<open>Completion: the batch is active from its first step to the end of \<open>_finish_active\<close>.\<close>

lemma require_active:
  "queue_require_active (id_item i) q = Inr u \<longleftrightarrow> (\<exists>e. entry_of q i = Some e \<and> qe_state e = ACTIVE)"
  by (auto simp: queue_require_active_def id_item_def split: option.splits)

lemma finishing_inv:
  assumes "grpc_inv g" and "i < length (gv_calls g)" and "entry_of (gv_queue g) i = Some e" "qe_state e = ACTIVE"
    and "gc_phase c = gc_phase (call_of g i)" "gc_cancelled c = gc_cancelled (call_of g i)"
    and "if gc_job c = Some Finishing then gc_cancelled c \<or> gc_response c \<noteq> Pending else gc_response c = Pending"
  shows "grpc_inv (set_call i c g)"
proof (rule same_queue_inv [OF assms(1,2)])
  have "gc_phase (call_of g i) \<noteq> Decoding" "gc_cancelled (call_of g i) \<longrightarrow> gc_phase (call_of g i) = Handler_Cancelled"
    using grpc_invD(3) [OF assms(1,2)] assms(3,4) by (auto simp: call_ok_def)
  then show "call_ok c (entry_of (gv_queue g) i)" using assms(3-7) by (auto simp: call_ok_def split: if_splits)
qed

lemma complete_success_inv:
  assumes "grpc_inv g" and "i < length (gv_calls g)" and "gc_job (call_of g i) = None"
  shows "grpc_inv (snd (complete_success i output g))"
proof (cases "queue_require_active (id_item i) (gv_queue g)")
  case (Inr u)
  then obtain e where e: "entry_of (gv_queue g) i = Some e" "qe_state e = ACTIVE" using require_active by metis
  then have "gc_response (call_of g i) = Pending" using grpc_invD(3) [OF assms(1,2)] assms(3) by (auto simp: call_ok_def)
  then show ?thesis using Inr by (auto simp: complete_success_def Let_def set_response_def intro!: finishing_inv [OF assms(1,2) e])
qed (simp add: complete_success_def assms(1))

lemma complete_error_inv:
  assumes "grpc_inv g" and "i < length (gv_calls g)" and "gc_job (call_of g i) = None"
  shows "grpc_inv (snd (complete_error i err code_text g))"
proof (cases "queue_require_active (id_item i) (gv_queue g)")
  case (Inr u)
  then obtain e where e: "entry_of (gv_queue g) i = Some e" "qe_state e = ACTIVE" using require_active by metis
  then have "gc_response (call_of g i) = Pending" using grpc_invD(3) [OF assms(1,2)] assms(3) by (auto simp: call_ok_def)
  then show ?thesis using Inr
    by (auto simp: complete_error_def Let_def split: option.split intro!: finishing_inv [OF assms(1,2) e])
qed (simp add: complete_error_def assms(1))

lemma job_active:
  assumes "grpc_inv g" and "i < length (gv_calls g)" and "gc_job (call_of g i) = Some job"
  obtains e where "entry_of (gv_queue g) i = Some e" and "qe_state e = ACTIVE"
  using grpc_invD(3) [OF assms(1,2)] assms(3) by (auto simp: call_ok_def split: option.splits entry_state.splits)

lemma completion_encoded_inv:
  assumes "grpc_inv g" and "i < length (gv_calls g)"
  shows "grpc_inv (completion_encoded P interrupted i g)"
proof (cases "gc_job (call_of g i)")
  case (Some job)
  then obtain e where e: "entry_of (gv_queue g) i = Some e" "qe_state e = ACTIVE" by (rule job_active [OF assms])
  have "grpc_inv (set_call i ((set_response r (call_of g i))\<lparr>gc_job := Some Finishing\<rparr>) g)" if "r \<noteq> Pending" for r
    by (rule finishing_inv [OF assms e]) (simp_all add: set_response_def that)
  then show ?thesis using Some assms(1) by (auto simp: completion_encoded_def Let_def split: completion_job.split sum.split)
qed (simp add: completion_encoded_def assms(1))

lemma finish_active_ok:
  assumes "grpc_inv g" and "i < length (gv_calls g)"
  shows "grpc_inv (snd (finish_active i g)) \<and> fst (finish_active i g) = Inr () \<and>
    (gc_job (call_of g i) = Some Finishing \<longrightarrow> entry_of (gv_queue (snd (finish_active i g))) i = None)"
proof (cases "gc_job (call_of g i) = Some Finishing")
  case True
  then obtain e where e: "entry_of (gv_queue g) i = Some e" "qe_state e = ACTIVE" by (rule job_active [OF assms])
  have id: "ri_id (id_item i) = i" by (simp add: id_item_def)
  note f = finish_entries [of "gv_queue g" "id_item i" e, unfolded id, OF e]
  obtain q where q: "queue_finish (id_item i) (gv_queue g) = (Inr (), q)" "entry_of q = (entry_of (gv_queue g))(i := None)"
    using f by (metis prod.collapse)
  have "queue_inv q" using queue_inv_finish [OF grpc_invD(1) [OF assms(1)], of "id_item i"] q(1) by simp
  moreover have "call_ok ((call_of g i)\<lparr>gc_batch := None, gc_job := None\<rparr>) None"
    using grpc_invD(3) [OF assms] True e by (auto simp: call_ok_def)
  ultimately have "grpc_inv (set_call i ((call_of g i)\<lparr>gc_batch := None, gc_job := None\<rparr>) (g\<lparr>gv_queue := q\<rparr>))"
    by (intro set_call_inv [OF assms _ q(2)])
  then show ?thesis using True q by (simp add: finish_active_def set_call_def)
qed (simp add: finish_active_def assms(1))

lemma release_input_inv:
  assumes "grpc_inv g" and "i < length (gv_calls g)"
  shows "grpc_inv (snd (grpc_release_input i g))"
proof -
  have "call_ok ((call_of g i)\<lparr>gc_batch := None\<rparr>) (entry_of (gv_queue g) i)"
    using grpc_invD(3) [OF assms] by (auto simp: call_ok_def split: option.splits entry_state.splits)
  from same_queue_inv [OF assms this] show ?thesis by (simp add: grpc_release_input_def assms(1) split: sum.split)
qed

lemma receive_inv:
  assumes "grpc_inv g"
  shows "grpc_inv (snd (grpc_receive g))"
proof (cases "rq_waiting (gv_queue g)")
  case Nil
  then show ?thesis using assms by (simp add: grpc_receive_def queue_take_def)
next
  case (Cons e rest)
  note q = grpc_invD(1) [OF assms]
  let ?i = "ri_id (qe_item e)" and ?q = "snd (queue_take (gv_queue g))"
  have e: "entry_of (gv_queue g) ?i = Some e" "qe_state e = WAITING" using take_entries(2) [OF q Cons] by auto
  have i: "?i < length (gv_calls g)" by (rule grpc_invD(2) [OF assms]) (simp add: e)
  have "call_ok (call_of g ?i) (Some (e\<lparr>qe_state := ACTIVE\<rparr>))" using grpc_invD(3) [OF assms i] e by (auto simp: call_ok_def)
  then have "grpc_inv (set_call ?i (call_of g ?i) (g\<lparr>gv_queue := ?q\<rparr>))"
    using take_entries(1) [OF q] Cons by (intro set_call_inv [OF assms i queue_inv_take [OF q]]) (simp_all add: fun_eq_iff)
  moreover have "set_call ?i (call_of g ?i) (g\<lparr>gv_queue := ?q\<rparr>) = snd (grpc_receive g)"
    by (simp add: grpc_receive_def set_call_def case_prod_unfold)
  ultimately show ?thesis by simp
qed

lemma gates_inv:
  assumes "grpc_inv g" and "queue_inv q" and "rq_entries q = rq_entries (gv_queue g)"
  shows "grpc_inv (g\<lparr>gv_queue := q\<rparr>)"
  using assms by (simp add: grpc_inv_def)

lemma cancel_waiting_calls:
  "gv_queue (fold (cancel_waiting_call \<circ> ri_id) items g) = gv_queue g"
  "length (gv_calls (fold (cancel_waiting_call \<circ> ri_id) items g)) = length (gv_calls g)"
  "j < length (gv_calls g) \<Longrightarrow> call_of (fold (cancel_waiting_call \<circ> ri_id) items g) j =
     (if j \<in> ri_id ` set items then (call_of g j)\<lparr>gc_cancelled := True\<rparr> else call_of g j)"
proof (induction items arbitrary: g)
  case (Cons a items)
  { case 1 then show ?case using Cons(1) by (simp add: cancel_waiting_call_def set_call_def) }
  { case 2 then show ?case using Cons(2) by (simp add: cancel_waiting_call_def set_call_def) }
  { case 3
    then show ?case using Cons(3) [of "cancel_waiting_call (ri_id a) g"]
      by (cases "j = ri_id a") (simp_all add: cancel_waiting_call_def set_call_def image_iff) }
qed simp_all

lemma close_queue_inv:
  assumes "grpc_inv g"
  shows "grpc_inv (grpc_close_queue g)"
proof (cases "gv_closing g")
  case True
  note q = grpc_invD(1) [OF assms]
  obtain items q' where c: "queue_begin_close (gv_queue g) = (items, q')" by fastforce
  note entries = close_entries [OF q, unfolded c, simplified]
  have inv: "queue_inv q'" using queue_inv_close [OF q] c by simp
  have "call_ok (call_of (grpc_close_queue g) j) (entry_of q' j)" if j: "j < length (gv_calls g)" for j
  proof -
    have at: "call_of (grpc_close_queue g) j = (if j \<in> ri_id ` set items then (call_of g j)\<lparr>gc_cancelled := True\<rparr> else call_of g j)"
      using True c cancel_waiting_calls(3) [of j "g\<lparr>gv_queue := q'\<rparr>" items] j by (simp add: grpc_close_queue_def)
    have closed: "rq_closing (gv_queue g) \<Longrightarrow> entry_of (gv_queue g) j = Some e \<Longrightarrow> qe_state e \<noteq> WAITING" for e
    proof
      assume "rq_closing (gv_queue g)" "entry_of (gv_queue g) j = Some e" "qe_state e = WAITING"
      moreover have "e \<in> set (live (gv_queue g))" using \<open>entry_of (gv_queue g) j = Some e\<close> by (force dest: map_of_SomeD)
      ultimately have "e \<in> set (waiting_of (live (gv_queue g)))" by simp
      moreover have "waiting_of (live (gv_queue g)) = []" using q \<open>rq_closing (gv_queue g)\<close> unfolding queue_inv_def by metis
      ultimately show False by simp
    qed
    show ?thesis
      using grpc_invD(3) [OF assms j] closed unfolding at entries
      by (auto simp: call_ok_def split: option.splits entry_state.splits if_splits)
  qed
  moreover have "entry_of q' i \<noteq> None \<Longrightarrow> i < length (gv_calls g)" for i
    using grpc_invD(2) [OF assms, of i] entries(1) by (auto split: option.splits)
  ultimately show ?thesis
    using True c inv cancel_waiting_calls(1,2) [of items "g\<lparr>gv_queue := q'\<rparr>"] by (auto simp: grpc_inv_def grpc_close_queue_def)
qed (simp add: grpc_close_queue_def assms)

section \<open>Interleavings\<close>

text \<open>
  The steps of the endpoint. A batch is completed or rejected by whoever received it, and not again while
  that completion is under way.
\<close>

inductive grpc_step :: "'f codec \<Rightarrow> ('f, 'z) torch_ops_scheme \<Rightarrow> 'f grpc_receiver \<Rightarrow> 'f grpc_receiver \<Rightarrow> bool" for P T where
  "grpc_step P T g (snd (grpc_start port g))"
| "grpc_step P T g (snd (grpc_create_batch_buffers buffers g))"
| "grpc_step P T g (execute_arrives g)"
| "i < length (gv_calls g) \<Longrightarrow> grpc_step P T g (execute_decoded P T i payload remaining now g)"
| "i < length (gv_calls g) \<Longrightarrow> grpc_step P T g (handler_cancelled i g)"
| "i < length (gv_calls g) \<Longrightarrow> grpc_step P T g (handler_wakes i g)"
| "grpc_step P T g (snd (grpc_receive g))"
| "i < length (gv_calls g) \<Longrightarrow> grpc_step P T g (snd (grpc_release_input i g))"
| "i < length (gv_calls g) \<Longrightarrow> gc_job (call_of g i) = None \<Longrightarrow> grpc_step P T g (snd (complete_success i output g))"
| "i < length (gv_calls g) \<Longrightarrow> gc_job (call_of g i) = None \<Longrightarrow> grpc_step P T g (snd (complete_error i err code_text g))"
| "i < length (gv_calls g) \<Longrightarrow> grpc_step P T g (completion_encoded P interrupted i g)"
| "i < length (gv_calls g) \<Longrightarrow> grpc_step P T g (snd (finish_active i g))"
| "grpc_step P T g (g\<lparr>gv_queue := snd (queue_begin_drain experts version stop_all (gv_queue g))\<rparr>)"
| "grpc_step P T g (g\<lparr>gv_queue := snd (queue_clear_expert_drains experts (gv_queue g))\<rparr>)"
| "grpc_step P T g (grpc_close g)"
| "grpc_step P T g (grpc_close_queue g)"

definition grpc_init :: "'f grpc_receiver \<Rightarrow> bool" where
  "grpc_init g \<longleftrightarrow> (\<exists>listen spec max_active max_pending cpu_workers. GrpcWorkerBatchReceiver listen spec max_active max_pending cpu_workers = Inr g)"

lemma grpc_init_inv: "grpc_init g \<Longrightarrow> grpc_inv g"
  by (auto simp: grpc_init_def GrpcWorkerBatchReceiver_def grpc_inv_def ReceiverQueue_inv) (auto simp: ReceiverQueue_def)

lemma flags_kept:
  "grpc_inv g \<Longrightarrow> grpc_inv (snd (grpc_start port g))" "grpc_inv g \<Longrightarrow> grpc_inv (snd (grpc_create_batch_buffers buffers g))" "grpc_inv g \<Longrightarrow> grpc_inv (grpc_close g)"
  by (auto simp: grpc_start_def grpc_create_batch_buffers_def grpc_close_def grpc_inv_def Let_def split: option.split)

lemma drain_steps_kept:
  assumes "grpc_inv g"
  shows "grpc_inv (g\<lparr>gv_queue := snd (queue_begin_drain experts version stop_all (gv_queue g))\<rparr>)"
    and "grpc_inv (g\<lparr>gv_queue := snd (queue_clear_expert_drains experts (gv_queue g))\<rparr>)"
proof -
  note inv = queue_inv_gates [OF grpc_invD(1) [OF assms]]
  show "grpc_inv (g\<lparr>gv_queue := snd (queue_begin_drain experts version stop_all (gv_queue g))\<rparr>)"
    by (rule gates_inv [OF assms inv(1)]) (simp add: queue_begin_drain_def split: option.split)
  show "grpc_inv (g\<lparr>gv_queue := snd (queue_clear_expert_drains experts (gv_queue g))\<rparr>)"
    by (rule gates_inv [OF assms inv(2)]) (simp add: queue_clear_expert_drains_def split: option.split)
qed

lemma grpc_step_inv: "grpc_inv g \<Longrightarrow> grpc_step P T g g' \<Longrightarrow> grpc_inv g'"
  by (erule grpc_step.cases) (simp_all add: flags_kept execute_arrives_inv execute_decoded_inv handler_steps_inv receive_inv release_input_inv
      complete_success_inv complete_error_inv completion_encoded_inv finish_active_ok drain_steps_kept close_queue_inv)

interpretation endpoint: invariant_system grpc_init "grpc_step P T" grpc_inv for P :: "'f codec" and T :: "('f, 'z) torch_ops_scheme"
  by unfold_locales (auto intro: grpc_init_inv grpc_step_inv)


section \<open>Every call is answered\<close>

text \<open>A completion runs to the end of its queue entry: encode, release the entry, wake the handler.\<close>

definition completion_rest :: "'f codec \<Rightarrow> bool \<Rightarrow> nat \<Rightarrow> 'f grpc_receiver \<Rightarrow> 'f grpc_receiver" where
  "completion_rest P interrupted i g = handler_wakes i (snd (finish_active i (completion_encoded P interrupted i g)))"

lemma set_call_at: "i < length (gv_calls g) \<Longrightarrow> call_of (set_call i c g) i = c"
  by (simp add: set_call_def)

lemma encoded_finishing:
  fixes g :: "'f grpc_receiver" and P :: "'f codec" and interrupted :: bool
  assumes "grpc_inv g" and "i < length (gv_calls g)" and "gc_job (call_of g i) = Some job"
  defines "g' \<equiv> completion_encoded P interrupted i g"
  shows "gc_job (call_of g' i) = Some Finishing" and "gc_phase (call_of g' i) = gc_phase (call_of g i)"
    and "gc_phase (call_of g i) = Awaiting \<Longrightarrow> gc_response (call_of g' i) \<noteq> Pending"
    and "length (gv_calls g') = length (gv_calls g)"
proof -
  obtain e where e: "entry_of (gv_queue g) i = Some e" "qe_state e = ACTIVE" by (rule job_active [OF assms(1-3)])
  have ok: "gc_cancelled (call_of g i) \<Longrightarrow> gc_phase (call_of g i) = Handler_Cancelled"
    "job = Finishing \<Longrightarrow> gc_cancelled (call_of g i) \<or> gc_response (call_of g i) \<noteq> Pending"
    using grpc_invD(3) [OF assms(1,2)] assms(3) e by (auto simp: call_ok_def)
  show "gc_job (call_of g' i) = Some Finishing" "gc_phase (call_of g' i) = gc_phase (call_of g i)"
    "length (gv_calls g') = length (gv_calls g)"
    using assms(2,3) by (auto simp: g'_def completion_encoded_def Let_def set_call_def set_response_def split: completion_job.split sum.split)
  show "gc_response (call_of g' i) \<noteq> Pending" if "gc_phase (call_of g i) = Awaiting"
    using assms(2,3) ok that
    by (auto simp: g'_def completion_encoded_def Let_def set_call_def set_response_def split: completion_job.split sum.split)
qed

lemma completion_rest_ends:
  fixes g :: "'f grpc_receiver" and P :: "'f codec" and interrupted :: bool
  assumes "grpc_inv g" and "i < length (gv_calls g)" and "gc_job (call_of g i) = Some job"
  defines "g' \<equiv> completion_rest P interrupted i g"
  shows "entry_of (gv_queue g') i = None" and "gc_phase (call_of g' i) \<notin> {Decoding, Awaiting}"
proof -
  define h where "h = completion_encoded P interrupted i g"
  define k where "k = snd (finish_active i h)"
  note e = encoded_finishing [OF assms(1-3), where P = P and interrupted = interrupted, folded h_def]
  obtain e' where "entry_of (gv_queue g) i = Some e'" by (rule job_active [OF assms(1-3)])
  then have phase: "gc_phase (call_of g i) \<noteq> Decoding"
    using grpc_invD(3) [OF assms(1,2)] by (simp add: call_ok_def)
  have ih: "i < length (gv_calls h)" using e(4) assms(2) by simp
  have hinv: "grpc_inv h" unfolding h_def by (rule completion_encoded_inv [OF assms(1,2)])
  have k: "entry_of (gv_queue k) i = None" using finish_active_ok [OF hinv ih] e(1) unfolding k_def by auto
  have kc: "length (gv_calls k) = length (gv_calls h)" "gc_phase (call_of k i) = gc_phase (call_of g i)"
    "gc_response (call_of k i) = gc_response (call_of h i)"
    using ih e by (simp_all add: k_def finish_active_def set_call_def split: prod.split)
  have g': "g' = handler_wakes i k" by (simp add: g'_def completion_rest_def k_def h_def)
  show "gc_phase (call_of g' i) \<notin> {Decoding, Awaiting}"
    using kc ih e(3) phase unfolding g'
    by (cases "gc_phase (call_of g i) = Awaiting")
      (auto simp: handler_wakes_def cancel_call_def set_call_def split: response_future.split)
  show "entry_of (gv_queue g') i = None"
    using k unfolding g' by (auto simp: handler_wakes_def cancel_call_def set_call_def cancel_entries id_item_def split: response_future.split)
qed

lemma completion_started:
  assumes "entry_of (gv_queue g) i = Some e" and "qe_state e = ACTIVE" and "i < length (gv_calls g)"
  shows "gc_job (call_of (snd (complete_success i t g)) i) \<noteq> None" and "gc_job (call_of (snd (complete_error i err d g)) i) \<noteq> None"
    and "length (gv_calls (snd (complete_success i t g))) = length (gv_calls g)"
    and "length (gv_calls (snd (complete_error i err d g))) = length (gv_calls g)"
proof -
  have "queue_require_active (id_item i) (gv_queue g) = Inr ()" using assms(1,2) require_active by blast
  note r = this assms(3)
  show "gc_job (call_of (snd (complete_success i t g)) i) \<noteq> None" "gc_job (call_of (snd (complete_error i err d g)) i) \<noteq> None"
    "length (gv_calls (snd (complete_success i t g))) = length (gv_calls g)"
    "length (gv_calls (snd (complete_error i err d g))) = length (gv_calls g)"
    using r by (auto simp: complete_success_def complete_error_def Let_def set_call_def set_response_def split: option.split)
qed

text \<open>The reply of an uninterrupted completion whose output fits the request.\<close>

lemma completion_replies:
  assumes "grpc_inv g" and "entry_of (gv_queue g) i = Some e" and "qe_state e = ACTIVE" and "gc_job (call_of g i) = None"
    and "gc_phase (call_of g i) = Awaiting" and "\<not> gc_cancelled (call_of g i)"
    and "ndim output = 2" and "dim0 output = gc_token_count (call_of g i)"
    and "encode_success_response P output (gv_spec g) = Inr bytes"
  shows "gc_phase (call_of (completion_rest P False i (snd (complete_success i output g))) i) = Replied bytes"
proof -
  have i: "i < length (gv_calls g)" by (rule grpc_invD(2) [OF assms(1)]) (simp add: assms(2))
  have "queue_require_active (id_item i) (gv_queue g) = Inr ()" using assms(2,3) require_active by blast
  moreover have "gc_response (call_of g i) = Pending" using grpc_invD(3) [OF assms(1) i] assms(2-4) by (auto simp: call_ok_def)
  ultimately show ?thesis
    using assms(4-9) i
    by (simp add: completion_rest_def complete_success_def completion_encoded_def encoded_job_def finish_active_def handler_wakes_def
        set_response_def set_call_def Let_def split: prod.split)
qed

text \<open>
  C5. In every interleaving of the gRPC endpoint with its clients, its executor and its shutdown, a call whose
  handler still awaits its response is either cancelled, already answered, or held by the receiver queue; a
  batch that waits in the queue belongs to an uncancelled call without a response; a batch whose call has a
  response leaves the queue with the completion under way. Once a received batch is completed or rejected,
  whether its caller is still there or has cancelled, however the encoding goes and whether or not the completing task is
  cancelled, the rest of the completion removes its queue entry and ends the handler; and so does the rest of any
  completion under way, whatever happened since it began. If the caller is still there and the encoding
  succeeds the handler replies its bytes.
\<close>

theorem grpc_calls_answered:
  assumes "reachable grpc_init (grpc_step P T) g" and "i < length (gv_calls g)"
  shows "(gc_phase (call_of g i) = Awaiting \<longrightarrow>
            gc_cancelled (call_of g i) \<or> gc_response (call_of g i) \<noteq> Pending \<or> i \<in> dom (entry_of (gv_queue g)))
    \<and> (\<forall>e. entry_of (gv_queue g) i = Some e \<longrightarrow>
          (if qe_state e = WAITING
           then gc_phase (call_of g i) = Awaiting \<and> \<not> gc_cancelled (call_of g i) \<and> gc_response (call_of g i) = Pending
           else gc_response (call_of g i) \<noteq> Pending \<longrightarrow> gc_job (call_of g i) = Some Finishing))
    \<and> (\<forall>e t err code_text interrupted g1. entry_of (gv_queue g) i = Some e \<and> qe_state e = ACTIVE \<and> gc_job (call_of g i) = None \<and>
          g1 \<in> {snd (complete_success i t g), snd (complete_error i err code_text g)} \<longrightarrow>
            entry_of (gv_queue (completion_rest P interrupted i g1)) i = None \<and>
            gc_phase (call_of (completion_rest P interrupted i g1) i) \<notin> {Decoding, Awaiting})
    \<and> (\<forall>interrupted. gc_job (call_of g i) \<noteq> None \<longrightarrow>
          entry_of (gv_queue (completion_rest P interrupted i g)) i = None \<and>
          gc_phase (call_of (completion_rest P interrupted i g) i) \<notin> {Decoding, Awaiting})
    \<and> (\<forall>e t bytes. entry_of (gv_queue g) i = Some e \<and> qe_state e = ACTIVE \<and> gc_job (call_of g i) = None \<and>
          gc_phase (call_of g i) = Awaiting \<and> \<not> gc_cancelled (call_of g i) \<and>
          ndim t = 2 \<and> dim0 t = gc_token_count (call_of g i) \<and> encode_success_response P t (gv_spec g) = Inr bytes \<longrightarrow>
            gc_phase (call_of (completion_rest P False i (snd (complete_success i t g))) i) = Replied bytes)"
proof -
  note inv = endpoint.reachable_inv [OF assms(1)]
  note ok = grpc_invD(3) [OF inv assms(2)]
  have ends: "entry_of (gv_queue (completion_rest P interrupted i g1)) i = None \<and>
      gc_phase (call_of (completion_rest P interrupted i g1) i) \<notin> {Decoding, Awaiting}"
    if c: "entry_of (gv_queue g) i = Some e" "qe_state e = ACTIVE" "gc_job (call_of g i) = None" and g1: "g1 \<in> {snd (complete_success i t g), snd (complete_error i err d g)}"
    for e t err d interrupted g1
  proof -
    note s = completion_started [OF c(1,2) assms(2)]
    have inv1: "grpc_inv g1"
      using g1 complete_success_inv [OF inv assms(2) c(3), of t] complete_error_inv [OF inv assms(2) c(3), of err d] by auto
    have g1': "gc_job (call_of g1 i) \<noteq> None" "i < length (gv_calls g1)"
      using g1 s(1,3) [of t] s(2,4) [of err d] assms(2) by (elim insertE emptyE; simp)+
    then obtain job where "gc_job (call_of g1 i) = Some job" by blast
    from completion_rest_ends [OF inv1 g1'(2) this] show ?thesis by blast
  qed
  show ?thesis
  proof (intro conjI allI impI)
    show "gc_cancelled (call_of g i) \<or> gc_response (call_of g i) \<noteq> Pending \<or> i \<in> dom (entry_of (gv_queue g))"
      if "gc_phase (call_of g i) = Awaiting" using ok that by (auto simp: call_ok_def split: option.splits)
    show "if qe_state e = WAITING
           then gc_phase (call_of g i) = Awaiting \<and> \<not> gc_cancelled (call_of g i) \<and> gc_response (call_of g i) = Pending
           else gc_response (call_of g i) \<noteq> Pending \<longrightarrow> gc_job (call_of g i) = Some Finishing"
      if "entry_of (gv_queue g) i = Some e" for e
      using ok that by (simp add: call_ok_def split: entry_state.splits)
  next
    fix e t err d interrupted g1
    assume a: "entry_of (gv_queue g) i = Some e \<and> qe_state e = ACTIVE \<and> gc_job (call_of g i) = None \<and>
      g1 \<in> {snd (complete_success i t g), snd (complete_error i err d g)}"
    note ended = ends [of e g1 t err d interrupted]
    show "entry_of (gv_queue (completion_rest P interrupted i g1)) i = None" by (rule conjunct1 [OF ended]) (use a in simp_all)
    show "gc_phase (call_of (completion_rest P interrupted i g1) i) \<notin> {Decoding, Awaiting}" by (rule conjunct2 [OF ended]) (use a in simp_all)
  next
    fix interrupted assume "gc_job (call_of g i) \<noteq> None"
    then obtain job where "gc_job (call_of g i) = Some job" by blast
    from completion_rest_ends [OF inv assms(2) this]
    show "entry_of (gv_queue (completion_rest P interrupted i g)) i = None"
      "gc_phase (call_of (completion_rest P interrupted i g) i) \<notin> {Decoding, Awaiting}" by blast+
  next
    fix e t bytes
    assume a: "entry_of (gv_queue g) i = Some e \<and> qe_state e = ACTIVE \<and> gc_job (call_of g i) = None \<and>
      gc_phase (call_of g i) = Awaiting \<and> \<not> gc_cancelled (call_of g i) \<and>
      ndim t = 2 \<and> dim0 t = gc_token_count (call_of g i) \<and> encode_success_response P t (gv_spec g) = Inr bytes"
    show "gc_phase (call_of (completion_rest P False i (snd (complete_success i t g))) i) = Replied bytes"
      by (rule completion_replies [OF inv, of i e]) (use a in simp_all)
  qed
qed

text \<open>One call for one token reaches the executor; the parser of the example knows one request, and its serializer sends the tensor's bytes.\<close>

definition ex_call_codec :: "int codec" where
  "ex_call_codec = ex_codec
    \<lparr>pc_parse_request := (\<lambda>_. Some \<lparr>er_instance_id = 5, er_layer_id = 1, er_topology_version = 3, er_token_count = 1, er_hidden_dim = 2, er_top_k = 2, er_dtype = 2,
         er_hidden_states = [1, 0, 2, 0], er_expert_ids = [3, 0, 0, 0, 1, 0, 0, 0], er_routing_weights = [1, 0, 0, 0, 1, 0, 0, 0]\<rparr>),
     pc_serialize_response := (\<lambda>m. case m of Response_Partial_Output bytes \<Rightarrow> bytes | _ \<Rightarrow> []),
     pc_float_bytes := (\<lambda>d x. [nat x, 0]), pc_float_of_bytes := (\<lambda>d bs. int (hd bs))\<rparr>"

definition ex_grpc_started :: "int grpc_receiver" where
  "ex_grpc_started = projr (GrpcWorkerBatchReceiver ''0.0.0.0:1'' ex_endpoint 1 2 None)"

definition ex_grpc_received :: "int grpc_receiver" where
  "ex_grpc_received = snd (grpc_receive (execute_decoded ex_call_codec torch_ref 0 [7] (Some 9) 4 (execute_arrives ex_grpc_started)))"

definition ex_grpc_output :: "int matrix tensor" where
  "ex_grpc_output = mk_matrix BFloat16 ''cpu'' 2 [[7, 8]]"

lemma spec_kept:
  "gv_spec (snd (grpc_receive g)) = gv_spec g" "gv_spec (execute_decoded P T i payload remaining now g) = gv_spec g" "gv_spec (execute_arrives g) = gv_spec g"
  by (simp_all add: grpc_receive_def execute_decoded_def execute_arrives_def set_call_def Let_def split: prod.split sum.split exn.split option.split)

lemma GrpcWorkerBatchReceiver_spec: "GrpcWorkerBatchReceiver listen spec max_active max_pending cpu_workers = Inr g \<Longrightarrow> gv_spec g = spec"
  by (auto simp: GrpcWorkerBatchReceiver_def)

lemma ex_grpc_started: "GrpcWorkerBatchReceiver ''0.0.0.0:1'' ex_endpoint 1 2 None = Inr ex_grpc_started"
proof -
  have "isl (GrpcWorkerBatchReceiver ''0.0.0.0:1'' ex_endpoint 1 2 None :: exn + int grpc_receiver) = False" by code_simp
  then show ?thesis unfolding ex_grpc_started_def by simp
qed

lemma ex_grpc_received_reachable: "reachable grpc_init (grpc_step ex_call_codec torch_ref) ex_grpc_received"
proof -
  have "grpc_init ex_grpc_started" using ex_grpc_started unfolding grpc_init_def by blast
  note r = reachable.reach_init [of grpc_init, OF this]
  note r = reachable.reach_step [of grpc_init "grpc_step ex_call_codec torch_ref", OF r grpc_step.intros(3)]
  note r = reachable.reach_step [of grpc_init "grpc_step ex_call_codec torch_ref", OF r
      grpc_step.intros(4) [of 0 "execute_arrives ex_grpc_started" ex_call_codec torch_ref "[7]" "Some 9" 4]]
  show ?thesis unfolding ex_grpc_received_def
    by (rule reachable.reach_step [of grpc_init "grpc_step ex_call_codec torch_ref", OF r grpc_step.intros(7)]) (simp add: execute_arrives_def)
qed

text \<open>The same call after its caller has gone, while the executor holds the batch.\<close>

definition ex_grpc_cancelled :: "int grpc_receiver" where
  "ex_grpc_cancelled = handler_cancelled 0 ex_grpc_received"

lemma ex_grpc_cancelled_reachable: "reachable grpc_init (grpc_step ex_call_codec torch_ref) ex_grpc_cancelled"
proof -
  have "0 < length (gv_calls ex_grpc_received)" by code_simp
  then show ?thesis unfolding ex_grpc_cancelled_def
    by (rule reachable.reach_step [of grpc_init "grpc_step ex_call_codec torch_ref", OF ex_grpc_received_reachable grpc_step.intros(5)])
qed

theorem grpc_calls_answered_witness:
  "gc_phase (call_of ex_grpc_received 0) = Awaiting \<and> gc_token_count (call_of ex_grpc_received 0) = 1 \<and>
   gc_phase (call_of (completion_rest ex_call_codec False 0 (snd (complete_success 0 ex_grpc_output ex_grpc_received))) 0) = Replied [7, 0, 8, 0] \<and>
   gc_cancelled (call_of ex_grpc_cancelled 0) \<and>
   gc_phase (call_of (completion_rest ex_call_codec True 0 (snd (complete_success 0 ex_grpc_output ex_grpc_cancelled))) 0) \<notin> {Decoding, Awaiting} \<and>
   entry_of (gv_queue (completion_rest ex_call_codec True 0 (snd (complete_success 0 ex_grpc_output ex_grpc_cancelled)))) 0 = None"
proof -
  have len': "0 < length (gv_calls ex_grpc_cancelled)" by code_simp
  have gone': "gc_cancelled (call_of ex_grpc_cancelled 0)" "gc_job (call_of ex_grpc_cancelled 0) = None" by code_simp+
  have "(case entry_of (gv_queue ex_grpc_cancelled) 0 of Some e \<Rightarrow> qe_state e = ACTIVE | None \<Rightarrow> False)" by code_simp
  then obtain e' where e': "entry_of (gv_queue ex_grpc_cancelled) 0 = Some e'" "qe_state e' = ACTIVE" by (auto split: option.splits)
  have len: "0 < length (gv_calls ex_grpc_received)" by code_simp
  have "(case entry_of (gv_queue ex_grpc_received) 0 of Some e \<Rightarrow> qe_state e = ACTIVE | None \<Rightarrow> False)" by code_simp
  then obtain e where e: "entry_of (gv_queue ex_grpc_received) 0 = Some e" "qe_state e = ACTIVE" by (auto split: option.splits)
  have "gv_spec ex_grpc_started = ex_endpoint" using GrpcWorkerBatchReceiver_spec [OF ex_grpc_started] .
  then have same_spec: "gv_spec ex_grpc_received = ex_endpoint" by (simp add: ex_grpc_received_def spec_kept)
  have "(let c = call_of ex_grpc_received 0 in (gc_job c, gc_phase c, gc_cancelled c, gc_token_count c) = (None, Awaiting, False, 1))"
    by code_simp
  moreover have "ndim ex_grpc_output = 2" "dim0 ex_grpc_output = 1" by code_simp+
  moreover have "encode_success_response ex_call_codec ex_grpc_output ex_endpoint = Inr [7, 0, 8, 0]" by code_simp
  ultimately have c: "gc_job (call_of ex_grpc_received 0) = None" "gc_phase (call_of ex_grpc_received 0) = Awaiting" "\<not> gc_cancelled (call_of ex_grpc_received 0)"
    "ndim ex_grpc_output = 2" "dim0 ex_grpc_output = gc_token_count (call_of ex_grpc_received 0)"
    "encode_success_response ex_call_codec ex_grpc_output (gv_spec ex_grpc_received) = Inr [7, 0, 8, 0]" "gc_token_count (call_of ex_grpc_received 0) = 1"
    by (simp_all add: same_spec Let_def)
  note answered = grpc_calls_answered [OF ex_grpc_received_reachable len, THEN conjunct2, THEN conjunct2]
  have "gc_phase (call_of (completion_rest ex_call_codec False 0 (snd (complete_success 0 ex_grpc_output ex_grpc_received))) 0) = Replied [7, 0, 8, 0]"
    by (rule answered [THEN conjunct2, THEN conjunct2, THEN spec, of e, THEN spec, of ex_grpc_output, THEN spec, of "[7, 0, 8, 0]", THEN mp]) (intro conjI e c)
  moreover have "entry_of (gv_queue (completion_rest ex_call_codec True 0 (snd (complete_success 0 ex_grpc_output ex_grpc_cancelled)))) 0 = None \<and>
    gc_phase (call_of (completion_rest ex_call_codec True 0 (snd (complete_success 0 ex_grpc_output ex_grpc_cancelled))) 0) \<notin> {Decoding, Awaiting}"
    by (rule grpc_calls_answered [OF ex_grpc_cancelled_reachable len', THEN conjunct2, THEN conjunct2, THEN conjunct1,
          THEN spec, of e', THEN spec, of ex_grpc_output, THEN spec, THEN spec, THEN spec, THEN spec, THEN mp])
      (intro conjI e' gone' insertI1)
  ultimately show ?thesis using c(2,7) gone' by blast
qed

end
