(* ===== verification/Spec2Isabelle.thy ===== *)
theory Spec2Isabelle
  imports Execute Receiver_Queue Manager_Coverage Control_Parts Topology_Watcher Shm_Session Drain_Safety Worker_Executor Controller_Link Grpc_Receiver
begin

text \<open>
  \<^bold>\<open>A verification library for ExpertKit.\<close>

  ExpertKit runs the experts of mixture-of-experts language models on remote Workers. The library models
  the Python packages \<open>ek-transport\<close> (the Frontend's side, the wire formats and the Worker's endpoints) and
  \<open>ek-worker\<close> (the Worker process). The Controller is a separate Rust program that both sides know through
  messages only.

  \<^bold>\<open>The program.\<close> A Frontend holds a topology, which maps every expert of every layer to the Workers where
  it is ready. For one routed layer it checks the routing table, selects a replica for each expert, splits
  the assignments into Worker batches, submits them, adds the weighted partial outputs into an accumulator,
  and retries once what failed. A Worker receives batches over gRPC or shared memory into a bounded queue;
  execution slots take them, look up the ready weights, run a backend and respond. In the background the
  Worker loads the experts that the Controller assigned to it (from DRAM, disk, a peer or the central
  server), reports their states, and drains experts before it withdraws their weights.

  \<^bold>\<open>Theories and sources\<close> (paths below \<open>src/ek-transport/src/expertkit_transport/\<close>, marked T, and
  \<open>src/ek-worker/src/expertkit_worker/\<close>, marked W).

  Shared vocabulary:
  \<^item> \<open>EK_Prelude\<close>: insertion-ordered dictionaries, results with exceptions, reachability, the locales
    \<open>invariant_system\<close> and \<open>drain_gate\<close>.
  \<^item> \<open>Errors\<close>: T \<open>errors.py\<close> and the exceptions of both packages; \<open>Grpc_Status\<close>: status codes and call
    outcomes of the gRPC library; \<open>Tensors\<close>: tensors as shape, dtype, device and values, and the torch
    functions whose results the code relies on, with their documented laws \<open>torch_int_doc\<close>.

  The Frontend:
  \<^item> \<open>Batches\<close> (T \<open>batches.py\<close>), \<open>Routing_Topology\<close> (T \<open>routing/topology.py\<close>), \<open>Selection\<close>
    (T \<open>routing/selection.py\<close>), \<open>Routing_Validation\<close> (T \<open>routing/validation.py\<close>,
    \<open>transports/validation.py\<close>), \<open>Grouping\<close> (T \<open>routing/grouping.py\<close>): data, replica selection and the
    exact cover of the routing table by Worker batches.
  \<^item> \<open>Output_Pool\<close> (T \<open>buffers.py\<close>), \<open>Dispatch\<close> (T \<open>routing/dispatch.py\<close>), \<open>Execute\<close>
    (T \<open>routing/execute.py\<close>): the pool of output tensors, concurrent submissions in every completion order,
    and the layer with its bounded retry. The end-to-end result is \<open>execute_layer_exactly_once\<close>.
  \<^item> \<open>Multipart\<close>, \<open>Topology_Messages\<close> (T \<open>controller/messages.py\<close>), \<open>Topology_Watcher\<close>
    (T \<open>controller/topology.py\<close>): topology messages in numbered parts, and the connections that follow the
    installed topology.

  Wire formats and Worker endpoints:
  \<^item> \<open>Wire_Codec\<close> (T \<open>transports/protobuf.py\<close>, \<open>grpc/spec.py\<close>, \<open>grpc/codec.py\<close>): message limits and the
    request round trip; \<open>Shm_Layout\<close> (T \<open>shm/memory.py\<close>) and \<open>Shm_Session\<close> (T \<open>shm/codec.py\<close>,
    \<open>shm/session.py\<close>): segments with disjoint views, and slots with generations.
  \<^item> \<open>Receiver_Queue\<close> (T \<open>transports/queue.py\<close>): admission, drain gates and idle waits;
    \<open>Grpc_Receiver\<close> (T \<open>grpc/receiver.py\<close>): the calls of the gRPC endpoint on top of that queue.

  The Worker:
  \<^item> \<open>Worker_Limits\<close> (W \<open>config/resources.py\<close>, \<open>backends/base.py\<close>, T \<open>transports/base.py\<close>): limits, the
    device memory plan and the data of the backend interface.
  \<^item> \<open>Execution_Slot\<close> (W \<open>execution/slot.py\<close>) and \<open>Worker_Executor\<close> (W \<open>execution/executor.py\<close>): fixed
    storage of one computation, and the loops that take, compute and answer batches.
  \<^item> \<open>Ready_Table\<close> (W \<open>weights/ready.py\<close>), \<open>Dram_Cache\<close> (W \<open>weights/dram_cache.py\<close>), \<open>Safetensors\<close>
    (W \<open>weights/format.py\<close>), \<open>Weight_Loader\<close> (W \<open>weights/loader.py\<close>), \<open>Weight_Manager\<close>,
    \<open>Manager_Invariants\<close> and \<open>Manager_Coverage\<close> (W \<open>weights/manager.py\<close>): the life of a weight from its
    file to its withdrawal.
  \<^item> \<open>Control_Parts\<close> (W \<open>control/parts.py\<close>), \<open>State_Reporter\<close> (W \<open>control/state_reporter.py\<close>),
    \<open>Weight_Stream\<close> and \<open>Drain_Safety\<close> (W \<open>control/weight_stream.py\<close>), \<open>Controller_Link\<close>
    (W \<open>control/lifecycle.py\<close>, \<open>control/supervisor.py\<close>, T \<open>controller/instance.py\<close>): target lists, state
    reports, drains, heartbeats and reconnection. \<open>Drain_Safety\<close> composes the session with the Manager, the
    reporter and the receiver's queue.

  \<^bold>\<open>How code became definitions.\<close> A class is a record of its fields, and each method is a function of that
  record; a constructor keeps the class name and returns the record or the exception it raises. Exceptions
  are values of \<open>exn\<close> in a sum, tried in the order of the source. Python integers are \<open>int\<close> (lengths and
  identities \<open>nat\<close>), machine bounds such as uint64 are the checks of the source, and times are integers.
  A dictionary whose order matters is an association list. Checks of \<open>isinstance\<close> hold by typing.
  Coroutines are cut at their awaits: code between two awaits, or under a held lock, is one atomic operation,
  and interleavings are arbitrary lists of operations or the steps of an inductive relation. Names of the
  form \<open>ex_\<dots>\<close> are concrete inputs of the witnesses.

  \<^bold>\<open>Parameters.\<close> What the source only calls is an argument: torch kernels (\<open>torch_ops\<close>), the protobuf
  encoder, float bytes and UTF-8 (\<open>codec\<close>), the JSON parser, file and HTTP transfers, the transports'
  outcomes, the backend, the clock and the operating system. The laws used of them are named hypotheses
  (\<open>torch_int_doc\<close>, \<open>request_codec_doc\<close>, \<open>env_ok\<close>), satisfied by concrete instances in the witnesses.

  \<^bold>\<open>What the lemmas show.\<close>
  \<^item> Routing and execution: a returned layer is, row by row, the sum of the replies to the planned batches of
    both attempts, and these replies carry every valid assignment exactly once; a retry sends an expert back to
    a process that failed it only when it has no other replica; a layer completes when routes, pools, time and the second attempt allow it.
  \<^item> Ownership: an output tensor, a DRAM lease, a ready weight, a shared-memory slot and an execution slot
    has one owner at a time and nothing is lost. A received batch is answered once unless the loop that
    serves it ends with an exception, and completing or rejecting it frees its place in the receiver's queue,
    also when the caller has gone. Slots are freed whatever the Transport, the backend, the device or the
    closing of a completion raise.
  \<^item> Bounds: queue, cache, device memory, messages, segments and retry delays stay within their limits.
  \<^item> Draining: while weights are withdrawn, no admitted batch uses their experts.
  \<^item> Messages: parts in any order assemble to exactly the sent list; files and requests round-trip; reports
    and heartbeats are numbered without gaps, and the newest change of every expert is reported.
  \<^item> Loads: sources are tried in the documented order until one succeeds or an exception escapes; under the
    conditions of \<open>undisturbed\<close> on placements, cancellations and the loader every assigned expert has a state
    or a load under way; the states sent to the Controller agree with the ready table.

  \<^bold>\<open>Interfaces as locales.\<close> \<open>replica_selector\<close> (interpreted by round robin and used by the grouping),
  \<open>part_assembler\<close> (target lists, drain authorizations, topology messages), \<open>fifo_waiting\<close> (the receiver
  queue), \<open>drain_gate\<close> (receiver queue and ready table), \<open>slot_implementation\<close> (the CPU and the asynchronous
  slot), \<open>invariant_system\<close> (every component with a step relation).

  \<^bold>\<open>Loops.\<close> No definition uses fuel: recursion follows a list or has a termination proof, and a loop that waits for
  other tasks is one pass per wake-up. That such waits end is stated where it holds (\<open>finish_ready_returns\<close>,
  \<open>flush_returns\<close>, \<open>execute_layer_returns\<close>, \<open>grpc_calls_answered\<close>).

  \<^bold>\<open>Not modelled.\<close> The gRPC and shared-memory clients, the shared-memory receiver and the staging buffers (they
  drive the modelled queue, sessions and codecs through the gRPC library, mapped memory and device streams);
  file, HTTP and direct input and output of weights; the numeric backends and device runtimes; construction,
  configuration and command line of the processes; logging, metrics and traces; the vLLM and torch
  integrations; generated protobuf code; the Rust crates.
\<close>

end
